(* ===== verification/Prelude.thy ===== *)
theory Prelude
  imports Main "HOL-Library.Word"
begin

text \<open>
  Shared vocabulary of the development. A Go \<^verbatim>\<open>[]byte\<close> or \<^verbatim>\<open>string\<close> is a HOL \<open>string\<close>:
  a HOL character has exactly 256 values, so a list of characters is a list of bytes and
  \<open>length\<close> counts bytes, as \<^verbatim>\<open>len\<close> does in Go. A Go \<^verbatim>\<open>int64\<close> or \<^verbatim>\<open>int\<close> is an \<open>int\<close> whose
  range is stated with \<open>i64\<close>; where the code's arithmetic can leave the range the
  wrap-around is written out with \<open>wrap64\<close>. The decimal formatting of
  \<^verbatim>\<open>strconv.FormatInt\<close> (Go's standard library) is \<open>fmt_int\<close>.
\<close>

named_theorems bytes_simps \<open>evaluation of byte codes and digit characters\<close>
named_theorems handler_simps \<open>unfolding of the combinators command handlers are written with\<close>

section \<open>Bytes\<close>

type_synonym bytes = string

abbreviation code :: "char \<Rightarrow> nat" where
  "code c \<equiv> of_char c"

lemma code_char_of: "n < 256 \<Longrightarrow> code (char_of n) = n"
  by (simp add: of_char_of)

abbreviation byte_of_char :: "char \<Rightarrow> 8 word" where
  "byte_of_char c \<equiv> of_char c"

abbreviation char_of_byte :: "8 word \<Rightarrow> char" where
  "char_of_byte w \<equiv> char_of (unat w)"

section \<open>Words\<close>

lemma bit_times_2: "bit (x * 2 :: 64 word) j \<longleftrightarrow> 0 < j \<and> j < 64 \<and> bit x (j - 1)"
proof -
  have "x * 2 = push_bit 1 x" by simp
  then show ?thesis by (auto simp: bit_push_bit_iff simp del: push_bit_of_Suc_0 push_bit_Suc)
qed

section \<open>Line ends\<close>

definition CR :: char where "CR = CHR 0x0D"
definition LF :: char where "LF = CHR 0x0A"

section \<open>Signed 64-bit integers\<close>

abbreviation max_i64 :: int where "max_i64 \<equiv> 9223372036854775807"
abbreviation min_i64 :: int where "min_i64 \<equiv> -9223372036854775808"
abbreviation max_u64 :: nat where "max_u64 \<equiv> 18446744073709551615"

definition i64 :: "int \<Rightarrow> bool" where
  "i64 n \<longleftrightarrow> min_i64 \<le> n \<and> n \<le> max_i64"

definition wrap64 :: "int \<Rightarrow> int" where
  "wrap64 n = (n + 9223372036854775808) mod 18446744073709551616 - 9223372036854775808"

lemma wrap64_id [simp]: "i64 n \<Longrightarrow> wrap64 n = n"
  by (simp add: i64_def wrap64_def)

lemma wrap64_i64 [simp]: "i64 (wrap64 n)"
proof -
  define r where "r = (n + 9223372036854775808) mod 18446744073709551616"
  have "0 \<le> r" and "r < 18446744073709551616" by (simp_all add: r_def)
  then show ?thesis by (simp add: i64_def wrap64_def flip: r_def)
qed

lemma i64D: "i64 n \<Longrightarrow> min_i64 \<le> n" "i64 n \<Longrightarrow> n \<le> max_i64"
  by (auto simp: i64_def)

section \<open>Decimal formatting\<close>

definition digit_char :: "nat \<Rightarrow> char" where
  "digit_char d = char_of (48 + d)"

definition is_digit :: "char \<Rightarrow> bool" where
  "is_digit c \<longleftrightarrow> 48 \<le> code c \<and> code c \<le> 57"

definition digit_val :: "char \<Rightarrow> nat" where
  "digit_val c = code c - 48"

fun fmt_nat :: "nat \<Rightarrow> bytes" where
  "fmt_nat n = (if n < 10 then [digit_char n] else fmt_nat (n div 10) @ [digit_char (n mod 10)])"

declare fmt_nat.simps [simp del]

definition fmt_int :: "int \<Rightarrow> bytes" where
  "fmt_int n = (if n < 0 then CHR ''-'' # fmt_nat (nat (- n)) else fmt_nat (nat n))"

definition dec_val :: "nat \<Rightarrow> bytes \<Rightarrow> nat" where
  "dec_val v cs = foldl (\<lambda>v c. v * 10 + digit_val c) v cs"

lemma dec_val_Nil [simp]: "dec_val v [] = v"
  by (simp add: dec_val_def)

lemma dec_val_Cons [simp]: "dec_val v (c # cs) = dec_val (v * 10 + digit_val c) cs"
  by (simp add: dec_val_def)

lemma dec_val_append [simp]: "dec_val v (cs @ ds) = dec_val (dec_val v cs) ds"
  by (simp add: dec_val_def)

lemma dec_val_ge: "v \<le> dec_val v cs"
proof (induction cs arbitrary: v)
  case Nil
  then show ?case by simp
next
  case (Cons c cs)
  have "v \<le> v * 10 + digit_val c" by simp
  also have "\<dots> \<le> dec_val (v * 10 + digit_val c) cs" by (rule Cons.IH)
  finally show ?case by simp
qed

lemma is_digit_digit_char [simp]: "d < 10 \<Longrightarrow> is_digit (digit_char d)"
  by (simp add: is_digit_def digit_char_def)

lemma digit_val_digit_char [simp]: "d < 10 \<Longrightarrow> digit_val (digit_char d) = d"
  by (simp add: digit_val_def digit_char_def)

lemma digit_char_digit_val [simp]: "is_digit c \<Longrightarrow> digit_char (digit_val c) = c"
  by (simp add: is_digit_def digit_char_def digit_val_def)

lemma digit_val_lt [simp]: "is_digit c \<Longrightarrow> digit_val c < 10"
  by (simp add: is_digit_def digit_val_def less_diff_conv2)

lemma digit_char_0 [simp]: "digit_char 0 = CHR ''0''"
  unfolding digit_char_def by (rule of_char_eqI [where ?'a = nat]) simp

lemma digit_char_numeral [simp]:
  "digit_char 1 = CHR ''1''" "digit_char (Suc 0) = CHR ''1''" "digit_char 2 = CHR ''2''"
  "digit_char 3 = CHR ''3''" "digit_char 4 = CHR ''4''" "digit_char 5 = CHR ''5''"
  "digit_char 6 = CHR ''6''" "digit_char 7 = CHR ''7''" "digit_char 8 = CHR ''8''"
  "digit_char 9 = CHR ''9''"
  unfolding digit_char_def by (rule of_char_eqI [where ?'a = nat], simp)+

lemma digit_char_eq_0 [simp]: "d < 10 \<Longrightarrow> digit_char d = CHR ''0'' \<longleftrightarrow> d = 0"
  by (metis digit_char_0 digit_val_digit_char zero_less_numeral)

lemma fmt_nat_digits: "\<forall>c \<in> set (fmt_nat n). is_digit c"
proof (induction n rule: fmt_nat.induct)
  case (1 n)
  then show ?case
    by (cases "n < 10") (auto simp: fmt_nat.simps [of n])
qed

lemma fmt_nat_nonempty [simp]: "fmt_nat n \<noteq> []"
  by (subst fmt_nat.simps) simp

lemma dec_val_fmt_nat [simp]: "dec_val 0 (fmt_nat n) = n"
proof (induction n rule: fmt_nat.induct)
  case (1 n)
  then show ?case
    by (cases "n < 10") (auto simp: fmt_nat.simps [of n])
qed

lemma hd_fmt_nat: "hd (fmt_nat n) = CHR ''0'' \<longleftrightarrow> n = 0"
proof (induction n rule: fmt_nat.induct)
  case (1 n)
  show ?case
  proof (cases "n < 10")
    case True
    then show ?thesis by (simp add: fmt_nat.simps [of n])
  next
    case False
    with "1" show ?thesis by (simp add: fmt_nat.simps [of n])
  qed
qed

text \<open>A digit string without a redundant leading zero is the formatting of its value.\<close>

lemma dec_val_pos:
  assumes "cs \<noteq> []" and "\<forall>c \<in> set cs. is_digit c" and "hd cs \<noteq> CHR ''0''"
  shows "0 < dec_val 0 cs"
proof -
  obtain c ds where cs: "cs = c # ds" using assms(1) by (cases cs) auto
  have "is_digit c" and "c \<noteq> CHR ''0''" using assms cs by auto
  then have "digit_val c \<noteq> 0"
    using digit_char_digit_val [of c] digit_char_0 by metis
  then show ?thesis
    using dec_val_ge [of "digit_val c" ds] cs by (simp del: neq0_conv add: neq0_conv [symmetric])
qed

lemma fmt_nat_dec_val:
  "cs \<noteq> [] \<Longrightarrow> \<forall>c \<in> set cs. is_digit c \<Longrightarrow> hd cs \<noteq> CHR ''0'' \<Longrightarrow> fmt_nat (dec_val 0 cs) = cs"
proof (induction cs rule: rev_induct)
  case Nil
  then show ?case by simp
next
  case (snoc c cs)
  have c: "is_digit c" using snoc.prems by simp
  show ?case
  proof (cases "cs = []")
    case True
    with c show ?thesis by (simp add: fmt_nat.simps)
  next
    case False
    with snoc.prems have ih: "fmt_nat (dec_val 0 cs) = cs" and pos: "0 < dec_val 0 cs"
      using snoc.IH dec_val_pos by (auto simp: hd_append)
    have "digit_val c < 10" using c by simp
    then have "(dec_val 0 cs * 10 + digit_val c) div 10 = dec_val 0 cs"
      and "(dec_val 0 cs * 10 + digit_val c) mod 10 = digit_val c"
      by auto
    moreover have "\<not> dec_val 0 cs * 10 + digit_val c < 10" using pos by simp
    ultimately show ?thesis
      using ih c by (subst fmt_nat.simps) simp
  qed
qed

section \<open>Case folding\<close>

text \<open>
  \<^verbatim>\<open>strings.ToUpper\<close> and \<^verbatim>\<open>strings.ToLower\<close>, as far as a comparison with an ASCII word can see:
  ASCII letters are folded, and so are the letters outside ASCII whose other case is an ASCII
  letter (dotless i and long s upward, dotted capital I and the Kelvin sign downward). Every
  other byte is kept: in Go it belongs to a character whose folding is not ASCII either.
\<close>

definition upper_byte :: "char \<Rightarrow> char" where
  "upper_byte c = (if 97 \<le> code c \<and> code c \<le> 122 then char_of (code c - 32) else c)"

fun ToUpper :: "bytes \<Rightarrow> bytes" where
  "ToUpper [] = []"
| "ToUpper [c] = [upper_byte c]"
| "ToUpper (c # d # s) =
     (if c = CHR 0xC4 \<and> d = CHR 0xB1 then CHR ''I'' # ToUpper s
      else if c = CHR 0xC5 \<and> d = CHR 0xBF then CHR ''S'' # ToUpper s
      else upper_byte c # ToUpper (d # s))"

definition lower_byte :: "char \<Rightarrow> char" where
  "lower_byte c = (if 65 \<le> code c \<and> code c \<le> 90 then char_of (code c + 32) else c)"

fun ToLower :: "bytes \<Rightarrow> bytes" where
  "ToLower [] = []"
| "ToLower [c] = [lower_byte c]"
| "ToLower [c, d] =
     (if c = CHR 0xC4 \<and> d = CHR 0xB0 then ''i'' else lower_byte c # ToLower [d])"
| "ToLower (c # d # e # s) =
     (if c = CHR 0xC4 \<and> d = CHR 0xB0 then CHR ''i'' # ToLower (e # s)
      else if c = CHR 0xE2 \<and> d = CHR 0x84 \<and> e = CHR 0xAA then CHR ''k'' # ToLower s
      else lower_byte c # ToLower (d # e # s))"

lemma find_append: "find P (xs @ ys) = (case find P xs of None \<Rightarrow> find P ys | Some x \<Rightarrow> Some x)"
  by (induction xs) simp_all

end
