(* ===== verification/Resp.thy ===== *)
theory Resp
  imports Prelude
begin

text \<open>
  The RESP2 writer (\<^verbatim>\<open>internal/resp/writer.go\<close>, \<^verbatim>\<open>conn.go\<close>) and the error-class observer of
  \<^verbatim>\<open>internal/server/conn_state.go\<close>. The \<^verbatim>\<open>Append*\<close> encoders are functions on bytes; a command
  handler writes exactly one reply through \<^verbatim>\<open>resp.Writer\<close>, so a handler's output is a value of
  \<open>reply\<close>, one constructor per Writer method, and \<open>write_reply\<close> gives its wire bytes.
  \<open>decode\<close> is a specification of the RESP2 framing a client implements: it returns the value
  read and the unread rest. The round trip shows every reply is self-delimiting, so pipelined
  replies cannot be confused.
\<close>

section \<open>Encoders\<close>

definition crlf :: bytes where
  "crlf = [CR, LF]"

definition AppendSimpleString :: "bytes \<Rightarrow> bytes \<Rightarrow> bytes" where
  "AppendSimpleString dst s = dst @ ''+'' @ s @ crlf"

definition AppendError :: "bytes \<Rightarrow> bytes \<Rightarrow> bytes" where
  "AppendError dst msg = dst @ ''-'' @ msg @ crlf"

definition AppendInt :: "bytes \<Rightarrow> int \<Rightarrow> bytes" where
  "AppendInt dst n = dst @ '':'' @ fmt_int n @ crlf"

definition AppendBulkString :: "bytes \<Rightarrow> bytes \<Rightarrow> bytes" where
  "AppendBulkString dst b = dst @ ''$'' @ fmt_int (int (length b)) @ crlf @ b @ crlf"

definition AppendNullBulk :: "bytes \<Rightarrow> bytes" where
  "AppendNullBulk dst = dst @ ''$-1'' @ crlf"

definition AppendArrayHeader :: "bytes \<Rightarrow> int \<Rightarrow> bytes" where
  "AppendArrayHeader dst n = dst @ ''*'' @ fmt_int n @ crlf"

definition AppendEmptyArray :: "bytes \<Rightarrow> bytes" where
  "AppendEmptyArray dst = dst @ ''*0'' @ crlf"

definition AppendNullArray :: "bytes \<Rightarrow> bytes" where
  "AppendNullArray dst = dst @ ''*-1'' @ crlf"

text \<open>A nil Go slice is \<open>None\<close>; a non-nil one, possibly empty, is \<open>Some\<close>.\<close>

definition AppendBulkArray :: "bytes \<Rightarrow> bytes list option \<Rightarrow> bytes" where
  "AppendBulkArray dst elems =
     (case elems of
        None \<Rightarrow> AppendNullArray dst
      | Some es \<Rightarrow> foldl AppendBulkString (AppendArrayHeader dst (int (length es))) es)"

definition AppendOptBulkArray :: "bytes \<Rightarrow> bytes list \<Rightarrow> bool list \<Rightarrow> bytes" where
  "AppendOptBulkArray dst values present =
     foldl (\<lambda>d i. if present ! i then AppendBulkString d (values ! i) else AppendNullBulk d)
       (AppendArrayHeader dst (int (length present))) [0..<length present]"

section \<open>Error texts\<close>

abbreviation ErrWrongType :: bytes where
  "ErrWrongType \<equiv> ''WRONGTYPE Operation against a key holding the wrong kind of value''"
abbreviation ErrNotInteger :: bytes where
  "ErrNotInteger \<equiv> ''ERR value is not an integer or out of range''"
abbreviation ErrSyntax :: bytes where
  "ErrSyntax \<equiv> ''ERR syntax error''"
abbreviation ErrMSetOddArgs :: bytes where
  "ErrMSetOddArgs \<equiv> ''ERR wrong number of arguments for MSET''"
abbreviation ErrNotValidFloat :: bytes where
  "ErrNotValidFloat \<equiv> ''ERR value is not a valid float''"
abbreviation ErrIncrDecrOverflow :: bytes where
  "ErrIncrDecrOverflow \<equiv> ''ERR increment or decrement would overflow''"
abbreviation ErrScoreOutOfRange :: bytes where
  "ErrScoreOutOfRange \<equiv> ''ERR value is out of range''"
abbreviation ErrIncrNaNOrInfinity :: bytes where
  "ErrIncrNaNOrInfinity \<equiv> ''ERR increment would produce NaN or Infinity''"
abbreviation ErrHashNotInteger :: bytes where
  "ErrHashNotInteger \<equiv> ''ERR hash value is not an integer''"
abbreviation ErrHashNotFloat :: bytes where
  "ErrHashNotFloat \<equiv> ''ERR hash value is not a valid float''"
abbreviation ErrNoAuth :: bytes where
  "ErrNoAuth \<equiv> ''NOAUTH Authentication required.''"
abbreviation ErrValueExceedsBackendLimit :: bytes where
  "ErrValueExceedsBackendLimit \<equiv> ''ERR value exceeds backend limit (400KB)''"
abbreviation ErrBackendThrottled :: bytes where
  "ErrBackendThrottled \<equiv> ''ERR backend throttled, retry later''"
abbreviation ErrBackendError :: bytes where
  "ErrBackendError \<equiv> ''ERR backend error, retry later''"
abbreviation ErrRMWMaxRetries :: bytes where
  "ErrRMWMaxRetries \<equiv> ''ERR read-modify-write exceeded retry limit under contention''"
abbreviation ErrCollectionTooLarge :: bytes where
  "ErrCollectionTooLarge \<equiv> ''ERR collection size exceeds the configured maximum result limit''"
abbreviation ErrOffsetOutOfRange :: bytes where
  "ErrOffsetOutOfRange \<equiv> ''ERR offset is out of range''"
abbreviation ErrInvalidCursor :: bytes where
  "ErrInvalidCursor \<equiv> ''ERR invalid cursor''"
abbreviation ErrInvalidDBIndex :: bytes where
  "ErrInvalidDBIndex \<equiv> ''ERR invalid DB index''"
abbreviation ErrNoSuchKey :: bytes where
  "ErrNoSuchKey \<equiv> ''ERR no such key''"
abbreviation ErrIndexOutOfRange :: bytes where
  "ErrIndexOutOfRange \<equiv> ''ERR index out of range''"
abbreviation ErrNoPasswordSet :: bytes where
  "ErrNoPasswordSet \<equiv> ''ERR Client sent AUTH, but no password is set''"
abbreviation ErrInvalidPassword :: bytes where
  "ErrInvalidPassword \<equiv> ''ERR invalid password''"

text \<open>ASCII lowering: the test for an upper-case byte only avoids an allocation.\<close>

definition toLower :: "bytes \<Rightarrow> bytes" where
  "toLower s =
     (if \<exists>c \<in> set s. 65 \<le> code c \<and> code c \<le> 90 then map lower_byte s else s)"

definition sanitizeErrText :: "bytes \<Rightarrow> bytes" where
  "sanitizeErrText s =
     (if \<exists>c \<in> set s. c = CR \<or> c = LF
      then map (\<lambda>c. if c = CR \<or> c = LF then CHR '' '' else c) s else s)"

definition ErrWrongNumberOfArgs :: "bytes \<Rightarrow> bytes" where
  "ErrWrongNumberOfArgs cmd =
     ''ERR wrong number of arguments for '' @ [CHR 0x27] @ toLower cmd @ [CHR 0x27] @ '' command''"

definition ErrUnknownCommand :: "bytes \<Rightarrow> bytes" where
  "ErrUnknownCommand name =
     ''ERR unknown command '' @ [CHR 0x27] @ sanitizeErrText name @ [CHR 0x27]"

definition ErrInvalidExpireTime :: "bytes \<Rightarrow> bytes" where
  "ErrInvalidExpireTime cmd = ''ERR invalid expire time in '' @ toLower cmd"

section \<open>The Writer\<close>

text \<open>Elements of the replies of the geo commands, which stage nested arrays by hand.\<close>

datatype geo_item = GInt int | GBulk bytes | GNullBulk | GNullArray | GPair bytes bytes

datatype geo_elem = GItem geo_item | GRow "geo_item list"

datatype reply =
    SimpleString bytes
  | Error bytes
  | IntReply int
  | BulkString bytes
  | NullBulk
  | EmptyArray
  | NullArray
  | BulkArray "bytes list option"
  | OptBulkArray "bytes list" "bool list"
  | ScanReply bytes "bytes list"
  | IntArray "int option list"
  | RoleReply
  | SlowlogReply "(int \<times> int \<times> int \<times> bytes list) list"
  | GeoReply "geo_elem list"

text \<open>
  Each Writer method resets the staging buffer, appends one reply and flushes it.
  \<open>ScanReply\<close> is \<^verbatim>\<open>writeScanReply\<close> of \<^verbatim>\<open>internal/command/datacmd.go\<close>, which stages the
  two-element array by hand (a nil item slice is normalised to an empty one), \<open>IntArray\<close> the end
  of BITFIELD's handler: integers, and null for an operation that was skipped. \<open>RoleReply\<close> is the
  reply of ROLE (\<^verbatim>\<open>stub.go\<close>), \<open>SlowlogReply\<close> that of SLOWLOG GET (\<^verbatim>\<open>slowlog.go\<close>): per entry its id, time,
  duration and the command with its arguments. \<open>GeoReply\<close> is an array of members or of rows
  (\<^verbatim>\<open>geo.go\<close>).
\<close>

fun append_geo_item :: "bytes \<Rightarrow> geo_item \<Rightarrow> bytes" where
  "append_geo_item buf (GInt n) = AppendInt buf n"
| "append_geo_item buf (GBulk b) = AppendBulkString buf b"
| "append_geo_item buf GNullBulk = AppendNullBulk buf"
| "append_geo_item buf GNullArray = AppendNullArray buf"
| "append_geo_item buf (GPair a b) = AppendBulkString (AppendBulkString (AppendArrayHeader buf 2) a) b"

fun append_geo_elem :: "bytes \<Rightarrow> geo_elem \<Rightarrow> bytes" where
  "append_geo_elem buf (GItem it) = append_geo_item buf it"
| "append_geo_elem buf (GRow its) = foldl append_geo_item (AppendArrayHeader buf (int (length its))) its"

definition append_slow_entry :: "bytes \<Rightarrow> int \<times> int \<times> int \<times> bytes list \<Rightarrow> bytes" where
  "append_slow_entry buf e =
     (case e of (i, t, dur, words) \<Rightarrow>
        foldl AppendBulkString
          (AppendArrayHeader (AppendInt (AppendInt (AppendInt (AppendArrayHeader buf 4) i) t) dur) (int (length words)))
          words)"

fun write_reply :: "reply \<Rightarrow> bytes" where
  "write_reply (SimpleString s) = AppendSimpleString [] s"
| "write_reply (Error msg) = AppendError [] msg"
| "write_reply (IntReply n) = AppendInt [] n"
| "write_reply (BulkString b) = AppendBulkString [] b"
| "write_reply NullBulk = AppendNullBulk []"
| "write_reply EmptyArray = AppendEmptyArray []"
| "write_reply NullArray = AppendNullArray []"
| "write_reply (BulkArray elems) = AppendBulkArray [] elems"
| "write_reply (OptBulkArray values present) = AppendOptBulkArray [] values present"
| "write_reply (ScanReply cursor items) =
     AppendBulkArray (AppendBulkString (AppendArrayHeader [] 2) cursor) (Some items)"
| "write_reply (IntArray rs) =
     foldl (\<lambda>buf r. case r of None \<Rightarrow> AppendNullBulk buf | Some v \<Rightarrow> AppendInt buf v)
       (AppendArrayHeader [] (int (length rs))) rs"
| "write_reply RoleReply =
     AppendEmptyArray (AppendInt (AppendBulkString (AppendArrayHeader [] 3) ''master'') 0)"
| "write_reply (SlowlogReply es) =
     foldl append_slow_entry (AppendArrayHeader [] (int (length es))) es"
| "write_reply (GeoReply es) =
     foldl append_geo_elem (AppendArrayHeader [] (int (length es))) es"

text \<open>
  \<^verbatim>\<open>observingConn.WriteRaw\<close>: a reply that starts with \<open>-\<close> flips the errored flag and records
  the error class, the first token of the text.
\<close>

definition errCodeFromReply :: "bytes \<Rightarrow> bytes" where
  "errCodeFromReply b =
     (let tok = takeWhile (\<lambda>ch. \<not> (ch = CHR '' '' \<or> ch = CR \<or> ch = LF)) b
      in if tok = [] then ''ERR'' else tok)"

record obs =
  errored :: bool
  errClass :: bytes

definition ResetErrored :: "obs \<Rightarrow> obs" where
  "ResetErrored c = c\<lparr>errored := False, errClass := []\<rparr>"

definition WriteRaw :: "bytes \<Rightarrow> obs \<Rightarrow> obs" where
  "WriteRaw p c =
     (case p of
        [] \<Rightarrow> c
      | ch # rest \<Rightarrow>
          (if ch = CHR ''-'' then c\<lparr>errored := True, errClass := errCodeFromReply rest\<rparr> else c))"

section \<open>The framing a client reads\<close>

datatype resp =
    RSimple bytes
  | RError bytes
  | RInt int
  | RBulk "bytes option"
  | RArray "resp list option"

text \<open>A line ends at the first CR, which must be followed by LF.\<close>

definition split_line :: "bytes \<Rightarrow> (bytes \<times> bytes) option" where
  "split_line s =
     (case dropWhile (\<lambda>c. c \<noteq> CR) s of
        c # d # rest \<Rightarrow> if d = LF then Some (takeWhile (\<lambda>c. c \<noteq> CR) s, rest) else None
      | _ \<Rightarrow> None)"

definition read_nat :: "bytes \<Rightarrow> nat option" where
  "read_nat s = (if s \<noteq> [] \<and> (\<forall>c \<in> set s. is_digit c) then Some (dec_val 0 s) else None)"

definition read_int :: "bytes \<Rightarrow> int option" where
  "read_int s =
     (case s of
        [] \<Rightarrow> None
      | c # cs \<Rightarrow>
          (if c = CHR ''-'' then map_option (\<lambda>n. - int n) (read_nat cs)
           else map_option int (read_nat s)))"

primrec decode_many :: "nat \<Rightarrow> (bytes \<Rightarrow> (resp \<times> bytes) option) \<Rightarrow> bytes \<Rightarrow> (resp list \<times> bytes) option" where
  "decode_many 0 d s = Some ([], s)"
| "decode_many (Suc n) d s =
     (case d s of
        None \<Rightarrow> None
      | Some (r, s') \<Rightarrow> map_option (\<lambda>(rs, s''). (r # rs, s'')) (decode_many n d s'))"

definition decode_bulk :: "int \<Rightarrow> bytes \<Rightarrow> (resp \<times> bytes) option" where
  "decode_bulk n s =
     (if n = -1 then Some (RBulk None, s)
      else if n < 0 \<or> int (length s) < n + 2 \<or> take 2 (drop (nat n) s) \<noteq> crlf then None
      else Some (RBulk (Some (take (nat n) s)), drop (nat n + 2) s))"

text \<open>\<open>decode d\<close> reads a value nested at most \<open>d\<close> deep.\<close>

primrec decode :: "nat \<Rightarrow> bytes \<Rightarrow> (resp \<times> bytes) option" where
  "decode 0 s = None"
| "decode (Suc d) s =
     (case s of
        [] \<Rightarrow> None
      | t # s' \<Rightarrow>
          (case split_line s' of
             None \<Rightarrow> None
           | Some (line, rest) \<Rightarrow>
               if t = CHR ''+'' then Some (RSimple line, rest)
               else if t = CHR ''-'' then Some (RError line, rest)
               else (case read_int line of
                  None \<Rightarrow> None
                | Some n \<Rightarrow>
                    if t = CHR '':'' then Some (RInt n, rest)
                    else if t = CHR ''$'' then decode_bulk n rest
                    else if t = CHR ''*'' then
                      (if n = -1 then Some (RArray None, rest)
                       else if n < 0 then None
                       else map_option (\<lambda>(rs, s''). (RArray (Some rs), s''))
                              (decode_many (nat n) (decode d) rest))
                    else None)))"

text \<open>What each reply means to the client.\<close>

fun geo_item_value :: "geo_item \<Rightarrow> resp" where
  "geo_item_value (GInt n) = RInt n"
| "geo_item_value (GBulk b) = RBulk (Some b)"
| "geo_item_value GNullBulk = RBulk None"
| "geo_item_value GNullArray = RArray None"
| "geo_item_value (GPair a b) = RArray (Some [RBulk (Some a), RBulk (Some b)])"

fun geo_elem_value :: "geo_elem \<Rightarrow> resp" where
  "geo_elem_value (GItem it) = geo_item_value it"
| "geo_elem_value (GRow its) = RArray (Some (map geo_item_value its))"

fun reply_value :: "reply \<Rightarrow> resp" where
  "reply_value (SimpleString s) = RSimple s"
| "reply_value (Error msg) = RError msg"
| "reply_value (IntReply n) = RInt n"
| "reply_value (BulkString b) = RBulk (Some b)"
| "reply_value NullBulk = RBulk None"
| "reply_value EmptyArray = RArray (Some [])"
| "reply_value NullArray = RArray None"
| "reply_value (BulkArray elems) = RArray (map_option (map (\<lambda>b. RBulk (Some b))) elems)"
| "reply_value (OptBulkArray values present) =
     RArray (Some (map (\<lambda>i. RBulk (if present ! i then Some (values ! i) else None))
       [0..<length present]))"
| "reply_value (ScanReply cursor items) =
     RArray (Some [RBulk (Some cursor), RArray (Some (map (\<lambda>b. RBulk (Some b)) items))])"
| "reply_value (IntArray rs) =
     RArray (Some (map (\<lambda>r. case r of None \<Rightarrow> RBulk None | Some v \<Rightarrow> RInt v) rs))"
| "reply_value RoleReply = RArray (Some [RBulk (Some ''master''), RInt 0, RArray (Some [])])"
| "reply_value (SlowlogReply es) =
     RArray (Some (map (\<lambda>(i, t, dur, words).
       RArray (Some [RInt i, RInt t, RInt dur, RArray (Some (map (\<lambda>b. RBulk (Some b)) words))])) es))"
| "reply_value (GeoReply es) = RArray (Some (map geo_elem_value es))"

text \<open>The texts of simple strings and errors are single lines; nothing is asked of bulk data.\<close>

definition line_safe :: "bytes \<Rightarrow> bool" where
  "line_safe s \<longleftrightarrow> CR \<notin> set s \<and> LF \<notin> set s"

fun reply_wf :: "reply \<Rightarrow> bool" where
  "reply_wf (SimpleString s) = line_safe s"
| "reply_wf (Error msg) = line_safe msg"
| "reply_wf _ = True"

section \<open>Facts about the encoders\<close>

lemma split_line_append [simp]:
  "CR \<notin> set s \<Longrightarrow> split_line (s @ CR # LF # rest) = Some (s, rest)"
proof -
  assume s: "CR \<notin> set s"
  then have "dropWhile (\<lambda>c. c \<noteq> CR) (s @ CR # LF # rest) = CR # LF # rest"
    and "takeWhile (\<lambda>c. c \<noteq> CR) (s @ CR # LF # rest) = s"
    by (induction s) auto
  then show ?thesis by (simp add: split_line_def)
qed

lemma digit_not_CR: "is_digit c \<Longrightarrow> c \<noteq> CR" "is_digit c \<Longrightarrow> c \<noteq> CHR ''-''"
  by (auto simp: is_digit_def CR_def)

lemma CR_not_in_fmt_nat [simp]: "CR \<notin> set (fmt_nat n)"
  using fmt_nat_digits digit_not_CR by blast

lemma CR_not_in_fmt_int [simp]: "CR \<notin> set (fmt_int n)"
  by (auto simp: fmt_int_def CR_def [symmetric]) (simp add: CR_def)

lemma read_nat_fmt_nat [simp]: "read_nat (fmt_nat n) = Some n"
  by (simp add: read_nat_def fmt_nat_digits)

lemma hd_fmt_nat_not_minus: "fmt_nat n = c # cs \<Longrightarrow> c \<noteq> CHR ''-''"
  using fmt_nat_digits [of n] digit_not_CR(2) by auto

lemma read_int_fmt_int [simp]: "read_int (fmt_int n) = Some n"
proof (cases "n < 0")
  case True
  then show ?thesis by (simp add: fmt_int_def read_int_def)
next
  case False
  obtain c cs where eq: "fmt_nat (nat n) = c # cs"
    by (cases "fmt_nat (nat n)") auto
  then have "read_nat (c # cs) = Some (nat n)" by (metis read_nat_fmt_nat)
  with False eq hd_fmt_nat_not_minus [OF eq] show ?thesis
    by (simp add: fmt_int_def read_int_def)
qed

lemma fmt_int_inject [simp]: "fmt_int m = fmt_int n \<longleftrightarrow> m = n"
  by (metis option.inject read_int_fmt_int)

lemma decode_bulk_length [simp]:
  "decode_bulk (int (length b)) (b @ CR # LF # rest) = Some (RBulk (Some b), rest)"
  by (simp add: decode_bulk_def crlf_def)

lemma foldl_AppendBulkString:
  "foldl AppendBulkString dst es = dst @ concat (map (AppendBulkString []) es)"
  by (induction es arbitrary: dst) (simp_all add: AppendBulkString_def)

lemma foldl_opt_bulk:
  "foldl (\<lambda>d i. if P i then AppendBulkString d (f i) else AppendNullBulk d) dst is =
   dst @ concat (map (\<lambda>i. if P i then AppendBulkString [] (f i) else AppendNullBulk []) is)"
  by (induction "is" arbitrary: dst) (simp_all add: AppendBulkString_def AppendNullBulk_def)

lemma foldl_int_array:
  "foldl (\<lambda>buf r. case r of None \<Rightarrow> AppendNullBulk buf | Some v \<Rightarrow> AppendInt buf v) dst rs =
   dst @ concat (map (\<lambda>r. case r of None \<Rightarrow> AppendNullBulk [] | Some v \<Rightarrow> AppendInt [] v) rs)"
  by (induction rs arbitrary: dst) (simp_all add: AppendInt_def AppendNullBulk_def split: option.split)

lemma decode_AppendInt [simp]: "decode (Suc d) (AppendInt [] n @ rest) = Some (RInt n, rest)"
  by (simp add: AppendInt_def crlf_def)

lemma decode_AppendBulkString [simp]:
  "decode (Suc d) (AppendBulkString [] b @ rest) = Some (RBulk (Some b), rest)"
  by (simp add: AppendBulkString_def crlf_def)

lemma decode_AppendNullBulk [simp]:
  "decode (Suc d) (AppendNullBulk [] @ rest) = Some (RBulk None, rest)"
proof -
  have "split_line (''-1'' @ CR # LF # rest) = Some (''-1'', rest)"
    by (rule split_line_append) (simp add: CR_def)
  moreover have "read_int ''-1'' = Some (-1)"
    by (simp add: read_int_def read_nat_def is_digit_def digit_val_def)
  ultimately show ?thesis
    by (simp add: AppendNullBulk_def crlf_def decode_bulk_def)
qed

lemma decode_many_concat:
  "(\<And>x rest. x \<in> set xs \<Longrightarrow> d (enc x @ rest) = Some (val x, rest)) \<Longrightarrow>
   decode_many (length xs) d (concat (map enc xs) @ rest) = Some (map val xs, rest)"
  by (induction xs) auto

lemma decode_header:
  "decode (Suc d) (AppendArrayHeader [] (int n) @ s) =
     map_option (\<lambda>(rs, s''). (RArray (Some rs), s'')) (decode_many n (decode d) s)"
  by (simp add: AppendArrayHeader_def crlf_def)

lemma decode_bulk_list:
  "decode (Suc (Suc d)) (AppendBulkArray [] (Some es) @ rest) =
     Some (RArray (Some (map (\<lambda>b. RBulk (Some b)) es)), rest)"
  using decode_many_concat [of es "decode (Suc d)" "AppendBulkString []" "\<lambda>b. RBulk (Some b)" rest]
  by (simp add: AppendBulkArray_def foldl_AppendBulkString decode_header
      del: decode.simps)

lemma AppendBulkArray_dst:
  "AppendBulkArray dst elems = dst @ AppendBulkArray [] elems"
  by (simp add: AppendBulkArray_def foldl_AppendBulkString AppendArrayHeader_def
      AppendNullArray_def split: option.split)

lemma decode_empty_array: "decode (Suc d) (AppendEmptyArray [] @ rest) = Some (RArray (Some []), rest)"
proof -
  have "split_line (''0'' @ CR # LF # rest) = Some (''0'', rest)"
    by (rule split_line_append) (simp add: CR_def)
  then show ?thesis
    by (simp add: AppendEmptyArray_def crlf_def read_int_def read_nat_def is_digit_def digit_val_def)
qed

lemma append_slow_entry_eq:
  "append_slow_entry buf (i, t, dur, words) =
     buf @ AppendArrayHeader [] (int 4) @ AppendInt [] i @ AppendInt [] t @ AppendInt [] dur @ AppendBulkArray [] (Some words)"
  by (simp add: append_slow_entry_def AppendBulkArray_def AppendArrayHeader_def AppendInt_def foldl_AppendBulkString)

lemma foldl_slow_entries: "foldl append_slow_entry buf es = buf @ concat (map (append_slow_entry []) es)"
  by (induction es arbitrary: buf) (auto simp: append_slow_entry_eq)

lemma decode_slow_entry:
  "decode (Suc (Suc (Suc d))) (append_slow_entry [] (i, t, dur, words) @ rest) =
     Some (RArray (Some [RInt i, RInt t, RInt dur, RArray (Some (map (\<lambda>b. RBulk (Some b)) words))]), rest)"
  unfolding append_slow_entry_eq append.left_neutral append_assoc decode_header
  by (simp add: eval_nat_numeral decode_bulk_list del: decode.simps)

lemma decode_null_array: "decode (Suc d) (AppendNullArray [] @ rest) = Some (RArray None, rest)"
proof -
  have "split_line (''-1'' @ CR # LF # rest) = Some (''-1'', rest)"
    by (rule split_line_append) (simp add: CR_def)
  then show ?thesis
    by (simp add: AppendNullArray_def crlf_def read_int_def read_nat_def is_digit_def digit_val_def)
qed

lemma append_geo_item_dst: "append_geo_item buf it = buf @ append_geo_item [] it"
  by (cases it) (simp_all add: AppendInt_def AppendBulkString_def AppendNullBulk_def AppendNullArray_def AppendArrayHeader_def)

lemma foldl_geo_items: "foldl append_geo_item buf its = buf @ concat (map (append_geo_item []) its)"
proof (induction its arbitrary: buf)
  case (Cons it its)
  show ?case
    using Cons [of "append_geo_item buf it"] append_geo_item_dst [of buf it] by simp
qed simp

lemma decode_geo_item: "decode (Suc (Suc d)) (append_geo_item [] it @ rest) = Some (geo_item_value it, rest)"
proof (cases it)
  case (GPair a b)
  have eq: "append_geo_item [] it @ rest =
      AppendArrayHeader [] (int 2) @ AppendBulkString [] a @ AppendBulkString [] b @ rest"
    by (simp add: GPair AppendArrayHeader_def AppendBulkString_def)
  show ?thesis
    unfolding eq decode_header by (simp add: GPair eval_nat_numeral del: decode.simps)
qed (simp_all add: decode_null_array del: decode.simps)

lemma append_geo_elem_dst: "append_geo_elem buf e = buf @ append_geo_elem [] e"
  using append_geo_item_dst [of buf]
  by (cases e) (auto simp: foldl_geo_items AppendArrayHeader_def)

lemma foldl_geo_elems: "foldl append_geo_elem buf es = buf @ concat (map (append_geo_elem []) es)"
proof (induction es arbitrary: buf)
  case (Cons e es)
  show ?case
    using Cons [of "append_geo_elem buf e"] append_geo_elem_dst [of buf e] by simp
qed simp

lemma decode_geo_elem: "decode (Suc (Suc (Suc d))) (append_geo_elem [] e @ rest) = Some (geo_elem_value e, rest)"
proof (cases e)
  case (GItem it)
  then show ?thesis by (simp add: decode_geo_item del: decode.simps)
next
  case (GRow its)
  have "decode_many (length its) (decode (Suc (Suc d))) (concat (map (append_geo_item []) its) @ rest)
      = Some (map geo_item_value its, rest)"
    by (rule decode_many_concat) (rule decode_geo_item)
  then show ?thesis by (simp add: GRow foldl_geo_items decode_header del: decode.simps)
qed

lemma line_safe_append [simp]: "line_safe (s @ t) \<longleftrightarrow> line_safe s \<and> line_safe t"
  by (auto simp: line_safe_def)

lemma sanitizeErrText_safe [simp]: "line_safe (sanitizeErrText s)"
  by (auto simp: sanitizeErrText_def line_safe_def CR_def LF_def)

lemma length_sanitizeErrText [simp]: "length (sanitizeErrText s) = length s"
  by (simp add: sanitizeErrText_def)

lemma sanitizeErrText_id: "line_safe s \<Longrightarrow> sanitizeErrText s = s"
  by (auto simp: sanitizeErrText_def line_safe_def)

lemma line_safe_ErrUnknownCommand: "line_safe (ErrUnknownCommand name)"
  using sanitizeErrText_safe [of name]
  by (simp add: ErrUnknownCommand_def line_safe_def CR_def LF_def)

lemma decode_write_reply:
  assumes "reply_wf r"
  shows "decode (Suc (Suc (Suc (Suc d)))) (write_reply r @ rest) = Some (reply_value r, rest)"
proof (cases r)
  case RoleReply
  have eq: "write_reply r @ rest =
      AppendArrayHeader [] (int 3) @ AppendBulkString [] ''master'' @ AppendInt [] 0 @ AppendEmptyArray [] @ rest"
    by (simp add: RoleReply AppendArrayHeader_def AppendBulkString_def AppendInt_def AppendEmptyArray_def)
  show ?thesis
    unfolding eq decode_header
    by (simp add: RoleReply eval_nat_numeral decode_empty_array del: decode.simps)
next
  case (SlowlogReply es)
  let ?val = "\<lambda>(i, t, dur, words).
      RArray (Some [RInt i, RInt t, RInt dur, RArray (Some (map (\<lambda>b. RBulk (Some b)) words))])"
  have "decode_many (length es) (decode (Suc (Suc (Suc d)))) (concat (map (append_slow_entry []) es) @ rest)
      = Some (map ?val es, rest)"
    by (rule decode_many_concat) (auto simp: decode_slow_entry simp del: decode.simps)
  then show ?thesis
    by (simp add: SlowlogReply foldl_slow_entries decode_header AppendArrayHeader_def [of "_ @ _"] del: decode.simps)
next
  case (GeoReply es)
  have "decode_many (length es) (decode (Suc (Suc (Suc d)))) (concat (map (append_geo_elem []) es) @ rest)
      = Some (map geo_elem_value es, rest)"
    by (rule decode_many_concat) (rule decode_geo_elem)
  then show ?thesis
    by (simp add: GeoReply foldl_geo_elems decode_header del: decode.simps)
next
  case (BulkArray elems)
  then show ?thesis
  proof (cases elems)
    case None
    have "split_line (''-1'' @ CR # LF # rest) = Some (''-1'', rest)"
      by (rule split_line_append) (simp add: CR_def)
    then show ?thesis using BulkArray None
      by (simp add: AppendBulkArray_def AppendNullArray_def crlf_def read_int_def read_nat_def
          is_digit_def digit_val_def)
  next
    case (Some es)
    with BulkArray show ?thesis by (simp add: decode_bulk_list del: decode.simps)
  qed
next
  case (OptBulkArray vs pr)
  let ?enc = "\<lambda>i. if pr ! i then AppendBulkString [] (vs ! i) else AppendNullBulk []"
  let ?val = "\<lambda>i. RBulk (if pr ! i then Some (vs ! i) else None)"
  have "decode_many (length [0..<length pr]) (decode (Suc (Suc (Suc d))))
      (concat (map ?enc [0..<length pr]) @ rest) = Some (map ?val [0..<length pr], rest)"
    by (rule decode_many_concat) (simp del: decode.simps)
  then show ?thesis using OptBulkArray
    by (simp add: AppendOptBulkArray_def foldl_opt_bulk decode_header del: decode.simps)
next
  case (ScanReply cursor items)
  have inner: "decode (Suc (Suc (Suc d))) (AppendBulkArray [] (Some items) @ rest) =
      Some (RArray (Some (map (\<lambda>b. RBulk (Some b)) items)), rest)"
    by (rule decode_bulk_list)
  have eq: "write_reply r @ rest =
      AppendArrayHeader [] (int 2) @ AppendBulkString [] cursor @ AppendBulkArray [] (Some items) @ rest"
    using ScanReply
    using AppendBulkArray_dst [of "AppendBulkString (AppendArrayHeader [] 2) cursor" "Some items"]
    by (simp add: AppendBulkString_def)
  show ?thesis
    unfolding eq decode_header using inner ScanReply
    by (simp add: numeral_2_eq_2 del: decode.simps)
next
  case (IntArray rs)
  let ?enc = "\<lambda>r. case r of None \<Rightarrow> AppendNullBulk [] | Some v \<Rightarrow> AppendInt [] v"
  let ?val = "\<lambda>r. case r of None \<Rightarrow> RBulk None | Some v \<Rightarrow> RInt v"
  have "decode_many (length rs) (decode (Suc (Suc (Suc d)))) (concat (map ?enc rs) @ rest) = Some (map ?val rs, rest)"
    by (rule decode_many_concat) (simp del: decode.simps split: option.split)
  then show ?thesis using IntArray
    by (simp add: foldl_int_array decode_header del: decode.simps)
next
  case EmptyArray
  then show ?thesis by (simp add: decode_empty_array del: decode.simps)
next
  case NullArray
  then show ?thesis by (simp add: decode_null_array del: decode.simps)
next
  case NullBulk
  then show ?thesis by (simp del: decode.simps)
next
  case (BulkString b)
  then show ?thesis by (simp del: decode.simps)
qed (insert assms, simp_all add: AppendSimpleString_def AppendError_def AppendInt_def crlf_def line_safe_def)

section \<open>Properties\<close>

text \<open>
  An error text that holds a carriage return is not read back as one reply: \<open>reply_wf\<close> is needed.
\<close>

lemma unsafe_error_not_decoded:
  assumes "CR \<in> set msg"
  shows "decode (Suc d) (write_reply (Error msg) @ rest) \<noteq> Some (RError msg, rest)"
proof -
  have "set (takeWhile (\<lambda>c. c \<noteq> CR) s) \<inter> {CR} = {}" for s by (auto dest: set_takeWhileD)
  with assms have "l \<noteq> msg" if "split_line s = Some (l, r)" for s l r
    using that by (auto simp: split_line_def split: list.splits if_splits)
  then show ?thesis by (auto simp: AppendError_def split: option.splits)
qed

text \<open>
  C1: any pipelined sequence of replies whose status and error texts hold no carriage return or line
  feed decodes to exactly the values written, with nothing of what follows consumed: such replies are
  self-delimiting, bulk payloads may hold any bytes. The condition on the texts is needed: an error
  text with a carriage return in it is never read back as the one reply it was written as.
\<close>

theorem pipelined_replies_decode:
  shows "(list_all reply_wf rs \<longrightarrow>
      decode_many (length rs) (decode (Suc (Suc (Suc (Suc d))))) (concat (map write_reply rs) @ rest) =
      Some (map reply_value rs, rest)) \<and>
    (CR \<in> set msg \<longrightarrow>
      decode (Suc (Suc (Suc (Suc d)))) (write_reply (Error msg) @ rest) \<noteq> Some (reply_value (Error msg), rest))"
  using decode_many_concat [of rs "decode (Suc (Suc (Suc (Suc d))))" write_reply reply_value rest]
    decode_write_reply unsafe_error_not_decoded [of msg "Suc (Suc (Suc d))" rest]
  by (simp add: list_all_iff del: decode.simps decode_many.simps)

theorem pipelined_replies_decode_witness:
  "decode_many (Suc (Suc (Suc 0))) (decode (Suc (Suc (Suc (Suc 0)))))
     (concat (map write_reply [SimpleString ''OK'', BulkString [CR, LF], ScanReply ''0'' [''a'']]) @ ''x'')
   = Some (map reply_value [SimpleString ''OK'', BulkString [CR, LF], ScanReply ''0'' [''a'']], ''x'')"
  using pipelined_replies_decode [of "[SimpleString ''OK'', BulkString [CR, LF], ScanReply ''0'' [''a'']]" 0 "''x''"]
  by (simp add: line_safe_def CR_def LF_def del: decode.simps decode_many.simps)

text \<open>
  the unknown-command error is a single line whatever bytes the client sent as the command
  name, so an error reply cannot be used to inject a second reply.
\<close>

lemma unknown_command_reply_framed:
  "decode (Suc (Suc (Suc (Suc d)))) (write_reply (Error (ErrUnknownCommand name)) @ rest) =
     Some (RError (ErrUnknownCommand name), rest)"
  using decode_write_reply [of "Error (ErrUnknownCommand name)"]
  by (simp add: line_safe_ErrUnknownCommand del: decode.simps)

end
