(* ===== verification/Args.thy ===== *)
theory Args
  imports Resp
begin

text \<open>
  Argument parsing (\<^verbatim>\<open>internal/command/args.go\<close>) and the stored-integer parser of
  \<^verbatim>\<open>internal/storage/store_strings.go\<close>. Both keep the digits in a \<^verbatim>\<open>uint64\<close> and reject before the
  accumulator wraps; the model keeps the same guard and the same accumulator. The main result is
  that \<open>ParseInt\<close> accepts exactly the canonical decimal forms of the signed 64-bit integers.
\<close>

section \<open>Definitions\<close>

datatype arg_error = ArgNotInteger | ArgSyntax | ArgNotFloat

definition WriteArgError :: "arg_error \<Rightarrow> reply" where
  "WriteArgError e =
     (case e of
        ArgNotInteger \<Rightarrow> Error ErrNotInteger
      | ArgNotFloat \<Rightarrow> Error ErrNotValidFloat
      | ArgSyntax \<Rightarrow> Error ErrSyntax)"

definition maxInt64Abs :: nat where "maxInt64Abs = 9223372036854775807"
definition minInt64Abs :: nat where "minInt64Abs = 9223372036854775808"

text \<open>The digit loop: \<open>v\<close> is the \<^verbatim>\<open>uint64\<close> accumulator, guarded before it can wrap.\<close>

fun digit_loop :: "nat \<Rightarrow> bytes \<Rightarrow> nat option" where
  "digit_loop v [] = Some v"
| "digit_loop v (c # cs) =
     (if code c < 48 \<or> 57 < code c then None
      else let d = code c - 48 in
        if v > (max_u64 - d) div 10 then None
        else digit_loop ((v * 10 + d) mod 2 ^ 64) cs)"

definition int64_of_abs :: "bool \<Rightarrow> nat \<Rightarrow> int option" where
  "int64_of_abs negative v =
     (if negative then
        (if v > minInt64Abs then None
         else if v = minInt64Abs then Some min_i64
         else Some (- int v))
      else if v > maxInt64Abs then None
      else Some (int v))"

definition ParseInt :: "bytes \<Rightarrow> arg_error + int" where
  "ParseInt arg =
     (if arg = [] then Inl ArgNotInteger
      else if length arg = 1 \<and> arg ! 0 = CHR ''0'' then Inr 0
      else
        let negative = (arg ! 0 = CHR ''-''); rest = (if negative then drop 1 arg else arg) in
        case rest of
          [] \<Rightarrow> Inl ArgNotInteger
        | c # cs \<Rightarrow>
            if code c < 49 \<or> 57 < code c then Inl ArgNotInteger
            else (case digit_loop (code c - 48) cs of
                None \<Rightarrow> Inl ArgNotInteger
              | Some v \<Rightarrow>
                  (case int64_of_abs negative v of
                     None \<Rightarrow> Inl ArgNotInteger
                   | Some n \<Rightarrow> Inr n)))"

text \<open>
  \<^verbatim>\<open>strconv.ParseUint(s, 10, 64)\<close> of Go's standard library: a non-empty digit string (leading
  zeros allowed, no sign) whose value fits in 64 bits.
\<close>

definition ParseUint :: "bytes \<Rightarrow> nat option" where
  "ParseUint s =
     (if s \<noteq> [] \<and> (\<forall>c \<in> set s. is_digit c) \<and> dec_val 0 s \<le> max_u64 then Some (dec_val 0 s) else None)"

definition parseScanCursor :: "bytes \<Rightarrow> nat option" where
  "parseScanCursor arg =
     (case arg of
        [] \<Rightarrow> Some 0
      | c # cs \<Rightarrow>
          if c = CHR ''+'' \<or> c = CHR ''-'' then
            (case ParseUint cs of
               None \<Rightarrow> None
             | Some n \<Rightarrow> if c = CHR ''-'' \<and> n \<noteq> 0 then None else Some n)
          else ParseUint arg)"

section \<open>The digit loop computes the decimal value\<close>

lemma not_digit_iff: "(code c < 48 \<or> 57 < code c) \<longleftrightarrow> \<not> is_digit c"
  by (auto simp: is_digit_def)

lemma digit_loop_spec:
  "v \<le> max_u64 \<Longrightarrow>
   digit_loop v cs = (if (\<forall>c \<in> set cs. is_digit c) \<and> dec_val v cs \<le> max_u64 then Some (dec_val v cs) else None)"
proof (induction cs arbitrary: v)
  case Nil
  then show ?case by simp
next
  case (Cons c cs)
  show ?case
  proof (cases "is_digit c")
    case False
    then show ?thesis using not_digit_iff [of c] by auto
  next
    case True
    let ?d = "digit_val c"
    have d: "?d < 10" using True by simp
    have dv: "code c - 48 = ?d" by (simp add: digit_val_def)
    show ?thesis
    proof (cases "v > (max_u64 - ?d) div 10")
      case big: True
      then have "max_u64 < v * 10 + ?d" using d by linarith
      also have "\<dots> \<le> dec_val (v * 10 + ?d) cs" by (rule dec_val_ge)
      finally show ?thesis using big True not_digit_iff [of c] dv by (auto simp: Let_def)
    next
      case small: False
      then have le: "v * 10 + ?d \<le> max_u64" using d by linarith
      then have "digit_loop v (c # cs) = digit_loop (v * 10 + ?d) cs"
        using small True not_digit_iff [of c] dv by (simp add: Let_def)
      with Cons.IH [OF le] True show ?thesis by simp
    qed
  qed
qed

lemma digit_loop_from_0:
  "is_digit c \<Longrightarrow> digit_loop (code c - 48) cs =
     (if (\<forall>d \<in> set cs. is_digit d) \<and> dec_val 0 (c # cs) \<le> max_u64 then Some (dec_val 0 (c # cs)) else None)"
  using digit_loop_spec [of "digit_val c" cs]
  by (simp add: digit_val_def [symmetric] order.trans [OF less_imp_le [OF digit_val_lt]])

lemma nonzero_digit_iff: "\<not> (code c < 49 \<or> 57 < code c) \<longleftrightarrow> is_digit c \<and> c \<noteq> CHR ''0''"
proof -
  have "code c = 48 \<longleftrightarrow> c = CHR ''0''"
    using of_char_eq_iff [of c "CHR ''0''", where ?'a = nat] by simp
  then show ?thesis by (auto simp: is_digit_def)
qed

section \<open>ParseInt accepts exactly the canonical decimals\<close>

text \<open>The tail of \<open>ParseInt\<close> after the optional sign.\<close>

definition parse_abs :: "bool \<Rightarrow> bytes \<Rightarrow> int option" where
  "parse_abs negative rest =
     (case rest of
        [] \<Rightarrow> None
      | c # cs \<Rightarrow>
          if code c < 49 \<or> 57 < code c then None
          else Option.bind (digit_loop (code c - 48) cs) (int64_of_abs negative))"

lemma ParseInt_parse_abs:
  "ParseInt arg =
     (if arg = [] then Inl ArgNotInteger
      else if arg = ''0'' then Inr 0
      else case parse_abs (hd arg = CHR ''-'') (if hd arg = CHR ''-'' then tl arg else arg) of
          None \<Rightarrow> Inl ArgNotInteger | Some n \<Rightarrow> Inr n)"
proof (cases arg)
  case (Cons a as)
  have tail: "ParseInt arg =
      (case parse_abs (a = CHR ''-'') (if a = CHR ''-'' then as else arg) of
         None \<Rightarrow> Inl ArgNotInteger | Some n \<Rightarrow> Inr n)" if "arg \<noteq> ''0''"
  proof -
    have "\<not> (length arg = 1 \<and> arg ! 0 = CHR ''0'')" using that Cons by auto
    then show ?thesis
      unfolding ParseInt_def parse_abs_def Let_def Cons
      by (cases "a = CHR ''-''"; cases as)
        (auto simp del: digit_loop.simps split: option.split)
  qed
  show ?thesis
  proof (cases "arg = ''0''")
    case True
    then show ?thesis by (simp add: ParseInt_def)
  next
    case False
    with tail Cons show ?thesis by auto
  qed
qed (simp add: ParseInt_def)

lemma parse_abs_Some:
  "parse_abs negative rest = Some n \<longleftrightarrow>
     0 < \<bar>n\<bar> \<and> (n < 0 \<longleftrightarrow> negative) \<and> i64 n \<and> rest = fmt_nat (nat \<bar>n\<bar>)"
  (is "?L \<longleftrightarrow> ?R")
proof
  assume ?L
  then obtain c cs v where rest: "rest = c # cs" and c: "is_digit c" "c \<noteq> CHR ''0''"
    and v: "digit_loop (code c - 48) cs = Some v" "int64_of_abs negative v = Some n"
    using nonzero_digit_iff
    by (auto simp: parse_abs_def bind_eq_Some_conv split: list.splits if_splits)
  from v(1) c(1) have ds: "\<forall>d \<in> set rest. is_digit d" and val: "v = dec_val 0 rest"
    by (auto simp: digit_loop_from_0 rest split: if_splits)
  then have "fmt_nat v = rest" and "0 < v"
    using c rest fmt_nat_dec_val [of rest] dec_val_pos [of rest] by auto
  with v(2) show ?R
    by (auto simp: int64_of_abs_def minInt64Abs_def maxInt64Abs_def i64_def split: if_splits)
next
  assume R: ?R
  let ?v = "nat \<bar>n\<bar>"
  have "rest \<noteq> []" using R fmt_nat_nonempty by metis
  then obtain c cs where rest: "rest = c # cs" by (cases rest) auto
  have ds: "\<forall>d \<in> set rest. is_digit d" using R fmt_nat_digits by blast
  have "hd rest \<noteq> CHR ''0''" using R hd_fmt_nat [of ?v] by simp
  then have c0: "c \<noteq> CHR ''0''" using rest by simp
  have val: "dec_val 0 rest = ?v" using R by simp
  have le: "?v \<le> max_u64" using R by (auto simp: i64_def)
  have "\<not> (code c < 49 \<or> 57 < code c)" using ds rest c0 by (subst nonzero_digit_iff) simp
  moreover have "digit_loop (code c - 48) cs = Some ?v"
    using ds rest val le by (subst digit_loop_from_0) auto
  moreover have "int64_of_abs negative ?v = Some n"
    using R by (auto simp: int64_of_abs_def minInt64Abs_def maxInt64Abs_def i64_def)
  ultimately show ?L by (simp add: parse_abs_def rest)
qed

lemma fmt_int_0: "fmt_int 0 = ''0''"
  by (subst fmt_int_def, subst fmt_nat.simps) (simp add: digit_char_0)

lemma ParseInt_iff:
  "ParseInt s = Inr n \<longleftrightarrow> i64 n \<and> s = fmt_int n"
proof (cases "s = [] \<or> s = ''0''")
  case True
  have "fmt_int n = ''0'' \<longleftrightarrow> n = 0"
    using read_int_fmt_int [of n] by (auto simp: read_int_def read_nat_def fmt_int_def fmt_nat.simps
        digit_char_0 is_digit_def digit_val_def)
  moreover have "fmt_int n \<noteq> []" by (simp add: fmt_int_def)
  ultimately show ?thesis
    using True by (auto simp: ParseInt_parse_abs i64_def)
next
  case False
  then obtain a as where s: "s = a # as" by (cases s) auto
  show ?thesis
  proof (cases "a = CHR ''-''")
    case True
    have "ParseInt s = Inr n \<longleftrightarrow> parse_abs True as = Some n"
      using False s True by (simp add: ParseInt_parse_abs split: option.split)
    also have "\<dots> \<longleftrightarrow> i64 n \<and> s = fmt_int n"
      using s True hd_fmt_nat_not_minus [of "nat n" a as]
      by (auto simp: parse_abs_Some fmt_int_def)
    finally show ?thesis .
  next
    case nominus: False
    have "ParseInt s = Inr n \<longleftrightarrow> parse_abs False s = Some n"
      using False s nominus by (auto simp: ParseInt_parse_abs split: option.split)
    also have "\<dots> \<longleftrightarrow> i64 n \<and> s = fmt_int n"
    proof
      assume "parse_abs False s = Some n"
      then show "i64 n \<and> s = fmt_int n" by (auto simp: parse_abs_Some fmt_int_def)
    next
      assume R: "i64 n \<and> s = fmt_int n"
      with s nominus have "0 \<le> n" by (auto simp: fmt_int_def split: if_splits)
      moreover have "n \<noteq> 0" using R False fmt_int_0 by metis
      ultimately show "parse_abs False s = Some n"
        using R by (simp add: parse_abs_Some fmt_int_def)
    qed
    finally show ?thesis .
  qed
qed

lemma ParseInt_i64: "ParseInt s = Inr n \<Longrightarrow> i64 n"
  by (auto simp: ParseInt_parse_abs parse_abs_Some i64_def split: if_splits option.splits)

lemma ParseInt_fmt: "i64 n \<Longrightarrow> ParseInt (fmt_int n) = Inr n"
  by (simp add: ParseInt_iff)

text \<open>
  C2: \<open>ParseInt\<close> accepts a byte string exactly when it is the canonical decimal form (what
  \<^verbatim>\<open>strconv.FormatInt\<close> prints) of a signed 64-bit integer, and returns that integer: no leading
  zero, plus sign, blank or out-of-range value gets through, and every int64 does.
  Everything else is an error.
\<close>

theorem ParseInt_canonical:
  "(ParseInt s = Inr n \<longleftrightarrow> i64 n \<and> s = fmt_int n) \<and>
   ((\<exists>err. ParseInt s = Inl err) \<longleftrightarrow> \<not> (\<exists>k. i64 k \<and> s = fmt_int k))"
proof -
  have "(\<exists>err. ParseInt s = Inl err) \<longleftrightarrow> (\<nexists>k. ParseInt s = Inr k)" by (cases "ParseInt s") auto
  then show ?thesis by (auto simp: ParseInt_iff)
qed

end
