(* ===== verification/Ranges.thy ===== *)
theory Ranges
  imports Args
begin

text \<open>
  Index-range resolution: the four routines that turn a client's [start, stop] pair into slice
  bounds (\<^verbatim>\<open>rangeBounds\<close> for GETRANGE, \<^verbatim>\<open>byteRange\<close> for BITCOUNT/BITPOS,
  \<^verbatim>\<open>ZNormalizeRankRange\<close> for LTRIM and the rank ranges, \<^verbatim>\<open>rangeResultCount\<close> for the result cap).
  Every addition is on \<^verbatim>\<open>int64\<close> and written with \<open>wrap64\<close>; the bounds theorems show that no
  64-bit argument wraps or leaves the slice.
\<close>

section \<open>Definitions\<close>

definition rangeBounds :: "int \<Rightarrow> int \<Rightarrow> int \<Rightarrow> int \<times> int" where
  "rangeBounds strlen start0 end0 =
     (if start0 < 0 \<and> end0 < 0 \<and> start0 > end0 then (0, 0)
      else
        let start1 = (if start0 < 0 then wrap64 (strlen + start0) else start0);
            end1 = (if end0 < 0 then wrap64 (strlen + end0) else end0);
            start2 = (if start1 < 0 then 0 else start1);
            end2 = (if end1 < 0 then 0 else end1);
            end3 = (if end2 \<ge> strlen then wrap64 (strlen - 1) else end2)
        in if start2 > end3 then (0, 0) else (start2, wrap64 (end3 + 1)))"

definition byteRange :: "int \<Rightarrow> int \<Rightarrow> int \<Rightarrow> int \<times> int" where
  "byteRange n start0 end0 =
     (let start1 = (if start0 < 0 then wrap64 (start0 + n) else start0);
          end1 = (if end0 < 0 then wrap64 (end0 + n) else end0);
          start2 = (if start1 < 0 then 0 else start1);
          end2 = (if end1 < 0 then 0 else end1);
          end3 = (if end2 \<ge> n then wrap64 (n - 1) else end2)
      in if start2 > end3 \<or> n = 0 then (1, 0) else (start2, end3))"

definition rangeResultCount :: "int \<Rightarrow> int \<Rightarrow> int \<Rightarrow> int" where
  "rangeResultCount clen start0 stop0 =
     (if clen \<le> 0 then 0
      else
        let start1 = (if start0 < 0 then wrap64 (start0 + clen) else start0);
            stop1 = (if stop0 < 0 then wrap64 (stop0 + clen) else stop0);
            start2 = (if start1 < 0 then 0 else start1);
            stop2 = (if stop1 \<ge> clen then wrap64 (clen - 1) else stop1)
        in if start2 > stop2 then 0 else wrap64 (wrap64 (stop2 - start2) + 1))"

definition ZNormalizeRankRange :: "int \<Rightarrow> int \<Rightarrow> int \<Rightarrow> (int \<times> int) option" where
  "ZNormalizeRankRange n start0 stop0 =
     (if n = 0 then None
      else
        let start1 = (if start0 < 0 then (let s = wrap64 (start0 + n) in if s < 0 then 0 else s) else start0);
            stop1 = (if stop0 < 0 then wrap64 (stop0 + n) else stop0);
            stop2 = (if stop1 \<ge> n then wrap64 (n - 1) else stop1)
        in if start1 \<ge> n \<or> stop2 < 0 \<or> start1 > stop2 then None else Some (start1, stop2))"

text \<open>The Go slice expression \<open>s[lo:hi]\<close>; a bound outside the slice panics in Go (\<open>None\<close>).\<close>

definition go_slice :: "'a list \<Rightarrow> int \<Rightarrow> int \<Rightarrow> 'a list option" where
  "go_slice xs lo hi =
     (if 0 \<le> lo \<and> lo \<le> hi \<and> hi \<le> int (length xs) then Some (take (nat (hi - lo)) (drop (nat lo) xs)) else None)"

section \<open>No wrap-around\<close>

lemma wrap64_neg_add:
  "0 \<le> n \<Longrightarrow> i64 n \<Longrightarrow> i64 k \<Longrightarrow> k < 0 \<Longrightarrow> wrap64 (n + k) = n + k"
  "0 \<le> n \<Longrightarrow> i64 n \<Longrightarrow> i64 k \<Longrightarrow> k < 0 \<Longrightarrow> wrap64 (k + n) = k + n"
  by (simp_all add: i64_def)

lemma wrap64_pred: "0 \<le> n \<Longrightarrow> i64 n \<Longrightarrow> wrap64 (n - 1) = n - 1"
  by (simp add: i64_def)

lemma wrap64_nonneg: "0 \<le> n \<Longrightarrow> n \<le> max_i64 \<Longrightarrow> wrap64 n = n"
  by (simp add: i64_def)

lemmas range_defs = rangeBounds_def byteRange_def rangeResultCount_def ZNormalizeRankRange_def Let_def

lemma rangeBounds_eq:
  assumes "0 < n" "i64 n" "i64 s" "i64 e"
  shows "rangeBounds n s e =
    (if s < 0 \<and> e < 0 \<and> s > e then (0, 0)
     else let lo = (if s < 0 then max 0 (n + s) else s);
              hi = min (n - 1) (if e < 0 then max 0 (n + e) else e)
          in if lo > hi then (0, 0) else (lo, hi + 1))"
  using assms
  by (auto simp: rangeBounds_def Let_def wrap64_neg_add wrap64_pred wrap64_nonneg i64_def max_def min_def)

lemma byteRange_eq:
  assumes "0 \<le> n" "i64 n" "i64 s" "i64 e"
  shows "byteRange n s e =
    (let lo = (if s < 0 then max 0 (n + s) else s);
         hi = min (n - 1) (if e < 0 then max 0 (n + e) else e)
     in if lo > hi \<or> n = 0 then (1, 0) else (lo, hi))"
  using assms
  by (auto simp: byteRange_def Let_def wrap64_neg_add wrap64_pred max_def min_def add.commute)

lemma rangeResultCount_eq:
  assumes "0 \<le> n" "i64 n" "i64 s" "i64 e"
  shows "rangeResultCount n s e =
    (let lo = (if s < 0 then max 0 (n + s) else s);
         hi = min (n - 1) (if e < 0 then n + e else e)
     in if lo > hi then 0 else hi - lo + 1)"
  using assms
  by (auto simp: rangeResultCount_def Let_def wrap64_neg_add wrap64_pred wrap64_nonneg i64_def
      max_def min_def add.commute)

lemma ZNormalizeRankRange_eq:
  assumes "0 \<le> n" "i64 n" "i64 s" "i64 e"
  shows "ZNormalizeRankRange n s e =
    (let lo = (if s < 0 then max 0 (n + s) else s);
         hi = min (n - 1) (if e < 0 then n + e else e)
     in if lo > hi then None else Some (lo, hi))"
  using assms
  by (auto simp: ZNormalizeRankRange_def Let_def wrap64_neg_add wrap64_pred max_def min_def add.commute)

section \<open>Bounds\<close>

lemma ZNormalizeRankRange_bounds:
  assumes "0 \<le> n" "i64 n" "i64 s" "i64 e" "ZNormalizeRankRange n s e = Some (lo, hi)"
  shows "0 \<le> lo \<and> lo \<le> hi \<and> hi < n"
  using assms by (auto simp: ZNormalizeRankRange_eq Let_def max_def min_def split: if_splits)

lemma byteRange_bounds:
  assumes "0 \<le> n" "i64 n" "i64 s" "i64 e" "byteRange n s e = (lo, hi)" "lo \<le> hi"
  shows "0 \<le> lo \<and> hi < n"
  using assms by (auto simp: byteRange_eq Let_def max_def min_def split: if_splits)

text \<open>
  for any 64-bit start and end, the GETRANGE bounds are a valid half-open slice of the string
  (the Go slice expression cannot panic), and the number of bytes selected is the generic range
  count, except for Redis's two corner rules: both indices negative and inverted selects nothing,
  and an end before the first byte is clamped to it.
\<close>

lemma rangeBounds_slice:
  assumes "0 < n" "i64 n" "i64 s" "i64 e" "rangeBounds n s e = (lo, hi)"
  shows "0 \<le> lo \<and> lo \<le> hi \<and> hi \<le> n \<and>
    hi - lo = (if s < 0 \<and> e < 0 \<and> s > e then 0 else rangeResultCount n s (max e (- n)))"
proof -
  have "i64 (max e (- n))" using assms by (auto simp: i64_def max_def)
  with assms show ?thesis
    by (auto simp: rangeBounds_eq rangeResultCount_eq Let_def max_def min_def split: if_splits)
qed

lemma rangeBounds_slice_instance:
  "0 \<le> (0::int) \<and> 0 \<le> (1::int) \<and> 1 \<le> (5::int) \<and>
   1 - 0 = (if (-100::int) < 0 \<and> (-50::int) < 0 \<and> (-100::int) > -50 then 0
            else rangeResultCount 5 (-100) (max (-50) (- 5)))"
proof -
  have "rangeBounds 5 (-100) (-50) = (0, 1)" by (simp add: rangeBounds_def wrap64_def Let_def)
  then show ?thesis using rangeBounds_slice [of 5 "-100" "-50" 0 1] by (simp add: i64_def)
qed

text \<open>
  the result cap is checked on exactly the number of elements the range read selects: the count
  computed from the maintained length agrees with the rank range used for the slice, whose bounds
  are always inside the list.
\<close>

lemma rangeResultCount_exact:
  assumes "0 \<le> n" "i64 n" "i64 s" "i64 e"
  shows "rangeResultCount n s e =
    (case ZNormalizeRankRange n s e of None \<Rightarrow> 0 | Some (lo, hi) \<Rightarrow> hi - lo + 1) \<and>
    0 \<le> rangeResultCount n s e \<and> rangeResultCount n s e \<le> n"
  using assms
  by (auto simp: rangeResultCount_eq ZNormalizeRankRange_eq Let_def max_def min_def split: if_splits)

lemma rangeResultCount_exact_witness:
  "rangeResultCount 5 (-3) 100 =
    (case ZNormalizeRankRange 5 (-3) 100 of None \<Rightarrow> 0 | Some (lo, hi) \<Rightarrow> hi - lo + 1) \<and>
    0 \<le> rangeResultCount 5 (-3) 100 \<and> rangeResultCount 5 (-3) 100 \<le> 5"
  using rangeResultCount_exact [of 5 "-3" 100] by (simp add: i64_def)

end
