(* ===== verification/Float64.thy ===== *)
theory Float64
  imports Prelude Complex_Main "HOL-Library.Log_Nat"
begin

text \<open>
  Go's \<^verbatim>\<open>float64\<close>: the IEEE 754 doubles, their arithmetic with rounding to nearest, ties to even, and the
  conversions of \<^verbatim>\<open>strconv\<close> the repository uses. A finite non-zero double is its integer mantissa and
  binary exponent, so everything computes on integers; \<open>rv\<close> reads it as a real number. The section
  on rounding shows when a ratio rounds to a given double; the last one that the 17 digits of
  \<^verbatim>\<open>FormatFloat(x, 'g', 17, 64)\<close> determine \<open>x\<close>.
\<close>

section \<open>Doubles\<close>

text \<open>The sign of infinities and zeros is true for negative; \<open>FFin m e\<close> is \<open>m * 2 ^ e\<close>.\<close>

datatype f64 = FNaN | FInf bool | FZero bool | FFin int int

definition f64_ok :: "f64 \<Rightarrow> bool" where
  "f64_ok x =
     (case x of
        FFin m e \<Rightarrow> m \<noteq> 0 \<and> \<bar>m\<bar> < 2 ^ 53 \<and> -1074 \<le> e \<and> e \<le> 971 \<and> (2 ^ 52 \<le> \<bar>m\<bar> \<or> e = -1074)
      | _ \<Rightarrow> True)"

definition finite64 :: "f64 \<Rightarrow> bool" where
  "finite64 x = (case x of FNaN \<Rightarrow> False | FInf _ \<Rightarrow> False | _ \<Rightarrow> True)"

definition mant :: "f64 \<Rightarrow> int" where
  "mant x = (case x of FFin m e \<Rightarrow> m | _ \<Rightarrow> 0)"

definition expo :: "f64 \<Rightarrow> int" where
  "expo x = (case x of FFin m e \<Rightarrow> e | _ \<Rightarrow> 0)"

definition rv :: "f64 \<Rightarrow> real" where
  "rv x = real_of_int (mant x) * 2 powi expo x"

section \<open>Rounding a ratio\<close>

text \<open>Nearest integer to \<open>n / d\<close>, ties to even.\<close>

definition rne :: "int \<Rightarrow> int \<Rightarrow> int" where
  "rne n d =
     (let q = n div d; r = n mod d in
      if 2 * r < d \<or> (2 * r = d \<and> even q) then q else q + 1)"

text \<open>Numerator and denominator of \<open>n / (d * b ^ e)\<close>, and the exponent of \<open>n / d\<close> to base \<open>b\<close>.\<close>

definition scale_num :: "int \<Rightarrow> int \<Rightarrow> int \<Rightarrow> int" where
  "scale_num b n e = (if e \<ge> 0 then n else n * b ^ nat (- e))"

definition scale_den :: "int \<Rightarrow> int \<Rightarrow> int \<Rightarrow> int" where
  "scale_den b d e = (if e \<ge> 0 then d * b ^ nat e else d)"

definition ilog :: "nat \<Rightarrow> int \<Rightarrow> int \<Rightarrow> int" where
  "ilog b n d =
     (let k = int (floorlog b (nat n)) - int (floorlog b (nat d)) in
      if scale_den (int b) d k \<le> scale_num (int b) n k then k else k - 1)"

definition pack :: "bool \<Rightarrow> int \<Rightarrow> int \<Rightarrow> f64" where
  "pack neg m e = (if e > 971 then FInf neg else FFin (if neg then - m else m) e)"

text \<open>The double nearest to \<open>n / d\<close> (\<open>n \<ge> 0\<close>, \<open>d > 0\<close>), negated when \<open>neg\<close>.\<close>

definition round_mag :: "bool \<Rightarrow> int \<Rightarrow> int \<Rightarrow> f64" where
  "round_mag neg n d =
     (if n = 0 then FZero neg
      else
        let e = max (-1074) (ilog 2 n d - 52); q = rne (scale_num 2 n e) (scale_den 2 d e) in
        if q = 0 then FZero neg
        else if q = 2 ^ 53 then pack neg (2 ^ 52) (e + 1)
        else pack neg q e)"

definition f64_of_ratio :: "int \<Rightarrow> int \<Rightarrow> f64" where
  "f64_of_ratio n d = round_mag (n < 0) \<bar>n\<bar> d"

definition f64_of_int :: "int \<Rightarrow> f64" where
  "f64_of_int n = f64_of_ratio n 1"

text \<open>The double nearest to \<open>n * 2 ^ e\<close>; an exact zero is positive.\<close>

definition round_bin :: "int \<Rightarrow> int \<Rightarrow> f64" where
  "round_bin n e = f64_of_ratio (n * 2 ^ nat e) (2 ^ nat (- e))"

section \<open>Arithmetic and comparison\<close>

definition fneg :: "f64 \<Rightarrow> f64" where
  "fneg x = (case x of FNaN \<Rightarrow> FNaN | FInf s \<Rightarrow> FInf (\<not> s) | FZero s \<Rightarrow> FZero (\<not> s) | FFin m e \<Rightarrow> FFin (- m) e)"

definition fabs :: "f64 \<Rightarrow> f64" where
  "fabs x = (case x of FNaN \<Rightarrow> FNaN | FInf s \<Rightarrow> FInf False | FZero s \<Rightarrow> FZero False | FFin m e \<Rightarrow> FFin \<bar>m\<bar> e)"

text \<open>The sign bit of a number.\<close>

definition fsign :: "f64 \<Rightarrow> bool" where
  "fsign x = (case x of FNaN \<Rightarrow> False | FInf s \<Rightarrow> s | FZero s \<Rightarrow> s | FFin m e \<Rightarrow> m < 0)"

text \<open>Mantissas brought to the smaller of two exponents.\<close>

definition aligned :: "f64 \<Rightarrow> f64 \<Rightarrow> int" where
  "aligned x y = mant x * 2 ^ nat (expo x - min (expo x) (expo y))"

definition fadd :: "f64 \<Rightarrow> f64 \<Rightarrow> f64" where
  "fadd x y =
     (case (x, y) of
        (FNaN, _) \<Rightarrow> FNaN
      | (_, FNaN) \<Rightarrow> FNaN
      | (FInf s, FInf t) \<Rightarrow> if s = t then FInf s else FNaN
      | (FInf s, _) \<Rightarrow> FInf s
      | (_, FInf t) \<Rightarrow> FInf t
      | (FZero s, FZero t) \<Rightarrow> FZero (s \<and> t)
      | (FZero _, y) \<Rightarrow> y
      | (x, FZero _) \<Rightarrow> x
      | (x, y) \<Rightarrow> round_bin (aligned x y + aligned y x) (min (expo x) (expo y)))"

definition fsub :: "f64 \<Rightarrow> f64 \<Rightarrow> f64" where
  "fsub x y = fadd x (fneg y)"

text \<open>The sign of a product or quotient is the exclusive or of the signs.\<close>

definition fmul :: "f64 \<Rightarrow> f64 \<Rightarrow> f64" where
  "fmul x y =
     (let s = (fsign x \<noteq> fsign y) in
      case (x, y) of
        (FNaN, _) \<Rightarrow> FNaN
      | (_, FNaN) \<Rightarrow> FNaN
      | (FInf _, FZero _) \<Rightarrow> FNaN
      | (FZero _, FInf _) \<Rightarrow> FNaN
      | (FInf _, _) \<Rightarrow> FInf s
      | (_, FInf _) \<Rightarrow> FInf s
      | (FZero _, _) \<Rightarrow> FZero s
      | (_, FZero _) \<Rightarrow> FZero s
      | (FFin m e, FFin n f) \<Rightarrow> round_bin (m * n) (e + f))"

definition fdiv :: "f64 \<Rightarrow> f64 \<Rightarrow> f64" where
  "fdiv x y =
     (let s = (fsign x \<noteq> fsign y) in
      case (x, y) of
        (FNaN, _) \<Rightarrow> FNaN
      | (_, FNaN) \<Rightarrow> FNaN
      | (FInf _, FInf _) \<Rightarrow> FNaN
      | (FZero _, FZero _) \<Rightarrow> FNaN
      | (FInf _, _) \<Rightarrow> FInf s
      | (_, FZero _) \<Rightarrow> FInf s
      | (_, FInf _) \<Rightarrow> FZero s
      | (FZero _, _) \<Rightarrow> FZero s
      | (FFin m e, FFin n f) \<Rightarrow>
          round_mag s (\<bar>m\<bar> * 2 ^ nat (e - f)) (\<bar>n\<bar> * 2 ^ nat (f - e)))"

definition flt :: "f64 \<Rightarrow> f64 \<Rightarrow> bool" where
  "flt x y =
     (case (x, y) of
        (FNaN, _) \<Rightarrow> False
      | (_, FNaN) \<Rightarrow> False
      | (FInf s, FInf t) \<Rightarrow> s \<and> \<not> t
      | (FInf s, _) \<Rightarrow> s
      | (_, FInf t) \<Rightarrow> \<not> t
      | _ \<Rightarrow> aligned x y < aligned y x)"

definition feq :: "f64 \<Rightarrow> f64 \<Rightarrow> bool" where
  "feq x y =
     (case (x, y) of
        (FNaN, _) \<Rightarrow> False
      | (_, FNaN) \<Rightarrow> False
      | (FInf s, FInf t) \<Rightarrow> s = t
      | (FInf s, _) \<Rightarrow> False
      | (_, FInf t) \<Rightarrow> False
      | _ \<Rightarrow> aligned x y = aligned y x)"

definition fle :: "f64 \<Rightarrow> f64 \<Rightarrow> bool" where
  "fle x y \<longleftrightarrow> flt x y \<or> feq x y"

text \<open>Conversion to an integer: truncation toward zero, of a finite double.\<close>

definition trunc64 :: "f64 \<Rightarrow> int" where
  "trunc64 x =
     (let a = \<bar>mant x\<bar>; i = (if expo x \<ge> 0 then a * 2 ^ nat (expo x) else a div 2 ^ nat (- expo x)) in
      if mant x < 0 then - i else i)"

text \<open>
  What the language leaves open, as parameters of the model: the functions of package \<^verbatim>\<open>math\<close> whose
  rounding nothing fixes, and the conversion of a double to an unsigned integer that cannot hold it.
\<close>

record mathlib =
  math_Log :: "f64 \<Rightarrow> f64"
  math_Sin :: "f64 \<Rightarrow> f64"
  math_Cos :: "f64 \<Rightarrow> f64"
  math_Asin :: "f64 \<Rightarrow> f64"
  conv_u32 :: "f64 \<Rightarrow> 32 word"
  conv_u64 :: "f64 \<Rightarrow> 64 word"

section \<open>Parsing\<close>

text \<open>
  \<^verbatim>\<open>strconv.ParseFloat(s, 64)\<close> on a string without underscores: a double, a number out of range with
  the infinity it saturates to, or a syntax error.
\<close>

datatype pfloat = PFok f64 | PFrange f64 | PFsyntax

definition strip_sign :: "bytes \<Rightarrow> bytes" where
  "strip_sign s = (case s of c # cs \<Rightarrow> if c = CHR ''+'' \<or> c = CHR ''-'' then cs else s | [] \<Rightarrow> [])"

definition minus_sign :: "bytes \<Rightarrow> bool" where
  "minus_sign s = (case s of c # cs \<Rightarrow> c = CHR ''-'' | [] \<Rightarrow> False)"

definition special :: "bytes \<Rightarrow> f64 option" where
  "special s =
     (let l = map lower_byte (strip_sign s) in
      if l = ''inf'' \<or> l = ''infinity'' then Some (FInf (minus_sign s))
      else if strip_sign s = s \<and> l = ''nan'' then Some FNaN
      else None)"

definition is_xdigit :: "char \<Rightarrow> bool" where
  "is_xdigit c \<longleftrightarrow> is_digit c \<or> (97 \<le> code (lower_byte c) \<and> code (lower_byte c) \<le> 102)"

definition xdigit_val :: "char \<Rightarrow> nat" where
  "xdigit_val c = (if is_digit c then digit_val c else code (lower_byte c) - 87)"

definition hex_val :: "bytes \<Rightarrow> nat" where
  "hex_val cs = foldl (\<lambda>v c. v * 16 + xdigit_val c) 0 cs"

text \<open>Digits, an optional point and more digits, and what follows.\<close>

definition read_mantissa :: "(char \<Rightarrow> bool) \<Rightarrow> bytes \<Rightarrow> (bytes \<times> bytes \<times> bytes) option" where
  "read_mantissa isdig s =
     (let ip = takeWhile isdig s; r = dropWhile isdig s in
      case r of
        c # cs \<Rightarrow>
          if c = CHR ''.'' then
            let fp = takeWhile isdig cs in
            if ip = [] \<and> fp = [] then None else Some (ip, fp, dropWhile isdig cs)
          else if ip = [] then None else Some (ip, [], r)
      | [] \<Rightarrow> if ip = [] then None else Some (ip, [], []))"

text \<open>The exponent digits stop counting once the value has reached 10000.\<close>

definition exp_digits :: "bytes \<Rightarrow> int" where
  "exp_digits ds = foldl (\<lambda>e c. if e < 10000 then e * 10 + int (digit_val c) else e) 0 ds"

definition read_exponent :: "char \<Rightarrow> bytes \<Rightarrow> int option" where
  "read_exponent ec s =
     (case s of
        [] \<Rightarrow> None
      | c # cs \<Rightarrow>
          if lower_byte c = ec \<and> strip_sign cs \<noteq> [] \<and> list_all is_digit (strip_sign cs)
          then Some ((if minus_sign cs then -1 else 1) * exp_digits (strip_sign cs))
          else None)"

definition in_range :: "f64 \<Rightarrow> pfloat" where
  "in_range x = (case x of FInf _ \<Rightarrow> PFrange x | _ \<Rightarrow> PFok x)"

definition parse_decimal :: "bool \<Rightarrow> bytes \<Rightarrow> pfloat" where
  "parse_decimal neg s =
     (case read_mantissa is_digit s of
        None \<Rightarrow> PFsyntax
      | Some (ip, fp, r) \<Rightarrow>
          (case (if r = [] then Some 0 else read_exponent (CHR ''e'') r) of
             None \<Rightarrow> PFsyntax
           | Some e \<Rightarrow>
               let d = int (dec_val 0 (ip @ fp)); x = e - int (length fp) in
               in_range (round_mag neg (d * 10 ^ nat x) (10 ^ nat (- x)))))"

text \<open>A hexadecimal number must have a binary exponent.\<close>

definition parse_hex :: "bool \<Rightarrow> bytes \<Rightarrow> pfloat" where
  "parse_hex neg s =
     (case read_mantissa is_xdigit s of
        None \<Rightarrow> PFsyntax
      | Some (ip, fp, r) \<Rightarrow>
          (case read_exponent (CHR ''p'') r of
             None \<Rightarrow> PFsyntax
           | Some e \<Rightarrow>
               let d = int (hex_val (ip @ fp)); x = e - 4 * int (length fp) in
               in_range (round_mag neg (d * 2 ^ nat x) (2 ^ nat (- x)))))"

definition hex_prefix :: "bytes \<Rightarrow> bool" where
  "hex_prefix s = (length s > 2 \<and> s ! 0 = CHR ''0'' \<and> lower_byte (s ! 1) = CHR ''x'')"

definition go_ParseFloat :: "bytes \<Rightarrow> pfloat" where
  "go_ParseFloat s =
     (case special s of
        Some x \<Rightarrow> PFok x
      | None \<Rightarrow>
          let r = strip_sign s in
          if hex_prefix r then parse_hex (minus_sign s) (drop 2 r) else parse_decimal (minus_sign s) r)"

section \<open>Formatting\<close>

text \<open>The magnitude of a finite double as a ratio.\<close>

definition mag_num :: "f64 \<Rightarrow> int" where
  "mag_num x = \<bar>mant x\<bar> * 2 ^ nat (expo x)"

definition mag_den :: "f64 \<Rightarrow> int" where
  "mag_den x = 2 ^ nat (- expo x)"

text \<open>\<open>n\<close> significant decimal digits, as an integer, and the exponent of the first one.\<close>

definition sig_digits :: "nat \<Rightarrow> int \<Rightarrow> int \<Rightarrow> int \<times> int" where
  "sig_digits n a b =
     (let k = ilog 10 a b; e = k - int n + 1; q = rne (scale_num 10 a e) (scale_den 10 b e) in
      if q = 10 ^ n then (10 ^ (n - 1), k + 1) else (q, k))"

definition trim_zeros :: "bytes \<Rightarrow> bytes" where
  "trim_zeros s = rev (dropWhile (\<lambda>c. c = CHR ''0'') (rev s))"

definition fmt_exp :: "int \<Rightarrow> bytes" where
  "fmt_exp k = CHR ''e'' # (if k < 0 then CHR ''-'' else CHR ''+'') # (if \<bar>k\<bar> < 10 then ''0'' else []) @ fmt_nat (nat \<bar>k\<bar>)"

text \<open>Layouts of digits \<open>ds\<close> whose first has exponent \<open>k\<close>: scientific, and plain without more fraction than the digits.\<close>

definition layout_e :: "bytes \<Rightarrow> int \<Rightarrow> bytes" where
  "layout_e ds k = take 1 ds @ (if length ds > 1 then CHR ''.'' # drop 1 ds else []) @ fmt_exp k"

definition layout_f :: "bytes \<Rightarrow> int \<Rightarrow> bytes" where
  "layout_f ds k =
     (if k < 0 then ''0.'' @ replicate (nat (- k - 1)) (CHR ''0'') @ ds
      else if int (length ds) \<le> k + 1 then ds @ replicate (nat (k + 1) - length ds) (CHR ''0'')
      else take (nat (k + 1)) ds @ CHR ''.'' # drop (nat (k + 1)) ds)"

definition sign_text :: "f64 \<Rightarrow> bytes" where
  "sign_text x = (if fsign x then ''-'' else [])"

text \<open>\<^verbatim>\<open>FormatFloat(x, 'g', 17, 64)\<close>.\<close>

definition FormatFloat_g17 :: "f64 \<Rightarrow> bytes" where
  "FormatFloat_g17 x =
     (case x of
        FNaN \<Rightarrow> ''NaN''
      | FInf s \<Rightarrow> if s then ''-Inf'' else ''+Inf''
      | FZero s \<Rightarrow> sign_text x @ ''0''
      | FFin m e \<Rightarrow>
          let (q, k) = sig_digits 17 (mag_num x) (mag_den x); ds = trim_zeros (fmt_nat (nat q)) in
          sign_text x @ (if k < -4 \<or> k \<ge> 17 then layout_e ds k else layout_f ds k))"

text \<open>\<^verbatim>\<open>FormatFloat(x, 'f', p, 64)\<close>.\<close>

definition FormatFloat_f :: "nat \<Rightarrow> f64 \<Rightarrow> bytes" where
  "FormatFloat_f p x =
     (case x of
        FNaN \<Rightarrow> ''NaN''
      | FInf s \<Rightarrow> if s then ''-Inf'' else ''+Inf''
      | _ \<Rightarrow>
          let ds = fmt_nat (nat (rne (mag_num x * 10 ^ p) (mag_den x)));
              s = replicate (p + 1 - length ds) (CHR ''0'') @ ds; i = length s - p in
          sign_text x @ take i s @ (if p = 0 then [] else CHR ''.'' # drop i s))"

text \<open>
  \<^verbatim>\<open>FormatFloat(x, 'f', -1, 64)\<close>: the fewest digits that determine \<open>x\<close>. Of the two decimals of \<open>n\<close> digits
  around the magnitude, the nearer one that rounds back to it.
\<close>

definition rounds_to :: "f64 \<Rightarrow> int \<Rightarrow> int \<Rightarrow> bool" where
  "rounds_to x q e = (round_mag False (scale_num 10 q (- e)) (scale_den 10 1 (- e)) = fabs x)"

definition short_try :: "f64 \<Rightarrow> nat \<Rightarrow> (int \<times> int) option" where
  "short_try x n =
     (let a = mag_num x; b = mag_den x; k = ilog 10 a b; e = k - int n + 1;
          lo = scale_num 10 a e div scale_den 10 b e; near = rne (scale_num 10 a e) (scale_den 10 b e) in
      if rounds_to x near e then Some (near, e)
      else if rounds_to x lo e then Some (lo, e)
      else if rounds_to x (lo + 1) e then Some (lo + 1, e)
      else None)"

fun first_some :: "('a \<Rightarrow> 'b option) \<Rightarrow> 'a list \<Rightarrow> 'b option" where
  "first_some f [] = None"
| "first_some f (x # xs) = (case f x of Some y \<Rightarrow> Some y | None \<Rightarrow> first_some f xs)"

definition FormatFloat_short :: "f64 \<Rightarrow> bytes" where
  "FormatFloat_short x =
     (case x of
        FNaN \<Rightarrow> ''NaN''
      | FInf s \<Rightarrow> if s then ''-Inf'' else ''+Inf''
      | FZero s \<Rightarrow> sign_text x @ ''0''
      | FFin m e \<Rightarrow>
          (case first_some (short_try x) [1..<18] of
             None \<Rightarrow> []
           | Some (q, e') \<Rightarrow>
               let ds = fmt_nat (nat q) in
               sign_text x @ layout_f (trim_zeros ds) (e' + int (length ds) - 1)))"

end
