(* ===== verification/FloatSpec.thy ===== *)
theory FloatSpec
  imports Float64
begin

text \<open>
  When a ratio rounds to a given double, and the consequence for the two decimal formats: reading
  back the 17 significant digits of a double gives the double.
\<close>

section \<open>Rounding to integers\<close>

lemma rne_near:
  assumes "0 < d"
  shows "\<bar>real_of_int (rne n d) - real_of_int n / real_of_int d\<bar> \<le> 1 / 2"
proof -
  define q r where "q = n div d" and "r = n mod d"
  have n: "n = q * d + r" "0 \<le> r" "r < d" using assms by (simp_all add: q_def r_def)
  then have x: "real_of_int n / real_of_int d = real_of_int q + real_of_int r / real_of_int d"
    using assms by (simp add: field_simps)
  show ?thesis
  proof (cases "2 * r < d \<or> (2 * r = d \<and> even q)")
    case True
    then have "real_of_int r / real_of_int d \<le> 1 / 2" "0 \<le> real_of_int r / real_of_int d"
      using assms n(2) by (auto simp: field_simps)
    with True show ?thesis by (auto simp: rne_def x Let_def simp flip: q_def r_def)
  next
    case False
    then have "1 / 2 \<le> real_of_int r / real_of_int d" "real_of_int r / real_of_int d < 1"
      using assms n(3) by (auto simp: field_simps)
    with False show ?thesis by (auto simp: rne_def x Let_def simp flip: q_def r_def)
  qed
qed

lemma rne_unique:
  assumes "0 < d" and "\<bar>real_of_int q - real_of_int n / real_of_int d\<bar> < 1 / 2"
  shows "rne n d = q"
proof -
  have "\<bar>real_of_int (rne n d) - real_of_int q\<bar> < 1" using rne_near [OF assms(1), of n] assms(2) by linarith
  then show ?thesis by linarith
qed

section \<open>Scaling and logarithms\<close>

lemma scale_den_pos: "0 < b \<Longrightarrow> 0 < d \<Longrightarrow> 0 < scale_den b d e"
  by (simp add: scale_den_def)

lemma scale_ratio:
  assumes "0 < b" and "0 < d"
  shows "real_of_int (scale_num b n e) / real_of_int (scale_den b d e)
    = real_of_int n / real_of_int d * real_of_int b powi (- e)"
  using assms by (auto simp: scale_num_def scale_den_def power_int_def field_simps)

lemma floorlog_ratio:
  assumes "1 < b" and "0 < n"
  shows "real b powi (int (floorlog b n) - 1) \<le> real n" "real n < real b powi int (floorlog b n)"
proof -
  have "0 < floorlog b n" using assms by (metis floorlog_eq_zero_iff gr0I leD)
  moreover have "b ^ (floorlog b n - 1) \<le> n \<and> n < b ^ floorlog b n"
    using floorlog_bounds [of n b] assms by simp
  ultimately show "real b powi (int (floorlog b n) - 1) \<le> real n" "real n < real b powi int (floorlog b n)"
    by (auto simp: power_int_def nat_diff_distrib of_nat_power [symmetric] simp del: of_nat_power)
qed

lemma ilog_bounds:
  assumes "1 < b" and "0 < n" and "0 < d"
  shows "real b powi ilog b n d \<le> real_of_int n / real_of_int d"
    and "real_of_int n / real_of_int d < real b powi (ilog b n d + 1)"
proof -
  define k where "k = int (floorlog b (nat n)) - int (floorlog b (nat d))"
  note bn = floorlog_ratio [of b "nat n"] and bd = floorlog_ratio [of b "nat d"]
  let ?r = "real_of_int n / real_of_int d"
  have pos: "0 < real b" using assms(1) by simp
  have b0: "real b \<noteq> 0" using assms(1) by simp
  have split: "real b powi i / real b powi j = real b powi (i - j)" for i j
    using b0 by (simp add: power_int_diff)
  have "real b powi (k - 1) = real b powi (int (floorlog b (nat n)) - 1) / real b powi int (floorlog b (nat d))"
    unfolding split by (simp add: k_def algebra_simps)
  also have "\<dots> \<le> ?r"
    using bn(1) bd(2) assms by (intro frac_le) auto
  finally have lo: "real b powi (k - 1) \<le> ?r" .
  have "?r < real b powi int (floorlog b (nat n)) / real b powi (int (floorlog b (nat d)) - 1)"
    using bn(2) bd(1) assms pos by (intro frac_less) (auto simp: zero_less_power_int)
  also have "\<dots> = real b powi (k + 1)"
    unfolding split by (simp add: k_def algebra_simps)
  finally have hi: "?r < real b powi (k + 1)" .
  have test: "scale_den (int b) d k \<le> scale_num (int b) n k \<longleftrightarrow> real b powi k \<le> ?r"
  proof -
    have sd: "0 < scale_den (int b) d k" using assms by (simp add: scale_den_pos)
    have "scale_den (int b) d k \<le> scale_num (int b) n k \<longleftrightarrow>
        1 \<le> real_of_int (scale_num (int b) n k) / real_of_int (scale_den (int b) d k)"
      using sd by (simp add: le_divide_eq)
    also have "\<dots> \<longleftrightarrow> 1 \<le> ?r * real b powi (- k)"
      using scale_ratio [of "int b" d n k] assms by simp
    also have "?r * real b powi (- k) = ?r / real b powi k" by (simp add: power_int_minus divide_inverse)
    also have "1 \<le> \<dots> \<longleftrightarrow> real b powi k \<le> ?r"
      by (rule le_divide_eq_1_pos) (rule zero_less_power_int [OF pos])
    finally show ?thesis .
  qed
  have "ilog b n d = (if real b powi k \<le> ?r then k else k - 1)"
    using test by (simp add: ilog_def Let_def flip: k_def)
  then show "real b powi ilog b n d \<le> ?r" "?r < real b powi (ilog b n d + 1)"
    using lo hi by (auto split: if_splits)
qed

section \<open>Rounding to doubles\<close>

text \<open>The reals strictly nearer to \<open>m * 2 ^ e\<close> than to its neighbours; below a power of two they are closer.\<close>

definition near64 :: "real \<Rightarrow> int \<Rightarrow> int \<Rightarrow> bool" where
  "near64 r m e \<longleftrightarrow>
     (real_of_int m - 1 / 2) * 2 powi e < r \<and> r < (real_of_int m + 1 / 2) * 2 powi e \<and>
     (m = 2 ^ 52 \<and> e > -1074 \<longrightarrow> (real_of_int m - 1 / 4) * 2 powi e < r)"

lemma powi_mono: "a \<le> b \<Longrightarrow> (2 :: real) powi a \<le> 2 powi b"
  by (rule power_int_increasing) simp_all

lemma powi_less_imp: "(2 :: real) powi a < 2 powi b \<Longrightarrow> a < b"
  by (metis not_less powi_mono)

lemma exponent_of:
  assumes "0 < n" and "0 < d" and "2 powi a \<le> real_of_int n / real_of_int d" "real_of_int n / real_of_int d < 2 powi (a + 1)"
  shows "ilog 2 n d = a"
proof -
  have "2 powi ilog 2 n d \<le> real_of_int n / real_of_int d" "real_of_int n / real_of_int d < 2 powi (ilog 2 n d + 1)"
    using ilog_bounds [of 2 n d] assms by simp_all
  then have "2 powi ilog 2 n d < (2 :: real) powi (a + 1)" "2 powi a < (2 :: real) powi (ilog 2 n d + 1)"
    using assms(3,4) by linarith+
  then have "ilog 2 n d < a + 1" "a < ilog 2 n d + 1"
    using powi_less_imp by blast+
  then show ?thesis by linarith
qed

lemma round_mag_near:
  assumes "0 < n" and "0 < d" and ok: "f64_ok (FFin m e)" and "0 < m"
    and near: "near64 (real_of_int n / real_of_int d) m e"
  shows "round_mag neg n d = FFin (if neg then - m else m) e"
proof -
  define r where "r = real_of_int n / real_of_int d"
  define u :: real where "u = 2 powi e"
  have u: "0 < u" by (simp add: u_def zero_less_power_int)
  have m: "m < 2 ^ 53" "-1074 \<le> e" "e \<le> 971" "2 ^ 52 \<le> m \<or> e = -1074"
    using ok \<open>0 < m\<close> by (auto simp: f64_ok_def)
  have lo: "(real_of_int m - 1 / 2) * u < r" and hi: "r < (real_of_int m + 1 / 2) * u"
    and edge: "m = 2 ^ 52 \<Longrightarrow> e > -1074 \<Longrightarrow> (real_of_int m - 1 / 4) * u < r"
    using near by (auto simp: near64_def r_def u_def)
  have up: "2 powi (e + k) = u * 2 powi k" for k by (simp add: u_def power_int_add)
  have scaled: "real_of_int (scale_num 2 n f) / real_of_int (scale_den 2 d f) = r * 2 powi (- f)" for f
    using scale_ratio [of 2 d n f] \<open>0 < d\<close> by (simp add: r_def)
  have "real_of_int m \<le> real_of_int (2 ^ 53 - 1)" using m(1) by (simp only: of_int_le_iff)
  then have "(real_of_int m + 1 / 2) * u \<le> 2 ^ 53 * u" using u by (intro mult_right_mono) simp_all
  then have top: "r < 2 powi (e + 53)" using hi by (simp add: up)
  show ?thesis
  proof (cases "2 powi (e + 52) \<le> r \<or> e = -1074")
    case True
    have e: "max (-1074) (ilog 2 n d - 52) = e"
    proof (cases "2 powi (e + 52) \<le> r")
      case True
      then have "ilog 2 n d = e + 52"
        using exponent_of [of n d "e + 52"] top assms by (simp add: r_def add.assoc)
      with m(2) show ?thesis by simp
    next
      case False
      then have "e = -1074" using \<open>2 powi (e + 52) \<le> r \<or> e = -1074\<close> by simp
      moreover have "2 powi ilog 2 n d \<le> r" using ilog_bounds(1) [of 2 n d] assms by (simp add: r_def)
      then have "ilog 2 n d < e + 52" using False by (intro powi_less_imp) linarith
      ultimately show ?thesis by simp
    qed
    have "\<bar>real_of_int m - r * 2 powi (- e)\<bar> < 1 / 2"
    proof -
      have "r * 2 powi (- e) = r / u" by (simp add: u_def power_int_minus divide_inverse)
      moreover have "real_of_int m - 1 / 2 < r / u" "r / u < real_of_int m + 1 / 2"
        using lo hi u by (simp_all add: pos_less_divide_eq pos_divide_less_eq)
      ultimately show ?thesis by linarith
    qed
    then have "rne (scale_num 2 n e) (scale_den 2 d e) = m"
      using rne_unique [of "scale_den 2 d e" m "scale_num 2 n e"] \<open>0 < d\<close> by (simp add: scaled scale_den_pos)
    then show ?thesis
      using assms m by (simp add: round_mag_def e Let_def pack_def del: max.absorb1 max.absorb2)
  next
    case False
    then have "r < 2 ^ 52 * u" "e > -1074" "2 ^ 52 \<le> m"
      using m by (simp_all add: up mult.commute)
    have "m = 2 ^ 52"
    proof (rule ccontr)
      assume "m \<noteq> 2 ^ 52"
      then have "2 ^ 52 + 1 \<le> m" using \<open>2 ^ 52 \<le> m\<close> by linarith
      then have "real_of_int (2 ^ 52 + 1) \<le> real_of_int m" by (simp only: of_int_le_iff)
      then have "2 ^ 52 + 1 \<le> real_of_int m" by simp
      then have "2 ^ 52 * u \<le> (real_of_int m - 1 / 2) * u" using u by (intro mult_right_mono) simp_all
      then show False using lo \<open>r < 2 ^ 52 * u\<close> by linarith
    qed
    then have low: "(2 ^ 52 - 1 / 4) * u < r" using edge \<open>e > -1074\<close> by simp
    then have "2 ^ 51 * u \<le> r" using u by (simp add: field_simps)
    then have "ilog 2 n d = e + 51"
      using exponent_of [of n d "e + 51"] \<open>r < 2 ^ 52 * u\<close> assms by (simp add: r_def up mult.commute add.assoc)
    then have e: "max (-1074) (ilog 2 n d - 52) = e - 1" using \<open>e > -1074\<close> by simp
    define x where "x = r / u"
    have "r * 2 powi (1 - e) = 2 * x" by (simp add: u_def x_def power_int_diff)
    moreover have "2 ^ 52 - 1 / 4 < x" "x < 2 ^ 52"
      using low \<open>r < 2 ^ 52 * u\<close> u by (simp_all add: x_def pos_less_divide_eq pos_divide_less_eq)
    ultimately have "\<bar>2 ^ 53 - r * 2 powi (1 - e)\<bar> < 1 / 2" by (simp add: abs_less_iff)
    then have "rne (scale_num 2 n (e - 1)) (scale_den 2 d (e - 1)) = 2 ^ 53"
      using rne_unique [of "scale_den 2 d (e - 1)" "2 ^ 53" "scale_num 2 n (e - 1)"] \<open>0 < d\<close>
      by (simp add: scaled scale_den_pos)
    then show ?thesis
      using assms m \<open>m = 2 ^ 52\<close> by (simp add: round_mag_def e Let_def pack_def del: max.absorb1 max.absorb2)
  qed
qed

section \<open>Seventeen digits are enough\<close>

lemma sig_digits_bounds:
  assumes "0 < a" and "0 < b" and "0 < n" and "sig_digits n a b = (q, k)"
  shows "10 ^ (n - 1) \<le> q" "q < 10 ^ n" "k = ilog 10 a b \<or> k = ilog 10 a b + 1"
    and "\<bar>real_of_int q * 10 powi (k - int n + 1) - real_of_int a / real_of_int b\<bar> \<le> 10 powi (ilog 10 a b - int n + 1) / 2"
proof -
  define K e where "K = ilog 10 a b" and "e = K - int n + 1"
  define p where "p = rne (scale_num 10 a e) (scale_den 10 b e)"
  define r where "r = real_of_int a / real_of_int b"
  define u :: real where "u = 10 powi e"
  have u: "0 < u" by (simp add: u_def zero_less_power_int)
  have "\<bar>real_of_int p - r * 10 powi (- e)\<bar> \<le> 1 / 2"
    using rne_near [of "scale_den 10 b e" "scale_num 10 a e"] scale_ratio [of 10 b a e] assms(2)
    by (simp add: p_def r_def scale_den_pos)
  moreover have "r * 10 powi (- e) = r / u" by (simp add: u_def power_int_minus divide_inverse)
  ultimately have near: "\<bar>real_of_int p - r / u\<bar> \<le> 1 / 2" by simp
  have K: "10 powi K \<le> r" "r < 10 powi (K + 1)"
    using ilog_bounds [of 10 a b] assms by (simp_all add: K_def r_def)
  have up: "10 powi (e + int j) = u * 10 ^ j" for j by (simp add: u_def power_int_add)
  have "K = e + int (n - 1)" "K + 1 = e + int n" using assms(3) by (simp_all add: e_def)
  then have "u * 10 ^ (n - 1) \<le> r" "r < u * 10 ^ n" using K by (simp_all only: up)
  then have "10 ^ (n - 1) \<le> r / u" "r / u < 10 ^ n"
    using u by (simp_all add: pos_le_divide_eq pos_divide_less_eq mult.commute)
  then have "real_of_int (10 ^ (n - 1)) - 1 / 2 \<le> real_of_int p" "real_of_int p < real_of_int (10 ^ n) + 1"
    using near unfolding of_int_power of_int_numeral by linarith+
  then have p: "10 ^ (n - 1) \<le> p" "p \<le> 10 ^ n" by linarith+
  have "\<bar>real_of_int p * u - r\<bar> = \<bar>real_of_int p - r / u\<bar> * u"
    using u by (simp add: abs_mult [symmetric] field_simps flip: abs_of_pos)
  also have "\<dots> \<le> 1 / 2 * u" using near u by (intro mult_right_mono) simp_all
  finally have err: "\<bar>real_of_int p * u - r\<bar> \<le> u / 2" by simp
  have qk: "(q, k) = (if p = 10 ^ n then (10 ^ (n - 1), K + 1) else (p, K))"
    using assms(4) unfolding sig_digits_def Let_def K_def [symmetric] e_def [symmetric] p_def [symmetric] by simp
  show "10 ^ (n - 1) \<le> q" "q < 10 ^ n" "k = ilog 10 a b \<or> k = ilog 10 a b + 1"
    using qk p assms(3) by (auto simp: K_def [symmetric] split: if_splits)
  have "real_of_int q * 10 powi (k - int n + 1) = real_of_int p * u"
  proof (cases "p = 10 ^ n")
    case True
    have "real_of_int (10 ^ n) = 10 * real_of_int (10 ^ (n - 1))" using assms(3) by (cases n) simp_all
    moreover have "10 powi (K + 1 - int n + 1) = 10 * u" by (simp add: u_def e_def power_int_add)
    ultimately show ?thesis using True qk by simp
  next
    case False
    then show ?thesis using qk by (simp add: u_def e_def)
  qed
  then show "\<bar>real_of_int q * 10 powi (k - int n + 1) - real_of_int a / real_of_int b\<bar> \<le>
      10 powi (ilog 10 a b - int n + 1) / 2"
    using err by (simp add: r_def u_def e_def K_def)
qed

text \<open>An error of half a unit in the 17th digit stays nearer to the double than to its neighbours.\<close>

lemma near64_decimal:
  assumes "f64_ok (FFin m e)" and "0 < m" and "10 powi K \<le> real_of_int m * 2 powi e"
    and "\<bar>r - real_of_int m * 2 powi e\<bar> \<le> 10 powi (K - 16) / 2"
  shows "near64 r m e"
proof -
  define u :: real where "u = 2 powi e"
  have u: "0 < u" by (simp add: u_def zero_less_power_int)
  define h where "h = 10 powi (K - 16) / (2 :: real)"
  have h: "h * (2 * 10 ^ 16) = 10 powi K" by (simp add: h_def power_int_diff)
  have "real_of_int m \<le> real_of_int (2 ^ 53)" using assms(1) by (simp add: f64_ok_def abs_if split: if_splits)
  then have "real_of_int m * u \<le> 2 ^ 53 * u" using u by (intro mult_right_mono) simp_all
  then have "h * (2 * 10 ^ 16) \<le> 2 ^ 53 * u" unfolding h using assms(3) unfolding u_def by (rule order.trans [rotated])
  then have half: "h < u / 2" using u by simp
  have "h < u / 4" if "m = 2 ^ 52"
  proof -
    have "h * (2 * 10 ^ 16) \<le> 2 ^ 52 * u" using that assms(3) h by (simp add: u_def)
    then show ?thesis using u by simp
  qed
  moreover have eqs: "(real_of_int m - 1 / 2) * u = real_of_int m * u - u / 2" "(real_of_int m + 1 / 2) * u = real_of_int m * u + u / 2"
    "(real_of_int m - 1 / 4) * u = real_of_int m * u - u / 4"
    by (simp_all add: algebra_simps)
  moreover have "\<bar>r - real_of_int m * u\<bar> \<le> h" using assms(4) by (simp add: u_def h_def)
  ultimately show ?thesis
    using half unfolding near64_def u_def [symmetric] by (auto simp only: eqs abs_le_iff) linarith+
qed

section \<open>Reading the layouts back\<close>

lemma not_digit_marks [simp]: "\<not> is_digit (CHR ''.'')" "\<not> is_digit (CHR ''e'')" "\<not> is_digit (CHR ''-'')" "\<not> is_digit (CHR ''+'')"
  by (simp_all add: is_digit_def)

lemma is_digit_0 [simp]: "is_digit (CHR ''0'')"
  by (simp add: is_digit_def)

lemma digit_val_0 [simp]: "digit_val (CHR ''0'') = 0"
  by (simp add: digit_val_def)

lemma takeWhile_digits:
  "list_all P ds \<Longrightarrow> r = [] \<or> \<not> P (hd r) \<Longrightarrow> takeWhile P (ds @ r) = ds \<and> dropWhile P (ds @ r) = r"
  by (induction ds) (cases r, auto)

lemma read_mantissa_point:
  assumes "list_all is_digit ip" and "list_all is_digit fp" and "ip \<noteq> []" and "r = [] \<or> \<not> is_digit (hd r)"
  shows "read_mantissa is_digit (ip @ CHR ''.'' # fp @ r) = Some (ip, fp, r)"
  using takeWhile_digits [OF assms(1), of "CHR ''.'' # fp @ r"] takeWhile_digits [OF assms(2,4)] assms(3)
  by (simp add: read_mantissa_def Let_def)

lemma read_mantissa_plain:
  assumes "list_all is_digit ip" and "ip \<noteq> []" and "r = [] \<or> \<not> is_digit (hd r) \<and> hd r \<noteq> CHR ''.''"
  shows "read_mantissa is_digit (ip @ r) = Some (ip, [], r)"
proof -
  have "takeWhile is_digit (ip @ r) = ip \<and> dropWhile is_digit (ip @ r) = r"
    using assms by (intro takeWhile_digits) auto
  then show ?thesis using assms(2,3) by (auto simp: read_mantissa_def Let_def split: list.split)
qed

lemma dec_val_zeros [simp]: "dec_val v (replicate n (CHR ''0'')) = v * 10 ^ n"
  by (induction n arbitrary: v) simp_all

lemma dec_val_append_0: "dec_val 0 (cs @ ds) = dec_val (dec_val 0 cs) ds"
  by simp

text \<open>What a text of digits and an exponent stands for.\<close>

definition stands_for :: "bytes \<Rightarrow> real \<Rightarrow> bool" where
  "stands_for s v \<longleftrightarrow>
     (\<exists>ip fp r E. read_mantissa is_digit s = Some (ip, fp, r) \<and>
        (if r = [] then Some 0 else read_exponent (CHR ''e'') r) = Some E \<and>
        v = real (dec_val 0 (ip @ fp)) * 10 powi (E - int (length fp)))"

lemma stands_for_layout_f:
  assumes "list_all is_digit ds" and "ds \<noteq> []"
  shows "stands_for (layout_f ds k) (real (dec_val 0 ds) * 10 powi (k + 1 - int (length ds)))"
proof -
  consider "k < 0" | "0 \<le> k" "int (length ds) \<le> k + 1" | "0 \<le> k" "k + 1 < int (length ds)" by linarith
  then show ?thesis
  proof cases
    case 1
    let ?fp = "replicate (nat (- k - 1)) (CHR ''0'') @ ds"
    have "read_mantissa is_digit (layout_f ds k) = Some (''0'', ?fp, [])"
      using read_mantissa_point [of "''0''" ?fp "[]"] 1 assms by (force simp: layout_f_def list_all_iff)
    then show ?thesis
      unfolding stands_for_def using 1
      by (intro exI [of _ "''0''"] exI [of _ ?fp] exI [of _ "[]"] exI [of _ 0]) (simp add: algebra_simps)
  next
    case 2
    let ?ip = "ds @ replicate (nat (k + 1) - length ds) (CHR ''0'')"
    have "read_mantissa is_digit (layout_f ds k) = Some (?ip, [], [])"
      using read_mantissa_plain [of ?ip "[]"] 2 assms by (force simp: layout_f_def list_all_iff)
    moreover have "(10 :: real) powi (k + 1 - int (length ds)) = 10 ^ (nat (k + 1) - length ds)"
      using 2 by (simp add: power_int_def nat_diff_distrib')
    ultimately show ?thesis
      unfolding stands_for_def by (intro exI [of _ ?ip] exI [of _ "[]"] exI [of _ 0]) simp
  next
    case 3
    let ?ip = "take (nat (k + 1)) ds" and ?fp = "drop (nat (k + 1)) ds"
    have "read_mantissa is_digit (layout_f ds k) = Some (?ip, ?fp, [])"
      using read_mantissa_point [of ?ip ?fp "[]"] 3 assms
      by (auto simp: layout_f_def list_all_iff dest: in_set_takeD in_set_dropD)
    moreover have "- int (length ?fp) = k + 1 - int (length ds)" using 3 by (simp add: nat_less_iff)
    ultimately show ?thesis
      unfolding stands_for_def
      by (intro exI [of _ ?ip] exI [of _ ?fp] exI [of _ "[]"] exI [of _ 0])
        (simp only: append_take_drop_id diff_0 if_True simp_thms)
  qed
qed

lemma exp_digits_small:
  "dec_val v ds < 10000 \<Longrightarrow>
    foldl (\<lambda>e c. if e < 10000 then e * 10 + int (digit_val c) else e) (int v) ds = int (dec_val v ds)"
proof (induction ds arbitrary: v)
  case (Cons c ds)
  have "v \<le> dec_val v (c # ds)" by (rule dec_val_ge)
  then have "v < 10000" using Cons.prems by linarith
  then show ?case using Cons.IH [of "v * 10 + digit_val c"] Cons.prems by simp
qed simp

lemma read_exponent_fmt:
  assumes "\<bar>k\<bar> < 10000"
  shows "read_exponent (CHR ''e'') (fmt_exp k) = Some k"
proof -
  let ?ds = "(if \<bar>k\<bar> < 10 then ''0'' else []) @ fmt_nat (nat \<bar>k\<bar>)"
  have v: "dec_val 0 ?ds = nat \<bar>k\<bar>" by simp
  have "exp_digits ?ds = \<bar>k\<bar>"
    using exp_digits_small [of 0 ?ds] assms unfolding v by (simp add: exp_digits_def)
  moreover have "list_all is_digit ?ds" using fmt_nat_digits [of "nat \<bar>k\<bar>"] by (auto simp: list_all_iff)
  moreover have "lower_byte (CHR ''e'') = CHR ''e''" by (simp add: lower_byte_def)
  moreover have "fmt_exp k = CHR ''e'' # (if k < 0 then CHR ''-'' else CHR ''+'') # ?ds" by (simp add: fmt_exp_def)
  ultimately show ?thesis
    by (simp add: read_exponent_def strip_sign_def minus_sign_def del: fmt_nat.simps)
qed

lemma stands_for_layout_e:
  assumes "list_all is_digit ds" and "ds \<noteq> []" and "\<bar>k\<bar> < 10000"
  shows "stands_for (layout_e ds k) (real (dec_val 0 ds) * 10 powi (k + 1 - int (length ds)))"
proof -
  obtain c cs where ds: "ds = c # cs" using assms(2) by (cases ds) auto
  have r: "fmt_exp k \<noteq> []" "\<not> is_digit (hd (fmt_exp k))" "hd (fmt_exp k) \<noteq> CHR ''.''"
    by (simp_all add: fmt_exp_def)
  have "read_mantissa is_digit (layout_e ds k) = Some ([c], cs, fmt_exp k)"
  proof (cases "cs = []")
    case True
    then show ?thesis using read_mantissa_plain [of "[c]" "fmt_exp k"] assms ds r by (simp add: layout_e_def)
  next
    case False
    then show ?thesis using read_mantissa_point [of "[c]" cs "fmt_exp k"] assms ds r by (simp add: layout_e_def)
  qed
  then show ?thesis
    unfolding stands_for_def using read_exponent_fmt [OF assms(3)] r(1) ds
    by (intro exI [of _ "[c]"] exI [of _ cs] exI [of _ "fmt_exp k"] exI [of _ k]) (simp add: algebra_simps)
qed

lemma parse_decimal_stands:
  assumes "stands_for s v" and "f64_ok (FFin m e)" and "0 < m" and "near64 v m e"
  shows "parse_decimal neg s = PFok (FFin (if neg then - m else m) e)"
proof -
  obtain ip fp r E where s: "read_mantissa is_digit s = Some (ip, fp, r)"
      "(if r = [] then Some 0 else read_exponent (CHR ''e'') r) = Some E"
      "v = real (dec_val 0 (ip @ fp)) * 10 powi (E - int (length fp))"
    using assms(1) unfolding stands_for_def by blast
  let ?d = "int (dec_val 0 (ip @ fp))" and ?x = "E - int (length fp)"
  have "0 < (real_of_int m - 1 / 2) * 2 powi e" using assms(3) by (simp add: zero_less_power_int)
  then have "0 < v" using assms(4) unfolding near64_def by linarith
  then have d: "0 < ?d" using s(3) by (auto intro: ccontr)
  have ratio: "real_of_int (?d * 10 ^ nat ?x) / real_of_int (10 ^ nat (- ?x)) = v"
    unfolding s(3) by (auto simp: power_int_def field_simps)
  have "round_mag neg (?d * 10 ^ nat ?x) (10 ^ nat (- ?x)) = FFin (if neg then - m else m) e"
    using assms d by (intro round_mag_near) (simp_all only: ratio zero_less_power zero_less_mult_iff zero_less_numeral simp_thms)
  then show ?thesis by (simp add: parse_decimal_def s(1,2) Let_def in_range_def)
qed

section \<open>The round trip\<close>

lemma trim_zeros_split: "\<exists>j. s = trim_zeros s @ replicate j (CHR ''0'')"
proof -
  have "rev s = takeWhile (\<lambda>c. c = CHR ''0'') (rev s) @ dropWhile (\<lambda>c. c = CHR ''0'') (rev s)" by simp
  moreover have "takeWhile (\<lambda>c. c = CHR ''0'') (rev s) = replicate (length (takeWhile (\<lambda>c. c = CHR ''0'') (rev s))) (CHR ''0'')"
    by (rule replicate_length_same [symmetric]) (auto dest: set_takeWhileD)
  ultimately have "s = trim_zeros s @ replicate (length (takeWhile (\<lambda>c. c = CHR ''0'') (rev s))) (CHR ''0'')"
    unfolding trim_zeros_def by (metis (no_types) rev_append rev_replicate rev_rev_ident)
  then show ?thesis by blast
qed

text \<open>Trimming zeros keeps what the digits stand for at their place.\<close>

lemma trim_zeros_value:
  "real (dec_val 0 (trim_zeros s)) * 10 powi (k - int (length (trim_zeros s))) = real (dec_val 0 s) * 10 powi (k - int (length s))"
proof -
  obtain j where s: "s = trim_zeros s @ replicate j (CHR ''0'')" using trim_zeros_split by blast
  define t where "t = trim_zeros s"
  have "s = t @ replicate j (CHR ''0'')" using s by (simp add: t_def)
  then show ?thesis
    unfolding t_def [symmetric] by (simp add: power_int_diff power_int_add field_simps)
qed

lemma trim_zeros_nonempty: "dec_val 0 s \<noteq> 0 \<Longrightarrow> trim_zeros s \<noteq> []"
  using trim_zeros_split [of s] dec_val_zeros [of 0] by (metis append_Nil mult_0)

lemma trim_zeros_digits: "list_all is_digit s \<Longrightarrow> list_all is_digit (trim_zeros s)"
  using trim_zeros_split [of s] by (metis list_all_append)

lemma length_fmt_nat: "10 ^ n \<le> q \<Longrightarrow> q < 10 ^ Suc n \<Longrightarrow> length (fmt_nat q) = Suc n"
proof (induction n arbitrary: q)
  case 0
  then show ?case by (simp add: fmt_nat.simps)
next
  case (Suc n)
  then have "10 ^ n \<le> q div 10" "q div 10 < 10 ^ Suc n" by (auto simp: less_mult_imp_div_less)
  moreover have "\<not> q < 10"
  proof -
    have "(10 :: nat) \<le> 10 ^ Suc n" by simp
    then show ?thesis using Suc.prems(1) by linarith
  qed
  ultimately show ?case using Suc.IH [of "q div 10"] by (subst fmt_nat.simps) simp
qed

text \<open>The exponents of doubles in base 10.\<close>

lemma exponent_range:
  assumes "f64_ok (FFin m e)" and "0 < m" and "0 < b" and "real_of_int a / real_of_int b = real_of_int m * 2 powi e" and "0 < a"
  shows "-400 < ilog 10 a b" "ilog 10 a b < 400"
proof -
  let ?v = "real_of_int m * 2 powi e"
  have m: "1 \<le> real_of_int m" "real_of_int m \<le> real_of_int (2 ^ 53)" "-1074 \<le> e" "e \<le> 971"
    using assms(1,2) by (auto simp: f64_ok_def abs_if split: if_splits)
  have lo: "10 powi ilog 10 a b \<le> ?v" and hi: "?v < 10 powi (ilog 10 a b + 1)"
    using ilog_bounds [of 10 a b] assms by simp_all
  have "?v \<le> 2 ^ 53 * 2 powi 971"
    using m powi_mono [OF m(4)] by (intro mult_mono) simp_all
  also have "\<dots> < 10 powi 400" by (simp add: power_int_def)
  finally have "10 powi ilog 10 a b < (10 :: real) powi 400" using lo by linarith
  then show "ilog 10 a b < 400" by (metis not_less power_int_increasing one_le_numeral)
  have "(10 :: real) powi (-399) < 1 * 2 powi (-1074)" by (simp add: power_int_def field_simps)
  also have "\<dots> \<le> ?v" using m powi_mono [OF m(3)] by (intro mult_mono) simp_all
  finally have "10 powi (-399) < (10 :: real) powi (ilog 10 a b + 1)" using hi by linarith
  then have "-399 < ilog 10 a b + 1" by (metis not_less power_int_increasing one_le_numeral)
  then show "-400 < ilog 10 a b" by simp
qed

lemma magnitude_ratio: "real_of_int (mag_num x) / real_of_int (mag_den x) = \<bar>rv x\<bar>"
  by (auto simp: mag_num_def mag_den_def rv_def abs_mult power_int_def field_simps)

lemma parse_g17_magnitude:
  assumes "f64_ok (FFin m e)" and "0 < m" and "mag_num x = m * 2 ^ nat e" "mag_den x = 2 ^ nat (- e)"
    and "sig_digits 17 (mag_num x) (mag_den x) = (q, k)" and "ds = trim_zeros (fmt_nat (nat q))"
  shows "parse_decimal neg (if k < -4 \<or> k \<ge> 17 then layout_e ds k else layout_f ds k) = PFok (FFin (if neg then - m else m) e)"
proof -
  define K where "K = ilog 10 (mag_num x) (mag_den x)"
  have pos: "0 < mag_num x" "0 < mag_den x" using assms(2-4) by simp_all
  have v: "real_of_int (mag_num x) / real_of_int (mag_den x) = real_of_int m * 2 powi e"
    unfolding assms(3,4) by (auto simp: power_int_def field_simps)
  note q = sig_digits_bounds [OF pos _ assms(5), simplified, folded K_def, unfolded v]
  have K: "-400 < K" "K < 400" using exponent_range [OF assms(1,2) pos(2) v pos(1)] by (simp_all add: K_def)
  have "10 powi K \<le> real_of_int m * 2 powi e" using ilog_bounds(1) [of 10 "mag_num x" "mag_den x"] pos v by (simp add: K_def)
  from near64_decimal [OF assms(1,2) this] q(4)
  have near: "near64 (real_of_int q * 10 powi (k - 16)) m e" by simp
  have len: "length (fmt_nat (nat q)) = 17" using length_fmt_nat [of 16 "nat q"] q(1,2) by (simp add: nat_le_iff nat_less_iff le_nat_iff)
  have "nat q \<noteq> 0" using q(1) by simp
  then have ds: "list_all is_digit ds" "ds \<noteq> []"
    using fmt_nat_digits [of "nat q"] trim_zeros_digits trim_zeros_nonempty [of "fmt_nat (nat q)"]
    unfolding assms(6) by (auto simp: list_all_iff)
  have val: "real (dec_val 0 ds) * 10 powi (k + 1 - int (length ds)) = real_of_int q * 10 powi (k - 16)"
    using trim_zeros_value [of "fmt_nat (nat q)" "k + 1"] q(1) len unfolding assms(6) by simp
  have "\<bar>k\<bar> < 10000" using q(3) K by auto
  then have "stands_for (if k < -4 \<or> k \<ge> 17 then layout_e ds k else layout_f ds k) (real_of_int q * 10 powi (k - 16))"
    using stands_for_layout_e [OF ds, of k, unfolded val] stands_for_layout_f [OF ds, of k, unfolded val] by simp
  then show ?thesis using parse_decimal_stands assms(1,2) near by blast
qed

text \<open>The texts the layouts make: a digit first, and none of the letters of a special value or a hexadecimal prefix.\<close>

definition plain_text :: "bytes \<Rightarrow> bool" where
  "plain_text s \<longleftrightarrow> s \<noteq> [] \<and> is_digit (hd s) \<and> list_all (\<lambda>c. is_digit c \<or> c \<in> {CHR ''.'', CHR ''e'', CHR ''+'', CHR ''-''}) s"

lemma plain_fmt_exp: "list_all (\<lambda>c. is_digit c \<or> c \<in> {CHR ''.'', CHR ''e'', CHR ''+'', CHR ''-''}) (fmt_exp k)"
proof -
  have "list_all (\<lambda>c. is_digit c \<or> Q c) (fmt_nat n)" for n Q
    using fmt_nat_digits [of n] by (simp add: list_all_iff)
  then show ?thesis by (simp add: fmt_exp_def)
qed

lemma plain_layouts:
  assumes "list_all is_digit ds" and "ds \<noteq> []"
  shows "plain_text (layout_e ds k)" "plain_text (layout_f ds k)"
proof -
  have ds: "is_digit (hd ds)" "\<And>c. c \<in> set ds \<Longrightarrow> is_digit c" using assms by (auto simp: list_all_iff)
  show "plain_text (layout_e ds k)"
    using ds plain_fmt_exp [of k] assms(2)
    by (cases ds) (auto simp: plain_text_def layout_e_def list_all_iff dest: in_set_takeD in_set_dropD)
  show "plain_text (layout_f ds k)"
  proof (cases "k < 0")
    case False
    then have "hd (take (nat (k + 1)) ds) = hd ds" "take (nat (k + 1)) ds \<noteq> []" using assms(2) by (cases ds; simp)+
    with False show ?thesis
      using ds assms(2) by (auto simp: plain_text_def layout_f_def list_all_iff hd_append dest: in_set_takeD in_set_dropD)
  qed (use ds in \<open>auto simp: plain_text_def layout_f_def list_all_iff\<close>)
qed

lemma go_ParseFloat_plain:
  assumes "plain_text s"
  shows "go_ParseFloat ((if neg then ''-'' else []) @ s) = parse_decimal neg s"
proof -
  obtain c cs where s: "s = c # cs" and c: "is_digit c" using assms by (cases s) (auto simp: plain_text_def)
  have c': "c \<noteq> CHR ''+''" "c \<noteq> CHR ''-''" using c by auto
  have lower: "lower_byte c = c" using c by (auto simp: lower_byte_def is_digit_def)
  have "is_digit c \<Longrightarrow> c \<noteq> CHR ''i'' \<and> c \<noteq> CHR ''n''" by (auto simp: is_digit_def)
  then have special: "special ((if neg then ''-'' else []) @ s) = None"
    using c c' by (auto simp: special_def strip_sign_def s lower)
  have "lower_byte d \<noteq> CHR ''x''" if "is_digit d \<or> d \<in> {CHR ''.'', CHR ''e'', CHR ''+'', CHR ''-''}" for d
    using that by (auto simp: lower_byte_def is_digit_def)
  moreover have "s ! 1 \<in> set s" if "length s > 2" using that by simp
  ultimately have "\<not> hex_prefix s"
    using assms by (auto simp: hex_prefix_def plain_text_def list_all_iff)
  then show ?thesis
    using special c' by (simp add: go_ParseFloat_def strip_sign_def minus_sign_def s)
qed

text \<open>Every finite double is read back from its 17-digit text, sign of zero included.\<close>

lemma g17_text:
  assumes "f64_ok (FFin m e)"
  obtains ds t q k where "FormatFloat_g17 (FFin m e) = (if m < 0 then ''-'' else []) @ t" "plain_text t"
    "sig_digits 17 (mag_num (FFin m e)) (mag_den (FFin m e)) = (q, k)" "ds = trim_zeros (fmt_nat (nat q))"
    "t = (if k < -4 \<or> k \<ge> 17 then layout_e ds k else layout_f ds k)"
proof -
  let ?x = "FFin m e"
  obtain q k where qk: "sig_digits 17 (mag_num ?x) (mag_den ?x) = (q, k)" by fastforce
  define ds where "ds = trim_zeros (fmt_nat (nat q))"
  have "m \<noteq> 0" using assms by (simp add: f64_ok_def)
  then have pos: "0 < mag_num ?x" "0 < mag_den ?x" by (simp_all add: mag_num_def mag_den_def mant_def)
  have "nat q \<noteq> 0" using sig_digits_bounds(1) [OF pos _ qk] by simp
  then have ds: "list_all is_digit ds" "ds \<noteq> []"
    using fmt_nat_digits [of "nat q"] trim_zeros_digits trim_zeros_nonempty [of "fmt_nat (nat q)"]
    by (auto simp: ds_def list_all_iff)
  let ?t = "if k < -4 \<or> k \<ge> 17 then layout_e ds k else layout_f ds k"
  have "FormatFloat_g17 ?x = (if m < 0 then ''-'' else []) @ ?t"
    by (simp add: FormatFloat_g17_def qk ds_def sign_text_def fsign_def)
  moreover have "plain_text ?t" using plain_layouts [OF ds] by simp
  ultimately show thesis using that qk ds_def by blast
qed

lemma no_underscore_g17:
  assumes "f64_ok x" and "finite64 x"
  shows "CHR ''_'' \<notin> set (FormatFloat_g17 x)"
proof (cases x)
  case (FFin m e)
  from g17_text [OF assms(1) [unfolded FFin]] obtain t where
      "FormatFloat_g17 x = (if m < 0 then ''-'' else []) @ t" "plain_text t"
    unfolding FFin by metis
  then show ?thesis by (auto simp: plain_text_def list_all_iff is_digit_def)
qed (use assms(2) in \<open>auto simp: finite64_def FormatFloat_g17_def sign_text_def\<close>)

lemma parse_format_g17:
  assumes "f64_ok x" and "finite64 x"
  shows "go_ParseFloat (FormatFloat_g17 x) = PFok x"
proof (cases x)
  case (FZero s)
  have "plain_text ''0''" by (simp add: plain_text_def)
  moreover have "parse_decimal s ''0'' = PFok (FZero s)"
    by (simp add: parse_decimal_def read_mantissa_def Let_def round_mag_def in_range_def)
  ultimately show ?thesis
    using go_ParseFloat_plain [of "''0''" s] by (simp add: FZero FormatFloat_g17_def sign_text_def fsign_def)
next
  case (FFin m e)
  have m: "m \<noteq> 0" "f64_ok (FFin \<bar>m\<bar> e)" using assms(1) by (simp_all add: FFin f64_ok_def)
  have mag: "mag_num (FFin m e) = \<bar>m\<bar> * 2 ^ nat e" "mag_den (FFin m e) = 2 ^ nat (- e)"
    by (simp_all add: mag_num_def mag_den_def mant_def expo_def)
  from g17_text [OF assms(1) [unfolded FFin]] obtain ds t q k where
      t: "FormatFloat_g17 x = (if m < 0 then ''-'' else []) @ t" "plain_text t"
        "sig_digits 17 (mag_num (FFin m e)) (mag_den (FFin m e)) = (q, k)" "ds = trim_zeros (fmt_nat (nat q))"
        "t = (if k < -4 \<or> k \<ge> 17 then layout_e ds k else layout_f ds k)"
    unfolding FFin by metis
  have "go_ParseFloat (FormatFloat_g17 x) = parse_decimal (m < 0) t"
    unfolding t(1) using go_ParseFloat_plain [OF t(2), of "m < 0"] by simp
  also have "\<dots> = PFok (FFin (if m < 0 then - \<bar>m\<bar> else \<bar>m\<bar>) e)"
    using parse_g17_magnitude [OF m(2) _ mag t(3,4)] m(1) unfolding t(5) by simp
  also have "(if m < 0 then - \<bar>m\<bar> else \<bar>m\<bar>) = m" by simp
  finally show ?thesis by (simp add: FFin)
qed (use assms in \<open>simp_all add: finite64_def\<close>)

section \<open>Order\<close>

lemma aligned_rv: "real_of_int (aligned x y) = rv x * 2 powi (- min (expo x) (expo y))"
proof -
  let ?m = "min (expo x) (expo y)"
  have "(2 :: real) ^ nat (expo x - ?m) = 2 powi (expo x - ?m)" by (simp add: power_int_def)
  also have "\<dots> = 2 powi expo x * 2 powi (- ?m)" using power_int_add [of "2 :: real" "expo x" "- ?m"] by simp
  finally have "(2 :: real) ^ nat (expo x - ?m) = 2 powi expo x * 2 powi (- ?m)" .
  then show ?thesis by (simp add: aligned_def rv_def)
qed

lemma aligned_compare:
  "aligned x y < aligned y x \<longleftrightarrow> rv x < rv y" "aligned x y = aligned y x \<longleftrightarrow> rv x = rv y"
proof -
  define u :: real where "u = 2 powi (- min (expo x) (expo y))"
  have u: "0 < u" by (simp add: u_def zero_less_power_int)
  have eq: "real_of_int (aligned x y) = rv x * u" "real_of_int (aligned y x) = rv y * u"
    by (simp_all add: aligned_rv u_def min.commute)
  show "aligned x y < aligned y x \<longleftrightarrow> rv x < rv y"
    unfolding of_int_less_iff [symmetric, where ?'a = real] eq using u by simp
  show "aligned x y = aligned y x \<longleftrightarrow> rv x = rv y"
    unfolding of_int_eq_iff [symmetric, where ?'a = real] eq using u by simp
qed

text \<open>On finite doubles the comparisons are those of the reals.\<close>

lemma compare_rv:
  assumes "finite64 x" and "finite64 y"
  shows "flt x y \<longleftrightarrow> rv x < rv y" "feq x y \<longleftrightarrow> rv x = rv y" "fle x y \<longleftrightarrow> rv x \<le> rv y"
proof -
  show lt: "flt x y \<longleftrightarrow> rv x < rv y"
    using assms by (auto simp: flt_def finite64_def aligned_compare split: f64.splits)
  show eq: "feq x y \<longleftrightarrow> rv x = rv y"
    using assms by (auto simp: feq_def finite64_def aligned_compare split: f64.splits)
  show "fle x y \<longleftrightarrow> rv x \<le> rv y" by (auto simp: fle_def lt eq)
qed

lemma f64_ok_round_mag:
  assumes "0 \<le> n" and "0 < d"
  shows "f64_ok (round_mag neg n d)"
proof (cases "n = 0")
  case True
  then show ?thesis by (simp add: round_mag_def f64_ok_def)
next
  case False
  define il where "il = ilog 2 n d"
  define e where "e = max (-1074) (il - 52)"
  define q where "q = rne (scale_num 2 n e) (scale_den 2 d e)"
  define r where "r = real_of_int n / real_of_int d"
  define x where "x = r * 2 powi (- e)"
  have near: "\<bar>real_of_int q - x\<bar> \<le> 1 / 2"
    using rne_near [of "scale_den 2 d e" "scale_num 2 n e"] scale_ratio [of 2 d n e] assms(2)
    by (simp add: q_def x_def r_def scale_den_pos)
  have il: "2 powi il \<le> r" "r < 2 powi (il + 1)"
    using ilog_bounds [of 2 n d] False assms by (simp_all add: il_def r_def)
  have x: "2 powi (il - e) \<le> x" "x < 2 powi (il + 1 - e)"
    using il by (simp_all add: x_def power_int_diff power_int_minus field_simps zero_less_power_int)
  have "il + 1 - e \<le> 53" by (simp add: e_def)
  then have "x < 2 ^ 53" using x(2) powi_mono [of "il + 1 - e" 53] by simp
  moreover have "0 < x" using x(1) zero_less_power_int [of "2 :: real" "il - e"] by linarith
  ultimately have "real_of_int q < real_of_int (2 ^ 53) + 1" "-1 < real_of_int q"
    using near unfolding of_int_power of_int_numeral by linarith+
  then have q: "q \<le> 2 ^ 53" "0 \<le> q" by linarith+
  have "2 ^ 52 \<le> q \<or> e = -1074"
  proof (cases "e = -1074")
    case False
    then have "e = il - 52" by (auto simp: e_def max_def split: if_splits)
    then have "2 ^ 52 \<le> x" using x(1) by simp
    then have "real_of_int (2 ^ 52) - 1 < real_of_int q" using near unfolding of_int_power of_int_numeral by linarith
    then show ?thesis by linarith
  qed simp
  then show ?thesis
    using q False unfolding round_mag_def Let_def il_def [symmetric] e_def [symmetric] q_def [symmetric]
    by (auto simp: f64_ok_def pack_def e_def)
qed

lemma f64_ok_of_ratio: "0 < d \<Longrightarrow> f64_ok (f64_of_ratio n d)"
  by (simp add: f64_of_ratio_def f64_ok_round_mag)

text \<open>The exponent of a rounded ratio.\<close>

lemma round_mag_expo:
  assumes "0 < n" and "0 < d" and "2 powi k \<le> real_of_int n / real_of_int d"
    and "real_of_int n / real_of_int d < 2 powi (k' + 1)" and "-1022 \<le> k"
  shows "round_mag neg n d = FInf neg \<and> 1022 < k' \<or> (\<exists>m e. round_mag neg n d = FFin m e \<and> k - 52 \<le> e \<and> e \<le> k' - 51)"
proof -
  define il where "il = ilog 2 n d"
  define e where "e = max (-1074) (il - 52)"
  define q where "q = rne (scale_num 2 n e) (scale_den 2 d e)"
  have b: "2 powi il \<le> real_of_int n / real_of_int d" "real_of_int n / real_of_int d < 2 powi (il + 1)"
    using ilog_bounds [of 2 n d] assms(1,2) by (simp_all add: il_def)
  have "2 powi k < (2 :: real) powi (il + 1)" "2 powi il < (2 :: real) powi (k' + 1)"
    using b assms(3,4) by linarith+
  then have il: "k \<le> il" "il \<le> k'" using powi_less_imp by fastforce+
  then have e: "k - 52 \<le> e" "e \<le> k' - 52" "e = il - 52" using assms(5) by (simp_all add: e_def)
  have "real_of_int (scale_num 2 n e) / real_of_int (scale_den 2 d e) = real_of_int n / real_of_int d * 2 powi (- e)"
    using scale_ratio [of 2 d n e] assms(2) by simp
  moreover have "1 \<le> real_of_int n / real_of_int d * 2 powi (- e)"
  proof -
    have "2 powi e \<le> (2 :: real) powi il" using e(3) by (intro powi_mono) simp
    then have "2 powi e \<le> real_of_int n / real_of_int d" using b(1) by linarith
    then have "1 \<le> real_of_int n / real_of_int d / 2 powi e" by (simp only: pos_le_divide_eq [OF zero_less_power_int [OF zero_less_numeral]] mult_1)
    then show ?thesis by (simp only: power_int_minus divide_inverse)
  qed
  ultimately have "1 - 1 / 2 \<le> real_of_int q"
    using rne_near [OF scale_den_pos [of 2 d e], of "scale_num 2 n e"] assms(2) unfolding q_def by linarith
  then have "q \<noteq> 0" by auto
  then show ?thesis
    using assms(1) e unfolding round_mag_def Let_def il_def [symmetric] e_def [symmetric] q_def [symmetric]
    by (auto simp: pack_def)
qed

lemma f64_ok_parse:
  assumes "go_ParseFloat s = PFok x \<or> go_ParseFloat s = PFrange x"
  shows "f64_ok x"
proof -
  have "f64_ok y" if "in_range (round_mag neg n d) = PFok y \<or> in_range (round_mag neg n d) = PFrange y" "0 \<le> n" "0 < d" for y neg n d
    using that f64_ok_round_mag [of n d neg] by (auto simp: in_range_def split: f64.splits)
  then show ?thesis
    using assms by (auto simp: go_ParseFloat_def parse_decimal_def parse_hex_def Let_def special_def f64_ok_def
        split: option.splits if_splits prod.splits)
qed

lemma f64_ok_ops:
  assumes "f64_ok x" and "f64_ok y"
  shows "f64_ok (fneg x)" "f64_ok (fadd x y)" "f64_ok (fmul x y)" "f64_ok (fdiv x y)"
proof -
  have bin: "f64_ok (round_bin n e)" for n e by (simp add: round_bin_def f64_ok_of_ratio)
  show "f64_ok (fneg x)" using assms(1) by (cases x) (auto simp: fneg_def f64_ok_def)
  show "f64_ok (fadd x y)" using assms bin by (cases x; cases y) (auto simp: fadd_def f64_ok_def [of "FInf _"] f64_ok_def [of FNaN] f64_ok_def [of "FZero _"])
  show "f64_ok (fmul x y)" using bin by (cases x; cases y) (auto simp: fmul_def Let_def f64_ok_def [of "FInf _"] f64_ok_def [of FNaN] f64_ok_def [of "FZero _"])
  have "f64_ok (fdiv (FFin m e) (FFin n f))" if "n \<noteq> 0" for m e n f
    unfolding fdiv_def Let_def prod.case f64.case using that by (intro f64_ok_round_mag) simp_all
  then show "f64_ok (fdiv x y)"
    using assms by (cases x; cases y) (auto simp: fdiv_def Let_def f64_ok_def)
qed

lemma f64_of_int_1: "f64_of_int 1 = FFin (2 ^ 52) (-52)"
proof -
  have "round_mag False 1 1 = FFin (if False then - (2 ^ 52) else 2 ^ 52) (-52)"
    by (rule round_mag_near) (simp_all add: f64_ok_def near64_def)
  then show ?thesis by (simp add: f64_of_int_def f64_of_ratio_def)
qed

end
