(* ===== verification/FloatArgs.thy ===== *)
theory FloatArgs
  imports Args FloatSpec
begin

text \<open>
  Floating-point arguments and stored values: \<^verbatim>\<open>ParseFloat\<close> of \<^verbatim>\<open>internal/command/args.go\<close>, the parser and
  formatter of stored floats of \<^verbatim>\<open>internal/storage/store_strings.go\<close>. Both parsers accept the same texts.
\<close>

section \<open>Parsing\<close>

definition hex_body :: "bytes \<Rightarrow> bool" where
  "hex_body s =
     (let body = strip_sign s in
      length body \<ge> 3 \<and> body ! 0 = CHR ''0'' \<and> (body ! 1 = CHR ''x'' \<or> body ! 1 = CHR ''X'') \<and>
      CHR ''p'' \<notin> set body \<and> CHR ''P'' \<notin> set body)"

definition parseHexNoExp :: "bytes \<Rightarrow> f64 option" where
  "parseHexNoExp s =
     (if hex_body s then (case go_ParseFloat (s @ ''p0'') of PFok f \<Rightarrow> Some f | _ \<Rightarrow> None) else None)"

definition ParseFloat :: "bytes \<Rightarrow> arg_error + f64" where
  "ParseFloat s =
     (if s = [] then Inr (FZero False)
      else if CHR ''_'' \<in> set s then Inl ArgNotFloat
      else
        case (case go_ParseFloat s of PFok f \<Rightarrow> Some f | _ \<Rightarrow> parseHexNoExp s) of
          None \<Rightarrow> Inl ArgNotFloat
        | Some f \<Rightarrow> if f = FNaN then Inl ArgNotFloat else Inr f)"

definition parseHexNoExpStored :: "bytes \<Rightarrow> f64 option" where
  "parseHexNoExpStored s =
     (if hex_body s then (case go_ParseFloat (s @ ''p0'') of PFok f \<Rightarrow> Some f | _ \<Rightarrow> None) else None)"

definition parseStoredFloat :: "bytes \<Rightarrow> f64 option" where
  "parseStoredFloat s =
     (if s = [] then Some (FZero False)
      else if CHR ''_'' \<in> set s then None
      else
        case (case go_ParseFloat s of PFok f \<Rightarrow> Some f | _ \<Rightarrow> parseHexNoExpStored s) of
          None \<Rightarrow> None
        | Some f \<Rightarrow> if f = FNaN then None else Some f)"

definition parseFloatArg :: "bytes \<Rightarrow> f64 option" where
  "parseFloatArg arg = (case ParseFloat arg of Inl _ \<Rightarrow> None | Inr f \<Rightarrow> Some f)"

section \<open>Formatting\<close>

definition fractionalDigits :: "bytes \<Rightarrow> nat" where
  "fractionalDigits s = length (dropWhile (\<lambda>c. c \<noteq> CHR ''.'') s) - 1"

definition trim_right :: "char \<Rightarrow> bytes \<Rightarrow> bytes" where
  "trim_right x s = rev (dropWhile (\<lambda>c. c = x) (rev s))"

definition formatRedisFloat :: "f64 \<Rightarrow> bytes" where
  "formatRedisFloat f =
     (case f of
        FInf s \<Rightarrow> if s then ''-inf'' else ''inf''
      | FNaN \<Rightarrow> ''-nan''
      | _ \<Rightarrow>
          let short = FormatFloat_short f in
          if fractionalDigits short \<le> 17 then short
          else
            let s = FormatFloat_f 17 f in
            if CHR ''.'' \<in> set s then trim_right (CHR ''.'') (trim_right (CHR ''0'') s) else s)"

section \<open>Both parsers accept the same\<close>

lemma parseStoredFloat_eq: "parseStoredFloat s = parseFloatArg s"
  by (simp add: parseStoredFloat_def parseFloatArg_def ParseFloat_def parseHexNoExpStored_def parseHexNoExp_def
      split: option.split pfloat.split)

lemma ParseFloat_not_NaN [simp]: "ParseFloat s \<noteq> Inr FNaN"
  by (simp add: ParseFloat_def split: option.split)

text \<open>
  The comment of \<^verbatim>\<open>ParseFloat\<close> says that it does not accept the spellings of infinity;
  \<^verbatim>\<open>strconv.ParseFloat\<close> does, and so does it.
\<close>

lemma ParseFloat_accepts_infinity:
  "ParseFloat ''inf'' = Inr (FInf False)" "ParseFloat ''-Infinity'' = Inr (FInf True)"
  by code_simp+

lemma f64_ok_ParseFloat:
  assumes "ParseFloat s = Inr f"
  shows "f64_ok f"
proof -
  have "f64_ok (FZero False)" by (simp add: f64_ok_def)
  moreover have "f64_ok x" if "go_ParseFloat t = PFok x" for t x using f64_ok_parse that by blast
  ultimately show ?thesis
    using assms by (auto simp: ParseFloat_def parseHexNoExp_def split: if_splits option.splits pfloat.splits)
qed

text \<open>The 17-digit text of a finite double is read back as that double.\<close>

lemma ParseFloat_g17:
  assumes "f64_ok x" and "finite64 x"
  shows "ParseFloat (FormatFloat_g17 x) = Inr x"
proof -
  have parse: "go_ParseFloat (FormatFloat_g17 x) = PFok x" by (rule parse_format_g17 [OF assms])
  have "go_ParseFloat [] = PFsyntax" by code_simp
  then have "FormatFloat_g17 x \<noteq> []" using parse by auto
  moreover have "CHR ''_'' \<notin> set (FormatFloat_g17 x)" by (rule no_underscore_g17 [OF assms])
  moreover have "x \<noteq> FNaN" using assms(2) by (auto simp: finite64_def)
  ultimately show ?thesis by (simp add: ParseFloat_def parse)
qed

end
