(* ===== verification/Scores.thy ===== *)
theory Scores
  imports FloatSpec Ranges "HOL-Library.Char_ord" "HOL-Library.List_Lexorder" "HOL-Library.Multiset" "HOL-Library.AList"
begin

text \<open>
  Scores and score-ordered members (\<^verbatim>\<open>internal/storage/store_zsets.go\<close> and the types of
  \<^verbatim>\<open>internal/storage/store.go\<close>): the domain of a DynamoDB Number, score bounds, rank ranges, and the
  order of a sorted set, ascending score and then ascending bytes of the member. \<^verbatim>\<open>sort.Slice\<close> is an
  insertion sort here; the order being strict on distinct members, every sort gives that list. The
  type \<open>zitems\<close> holds what a backend can hold of a sorted set: distinct members, each with a score
  a Number represents, kept in that order.
\<close>

section \<open>The domain of a Number\<close>

text \<open>The nearest doubles to \<open>(10 ^ 38 - 1) * 10 ^ 88\<close> and to \<open>10 ^ -130\<close>.\<close>

definition zsetScoreMaxMagnitude :: f64 where
  "zsetScoreMaxMagnitude = f64_of_ratio ((10 ^ 38 - 1) * 10 ^ 88) 1"

definition zsetScoreMinMagnitude :: f64 where
  "zsetScoreMinMagnitude = f64_of_ratio 1 (10 ^ 130)"

definition is_inf :: "f64 \<Rightarrow> bool" where
  "is_inf x = (case x of FInf _ \<Rightarrow> True | _ \<Rightarrow> False)"

definition is_zero :: "f64 \<Rightarrow> bool" where
  "is_zero x = (case x of FZero _ \<Rightarrow> True | _ \<Rightarrow> False)"

definition scoreOutOfDomain :: "f64 \<Rightarrow> bool" where
  "scoreOutOfDomain f \<longleftrightarrow>
     is_inf f \<or> f = FNaN \<or>
     flt zsetScoreMaxMagnitude (fabs f) \<or> (\<not> is_zero f \<and> flt (fabs f) zsetScoreMinMagnitude)"

text \<open>A double a Number can hold, and the one it holds: a Number has no negative zero.\<close>

definition storable :: "f64 \<Rightarrow> bool" where
  "storable x \<longleftrightarrow> f64_ok x \<and> \<not> scoreOutOfDomain x"

definition unsigned_zero :: "f64 \<Rightarrow> f64" where
  "unsigned_zero x = (if is_zero x then FZero False else x)"

lemma storable_finite: "storable x \<Longrightarrow> finite64 x"
  by (auto simp: storable_def scoreOutOfDomain_def is_inf_def finite64_def split: f64.splits)

lemma rne_nonneg: "0 \<le> n \<Longrightarrow> 0 < d \<Longrightarrow> 0 \<le> rne n d"
  by (simp add: rne_def Let_def pos_imp_zdiv_nonneg_iff)

lemma not_below_zero: "0 \<le> n \<Longrightarrow> \<not> flt (f64_of_ratio n 1) (FZero s)"
proof -
  assume n: "0 \<le> n"
  have "0 < scale_den 2 1 e" "0 \<le> scale_num 2 n e" for e
    using n by (simp_all add: scale_den_def scale_num_def)
  then have "0 \<le> rne (scale_num 2 n e) (scale_den 2 1 e)" for e by (simp add: rne_nonneg)
  then show ?thesis
    using n by (auto simp: f64_of_ratio_def round_mag_def Let_def pack_def flt_def aligned_def mant_def not_less)
qed

lemma storable_zero [simp]: "storable (FZero s)"
proof -
  have "\<not> flt zsetScoreMaxMagnitude (FZero False)"
    unfolding zsetScoreMaxMagnitude_def by (rule not_below_zero) simp
  then show ?thesis
    by (simp add: storable_def f64_ok_def scoreOutOfDomain_def is_inf_def is_zero_def fabs_def)
qed

text \<open>A Number holds every double with an exponent that is not extreme, in particular every unsigned integer.\<close>

lemma fabs_finite: "f64_ok (FFin m e) \<Longrightarrow> finite64 (fabs (FFin m e)) \<and> 2 powi e \<le> rv (fabs (FFin m e)) \<and>
    rv (fabs (FFin m e)) < 2 powi (e + 53)"
proof -
  assume ok: "f64_ok (FFin m e)"
  then have "1 \<le> \<bar>m\<bar>" "\<bar>m\<bar> < 2 ^ 53" by (auto simp: f64_ok_def)
  then have "1 \<le> real_of_int \<bar>m\<bar>" "real_of_int \<bar>m\<bar> < real_of_int (2 ^ 53)" by (linarith, simp only: of_int_less_iff)
  then have "1 * 2 powi e \<le> real_of_int \<bar>m\<bar> * 2 powi e" "real_of_int \<bar>m\<bar> * 2 powi e < 2 ^ 53 * 2 powi e"
    by (intro mult_right_mono mult_strict_right_mono; simp add: zero_less_power_int)+
  then show ?thesis
    by (simp add: fabs_def finite64_def rv_def mant_def expo_def power_int_add)
qed

lemma storable_expo:
  assumes ok: "f64_ok (FFin m e)" and "-60 \<le> e" and "e \<le> 60"
  shows "storable (FFin m e)"
proof -
  let ?x = "fabs (FFin m e)"
  note x = fabs_finite [OF ok]
  have le: "(2 :: real) powi (-60) \<le> 2 powi e" "(2 :: real) powi (e + 53) \<le> 2 powi 113"
    using assms(2,3) by (intro powi_mono, linarith)+
  have "\<not> flt zsetScoreMaxMagnitude ?x"
  proof -
    have eq: "zsetScoreMaxMagnitude = round_mag False ((10 ^ 38 - 1) * 10 ^ 88) 1"
      by (simp add: zsetScoreMaxMagnitude_def f64_of_ratio_def)
    have "zsetScoreMaxMagnitude = FInf False \<and> 1022 < (500 :: int) \<or> (\<exists>m e. zsetScoreMaxMagnitude = FFin m e \<and> 400 - 52 \<le> e \<and> e \<le> 500 - 51)"
      unfolding eq by (rule round_mag_expo) (simp_all add: power_int_def)
    then obtain n f where c: "zsetScoreMaxMagnitude = FFin n f" "348 \<le> f" by auto
    have okc: "f64_ok (FFin n f)" using f64_ok_of_ratio [of 1] by (simp add: c(1) [symmetric] zsetScoreMaxMagnitude_def)
      have "\<not> flt zsetScoreMaxMagnitude (FZero False)"
        unfolding zsetScoreMaxMagnitude_def by (rule not_below_zero) simp
      then have "0 \<le> n" by (simp add: c(1) flt_def aligned_def mant_def not_less zero_le_mult_iff)
      then have "fabs (FFin n f) = FFin n f" by (simp add: fabs_def)
      then have "2 powi f \<le> rv (FFin n f)" "finite64 (FFin n f)" using fabs_finite [OF okc] by auto
      moreover have "(2 :: real) powi 113 \<le> 2 powi f" using c(2) by (intro powi_mono) simp
      ultimately show ?thesis using x le by (simp add: c(1) compare_rv)
  qed
  moreover have "\<not> flt ?x zsetScoreMinMagnitude"
  proof -
    have eq: "zsetScoreMinMagnitude = round_mag False 1 (10 ^ 130)"
      by (simp add: zsetScoreMinMagnitude_def f64_of_ratio_def)
    have "zsetScoreMinMagnitude = FInf False \<and> 1022 < (-400 :: int) \<or> (\<exists>m e. zsetScoreMinMagnitude = FFin m e \<and> -500 - 52 \<le> e \<and> e \<le> -400 - 51)"
      unfolding eq by (rule round_mag_expo) (simp_all add: power_int_def power_divide field_simps)
    then obtain n f where c: "zsetScoreMinMagnitude = FFin n f" "f \<le> -451" by auto
    have okc: "f64_ok (FFin n f)" using f64_ok_of_ratio [of "10 ^ 130" 1] by (simp add: c(1) [symmetric] zsetScoreMinMagnitude_def)
    have "rv (FFin n f) \<le> rv (fabs (FFin n f))"
      by (simp add: rv_def mant_def expo_def fabs_def mult_right_mono zero_le_power_int)
    then have "rv (FFin n f) < 2 powi (f + 53)" "finite64 (FFin n f)" using fabs_finite [OF okc] by (auto simp: finite64_def)
    moreover have "(2 :: real) powi (f + 53) \<le> 2 powi (-60)" using c(2) by (intro powi_mono) simp
    ultimately show ?thesis using x le by (simp add: c(1) compare_rv)
  qed
  ultimately show ?thesis
    using ok by (simp add: storable_def scoreOutOfDomain_def is_inf_def)
qed

lemma storable_uint64: "storable (f64_of_int (uint (w :: 64 word)))"
proof (cases "uint w = 0")
  case False
  define n where "n = uint w"
  have n: "0 < n" "n < 2 ^ 64"
    using False unsigned_less [of w] by (simp_all add: n_def order_less_le)
  then have "1 \<le> real_of_int n" "real_of_int n < real_of_int (2 ^ 64)" by (linarith, simp only: of_int_less_iff)
  then have "round_mag False n 1 = FInf False \<and> 1022 < (63 :: int) \<or> (\<exists>m e. round_mag False n 1 = FFin m e \<and> 0 - 52 \<le> e \<and> e \<le> 63 - 51)"
    using n by (intro round_mag_expo) (simp_all add: power_int_def)
  then obtain m e where r: "f64_of_int n = FFin m e" "-52 \<le> e" "e \<le> 12"
    using n by (auto simp: f64_of_int_def f64_of_ratio_def)
  have "f64_ok (FFin m e)" using f64_ok_of_ratio [of 1 n] by (simp add: r(1) [symmetric] f64_of_int_def)
  then show ?thesis using storable_expo r by (simp add: n_def [symmetric])
qed (simp add: f64_of_int_def f64_of_ratio_def round_mag_def)

lemma storable_unsigned_zero [simp]: "storable x \<Longrightarrow> storable (unsigned_zero x)"
  by (simp add: unsigned_zero_def)

lemma rv_unsigned_zero [simp]: "rv (unsigned_zero x) = rv x"
  by (cases x) (simp_all add: unsigned_zero_def is_zero_def rv_def mant_def)

lemma unsigned_zero_idem [simp]: "unsigned_zero (unsigned_zero x) = unsigned_zero x"
  by (simp add: unsigned_zero_def is_zero_def)

section \<open>Members and their order\<close>

type_synonym zmember = "bytes \<times> f64"

definition zless :: "zmember \<Rightarrow> zmember \<Rightarrow> bool" where
  "zless a b \<longleftrightarrow> (if \<not> feq (snd a) (snd b) then flt (snd a) (snd b) else fst a < fst b)"

primrec zinsert :: "zmember \<Rightarrow> zmember list \<Rightarrow> zmember list" where
  "zinsert a [] = [a]"
| "zinsert a (b # bs) = (if zless b a then b # zinsert a bs else a # b # bs)"

definition SortZMembers :: "zmember list \<Rightarrow> zmember list" where
  "SortZMembers ms = foldr zinsert ms []"

definition ZReverse :: "'a list \<Rightarrow> 'a list" where
  "ZReverse ms = fold (#) ms []"

lemma ZReverse_rev: "ZReverse ms = rev ms"
  by (simp add: ZReverse_def fold_Cons_rev)

text \<open>Distinct members with finite scores: there the order is strict and total.\<close>

definition zmembers :: "zmember list \<Rightarrow> bool" where
  "zmembers ms \<longleftrightarrow> distinct (map fst ms) \<and> (\<forall>m \<in> set ms. finite64 (snd m))"

lemma zless_rv:
  assumes "finite64 (snd a)" and "finite64 (snd b)"
  shows "zless a b \<longleftrightarrow> rv (snd a) < rv (snd b) \<or> (rv (snd a) = rv (snd b) \<and> fst a < fst b)"
  using compare_rv [OF assms] by (auto simp: zless_def)

lemma zless_total:
  assumes "finite64 (snd a)" and "finite64 (snd b)" and "fst a \<noteq> fst b"
  shows "zless a b \<noteq> zless b a"
  unfolding zless_rv [OF assms(1,2)] zless_rv [OF assms(2,1)] using assms(3)
  by (metis linorder_less_linear order_less_asym)

lemma zless_trans:
  assumes "zless a b" and "zless b c" and "finite64 (snd a)" "finite64 (snd b)" "finite64 (snd c)"
  shows "zless a c"
  using assms by (auto simp: zless_rv)

lemma mset_zinsert [simp]: "mset (zinsert a ms) = add_mset a (mset ms)"
  by (induction ms) auto

lemma mset_SortZMembers [simp]: "mset (SortZMembers ms) = mset ms"
  by (induction ms) (simp_all add: SortZMembers_def)

lemma set_SortZMembers [simp]: "set (SortZMembers ms) = set ms"
  using mset_SortZMembers [of ms] by (metis set_mset_mset)

lemma set_zinsert [simp]: "set (zinsert a ms) = insert a (set ms)"
  by (induction ms) auto

lemma zmembers_mset: "mset ms = mset ms' \<Longrightarrow> zmembers ms = zmembers ms'"
proof -
  assume eq: "mset ms = mset ms'"
  then have "mset (map fst ms) = mset (map fst ms')" by simp
  then have "distinct (map fst ms) = distinct (map fst ms')" by (rule mset_eq_imp_distinct_iff)
  moreover have "set ms = set ms'" using eq by (rule mset_eq_setD)
  ultimately show ?thesis by (simp add: zmembers_def)
qed

lemma zmembers_Cons:
  "zmembers (a # ms) \<longleftrightarrow> zmembers ms \<and> finite64 (snd a) \<and> fst a \<notin> fst ` set ms"
  by (auto simp: zmembers_def)

lemma sorted_zinsert:
  assumes "zmembers (a # ms)" and "sorted_wrt zless ms"
  shows "sorted_wrt zless (zinsert a ms)"
  using assms
proof (induction ms)
  case (Cons b ms)
  have fin: "finite64 (snd a)" "finite64 (snd b)" "\<forall>m \<in> set ms. finite64 (snd m)" "fst a \<noteq> fst b"
    using Cons.prems(1) by (auto simp: zmembers_def)
  show ?case
  proof (cases "zless b a")
    case True
    then show ?thesis using Cons by (auto simp: zmembers_Cons)
  next
    case False
    then have "zless a b" using zless_total [of a b] fin by blast
    then show ?thesis using Cons.prems(2) fin False zless_trans [of a b] by auto
  qed
qed simp

lemma sorted_SortZMembers: "zmembers ms \<Longrightarrow> sorted_wrt zless (SortZMembers ms)"
proof (induction ms)
  case (Cons a ms)
  have "zmembers (a # SortZMembers ms)"
    using Cons.prems zmembers_mset [of "a # SortZMembers ms" "a # ms"] by simp
  then show ?case
    using Cons sorted_zinsert by (simp add: SortZMembers_def zmembers_Cons)
qed (simp add: SortZMembers_def)

lemma sorted_zless_unique:
  assumes "sorted_wrt zless xs" and "sorted_wrt zless ys" and "mset xs = mset ys" and "zmembers xs"
  shows "xs = ys"
  using assms
proof (induction xs arbitrary: ys)
  case (Cons x xs)
  then obtain y ys' where ys: "ys = y # ys'" by (cases ys) auto
  have zy: "zmembers (y # ys')" using Cons.prems(3,4) zmembers_mset ys by blast
  have "x = y"
  proof (rule ccontr)
    assume ne: "x \<noteq> y"
    have sets: "set (x # xs) = set (y # ys')" using Cons.prems(3) ys mset_eq_setD by metis
    have y: "y \<in> set xs" using ne sets by auto
    have x: "x \<in> set ys'" using ne sets by auto
    have "zless x y" "zless y x" using Cons.prems(1,2) ys x y by auto
    moreover have "fst x \<noteq> fst y" "finite64 (snd x)" "finite64 (snd y)"
      using zy x by (auto simp: zmembers_def) (metis fst_conv image_eqI)
    ultimately show False using zless_total [of x y] by blast
  qed
  then show ?case using Cons.IH [of ys'] Cons.prems ys by (simp add: zmembers_Cons)
qed simp

text \<open>Any sort by that order gives the same list, whatever it started from.\<close>

lemma SortZMembers_unique:
  assumes "sorted_wrt zless ys" and "mset ys = mset xs" and "zmembers xs"
  shows "SortZMembers xs = ys"
  using sorted_zless_unique [OF sorted_SortZMembers [OF assms(3)] assms(1)] assms zmembers_mset [of "SortZMembers xs" xs]
  by simp

section \<open>Ranks and bounds\<close>

text \<open>The slice of a normalised range.\<close>

definition rank_range :: "'a list \<Rightarrow> int \<Rightarrow> int \<Rightarrow> 'a list" where
  "rank_range xs start stop =
     (case ZNormalizeRankRange (int (length xs)) start stop of
        None \<Rightarrow> []
      | Some (lo, hi) \<Rightarrow> take (nat (hi + 1 - lo)) (drop (nat lo) xs))"

lemma rank_range_sub: "set (rank_range xs i j) \<subseteq> set xs" "distinct xs \<Longrightarrow> distinct (rank_range xs i j)"
  by (auto simp: rank_range_def split: option.splits dest: in_set_takeD in_set_dropD)

record ScoreBound =
  sb_Value :: f64
  sb_Exclusive :: bool

definition ZScoreInRange :: "f64 \<Rightarrow> ScoreBound \<Rightarrow> ScoreBound \<Rightarrow> bool" where
  "ZScoreInRange score mn mx \<longleftrightarrow>
     \<not> (if sb_Exclusive mn then fle score (sb_Value mn) else flt score (sb_Value mn)) \<and>
     \<not> (if sb_Exclusive mx then fle (sb_Value mx) score else flt (sb_Value mx) score)"

text \<open>The rank of a member: its position.\<close>

definition zrank :: "zmember list \<Rightarrow> bytes \<Rightarrow> int option" where
  "zrank ms m = (if m \<in> fst ` set ms then Some (int (length (takeWhile (\<lambda>p. fst p \<noteq> m) ms))) else None)"

text \<open>The Go map built from the members: the last score of a member wins.\<close>

definition score_map :: "zmember list \<Rightarrow> zmember list" where
  "score_map ms = fold (\<lambda>(m, x). AList.update m x) ms []"

lemma map_of_updates:
  "map_of (fold (\<lambda>(m, x). AList.update m x) ms g) = map_of g ++ map_of (rev ms)"
  by (induction ms arbitrary: g) (auto simp: update_conv')

lemma distinct_updates:
  "distinct (map fst g) \<Longrightarrow> distinct (map fst (fold (\<lambda>(m, x). AList.update m x) ms g))"
  by (induction ms arbitrary: g) (auto simp: distinct_update)

lemma map_of_score_map: "map_of (score_map ms) = map_of (rev ms)"
  by (simp add: score_map_def map_of_updates)

lemma distinct_score_map: "distinct (map fst (score_map ms))"
  by (simp add: score_map_def distinct_updates)

lemma set_score_map: "set (score_map ms) \<subseteq> set ms"
proof
  fix p
  assume "p \<in> set (score_map ms)"
  moreover obtain m x where p: "p = (m, x)" by (cases p)
  ultimately have "map_of (score_map ms) m = Some x" using map_of_is_SomeI [OF distinct_score_map] by simp
  then show "p \<in> set ms" by (auto simp: p map_of_score_map dest: map_of_SomeD)
qed

section \<open>What a backend holds of a sorted set\<close>

definition zitems_ok :: "zmember list \<Rightarrow> bool" where
  "zitems_ok ms \<longleftrightarrow> distinct (map fst ms) \<and> sorted_wrt zless ms \<and>
     (\<forall>m \<in> set ms. storable (snd m) \<and> unsigned_zero (snd m) = snd m)"

typedef zitems = "{ms. zitems_ok ms}"
  morphisms zlist Zitems
  by (rule exI [of _ "[]"]) (simp add: zitems_ok_def)

setup_lifting type_definition_zitems

lift_definition zempty :: zitems is "[]"
  by (simp add: zitems_ok_def)

lemma zitems_ok_zmembers: "zitems_ok ms \<Longrightarrow> zmembers ms"
  by (auto simp: zitems_ok_def zmembers_def storable_finite)

lemma sorted_filter_wrt: "sorted_wrt R xs \<Longrightarrow> sorted_wrt R (filter P xs)"
  by (induction xs) auto

lemma zitems_ok_filter: "zitems_ok ms \<Longrightarrow> zitems_ok (filter P ms)"
  by (auto simp: zitems_ok_def sorted_filter_wrt distinct_map_filter)

text \<open>Setting the score of a member (one a Number cannot hold is not stored), and removing members.\<close>

lift_definition zput :: "bytes \<Rightarrow> f64 \<Rightarrow> zitems \<Rightarrow> zitems" is
  "\<lambda>m x ms. if storable x then zinsert (m, unsigned_zero x) (filter (\<lambda>p. fst p \<noteq> m) ms) else ms"
proof -
  fix m :: bytes and x and ms :: "zmember list"
  assume ok: "zitems_ok ms"
  let ?f = "filter (\<lambda>p. fst p \<noteq> m) ms" and ?x = "(m, unsigned_zero x)"
  have "zitems_ok (zinsert ?x ?f)" if "storable x"
  proof -
    have f: "zitems_ok ?f" by (rule zitems_ok_filter [OF ok])
    then have z: "zmembers (?x # ?f)" using that by (auto simp: zmembers_Cons zitems_ok_zmembers storable_finite)
    then have "sorted_wrt zless (zinsert ?x ?f)" using f by (intro sorted_zinsert) (simp_all add: zitems_ok_def)
    moreover have "zmembers (zinsert ?x ?f)" using z zmembers_mset [of "zinsert ?x ?f" "?x # ?f"] by simp
    ultimately show ?thesis using f that by (auto simp: zitems_ok_def zmembers_def)
  qed
  then show "zitems_ok (if storable x then zinsert ?x ?f else ms)" using ok by simp
qed

lift_definition zdrop :: "bytes list \<Rightarrow> zitems \<Rightarrow> zitems" is
  "\<lambda>ms. filter (\<lambda>p. fst p \<notin> set ms)"
  by (rule zitems_ok_filter)

definition zscore :: "zitems \<Rightarrow> bytes \<Rightarrow> f64 option" where
  "zscore z = map_of (zlist z)"

definition zput_all :: "zmember list \<Rightarrow> zitems \<Rightarrow> zitems" where
  "zput_all ms z = fold (\<lambda>(m, x). zput m x) ms z"

lemma zlist_ok: "zitems_ok (zlist z)"
  using zlist by blast

lemma zlist_zempty [simp]: "zlist zempty = []"
  by transfer simp

lemma distinct_zlist [simp]: "distinct (map fst (zlist z))"
  using zlist_ok zitems_ok_def by blast

lemma zlist_storable: "(m, x) \<in> set (zlist z) \<Longrightarrow> storable x"
  using zlist_ok [of z] by (auto simp: zitems_ok_def)

lemma zmembers_zlist [simp]: "zmembers (zlist z)"
  by (rule zitems_ok_zmembers [OF zlist_ok])

text \<open>However a backend lists the items, sorting gives them in order.\<close>

lemma SortZMembers_zlist: "mset ms = mset (zlist z) \<Longrightarrow> SortZMembers ms = zlist z"
  using SortZMembers_unique [of "zlist z" ms] zmembers_mset [of ms "zlist z"] zlist_ok [of z]
  by (simp add: zitems_ok_def)

lemma zlist_zdrop: "zlist (zdrop ms z) = filter (\<lambda>p. fst p \<notin> set ms) (zlist z)"
  by transfer simp

lemma zscore_empty [simp]: "zscore zempty = Map.empty"
  by (simp add: zscore_def)

lemma zscore_zput: "storable x \<Longrightarrow> zscore (zput m x z) = (zscore z)(m \<mapsto> unsigned_zero x)"
proof (rule ext)
  fix k
  assume x: "storable x"
  have set: "set (zlist (zput m x z)) = insert (m, unsigned_zero x) {p \<in> set (zlist z). fst p \<noteq> m}"
    using x by transfer simp
  have "zscore (zput m x z) k = Some y \<longleftrightarrow> ((zscore z)(m \<mapsto> unsigned_zero x)) k = Some y" for y
    using set by (auto simp: zscore_def map_of_eq_Some_iff)
  then show "zscore (zput m x z) k = ((zscore z)(m \<mapsto> unsigned_zero x)) k"
    by (metis option.exhaust)
qed

lemma zscore_zdrop: "zscore (zdrop ms z) k = (if k \<in> set ms then None else zscore z k)"
proof -
  have "zscore (zdrop ms z) k = Some y \<longleftrightarrow> (if k \<in> set ms then None else zscore z k) = Some y" for y
    by (auto simp: zscore_def zlist_zdrop map_of_eq_Some_iff distinct_map_filter)
  then show ?thesis by (metis option.exhaust)
qed

text \<open>The scores determine the items.\<close>

lemma zitems_eqI:
  assumes "zscore a = zscore b"
  shows "a = b"
proof -
  have "set (zlist a) = set (zlist b)"
    using assms by (metis distinct_zlist map_of_inject_set zscore_def)
  then have "mset (zlist a) = mset (zlist b)"
    using distinct_zlist distinct_map by (metis set_eq_iff_mset_eq_distinct)
  then have "zlist a = zlist b"
    using sorted_zless_unique [of "zlist a" "zlist b"] zlist_ok [of a] zlist_ok [of b] by (simp add: zitems_ok_def)
  then show ?thesis by (simp add: zlist_inject)
qed

lemma length_zlist: "length (zlist z) = card (dom (zscore z))"
  using distinct_card [OF distinct_zlist [of z]] by (simp add: zscore_def dom_map_of_conv_image_fst)

lemma finite_dom_zscore [simp]: "finite (dom (zscore z))"
  by (simp add: zscore_def finite_dom_map_of)

lemma zput_all_simps [simp]:
  "zput_all [] z = z" "zput_all ((m, x) # ms) z = zput_all ms (zput m x z)"
  by (simp_all add: zput_all_def)

lemma zscore_zput_all:
  "\<forall>p \<in> set ms. storable (snd p) \<Longrightarrow> zscore (zput_all ms z) = zscore z ++ map_of (rev (map (apsnd unsigned_zero) ms))"
  by (induction ms arbitrary: z) (auto simp: zscore_zput)

lemma dom_zput_all: "\<forall>p \<in> set ms. storable (snd p) \<Longrightarrow> dom (zscore (zput_all ms z)) = dom (zscore z) \<union> fst ` set ms"
  by (simp add: zscore_zput_all dom_map_of_conv_image_fst image_image Un_commute)

lemma zlist_Nil_iff: "zlist z = [] \<longleftrightarrow> zscore z = Map.empty"
  by (simp add: zscore_def)


end
