(* ===== verification/Glob.thy ===== *)
theory Glob
  imports Prelude "HOL-Library.Sublist"
begin

text \<open>
  The Redis glob matcher behind SCAN's MATCH option (\<^verbatim>\<open>internal/command/glob.go\<close>). The Go code
  walks two indices; the model keeps the unread suffix of the pattern and of the string instead,
  one equation per branch of the switch. \<open>pattern_lang\<close> is the specification: the pattern is
  read once into tokens, and each token denotes a set of byte strings.
\<close>

section \<open>The matcher\<close>

abbreviation "star \<equiv> CHR ''*''"
abbreviation "quest \<equiv> CHR ''?''"
abbreviation "lbrack \<equiv> CHR ''[''"
abbreviation "rbrack \<equiv> CHR '']''"
abbreviation "caret \<equiv> CHR ''^''"
abbreviation "dash \<equiv> CHR ''-''"
abbreviation "backslash \<equiv> CHR 0x5C"

definition byte_between :: "char \<Rightarrow> char \<Rightarrow> char \<Rightarrow> bool" where
  "byte_between lo hi c \<longleftrightarrow>
     (let l = min (code lo) (code hi); h = max (code lo) (code hi) in l \<le> code c \<and> code c \<le> h)"

text \<open>
  The class loop, from just after \<open>[\<close> or \<open>[^\<close>: whether the byte \<open>c\<close> was listed, and
  the pattern after the class. An unterminated class, or one ended by a bare trailing backslash,
  consumes the whole pattern.
\<close>

fun scan_class :: "char \<Rightarrow> bytes \<Rightarrow> bool \<Rightarrow> bool \<times> bytes" where
  "scan_class c [] m = (m, [])"
| "scan_class c [p] m =
     (if p = backslash \<or> p = rbrack then (m, []) else (m \<or> p = c, []))"
| "scan_class c [p, q] m =
     (if p = backslash then (m \<or> q = c, [])
      else if p = rbrack then (m, [q])
      else scan_class c [q] (m \<or> p = c))"
| "scan_class c (p # q # r # ps) m =
     (if p = backslash then scan_class c (r # ps) (m \<or> q = c)
      else if p = rbrack then (m, q # r # ps)
      else if q = dash then scan_class c ps (m \<or> byte_between p r c)
      else scan_class c (q # r # ps) (m \<or> p = c))"

lemma scan_class_length: "length (snd (scan_class c ps m)) \<le> length ps"
  by (induction c ps m rule: scan_class.induct) auto

lemma scan_class_rest_lt [termination_simp]:
  "(b, rest) = scan_class c (if P then tl ps else ps) m \<Longrightarrow> length rest < Suc (length ps)"
  using scan_class_length [of c "if P then tl ps else ps" m]
  by (auto dest: arg_cong [where f = snd] split: if_splits)

lemma dropWhile_lt [termination_simp]: "length (dropWhile P ps) < Suc (length ps)"
  by (simp add: length_dropWhile_le le_imp_less_Suc)

fun stringMatchLen :: "bytes \<Rightarrow> bytes \<Rightarrow> bool" where
  "stringMatchLen ps [] = (dropWhile (\<lambda>c. c = star) ps = [])"
| "stringMatchLen [] (c # cs) = False"
| "stringMatchLen (p # ps) (c # cs) =
     (if p = star then
        (let ps' = dropWhile (\<lambda>c. c = star) ps in
         if ps' = [] then True
         else (\<exists>t \<in> set (suffixes (c # cs)). stringMatchLen ps' t))
      else if p = quest then stringMatchLen ps cs
      else if p = lbrack then
        (let negate = (ps \<noteq> [] \<and> hd ps = caret) in
         case scan_class c (if negate then tl ps else ps) False of
           (m, rest) \<Rightarrow> if m = negate then False else stringMatchLen rest cs)
      else if p = backslash then
        (case ps of
           [] \<Rightarrow> if p = c then stringMatchLen [] cs else False
         | x # ps' \<Rightarrow> if x = c then stringMatchLen ps' cs else False)
      else if p = c then stringMatchLen ps cs else False)"

definition globMatch :: "bytes \<Rightarrow> bytes \<Rightarrow> bool" where
  "globMatch pattern s = stringMatchLen pattern s"

section \<open>The pattern language\<close>

datatype class_item = Single char | Range char char

datatype token = AnySeq | AnyByte | Class bool "class_item list" | Lit char

fun item_mem :: "char \<Rightarrow> class_item \<Rightarrow> bool" where
  "item_mem c (Single x) = (x = c)"
| "item_mem c (Range lo hi) = byte_between lo hi c"

fun read_class :: "bytes \<Rightarrow> class_item list \<times> bytes" where
  "read_class [] = ([], [])"
| "read_class [p] = (if p = backslash \<or> p = rbrack then ([], []) else ([Single p], []))"
| "read_class [p, q] =
     (if p = backslash then ([Single q], [])
      else if p = rbrack then ([], [q])
      else apfst ((#) (Single p)) (read_class [q]))"
| "read_class (p # q # r # ps) =
     (if p = backslash then apfst ((#) (Single q)) (read_class (r # ps))
      else if p = rbrack then ([], q # r # ps)
      else if q = dash then apfst ((#) (Range p r)) (read_class ps)
      else apfst ((#) (Single p)) (read_class (q # r # ps)))"

lemma read_class_length: "length (snd (read_class ps)) \<le> length ps"
  by (induction ps rule: read_class.induct) auto

lemma read_class_rest_lt [termination_simp]:
  "(items, rest) = read_class (if P then tl ps else ps) \<Longrightarrow> length rest < Suc (length ps)"
  using read_class_length [of "if P then tl ps else ps"]
  by (auto dest: arg_cong [where f = snd] split: if_splits)

fun read_tokens :: "bytes \<Rightarrow> token list" where
  "read_tokens [] = []"
| "read_tokens (p # ps) =
     (if p = star then AnySeq # read_tokens ps
      else if p = quest then AnyByte # read_tokens ps
      else if p = lbrack then
        (let negate = (ps \<noteq> [] \<and> hd ps = caret);
             (items, rest) = read_class (if negate then tl ps else ps)
         in Class negate items # read_tokens rest)
      else if p = backslash then
        (case ps of [] \<Rightarrow> [Lit p] | x # ps' \<Rightarrow> Lit x # read_tokens ps')
      else Lit p # read_tokens ps)"

fun token_lang :: "token \<Rightarrow> bytes set" where
  "token_lang AnySeq = UNIV"
| "token_lang AnyByte = {[c] | c. True}"
| "token_lang (Class negate items) = {[c] | c. (\<exists>i \<in> set items. item_mem c i) \<noteq> negate}"
| "token_lang (Lit c) = {[c]}"

primrec tokens_lang :: "token list \<Rightarrow> bytes set" where
  "tokens_lang [] = {[]}"
| "tokens_lang (t # ts) = {xs @ ys | xs ys. xs \<in> token_lang t \<and> ys \<in> tokens_lang ts}"

definition pattern_lang :: "bytes \<Rightarrow> bytes set" where
  "pattern_lang pattern = tokens_lang (read_tokens pattern)"

section \<open>The matcher decides the pattern language\<close>

lemma scan_class_read_class:
  "scan_class c ps m =
     (m \<or> (\<exists>i \<in> set (fst (read_class ps)). item_mem c i), snd (read_class ps))"
  by (induction c ps m rule: scan_class.induct) auto

lemma tokens_lang_single:
  assumes "token_lang t = {[c] | c. P c}"
  shows "c # cs \<in> tokens_lang (t # ts) \<longleftrightarrow> P c \<and> cs \<in> tokens_lang ts"
  by (simp add: assms) (metis append_Cons append_Nil list.inject)

lemma tokens_lang_byte_cons:
  "c # cs \<in> tokens_lang (AnyByte # ts) \<longleftrightarrow> cs \<in> tokens_lang ts"
  "c # cs \<in> tokens_lang (Lit x # ts) \<longleftrightarrow> x = c \<and> cs \<in> tokens_lang ts"
  "c # cs \<in> tokens_lang (Class negate items # ts) \<longleftrightarrow>
     (\<exists>i \<in> set items. item_mem c i) \<noteq> negate \<and> cs \<in> tokens_lang ts"
  using tokens_lang_single [of AnyByte "\<lambda>_. True" c cs ts]
    tokens_lang_single [of "Lit x" "\<lambda>c. c = x" c cs ts]
    tokens_lang_single [of "Class negate items" "\<lambda>c. (\<exists>i \<in> set items. item_mem c i) \<noteq> negate" c cs ts]
  by (simp_all del: tokens_lang.simps) (auto simp del: tokens_lang.simps)

lemma Nil_in_tokens_lang:
  "[] \<in> tokens_lang (t # ts) \<longleftrightarrow> t = AnySeq \<and> [] \<in> tokens_lang ts"
  by (cases t) auto

lemma tokens_lang_AnySeq:
  "s \<in> tokens_lang (AnySeq # ts) \<longleftrightarrow> (\<exists>t \<in> set (suffixes s). t \<in> tokens_lang ts)"
  by (auto simp: suffix_def) blast

lemma AnySeq_idem: "tokens_lang (AnySeq # AnySeq # ts) = tokens_lang (AnySeq # ts)"
proof -
  have "\<And>s. s \<in> tokens_lang (AnySeq # AnySeq # ts) \<longleftrightarrow> s \<in> tokens_lang (AnySeq # ts)"
    unfolding tokens_lang_AnySeq by (meson in_set_suffixes suffix_order.dual_order.refl suffix_order.trans)
  then show ?thesis by blast
qed

lemma AnySeq_drop_stars:
  "tokens_lang (AnySeq # read_tokens (dropWhile (\<lambda>c. c = star) ps)) = tokens_lang (AnySeq # read_tokens ps)"
proof (induction ps)
  case (Cons p ps)
  show ?case
  proof (cases "p = star")
    case True
    then have "tokens_lang (AnySeq # read_tokens (p # ps)) = tokens_lang (AnySeq # read_tokens ps)"
      using AnySeq_idem by simp
    with Cons True show ?thesis by simp
  qed simp
qed simp

lemma read_tokens_eq_Nil [simp]: "read_tokens ps = [] \<longleftrightarrow> ps = []"
  by (cases ps) (auto simp: Let_def split: list.splits prod.splits)

lemma hd_read_tokens_AnySeq: "p \<noteq> star \<Longrightarrow> \<exists>t ts. read_tokens (p # ps) = t # ts \<and> t \<noteq> AnySeq"
  by (auto simp: Let_def split: list.splits prod.splits)

lemma Nil_in_pattern:
  "[] \<in> tokens_lang (read_tokens ps) \<longleftrightarrow> dropWhile (\<lambda>c. c = star) ps = []"
proof (induction ps)
  case (Cons p ps)
  show ?case
  proof (cases "p = star")
    case True
    with Cons show ?thesis by (simp add: Nil_in_tokens_lang del: tokens_lang.simps)
  next
    case False
    then obtain t ts where "read_tokens (p # ps) = t # ts" and "t \<noteq> AnySeq"
      using hd_read_tokens_AnySeq by blast
    with False show ?thesis by (simp add: Nil_in_tokens_lang del: tokens_lang.simps read_tokens.simps)
  qed
qed simp

lemma stringMatchLen_lang: "stringMatchLen ps s \<longleftrightarrow> s \<in> tokens_lang (read_tokens ps)"
proof (induction ps s rule: stringMatchLen.induct)
  case (1 ps)
  show ?case by (simp add: Nil_in_pattern)
next
  case (2 c cs)
  show ?case by simp
next
  case (3 p ps c cs)
  note [simp del] = tokens_lang.simps(2)
  consider "p = star" | "p = quest" | "p = lbrack" | "p = backslash"
    | "p \<notin> {star, quest, lbrack, backslash}" by blast
  then show ?case
  proof cases
    case 1
    let ?ps = "dropWhile (\<lambda>c. c = star) ps"
    have "c # cs \<in> tokens_lang (read_tokens (p # ps)) \<longleftrightarrow>
        (\<exists>t \<in> set (suffixes (c # cs)). t \<in> tokens_lang (read_tokens ?ps))"
      unfolding tokens_lang_AnySeq [symmetric] AnySeq_drop_stars using 1 by simp
    moreover have "stringMatchLen (p # ps) (c # cs) \<longleftrightarrow>
        (\<exists>t \<in> set (suffixes (c # cs)). t \<in> tokens_lang (read_tokens ?ps))"
    proof (cases "?ps = []")
      case True
      then have "[] \<in> set (suffixes (c # cs)) \<and> [] \<in> tokens_lang (read_tokens ?ps)"
        by (simp only: True read_tokens.simps tokens_lang.simps in_set_suffixes) simp
      moreover have "stringMatchLen (p # ps) (c # cs)" using 1 True by simp
      ultimately show ?thesis by blast
    next
      case False
      have "\<And>t. t \<in> set (suffixes (c # cs)) \<Longrightarrow> stringMatchLen ?ps t \<longleftrightarrow> t \<in> tokens_lang (read_tokens ?ps)"
        using "3.IH"(1) [OF 1 refl False] by blast
      moreover have "stringMatchLen (p # ps) (c # cs) \<longleftrightarrow> (\<exists>t \<in> set (suffixes (c # cs)). stringMatchLen ?ps t)"
        using 1 False by (simp only: stringMatchLen.simps Let_def if_True if_False refl)
      ultimately show ?thesis by blast
    qed
    ultimately show ?thesis by blast
  next
    case 2
    with "3.IH"(2) show ?thesis by (simp add: tokens_lang_byte_cons)
  next
    case 3
    let ?neg = "ps \<noteq> [] \<and> hd ps = caret"
    let ?cls = "if ?neg then tl ps else ps"
    obtain items rest where rc: "read_class ?cls = (items, rest)" by force
    let ?m = "\<exists>i \<in> set items. item_mem c i"
    have sc: "scan_class c ?cls False = (?m, rest)"
      by (simp add: scan_class_read_class rc)
    have L: "read_tokens (p # ps) = Class ?neg items # read_tokens rest"
      using 3 rc by (simp add: Let_def)
    have R: "stringMatchLen (p # ps) (c # cs) = (if ?m = ?neg then False else stringMatchLen rest cs)"
      using 3 sc by (simp add: Let_def)
    show ?thesis
    proof (cases "?m = ?neg")
      case True
      then show ?thesis using L R by (simp add: tokens_lang_byte_cons)
    next
      case False
      have "stringMatchLen rest cs \<longleftrightarrow> cs \<in> tokens_lang (read_tokens rest)"
        using 3 sc False by (intro "3.IH"(3)) (auto simp: Let_def)
      with False show ?thesis unfolding L R tokens_lang_byte_cons
        by (simp only: if_False not_False_eq_True simp_thms)
    qed
  next
    case 4
    with "3.IH"(4,5) show ?thesis
      by (cases ps) (auto simp: tokens_lang_byte_cons)
  next
    case 5
    with "3.IH"(6) show ?thesis by (auto simp: tokens_lang_byte_cons)
  qed
qed

text \<open>
  C3: the MATCH filter accepts a key name exactly when it belongs to the language the pattern
  denotes, for every pattern (unterminated classes, trailing backslashes and runs of stars
  included).
\<close>

theorem globMatch_lang: "globMatch pattern s \<longleftrightarrow> s \<in> pattern_lang pattern"
  by (simp add: globMatch_def pattern_lang_def stringMatchLen_lang)

text \<open>a pattern with no metacharacter matches exactly itself.\<close>

lemma globMatch_literal:
  assumes "set pattern \<inter> {star, quest, lbrack, backslash} = {}"
  shows "globMatch pattern s \<longleftrightarrow> s = pattern"
proof -
  have "tokens_lang (read_tokens pattern) = {pattern}" using assms
    by (induction pattern) auto
  then show ?thesis by (simp add: globMatch_def stringMatchLen_lang)
qed

lemma globMatch_literal_witness: "\<forall>s. globMatch ''user:1'' s \<longleftrightarrow> s = ''user:1''"
  by (intro allI globMatch_literal) simp

end
