(* ===== verification/Bits.thy ===== *)
theory Bits
  imports Ranges
begin

unbundle bit_operations_syntax

text \<open>
  The byte-level helpers of the bit commands (\<^verbatim>\<open>internal/command/bit.go\<close>): reading and setting one
  bit, the first-bit search of BITPOS, the population count of BITCOUNT and the bytewise BITOP.
  Bits are numbered as Redis does, most significant bit of byte 0 first. \<open>bit_at\<close> is the
  specification view: a value is an infinite bit string, zero past its end.
\<close>

section \<open>Definitions\<close>

definition maxBitOffset :: int where
  "maxBitOffset = 4 * 1024 * 1024 * 1024"

abbreviation errBitOffset :: bytes where
  "errBitOffset \<equiv> ''ERR bit offset is not an integer or out of range''"
abbreviation errBitValue :: bytes where
  "errBitValue \<equiv> ''ERR bit is not an integer or out of range''"
abbreviation errBitPosBit :: bytes where
  "errBitPosBit \<equiv> ''ERR The bit argument must be 1 or 0.''"
abbreviation errBitOpNotOne :: bytes where
  "errBitOpNotOne \<equiv> ''ERR BITOP NOT must be called with a single source key.''"

definition parseBitOffset :: "bytes \<Rightarrow> int option" where
  "parseBitOffset b =
     (case ParseInt b of
        Inl _ \<Rightarrow> None
      | Inr n \<Rightarrow> if n < 0 \<or> n \<ge> maxBitOffset then None else Some n)"

definition parseBitValue :: "bytes \<Rightarrow> int option" where
  "parseBitValue b = (if b = ''0'' then Some 0 else if b = ''1'' then Some 1 else None)"

definition parseIntArg :: "bytes \<Rightarrow> int option" where
  "parseIntArg b = (case ParseInt b of Inl _ \<Rightarrow> None | Inr n \<Rightarrow> Some n)"

text \<open>\<open>(b >> k) & 1\<close> on a byte.\<close>

definition byte_bit :: "char \<Rightarrow> nat \<Rightarrow> int" where
  "byte_bit b k = uint (drop_bit k (byte_of_char b) AND 1)"

definition getBit :: "bytes \<Rightarrow> nat \<Rightarrow> int" where
  "getBit val offset =
     (let byteIdx = offset div 8 in
      if byteIdx \<ge> length val then 0
      else byte_bit (val ! byteIdx) (7 - offset mod 8))"

text \<open>The zero-padding loop \<^verbatim>\<open>for len(next) < n { append 0 }\<close>.\<close>

definition grow :: "nat \<Rightarrow> bytes \<Rightarrow> bytes" where
  "grow n xs = xs @ replicate (n - length xs) (CHR 0x00)"

text \<open>\<open>next[i] |= mask\<close> or \<open>next[i] &^= mask\<close>.\<close>

definition writeBit :: "bytes \<Rightarrow> nat \<Rightarrow> bool \<Rightarrow> bytes" where
  "writeBit xs offset b =
     (let byteIdx = offset div 8;
          mask = push_bit (7 - offset mod 8) (1 :: 8 word);
          old = byte_of_char (xs ! byteIdx)
      in xs[byteIdx := char_of_byte (if b then old OR mask else old AND NOT mask)])"

text \<open>The value SETBIT computes, and the previous bit it replies.\<close>

definition setBitBytes :: "bytes \<Rightarrow> nat \<Rightarrow> int \<Rightarrow> bytes \<times> int" where
  "setBitBytes base offset bitVal =
     (let nxt = grow (offset div 8 + 1) base
      in (writeBit nxt offset (bitVal = 1), getBit nxt offset))"

definition onesCount8 :: "char \<Rightarrow> nat" where
  "onesCount8 b = length (filter (bit (byte_of_char b)) [0..<8])"

text \<open>The BITCOUNT loop over \<open>cur[lo : hi+1]\<close>.\<close>

definition countBits :: "bytes \<Rightarrow> nat" where
  "countBits bs = foldl (\<lambda>n b. n + onesCount8 b) 0 bs"

fun first_bit_in_byte :: "char \<Rightarrow> int \<Rightarrow> nat \<Rightarrow> nat \<Rightarrow> nat option" where
  "first_bit_in_byte b bt j 0 = None"
| "first_bit_in_byte b bt j (Suc n) =
     (if byte_bit b (7 - j) = bt then Some j else first_bit_in_byte b bt (j + 1) n)"

text \<open>The scan over bytes \<open>i..hi\<close>; \<open>n\<close> is the number of bytes left.\<close>

fun bitPos_loop :: "bytes \<Rightarrow> int \<Rightarrow> nat \<Rightarrow> nat \<Rightarrow> int" where
  "bitPos_loop val bt i 0 = -1"
| "bitPos_loop val bt i (Suc n) =
     (if val ! i = (if bt = 0 then CHR 0xFF else CHR 0x00) then bitPos_loop val bt (i + 1) n
      else (case first_bit_in_byte (val ! i) bt 0 8 of
              Some j \<Rightarrow> int (i * 8 + j)
            | None \<Rightarrow> bitPos_loop val bt (i + 1) n))"

definition bitPos :: "bytes \<Rightarrow> int \<Rightarrow> nat \<Rightarrow> nat \<Rightarrow> int" where
  "bitPos val bt lo hi = bitPos_loop val bt lo (Suc hi - lo)"

datatype bitop = OpAnd | OpOr | OpXor | OpNot

fun bitop_byte :: "bitop \<Rightarrow> 8 word \<Rightarrow> 8 word \<Rightarrow> 8 word" where
  "bitop_byte OpAnd a b = a AND b"
| "bitop_byte OpOr a b = a OR b"
| "bitop_byte OpXor a b = a XOR b"
| "bitop_byte OpNot a b = a"

definition byte_or_zero :: "bytes \<Rightarrow> nat \<Rightarrow> 8 word" where
  "byte_or_zero s i = (if i < length s then byte_of_char (s ! i) else 0)"

text \<open>\<^verbatim>\<open>srcs[0]\<close> of an empty source list panics in Go; BITOP NOT always has exactly one source.\<close>

definition bitopCompute :: "bitop \<Rightarrow> bytes list \<Rightarrow> nat \<Rightarrow> bytes" where
  "bitopCompute op srcs maxLen =
     (if op = OpNot then map (\<lambda>b. char_of_byte (NOT (byte_of_char b))) (srcs ! 0)
      else map (\<lambda>i. case srcs of
                      [] \<Rightarrow> CHR 0x00
                    | s # ss \<Rightarrow> char_of_byte
                        (foldl (\<lambda>acc t. bitop_byte op acc (byte_or_zero t i)) (byte_or_zero s i) ss))
             [0..<maxLen])"

section \<open>Bytes as bits\<close>

definition bit_at :: "bytes \<Rightarrow> nat \<Rightarrow> bool" where
  "bit_at val o' \<longleftrightarrow> o' div 8 < length val \<and> bit (byte_of_char (val ! (o' div 8))) (7 - o' mod 8)"

lemma byte_of_char_of_byte [simp]: "byte_of_char (char_of_byte w) = w"
proof -
  have lt: "unat w < 256" using unsigned_less [of w] by simp
  have "byte_of_char (char_of_byte w) = of_nat (code (char_of_byte w))"
    by (rule of_nat_of_char [symmetric])
  also have "code (char_of_byte w) = unat w"
    using lt by (rule code_char_of)
  finally show ?thesis by simp
qed

lemma byte_of_zero [simp]: "byte_of_char (CHR 0x00) = 0"
  by simp

lemma byte_bit_eq: "byte_bit b k = of_bool (bit (byte_of_char b) k)"
proof -
  have "drop_bit k (byte_of_char b) AND 1 = of_bool (bit (byte_of_char b) k)"
    by (simp add: and_one_eq mod_2_eq_odd bit_iff_odd_drop_bit)
  then show ?thesis by (simp add: byte_bit_def)
qed

lemma getBit_bit_at: "getBit val off = of_bool (bit_at val off)"
  by (simp add: getBit_def bit_at_def byte_bit_eq Let_def)

lemma length_grow [simp]: "length (grow n xs) = max n (length xs)"
  by (simp add: grow_def)

lemma bit_at_grow [simp]: "bit_at (grow n xs) k = bit_at xs k"
  by (auto simp: bit_at_def grow_def nth_append)

lemma length_writeBit [simp]: "length (writeBit xs off b) = length xs"
  by (simp add: writeBit_def Let_def)

lemma offset_eq_iff:
  assumes "k div 8 = off div (8::nat)"
  shows "7 - k mod 8 = 7 - off mod 8 \<longleftrightarrow> k = off"
proof
  assume eq: "7 - k mod 8 = 7 - off mod 8"
  have "k mod 8 < 8" and "off mod 8 < 8" by simp_all
  with eq have "k mod 8 = off mod 8" by linarith
  with assms show "k = off" by (metis div_mult_mod_eq)
qed simp

lemma bit_at_writeBit:
  assumes "off div 8 < length xs"
  shows "bit_at (writeBit xs off b) k = (if k = off then b else bit_at xs k)"
proof (cases "k div 8 = off div 8")
  case False
  then show ?thesis by (auto simp: bit_at_def writeBit_def Let_def)
next
  case True
  have lt: "7 - k mod 8 < 8" by simp
  show ?thesis
    using assms True offset_eq_iff [OF True] lt
    by (auto simp: bit_at_def writeBit_def Let_def bit_simps)
qed

lemma unat_byte_of_char: "unat (byte_of_char c) = code c"
  by (simp add: unsigned_of_nat take_bit_nat_eq_self flip: of_nat_of_char [where ?'a = "8 word"])

lemma bytes_eqI:
  assumes "length xs = length ys" and "\<And>k. bit_at xs k = bit_at ys k"
  shows "xs = ys"
proof (rule nth_equalityI [OF assms(1)])
  fix i assume i: "i < length xs"
  have "bit (byte_of_char (xs ! i)) j = bit (byte_of_char (ys ! i)) j" if "j < 8" for j
  proof -
    have "(i * 8 + (7 - j)) div 8 = i" and m: "(i * 8 + (7 - j)) mod 8 = 7 - j"
      by simp_all
    moreover have "7 - (7 - j) = j" using that by simp
    ultimately show ?thesis using assms(2) [of "i * 8 + (7 - j)"] i assms(1) by (simp add: bit_at_def)
  qed
  then have "byte_of_char (xs ! i) = byte_of_char (ys ! i)"
    by (intro bit_word_eqI) simp
  then have "unat (byte_of_char (xs ! i)) = unat (byte_of_char (ys ! i))" by simp
  then show "xs ! i = ys ! i" by (simp add: unat_byte_of_char)
qed

section \<open>SETBIT and GETBIT\<close>

text \<open>
  SETBIT changes exactly the addressed bit: after it that bit has the given value, every other
  bit (those past the old end, which read 0, included) is what it was; the value is padded with
  zero bytes just far enough, never shortened; and the reply is the previous bit.
\<close>

lemma setBitBytes_spec:
  "bit_at (fst (setBitBytes base off v)) k = (if k = off then v = 1 else bit_at base k) \<and>
   length (fst (setBitBytes base off v)) = max (length base) (off div 8 + 1) \<and>
   snd (setBitBytes base off v) = of_bool (bit_at base off)"
  by (simp add: setBitBytes_def Let_def bit_at_writeBit getBit_bit_at max.commute)

section \<open>BITCOUNT\<close>

lemma countBits_Nil [simp]: "countBits [] = 0"
  by (simp add: countBits_def)

lemma countBits_foldl: "foldl (\<lambda>n b. n + onesCount8 b) a bs = a + countBits bs"
proof (induction bs arbitrary: a)
  case Nil
  then show ?case by simp
next
  case (Cons b bs)
  from Cons [of "a + onesCount8 b"] Cons [of "onesCount8 b"] show ?case
    by (simp add: countBits_def)
qed

lemma countBits_Cons [simp]: "countBits (b # bs) = onesCount8 b + countBits bs"
proof -
  have "countBits (b # bs) = foldl (\<lambda>n b. n + onesCount8 b) (onesCount8 b) bs"
    by (simp add: countBits_def)
  then show ?thesis by (simp only: countBits_foldl)
qed

lemma bit_at_Cons: "bit_at (b # bs) k = (if k < 8 then bit (byte_of_char b) (7 - k) else bit_at bs (k - 8))"
proof (cases "k < 8")
  case False
  then obtain m where "k = m + 8" by (metis add.commute le_add_diff_inverse not_less)
  moreover have "(m + 8) div 8 = Suc (m div 8)" by simp
  ultimately show ?thesis by (simp add: bit_at_def)
qed (simp add: bit_at_def)

lemma bit_at_bound: "bit_at bs k \<Longrightarrow> k < 8 * length bs"
  by (auto simp: bit_at_def)

lemma finite_bits [simp]: "finite {k. bit_at bs k}"
  by (rule finite_subset [of _ "{..<8 * length bs}"]) (auto dest: bit_at_bound)

lemma onesCount8_card: "onesCount8 b = card {k. k < 8 \<and> bit (byte_of_char b) (7 - k)}"
proof -
  have "onesCount8 b = card {j. j < 8 \<and> bit (byte_of_char b) j}"
    unfolding onesCount8_def by (subst distinct_card [symmetric]) (auto intro: arg_cong [where f = card])
  also have "{j. j < 8 \<and> bit (byte_of_char b) j} = (\<lambda>k. 7 - k) ` {k. k < 8 \<and> bit (byte_of_char b) (7 - k)}"
  proof (intro equalityI subsetI)
    fix j assume "j \<in> {j. j < 8 \<and> bit (byte_of_char b) j}"
    then have "j = 7 - (7 - j)" and "7 - j \<in> {k. k < 8 \<and> bit (byte_of_char b) (7 - k)}" by auto
    then show "j \<in> (\<lambda>k. 7 - k) ` {k. k < 8 \<and> bit (byte_of_char b) (7 - k)}" by blast
  qed auto
  also have "card \<dots> = card {k. k < 8 \<and> bit (byte_of_char b) (7 - k)}"
    by (rule card_image) (auto simp: inj_on_def)
  finally show ?thesis .
qed

text \<open>BITCOUNT over a byte slice counts exactly the set bits of that slice.\<close>

lemma countBits_card: "countBits bs = card {k. bit_at bs k}"
proof (induction bs)
  case Nil
  then show ?case by (simp add: bit_at_def)
next
  case (Cons b bs)
  have "{k. bit_at (b # bs) k} =
      {k. k < 8 \<and> bit (byte_of_char b) (7 - k)} \<union> (\<lambda>k. k + 8) ` {k. bit_at bs k}"
  proof (intro equalityI subsetI)
    fix k assume k: "k \<in> {k. bit_at (b # bs) k}"
    show "k \<in> {k. k < 8 \<and> bit (byte_of_char b) (7 - k)} \<union> (\<lambda>k. k + 8) ` {k. bit_at bs k}"
    proof (cases "k < 8")
      case False
      then have "k = (k - 8) + 8" by simp
      with k False show ?thesis by (auto simp: bit_at_Cons)
    qed (use k in \<open>simp add: bit_at_Cons\<close>)
  qed (auto simp: bit_at_Cons)
  moreover have "card ((\<lambda>k. k + 8) ` {k. bit_at bs k}) = card {k. bit_at bs k}"
    by (rule card_image) simp
  moreover have "card ({k. k < 8 \<and> bit (byte_of_char b) (7 - k)} \<union> (\<lambda>k. k + 8) ` {k. bit_at bs k}) =
      card {k. k < 8 \<and> bit (byte_of_char b) (7 - k)} + card ((\<lambda>k. k + 8) ` {k. bit_at bs k})"
    by (rule card_Un_disjoint) auto
  ultimately show ?case
    using Cons by (simp only: countBits_Cons onesCount8_card)
qed

section \<open>BITPOS\<close>

lemma byte_skip:
  assumes "b = (if bt = 0 then CHR 0xFF else CHR 0x00)" and "bt = 0 \<or> bt = 1" and "j < 8"
  shows "byte_bit b j \<noteq> bt"
proof -
  have "j \<in> {0, 1, 2, 3, 4, 5, 6, 7}" using assms(3) by auto
  with assms show ?thesis by (auto simp: byte_bit_def)
qed

lemma first_bit_in_byte_find:
  "first_bit_in_byte b bt j n = find (\<lambda>j. byte_bit b (7 - j) = bt) [j..<j + n]"
proof (induction b bt j n rule: first_bit_in_byte.induct)
  case (2 b bt j n)
  have "[j..<j + Suc n] = j # [j + 1..<j + 1 + n]" by (subst upt_rec) simp
  with 2 show ?case by (simp del: upt_Suc)
qed simp

lemma find_map: "find P (map f xs) = map_option f (find (P \<circ> f) xs)"
  by (induction xs) auto

lemma upt_bytes: "[8 * i..<8 * (i + Suc n)] = map (\<lambda>j. i * 8 + j) [0..<8] @ [8 * Suc i..<8 * (Suc i + n)]"
proof -
  have "[8 * i..<8 * (i + Suc n)] = [8 * i..<8 * i + 8] @ [8 * i + 8..<8 * i + 8 + 8 * n]"
    by (subst upt_add_eq_append [symmetric]) (simp_all add: algebra_simps)
  moreover have "[8 * i..<8 * i + 8] = map (\<lambda>j. i * 8 + j) [0..<8]"
    by (rule nth_equalityI) auto
  ultimately show ?thesis by (simp add: algebra_simps)
qed

lemma find_cong_set: "(\<And>x. x \<in> set xs \<Longrightarrow> P x = Q x) \<Longrightarrow> find P xs = find Q xs"
  by (induction xs) auto

lemma bitPos_loop_find:
  assumes "i + n \<le> length val" and "bt = 0 \<or> bt = 1"
  shows "bitPos_loop val bt i n =
    (case find (\<lambda>k. getBit val k = bt) [8 * i..<8 * (i + n)] of None \<Rightarrow> -1 | Some k \<Rightarrow> int k)"
  using assms(1)
proof (induction n arbitrary: i)
  case 0
  then show ?case by simp
next
  case (Suc n)
  have byte: "find ((\<lambda>k. getBit val k = bt) \<circ> (\<lambda>j. i * 8 + j)) [0..<8] =
      find (\<lambda>j. byte_bit (val ! i) (7 - j) = bt) [0..<8]"
    using Suc.prems by (intro find_cong_set) (auto simp: getBit_def Let_def)
  have ih: "bitPos_loop val bt (Suc i) n =
      (case find (\<lambda>k. getBit val k = bt) [8 * Suc i..<8 * (Suc i + n)] of None \<Rightarrow> -1 | Some k \<Rightarrow> int k)"
    using Suc.prems by (intro Suc.IH) simp
  show ?case
  proof (cases "val ! i = (if bt = 0 then CHR 0xFF else CHR 0x00)")
    case True
    then have none: "find (\<lambda>j. byte_bit (val ! i) (7 - j) = bt) [0..<8] = None"
      unfolding find_None_iff using byte_skip [OF True assms(2)] by auto
    from True have "bitPos_loop val bt i (Suc n) = bitPos_loop val bt (Suc i) n"
      by simp
    with ih show ?thesis
      unfolding upt_bytes find_append find_map byte none by simp
  next
    case False
    then have "bitPos_loop val bt i (Suc n) =
        (case find (\<lambda>j. byte_bit (val ! i) (7 - j) = bt) [0..<8] of
           Some j \<Rightarrow> int (i * 8 + j) | None \<Rightarrow> bitPos_loop val bt (Suc i) n)"
      by (simp add: first_bit_in_byte_find upt_rec [of 0 8] split: option.splits)
    with ih show ?thesis
      unfolding upt_bytes find_append find_map byte by (simp split: option.splits)
  qed
qed

text \<open>
  BITPOS returns the position of the first bit with the wanted value among the bits of the
  bytes \<open>lo..hi\<close>, counted from the start of the whole value, and -1 when there is none; the
  skipping of whole \<open>0x00\<close> and \<open>0xff\<close> bytes loses no answer.
\<close>

lemma bitPos_first:
  assumes "hi < length val" and "bt = 0 \<or> bt = 1" and "lo \<le> hi"
  shows "bitPos val bt lo hi =
    (case find (\<lambda>k. getBit val k = bt) [8 * lo..<8 * Suc hi] of None \<Rightarrow> -1 | Some k \<Rightarrow> int k)"
  using bitPos_loop_find [of lo "Suc hi - lo" val bt] assms by (simp add: bitPos_def del: mult_Suc_right)

lemma bitPos_first_instance:
  "bitPos [CHR 0xFF, CHR 0xF0] 0 0 1 = 12"
  by (subst bitPos_first) (simp_all add: getBit_def byte_bit_def upt_rec)

section \<open>BITOP\<close>

fun bitop_bool :: "bitop \<Rightarrow> bool \<Rightarrow> bool \<Rightarrow> bool" where
  "bitop_bool OpAnd a b = (a \<and> b)"
| "bitop_bool OpOr a b = (a \<or> b)"
| "bitop_bool OpXor a b = (a \<noteq> b)"
| "bitop_bool OpNot a b = a"

lemma bit_bitop_byte: "j < 8 \<Longrightarrow> bit (bitop_byte op a b) j = bitop_bool op (bit a j) (bit b j)"
  by (cases op) (simp_all add: bit_simps)

lemma bit_foldl_bitop:
  "j < 8 \<Longrightarrow> bit (foldl (\<lambda>acc t. bitop_byte op acc (f t)) a ts) j =
     foldl (\<lambda>acc t. bitop_bool op acc (bit (f t) j)) (bit a j) ts"
  by (induction ts arbitrary: a) (simp_all add: bit_bitop_byte)

lemma bit_byte_or_zero: "bit (byte_or_zero s (k div 8)) (7 - k mod 8) = bit_at s k"
  by (simp add: byte_or_zero_def bit_at_def)

text \<open>
  BITOP AND, OR and XOR combine the sources bit by bit, a source shorter than the longest
  one read as if padded with zero bits; BITOP NOT inverts every bit of its single source. The
  result is as long as the longest source.
\<close>

lemma bitopCompute_bitwise:
  assumes "maxLen = Max (length ` set (s # ss))" and "op = OpNot \<longrightarrow> ss = []"
  shows "length (bitopCompute op (s # ss) maxLen) = maxLen \<and>
    (\<forall>k < 8 * maxLen. bit_at (bitopCompute op (s # ss) maxLen) k =
       (if op = OpNot then \<not> bit_at s k
        else foldl (\<lambda>acc t. bitop_bool op acc (bit_at t k)) (bit_at s k) ss))"
proof (cases "op = OpNot")
  case True
  with assms have "maxLen = length s" by simp
  with True show ?thesis
    by (auto simp: bitopCompute_def bit_at_def bit_simps)
next
  case False
  have "7 - k mod 8 < (8 :: nat)" for k by simp
  with False show ?thesis
    by (auto simp: bitopCompute_def bit_at_def [of "map _ _"] bit_foldl_bitop bit_byte_or_zero)
qed

lemma bitopCompute_bitwise_instance:
  "length (bitopCompute OpXor [''ab'', ''z''] 2) = 2"
  using bitopCompute_bitwise [of 2 "''ab''" "[''z'']" OpXor] by simp

end
