(* ===== verification/Bitfield.thy ===== *)
theory Bitfield
  imports Bits Resp
begin

unbundle bit_operations_syntax

text \<open>
  BITFIELD (\<^verbatim>\<open>internal/command/bitfield.go\<close>): the parser of the operation list, and the
  engine that reads, writes and increments signed and unsigned fields of 1 to 64 bits at any bit
  offset with the overflow modes WRAP, SAT and FAIL. The \<^verbatim>\<open>uint64\<close> accumulators are 64-bit
  words; \<^verbatim>\<open>math/big\<close> values are \<open>int\<close>. \<open>field_wrap\<close> is the specification: the integer a field of a
  given type holds after an unbounded integer was stored in it.
\<close>

section \<open>Definitions\<close>

abbreviation errBitfieldType :: bytes where
  "errBitfieldType \<equiv> ''ERR Invalid bitfield type. Use something like i16 u8. Note that u64 is not supported but i64 is.''"
abbreviation errOverflowType :: bytes where
  "errOverflowType \<equiv> ''ERR Invalid OVERFLOW type specified''"

datatype overflow = WRAP | SAT | FAIL
datatype bfkind = BfGet | BfSet | BfIncrBy

record bitfieldOp =
  op_kind :: bfkind
  op_signed :: bool
  op_nbits :: nat
  op_offset :: nat
  op_arg :: int
  op_ovf :: overflow

record bfResult =
  nilResult :: bool
  bfvalue :: int

definition bfMask :: "nat \<Rightarrow> 64 word" where
  "bfMask n = (if n \<ge> 64 then NOT 0 else push_bit n 1 - 1)"

text \<open>\<open>big.Int.Uint64\<close> keeps the low 64 bits.\<close>

definition bfEncode :: "int \<Rightarrow> nat \<Rightarrow> 64 word" where
  "bfEncode v n = word_of_int (v mod 2 ^ n) AND bfMask n"

definition bfBounds :: "bool \<Rightarrow> nat \<Rightarrow> int \<times> int" where
  "bfBounds sg n = (if sg then (- (2 ^ (n - 1)), 2 ^ (n - 1) - 1) else (0, 2 ^ n - 1))"

definition bfClampToWidth :: "overflow \<Rightarrow> bool \<Rightarrow> nat \<Rightarrow> int \<Rightarrow> 64 word option" where
  "bfClampToWidth mode sg n want =
     (let (mn, mx) = bfBounds sg n;
          inRange = want \<ge> mn \<and> want \<le> mx
      in case mode of
           FAIL \<Rightarrow> if \<not> inRange then None else Some (bfEncode want n)
         | SAT \<Rightarrow> if want < mn then Some (bfEncode mn n)
                  else if want > mx then Some (bfEncode mx n)
                  else Some (bfEncode want n)
         | WRAP \<Rightarrow> Some (word_of_int (want mod 2 ^ n) AND bfMask n))"

definition bfDecode :: "64 word \<Rightarrow> nat \<Rightarrow> bool \<Rightarrow> int" where
  "bfDecode v n sg =
     sint (if sg \<and> n < 64 \<and> v AND push_bit (n - 1) 1 \<noteq> 0 then v OR push_bit n (NOT 0) else v)"

definition bfRead :: "bytes \<Rightarrow> nat \<Rightarrow> nat \<Rightarrow> 64 word" where
  "bfRead val off n = foldl (\<lambda>v i. push_bit 1 v OR word_of_int (getBit val (off + i))) 0 [0..<n]"

definition bfGet :: "bytes \<Rightarrow> nat \<Rightarrow> nat \<Rightarrow> bool \<Rightarrow> int" where
  "bfGet val off n sg = bfDecode (bfRead val off n) n sg"

definition bfSet :: "bytes \<Rightarrow> nat \<Rightarrow> nat \<Rightarrow> 64 word \<Rightarrow> bytes" where
  "bfSet val off n v =
     foldl (\<lambda>s i. writeBit s (off + i) (drop_bit (n - 1 - i) v AND 1 = 1))
       (grow ((off + n + 7) div 8) val) [0..<n]"

text \<open>One operation on the current value: the new value and the reply element.\<close>

definition applyBitfieldOp :: "bytes \<Rightarrow> bitfieldOp \<Rightarrow> bytes \<times> bfResult" where
  "applyBitfieldOp cur op =
     (let old = bfGet cur (op_offset op) (op_nbits op) (op_signed op) in
      case op_kind op of
        BfGet \<Rightarrow> (cur, \<lparr>nilResult = False, bfvalue = old\<rparr>)
      | BfSet \<Rightarrow>
          (case bfClampToWidth (op_ovf op) (op_signed op) (op_nbits op) (op_arg op) of
             None \<Rightarrow> (cur, \<lparr>nilResult = True, bfvalue = 0\<rparr>)
           | Some stored \<Rightarrow>
               (bfSet cur (op_offset op) (op_nbits op) stored, \<lparr>nilResult = False, bfvalue = old\<rparr>))
      | BfIncrBy \<Rightarrow>
          (case bfClampToWidth (op_ovf op) (op_signed op) (op_nbits op) (old + op_arg op) of
             None \<Rightarrow> (cur, \<lparr>nilResult = True, bfvalue = 0\<rparr>)
           | Some stored \<Rightarrow>
               (bfSet cur (op_offset op) (op_nbits op) stored,
                \<lparr>nilResult = False, bfvalue = bfDecode stored (op_nbits op) (op_signed op)\<rparr>)))"

fun applyBitfield :: "bytes \<Rightarrow> bitfieldOp list \<Rightarrow> bytes \<times> bfResult list" where
  "applyBitfield cur [] = (cur, [])"
| "applyBitfield cur (op # ops) =
     (let (cur', r) = applyBitfieldOp cur op;
          (cur'', rs) = applyBitfield cur' ops
      in (cur'', r # rs))"

definition parseBitfieldType :: "bytes \<Rightarrow> (bool \<times> nat) option" where
  "parseBitfieldType tok =
     (if length tok < 2 then None
      else let sg = (hd tok = CHR ''i'') in
        if \<not> sg \<and> hd tok \<noteq> CHR ''u'' then None
        else case ParseInt (tl tok) of
               Inl _ \<Rightarrow> None
             | Inr n \<Rightarrow> if n < 1 \<or> n > (if sg then 64 else 63) then None else Some (sg, nat n))"

definition parseBitfieldOffset :: "bytes \<Rightarrow> nat \<Rightarrow> nat option" where
  "parseBitfieldOffset tok n =
     (if tok \<noteq> [] \<and> hd tok = CHR ''#'' then
        (case ParseInt (tl tok) of
           Inl _ \<Rightarrow> None
         | Inr idx \<Rightarrow>
             if idx < 0 then None
             else if idx > (maxBitOffset - 1) div int n then None
             else Some (nat (idx * int n)))
      else
        (case ParseInt tok of
           Inl _ \<Rightarrow> None
         | Inr off \<Rightarrow> if off < 0 \<or> off \<ge> maxBitOffset then None else Some (nat off)))"

definition parseOverflow :: "bytes \<Rightarrow> overflow option" where
  "parseOverflow tok =
     (let m = ToUpper tok in
      if m = ''WRAP'' then Some WRAP else if m = ''SAT'' then Some SAT
      else if m = ''FAIL'' then Some FAIL else None)"

text \<open>
  The parser's loop: \<open>mode\<close> is the overflow mode in effect, \<open>ops\<close> the operations so far. An error is
  the RESP error text.
\<close>

function parseBitfieldLoop :: "bytes list \<Rightarrow> overflow \<Rightarrow> bitfieldOp list \<Rightarrow> bytes + bitfieldOp list" where
  "parseBitfieldLoop toks mode ops =
     (if toks = [] then Inr ops
      else let kw = ToUpper (hd toks) in
        if kw = ''OVERFLOW'' then
          (if length toks < 2 then Inl ErrSyntax
           else case parseOverflow (toks ! 1) of
                  None \<Rightarrow> Inl errOverflowType
                | Some m \<Rightarrow> parseBitfieldLoop (drop 2 toks) m ops)
        else if kw = ''GET'' then
          (if length toks < 3 then Inl ErrSyntax
           else case parseBitfieldType (toks ! 1) of
                  None \<Rightarrow> Inl errBitfieldType
                | Some (sg, n) \<Rightarrow>
                    (case parseBitfieldOffset (toks ! 2) n of
                       None \<Rightarrow> Inl errBitOffset
                     | Some off \<Rightarrow>
                         parseBitfieldLoop (drop 3 toks) mode
                           (ops @ [\<lparr>op_kind = BfGet, op_signed = sg, op_nbits = n, op_offset = off, op_arg = 0, op_ovf = WRAP\<rparr>])))
        else if kw = ''SET'' \<or> kw = ''INCRBY'' then
          (if length toks < 4 then Inl ErrSyntax
           else case parseBitfieldType (toks ! 1) of
                  None \<Rightarrow> Inl errBitfieldType
                | Some (sg, n) \<Rightarrow>
                    (case parseBitfieldOffset (toks ! 2) n of
                       None \<Rightarrow> Inl errBitOffset
                     | Some off \<Rightarrow>
                         (case ParseInt (toks ! 3) of
                            Inl _ \<Rightarrow> Inl ErrNotInteger
                          | Inr v \<Rightarrow>
                              parseBitfieldLoop (drop 4 toks) mode
                                (ops @ [\<lparr>op_kind = (if kw = ''SET'' then BfSet else BfIncrBy), op_signed = sg,
                                          op_nbits = n, op_offset = off, op_arg = v, op_ovf = mode\<rparr>]))))
        else Inl ErrSyntax)"
  by pat_completeness auto
termination
  by (relation "measure (\<lambda>(toks, _, _). length toks)") auto

declare parseBitfieldLoop.simps [simp del]

definition parseBitfieldOps :: "bytes list \<Rightarrow> bytes + bitfieldOp list" where
  "parseBitfieldOps toks = parseBitfieldLoop toks WRAP []"

text \<open>The bytes the write operations need, computed before the value grows.\<close>

definition bfMaxBytes :: "bitfieldOp list \<Rightarrow> nat" where
  "bfMaxBytes ops =
     foldl (\<lambda>m op. if op_kind op = BfGet then m else max m ((op_offset op + op_nbits op + 7) div 8)) 0 ops"

section \<open>Words and integers\<close>

lemma bit_bfMask: "n \<le> 64 \<Longrightarrow> bit (bfMask n) j \<longleftrightarrow> j < n"
proof (cases "n \<ge> 64")
  case False
  then have "bfMask n = mask n" by (simp add: bfMask_def mask_eq_decr_exp push_bit_of_1)
  with False show ?thesis by (auto simp: bit_simps)
qed (auto simp: bfMask_def bit_simps)

lemma bit_bfEncode: "n \<le> 64 \<Longrightarrow> bit (bfEncode z n) j \<longleftrightarrow> j < n \<and> bit z j"
  by (auto simp: bfEncode_def bit_bfMask bit_simps simp flip: take_bit_eq_mod)

definition field_wrap :: "bool \<Rightarrow> nat \<Rightarrow> int \<Rightarrow> int" where
  "field_wrap sg n z = (if sg then signed_take_bit (n - 1) z else take_bit n z)"

definition field_width :: "bool \<Rightarrow> nat \<Rightarrow> bool" where
  "field_width sg n \<longleftrightarrow> 1 \<le> n \<and> n \<le> (if sg then 64 else 63)"

lemma and_push_bit_1: "(v AND push_bit k 1 \<noteq> 0) \<longleftrightarrow> bit (v :: 64 word) k"
proof -
  have "v AND push_bit k 1 = (if bit v k then push_bit k 1 else 0)"
    by (rule bit_word_eqI) (auto simp: bit_simps)
  moreover have "bit v k \<Longrightarrow> push_bit k (1 :: 64 word) \<noteq> 0"
    by (metis bit_imp_le_length push_bit_of_1 word_size exp_eq_zero_iff not_le)
  ultimately show ?thesis by auto
qed

lemma bit_sint64: "bit (sint (w :: 64 word)) j \<longleftrightarrow> bit w (min j 63)"
  by (auto simp: bit_sint_iff min_def le_less_Suc_eq dest: bit_imp_le_length
      intro: order_class.order.antisym)

lemma bit_bfDecode:
  assumes "field_width sg n" and v: "\<And>j. bit v j \<Longrightarrow> j < n"
  shows "bit (bfDecode v n sg) j \<longleftrightarrow> (if j < n then bit v j else sg \<and> bit v (n - 1))"
proof -
  have n: "1 \<le> n" "n \<le> 64" "\<not> sg \<Longrightarrow> n \<le> 63"
    using assms(1) by (auto simp: field_width_def split: if_splits)
  show ?thesis
  proof (cases "sg \<and> n < 64 \<and> bit v (n - 1)")
    case True
    then have "bfDecode v n sg = sint (v OR push_bit n (NOT 0))"
      unfolding bfDecode_def and_push_bit_1 by simp
    with True v show ?thesis
      by (auto simp: bit_sint64 bit_simps min_def not_less)
  next
    case False
    then have dec: "bfDecode v n sg = sint v"
      unfolding bfDecode_def and_push_bit_1 by auto
    show ?thesis
    proof (cases "sg \<and> n = 64")
      case True
      then show ?thesis unfolding dec bit_sint64 by (auto simp: min_def le_less_Suc_eq)
    next
      case wide: False
      then have "\<not> bit v 63" "\<not> j < n \<Longrightarrow> \<not> bit v (min j 63)"
        using v [of 63] v [of "min j 63"] n by (auto simp: min_def split: if_splits)
      moreover have "\<not> (sg \<and> bit v (n - 1))" using False wide n by auto
      moreover have "j < n \<Longrightarrow> min j 63 = j" using n by simp
      ultimately show ?thesis unfolding dec bit_sint64 by auto
    qed
  qed
qed

lemma bit_field_wrap:
  assumes "field_width sg n"
  shows "bit (field_wrap sg n z) j \<longleftrightarrow> (if j < n then bit z j else sg \<and> bit z (n - 1))"
proof -
  have "1 \<le> n" using assms by (simp add: field_width_def)
  then have "j < n \<Longrightarrow> min j (n - 1) = j" and "\<not> j < n \<Longrightarrow> min j (n - 1) = n - 1" by simp_all
  then show ?thesis
    by (cases "j < n") (simp_all add: field_wrap_def bit_signed_take_bit_iff bit_take_bit_iff)
qed

lemma field_wrap_eqI:
  assumes "field_width sg n" and "\<And>j. bit v j \<longleftrightarrow> j < n \<and> bit z j"
  shows "bfDecode v n sg = field_wrap sg n z"
proof (rule bit_eqI)
  fix j
  have dec: "bit (bfDecode v n sg) j \<longleftrightarrow> (if j < n then bit v j else sg \<and> bit v (n - 1))"
    using assms(2) by (intro bit_bfDecode [OF assms(1)]) simp
  have wrap: "bit (field_wrap sg n z) j \<longleftrightarrow> (if j < n then bit z j else sg \<and> bit z (n - 1))"
    by (rule bit_field_wrap [OF assms(1)])
  have "n - 1 < n" using assms(1) by (simp add: field_width_def)
  then show "bit (bfDecode v n sg) j \<longleftrightarrow> bit (field_wrap sg n z) j"
    unfolding dec wrap assms(2) by simp
qed

lemma bfDecode_bfEncode: "field_width sg n \<Longrightarrow> bfDecode (bfEncode z n) n sg = field_wrap sg n z"
  by (rule field_wrap_eqI) (auto simp: bit_bfEncode field_width_def split: if_splits)

lemma field_wrap_bounds:
  assumes "field_width sg n"
  shows "fst (bfBounds sg n) \<le> field_wrap sg n z \<and> field_wrap sg n z \<le> snd (bfBounds sg n)"
proof (cases sg)
  case True
  then show ?thesis
    using signed_take_bit_int_greater_eq_minus_exp [of "n - 1" z] signed_take_bit_int_less_exp [of "n - 1" z]
    by (simp add: field_wrap_def bfBounds_def)
next
  case False
  then show ?thesis
    using take_bit_int_less_exp [of n z] by (simp add: field_wrap_def bfBounds_def)
qed

lemma field_wrap_id:
  assumes "field_width sg n" and "fst (bfBounds sg n) \<le> z" and "z \<le> snd (bfBounds sg n)"
  shows "field_wrap sg n z = z"
  using assms
  by (auto simp: field_wrap_def bfBounds_def field_width_def signed_take_bit_int_eq_self_iff
      take_bit_int_eq_self_iff)

lemma field_wrap_mod:
  assumes "field_width sg n"
  shows "field_wrap sg n z mod 2 ^ n = z mod 2 ^ n"
proof -
  have "take_bit n (field_wrap sg n z) = take_bit n z"
    by (rule bit_eqI) (auto simp: bit_take_bit_iff bit_field_wrap [OF assms])
  then show ?thesis by (simp add: take_bit_eq_mod)
qed

section \<open>Reading and writing fields\<close>

lemma bit_bfRead: "n \<le> 64 \<Longrightarrow> bit (bfRead val off n) j \<longleftrightarrow> j < n \<and> bit_at val (off + (n - 1 - j))"
proof (induction n arbitrary: j)
  case 0
  then show ?case by (simp add: bfRead_def)
next
  case (Suc n)
  have "bfRead val off (Suc n) = push_bit 1 (bfRead val off n) OR word_of_int (of_bool (bit_at val (off + n)))"
    by (simp add: bfRead_def getBit_bit_at)
  then have step: "bit (bfRead val off (Suc n)) j \<longleftrightarrow>
      (if j = 0 then bit_at val (off + n) else j < 64 \<and> bit (bfRead val off n) (j - 1))"
    by (cases j) (simp_all add: bit_or_iff bit_times_2)
  have ih: "bit (bfRead val off n) (j - 1) \<longleftrightarrow> j - 1 < n \<and> bit_at val (off + (n - 1 - (j - 1)))"
    using Suc.prems by (intro Suc.IH) simp
  show ?case
  proof (cases j)
    case (Suc k)
    have "k < n \<Longrightarrow> k < 63" using Suc.prems by simp
    then show ?thesis unfolding step ih by (auto simp: Suc)
  qed (use step in simp)
qed

lemma length_foldl_writeBit [simp]:
  "length (foldl (\<lambda>s i. writeBit s (f i) (g i)) xs is) = length xs"
  by (induction "is" arbitrary: xs) simp_all

lemma length_bfSet [simp]: "length (bfSet val off n v) = max ((off + n + 7) div 8) (length val)"
  by (simp add: bfSet_def)

lemma bit_at_bfSet:
  "bit_at (bfSet val off n v) k \<longleftrightarrow>
     (if off \<le> k \<and> k < off + n then bit v (n - 1 - (k - off)) else bit_at val k)"
proof -
  define xs where "xs = grow ((off + n + 7) div 8) val"
  have len: "i < n \<Longrightarrow> (off + i) div 8 < length xs" for i
    by (auto simp: xs_def)
  have one: "(drop_bit m v AND 1 = 1) = bit v m" for m
    by (simp add: and_one_eq bit_iff_odd_drop_bit odd_iff_mod_2_eq_one)
  have "m \<le> n \<Longrightarrow> bit_at (foldl (\<lambda>s i. writeBit s (off + i) (drop_bit (n - 1 - i) v AND 1 = 1)) xs [0..<m]) k \<longleftrightarrow>
      (if off \<le> k \<and> k < off + m then bit v (n - 1 - (k - off)) else bit_at xs k)" for m
  proof (induction m)
    case (Suc m)
    then show ?case
      using len [of m] by (auto simp: bit_at_writeBit one)
  qed auto
  from this [of n] show ?thesis
    by (simp add: bfSet_def xs_def)
qed

lemma bfGet_field_wrap:
  assumes "field_width sg n"
  shows "bfGet (bfSet val off n (bfEncode z n)) off n sg = field_wrap sg n z"
  unfolding bfGet_def
proof (rule field_wrap_eqI [OF assms])
  fix j
  have "n \<le> 64" using assms by (auto simp: field_width_def split: if_splits)
  then show "bit (bfRead (bfSet val off n (bfEncode z n)) off n) j \<longleftrightarrow> j < n \<and> bit z j"
    by (auto simp: bit_bfRead bit_at_bfSet bit_bfEncode)
qed

section \<open>Overflow modes\<close>

text \<open>What a mode promises, on unbounded integers.\<close>

definition overflow_value :: "overflow \<Rightarrow> bool \<Rightarrow> nat \<Rightarrow> int \<Rightarrow> int option" where
  "overflow_value mode sg n z =
     (let lo = fst (bfBounds sg n); hi = snd (bfBounds sg n) in
      case mode of
        FAIL \<Rightarrow> if lo \<le> z \<and> z \<le> hi then Some z else None
      | SAT \<Rightarrow> Some (max lo (min hi z))
      | WRAP \<Rightarrow> Some (field_wrap sg n z))"

lemma bfBounds_nonempty: "field_width sg n \<Longrightarrow> fst (bfBounds sg n) \<le> snd (bfBounds sg n)"
  using field_wrap_bounds [of sg n 0] by linarith

lemma bfClampToWidth_encode:
  assumes "field_width sg n"
  shows "bfClampToWidth mode sg n want =
    map_option (\<lambda>z. bfEncode z n) (overflow_value mode sg n want) \<or> mode = WRAP"
proof -
  obtain lo hi where b: "bfBounds sg n = (lo, hi)" by fastforce
  with bfBounds_nonempty [OF assms] show ?thesis
    by (cases mode) (auto simp: bfClampToWidth_def overflow_value_def Let_def max_def min_def)
qed

lemma bfClampToWidth_cases:
  assumes "field_width sg n"
  obtains (none) "bfClampToWidth mode sg n want = None" "overflow_value mode sg n want = None"
    | (some) y z where "bfClampToWidth mode sg n want = Some (bfEncode y n)"
        "overflow_value mode sg n want = Some z" "field_wrap sg n y = z"
proof (cases mode)
  case WRAP
  then show ?thesis
    using some [of want "field_wrap sg n want"]
    by (simp add: bfClampToWidth_def overflow_value_def bfEncode_def Let_def case_prod_beta)
next
  case SAT
  let ?z = "max (fst (bfBounds sg n)) (min (snd (bfBounds sg n)) want)"
  have "field_wrap sg n ?z = ?z"
    using field_wrap_id [OF assms] bfBounds_nonempty [OF assms] by simp
  with SAT bfClampToWidth_encode [OF assms, of SAT want] show ?thesis
    using some [of ?z ?z] by (simp add: overflow_value_def)
next
  case FAIL
  with bfClampToWidth_encode [OF assms, of FAIL want] show ?thesis
    using none some [of want want] field_wrap_id [OF assms, of want]
    by (auto simp: overflow_value_def Let_def split: if_splits)
qed

text \<open>
  the value a write stores is exactly the one its overflow mode promises: FAIL stores the wanted
  integer or nothing, SAT the nearest representable one, WRAP the one congruent modulo the
  field's width; in every case the stored bits decode to it, for signed fields of 1 to 64 bits
  and unsigned ones of 1 to 63.
\<close>

lemma bfClampToWidth_overflow:
  assumes "field_width sg n"
  shows "map_option (\<lambda>v. bfDecode v n sg) (bfClampToWidth mode sg n want) = overflow_value mode sg n want"
  by (rule bfClampToWidth_cases [OF assms, of mode want])
    (simp_all add: bfDecode_bfEncode [OF assms])

lemma bfClampToWidth_overflow_witness:
  "map_option (\<lambda>v. bfDecode v 64 True) (bfClampToWidth SAT True 64 (2 ^ 70)) = Some max_i64"
  by (subst bfClampToWidth_overflow) (simp_all add: field_width_def overflow_value_def bfBounds_def)

section \<open>One operation\<close>

text \<open>
  C4: a SET or INCRBY operation of BITFIELD writes exactly its own field. When the overflow mode
  gives a value, the field then reads as that value, every bit outside it is unchanged, and the
  reply is the old value (SET) or the new one (INCRBY); when FAIL rejects it, nothing changes and
  the reply element is nil.
\<close>

theorem applyBitfieldOp_write:
  assumes "op_kind op \<noteq> BfGet" and "field_width (op_signed op) (op_nbits op)"
    and "old = bfGet cur (op_offset op) (op_nbits op) (op_signed op)"
    and "want = (if op_kind op = BfSet then op_arg op else old + op_arg op)"
    and "applyBitfieldOp cur op = (cur', r)"
  shows "case overflow_value (op_ovf op) (op_signed op) (op_nbits op) want of
      None \<Rightarrow> cur' = cur \<and> nilResult r
    | Some z \<Rightarrow>
        bfGet cur' (op_offset op) (op_nbits op) (op_signed op) = z \<and>
        (\<forall>k. k < op_offset op \<or> op_offset op + op_nbits op \<le> k \<longrightarrow> bit_at cur' k = bit_at cur k) \<and>
        \<not> nilResult r \<and> bfvalue r = (if op_kind op = BfSet then old else z)"
proof (rule bfClampToWidth_cases [OF assms(2), of "op_ovf op" want])
  assume "bfClampToWidth (op_ovf op) (op_signed op) (op_nbits op) want = None"
    and "overflow_value (op_ovf op) (op_signed op) (op_nbits op) want = None"
  with assms show ?thesis
    by (cases "op_kind op") (auto simp: applyBitfieldOp_def Let_def)
next
  fix y z
  assume "bfClampToWidth (op_ovf op) (op_signed op) (op_nbits op) want = Some (bfEncode y (op_nbits op))"
    and "overflow_value (op_ovf op) (op_signed op) (op_nbits op) want = Some z"
    and "field_wrap (op_signed op) (op_nbits op) y = z"
  with assms show ?thesis
    by (cases "op_kind op")
      (auto simp: applyBitfieldOp_def Let_def bit_at_bfSet bfGet_field_wrap bfDecode_bfEncode)
qed

theorem applyBitfieldOp_write_witness:
  "bfGet (fst (applyBitfieldOp [] \<lparr>op_kind = BfIncrBy, op_signed = True, op_nbits = 8, op_offset = 4,
       op_arg = 200, op_ovf = SAT\<rparr>)) 4 8 True = 127"
proof -
  let ?op = "\<lparr>op_kind = BfIncrBy, op_signed = True, op_nbits = 8, op_offset = 4, op_arg = 200, op_ovf = SAT\<rparr>"
  have old: "bfGet [] 4 8 True = 0"
    by (simp add: bfGet_def bfRead_def getBit_def bfDecode_def upt_rec)
  have "overflow_value SAT True 8 200 = Some 127"
    by (simp add: overflow_value_def bfBounds_def)
  then show ?thesis
    using applyBitfieldOp_write [of ?op 0 "[]" 200 "fst (applyBitfieldOp [] ?op)" "snd (applyBitfieldOp [] ?op)"] old
    by (simp add: field_width_def)
qed

section \<open>The whole command\<close>

definition op_wf :: "bitfieldOp \<Rightarrow> bool" where
  "op_wf op \<longleftrightarrow> field_width (op_signed op) (op_nbits op) \<and> int (op_offset op) < maxBitOffset \<and> i64 (op_arg op)"

lemma parseBitfieldType_width: "parseBitfieldType tok = Some (sg, n) \<Longrightarrow> field_width sg n"
  by (auto simp: parseBitfieldType_def field_width_def Let_def split: if_splits sum.splits)

lemma parseBitfieldOffset_bound:
  assumes "parseBitfieldOffset tok n = Some off" and "1 \<le> n"
  shows "int off < maxBitOffset"
proof (cases "tok \<noteq> [] \<and> hd tok = CHR ''#''")
  case True
  then obtain idx where idx: "0 \<le> idx" "idx \<le> (maxBitOffset - 1) div int n" and off: "off = nat (idx * int n)"
    using assms by (auto simp: parseBitfieldOffset_def not_less split: if_splits sum.splits)
  have "idx * int n \<le> (maxBitOffset - 1) div int n * int n"
    using idx by (intro mult_right_mono) simp_all
  also have "\<dots> \<le> maxBitOffset - 1"
    using div_mult_mod_eq [of "maxBitOffset - 1" "int n"] pos_mod_sign [of "int n" "maxBitOffset - 1"] assms(2)
    by linarith
  finally show ?thesis using idx off by simp
next
  case False
  then show ?thesis
    using assms by (auto simp: parseBitfieldOffset_def split: if_splits sum.splits)
qed

lemma parseBitfieldLoop_wf:
  "parseBitfieldLoop toks mode ops = Inr ops' \<Longrightarrow> list_all op_wf ops \<Longrightarrow> list_all op_wf ops'"
proof (induction toks mode ops rule: parseBitfieldLoop.induct)
  case (1 toks mode ops)
  have "field_width sg n \<Longrightarrow> 1 \<le> n" for sg n by (simp add: field_width_def)
  note facts = this parseBitfieldType_width parseBitfieldOffset_bound ParseInt_i64
  show ?case
    using 1
    apply (subst (asm) parseBitfieldLoop.simps [of toks mode ops])
    apply (simp add: Let_def split: if_splits option.splits prod.splits sum.splits)
    using facts by (fastforce simp: op_wf_def i64_def)+
qed

text \<open>
  every operation the BITFIELD parser accepts is one the engine is correct for: a signed width of
  1 to 64 or an unsigned width of 1 to 63, an offset below 2^32 (also for \<open>#n\<close>, whose
  multiplication cannot overflow), and a 64-bit argument.
\<close>

lemma parseBitfieldOps_wf: "parseBitfieldOps toks = Inr ops \<Longrightarrow> list_all op_wf ops"
  using parseBitfieldLoop_wf [of toks WRAP "[]" ops] by (simp add: parseBitfieldOps_def)

lemma parseBitfieldOps_wf_witness:
  "list_all op_wf [\<lparr>op_kind = BfIncrBy, op_signed = False, op_nbits = 8, op_offset = 16, op_arg = 5, op_ovf = SAT\<rparr>]"
proof (rule parseBitfieldOps_wf)
  have arg: "ParseInt ''2'' = Inr 2" "ParseInt ''8'' = Inr 8" "ParseInt ''5'' = Inr 5"
    by (simp_all add: ParseInt_iff i64_def fmt_int_def fmt_nat.simps)
  show "parseBitfieldOps [''OVERFLOW'', ''sat'', ''INCRBY'', ''u8'', ''#2'', ''5''] =
      Inr [\<lparr>op_kind = BfIncrBy, op_signed = False, op_nbits = 8, op_offset = 16, op_arg = 5, op_ovf = SAT\<rparr>]"
    by (simp add: parseBitfieldOps_def parseBitfieldLoop.simps parseOverflow_def parseBitfieldType_def
        parseBitfieldOffset_def upper_byte_def char_of_def bit_Suc_0_iff arg maxBitOffset_def)
qed

lemma bfMaxBytes_foldl:
  "foldl (\<lambda>m op. if op_kind op = BfGet then m else max m ((op_offset op + op_nbits op + 7) div 8)) m ops =
    max m (bfMaxBytes ops)" (is "foldl ?f m ops = _")
proof (induction ops arbitrary: m)
  case (Cons op ops)
  have "foldl ?f m (op # ops) = max (?f m op) (bfMaxBytes ops)"
    using Cons [of "?f m op"] by simp
  moreover have "bfMaxBytes (op # ops) = max (?f 0 op) (bfMaxBytes ops)"
    using Cons [of "?f 0 op"] by (simp add: bfMaxBytes_def)
  ultimately show ?case by (simp add: max.assoc)
qed (simp add: bfMaxBytes_def)

lemma bfMaxBytes_Cons [simp]:
  "bfMaxBytes (op # ops) =
    (if op_kind op = BfGet then bfMaxBytes ops
     else max ((op_offset op + op_nbits op + 7) div 8) (bfMaxBytes ops))"
proof -
  have "bfMaxBytes (op # ops) =
      max (if op_kind op = BfGet then 0 else max 0 ((op_offset op + op_nbits op + 7) div 8)) (bfMaxBytes ops)"
    unfolding bfMaxBytes_foldl [symmetric] by (simp add: bfMaxBytes_def)
  then show ?thesis by simp
qed

lemma length_applyBitfieldOp:
  "bfMaxBytes [op] \<le> length cur \<Longrightarrow> length (fst (applyBitfieldOp cur op)) = length cur"
  by (cases "op_kind op")
    (auto simp: applyBitfieldOp_def Let_def bfMaxBytes_def max_def split: option.split)

lemma length_applyBitfield:
  "bfMaxBytes ops \<le> length cur \<Longrightarrow>
    length (fst (applyBitfield cur ops)) = length cur \<and> length (snd (applyBitfield cur ops)) = length ops"
proof (induction ops arbitrary: cur)
  case (Cons op ops)
  have "bfMaxBytes [op] \<le> length cur" and "bfMaxBytes ops \<le> length cur"
    using Cons.prems by (auto simp: bfMaxBytes_def [of "[]"] split: if_splits)
  then show ?case
    using Cons.IH [of "fst (applyBitfieldOp cur op)"] length_applyBitfieldOp [of op cur]
    by (simp add: Let_def case_prod_beta)
qed simp

text \<open>
  the size the command checks before it allocates is exact: once the value is padded to the highest
  write offset, no operation grows it further, and there is one reply element per operation.
\<close>

lemma applyBitfield_size:
  "length (fst (applyBitfield (grow (bfMaxBytes ops) base) ops)) = max (bfMaxBytes ops) (length base) \<and>
   length (snd (applyBitfield (grow (bfMaxBytes ops) base) ops)) = length ops"
  using length_applyBitfield [of ops "grow (bfMaxBytes ops) base"] by simp

end
