(* ===== verification/Geohash.thy ===== *)
theory Geohash
  imports Prelude
begin

unbundle bit_operations_syntax

text \<open>
  The integer core of the geohash port (\<^verbatim>\<open>internal/command/geohash.go\<close>): Morton interleaving of two
  32-bit cell indices into the 52-bit score, its inverse, and the base-32 string of GEOHASH. The
  floating-point scaling around it is in theory \<open>Geo\<close>.
\<close>

definition spread :: "64 word \<Rightarrow> 64 word" where
  "spread x0 =
     (let x4 = (x0 OR push_bit 16 x0) AND 0x0000FFFF0000FFFF;
          x3 = (x4 OR push_bit 8 x4) AND 0x00FF00FF00FF00FF;
          x2 = (x3 OR push_bit 4 x3) AND 0x0F0F0F0F0F0F0F0F;
          x1 = (x2 OR push_bit 2 x2) AND 0x3333333333333333
      in (x1 OR push_bit 1 x1) AND 0x5555555555555555)"

definition interleave64 :: "32 word \<Rightarrow> 32 word \<Rightarrow> 64 word" where
  "interleave64 xlo ylo = spread (ucast xlo) OR push_bit 1 (spread (ucast ylo))"

definition squash :: "64 word \<Rightarrow> 64 word" where
  "squash x =
     (let x0 = (x OR drop_bit 0 x) AND 0x5555555555555555;
          x1 = (x0 OR drop_bit 1 x0) AND 0x3333333333333333;
          x2 = (x1 OR drop_bit 2 x1) AND 0x0F0F0F0F0F0F0F0F;
          x3 = (x2 OR drop_bit 4 x2) AND 0x00FF00FF00FF00FF;
          x4 = (x3 OR drop_bit 8 x3) AND 0x0000FFFF0000FFFF
      in (x4 OR drop_bit 16 x4) AND 0x00000000FFFFFFFF)"

definition deinterleave64 :: "64 word \<Rightarrow> 32 word \<times> 32 word" where
  "deinterleave64 w = (ucast (squash w), ucast (squash (drop_bit 1 w)))"

definition geo_alpha :: bytes where
  "geo_alpha = ''0123456789bcdefghjkmnpqrstuvwxyz''"

text \<open>The string of GEOHASH for an interleaved index: eleven characters, the last always the first letter.\<close>

definition geohashChars :: "64 word \<Rightarrow> bytes" where
  "geohashChars bits =
     map (\<lambda>i. geo_alpha ! (if i = 10 then 0 else unat (drop_bit (52 - (i + 1) * 5) bits AND 0x1f))) [0..<11]"

section \<open>Masks and grouped bits\<close>

text \<open>
  \<open>grouped h f w\<close>: the bits of \<open>w\<close> come in periods of \<open>2 * h\<close>, the first \<open>h\<close> of each carrying the
  bits of \<open>f\<close> in order and the others zero. One spreading step halves \<open>h\<close>, one squashing step
  doubles it.
\<close>

definition grouped :: "nat \<Rightarrow> (nat \<Rightarrow> bool) \<Rightarrow> 64 word \<Rightarrow> bool" where
  "grouped h f w \<longleftrightarrow> (\<forall>j. bit w j \<longleftrightarrow> j < 64 \<and> j mod (2 * h) < h \<and> f (j div (2 * h) * h + j mod (2 * h)))"

definition group_mask :: "nat \<Rightarrow> 64 word \<Rightarrow> bool" where
  "group_mask h m \<longleftrightarrow> (\<forall>j. bit m j \<longleftrightarrow> j < 64 \<and> j mod (2 * h) < h)"

lemma group_maskI:
  assumes "list_all (\<lambda>j. bit m j = (j mod (2 * h) < h)) [0..<64]"
  shows "group_mask h m"
  unfolding group_mask_def
proof
  fix j
  have "bit m j \<Longrightarrow> j < 64" using bit_imp_le_length [of m j] by simp
  moreover have "j < 64 \<Longrightarrow> bit m j = (j mod (2 * h) < h)"
    using assms by (auto simp: list_all_iff)
  ultimately show "bit m j \<longleftrightarrow> j < 64 \<and> j mod (2 * h) < h" by blast
qed

lemma group_masks:
  "group_mask 1 0x5555555555555555" "group_mask 2 0x3333333333333333"
  "group_mask 4 0x0F0F0F0F0F0F0F0F" "group_mask 8 0x00FF00FF00FF00FF"
  "group_mask 16 0x0000FFFF0000FFFF" "group_mask 32 0x00000000FFFFFFFF"
  by (rule group_maskI, code_simp)+

text \<open>Indices in periods of \<open>4 * h\<close>, cut into quarters.\<close>

lemma quarter_cases:
  fixes j h :: nat
  assumes "0 < h"
  obtains (q1) q r where "j = 4 * h * q + r" "r < h"
    | (q2) q r where "j = 4 * h * q + (h + r)" "r < h"
    | (q3) q r where "j = 4 * h * q + (2 * h + r)" "r < h"
    | (q4) q r where "j = 4 * h * q + (3 * h + r)" "r < h"
proof -
  define q r where "q = j div (4 * h)" and "r = j mod (4 * h)"
  have j: "j = 4 * h * q + r" by (simp add: q_def r_def)
  have "r < 4 * h" using assms by (simp add: r_def)
  then consider "r < h" | "h \<le> r" "r - h < h" | "2 * h \<le> r" "r - 2 * h < h" | "3 * h \<le> r" "r - 3 * h < h"
    by linarith
  then show ?thesis
    using q1 [of q r] q2 [of q "r - h"] q3 [of q "r - 2 * h"] q4 [of q "r - 3 * h"] j by cases simp_all
qed

lemma quarter_div_mod:
  fixes h q s :: nat
  assumes "s < 4 * h"
  shows "(4 * h * q + s) div (4 * h) = q" "(4 * h * q + s) mod (4 * h) = s"
    "(4 * h * q + s) div (2 * h) = 2 * q + s div (2 * h)" "(4 * h * q + s) mod (2 * h) = s mod (2 * h)"
proof -
  show "(4 * h * q + s) div (4 * h) = q" "(4 * h * q + s) mod (4 * h) = s"
    using assms by simp_all
  have "4 * h * q + s = s + 2 * h * (2 * q)" by simp
  then show "(4 * h * q + s) div (2 * h) = 2 * q + s div (2 * h)" "(4 * h * q + s) mod (2 * h) = s mod (2 * h)"
    using assms by (simp_all only: div_mult_self2 mod_mult_self2)
qed

lemma upper_half: "r < h \<Longrightarrow> (2 * h + r) div (2 * h) = 1 \<and> (2 * h + r) mod (2 * h) = r" for h r :: nat
  by (simp add: div_add_self1 mod_add_self1)

lemma upper_quarter: "r < h \<Longrightarrow> (3 * h + r) div (2 * h) = 1 \<and> (3 * h + r) mod (2 * h) = h + r" for h r :: nat
proof -
  assume "r < h"
  moreover have "3 * h + r = 2 * h + (h + r)" by simp
  ultimately show ?thesis by (simp only: div_add_self1 mod_add_self1) simp
qed

lemma groupedD: "grouped h f w \<Longrightarrow> bit w j \<longleftrightarrow> j < 64 \<and> j mod (2 * h) < h \<and> f (j div (2 * h) * h + j mod (2 * h))"
  by (simp add: grouped_def)

lemma group_maskD: "group_mask h m \<Longrightarrow> bit m j \<longleftrightarrow> j < 64 \<and> j mod (2 * h) < h"
  by (simp add: group_mask_def)

lemma grouped_spread:
  assumes h: "0 < h" and w: "grouped (2 * h) f w" and m: "group_mask h m"
  shows "grouped h f ((w OR push_bit h w) AND m)"
  unfolding grouped_def
proof
  fix j
  have bw: "\<And>j. bit w j \<longleftrightarrow> j < 64 \<and> j mod (4 * h) < 2 * h \<and> f (j div (4 * h) * (2 * h) + j mod (4 * h))"
    using groupedD [OF w] by (simp add: mult.assoc [symmetric] mult_2 [symmetric])
  note bm = group_maskD [OF m]
  note dm = quarter_div_mod upper_half upper_quarter
  have res: "bit ((w OR push_bit h w) AND m) j \<longleftrightarrow>
      j < 64 \<and> j mod (2 * h) < h \<and> (bit w j \<or> h \<le> j \<and> bit w (j - h))"
    using bm by (auto simp: bit_and_iff bit_or_iff bit_push_bit_iff)
  show "bit ((w OR push_bit h w) AND m) j \<longleftrightarrow>
      j < 64 \<and> j mod (2 * h) < h \<and> f (j div (2 * h) * h + j mod (2 * h))"
  proof (rule quarter_cases [OF h, of j])
    fix q r assume j: "j = 4 * h * q + r" and r: "r < h"
    have "\<not> bit w (j - h)" if "h \<le> j"
    proof (cases q)
      case (Suc p)
      have "j - h = 4 * h * p + (3 * h + r)" using j Suc by simp
      then show ?thesis using r by (simp add: bw dm)
    qed (use that j r in simp)
    moreover have "j div (2 * h) = 2 * q" "j mod (2 * h) = r" "j div (4 * h) = q" "j mod (4 * h) = r"
      using j r by (simp_all add: dm)
    ultimately show ?thesis using r by (auto simp: res bw mult.assoc mult.left_commute)
  next
    fix q r assume "j = 4 * h * q + (h + r)" and "r < h"
    then have "j mod (2 * h) = h + r" by (simp add: dm)
    then show ?thesis by (simp add: res)
  next
    fix q r assume j: "j = 4 * h * q + (2 * h + r)" and r: "r < h"
    then have "\<not> bit w j" by (simp add: bw dm)
    moreover have jh: "j - h = 4 * h * q + (h + r)" and "h \<le> j" using j by simp_all
    moreover have "j div (2 * h) = 2 * q + 1" "j mod (2 * h) = r"
      using j r by (simp_all add: dm)
    moreover have "(j - h) div (4 * h) = q" "(j - h) mod (4 * h) = h + r"
      unfolding jh using r by (simp_all add: dm)
    moreover have "j div (2 * h) * h + j mod (2 * h) = (j - h) div (4 * h) * (2 * h) + (j - h) mod (4 * h)"
      unfolding calculation(4-7) by (simp add: algebra_simps)
    moreover have "j < 64 \<Longrightarrow> j - h < 64" by simp
    moreover have "h + r < 2 * h" using r by simp
    ultimately show ?thesis using r unfolding res bw [of "j - h"] by metis
  next
    fix q r assume "j = 4 * h * q + (3 * h + r)" and "r < h"
    then have "j mod (2 * h) = h + r" by (simp add: dm)
    then show ?thesis by (simp add: res)
  qed
qed

lemma grouped_squash:
  assumes h: "0 < h" and w: "grouped h f w" and m: "group_mask (2 * h) m" and p: "64 mod (4 * h) = 0"
  shows "grouped (2 * h) f ((w OR drop_bit h w) AND m)"
  unfolding grouped_def
proof
  fix j
  note bw = groupedD [OF w]
  note dm = quarter_div_mod upper_half upper_quarter
  have bm: "bit m j \<longleftrightarrow> j < 64 \<and> j mod (4 * h) < 2 * h"
    using group_maskD [OF m, of j] by simp
  have room: "j + h < 64" if "j < 64" "j mod (4 * h) < 2 * h"
  proof -
    define k where "k = 64 div (4 * h)"
    have k: "64 = 4 * h * k"
      using mult_div_mod_eq [of "4 * h" 64] p unfolding k_def by linarith
    have "j = 4 * h * (j div (4 * h)) + j mod (4 * h)" by simp
    moreover have "j div (4 * h) < k"
      using that(1) k h by (simp add: less_mult_imp_div_less mult.commute)
    then have "4 * h * (j div (4 * h) + 1) \<le> 4 * h * k" by (intro mult_le_mono2) simp
    ultimately show ?thesis using that(2) k h by (simp add: algebra_simps)
  qed
  then have res: "bit ((w OR drop_bit h w) AND m) j \<longleftrightarrow>
      j < 64 \<and> j mod (4 * h) < 2 * h \<and> j + h < 64 \<and> (bit w j \<or> bit w (j + h))"
    using bm by (auto simp: bit_and_iff bit_or_iff bit_drop_bit_eq add.commute)
  have "bit ((w OR drop_bit h w) AND m) j \<longleftrightarrow>
      j < 64 \<and> j mod (4 * h) < 2 * h \<and> f (j div (4 * h) * (2 * h) + j mod (4 * h))"
  proof (rule quarter_cases [OF h, of j])
    fix q r assume j: "j = 4 * h * q + r" and r: "r < h"
    have jh: "j + h = 4 * h * q + (h + r)" using j by simp
    have "(j + h) mod (2 * h) = h + r" unfolding jh using r by (simp add: dm)
    then have "\<not> bit w (j + h)" by (simp add: bw)
    moreover have "j div (2 * h) = 2 * q" "j mod (2 * h) = r" "j div (4 * h) = q" "j mod (4 * h) = r"
      using j r by (simp_all add: dm)
    moreover have "j < 64 \<Longrightarrow> j + h < 64" using room r calculation by simp
    ultimately show ?thesis using r by (auto simp: res bw [of j] mult.assoc mult.left_commute)
  next
    fix q r assume j: "j = 4 * h * q + (h + r)" and r: "r < h"
    have jh: "j + h = 4 * h * q + (2 * h + r)" using j by simp
    have "j mod (2 * h) = h + r" using j r by (simp add: dm)
    then have "\<not> bit w j" by (simp add: bw)
    moreover have "(j + h) div (2 * h) = 2 * q + 1" "(j + h) mod (2 * h) = r"
      unfolding jh using r by (simp_all add: dm)
    moreover have "j div (4 * h) = q" "j mod (4 * h) = h + r"
      using j r by (simp_all add: dm)
    moreover have "(j + h) div (2 * h) * h + (j + h) mod (2 * h) = j div (4 * h) * (2 * h) + j mod (4 * h)"
      unfolding calculation(2-5) by (simp add: algebra_simps)
    moreover have "j < 64 \<Longrightarrow> j + h < 64" using room r calculation(4,5) by simp
    moreover have "h + r < 2 * h" using r by simp
    ultimately show ?thesis using r unfolding res bw [of "j + h"] by metis
  next
    fix q r assume "j = 4 * h * q + (2 * h + r)" and "r < h"
    then have "j mod (4 * h) = 2 * h + r" by (simp add: dm)
    then show ?thesis by (simp add: res)
  next
    fix q r assume "j = 4 * h * q + (3 * h + r)" and "r < h"
    then have "j mod (4 * h) = 3 * h + r" by (simp add: dm)
    then show ?thesis by (simp add: res)
  qed
  then show "bit ((w OR drop_bit h w) AND m) j \<longleftrightarrow>
      j < 64 \<and> j mod (2 * (2 * h)) < 2 * h \<and> f (j div (2 * (2 * h)) * (2 * h) + j mod (2 * (2 * h)))"
    by simp
qed

section \<open>Interleaving\<close>

lemma grouped_1: "grouped 1 f w \<longleftrightarrow> (\<forall>j. bit w j \<longleftrightarrow> j < 64 \<and> even j \<and> f (j div 2))"
proof -
  have "j mod (2 * 1) < 1 \<longleftrightarrow> even j" "even j \<Longrightarrow> j div (2 * 1) * 1 + j mod (2 * 1) = j div 2" for j :: nat
    by presburger+
  then show ?thesis unfolding grouped_def by (metis (no_types, lifting))
qed

lemma grouped_ucast: "grouped 32 (bit x) (ucast (x :: 32 word) :: 64 word)"
  unfolding grouped_def by (auto simp: bit_simps dest: bit_imp_le_length)

lemma bit_spread: "bit (spread (ucast x)) j \<longleftrightarrow> j < 64 \<and> even j \<and> bit (x :: 32 word) (j div 2)"
proof -
  define x4 where "x4 = (ucast x OR push_bit 16 (ucast x)) AND (0x0000FFFF0000FFFF :: 64 word)"
  define x3 where "x3 = (x4 OR push_bit 8 x4) AND 0x00FF00FF00FF00FF"
  define x2 where "x2 = (x3 OR push_bit 4 x3) AND 0x0F0F0F0F0F0F0F0F"
  define x1 where "x1 = (x2 OR push_bit 2 x2) AND 0x3333333333333333"
  define x0 where "x0 = (x1 OR push_bit 1 x1) AND 0x5555555555555555"
  have "grouped 16 (bit x) x4"
    unfolding x4_def using grouped_spread [of 16 "bit x" "ucast x", OF _ _ group_masks(5)] grouped_ucast [of x]
    by simp
  then have "grouped 8 (bit x) x3"
    unfolding x3_def using grouped_spread [of 8 "bit x" x4, OF _ _ group_masks(4)] by simp
  then have "grouped 4 (bit x) x2"
    unfolding x2_def using grouped_spread [of 4 "bit x" x3, OF _ _ group_masks(3)] by simp
  then have "grouped 2 (bit x) x1"
    unfolding x1_def using grouped_spread [of 2 "bit x" x2, OF _ _ group_masks(2)] by simp
  then have "grouped 1 (bit x) x0"
    unfolding x0_def using grouped_spread [of 1 "bit x" x1, OF _ _ group_masks(1)] by simp
  moreover have "spread (ucast x) = x0"
    by (simp only: spread_def Let_def x0_def x1_def x2_def x3_def x4_def)
  ultimately show ?thesis unfolding grouped_1 by simp
qed

lemma ucast_squash:
  assumes "\<And>j. j < 64 \<Longrightarrow> even j \<Longrightarrow> bit w j \<longleftrightarrow> bit (x :: 32 word) (j div 2)"
  shows "ucast (squash w) = x"
proof -
  define x0 where "x0 = (w OR drop_bit 0 w) AND 0x5555555555555555"
  define x1 where "x1 = (x0 OR drop_bit 1 x0) AND 0x3333333333333333"
  define x2 where "x2 = (x1 OR drop_bit 2 x1) AND 0x0F0F0F0F0F0F0F0F"
  define x3 where "x3 = (x2 OR drop_bit 4 x2) AND 0x00FF00FF00FF00FF"
  define x4 where "x4 = (x3 OR drop_bit 8 x3) AND 0x0000FFFF0000FFFF"
  define x5 where "x5 = (x4 OR drop_bit 16 x4) AND 0x00000000FFFFFFFF"
  have "bit (0x5555555555555555 :: 64 word) j \<longleftrightarrow> j < 64 \<and> even j" for j
    using group_maskD [OF group_masks(1), of j] by presburger
  then have "bit x0 j \<longleftrightarrow> j < 64 \<and> even j \<and> bit x (j div 2)" for j
    using assms [of j] unfolding x0_def by (auto simp: bit_and_iff)
  then have "grouped 1 (bit x) x0" unfolding grouped_1 by blast
  then have "grouped (2 * 1) (bit x) x1"
    unfolding x1_def using grouped_squash [of 1 "bit x" x0] group_masks(2) by simp
  then have "grouped (2 * 2) (bit x) x2"
    unfolding x2_def using grouped_squash [of 2 "bit x" x1] group_masks(3) by simp
  then have "grouped (2 * 4) (bit x) x3"
    unfolding x3_def using grouped_squash [of 4 "bit x" x2] group_masks(4) by simp
  then have "grouped (2 * 8) (bit x) x4"
    unfolding x4_def using grouped_squash [of 8 "bit x" x3] group_masks(5) by simp
  then have "grouped (2 * 16) (bit x) x5"
    unfolding x5_def using grouped_squash [of 16 "bit x" x4] group_masks(6) by simp
  then have g5: "bit x5 j \<longleftrightarrow> j < 64 \<and> j mod 64 < 32 \<and> bit x (j div 64 * 32 + j mod 64)" for j
    by (simp add: grouped_def)
  have "bit x5 j \<longleftrightarrow> bit x j" if "j < 32" for j
    using that unfolding g5 by simp
  then have "ucast x5 = x"
    by (intro bit_word_eqI) (simp add: bit_ucast_iff)
  moreover have "squash w = x5"
    by (simp only: squash_def Let_def x0_def x1_def x2_def x3_def x4_def x5_def)
  ultimately show ?thesis by simp
qed

lemma bit_interleave64:
  "bit (interleave64 x y) j \<longleftrightarrow> j < 64 \<and> (if even j then bit x (j div 2) else bit y (j div 2))"
  by (cases j) (auto simp: interleave64_def bit_or_iff bit_times_2 bit_spread)

text \<open>
  The Morton interleaving behind GEO scores loses nothing: deinterleaving gives back both 32-bit cell
  indices.
\<close>

lemma deinterleave64_interleave64: "deinterleave64 (interleave64 x y) = (x, y)"
proof -
  have "ucast (squash (interleave64 x y)) = x"
    by (rule ucast_squash) (simp add: bit_interleave64)
  moreover have "ucast (squash (drop_bit 1 (interleave64 x y))) = y"
    by (rule ucast_squash) (auto simp: bit_drop_bit_eq bit_interleave64)
  ultimately show ?thesis by (simp add: deinterleave64_def)
qed

end
