(* ===== verification/ScanRegistry.thy ===== *)
theory ScanRegistry
  imports Prelude
begin

text \<open>
  The SCAN cursor registry (\<^verbatim>\<open>internal/scan/registry.go\<close>): an LRU cache from random non-zero
  64-bit cursors to DynamoDB pagination keys with a capacity and a time to live. A
  \<^verbatim>\<open>*list.Element\<close> is represented by the immutable item it holds (the cursor in it is unique),
  time by an integer number of nanoseconds, and the random source by a stream \<open>rnd\<close> with the
  number of draws made so far.
\<close>

section \<open>State\<close>

record 'k lruItem =
  cursor :: "64 word"
  instID :: bytes
  lastKey :: 'k
  createdAt :: int

record 'k registry =
  reg_instID :: bytes
  capacity :: nat
  ttl :: int
  items :: "64 word \<rightharpoonup> 'k lruItem"
  order :: "'k lruItem list"

definition DefaultCapacity :: nat where "DefaultCapacity = 10000"

text \<open>Ten minutes in nanoseconds.\<close>

definition DefaultTTL :: int where "DefaultTTL = 10 * 60 * 1000000000"

definition newRegistry :: "bytes \<Rightarrow> int \<Rightarrow> int \<Rightarrow> 'k registry" where
  "newRegistry inst cap t =
     \<lparr>reg_instID = inst,
      capacity = (if cap \<le> 0 then DefaultCapacity else nat cap),
      ttl = (if t \<le> 0 then DefaultTTL else t),
      items = Map.empty, order = []\<rparr>"

section \<open>Operations\<close>

definition removeElement :: "'k lruItem \<Rightarrow> 'k registry \<Rightarrow> 'k registry" where
  "removeElement it r = r\<lparr>items := (items r)(cursor it := None), order := remove1 it (order r)\<rparr>"

function evictLoop :: "'k registry \<Rightarrow> 'k registry" where
  "evictLoop r =
     (if length (order r) > capacity r then evictLoop (removeElement (last (order r)) r) else r)"
  by pat_completeness auto
termination
proof (relation "measure (\<lambda>r. length (order r))")
  fix r :: "'a registry"
  assume "length (order r) > capacity r"
  then have "order r \<noteq> []" by auto
  then have "last (order r) \<in> set (order r)" and "0 < length (order r)" by simp_all
  then show "(removeElement (last (order r)) r, r) \<in> measure (\<lambda>r. length (order r))"
    by (simp add: removeElement_def length_remove1)
qed simp

declare evictLoop.simps [simp del]

text \<open>Draws until a non-zero cursor not in use comes; it may draw forever, hence the option.\<close>

partial_function (option) newCursor ::
    "(nat \<Rightarrow> 64 word) \<Rightarrow> nat \<Rightarrow> (64 word \<rightharpoonup> 'k lruItem) \<Rightarrow> (64 word \<times> nat) option" where
  [code]: "newCursor rnd n its =
     (if rnd n = 0 then newCursor rnd (n + 1) its
      else if its (rnd n) \<noteq> None then newCursor rnd (n + 1) its
      else Some (rnd n, n + 1))"

definition Save ::
    "(nat \<Rightarrow> 64 word) \<Rightarrow> nat \<Rightarrow> int \<Rightarrow> 'k \<Rightarrow> 'k registry \<Rightarrow> (64 word \<times> nat \<times> 'k registry) option" where
  "Save rnd n now lek r =
     (case newCursor rnd n (items r) of
        None \<Rightarrow> None
      | Some (c, n') \<Rightarrow>
          (let it = \<lparr>cursor = c, instID = reg_instID r, lastKey = lek, createdAt = now\<rparr> in
           Some (c, n', evictLoop (r\<lparr>items := (items r)(c \<mapsto> it), order := it # order r\<rparr>))))"

definition load :: "int \<Rightarrow> 64 word \<Rightarrow> bytes \<Rightarrow> 'k registry \<Rightarrow> 'k option \<times> 'k registry" where
  "load now c expectInst r =
     (if c = 0 then (None, r)
      else case items r c of
             None \<Rightarrow> (None, r)
           | Some it \<Rightarrow>
               if now - createdAt it \<ge> ttl r then (None, removeElement it r)
               else if instID it \<noteq> expectInst then (None, r)
               else (Some (lastKey it), r\<lparr>order := it # remove1 it (order r)\<rparr>))"

definition Load :: "int \<Rightarrow> 64 word \<Rightarrow> 'k registry \<Rightarrow> 'k option \<times> 'k registry" where
  "Load now c r = load now c (reg_instID r) r"

definition LoadOwned :: "int \<Rightarrow> 64 word \<Rightarrow> bytes \<Rightarrow> 'k registry \<Rightarrow> 'k option \<times> 'k registry" where
  "LoadOwned now c inst r = load now c inst r"

definition Len :: "'k registry \<Rightarrow> nat" where
  "Len r = length (order r)"

section \<open>Invariant\<close>

definition index_of :: "'k lruItem list \<Rightarrow> (64 word \<rightharpoonup> 'k lruItem)" where
  "index_of xs = map_of (map (\<lambda>it. (cursor it, it)) xs)"

text \<open>The map and the recency list describe the same entries, under distinct non-zero cursors.\<close>

definition reg_index :: "'k registry \<Rightarrow> bool" where
  "reg_index r \<longleftrightarrow>
     distinct (map cursor (order r)) \<and> items r = index_of (order r) \<and> 0 \<notin> cursor ` set (order r)"

definition reg_inv :: "'k registry \<Rightarrow> bool" where
  "reg_inv r \<longleftrightarrow> reg_index r \<and> length (order r) \<le> capacity r \<and> 0 < capacity r \<and> 0 < ttl r"

lemma index_of_Cons [simp]: "index_of (it # xs) = (index_of xs)(cursor it \<mapsto> it)"
  by (simp add: index_of_def)

lemma index_of_Nil [simp]: "index_of [] = Map.empty"
  by (simp add: index_of_def)

lemma index_of_None: "index_of xs c = None \<longleftrightarrow> c \<notin> cursor ` set xs"
  by (induction xs) auto

lemma index_of_Some:
  "distinct (map cursor xs) \<Longrightarrow> index_of xs c = Some it \<longleftrightarrow> it \<in> set xs \<and> cursor it = c"
  by (induction xs) (auto simp: index_of_None image_iff)

lemma index_of_remove1:
  "distinct (map cursor xs) \<Longrightarrow> it \<in> set xs \<Longrightarrow>
    index_of (remove1 it xs) = (index_of xs)(cursor it := None)"
proof (induction xs)
  case (Cons x xs)
  show ?case
  proof (cases "x = it")
    case True
    with Cons.prems have "index_of xs (cursor it) = None" by (auto simp: index_of_None)
    with True show ?thesis by (auto simp: fun_eq_iff)
  next
    case False
    with Cons have "cursor x \<noteq> cursor it" by auto
    with Cons False show ?thesis by (auto simp: fun_upd_twist)
  qed
qed simp

lemma distinct_cursor_remove1: "distinct (map cursor xs) \<Longrightarrow> distinct (map cursor (remove1 it xs))"
  by (induction xs) (auto dest: notin_set_remove1 simp: image_iff)

lemma map_cursor_remove1:
  "distinct (map cursor xs) \<Longrightarrow> it \<in> set xs \<Longrightarrow>
    map cursor (remove1 it xs) = filter (\<lambda>x. x \<noteq> cursor it) (map cursor xs)"
  by (induction xs) (auto intro!: filter_True [symmetric])

lemma reg_index_remove:
  "reg_index r \<Longrightarrow> it \<in> set (order r) \<Longrightarrow> reg_index (removeElement it r)"
  by (auto simp: reg_index_def removeElement_def index_of_remove1 distinct_cursor_remove1
      dest: notin_set_remove1) (metis image_eqI notin_set_remove1)

lemma remove1_last: "distinct xs \<Longrightarrow> xs \<noteq> [] \<Longrightarrow> remove1 (last xs) xs = butlast xs"
  by (induction xs) auto

lemma evictLoop_take:
  "reg_index r \<Longrightarrow> reg_index (evictLoop r) \<and> order (evictLoop r) = take (capacity r) (order r) \<and>
     capacity (evictLoop r) = capacity r \<and> ttl (evictLoop r) = ttl r \<and> reg_instID (evictLoop r) = reg_instID r"
proof (induction r rule: evictLoop.induct)
  case (1 r)
  show ?case
  proof (cases "length (order r) > capacity r")
    case True
    define r' where "r' = removeElement (last (order r)) r"
    have ne: "order r \<noteq> []" using True by auto
    have "distinct (order r)" using 1(2) by (simp add: reg_index_def distinct_map)
    then have ord: "order r' = butlast (order r)" using ne by (simp add: r'_def removeElement_def remove1_last)
    have "reg_index r'" unfolding r'_def using 1(2) ne by (intro reg_index_remove) simp_all
    with 1(1) [OF True] have ih: "reg_index (evictLoop r')" "order (evictLoop r') = take (capacity r') (order r')"
      "capacity (evictLoop r') = capacity r'" "ttl (evictLoop r') = ttl r'" "reg_instID (evictLoop r') = reg_instID r'"
      by (simp_all add: r'_def)
    have "evictLoop r = evictLoop r'" using True by (simp add: evictLoop.simps [of r] r'_def)
    moreover have "take (capacity r) (butlast (order r)) = take (capacity r) (order r)"
      using True by (cases "order r" rule: rev_cases) simp_all
    ultimately show ?thesis using ih ord by (simp add: r'_def removeElement_def)
  next
    case False
    with 1(2) show ?thesis by (simp add: evictLoop.simps [of r])
  qed
qed

section \<open>Fresh cursors\<close>

definition fresh_cursor :: "(64 word \<rightharpoonup> 'k lruItem) \<Rightarrow> 64 word \<Rightarrow> bool" where
  "fresh_cursor its c \<longleftrightarrow> c \<noteq> 0 \<and> its c = None"

lemma newCursor_fresh:
  "newCursor rnd n its = Some cn \<Longrightarrow> fresh_cursor its (fst cn)"
proof (erule newCursor.raw_induct [rotated])
  fix f :: "(nat \<Rightarrow> 64 word) \<Rightarrow> nat \<Rightarrow> (64 word \<rightharpoonup> 'a lruItem) \<Rightarrow> (64 word \<times> nat) option"
  fix rnd n its cn
  assume "\<And>rnd n its cn. f rnd n its = Some cn \<Longrightarrow> fresh_cursor its (fst cn)"
    and "(if rnd n = 0 then f rnd (n + 1) its
          else if its (rnd n) \<noteq> None then f rnd (n + 1) its else Some (rnd n, n + 1)) = Some cn"
  then show "fresh_cursor its (fst cn)"
    by (auto simp: fresh_cursor_def split: if_splits)
qed

lemma newCursor_first:
  "\<forall>i < k. \<not> fresh_cursor its (rnd (n + i)) \<Longrightarrow> fresh_cursor its (rnd (n + k)) \<Longrightarrow>
    newCursor rnd n its = Some (rnd (n + k), n + k + 1)"
proof (induction k arbitrary: n)
  case 0
  then show ?case by (subst newCursor.simps) (auto simp: fresh_cursor_def)
next
  case (Suc k)
  have "\<not> fresh_cursor its (rnd n)" using Suc.prems(1) by force
  moreover have "newCursor rnd (n + 1) its = Some (rnd (n + 1 + k), n + 1 + k + 1)"
    using Suc.prems by (intro Suc.IH) (auto dest: spec [of _ "Suc _"])
  ultimately show ?case by (subst newCursor.simps) (auto simp: fresh_cursor_def)
qed

lemma newCursor_returns:
  assumes "\<exists>k \<ge> n. fresh_cursor its (rnd k)"
  shows "\<exists>cn. newCursor rnd n its = Some cn"
proof -
  have ex: "\<exists>i. fresh_cursor its (rnd (n + i))"
    using assms by (metis le_iff_add)
  define k where "k = (LEAST i. fresh_cursor its (rnd (n + i)))"
  have "fresh_cursor its (rnd (n + k))" unfolding k_def using ex by (rule LeastI_ex)
  moreover have "\<forall>i < k. \<not> fresh_cursor its (rnd (n + i))"
    unfolding k_def using not_less_Least by blast
  ultimately show ?thesis using newCursor_first by blast
qed

section \<open>A concrete run\<close>

text \<open>Draws 0, 1, 2, \<open>\<dots>\<close>: the first is rejected.\<close>

definition demo_reg :: "bytes registry" where
  "demo_reg = newRegistry ''i'' 2 10"

definition demo_reg1 :: "bytes registry" where
  "demo_reg1 = \<lparr>reg_instID = ''i'', capacity = 2, ttl = 10,
     items = [1 \<mapsto> \<lparr>cursor = 1, instID = ''i'', lastKey = ''k'', createdAt = 0\<rparr>],
     order = [\<lparr>cursor = 1, instID = ''i'', lastKey = ''k'', createdAt = 0\<rparr>]\<rparr>"

lemma demo_inv: "reg_inv demo_reg"
  unfolding demo_reg_def
  by (simp add: reg_inv_def reg_index_def newRegistry_def)

lemma demo_Save: "Save of_nat 0 0 ''k'' demo_reg = Some (1, 2, demo_reg1)"
  unfolding Save_def demo_reg_def
  by (subst newCursor.simps, subst newCursor.simps)
    (simp add: newRegistry_def evictLoop.simps demo_reg1_def Let_def)

section \<open>Properties\<close>

lemma reg_inv_new: "reg_inv (newRegistry inst cap t)"
  by (simp add: reg_inv_def reg_index_def newRegistry_def DefaultCapacity_def DefaultTTL_def)

lemma Save_cases:
  assumes "reg_inv r" and "Save rnd n now lek r = Some (c, n', r')"
  obtains it where "it = \<lparr>cursor = c, instID = reg_instID r, lastKey = lek, createdAt = now\<rparr>"
    and "fresh_cursor (items r) c" and "order r' = take (capacity r) (it # order r)"
    and "reg_inv r'" and "ttl r' = ttl r" and "reg_instID r' = reg_instID r" and "capacity r' = capacity r"
proof -
  define it where "it = \<lparr>cursor = c, instID = reg_instID r, lastKey = lek, createdAt = now\<rparr>"
  define s where "s = r\<lparr>items := (items r)(c \<mapsto> it), order := it # order r\<rparr>"
  have "newCursor rnd n (items r) = Some (c, n')" and r': "r' = evictLoop s"
    using assms(2) by (auto simp: Save_def s_def it_def Let_def split: option.splits)
  then have fresh: "fresh_cursor (items r) c" using newCursor_fresh by fastforce
  with assms(1) have "reg_index s"
    by (auto simp: reg_inv_def reg_index_def s_def it_def fresh_cursor_def index_of_None)
  from evictLoop_take [OF this] have "reg_index r'" "order r' = take (capacity r) (it # order r)"
    "capacity r' = capacity r" "ttl r' = ttl r" "reg_instID r' = reg_instID r"
    by (simp_all add: r' s_def)
  then show ?thesis
    using that [OF it_def fresh] assms(1) by (simp add: reg_inv_def)
qed

lemma load_inv: "reg_inv r \<Longrightarrow> reg_inv (snd (load now c inst r))"
proof -
  assume inv: "reg_inv r"
  then have ix: "items r = index_of (order r)" and d: "distinct (map cursor (order r))"
    by (simp_all add: reg_inv_def reg_index_def)
  show ?thesis
  proof (cases "c = 0 \<or> items r c = None")
    case True
    then show ?thesis using inv by (auto simp: load_def)
  next
    case False
    then obtain it where it: "items r c = Some it" "c \<noteq> 0" by auto
    then have mem: "it \<in> set (order r)" "cursor it = c" using d ix by (auto simp: index_of_Some)
    have rm: "reg_inv (removeElement it r)"
      using inv reg_index_remove mem by (auto simp: reg_inv_def removeElement_def length_remove1)
    have "cursor it \<notin> cursor ` set (remove1 it (order r))"
      using index_of_remove1 [OF d mem(1)] by (metis fun_upd_same index_of_None)
    moreover have "(index_of (order r))(cursor it := None, cursor it \<mapsto> it) = index_of (order r)"
      using it mem ix by (auto simp: fun_eq_iff)
    ultimately have "reg_inv (r\<lparr>order := it # remove1 it (order r)\<rparr>)"
      using inv rm mem it d ix
      by (auto simp: reg_inv_def reg_index_def removeElement_def index_of_remove1 length_remove1)
    then show ?thesis using it inv rm by (simp add: load_def)
  qed
qed

text \<open>
  C5: from a new registry on, \<open>Save\<close> and \<open>load\<close> keep the cursor map and the recency list consistent, the
  cursors distinct and non-zero, and the number of cursors within the capacity.
\<close>

theorem registry_invariant:
  "reg_inv (newRegistry inst cap t) \<and>
   (\<forall>rnd n now lek c n' r'. reg_inv r \<longrightarrow> Save rnd n now lek r = Some (c, n', r') \<longrightarrow> reg_inv r') \<and>
   (\<forall>now c i. reg_inv r \<longrightarrow> reg_inv (snd (load now c i r)))"
  using reg_inv_new load_inv Save_cases by metis

theorem registry_invariant_witness: "reg_inv demo_reg \<and> reg_inv demo_reg1"
  using registry_invariant [of "''i''" 2 10 demo_reg] demo_Save unfolding demo_reg_def by blast

text \<open>
  C7: \<open>Save\<close> always returns when the random source eventually draws a cursor that is non-zero and not in
  use, and the cursor it hands out is such a one.
\<close>

theorem Save_returns_fresh:
  assumes "reg_inv r" and "\<exists>k \<ge> n. fresh_cursor (items r) (rnd k)"
  shows "\<exists>c n' r'. Save rnd n now lek r = Some (c, n', r') \<and> c \<noteq> 0 \<and> items r c = None"
proof -
  obtain c n' where "newCursor rnd n (items r) = Some (c, n')"
    using newCursor_returns [OF assms(2)] by auto
  then show ?thesis
    using newCursor_fresh [of rnd n "items r" "(c, n')"] by (auto simp: Save_def Let_def fresh_cursor_def)
qed

theorem Save_returns_fresh_witness:
  "\<exists>c n' r'. Save of_nat 0 5 ''q'' demo_reg = Some (c, n', r') \<and> c \<noteq> 0 \<and> items demo_reg c = None"
proof (rule Save_returns_fresh)
  show "reg_inv demo_reg" by (rule demo_inv)
  show "\<exists>k \<ge> 0. fresh_cursor (items demo_reg) (of_nat k)"
    by (rule exI [of _ 1]) (simp add: fresh_cursor_def demo_reg_def newRegistry_def)
qed

section \<open>Runs of the registry\<close>

text \<open>
  The mutex of the registry makes its operations one after another. \<open>reg_run\<close> runs a sequence of them
  from draw number \<open>n\<close> of the random source on, and gives the cursors the saves handed out, the number
  of draws made and the registry reached; \<open>Load t c\<close> is \<open>LoadOwned t c (reg_instID r)\<close>.
\<close>

datatype 'k regOp = OpSave int 'k | OpLoad int "64 word" | OpLoadOwned int "64 word" bytes

primrec op_time :: "'k regOp \<Rightarrow> int" where
  "op_time (OpSave t lek) = t"
| "op_time (OpLoad t c) = t"
| "op_time (OpLoadOwned t c inst) = t"

fun op_loads :: "'k regOp list \<Rightarrow> 64 word set" where
  "op_loads [] = {}"
| "op_loads (OpSave t lek # ops) = op_loads ops"
| "op_loads (OpLoad t c # ops) = insert c (op_loads ops)"
| "op_loads (OpLoadOwned t c inst # ops) = insert c (op_loads ops)"

fun reg_run :: "(nat \<Rightarrow> 64 word) \<Rightarrow> nat \<Rightarrow> 'k regOp list \<Rightarrow> 'k registry \<Rightarrow>
    (64 word list \<times> nat \<times> 'k registry) option" where
  "reg_run rnd n [] r = Some ([], n, r)"
| "reg_run rnd n (OpSave t lek # ops) r =
     (case Save rnd n t lek r of
        None \<Rightarrow> None
      | Some (c, n', r') \<Rightarrow> map_option (\<lambda>(cs, z). (c # cs, z)) (reg_run rnd n' ops r'))"
| "reg_run rnd n (OpLoad t c # ops) r = reg_run rnd n ops (snd (Load t c r))"
| "reg_run rnd n (OpLoadOwned t c inst # ops) r = reg_run rnd n ops (snd (LoadOwned t c inst r))"

lemma finite_op_loads [simp]: "finite (op_loads ops)"
  by (induction ops rule: op_loads.induct) simp_all

text \<open>The entry is in the registry, and only entries with a cursor of \<open>T\<close> were used after it.\<close>

definition held :: "'k lruItem \<Rightarrow> 64 word set \<Rightarrow> 'k registry \<Rightarrow> bool" where
  "held it T r \<longleftrightarrow> reg_inv r \<and> (\<exists>xs ys. order r = xs @ it # ys \<and> cursor ` set xs \<subseteq> T - {cursor it})"

lemma held_mono: "held it T r \<Longrightarrow> T \<subseteq> T' \<Longrightarrow> held it T' r"
  unfolding held_def by blast

lemma held_item: "held it T r \<Longrightarrow> items r (cursor it) = Some it"
  by (auto simp: held_def reg_inv_def reg_index_def index_of_Some)

lemma held_Save:
  assumes "held it T r" and "Save rnd n t lek r = Some (c, n', r')"
    and "finite T" and "card (insert c T - {cursor it}) < capacity r"
  shows "held it (insert c T) r'"
proof -
  from assms(1) obtain xs ys where inv: "reg_inv r" and o: "order r = xs @ it # ys"
    and T: "cursor ` set xs \<subseteq> T - {cursor it}" by (auto simp: held_def)
  from Save_cases [OF inv assms(2)] obtain new where
    new: "new = \<lparr>cursor = c, instID = reg_instID r, lastKey = lek, createdAt = t\<rparr>"
    and fresh: "fresh_cursor (items r) c" and o': "order r' = take (capacity r) (new # order r)" and inv': "reg_inv r'" .
  have c: "cursor new = c" by (simp add: new)
  have ne: "c \<noteq> cursor it" using fresh held_item [OF assms(1)] by (auto simp: fresh_cursor_def)
  have sub: "cursor ` set (new # xs) \<subseteq> insert c T - {cursor it}" using T c ne by auto
  have notin: "c \<notin> cursor ` set xs"
    using fresh inv o by (auto simp: fresh_cursor_def reg_inv_def reg_index_def index_of_None)
  have "distinct (map cursor (new # xs))"
    using inv o c notin by (auto simp: reg_inv_def reg_index_def)
  then have "length (new # xs) = card (cursor ` set (new # xs))"
    using distinct_card [of "map cursor (new # xs)"] by simp
  also have "\<dots> \<le> card (insert c T - {cursor it})" using sub assms(3) by (intro card_mono) auto
  finally have "length (new # xs) < capacity r" using assms(4) by linarith
  then have "order r' = (new # xs) @ it # take (capacity r - Suc (length (new # xs))) ys"
    using o' o by (cases "capacity r - length (new # xs)") (simp_all add: take_Cons')
  then show ?thesis using inv' sub unfolding held_def by blast
qed

lemma held_load:
  assumes "held it T r" and "t - createdAt it < ttl r"
  shows "held it (insert d T) (snd (load t d inst r))"
proof -
  from assms(1) obtain xs ys where inv: "reg_inv r" and o: "order r = xs @ it # ys"
    and T: "cursor ` set xs \<subseteq> T - {cursor it}" by (auto simp: held_def)
  have inv': "reg_inv (snd (load t d inst r))" using inv by (rule load_inv)
  have dist: "distinct (order r)" using inv by (auto simp: reg_inv_def reg_index_def distinct_map)
  show ?thesis
  proof (cases "items r d")
    case None
    then show ?thesis using assms(1) by (auto simp: load_def intro: held_mono)
  next
    case (Some e)
    then have e: "e \<in> set (order r)" "cursor e = d"
      using inv by (auto simp: reg_inv_def reg_index_def index_of_Some)
    show ?thesis
    proof (cases "d = cursor it")
      case True
      then have "e = it" using held_item [OF assms(1)] Some by simp
      moreover have "order (snd (load t d inst r)) = order r \<or> order (snd (load t d inst r)) = [] @ e # remove1 e (order r)"
        using Some assms(2) \<open>e = it\<close> by (auto simp: load_def)
      moreover have "cursor ` set xs \<subseteq> insert d T - {cursor it}" using T by auto
      moreover have "cursor ` set [] \<subseteq> insert d T - {cursor it}" by simp
      ultimately show ?thesis using inv' o \<open>e = it\<close> unfolding held_def by metis
    next
      case False
      then have ne: "e \<noteq> it" using e by auto
      have rm: "remove1 e (order r) = remove1 e xs @ it # (if e \<in> set xs then ys else remove1 e ys)"
        using o ne by (auto simp: remove1_append remove1_idem)
      have sub: "cursor ` set (remove1 e xs) \<subseteq> insert d T - {cursor it}"
        using T set_remove1_subset [of e xs] by fast
      then have sub': "cursor ` set (e # remove1 e xs) \<subseteq> insert d T - {cursor it}" using e False by auto
      have "order (snd (load t d inst r)) = order r \<or> order (snd (load t d inst r)) = remove1 e (order r) \<or>
          order (snd (load t d inst r)) = e # remove1 e (order r)"
        using Some by (auto simp: load_def removeElement_def)
      moreover have "cursor ` set xs \<subseteq> insert d T - {cursor it}" using T by auto
      moreover have "e # remove1 e (order r) = (e # remove1 e xs) @ it # (if e \<in> set xs then ys else remove1 e ys)"
        by (simp add: rm)
      ultimately obtain xs' ys' where "order (snd (load t d inst r)) = xs' @ it # ys'" "cursor ` set xs' \<subseteq> insert d T - {cursor it}"
        using o rm sub sub' by metis
      then show ?thesis using inv' unfolding held_def by blast
    qed
  qed
qed

lemma load_params [simp]:
  "ttl (snd (load t d inst r)) = ttl r" "capacity (snd (load t d inst r)) = capacity r"
  "reg_instID (snd (load t d inst r)) = reg_instID r"
  by (auto simp: load_def removeElement_def split: option.split)

lemma held_run:
  assumes "held it T r" and "reg_run rnd n ops r = Some (cs, n', r')" and "finite T"
    and "list_all (\<lambda>op. op_time op - createdAt it < ttl r) ops"
    and "card (T \<union> set cs \<union> op_loads ops - {cursor it}) < capacity r"
  shows "held it (T \<union> set cs \<union> op_loads ops) r' \<and> ttl r' = ttl r"
  using assms
proof (induction rnd n ops r arbitrary: T cs rule: reg_run.induct)
  case (2 rnd n t lek ops r)
  from 2(3) obtain c n1 r1 cs' where s: "Save rnd n t lek r = Some (c, n1, r1)"
    and run: "reg_run rnd n1 ops r1 = Some (cs', n', r')" and cs: "cs = c # cs'"
    by (auto split: option.splits prod.splits)
  have inv: "reg_inv r" using 2(2) by (simp add: held_def)
  from Save_cases [OF inv s] have par: "ttl r1 = ttl r" "capacity r1 = capacity r" by auto
  have "card (insert c T - {cursor it}) \<le> card (T \<union> set cs \<union> op_loads (OpSave t lek # ops) - {cursor it})"
    using cs 2(4) by (intro card_mono) auto
  then have "held it (insert c T) r1" using 2(6) by (intro held_Save [OF 2(2) s 2(4)]) linarith
  moreover have "insert c T \<union> set cs' \<union> op_loads ops = T \<union> set cs \<union> op_loads (OpSave t lek # ops)"
    using cs by auto
  ultimately show ?case
    using 2(1) [OF s refl refl _ run, of "insert c T"] 2(4-6) par by simp
next
  case (3 rnd n t c ops r)
  have "held it (insert c T) (snd (Load t c r))" using 3(2,5) by (simp add: Load_def held_load)
  then show ?case
    using 3(1) [of "insert c T" cs] 3(3-6) by (simp add: Load_def)
next
  case (4 rnd n t c inst ops r)
  have "held it (insert c T) (snd (LoadOwned t c inst r))" using 4(2,5) by (simp add: LoadOwned_def held_load)
  then show ?case
    using 4(1) [of "insert c T" cs] 4(3-6) by (simp add: LoadOwned_def)
qed simp

text \<open>Whatever happens, a cursor never stands for anything but an entry made by this instance.\<close>

definition only :: "'k lruItem \<Rightarrow> bool \<Rightarrow> 'k registry \<Rightarrow> bool" where
  "only it again r \<longleftrightarrow> reg_inv r \<and>
     (\<forall>e. items r (cursor it) = Some e \<longrightarrow> instID e = instID it \<and> (again \<or> e = it)) \<and> reg_instID r = instID it"

lemma only_Save:
  assumes "only it again r" and "Save rnd n t lek r = Some (c, n', r')"
  shows "only it (again \<or> c = cursor it) r'"
proof -
  have inv: "reg_inv r" using assms(1) by (simp add: only_def)
  from Save_cases [OF inv assms(2)] obtain new where
    new: "new = \<lparr>cursor = c, instID = reg_instID r, lastKey = lek, createdAt = t\<rparr>"
    and o: "order r' = take (capacity r) (new # order r)" and inv': "reg_inv r'"
    and i: "reg_instID r' = reg_instID r" by metis
  have sub: "set (order r') \<subseteq> insert new (set (order r))"
    using set_take_subset [of "capacity r" "new # order r"] by (simp add: o)
  have old: "e = new \<or> items r (cursor it) = Some e" if "items r' (cursor it) = Some e" for e
  proof -
    have e: "e \<in> set (order r')" "cursor e = cursor it"
      using that inv' by (auto simp: reg_inv_def reg_index_def index_of_Some)
    then have "e = new \<or> e \<in> set (order r)" using sub by blast
    then show ?thesis using e(2) inv by (auto simp: reg_inv_def reg_index_def index_of_Some)
  qed
  have "instID e = instID it \<and> ((again \<or> c = cursor it) \<or> e = it)" if "items r' (cursor it) = Some e" for e
  proof (cases "e = new")
    case True
    have "e \<in> set (order r') \<and> cursor e = cursor it"
      using that inv' by (auto simp: reg_inv_def reg_index_def index_of_Some)
    then show ?thesis using True new assms(1) by (simp add: only_def)
  next
    case False
    then show ?thesis using old [OF that] assms(1) by (auto simp: only_def)
  qed
  then show ?thesis using assms(1) inv' i by (simp add: only_def)
qed

lemma load_items: "items (snd (load t d inst r)) k = Some e \<Longrightarrow> items r k = Some e"
  by (auto simp: load_def removeElement_def split: option.splits if_splits)

lemma only_load: "only it again r \<Longrightarrow> only it again (snd (load t d inst r))"
  unfolding only_def load_params by (blast intro: load_inv dest: load_items)

lemma only_run:
  "only it again r \<Longrightarrow> reg_run rnd n ops r = Some (cs, n', r') \<Longrightarrow> ttl r' = ttl r \<and> only it (again \<or> cursor it \<in> set cs) r'"
proof (induction rnd n ops r arbitrary: again cs rule: reg_run.induct)
  case (2 rnd n t lek ops r)
  from 2(3) obtain c n1 r1 cs' where s: "Save rnd n t lek r = Some (c, n1, r1)"
    and run: "reg_run rnd n1 ops r1 = Some (cs', n', r')" and cs: "cs = c # cs'"
    by (auto split: option.splits prod.splits)
  have "reg_inv r" using 2(2) by (simp add: only_def)
  from Save_cases [OF this s] have "ttl r1 = ttl r" by auto
  moreover have "(again \<or> c = cursor it) \<or> cursor it \<in> set cs' \<longleftrightarrow> again \<or> cursor it \<in> set cs"
    using cs by auto
  ultimately show ?case using 2(1) [OF s refl refl only_Save [OF 2(2) s] run] by simp
next
  case (3 rnd n t c ops r)
  show ?case using 3(1) [of again cs] 3(2,3) by (auto simp: Load_def only_load)
next
  case (4 rnd n t c inst ops r)
  show ?case using 4(1) [of again cs] 4(2,3) by (auto simp: LoadOwned_def only_load)
qed simp

text \<open>
  C6: what becomes of a cursor after \<open>Save\<close>, over any sequence of saves and loads of it or of other
  cursors. As long as its time to live is not over and fewer other cursors than the capacity were saved or
  loaded since (the registry evicts the least recently used), its own instance exchanges it for the
  pagination key it stands for, as often as it likes. When its time to live is over and it was not drawn
  again it is unknown; another instance never gets anything for it; and it never stands for another
  pagination key unless it was handed out again.
\<close>

theorem cursor_lifetime:
  assumes "reg_inv r" and "Save rnd n now lek r = Some (c, n', r1)"
    and "reg_run rnd n' ops r1 = Some (cs, n'', r2)"
  shows "(now' - now < ttl r \<and> inst = reg_instID r \<and> list_all (\<lambda>op. op_time op \<le> now') ops \<and>
      card (set cs \<union> op_loads ops - {c}) < capacity r \<longrightarrow> fst (LoadOwned now' c inst r2) = Some lek) \<and>
    ((now' - now \<ge> ttl r \<and> c \<notin> set cs) \<or> inst \<noteq> reg_instID r \<longrightarrow> fst (LoadOwned now' c inst r2) = None) \<and>
    (c \<notin> set cs \<longrightarrow> fst (LoadOwned now' c inst r2) \<in> {None, Some lek})"
proof -
  from Save_cases [OF assms(1,2)] obtain it where
    it: "it = \<lparr>cursor = c, instID = reg_instID r, lastKey = lek, createdAt = now\<rparr>"
    and fresh: "fresh_cursor (items r) c" and ord: "order r1 = take (capacity r) (it # order r)"
    and inv: "reg_inv r1" and par: "ttl r1 = ttl r" "reg_instID r1 = reg_instID r" "capacity r1 = capacity r" .
  have c0: "c \<noteq> 0" using fresh by (simp add: fresh_cursor_def)
  have "order r1 = [] @ it # take (capacity r - 1) (order r)"
    using ord assms(1) by (simp add: reg_inv_def take_Cons')
  then have held: "held it {} r1" using inv unfolding held_def by fastforce
  have "only it False r1" using inv held_item [OF held] par it by (simp add: only_def)
  from only_run [OF this assms(3)] have on: "only it (c \<in> set cs) r2" "ttl r2 = ttl r"
    using it par by simp_all
  have live: "fst (LoadOwned now' c inst r2) = Some lek"
    if "now' - now < ttl r" "inst = reg_instID r" "list_all (\<lambda>op. op_time op \<le> now') ops"
      "card (set cs \<union> op_loads ops - {c}) < capacity r"
  proof -
    have "list_all (\<lambda>op. op_time op - createdAt it < ttl r1) ops"
      using that(1,3) it par by (auto simp: list_all_iff)
    then have "items r2 c = Some it"
      using held_run [OF held assms(3)] that(4) it par held_item [of it _ r2] by auto
    then show ?thesis using that(1,2) on(2) c0 it by (simp add: LoadOwned_def load_def)
  qed
  moreover have "fst (LoadOwned now' c inst r2) = None"
    if "(now' - now \<ge> ttl r \<and> c \<notin> set cs) \<or> inst \<noteq> reg_instID r"
    using that on it by (auto simp: only_def LoadOwned_def load_def split: option.split)
  moreover have "fst (LoadOwned now' c inst r2) \<in> {None, Some lek}" if "c \<notin> set cs"
    using that on it by (auto simp: only_def LoadOwned_def load_def split: option.split)
  ultimately show ?thesis by blast
qed

theorem cursor_lifetime_witness:
  "fst (LoadOwned 9 1 ''i'' (snd (LoadOwned 3 1 ''i'' demo_reg1))) = Some ''k'' \<and>
   fst (LoadOwned 10 1 ''i'' (snd (LoadOwned 3 1 ''i'' demo_reg1))) = None"
proof -
  have run: "reg_run of_nat 2 [OpLoadOwned 3 1 ''i''] demo_reg1 = Some ([], 2, snd (LoadOwned 3 1 ''i'' demo_reg1))"
    by simp
  show ?thesis
    using cursor_lifetime [OF demo_inv demo_Save run, of 9 "''i''"] cursor_lifetime [OF demo_inv demo_Save run, of 10 "''i''"]
    by (simp add: demo_reg_def newRegistry_def)
qed

text \<open>
  the registry is a least-recently-used cache: saving keeps the most recent entries up to the
  capacity and drops only the least recently used one, and a successful load makes its entry the
  most recent without losing any.
\<close>

lemma registry_lru:
  assumes "reg_inv r"
  shows "(Save rnd n now lek r = Some (c, n', r') \<longrightarrow>
      map cursor (order r') = take (capacity r) (c # map cursor (order r))) \<and>
    (load now d inst r = (Some k, r'') \<longrightarrow>
      map cursor (order r'') = d # filter (\<lambda>x. x \<noteq> d) (map cursor (order r)))"
proof (intro conjI impI)
  assume "Save rnd n now lek r = Some (c, n', r')"
  from Save_cases [OF assms this] show "map cursor (order r') = take (capacity r) (c # map cursor (order r))"
    by (metis (no_types, lifting) list.simps(9) lruItem.select_convs(1) take_map)
next
  assume l: "load now d inst r = (Some k, r'')"
  then obtain it where it: "items r d = Some it" and r'': "r'' = r\<lparr>order := it # remove1 it (order r)\<rparr>"
    by (auto simp: load_def split: if_splits option.splits)
  have d: "distinct (map cursor (order r))" using assms by (simp add: reg_inv_def reg_index_def)
  have mem: "it \<in> set (order r)" "cursor it = d"
    using it assms by (auto simp: reg_inv_def reg_index_def index_of_Some)
  have "map cursor (remove1 it (order r)) = filter (\<lambda>x. x \<noteq> cursor it) (map cursor (order r))"
    using d mem(1) by (rule map_cursor_remove1)
  then show "map cursor (order r'') = d # filter (\<lambda>x. x \<noteq> d) (map cursor (order r))"
    using mem by (simp add: r'')
qed

lemma registry_lru_witness: "map cursor (order demo_reg1) = [1]"
  using registry_lru [OF demo_inv, of of_nat 0 0 "''k''" 1 2 demo_reg1] demo_Save
  by (simp add: demo_reg_def newRegistry_def)

end
