(* ===== verification/Store.thy ===== *)
theory Store
  imports FloatArgs Scores Ranges "HOL-Library.AList"
begin

text \<open>
  The storage seam (\<^verbatim>\<open>internal/storage/store.go\<close>). The \<^verbatim>\<open>Store\<close> interface is a record of operations
  over an arbitrary backend state \<open>'s\<close>; every operation may fail with an error value. \<open>tbl\<close> is
  the abstract content of the DynamoDB table, one meta item and the data members per partition
  key, and the \<open>sp_\<dots>\<close> functions are the contract the interface documents for each operation,
  executable on it. \<open>mem_store\<close> bundles them into a store: the in-memory double of the
  repository's tests (\<^verbatim>\<open>fakeStringStore\<close>), with the documented expire-if-needed semantics.
  The locale \<open>store_contract\<close> says when a store implements the contract.
\<close>

section \<open>Errors, meta items and the interface\<close>

text \<open>
  The sentinel errors of the storage and meta layers; \<open>Backend\<close> is any other error: the AWS SDK's typed
  throttling exception, an API error with its code, or anything else.
\<close>

datatype backend_err = ProvisionedThroughputExceeded | APIError bytes | OtherError bytes

datatype serr =
    StoreWrongType
  | MetaWrongType
  | SizeExceeded
  | Throttled
  | NotInteger
  | NotFloat
  | IncrOverflow
  | IncrNaNOrInfinity
  | ScoreOutOfRange
  | HashNotInteger
  | HashNotFloat
  | RMWMaxRetries
  | HLLWrongType
  | Backend backend_err

text \<open>The raw type string of attribute \<^verbatim>\<open>t\<close>.\<close>

type_synonym keytype = bytes

abbreviation TypeString :: keytype where "TypeString \<equiv> ''str''"
abbreviation TypeHash :: keytype where "TypeHash \<equiv> ''hash''"
abbreviation TypeList :: keytype where "TypeList \<equiv> ''list''"
abbreviation TypeSet :: keytype where "TypeSet \<equiv> ''set''"
abbreviation TypeZSet :: keytype where "TypeZSet \<equiv> ''zset''"

record smeta =
  m_type :: keytype
  m_exp :: int
  m_count :: int

definition MaxRMWRetries :: nat where "MaxRMWRetries = 50"

type_synonym ('s, 'a) op = "'s \<Rightarrow> (serr + 'a) \<times> 's"

text \<open>
  A random choice of members is an argument of the two operations that make one: the number asked
  for (negative: with repeats) and the members to choose from, to the members chosen.
\<close>

type_synonym pick = "int \<Rightarrow> bytes list \<Rightarrow> bytes list"

definition maxSRandRepeats :: nat where "maxSRandRepeats = 1048576"

definition fair_pick :: "pick \<Rightarrow> bool" where
  "fair_pick pick \<longleftrightarrow>
     (\<forall>n xs. distinct xs \<longrightarrow> set (pick n xs) \<subseteq> set xs \<and>
        (if n \<ge> 0 then distinct (pick n xs) \<and> length (pick n xs) = min (nat n) (length xs)
         else length (pick n xs) = (if xs = [] then 0 else min (nat (- n)) maxSRandRepeats)))"

record 's store =
  st_EnsureType :: "bytes \<Rightarrow> keytype \<Rightarrow> int \<Rightarrow> ('s, int) op"
  st_EnsureTypeExpiring :: "bytes \<Rightarrow> keytype \<Rightarrow> int \<Rightarrow> int \<Rightarrow> ('s, int \<times> bool) op"
  st_CreateTypeIfAbsent :: "bytes \<Rightarrow> keytype \<Rightarrow> int \<Rightarrow> int \<Rightarrow> ('s, bool) op"
  st_LoadMeta :: "bytes \<Rightarrow> ('s, smeta option) op"
  st_SetExpire :: "bytes \<Rightarrow> int \<Rightarrow> ('s, bool) op"
  st_Persist :: "bytes \<Rightarrow> ('s, bool) op"
  st_DeleteMeta :: "bytes \<Rightarrow> ('s, bool) op"
  st_DeleteMetaIfEmpty :: "bytes \<Rightarrow> ('s, bool) op"
  st_DeleteMembers :: "bytes \<Rightarrow> ('s, int) op"
  st_GetString :: "bytes \<Rightarrow> ('s, bytes option) op"
  st_MGetStrings :: "bytes list \<Rightarrow> ('s, bytes \<Rightarrow> bytes option) op"
  st_SetString :: "bytes \<Rightarrow> bytes \<Rightarrow> ('s, unit) op"
  st_GetSetString :: "bytes \<Rightarrow> bytes \<Rightarrow> ('s, bytes option) op"
  st_SetStringIfEquals :: "bytes \<Rightarrow> bytes \<Rightarrow> bytes option \<Rightarrow> ('s, bool) op"
  st_IncrBy :: "bytes \<Rightarrow> int \<Rightarrow> ('s, int) op"
  st_LPush :: "bytes \<Rightarrow> bytes list \<Rightarrow> ('s, int) op"
  st_RPush :: "bytes \<Rightarrow> bytes list \<Rightarrow> ('s, int) op"
  st_LPop :: "bytes \<Rightarrow> ('s, bytes option) op"
  st_RPop :: "bytes \<Rightarrow> ('s, bytes option) op"
  st_LRange :: "bytes \<Rightarrow> int \<Rightarrow> int \<Rightarrow> ('s, bytes list) op"
  st_LIndex :: "bytes \<Rightarrow> int \<Rightarrow> ('s, bytes option) op"
  st_LRangeAll :: "bytes \<Rightarrow> ('s, bytes list) op"
  st_LReplaceAll :: "bytes \<Rightarrow> bytes list \<Rightarrow> ('s, int) op"
  st_HSet :: "bytes \<Rightarrow> (bytes \<times> bytes) list \<Rightarrow> ('s, int) op"
  st_HSetNX :: "bytes \<Rightarrow> bytes \<Rightarrow> bytes \<Rightarrow> ('s, bool) op"
  st_HGet :: "bytes \<Rightarrow> bytes \<Rightarrow> ('s, bytes option) op"
  st_HMGet :: "bytes \<Rightarrow> bytes list \<Rightarrow> ('s, bytes \<Rightarrow> bytes option) op"
  st_HGetAll :: "bytes \<Rightarrow> ('s, (bytes \<times> bytes) list) op"
  st_HKeys :: "bytes \<Rightarrow> ('s, bytes list) op"
  st_HVals :: "bytes \<Rightarrow> ('s, bytes list) op"
  st_HDel :: "bytes \<Rightarrow> bytes list \<Rightarrow> ('s, int) op"
  st_HExists :: "bytes \<Rightarrow> bytes \<Rightarrow> ('s, bool) op"
  st_HStrlen :: "bytes \<Rightarrow> bytes \<Rightarrow> ('s, int) op"
  st_HIncrBy :: "bytes \<Rightarrow> bytes \<Rightarrow> int \<Rightarrow> ('s, int \<times> bool) op"
  st_SAdd :: "bytes \<Rightarrow> bytes list \<Rightarrow> ('s, int) op"
  st_SRem :: "bytes \<Rightarrow> bytes list \<Rightarrow> ('s, int) op"
  st_SIsMember :: "bytes \<Rightarrow> bytes \<Rightarrow> ('s, bool) op"
  st_SMembers :: "bytes \<Rightarrow> ('s, bytes list) op"
  st_SPop :: "pick \<Rightarrow> bytes \<Rightarrow> int \<Rightarrow> ('s, bytes list) op"
  st_SRandMember :: "pick \<Rightarrow> bytes \<Rightarrow> int \<Rightarrow> ('s, bytes list) op"
  st_IncrByFloat :: "bytes \<Rightarrow> f64 \<Rightarrow> ('s, bytes) op"
  st_HIncrByFloat :: "bytes \<Rightarrow> bytes \<Rightarrow> f64 \<Rightarrow> ('s, bytes \<times> bool) op"
  st_ZAdd :: "bytes \<Rightarrow> zmember list \<Rightarrow> ('s, int) op"
  st_ZRem :: "bytes \<Rightarrow> bytes list \<Rightarrow> ('s, int) op"
  st_ZScore :: "bytes \<Rightarrow> bytes \<Rightarrow> ('s, f64 option) op"
  st_ZIncrBy :: "bytes \<Rightarrow> bytes \<Rightarrow> f64 \<Rightarrow> ('s, f64 \<times> bool) op"
  st_ZRangeByRank :: "bytes \<Rightarrow> int \<Rightarrow> int \<Rightarrow> bool \<Rightarrow> ('s, zmember list) op"
  st_ZRangeByScore :: "bytes \<Rightarrow> ScoreBound \<Rightarrow> ScoreBound \<Rightarrow> bool \<Rightarrow> ('s, zmember list) op"
  st_ZCount :: "bytes \<Rightarrow> ScoreBound \<Rightarrow> ScoreBound \<Rightarrow> ('s, int) op"
  st_ZRank :: "bytes \<Rightarrow> bytes \<Rightarrow> bool \<Rightarrow> ('s, int option) op"
  st_ZRemRangeByRank :: "bytes \<Rightarrow> int \<Rightarrow> int \<Rightarrow> ('s, int) op"
  st_ZRemRangeByScore :: "bytes \<Rightarrow> ScoreBound \<Rightarrow> ScoreBound \<Rightarrow> ('s, int) op"

section \<open>The abstract table\<close>

text \<open>
  Members are kept in the order the backend returns them: the order of a list is its own, that of
  hash fields and set members is unspecified in Redis and merely fixed here. The members of a sorted
  set are kept in score order. The native addition of two Numbers is a component of the table, as it
  rounds to the decimal digits the backend keeps; it may refuse a sum it cannot hold.
\<close>

record tbl =
  t_meta :: "bytes \<Rightarrow> smeta option"
  t_str :: "bytes \<Rightarrow> bytes option"
  t_list :: "bytes \<Rightarrow> bytes list"
  t_hash :: "bytes \<Rightarrow> (bytes \<times> bytes) list"
  t_set :: "bytes \<Rightarrow> bytes list"
  t_zset :: "bytes \<Rightarrow> zitems"
  t_add :: "f64 \<Rightarrow> f64 \<Rightarrow> f64 option"
  t_time :: int

definition empty_tbl :: "int \<Rightarrow> tbl" where
  "empty_tbl now =
     \<lparr>t_meta = Map.empty, t_str = Map.empty, t_list = (\<lambda>_. []), t_hash = (\<lambda>_. []), t_set = (\<lambda>_. []),
      t_zset = (\<lambda>_. zempty), t_add = (\<lambda>x y. Some (fadd x y)), t_time = now\<rparr>"

text \<open>\<^verbatim>\<open>meta.IsExpired\<close>.\<close>

definition IsExpired :: "smeta \<Rightarrow> int \<Rightarrow> bool" where
  "IsExpired m now \<longleftrightarrow> m_exp m > 0 \<and> m_exp m \<le> now"

definition set_meta :: "bytes \<Rightarrow> smeta option \<Rightarrow> tbl \<Rightarrow> tbl" where
  "set_meta pk m t = t\<lparr>t_meta := (t_meta t)(pk := m)\<rparr>"

definition set_str :: "bytes \<Rightarrow> bytes option \<Rightarrow> tbl \<Rightarrow> tbl" where
  "set_str pk v t = t\<lparr>t_str := (t_str t)(pk := v)\<rparr>"

definition set_list :: "bytes \<Rightarrow> bytes list \<Rightarrow> tbl \<Rightarrow> tbl" where
  "set_list pk xs t = t\<lparr>t_list := (t_list t)(pk := xs)\<rparr>"

definition set_hash :: "bytes \<Rightarrow> (bytes \<times> bytes) list \<Rightarrow> tbl \<Rightarrow> tbl" where
  "set_hash pk h t = t\<lparr>t_hash := (t_hash t)(pk := h)\<rparr>"

definition set_set :: "bytes \<Rightarrow> bytes list \<Rightarrow> tbl \<Rightarrow> tbl" where
  "set_set pk xs t = t\<lparr>t_set := (t_set t)(pk := xs)\<rparr>"

definition set_zset :: "bytes \<Rightarrow> zitems \<Rightarrow> tbl \<Rightarrow> tbl" where
  "set_zset pk z t = t\<lparr>t_zset := (t_zset t)(pk := z)\<rparr>"

lemma set_meta_simps [simp]:
  "t_meta (set_meta pk m t) = (t_meta t)(pk := m)" "t_str (set_meta pk m t) = t_str t"
  "t_list (set_meta pk m t) = t_list t" "t_hash (set_meta pk m t) = t_hash t"
  "t_set (set_meta pk m t) = t_set t" "t_time (set_meta pk m t) = t_time t"
  "t_zset (set_meta pk m t) = t_zset t" "t_add (set_meta pk m t) = t_add t"
  by (simp_all add: set_meta_def)

lemma set_str_simps [simp]:
  "t_meta (set_str pk v t) = t_meta t" "t_str (set_str pk v t) = (t_str t)(pk := v)"
  "t_list (set_str pk v t) = t_list t" "t_hash (set_str pk v t) = t_hash t"
  "t_set (set_str pk v t) = t_set t" "t_time (set_str pk v t) = t_time t"
  "t_zset (set_str pk v t) = t_zset t" "t_add (set_str pk v t) = t_add t"
  by (simp_all add: set_str_def)

lemma set_list_simps [simp]:
  "t_meta (set_list pk xs t) = t_meta t" "t_str (set_list pk xs t) = t_str t"
  "t_list (set_list pk xs t) = (t_list t)(pk := xs)" "t_hash (set_list pk xs t) = t_hash t"
  "t_set (set_list pk xs t) = t_set t" "t_time (set_list pk xs t) = t_time t"
  "t_zset (set_list pk xs t) = t_zset t" "t_add (set_list pk xs t) = t_add t"
  by (simp_all add: set_list_def)

lemma set_hash_simps [simp]:
  "t_meta (set_hash pk h t) = t_meta t" "t_str (set_hash pk h t) = t_str t"
  "t_list (set_hash pk h t) = t_list t" "t_hash (set_hash pk h t) = (t_hash t)(pk := h)"
  "t_set (set_hash pk h t) = t_set t" "t_time (set_hash pk h t) = t_time t"
  "t_zset (set_hash pk h t) = t_zset t" "t_add (set_hash pk h t) = t_add t"
  by (simp_all add: set_hash_def)

lemma set_set_simps [simp]:
  "t_meta (set_set pk xs t) = t_meta t" "t_str (set_set pk xs t) = t_str t"
  "t_list (set_set pk xs t) = t_list t" "t_hash (set_set pk xs t) = t_hash t"
  "t_set (set_set pk xs t) = (t_set t)(pk := xs)" "t_time (set_set pk xs t) = t_time t"
  "t_zset (set_set pk xs t) = t_zset t" "t_add (set_set pk xs t) = t_add t"
  by (simp_all add: set_set_def)

lemma set_zset_simps [simp]:
  "t_meta (set_zset pk z t) = t_meta t" "t_str (set_zset pk z t) = t_str t"
  "t_list (set_zset pk z t) = t_list t" "t_hash (set_zset pk z t) = t_hash t"
  "t_set (set_zset pk z t) = t_set t" "t_time (set_zset pk z t) = t_time t"
  "t_zset (set_zset pk z t) = (t_zset t)(pk := z)" "t_add (set_zset pk z t) = t_add t"
  by (simp_all add: set_zset_def)

lemma set_zset_id [simp]: "t_zset t pk = z \<Longrightarrow> set_zset pk z t = t"
  by (auto simp: set_zset_def)

lemma set_set_id [simp]: "t_set t pk = xs \<Longrightarrow> set_set pk xs t = t"
  by (auto simp: set_set_def)

text \<open>Two tables that agree outside some keys.\<close>

definition same_except :: "bytes set \<Rightarrow> tbl \<Rightarrow> tbl \<Rightarrow> bool" where
  "same_except pks t t' \<longleftrightarrow> t_time t' = t_time t \<and> t_add t' = t_add t \<and>
     (\<forall>x. x \<notin> pks \<longrightarrow> t_meta t' x = t_meta t x \<and> t_str t' x = t_str t x \<and> t_list t' x = t_list t x \<and>
        t_hash t' x = t_hash t x \<and> t_set t' x = t_set t x \<and> t_zset t' x = t_zset t x)"

lemma same_except_refl [simp]: "same_except pks t t"
  by (simp add: same_except_def)

lemma same_except_trans:
  "same_except pks t t' \<Longrightarrow> same_except pks' t' t'' \<Longrightarrow> pks \<union> pks' \<subseteq> pks'' \<Longrightarrow> same_except pks'' t t''"
  unfolding same_except_def by (metis UnI1 UnI2 subsetD)

text \<open>The meta item a write command creates.\<close>

abbreviation fresh_meta :: "keytype \<Rightarrow> smeta" where
  "fresh_meta ty \<equiv> \<lparr>m_type = ty, m_exp = 0, m_count = 0\<rparr>"

section \<open>The contract of the meta operations\<close>

definition sp_EnsureType :: "bytes \<Rightarrow> keytype \<Rightarrow> int \<Rightarrow> (tbl, int) op" where
  "sp_EnsureType pk ty d t =
     (case t_meta t pk of
        None \<Rightarrow> (Inr d, set_meta pk (Some \<lparr>m_type = ty, m_exp = 0, m_count = d\<rparr>) t)
      | Some m \<Rightarrow>
          if m_type m \<noteq> ty then (Inl StoreWrongType, t)
          else (Inr (m_count m + d), set_meta pk (Some (m\<lparr>m_count := m_count m + d\<rparr>)) t))"

definition sp_EnsureTypeExpiring :: "bytes \<Rightarrow> keytype \<Rightarrow> int \<Rightarrow> int \<Rightarrow> (tbl, int \<times> bool) op" where
  "sp_EnsureTypeExpiring pk ty d now t =
     (case t_meta t pk of
        None \<Rightarrow> (Inr (d, False), set_meta pk (Some \<lparr>m_type = ty, m_exp = 0, m_count = d\<rparr>) t)
      | Some m \<Rightarrow>
          if IsExpired m now then
            (Inr (d, True), set_meta pk (Some \<lparr>m_type = ty, m_exp = 0, m_count = d\<rparr>) t)
          else if m_type m \<noteq> ty then (Inl StoreWrongType, t)
          else (Inr (m_count m + d, False), set_meta pk (Some (m\<lparr>m_count := m_count m + d\<rparr>)) t))"

definition sp_CreateTypeIfAbsent :: "bytes \<Rightarrow> keytype \<Rightarrow> int \<Rightarrow> int \<Rightarrow> (tbl, bool) op" where
  "sp_CreateTypeIfAbsent pk ty d now t =
     (if (case t_meta t pk of None \<Rightarrow> False | Some m \<Rightarrow> \<not> IsExpired m now) then (Inr False, t)
      else (Inr True, set_meta pk (Some \<lparr>m_type = ty, m_exp = 0, m_count = d\<rparr>) t))"

definition sp_LoadMeta :: "bytes \<Rightarrow> (tbl, smeta option) op" where
  "sp_LoadMeta pk t = (Inr (t_meta t pk), t)"

definition sp_SetExpire :: "bytes \<Rightarrow> int \<Rightarrow> (tbl, bool) op" where
  "sp_SetExpire pk e t =
     (case t_meta t pk of
        None \<Rightarrow> (Inr False, t)
      | Some m \<Rightarrow> (Inr True, set_meta pk (Some (m\<lparr>m_exp := e\<rparr>)) t))"

definition sp_Persist :: "bytes \<Rightarrow> (tbl, bool) op" where
  "sp_Persist pk t =
     (case t_meta t pk of
        None \<Rightarrow> (Inr False, t)
      | Some m \<Rightarrow> (Inr True, set_meta pk (Some (m\<lparr>m_exp := 0\<rparr>)) t))"

definition sp_DeleteMeta :: "bytes \<Rightarrow> (tbl, bool) op" where
  "sp_DeleteMeta pk t = (Inr (t_meta t pk \<noteq> None), set_meta pk None t)"

definition sp_DeleteMetaIfEmpty :: "bytes \<Rightarrow> (tbl, bool) op" where
  "sp_DeleteMetaIfEmpty pk t =
     (case t_meta t pk of
        None \<Rightarrow> (Inr False, t)
      | Some m \<Rightarrow> if m_count m > 0 then (Inr False, t) else (Inr True, set_meta pk None t))"

definition clear_members :: "bytes \<Rightarrow> tbl \<Rightarrow> tbl" where
  "clear_members pk t = set_str pk None (set_list pk [] (set_hash pk [] (set_set pk [] (set_zset pk zempty t))))"

lemma clear_members_simps [simp]:
  "t_meta (clear_members pk t) = t_meta t" "t_str (clear_members pk t) = (t_str t)(pk := None)"
  "t_list (clear_members pk t) = (t_list t)(pk := [])" "t_hash (clear_members pk t) = (t_hash t)(pk := [])"
  "t_set (clear_members pk t) = (t_set t)(pk := [])" "t_time (clear_members pk t) = t_time t"
  "t_zset (clear_members pk t) = (t_zset t)(pk := zempty)" "t_add (clear_members pk t) = t_add t"
  by (simp_all add: clear_members_def)

definition sp_DeleteMembers :: "bytes \<Rightarrow> (tbl, int) op" where
  "sp_DeleteMembers pk t =
     (Inr ((if t_str t pk = None then 0 else 1) + int (length (t_list t pk)) +
           int (length (t_hash t pk)) + int (length (t_set t pk)) +
           int (length (zlist (t_zset t pk)))), clear_members pk t)"

section \<open>The contract of the String operations\<close>

definition sp_GetString :: "bytes \<Rightarrow> (tbl, bytes option) op" where
  "sp_GetString pk t = (Inr (t_str t pk), t)"

definition sp_MGetStrings :: "bytes list \<Rightarrow> (tbl, bytes \<Rightarrow> bytes option) op" where
  "sp_MGetStrings pks t = (Inr (\<lambda>pk. if pk \<in> set pks then t_str t pk else None), t)"

definition sp_SetString :: "bytes \<Rightarrow> bytes \<Rightarrow> (tbl, unit) op" where
  "sp_SetString pk v t = (Inr (), set_str pk (Some v) t)"

definition sp_GetSetString :: "bytes \<Rightarrow> bytes \<Rightarrow> (tbl, bytes option) op" where
  "sp_GetSetString pk v t = (Inr (t_str t pk), set_str pk (Some v) t)"

text \<open>The expected old value is an option: \<^verbatim>\<open>oldExists\<close> and \<^verbatim>\<open>oldVal\<close> in one.\<close>

definition sp_SetStringIfEquals :: "bytes \<Rightarrow> bytes \<Rightarrow> bytes option \<Rightarrow> (tbl, bool) op" where
  "sp_SetStringIfEquals pk v old t =
     (if t_str t pk = old then (Inr True, set_str pk (Some v) t) else (Inr False, t))"

definition incr_overflows :: "int \<Rightarrow> int \<Rightarrow> bool" where
  "incr_overflows cur delta \<longleftrightarrow>
     (delta > 0 \<and> cur > max_i64 - delta) \<or> (delta < 0 \<and> cur < min_i64 - delta)"

lemma incr_overflows_iff: "i64 cur \<Longrightarrow> i64 d \<Longrightarrow> incr_overflows cur d \<longleftrightarrow> \<not> i64 (cur + d)"
  by (auto simp: incr_overflows_def i64_def)

definition sp_IncrBy :: "bytes \<Rightarrow> int \<Rightarrow> (tbl, int) op" where
  "sp_IncrBy pk delta t =
     (case (case t_str t pk of None \<Rightarrow> Inr 0 | Some v \<Rightarrow> ParseInt v) of
        Inl _ \<Rightarrow> (Inl NotInteger, t)
      | Inr cur \<Rightarrow>
          if incr_overflows cur delta then (Inl IncrOverflow, t)
          else (Inr (cur + delta), set_str pk (Some (fmt_int (cur + delta))) t))"

definition sp_IncrByFloat :: "bytes \<Rightarrow> f64 \<Rightarrow> (tbl, bytes) op" where
  "sp_IncrByFloat pk delta t =
     (case (case t_str t pk of None \<Rightarrow> Some (FZero False) | Some v \<Rightarrow> parseFloatArg v) of
        None \<Rightarrow> (Inl NotFloat, t)
      | Some cur \<Rightarrow>
          let next = fadd cur delta in
          if \<not> finite64 next then (Inl IncrNaNOrInfinity, t)
          else (Inr (formatRedisFloat next), set_str pk (Some (formatRedisFloat next)) t))"

section \<open>The contract of the List operations\<close>

definition sp_LPush :: "bytes \<Rightarrow> bytes list \<Rightarrow> (tbl, int) op" where
  "sp_LPush pk es t = (Inr (int (length es)), set_list pk (rev es @ t_list t pk) t)"

definition sp_RPush :: "bytes \<Rightarrow> bytes list \<Rightarrow> (tbl, int) op" where
  "sp_RPush pk es t = (Inr (int (length es)), set_list pk (t_list t pk @ es) t)"

definition sp_LPop :: "bytes \<Rightarrow> (tbl, bytes option) op" where
  "sp_LPop pk t =
     (case t_list t pk of [] \<Rightarrow> (Inr None, t) | x # xs \<Rightarrow> (Inr (Some x), set_list pk xs t))"

definition sp_RPop :: "bytes \<Rightarrow> (tbl, bytes option) op" where
  "sp_RPop pk t =
     (if t_list t pk = [] then (Inr None, t)
      else (Inr (Some (last (t_list t pk))), set_list pk (butlast (t_list t pk)) t))"

text \<open>The elements with rank from \<open>start\<close> to \<open>stop\<close>, negative ranks counted from the end.\<close>

definition rank_slice :: "'a list \<Rightarrow> int \<Rightarrow> int \<Rightarrow> 'a list" where
  "rank_slice xs start stop =
     (let n = int (length xs);
          lo = max 0 (if start < 0 then start + n else start);
          hi = min (n - 1) (if stop < 0 then stop + n else stop)
      in take (nat (hi + 1 - lo)) (drop (nat lo) xs))"

definition index_at :: "'a list \<Rightarrow> int \<Rightarrow> 'a option" where
  "index_at xs i =
     (let j = (if i < 0 then i + int (length xs) else i) in
      if j < 0 \<or> j \<ge> int (length xs) then None else Some (xs ! nat j))"

definition sp_LRange :: "bytes \<Rightarrow> int \<Rightarrow> int \<Rightarrow> (tbl, bytes list) op" where
  "sp_LRange pk start stop t = (Inr (rank_slice (t_list t pk) start stop), t)"

definition sp_LIndex :: "bytes \<Rightarrow> int \<Rightarrow> (tbl, bytes option) op" where
  "sp_LIndex pk i t = (Inr (index_at (t_list t pk) i), t)"

definition sp_LRangeAll :: "bytes \<Rightarrow> (tbl, bytes list) op" where
  "sp_LRangeAll pk t = (Inr (t_list t pk), t)"

text \<open>The rewrite deletes every member item under the key, then appends the new sequence.\<close>

definition sp_LReplaceAll :: "bytes \<Rightarrow> bytes list \<Rightarrow> (tbl, int) op" where
  "sp_LReplaceAll pk es t = (Inr (int (length es)), set_list pk es (clear_members pk t))"

section \<open>The contract of the Hash operations\<close>

text \<open>A hash is an association list with distinct fields.\<close>

definition hset_all :: "(bytes \<times> bytes) list \<Rightarrow> (bytes \<times> bytes) list \<Rightarrow> (bytes \<times> bytes) list" where
  "hset_all fs h = fold (\<lambda>(f, v). AList.update f v) fs h"

definition hdel_all :: "bytes list \<Rightarrow> (bytes \<times> bytes) list \<Rightarrow> (bytes \<times> bytes) list" where
  "hdel_all fs h = filter (\<lambda>(f, v). f \<notin> set fs) h"

definition sp_HSet :: "bytes \<Rightarrow> (bytes \<times> bytes) list \<Rightarrow> (tbl, int) op" where
  "sp_HSet pk fs t =
     (let h = hset_all fs (t_hash t pk)
      in (Inr (int (length h) - int (length (t_hash t pk))), set_hash pk h t))"

definition sp_HSetNX :: "bytes \<Rightarrow> bytes \<Rightarrow> bytes \<Rightarrow> (tbl, bool) op" where
  "sp_HSetNX pk f v t =
     (if map_of (t_hash t pk) f = None then (Inr True, set_hash pk (AList.update f v (t_hash t pk)) t)
      else (Inr False, t))"

definition sp_HGet :: "bytes \<Rightarrow> bytes \<Rightarrow> (tbl, bytes option) op" where
  "sp_HGet pk f t = (Inr (map_of (t_hash t pk) f), t)"

definition sp_HMGet :: "bytes \<Rightarrow> bytes list \<Rightarrow> (tbl, bytes \<Rightarrow> bytes option) op" where
  "sp_HMGet pk fs t = (Inr (\<lambda>f. if f \<in> set fs then map_of (t_hash t pk) f else None), t)"

definition sp_HGetAll :: "bytes \<Rightarrow> (tbl, (bytes \<times> bytes) list) op" where
  "sp_HGetAll pk t = (Inr (t_hash t pk), t)"

definition sp_HKeys :: "bytes \<Rightarrow> (tbl, bytes list) op" where
  "sp_HKeys pk t = (Inr (map fst (t_hash t pk)), t)"

definition sp_HVals :: "bytes \<Rightarrow> (tbl, bytes list) op" where
  "sp_HVals pk t = (Inr (map snd (t_hash t pk)), t)"

definition sp_HDel :: "bytes \<Rightarrow> bytes list \<Rightarrow> (tbl, int) op" where
  "sp_HDel pk fs t =
     (let h = hdel_all fs (t_hash t pk)
      in (Inr (int (length (t_hash t pk)) - int (length h)), set_hash pk h t))"

definition sp_HExists :: "bytes \<Rightarrow> bytes \<Rightarrow> (tbl, bool) op" where
  "sp_HExists pk f t = (Inr (map_of (t_hash t pk) f \<noteq> None), t)"

definition sp_HStrlen :: "bytes \<Rightarrow> bytes \<Rightarrow> (tbl, int) op" where
  "sp_HStrlen pk f t =
     (Inr (case map_of (t_hash t pk) f of None \<Rightarrow> 0 | Some v \<Rightarrow> int (length v)), t)"

definition sp_HIncrBy :: "bytes \<Rightarrow> bytes \<Rightarrow> int \<Rightarrow> (tbl, int \<times> bool) op" where
  "sp_HIncrBy pk f delta t =
     (let old = map_of (t_hash t pk) f in
      case (case old of None \<Rightarrow> Inr 0 | Some v \<Rightarrow> ParseInt v) of
        Inl _ \<Rightarrow> (Inl HashNotInteger, t)
      | Inr cur \<Rightarrow>
          if incr_overflows cur delta then (Inl IncrOverflow, t)
          else (Inr (cur + delta, old = None),
                set_hash pk (AList.update f (fmt_int (cur + delta)) (t_hash t pk)) t))"

definition sp_HIncrByFloat :: "bytes \<Rightarrow> bytes \<Rightarrow> f64 \<Rightarrow> (tbl, bytes \<times> bool) op" where
  "sp_HIncrByFloat pk f delta t =
     (let old = map_of (t_hash t pk) f in
      case (case old of None \<Rightarrow> Some (FZero False) | Some v \<Rightarrow> parseFloatArg v) of
        None \<Rightarrow> (Inl HashNotFloat, t)
      | Some cur \<Rightarrow>
          let out = formatRedisFloat (fadd cur delta) in
          (Inr (out, old = None), set_hash pk (AList.update f out (t_hash t pk)) t))"

text \<open>
  What the comment of the seam asks for: a result that is not finite is refused. The comments of the
  store and of the handler ask for \<open>sp_HIncrByFloat\<close>, which stores its text; a store may do either.
\<close>

definition sp_HIncrByFloat_checked :: "bytes \<Rightarrow> bytes \<Rightarrow> f64 \<Rightarrow> (tbl, bytes \<times> bool) op" where
  "sp_HIncrByFloat_checked pk f delta t =
     (case (case map_of (t_hash t pk) f of None \<Rightarrow> Some (FZero False) | Some v \<Rightarrow> parseFloatArg v) of
        None \<Rightarrow> (Inl HashNotFloat, t)
      | Some cur \<Rightarrow>
          if \<not> finite64 (fadd cur delta) then (Inl IncrNaNOrInfinity, t) else sp_HIncrByFloat pk f delta t)"

section \<open>The contract of the Set operations\<close>

definition sadd_all :: "bytes list \<Rightarrow> bytes list \<Rightarrow> bytes list" where
  "sadd_all xs s = s @ filter (\<lambda>x. x \<notin> set s) (remdups xs)"

definition sp_SAdd :: "bytes \<Rightarrow> bytes list \<Rightarrow> (tbl, int) op" where
  "sp_SAdd pk xs t =
     (let s = sadd_all xs (t_set t pk)
      in (Inr (int (length s) - int (length (t_set t pk))), set_set pk s t))"

definition sp_SRem :: "bytes \<Rightarrow> bytes list \<Rightarrow> (tbl, int) op" where
  "sp_SRem pk xs t =
     (let s = filter (\<lambda>x. x \<notin> set xs) (t_set t pk)
      in (Inr (int (length (t_set t pk)) - int (length s)), set_set pk s t))"

definition sp_SIsMember :: "bytes \<Rightarrow> bytes \<Rightarrow> (tbl, bool) op" where
  "sp_SIsMember pk x t = (Inr (x \<in> set (t_set t pk)), t)"

definition sp_SMembers :: "bytes \<Rightarrow> (tbl, bytes list) op" where
  "sp_SMembers pk t = (Inr (t_set t pk), t)"

definition sp_SPop :: "pick \<Rightarrow> bytes \<Rightarrow> int \<Rightarrow> (tbl, bytes list) op" where
  "sp_SPop pick pk n t =
     (if n \<le> 0 then (Inr [], t)
      else let xs = pick n (t_set t pk)
           in (Inr xs, set_set pk (filter (\<lambda>x. x \<notin> set xs) (t_set t pk)) t))"

definition sp_SRandMember :: "pick \<Rightarrow> bytes \<Rightarrow> int \<Rightarrow> (tbl, bytes list) op" where
  "sp_SRandMember pick pk n t = (Inr (if t_set t pk = [] then [] else pick n (t_set t pk)), t)"

text \<open>The simplest fair choice: the first members, or the first one repeated.\<close>

definition first_pick :: pick where
  "first_pick n xs =
     (if n \<ge> 0 then take (nat n) xs
      else if xs = [] then [] else replicate (min (nat (- n)) maxSRandRepeats) (hd xs))"

lemma fair_first_pick: "fair_pick first_pick"
  by (auto simp: fair_pick_def first_pick_def dest: in_set_takeD)

lemma fair_pickD:
  assumes "fair_pick pick" and "distinct xs"
  shows "set (pick n xs) \<subseteq> set xs"
    and "n \<ge> 0 \<Longrightarrow> distinct (pick n xs)" "n \<ge> 0 \<Longrightarrow> length (pick n xs) = min (nat n) (length xs)"
    and "n < 0 \<Longrightarrow> length (pick n xs) = (if xs = [] then 0 else min (nat (- n)) maxSRandRepeats)"
  using assms by (auto simp: fair_pick_def)

section \<open>The contract of the Sorted Set operations\<close>

definition sp_ZAdd :: "bytes \<Rightarrow> zmember list \<Rightarrow> (tbl, int) op" where
  "sp_ZAdd pk ms t =
     (let z = zput_all ms (t_zset t pk)
      in (Inr (int (length (zlist z)) - int (length (zlist (t_zset t pk)))), set_zset pk z t))"

definition sp_ZRem :: "bytes \<Rightarrow> bytes list \<Rightarrow> (tbl, int) op" where
  "sp_ZRem pk ms t =
     (let z = zdrop ms (t_zset t pk)
      in (Inr (int (length (zlist (t_zset t pk))) - int (length (zlist z))), set_zset pk z t))"

definition sp_ZScore :: "bytes \<Rightarrow> bytes \<Rightarrow> (tbl, f64 option) op" where
  "sp_ZScore pk m t = (Inr (zscore (t_zset t pk) m), t)"

text \<open>
  The sum in doubles decides whether the sum is in the domain; the score stored is the native one,
  rejected by the backend when it cannot hold it.
\<close>

definition ValidationException :: serr where
  "ValidationException = Backend (APIError ''ValidationException'')"

definition native_incr :: "tbl \<Rightarrow> bytes \<Rightarrow> bytes \<Rightarrow> f64 \<Rightarrow> f64 option" where
  "native_incr t pk m delta = t_add t (case zscore (t_zset t pk) m of None \<Rightarrow> FZero False | Some x \<Rightarrow> x) delta"

definition sp_ZIncrBy :: "bytes \<Rightarrow> bytes \<Rightarrow> f64 \<Rightarrow> (tbl, f64 \<times> bool) op" where
  "sp_ZIncrBy pk m delta t =
     (let old = zscore (t_zset t pk) m in
      if scoreOutOfDomain (case old of None \<Rightarrow> delta | Some x \<Rightarrow> fadd x delta) then (Inl ScoreOutOfRange, t)
      else
        case native_incr t pk m delta of
          None \<Rightarrow> (Inl ValidationException, t)
        | Some new \<Rightarrow> (Inr (new, old = None), set_zset pk (zput m new (t_zset t pk)) t))"

definition zrange_rank :: "zitems \<Rightarrow> int \<Rightarrow> int \<Rightarrow> bool \<Rightarrow> zmember list" where
  "zrange_rank z start stop desc = rank_range (if desc then rev (zlist z) else zlist z) start stop"

definition zrange_score :: "zitems \<Rightarrow> ScoreBound \<Rightarrow> ScoreBound \<Rightarrow> zmember list" where
  "zrange_score z mn mx = filter (\<lambda>p. ZScoreInRange (snd p) mn mx) (zlist z)"

definition sp_ZRangeByRank :: "bytes \<Rightarrow> int \<Rightarrow> int \<Rightarrow> bool \<Rightarrow> (tbl, zmember list) op" where
  "sp_ZRangeByRank pk start stop desc t = (Inr (zrange_rank (t_zset t pk) start stop desc), t)"

definition sp_ZRangeByScore :: "bytes \<Rightarrow> ScoreBound \<Rightarrow> ScoreBound \<Rightarrow> bool \<Rightarrow> (tbl, zmember list) op" where
  "sp_ZRangeByScore pk mn mx desc t =
     (Inr (let ms = zrange_score (t_zset t pk) mn mx in if desc then rev ms else ms), t)"

definition sp_ZCount :: "bytes \<Rightarrow> ScoreBound \<Rightarrow> ScoreBound \<Rightarrow> (tbl, int) op" where
  "sp_ZCount pk mn mx t = (Inr (int (length (zrange_score (t_zset t pk) mn mx))), t)"

definition sp_ZRank :: "bytes \<Rightarrow> bytes \<Rightarrow> bool \<Rightarrow> (tbl, int option) op" where
  "sp_ZRank pk m desc t = (Inr (zrank (if desc then rev (zlist (t_zset t pk)) else zlist (t_zset t pk)) m), t)"

definition sp_ZRemRangeByRank :: "bytes \<Rightarrow> int \<Rightarrow> int \<Rightarrow> (tbl, int) op" where
  "sp_ZRemRangeByRank pk start stop t =
     (let victims = zrange_rank (t_zset t pk) start stop False
      in (Inr (int (length victims)), set_zset pk (zdrop (map fst victims) (t_zset t pk)) t))"

definition sp_ZRemRangeByScore :: "bytes \<Rightarrow> ScoreBound \<Rightarrow> ScoreBound \<Rightarrow> (tbl, int) op" where
  "sp_ZRemRangeByScore pk mn mx t =
     (let victims = zrange_score (t_zset t pk) mn mx
      in (Inr (int (length victims)), set_zset pk (zdrop (map fst victims) (t_zset t pk)) t))"

section \<open>The in-memory store and the contract\<close>

definition mem_store :: "tbl store" where
  "mem_store =
     \<lparr>st_EnsureType = sp_EnsureType, st_EnsureTypeExpiring = sp_EnsureTypeExpiring,
      st_CreateTypeIfAbsent = sp_CreateTypeIfAbsent, st_LoadMeta = sp_LoadMeta,
      st_SetExpire = sp_SetExpire, st_Persist = sp_Persist, st_DeleteMeta = sp_DeleteMeta,
      st_DeleteMetaIfEmpty = sp_DeleteMetaIfEmpty, st_DeleteMembers = sp_DeleteMembers,
      st_GetString = sp_GetString, st_MGetStrings = sp_MGetStrings, st_SetString = sp_SetString,
      st_GetSetString = sp_GetSetString, st_SetStringIfEquals = sp_SetStringIfEquals,
      st_IncrBy = sp_IncrBy, st_LPush = sp_LPush, st_RPush = sp_RPush, st_LPop = sp_LPop,
      st_RPop = sp_RPop, st_LRange = sp_LRange, st_LIndex = sp_LIndex,
      st_LRangeAll = sp_LRangeAll, st_LReplaceAll = sp_LReplaceAll, st_HSet = sp_HSet,
      st_HSetNX = sp_HSetNX, st_HGet = sp_HGet, st_HMGet = sp_HMGet, st_HGetAll = sp_HGetAll,
      st_HKeys = sp_HKeys, st_HVals = sp_HVals, st_HDel = sp_HDel, st_HExists = sp_HExists,
      st_HStrlen = sp_HStrlen, st_HIncrBy = sp_HIncrBy, st_SAdd = sp_SAdd, st_SRem = sp_SRem,
      st_SIsMember = sp_SIsMember, st_SMembers = sp_SMembers, st_SPop = sp_SPop,
      st_SRandMember = sp_SRandMember,
      st_IncrByFloat = sp_IncrByFloat, st_HIncrByFloat = sp_HIncrByFloat, st_ZAdd = sp_ZAdd,
      st_ZRem = sp_ZRem, st_ZScore = sp_ZScore, st_ZIncrBy = sp_ZIncrBy,
      st_ZRangeByRank = sp_ZRangeByRank, st_ZRangeByScore = sp_ZRangeByScore, st_ZCount = sp_ZCount,
      st_ZRank = sp_ZRank, st_ZRemRangeByRank = sp_ZRemRangeByRank, st_ZRemRangeByScore = sp_ZRemRangeByScore\<rparr>"

text \<open>The same, with the check on HINCRBYFLOAT.\<close>

definition checked_store :: "tbl store" where
  "checked_store = mem_store\<lparr>st_HIncrByFloat := sp_HIncrByFloat_checked\<rparr>"

lemma mem_store_simps [simp]:
  "st_EnsureType mem_store = sp_EnsureType" "st_EnsureTypeExpiring mem_store = sp_EnsureTypeExpiring"
  "st_CreateTypeIfAbsent mem_store = sp_CreateTypeIfAbsent" "st_LoadMeta mem_store = sp_LoadMeta"
  "st_SetExpire mem_store = sp_SetExpire" "st_Persist mem_store = sp_Persist"
  "st_DeleteMeta mem_store = sp_DeleteMeta" "st_DeleteMetaIfEmpty mem_store = sp_DeleteMetaIfEmpty"
  "st_DeleteMembers mem_store = sp_DeleteMembers" "st_GetString mem_store = sp_GetString"
  "st_MGetStrings mem_store = sp_MGetStrings" "st_SetString mem_store = sp_SetString"
  "st_GetSetString mem_store = sp_GetSetString" "st_SetStringIfEquals mem_store = sp_SetStringIfEquals"
  "st_IncrBy mem_store = sp_IncrBy" "st_LPush mem_store = sp_LPush" "st_RPush mem_store = sp_RPush"
  "st_LPop mem_store = sp_LPop" "st_RPop mem_store = sp_RPop" "st_LRange mem_store = sp_LRange"
  "st_LIndex mem_store = sp_LIndex" "st_LRangeAll mem_store = sp_LRangeAll"
  "st_LReplaceAll mem_store = sp_LReplaceAll" "st_HSet mem_store = sp_HSet"
  "st_HSetNX mem_store = sp_HSetNX" "st_HGet mem_store = sp_HGet" "st_HMGet mem_store = sp_HMGet"
  "st_HGetAll mem_store = sp_HGetAll" "st_HKeys mem_store = sp_HKeys" "st_HVals mem_store = sp_HVals"
  "st_HDel mem_store = sp_HDel" "st_HExists mem_store = sp_HExists" "st_HStrlen mem_store = sp_HStrlen"
  "st_HIncrBy mem_store = sp_HIncrBy" "st_SAdd mem_store = sp_SAdd" "st_SRem mem_store = sp_SRem"
  "st_SIsMember mem_store = sp_SIsMember" "st_SMembers mem_store = sp_SMembers"
  "st_SPop mem_store = sp_SPop" "st_SRandMember mem_store = sp_SRandMember"
  "st_IncrByFloat mem_store = sp_IncrByFloat" "st_HIncrByFloat mem_store = sp_HIncrByFloat"
  "st_ZAdd mem_store = sp_ZAdd" "st_ZRem mem_store = sp_ZRem"
  "st_ZScore mem_store = sp_ZScore" "st_ZIncrBy mem_store = sp_ZIncrBy"
  "st_ZRangeByRank mem_store = sp_ZRangeByRank" "st_ZRangeByScore mem_store = sp_ZRangeByScore"
  "st_ZCount mem_store = sp_ZCount" "st_ZRank mem_store = sp_ZRank"
  "st_ZRemRangeByRank mem_store = sp_ZRemRangeByRank" "st_ZRemRangeByScore mem_store = sp_ZRemRangeByScore"
  by (simp_all add: mem_store_def)

text \<open>
  One operation implements another through a view of its state: same result, and the view of the
  state it leaves is the state the other leaves.
\<close>

definition implements :: "('s \<Rightarrow> 't) \<Rightarrow> ('s \<Rightarrow> 'r \<times> 's) \<Rightarrow> ('t \<Rightarrow> 'r \<times> 't) \<Rightarrow> bool" where
  "implements view f g \<longleftrightarrow> (\<forall>s. fst (f s) = fst (g (view s)) \<and> view (snd (f s)) = snd (g (view s)))"

lemma implements_id [simp]: "implements id f f" "implements (\<lambda>x. x) f f"
  by (simp_all add: implements_def)

text \<open>
  The contract, for operations that run one after another and whose calls of the backend succeed. The
  locale \<open>store_core\<close> leaves out LRANGE with a negative index: whether redimo counts it from the real
  end of the list is said differently by two comments of \<^verbatim>\<open>store_lists.go\<close>. The seam asks for it, so it
  is a law of \<open>store_contract\<close>.
\<close>

locale store_core =
  fixes S :: "'s store" and view :: "'s \<Rightarrow> tbl" and now :: "'s \<Rightarrow> int"
  assumes now: "now s = t_time (view s)"
    and EnsureType: "implements view (st_EnsureType S pk ty d) (sp_EnsureType pk ty d)"
    and EnsureTypeExpiring:
      "implements view (st_EnsureTypeExpiring S pk ty d n) (sp_EnsureTypeExpiring pk ty d n)"
    and CreateTypeIfAbsent:
      "implements view (st_CreateTypeIfAbsent S pk ty d n) (sp_CreateTypeIfAbsent pk ty d n)"
    and LoadMeta: "implements view (st_LoadMeta S pk) (sp_LoadMeta pk)"
    and SetExpire: "implements view (st_SetExpire S pk n) (sp_SetExpire pk n)"
    and Persist: "implements view (st_Persist S pk) (sp_Persist pk)"
    and DeleteMeta: "implements view (st_DeleteMeta S pk) (sp_DeleteMeta pk)"
    and DeleteMetaIfEmpty: "implements view (st_DeleteMetaIfEmpty S pk) (sp_DeleteMetaIfEmpty pk)"
    and DeleteMembers: "implements view (st_DeleteMembers S pk) (sp_DeleteMembers pk)"
    and GetString: "implements view (st_GetString S pk) (sp_GetString pk)"
    and MGetStrings: "implements view (st_MGetStrings S pks) (sp_MGetStrings pks)"
    and SetString: "implements view (st_SetString S pk v) (sp_SetString pk v)"
    and GetSetString: "implements view (st_GetSetString S pk v) (sp_GetSetString pk v)"
    and SetStringIfEquals:
      "implements view (st_SetStringIfEquals S pk v old) (sp_SetStringIfEquals pk v old)"
    and IncrBy: "implements view (st_IncrBy S pk n) (sp_IncrBy pk n)"
    and LPush: "implements view (st_LPush S pk xs) (sp_LPush pk xs)"
    and RPush: "implements view (st_RPush S pk xs) (sp_RPush pk xs)"
    and LPop: "implements view (st_LPop S pk) (sp_LPop pk)"
    and RPop: "implements view (st_RPop S pk) (sp_RPop pk)"
    and LRange_core: "0 \<le> i \<Longrightarrow> 0 \<le> j \<Longrightarrow> implements view (st_LRange S pk i j) (sp_LRange pk i j)"
    and LIndex: "implements view (st_LIndex S pk i) (sp_LIndex pk i)"
    and LRangeAll: "implements view (st_LRangeAll S pk) (sp_LRangeAll pk)"
    and LReplaceAll: "implements view (st_LReplaceAll S pk xs) (sp_LReplaceAll pk xs)"
    and HSet: "implements view (st_HSet S pk fs) (sp_HSet pk fs)"
    and HSetNX: "implements view (st_HSetNX S pk f v) (sp_HSetNX pk f v)"
    and HGet: "implements view (st_HGet S pk f) (sp_HGet pk f)"
    and HMGet: "implements view (st_HMGet S pk xs) (sp_HMGet pk xs)"
    and HGetAll: "implements view (st_HGetAll S pk) (sp_HGetAll pk)"
    and HKeys: "implements view (st_HKeys S pk) (sp_HKeys pk)"
    and HVals: "implements view (st_HVals S pk) (sp_HVals pk)"
    and HDel: "implements view (st_HDel S pk xs) (sp_HDel pk xs)"
    and HExists: "implements view (st_HExists S pk f) (sp_HExists pk f)"
    and HStrlen: "implements view (st_HStrlen S pk f) (sp_HStrlen pk f)"
    and HIncrBy: "implements view (st_HIncrBy S pk f n) (sp_HIncrBy pk f n)"
    and SAdd: "implements view (st_SAdd S pk xs) (sp_SAdd pk xs)"
    and SRem: "implements view (st_SRem S pk xs) (sp_SRem pk xs)"
    and SIsMember: "implements view (st_SIsMember S pk x) (sp_SIsMember pk x)"
    and SMembers: "implements view (st_SMembers S pk) (sp_SMembers pk)"
    and SPop: "fair_pick pick \<Longrightarrow>
      \<exists>pick'. fair_pick pick' \<and> implements view (st_SPop S pick pk n) (sp_SPop pick' pk n)"
    and SRandMember: "implements view (st_SRandMember S pick pk n) (sp_SRandMember pick pk n)"
    and IncrByFloat: "implements view (st_IncrByFloat S pk fl) (sp_IncrByFloat pk fl)"
    and HIncrByFloat: "implements view (st_HIncrByFloat S pk f fl) (sp_HIncrByFloat pk f fl) \<or>
      implements view (st_HIncrByFloat S pk f fl) (sp_HIncrByFloat_checked pk f fl)"
    and ZAdd: "\<forall>p \<in> set ms. storable (snd p) \<Longrightarrow> implements view (st_ZAdd S pk ms) (sp_ZAdd pk ms)"
    and ZRem: "implements view (st_ZRem S pk xs) (sp_ZRem pk xs)"
    and ZScore: "implements view (st_ZScore S pk mem) (sp_ZScore pk mem)"
    and ZIncrBy: "storable fl \<Longrightarrow> implements view (st_ZIncrBy S pk mem fl) (sp_ZIncrBy pk mem fl)"
    and ZRangeByRank: "implements view (st_ZRangeByRank S pk i j desc) (sp_ZRangeByRank pk i j desc)"
    and ZRangeByScore: "implements view (st_ZRangeByScore S pk mn mx desc) (sp_ZRangeByScore pk mn mx desc)"
    and ZCount: "implements view (st_ZCount S pk mn mx) (sp_ZCount pk mn mx)"
    and ZRank: "implements view (st_ZRank S pk mem desc) (sp_ZRank pk mem desc)"
    and ZRemRangeByRank: "implements view (st_ZRemRangeByRank S pk i j) (sp_ZRemRangeByRank pk i j)"
    and ZRemRangeByScore: "implements view (st_ZRemRangeByScore S pk mn mx) (sp_ZRemRangeByScore pk mn mx)"
begin

lemmas core_ops =
  EnsureType EnsureTypeExpiring CreateTypeIfAbsent LoadMeta SetExpire Persist DeleteMeta
  DeleteMetaIfEmpty DeleteMembers GetString MGetStrings SetString GetSetString SetStringIfEquals
  IncrBy LPush RPush LPop RPop LIndex LRangeAll LReplaceAll HSet HSetNX HGet HMGet HGetAll
  HKeys HVals HDel HExists HStrlen HIncrBy SAdd SRem SIsMember SMembers
  SRandMember IncrByFloat ZRem ZScore ZRangeByRank ZRangeByScore ZCount ZRank
  ZRemRangeByRank ZRemRangeByScore

end

locale store_contract = store_core +
  assumes LRange: "implements view (st_LRange S pk i j) (sp_LRange pk i j)"
begin

lemmas ops_implement = core_ops LRange

end

interpretation mem: store_contract mem_store "\<lambda>t. t" t_time
  by unfold_locales auto

end
