(* ===== verification/Runtime.thy ===== *)
theory Runtime
  imports Store
begin

text \<open>
  What command handlers run on: the world (backend state, guard counter, lazy deleter), the size
  guard (\<^verbatim>\<open>internal/guard/size.go\<close>), the MetaStore (\<^verbatim>\<open>internal/meta/meta.go\<close>), the lazy deleter
  (\<^verbatim>\<open>internal/meta/deleter.go\<close>) and the helpers every command family shares
  (\<^verbatim>\<open>internal/command/datacmd.go\<close>, \<^verbatim>\<open>state.go\<close>). A handler is a function from the world to its
  one reply and the new world. \<open>attempt\<close> is the ubiquitous
  \<^verbatim>\<open>if err != nil { r.writeStoreError(c, err); return }\<close>, \<open>bindE\<close> the \<^verbatim>\<open>return err\<close> of helpers.
  \<open>sim\<close> relates a run over any store to the run over the abstract table: handlers written with
  these combinators inherit the contract of the store they run on.
\<close>

section \<open>World and environment\<close>

text \<open>The lazy deleter: its queue (oldest first) and counters.\<close>

record deleter =
  dq :: "bytes list"
  dropped :: nat
  deleted :: int
  failures :: nat
  isLiveErrors :: nat

record 's world =
  backend :: 's
  interceptions :: nat
  del :: deleter

text \<open>How DeleteMeta hands a key over: not at all, inline, or through a queue of given capacity.\<close>

datatype enqueuer = NoEnqueuer | SyncDeleter | AsyncDeleter nat

record config =
  RequirePass :: bytes
  MultiDB :: bool
  cfgDB :: int
  MaxCollectionResult :: int

record 's env =
  e_store :: "'s store"
  e_now :: "'s \<Rightarrow> int"
  e_enq :: enqueuer
  e_cfg :: config

type_synonym ('s, 'a) act = "'s world \<Rightarrow> 'a \<times> 's world"
type_synonym 's handler = "('s, reply) act"

section \<open>Combinators\<close>

definition ret :: "'a \<Rightarrow> ('s, 'a) act" where
  "ret x w = (x, w)"

definition andThen :: "('s, 'a) act \<Rightarrow> ('a \<Rightarrow> ('s, 'b) act) \<Rightarrow> ('s, 'b) act" where
  "andThen m k w = k (fst (m w)) (snd (m w))"

definition bindE :: "('s, serr + 'a) act \<Rightarrow> ('a \<Rightarrow> ('s, serr + 'b) act) \<Rightarrow> ('s, serr + 'b) act" where
  "bindE m k w = (case fst (m w) of Inl e \<Rightarrow> (Inl e, snd (m w)) | Inr v \<Rightarrow> k v (snd (m w)))"

definition withNow :: "'s env \<Rightarrow> (int \<Rightarrow> ('s, 'a) act) \<Rightarrow> ('s, 'a) act" where
  "withNow E k w = k (e_now E (backend w)) w"

text \<open>A store operation acts on the backend state only.\<close>

definition call :: "('s \<Rightarrow> 'a \<times> 's) \<Rightarrow> ('s, 'a) act" where
  "call f w = (fst (f (backend w)), w\<lparr>backend := snd (f (backend w))\<rparr>)"

text \<open>The reply of an error; text of unknown errors never reaches the client.\<close>

definition writeStoreError :: "serr \<Rightarrow> reply" where
  "writeStoreError err = Error
     (case err of
        MetaWrongType \<Rightarrow> ErrWrongType
      | SizeExceeded \<Rightarrow> ErrValueExceedsBackendLimit
      | Throttled \<Rightarrow> ErrBackendThrottled
      | NotInteger \<Rightarrow> ErrNotInteger
      | NotFloat \<Rightarrow> ErrNotValidFloat
      | IncrOverflow \<Rightarrow> ErrIncrDecrOverflow
      | IncrNaNOrInfinity \<Rightarrow> ErrIncrNaNOrInfinity
      | ScoreOutOfRange \<Rightarrow> ErrScoreOutOfRange
      | HashNotInteger \<Rightarrow> ErrHashNotInteger
      | HashNotFloat \<Rightarrow> ErrHashNotFloat
      | RMWMaxRetries \<Rightarrow> ErrRMWMaxRetries
      | StoreWrongType \<Rightarrow> ErrBackendError
      | HLLWrongType \<Rightarrow> ErrBackendError
      | Backend _ \<Rightarrow> ErrBackendError)"

definition attempt :: "('s, serr + 'a) act \<Rightarrow> ('a \<Rightarrow> 's handler) \<Rightarrow> 's handler" where
  "attempt m k w =
     (case fst (m w) of Inl e \<Rightarrow> (writeStoreError e, snd (m w)) | Inr v \<Rightarrow> k v (snd (m w)))"

section \<open>Size guard\<close>

definition MaxNameSize :: nat where "MaxNameSize = 1 * 1024"
definition MaxMemberNameSize :: nat where "MaxMemberNameSize = MaxNameSize - 1"
definition MaxValueSize :: nat where "MaxValueSize = 390 * 1024"

definition nameTooLarge :: "bytes \<Rightarrow> bool" where
  "nameTooLarge name \<longleftrightarrow> length name > MaxNameSize"

definition memberNameTooLarge :: "bytes \<Rightarrow> bool" where
  "memberNameTooLarge name \<longleftrightarrow> length name > MaxMemberNameSize"

definition valueTooLarge :: "bytes \<Rightarrow> bool" where
  "valueTooLarge v \<longleftrightarrow> length v > MaxValueSize"

text \<open>Count one interception and fail, or pass.\<close>

definition intercept :: "bool \<Rightarrow> ('s, serr + unit) act" where
  "intercept bad w =
     (if bad then (Inl SizeExceeded, w\<lparr>interceptions := interceptions w + 1\<rparr>) else (Inr (), w))"

definition CheckKey :: "bytes \<Rightarrow> ('s, serr + unit) act" where
  "CheckKey key = intercept (nameTooLarge key)"

definition CheckMember :: "bytes \<Rightarrow> ('s, serr + unit) act" where
  "CheckMember m = intercept (memberNameTooLarge m)"

definition CheckValue :: "bytes \<Rightarrow> ('s, serr + unit) act" where
  "CheckValue v = intercept (valueTooLarge v)"

definition CheckValueSize :: "int \<Rightarrow> ('s, serr + unit) act" where
  "CheckValueSize n = intercept (n > int MaxValueSize)"

definition write_fits :: "bytes \<Rightarrow> bytes list \<Rightarrow> bytes list \<Rightarrow> bool" where
  "write_fits key members vals \<longleftrightarrow>
     \<not> nameTooLarge key \<and> list_all (\<lambda>m. \<not> memberNameTooLarge m) members \<and>
     list_all (\<lambda>v. \<not> valueTooLarge v) vals"

definition CheckWrite :: "bytes \<Rightarrow> bytes list \<Rightarrow> bytes list \<Rightarrow> ('s, serr + unit) act" where
  "CheckWrite key members vals = intercept (\<not> write_fits key members vals)"

section \<open>The lazy deleter\<close>

definition initDeleter :: deleter where
  "initDeleter = \<lparr>dq = [], dropped = 0, deleted = 0, failures = 0, isLiveErrors = 0\<rparr>"

definition upd_del :: "(deleter \<Rightarrow> deleter) \<Rightarrow> ('s, unit) act" where
  "upd_del f w = ((), w\<lparr>del := f (del w)\<rparr>)"

text \<open>
  Reclaiming one key: skipped when the key has a meta item again; an error of that check is counted
  and does not stop the reclaim.
\<close>

definition process :: "'s env \<Rightarrow> bytes \<Rightarrow> ('s, unit) act" where
  "process E pk =
     andThen (call (st_LoadMeta (e_store E) pk)) (\<lambda>r.
       let reclaim =
         andThen (call (st_DeleteMembers (e_store E) pk)) (\<lambda>q.
           case q of
             Inl _ \<Rightarrow> upd_del (\<lambda>d. d\<lparr>failures := failures d + 1\<rparr>)
           | Inr n \<Rightarrow> upd_del (\<lambda>d. d\<lparr>deleted := deleted d + n\<rparr>))
       in case r of
            Inl _ \<Rightarrow> andThen (upd_del (\<lambda>d. d\<lparr>isLiveErrors := isLiveErrors d + 1\<rparr>)) (\<lambda>_. reclaim)
          | Inr (Some _) \<Rightarrow> ret ()
          | Inr None \<Rightarrow> reclaim)"

definition Enqueue :: "'s env \<Rightarrow> bytes \<Rightarrow> ('s, unit) act" where
  "Enqueue E pk =
     (case e_enq E of
        NoEnqueuer \<Rightarrow> ret ()
      | SyncDeleter \<Rightarrow> process E pk
      | AsyncDeleter cap \<Rightarrow>
          upd_del (\<lambda>d. if length (dq d) < cap then d\<lparr>dq := dq d @ [pk]\<rparr> else d\<lparr>dropped := dropped d + 1\<rparr>))"

text \<open>One turn of the worker: take the oldest key and reclaim it; nothing when the queue is empty.\<close>

definition work :: "'s env \<Rightarrow> ('s, unit) act" where
  "work E w =
     (case dq (del w) of
        [] \<Rightarrow> ((), w)
      | pk # pks \<Rightarrow> process E pk (w\<lparr>del := (del w)\<lparr>dq := pks\<rparr>\<rparr>))"

text \<open>\<^verbatim>\<open>drain\<close>: process until the queue is empty; the fuel is the queue length at the start.\<close>

primrec drain_n :: "nat \<Rightarrow> 's env \<Rightarrow> ('s, unit) act" where
  "drain_n 0 E = ret ()"
| "drain_n (Suc n) E = andThen (work E) (\<lambda>_. drain_n n E)"

definition drain :: "'s env \<Rightarrow> ('s, unit) act" where
  "drain E w = drain_n (length (dq (del w))) E w"

section \<open>MetaStore\<close>

definition toMetaErr :: "serr + 'a \<Rightarrow> serr + 'a" where
  "toMetaErr r = (case r of Inl StoreWrongType \<Rightarrow> Inl MetaWrongType | _ \<Rightarrow> r)"

definition Meta_EnsureType :: "'s env \<Rightarrow> bytes \<Rightarrow> keytype \<Rightarrow> int \<Rightarrow> ('s, serr + int) act" where
  "Meta_EnsureType E pk ty d =
     andThen (call (st_EnsureType (e_store E) pk ty d)) (\<lambda>r. ret (toMetaErr r))"

definition Meta_EnsureTypeExpiring ::
    "'s env \<Rightarrow> bytes \<Rightarrow> keytype \<Rightarrow> int \<Rightarrow> int \<Rightarrow> ('s, serr + int \<times> bool) act" where
  "Meta_EnsureTypeExpiring E pk ty d n =
     andThen (call (st_EnsureTypeExpiring (e_store E) pk ty d n)) (\<lambda>r. ret (toMetaErr r))"

definition Meta_CreateTypeIfAbsent :: "'s env \<Rightarrow> bytes \<Rightarrow> keytype \<Rightarrow> int \<Rightarrow> int \<Rightarrow> ('s, serr + bool) act" where
  "Meta_CreateTypeIfAbsent E pk ty d n = call (st_CreateTypeIfAbsent (e_store E) pk ty d n)"

definition Meta_Load :: "'s env \<Rightarrow> bytes \<Rightarrow> ('s, serr + smeta option) act" where
  "Meta_Load E pk = call (st_LoadMeta (e_store E) pk)"

definition Meta_SetExpire :: "'s env \<Rightarrow> bytes \<Rightarrow> int \<Rightarrow> ('s, serr + bool) act" where
  "Meta_SetExpire E pk e = call (st_SetExpire (e_store E) pk e)"

definition Meta_Persist :: "'s env \<Rightarrow> bytes \<Rightarrow> ('s, serr + bool) act" where
  "Meta_Persist E pk = call (st_Persist (e_store E) pk)"

definition Meta_DeleteMeta :: "'s env \<Rightarrow> bytes \<Rightarrow> ('s, serr + bool) act" where
  "Meta_DeleteMeta E pk =
     bindE (call (st_DeleteMeta (e_store E) pk)) (\<lambda>existed.
       if existed then andThen (Enqueue E pk) (\<lambda>_. ret (Inr existed)) else ret (Inr existed))"

definition Meta_DeleteMetaIfEmpty :: "'s env \<Rightarrow> bytes \<Rightarrow> ('s, serr + bool) act" where
  "Meta_DeleteMetaIfEmpty E pk = call (st_DeleteMetaIfEmpty (e_store E) pk)"

section \<open>Helpers of the command families\<close>

definition encodePK :: "config \<Rightarrow> int \<Rightarrow> bytes \<Rightarrow> bytes" where
  "encodePK cfg db key = (if \<not> MultiDB cfg then key else fmt_int db @ '':'' @ key)"

definition decodePK :: "config \<Rightarrow> int \<Rightarrow> bytes \<Rightarrow> bytes option" where
  "decodePK cfg db pk =
     (if \<not> MultiDB cfg then Some pk
      else let p = fmt_int db @ '':'' in
        if take (length p) pk = p then Some (drop (length p) pk) else None)"

definition keyLive :: "'s env \<Rightarrow> bytes \<Rightarrow> ('s, serr + bool) act" where
  "keyLive E pk =
     bindE (Meta_Load E pk) (\<lambda>mo.
       case mo of
         None \<Rightarrow> ret (Inr False)
       | Some m \<Rightarrow> withNow E (\<lambda>n. ret (Inr (\<not> IsExpired m n))))"

definition resultCapExceeded :: "config \<Rightarrow> int \<Rightarrow> bool" where
  "resultCapExceeded cfg cnt \<longleftrightarrow> MaxCollectionResult cfg > 0 \<and> cnt > MaxCollectionResult cfg"

definition adjustCount :: "'s env \<Rightarrow> bytes \<Rightarrow> keytype \<Rightarrow> int \<Rightarrow> ('s, serr + unit) act" where
  "adjustCount E pk ty delta =
     (if delta = 0 then ret (Inr ())
      else bindE (Meta_EnsureType E pk ty delta) (\<lambda>newCount.
        if delta < 0 \<and> newCount \<le> 0 then bindE (Meta_DeleteMetaIfEmpty E pk) (\<lambda>_. ret (Inr ()))
        else ret (Inr ())))"

definition ensureTypeExpiring :: "'s env \<Rightarrow> bytes \<Rightarrow> keytype \<Rightarrow> ('s, serr + unit) act" where
  "ensureTypeExpiring E pk ty =
     withNow E (\<lambda>n.
       bindE (Meta_EnsureTypeExpiring E pk ty 0 n) (\<lambda>(_, tookOver).
         if tookOver then bindE (call (st_DeleteMembers (e_store E) pk)) (\<lambda>_. ret (Inr ()))
         else ret (Inr ())))"

text \<open>The three outcomes of \<^verbatim>\<open>loadMetaState\<close>: not live, live of another type, live of the wanted type.\<close>

datatype kstate = KeyAbsent | KeyWrong | KeyLive smeta

definition loadMetaState :: "'s env \<Rightarrow> bytes \<Rightarrow> keytype \<Rightarrow> ('s, serr + kstate) act" where
  "loadMetaState E pk want =
     bindE (Meta_Load E pk) (\<lambda>mo.
       case mo of
         None \<Rightarrow> ret (Inr KeyAbsent)
       | Some m \<Rightarrow> withNow E (\<lambda>n.
           ret (Inr (if IsExpired m n then KeyAbsent else if m_type m \<noteq> want then KeyWrong else KeyLive m))))"

text \<open>The common head of the collection reads: an error for a live key of another type.\<close>

definition withKey :: "'s env \<Rightarrow> bytes \<Rightarrow> keytype \<Rightarrow> 's handler \<Rightarrow> (smeta \<Rightarrow> 's handler) \<Rightarrow> 's handler" where
  "withKey E pk want absent live =
     attempt (loadMetaState E pk want) (\<lambda>k.
       case k of KeyWrong \<Rightarrow> ret (Error ErrWrongType) | KeyAbsent \<Rightarrow> absent | KeyLive m \<Rightarrow> live m)"

section \<open>Simulation\<close>

definition wview :: "('s \<Rightarrow> 't) \<Rightarrow> 's world \<Rightarrow> 't world" where
  "wview v w = \<lparr>backend = v (backend w), interceptions = interceptions w, del = del w\<rparr>"

definition sim :: "('s \<Rightarrow> 't) \<Rightarrow> ('s, 'a) act \<Rightarrow> ('t, 'a) act \<Rightarrow> bool" where
  "sim v f g \<longleftrightarrow> (\<forall>w. fst (f w) = fst (g (wview v w)) \<and> wview v (snd (f w)) = snd (g (wview v w)))"

definition abs_env :: "'s env \<Rightarrow> tbl env" where
  "abs_env E = \<lparr>e_store = mem_store, e_now = t_time, e_enq = e_enq E, e_cfg = e_cfg E\<rparr>"

lemma abs_env_simps [simp]:
  "e_store (abs_env E) = mem_store" "e_now (abs_env E) = t_time"
  "e_enq (abs_env E) = e_enq E" "e_cfg (abs_env E) = e_cfg E"
  by (simp_all add: abs_env_def)

lemma wview_simps [simp]:
  "backend (wview v w) = v (backend w)" "interceptions (wview v w) = interceptions w"
  "del (wview v w) = del w"
  by (simp_all add: wview_def)

named_theorems sim_intros \<open>handlers written with the combinators simulate\<close>

lemma sim_ret [sim_intros]: "sim v (ret x) (ret x)"
  by (simp add: sim_def ret_def)

lemma sim_andThen [sim_intros]:
  "sim v m m' \<Longrightarrow> (\<And>a. sim v (k a) (k' a)) \<Longrightarrow> sim v (andThen m k) (andThen m' k')"
  by (simp add: sim_def andThen_def)

lemma sim_bindE [sim_intros]:
  "sim v m m' \<Longrightarrow> (\<And>a. sim v (k a) (k' a)) \<Longrightarrow> sim v (bindE m k) (bindE m' k')"
  by (simp add: sim_def bindE_def split: sum.split)

lemma sim_attempt [sim_intros]:
  "sim v m m' \<Longrightarrow> (\<And>a. sim v (k a) (k' a)) \<Longrightarrow> sim v (attempt m k) (attempt m' k')"
  by (simp add: sim_def attempt_def split: sum.split)

lemma sim_call [sim_intros]: "implements v f g \<Longrightarrow> sim v (call f) (call g)"
  by (simp add: sim_def implements_def call_def wview_def)

lemma sim_intercept [sim_intros]: "sim v (intercept b) (intercept b)"
  by (simp add: sim_def intercept_def wview_def)

lemma sim_upd_del [sim_intros]: "sim v (upd_del f) (upd_del f)"
  by (simp add: sim_def upd_del_def wview_def)

lemma sim_if [sim_intros]: "(b \<Longrightarrow> sim v f f') \<Longrightarrow> (\<not> b \<Longrightarrow> sim v g g') \<Longrightarrow> sim v (if b then f else g) (if b then f' else g')"
  by simp

lemma sim_option [sim_intros]:
  "sim v f f' \<Longrightarrow> (\<And>a. sim v (g a) (g' a)) \<Longrightarrow> sim v (case_option f g x) (case_option f' g' x)"
  by (cases x) simp_all

lemma sim_sum [sim_intros]:
  "(\<And>a. sim v (f a) (f' a)) \<Longrightarrow> (\<And>a. sim v (g a) (g' a)) \<Longrightarrow> sim v (case_sum f g x) (case_sum f' g' x)"
  by (cases x) simp_all

lemma sim_prod [sim_intros]: "(\<And>a b. sim v (f a b) (f' a b)) \<Longrightarrow> sim v (case_prod f x) (case_prod f' x)"
  by (cases x) simp

lemma sim_kstate [sim_intros]:
  "sim v f f' \<Longrightarrow> sim v g g' \<Longrightarrow> (\<And>m. sim v (h m) (h' m)) \<Longrightarrow>
    sim v (case_kstate f g h x) (case_kstate f' g' h' x)"
  by (cases x) simp_all

text \<open>
  An environment whose store and clock keep the contract. Everything proved in it about a helper
  or handler says: what a client sees, and what is left in the table, is what the same code does on
  the abstract table.
\<close>

locale conforming_env = store_contract "e_store E" view "e_now E"
  for E :: "'s env" and view :: "'s \<Rightarrow> tbl"
begin

abbreviation E' :: "tbl env" where "E' \<equiv> abs_env E"

lemmas sim_ops [sim_intros] = ops_implement [THEN sim_call]

lemma sim_withNow [sim_intros]:
  "(\<And>n. sim view (k n) (k' n)) \<Longrightarrow> sim view (withNow E k) (withNow E' k')"
  by (simp add: sim_def withNow_def now)

lemma sim_CheckWrite [sim_intros]: "sim view (CheckWrite k ms vs) (CheckWrite k ms vs)"
  unfolding CheckWrite_def by (rule sim_intercept)

lemma sim_CheckValueSize [sim_intros]: "sim view (CheckValueSize n) (CheckValueSize n)"
  unfolding CheckValueSize_def by (rule sim_intercept)

lemma sim_process [sim_intros]: "sim view (process E pk) (process E' pk)"
  unfolding process_def Let_def abs_env_simps mem_store_simps by (intro sim_intros)

lemma sim_Enqueue [sim_intros]: "sim view (Enqueue E pk) (Enqueue E' pk)"
  by (cases "e_enq E") (simp_all add: Enqueue_def sim_ret sim_process sim_upd_del)

lemma sim_work [sim_intros]: "sim view (work E) (work E')"
proof -
  have "sim view (process E pk) (process E' pk)" for pk by (rule sim_process)
  then show ?thesis by (auto simp: sim_def work_def wview_def split: list.split)
qed

lemma sim_drain [sim_intros]: "sim view (drain E) (drain E')"
proof -
  have "sim view (drain_n n E) (drain_n n E')" for n
    by (induction n) (auto intro: sim_intros)
  then show ?thesis by (auto simp: sim_def drain_def)
qed

lemma sim_Meta [sim_intros]:
  "sim view (Meta_EnsureType E pk ty d) (Meta_EnsureType E' pk ty d)"
  "sim view (Meta_EnsureTypeExpiring E pk ty d n) (Meta_EnsureTypeExpiring E' pk ty d n)"
  "sim view (Meta_CreateTypeIfAbsent E pk ty d n) (Meta_CreateTypeIfAbsent E' pk ty d n)"
  "sim view (Meta_Load E pk) (Meta_Load E' pk)"
  "sim view (Meta_SetExpire E pk n) (Meta_SetExpire E' pk n)"
  "sim view (Meta_Persist E pk) (Meta_Persist E' pk)"
  "sim view (Meta_DeleteMeta E pk) (Meta_DeleteMeta E' pk)"
  "sim view (Meta_DeleteMetaIfEmpty E pk) (Meta_DeleteMetaIfEmpty E' pk)"
  unfolding Meta_EnsureType_def Meta_EnsureTypeExpiring_def Meta_CreateTypeIfAbsent_def Meta_Load_def
    Meta_SetExpire_def Meta_Persist_def Meta_DeleteMeta_def Meta_DeleteMetaIfEmpty_def
    abs_env_simps mem_store_simps
  by (intro sim_intros)+

lemma sim_keyLive [sim_intros]: "sim view (keyLive E pk) (keyLive E' pk)"
  unfolding keyLive_def by (intro sim_intros)

lemma sim_adjustCount [sim_intros]: "sim view (adjustCount E pk ty d) (adjustCount E' pk ty d)"
  unfolding adjustCount_def by (intro sim_intros)

lemma sim_ensureTypeExpiring [sim_intros]:
  "sim view (ensureTypeExpiring E pk ty) (ensureTypeExpiring E' pk ty)"
  unfolding ensureTypeExpiring_def abs_env_simps mem_store_simps by (intro sim_intros)

lemma sim_loadMetaState [sim_intros]: "sim view (loadMetaState E pk ty) (loadMetaState E' pk ty)"
  unfolding loadMetaState_def by (intro sim_intros)

lemma sim_withKey [sim_intros]:
  "sim view f f' \<Longrightarrow> (\<And>m. sim view (g m) (g' m)) \<Longrightarrow> sim view (withKey E pk ty f g) (withKey E' pk ty f' g')"
  unfolding withKey_def by (intro sim_intros)

end

section \<open>Runs over the abstract table\<close>

definition mem_env :: "enqueuer \<Rightarrow> config \<Rightarrow> tbl env" where
  "mem_env q cfg = \<lparr>e_store = mem_store, e_now = t_time, e_enq = q, e_cfg = cfg\<rparr>"

lemma abs_env_mem_env: "abs_env E = mem_env (e_enq E) (e_cfg E)"
  by (simp add: abs_env_def mem_env_def)

lemma mem_env_simps [simp]:
  "e_store (mem_env q cfg) = mem_store" "e_now (mem_env q cfg) = t_time"
  "e_enq (mem_env q cfg) = q" "e_cfg (mem_env q cfg) = cfg"
  by (simp_all add: mem_env_def)

interpretation mem_runtime: conforming_env "mem_env q cfg" "\<lambda>t. t"
  by unfold_locales auto

text \<open>The table of a world changed by a function.\<close>

definition on_tbl :: "(tbl \<Rightarrow> tbl) \<Rightarrow> tbl world \<Rightarrow> tbl world" where
  "on_tbl f w = w\<lparr>backend := f (backend w)\<rparr>"

lemma on_tbl_simps [simp]:
  "backend (on_tbl f w) = f (backend w)" "interceptions (on_tbl f w) = interceptions w"
  "del (on_tbl f w) = del w"
  by (simp_all add: on_tbl_def)

definition live_meta :: "tbl \<Rightarrow> bytes \<Rightarrow> smeta option" where
  "live_meta t pk =
     (case t_meta t pk of None \<Rightarrow> None | Some m \<Rightarrow> if IsExpired m (t_time t) then None else Some m)"

lemma live_meta_Some: "live_meta t pk = Some m \<longleftrightarrow> t_meta t pk = Some m \<and> \<not> IsExpired m (t_time t)"
  by (auto simp: live_meta_def split: option.splits if_splits)

text \<open>A live key of another type than the command works on.\<close>

definition wrong_type :: "tbl \<Rightarrow> bytes \<Rightarrow> keytype \<Rightarrow> bool" where
  "wrong_type t pk ty \<longleftrightarrow> (case live_meta t pk of None \<Rightarrow> False | Some m \<Rightarrow> m_type m \<noteq> ty)"

lemma call_mem: "call f w = (fst (f (backend w)), on_tbl (\<lambda>t. snd (f t)) w)"
  by (simp add: call_def on_tbl_def)

lemma CheckWrite_run:
  "CheckWrite key ms vs w =
    (if write_fits key ms vs then (Inr (), w)
     else (Inl SizeExceeded, w\<lparr>interceptions := interceptions w + 1\<rparr>))"
  by (simp add: CheckWrite_def intercept_def)

lemma keyLive_mem: "keyLive (mem_env q cfg) pk w = (Inr (live_meta (backend w) pk \<noteq> None), w)"
  by (simp add: keyLive_def bindE_def Meta_Load_def call_mem sp_LoadMeta_def on_tbl_def withNow_def ret_def
      live_meta_def split: option.split)

lemma loadMetaState_mem:
  "loadMetaState (mem_env q cfg) pk want w =
    (Inr (case live_meta (backend w) pk of
            None \<Rightarrow> KeyAbsent | Some m \<Rightarrow> if m_type m \<noteq> want then KeyWrong else KeyLive m), w)"
  by (simp add: loadMetaState_def bindE_def Meta_Load_def call_mem sp_LoadMeta_def on_tbl_def withNow_def
      ret_def live_meta_def split: option.split)

text \<open>
  A fresh meta item, or the live one kept; members of an expired key are reclaimed when it is
  taken over.
\<close>

lemma ensureTypeExpiring_mem:
  "ensureTypeExpiring (mem_env q cfg) pk ty w =
    (case t_meta (backend w) pk of
       None \<Rightarrow> (Inr (), on_tbl (set_meta pk (Some \<lparr>m_type = ty, m_exp = 0, m_count = 0\<rparr>)) w)
     | Some m \<Rightarrow>
         if IsExpired m (t_time (backend w)) then
           (Inr (), on_tbl (\<lambda>t. clear_members pk (set_meta pk (Some \<lparr>m_type = ty, m_exp = 0, m_count = 0\<rparr>) t)) w)
         else if m_type m \<noteq> ty then (Inl MetaWrongType, w)
         else (Inr (), on_tbl (set_meta pk (Some m)) w))"
  by (auto simp: ensureTypeExpiring_def withNow_def bindE_def Meta_EnsureTypeExpiring_def andThen_def
      call_mem sp_EnsureTypeExpiring_def sp_DeleteMembers_def on_tbl_def ret_def toMetaErr_def
      split: option.split)

lemma set_meta_id [simp]: "t_meta t pk = m \<Longrightarrow> set_meta pk m t = t"
  by (auto simp: set_meta_def)

text \<open>A record update nested in a world update is one function of the table.\<close>

lemma on_tbl_on_tbl [simp]: "on_tbl f (on_tbl g w) = on_tbl (\<lambda>t. f (g t)) w"
  by (simp add: on_tbl_def)

lemma on_tbl_id [simp]: "on_tbl (\<lambda>t. t) w = w"
  by (simp add: on_tbl_def)

lemma withKey_mem:
  "withKey (mem_env q cfg) pk want f g w =
    (case live_meta (backend w) pk of
       None \<Rightarrow> f w
     | Some m \<Rightarrow> if m_type m \<noteq> want then (Error ErrWrongType, w) else g m w)"
  by (simp add: withKey_def attempt_def loadMetaState_mem ret_def split: option.split)

lemma adjustCount_mem:
  assumes "t_meta (backend w) pk = Some m" and "m_type m = ty"
  shows "adjustCount (mem_env q cfg) pk ty d w =
    (Inr (), if d = 0 then w
       else on_tbl (set_meta pk (if d < 0 \<and> m_count m + d \<le> 0 then None else Some (m\<lparr>m_count := m_count m + d\<rparr>))) w)"
  using assms
  by (auto simp: adjustCount_def bindE_def Meta_EnsureType_def Meta_DeleteMetaIfEmpty_def andThen_def call_mem
      sp_EnsureType_def sp_DeleteMetaIfEmpty_def toMetaErr_def ret_def on_tbl_def set_meta_def)

text \<open>Reclaiming a key over the abstract table: only a key without meta item loses its members.\<close>

definition reclaim :: "bytes \<Rightarrow> tbl \<Rightarrow> tbl" where
  "reclaim pk t = (if t_meta t pk = None then clear_members pk t else t)"

lemma process_mem_backend: "backend (snd (process (mem_env q cfg) pk w)) = reclaim pk (backend w)"
  by (auto simp: process_def andThen_def call_mem sp_LoadMeta_def sp_DeleteMembers_def upd_del_def
      ret_def reclaim_def split: option.split)

lemma process_mem_queue: "dq (del (snd (process (mem_env q cfg) pk w))) = dq (del w)"
  by (auto simp: process_def andThen_def call_mem sp_LoadMeta_def sp_DeleteMembers_def upd_del_def
      ret_def split: option.split)

lemma Enqueue_mem_backend:
  "backend (snd (Enqueue (mem_env q cfg) pk w)) =
    (if q = SyncDeleter then reclaim pk (backend w) else backend w)"
  by (cases q) (simp_all add: Enqueue_def ret_def process_mem_backend upd_del_def)

lemma DeleteMeta_mem:
  "fst (Meta_DeleteMeta (mem_env q cfg) pk w) = Inr (t_meta (backend w) pk \<noteq> None)"
  "backend (snd (Meta_DeleteMeta (mem_env q cfg) pk w)) =
    (let t = set_meta pk None (backend w)
     in if q = SyncDeleter \<and> t_meta (backend w) pk \<noteq> None then clear_members pk t else t)"
  by (auto simp: Meta_DeleteMeta_def bindE_def andThen_def call_mem sp_DeleteMeta_def ret_def
      Enqueue_mem_backend reclaim_def Let_def)

lemma Meta_Load_mem: "Meta_Load (mem_env q cfg) pk w = (Inr (t_meta (backend w) pk), w)"
  by (simp add: Meta_Load_def call_mem sp_LoadMeta_def)

lemma Meta_SetExpire_mem:
  "Meta_SetExpire (mem_env q cfg) pk e w =
    (Inr (t_meta (backend w) pk \<noteq> None),
     on_tbl (\<lambda>t. set_meta pk (map_option (\<lambda>m. m\<lparr>m_exp := e\<rparr>) (t_meta t pk)) t) w)"
  by (auto simp: Meta_SetExpire_def call_mem sp_SetExpire_def on_tbl_def split: option.split)

lemma Meta_Persist_mem:
  "Meta_Persist (mem_env q cfg) pk w =
    (Inr (t_meta (backend w) pk \<noteq> None),
     on_tbl (\<lambda>t. set_meta pk (map_option (\<lambda>m. m\<lparr>m_exp := 0\<rparr>) (t_meta t pk)) t) w)"
  by (auto simp: Meta_Persist_def call_mem sp_Persist_def on_tbl_def split: option.split)

text \<open>
  Applying the worker until the queue is empty reclaims every queued key that has no meta item and
  nothing else.
\<close>

lemma drain_n_mem:
  "length (dq (del w)) = n \<Longrightarrow>
    dq (del (snd (drain_n n (mem_env q cfg) w))) = [] \<and>
    backend (snd (drain_n n (mem_env q cfg) w)) = fold reclaim (dq (del w)) (backend w)"
proof (induction n arbitrary: w)
  case 0
  then show ?case by (simp add: ret_def)
next
  case (Suc n)
  then obtain pk pks where dq: "dq (del w) = pk # pks" by (cases "dq (del w)") auto
  let ?w = "snd (process (mem_env q cfg) pk (w\<lparr>del := (del w)\<lparr>dq := pks\<rparr>\<rparr>))"
  have w: "dq (del ?w) = pks" "backend ?w = reclaim pk (backend w)"
    by (simp_all add: process_mem_queue process_mem_backend)
  then have "length (dq (del ?w)) = n" using Suc.prems dq by simp
  from Suc.IH [OF this] show ?case
    using w by (simp add: andThen_def work_def dq)
qed

lemma fold_reclaim:
  "t_meta (fold reclaim pks t) = t_meta t"
  "t_str (fold reclaim pks t) pk = (if pk \<in> set pks \<and> t_meta t pk = None then None else t_str t pk)"
  "t_list (fold reclaim pks t) pk = (if pk \<in> set pks \<and> t_meta t pk = None then [] else t_list t pk)"
  "t_hash (fold reclaim pks t) pk = (if pk \<in> set pks \<and> t_meta t pk = None then [] else t_hash t pk)"
  "t_set (fold reclaim pks t) pk = (if pk \<in> set pks \<and> t_meta t pk = None then [] else t_set t pk)"
  "t_zset (fold reclaim pks t) pk = (if pk \<in> set pks \<and> t_meta t pk = None then zempty else t_zset t pk)"
  by (induction pks arbitrary: t) (auto simp: reclaim_def)

text \<open>Transfer: an equation about runs over the abstract table is one about the conforming store.\<close>

lemma sim_fst: "sim v f g \<Longrightarrow> fst (f w) = fst (g (wview v w))"
  by (simp add: sim_def)

lemma sim_snd: "sim v f g \<Longrightarrow> wview v (snd (f w)) = snd (g (wview v w))"
  by (simp add: sim_def)

lemma sim_backend: "sim v f g \<Longrightarrow> v (backend (snd (f w))) = backend (snd (g (wview v w)))"
  by (metis sim_snd wview_simps(1))

section \<open>Properties of the runtime\<close>

text \<open>
  C31: the logical databases are isolated: with MultiDB on, two keys share a partition key only if they are
  the same key of the same database, and decoding recovers exactly the keys of its own database.
\<close>

theorem encodePK_isolates:
  assumes "MultiDB cfg"
  shows "(encodePK cfg db k = encodePK cfg db' k' \<longleftrightarrow> db = db' \<and> k = k') \<and>
    decodePK cfg db (encodePK cfg db' k') = (if db = db' then Some k' else None)"
proof -
  have colon: "CHR '':'' \<notin> set (fmt_int n)" for n
    using fmt_nat_digits [of "nat n"] fmt_nat_digits [of "nat (- n)"]
    by (auto simp: fmt_int_def is_digit_def)
  have inj: "fmt_int db @ '':'' @ x = fmt_int db' @ '':'' @ y \<longleftrightarrow> db = db' \<and> x = y" for x y
  proof
    assume eq: "fmt_int db @ '':'' @ x = fmt_int db' @ '':'' @ y"
    have "takeWhile (\<lambda>c. c \<noteq> CHR '':'') (fmt_int n @ '':'' @ z) = fmt_int n" for n z
      using colon [of n] by (subst takeWhile_append2) auto
    then have "fmt_int db = fmt_int db'" using eq by metis
    moreover from this have "x = y" using eq by simp
    ultimately show "db = db' \<and> x = y" by (metis option.inject read_int_fmt_int)
  qed simp
  have dec: "take (length p) s = p \<longleftrightarrow> (\<exists>r. s = p @ r)" for p s :: bytes
    by (metis append_eq_conv_conj append_take_drop_id)
  have "take (length (fmt_int db @ '':'')) (fmt_int db' @ '':'' @ k') = fmt_int db @ '':'' \<longleftrightarrow> db = db'"
    unfolding dec using inj by (metis append.assoc)
  then show ?thesis
    using assms inj by (auto simp: encodePK_def decodePK_def Let_def)
qed

theorem encodePK_isolates_witness:
  "encodePK \<lparr>RequirePass = [], MultiDB = True, cfgDB = 16, MaxCollectionResult = 0\<rparr> 1 ''2:k'' \<noteq>
   encodePK \<lparr>RequirePass = [], MultiDB = True, cfgDB = 16, MaxCollectionResult = 0\<rparr> 12 ''k''"
  by (subst encodePK_isolates [THEN conjunct1]) simp_all

text \<open>
  C27: a drain of the lazy deleter's queue that no command interrupts, with the liveness check in place,
  over a store that keeps the contract (so that no operation fails): the queue is empty afterwards, no
  meta item changed, the members of the queued keys that have no meta item are gone, whatever their
  type, and the members of every other key are untouched; a key deleted and recreated before the
  drain is spared. A command between the check and the removal, and a check that fails, are not
  covered: \<open>recreate_race\<close> of \<open>Workers\<close> shows the first losing data.
\<close>

theorem drain_spares_live_keys:
  assumes "conforming_env E view" and "w' = snd (drain E w)" and "t = view (backend w)" and "t' = view (backend w')"
  shows "dq (del w') = [] \<and> t_meta t' = t_meta t \<and>
    (\<forall>pk. let gone = pk \<in> set (dq (del w)) \<and> t_meta t pk = None in
       t_str t' pk = (if gone then None else t_str t pk) \<and>
       t_list t' pk = (if gone then [] else t_list t pk) \<and>
       t_hash t' pk = (if gone then [] else t_hash t pk) \<and>
       t_set t' pk = (if gone then [] else t_set t pk) \<and>
       t_zset t' pk = (if gone then zempty else t_zset t pk))"
proof -
  note sim = conforming_env.sim_drain [OF assms(1)]
  have "del w' = del (snd (drain (abs_env E) (wview view w)))"
    using sim_snd [OF sim, of w] assms(2) by (metis wview_simps(3))
  moreover have "t' = backend (snd (drain (abs_env E) (wview view w)))"
    using sim_backend [OF sim, of w] assms(2,4) by simp
  ultimately show ?thesis
    using drain_n_mem [of "wview view w" "length (dq (del w))" "e_enq E" "e_cfg E"] assms(3)
    by (simp add: drain_def abs_env_mem_env fold_reclaim Let_def)
qed

text \<open>A world over the in-memory store, for evaluating handlers.\<close>

definition mem_world :: "tbl \<Rightarrow> tbl world" where
  "mem_world t = \<lparr>backend = t, interceptions = 0, del = initDeleter\<rparr>"

definition cfg0 :: config where
  "cfg0 = \<lparr>RequirePass = [], MultiDB = False, cfgDB = 16, MaxCollectionResult = 0\<rparr>"

lemma mem_world_simps [simp]:
  "backend (mem_world t) = t" "interceptions (mem_world t) = 0" "del (mem_world t) = initDeleter"
  by (simp_all add: mem_world_def)

lemma cfg0_simps [simp]: "MultiDB cfg0 = False" "MaxCollectionResult cfg0 = 0" "RequirePass cfg0 = []"
  by (simp_all add: cfg0_def)

lemma conforming_mem: "conforming_env (mem_env q cfg) (\<lambda>t. t)"
  by (rule mem_runtime.conforming_env_axioms)

theorem drain_spares_live_keys_witness:
  "t_str (backend (snd (drain (mem_env (AsyncDeleter 4) cfg0)
      \<lparr>backend = set_str ''gone'' (Some ''x'') (set_str ''back'' (Some ''y'')
          (set_meta ''back'' (Some \<lparr>m_type = TypeString, m_exp = 0, m_count = 0\<rparr>) (empty_tbl 100))),
       interceptions = 0, del = initDeleter\<lparr>dq := [''gone'', ''back'']\<rparr>\<rparr>))) ''back'' = Some ''y''"
  using drain_spares_live_keys [OF conforming_mem refl refl refl, of "AsyncDeleter 4" cfg0
      "\<lparr>backend = set_str ''gone'' (Some ''x'') (set_str ''back'' (Some ''y'')
          (set_meta ''back'' (Some \<lparr>m_type = TypeString, m_exp = 0, m_count = 0\<rparr>) (empty_tbl 100))),
       interceptions = 0, del = initDeleter\<lparr>dq := [''gone'', ''back'']\<rparr>\<rparr>"]
  by (simp add: Let_def)

end
