(* ===== verification/Keys.thy ===== *)
theory Keys
  imports Runtime
begin

text \<open>
  Key management (\<^verbatim>\<open>internal/command/keys.go\<close>): DEL, EXISTS/TOUCH, TYPE, the EXPIRE family,
  TTL/PTTL, PERSIST and the rejected KEYS/RENAME/FLUSH, with the expiry arithmetic shared by SET
  EX/PX, SETEX and PSETEX. Go's \<^verbatim>\<open>int64\<close> arithmetic is written with \<open>wrap64\<close> and its truncating
  division with \<open>tdiv\<close>.
\<close>

section \<open>Expiry arithmetic\<close>

definition tdiv :: "int \<Rightarrow> int \<Rightarrow> int" where
  "tdiv a b = (if a < 0 then - ((- a) div b) else a div b)"

definition msDeadlineToSec :: "int \<Rightarrow> int \<Rightarrow> int" where
  "msDeadlineToSec now deadlineMs =
     (let sec = tdiv deadlineMs 1000 in
      if deadlineMs > wrap64 (now * 1000) \<and> sec \<le> now then wrap64 (now + 1) else sec)"

definition secExpiryEpoch :: "int \<Rightarrow> int \<Rightarrow> int" where
  "secExpiryEpoch now n = (if n > wrap64 (tdiv max_i64 1000 - now) then now else wrap64 (now + n))"

definition msExpiryEpoch :: "int \<Rightarrow> int \<Rightarrow> int" where
  "msExpiryEpoch now n =
     (if n > wrap64 (max_i64 - wrap64 (now * 1000)) then now
      else msDeadlineToSec now (wrap64 (wrap64 (now * 1000) + n)))"

definition expireAtEpoch :: "int \<Rightarrow> int \<Rightarrow> int" where
  "expireAtEpoch now ts = (if ts > tdiv max_i64 1000 then now else ts)"

section \<open>Handlers\<close>

abbreviation errKeysOpsOnly :: bytes where
  "errKeysOpsOnly \<equiv> ''ERR KEYS is disabled on this proxy (operations-only full scan); use SCAN to iterate the keyspace''"
abbreviation errRenameUnsupported :: bytes where
  "errRenameUnsupported \<equiv> ''ERR RENAME/RENAMENX is not supported''"
abbreviation errFlushDisabled :: bytes where
  "errFlushDisabled \<equiv> ''ERR FLUSHALL/FLUSHDB is disabled on this proxy (would wipe the whole DynamoDB table)''"

definition handleKeys :: "'s handler" where
  "handleKeys = ret (Error errKeysOpsOnly)"

definition handleRename :: "'s handler" where
  "handleRename = ret (Error errRenameUnsupported)"

definition handleFlush :: "'s handler" where
  "handleFlush = ret (Error errFlushDisabled)"

text \<open>The loop of DEL: \<open>now\<close> is read once, \<open>n\<close> is the count so far.\<close>

primrec del_loop :: "'s env \<Rightarrow> int \<Rightarrow> int \<Rightarrow> int \<Rightarrow> bytes list \<Rightarrow> 's handler" where
  "del_loop E db now n [] = ret (IntReply n)"
| "del_loop E db now n (key # keys) =
     (let pk = encodePK (e_cfg E) db key in
      attempt (Meta_Load E pk) (\<lambda>mo.
      attempt (Meta_DeleteMeta E pk) (\<lambda>_.
        del_loop E db now
          (if (case mo of None \<Rightarrow> False | Some m \<Rightarrow> \<not> IsExpired m now) then n + 1 else n) keys)))"

definition handleDel :: "'s env \<Rightarrow> int \<Rightarrow> bytes list \<Rightarrow> 's handler" where
  "handleDel E db args = withNow E (\<lambda>now. del_loop E db now 0 (drop 1 args))"

primrec exists_loop :: "'s env \<Rightarrow> int \<Rightarrow> int \<Rightarrow> bytes list \<Rightarrow> 's handler" where
  "exists_loop E db n [] = ret (IntReply n)"
| "exists_loop E db n (key # keys) =
     attempt (keyLive E (encodePK (e_cfg E) db key)) (\<lambda>live.
       exists_loop E db (if live then n + 1 else n) keys)"

definition handleExists :: "'s env \<Rightarrow> int \<Rightarrow> bytes list \<Rightarrow> 's handler" where
  "handleExists E db args = exists_loop E db 0 (drop 1 args)"

definition redisTypeName :: "keytype \<Rightarrow> bytes" where
  "redisTypeName t =
     (if t = TypeString then ''string'' else if t = TypeHash then ''hash''
      else if t = TypeList then ''list'' else if t = TypeSet then ''set''
      else if t = TypeZSet then ''zset'' else ''none'')"

definition handleType :: "'s env \<Rightarrow> int \<Rightarrow> bytes list \<Rightarrow> 's handler" where
  "handleType E db args =
     attempt (Meta_Load E (encodePK (e_cfg E) db (args ! 1))) (\<lambda>mo.
       case mo of
         None \<Rightarrow> ret (SimpleString ''none'')
       | Some m \<Rightarrow> withNow E (\<lambda>now.
           ret (SimpleString (if IsExpired m now then ''none'' else redisTypeName (m_type m)))))"

definition applyExpire :: "'s env \<Rightarrow> int \<Rightarrow> bytes list \<Rightarrow> (int \<Rightarrow> int \<Rightarrow> int) \<Rightarrow> 's handler" where
  "applyExpire E db args resolveExp =
     (case ParseInt (args ! 2) of
        Inl _ \<Rightarrow> ret (Error ErrNotInteger)
      | Inr arg \<Rightarrow>
          (let pk = encodePK (e_cfg E) db (args ! 1) in
           withNow E (\<lambda>now.
           attempt (keyLive E pk) (\<lambda>live.
             if \<not> live then ret (IntReply 0)
             else
               let expEpoch = resolveExp now arg in
               if expEpoch \<le> now then attempt (Meta_DeleteMeta E pk) (\<lambda>_. ret (IntReply 1))
               else attempt (Meta_SetExpire E pk expEpoch) (\<lambda>found.
                      ret (IntReply (if found then 1 else 0)))))))"

definition handleExpire :: "'s env \<Rightarrow> int \<Rightarrow> bytes list \<Rightarrow> 's handler" where
  "handleExpire E db args = applyExpire E db args secExpiryEpoch"

definition handleExpireAt :: "'s env \<Rightarrow> int \<Rightarrow> bytes list \<Rightarrow> 's handler" where
  "handleExpireAt E db args = applyExpire E db args expireAtEpoch"

definition handlePExpire :: "'s env \<Rightarrow> int \<Rightarrow> bytes list \<Rightarrow> 's handler" where
  "handlePExpire E db args = applyExpire E db args msExpiryEpoch"

definition handlePExpireAt :: "'s env \<Rightarrow> int \<Rightarrow> bytes list \<Rightarrow> 's handler" where
  "handlePExpireAt E db args = applyExpire E db args msDeadlineToSec"

definition replyTTL :: "'s env \<Rightarrow> int \<Rightarrow> bytes list \<Rightarrow> bool \<Rightarrow> 's handler" where
  "replyTTL E db args millis =
     withNow E (\<lambda>now.
       attempt (Meta_Load E (encodePK (e_cfg E) db (args ! 1))) (\<lambda>mo.
         ret (IntReply
           (case mo of
              None \<Rightarrow> -2
            | Some m \<Rightarrow>
                if IsExpired m now then -2
                else if m_exp m = 0 then -1
                else let remaining = wrap64 (m_exp m - now) in
                     if millis then wrap64 (remaining * 1000) else remaining))))"

definition handleTTL :: "'s env \<Rightarrow> int \<Rightarrow> bytes list \<Rightarrow> 's handler" where
  "handleTTL E db args = replyTTL E db args False"

definition handlePTTL :: "'s env \<Rightarrow> int \<Rightarrow> bytes list \<Rightarrow> 's handler" where
  "handlePTTL E db args = replyTTL E db args True"

definition handlePersist :: "'s env \<Rightarrow> int \<Rightarrow> bytes list \<Rightarrow> 's handler" where
  "handlePersist E db args =
     (let pk = encodePK (e_cfg E) db (args ! 1) in
      withNow E (\<lambda>now.
      attempt (Meta_Load E pk) (\<lambda>mo.
        case mo of
          None \<Rightarrow> ret (IntReply 0)
        | Some m \<Rightarrow>
            if IsExpired m now \<or> m_exp m = 0 then ret (IntReply 0)
            else attempt (Meta_Persist E pk) (\<lambda>_. ret (IntReply 1)))))"

section \<open>The handlers refine their runs over the abstract table\<close>

context conforming_env begin

lemma sim_del_loop: "sim view (del_loop E db now n keys) (del_loop E' db now n keys)"
  by (induction keys arbitrary: n) (auto simp: Let_def intro!: sim_intros)

lemma sim_exists_loop: "sim view (exists_loop E db n keys) (exists_loop E' db n keys)"
  by (induction keys arbitrary: n) (auto intro!: sim_intros)

lemma sim_applyExpire: "sim view (applyExpire E db args f) (applyExpire E' db args f)"
  unfolding applyExpire_def Let_def abs_env_simps by (intro sim_intros)

lemma sim_replyTTL: "sim view (replyTTL E db args b) (replyTTL E' db args b)"
  unfolding replyTTL_def abs_env_simps by (intro sim_intros)

lemma sim_key_commands [sim_intros]:
  "sim view (handleDel E db args) (handleDel E' db args)"
  "sim view (handleExists E db args) (handleExists E' db args)"
  "sim view (handleType E db args) (handleType E' db args)"
  "sim view (handleExpire E db args) (handleExpire E' db args)"
  "sim view (handleExpireAt E db args) (handleExpireAt E' db args)"
  "sim view (handlePExpire E db args) (handlePExpire E' db args)"
  "sim view (handlePExpireAt E db args) (handlePExpireAt E' db args)"
  "sim view (handleTTL E db args) (handleTTL E' db args)"
  "sim view (handlePTTL E db args) (handlePTTL E' db args)"
  "sim view (handlePersist E db args) (handlePersist E' db args)"
  unfolding handleDel_def handleExists_def handleType_def handleExpire_def handleExpireAt_def
    handlePExpire_def handlePExpireAt_def handleTTL_def handlePTTL_def handlePersist_def Let_def
    abs_env_simps
  by (intro sim_intros sim_del_loop sim_exists_loop sim_applyExpire sim_replyTTL)+

end

section \<open>Expiry arithmetic is exact\<close>

text \<open>A clock whose milliseconds fit 64 bits, and an expiry whose remaining time does.\<close>

definition clock_ok :: "int \<Rightarrow> bool" where
  "clock_ok now \<longleftrightarrow> 0 \<le> now \<and> now \<le> max_i64 div 1000"

definition expiry_ok :: "int \<Rightarrow> int \<Rightarrow> bool" where
  "expiry_ok now e \<longleftrightarrow> i64 e \<and> (now < e \<longrightarrow> i64 ((e - now) * 1000))"

lemma clock_simps:
  assumes "clock_ok now"
  shows "wrap64 (now * 1000) = now * 1000" "wrap64 (now + 1) = now + 1"
    "wrap64 (tdiv max_i64 1000 - now) = max_i64 div 1000 - now"
    "wrap64 (max_i64 - now * 1000) = max_i64 - now * 1000"
  using assms by (simp_all add: clock_ok_def i64_def tdiv_def)

lemma secExpiryEpoch_eq:
  "clock_ok now \<Longrightarrow> i64 n \<Longrightarrow>
    secExpiryEpoch now n = (if n \<le> max_i64 div 1000 - now then now + n else now)"
  unfolding secExpiryEpoch_def clock_simps by (auto simp: clock_ok_def i64_def)

lemma secExpiryEpoch_ok: "clock_ok now \<Longrightarrow> i64 n \<Longrightarrow> expiry_ok now (secExpiryEpoch now n)"
  unfolding secExpiryEpoch_eq by (auto simp: clock_ok_def expiry_ok_def i64_def)

lemma tdiv_1000: "i64 k \<Longrightarrow> i64 (tdiv k 1000) \<and> tdiv k 1000 * 1000 \<le> max_i64"
  unfolding tdiv_def i64_def by (auto intro: order_trans)

lemma msDeadlineToSec_eq:
  "clock_ok now \<Longrightarrow> msDeadlineToSec now k =
    (if k > now * 1000 \<and> tdiv k 1000 \<le> now then now + 1 else tdiv k 1000)"
  unfolding msDeadlineToSec_def Let_def clock_simps by simp

lemma msDeadlineToSec_ok: "clock_ok now \<Longrightarrow> i64 k \<Longrightarrow> expiry_ok now (msDeadlineToSec now k)"
  using tdiv_1000 [of k] unfolding msDeadlineToSec_eq by (auto simp: clock_ok_def expiry_ok_def i64_def)

lemma expireAtEpoch_ok: "clock_ok now \<Longrightarrow> i64 ts \<Longrightarrow> expiry_ok now (expireAtEpoch now ts)"
  by (auto simp: expireAtEpoch_def tdiv_def clock_ok_def expiry_ok_def i64_def)

lemma msExpiryEpoch_deadline:
  assumes "clock_ok now" and "i64 n"
  shows "msExpiryEpoch now n = (if n > max_i64 - now * 1000 then now else msDeadlineToSec now (now * 1000 + n))"
    and "n \<le> max_i64 - now * 1000 \<Longrightarrow> i64 (now * 1000 + n)"
proof -
  show i: "n \<le> max_i64 - now * 1000 \<Longrightarrow> i64 (now * 1000 + n)"
    using assms by (auto simp: clock_ok_def i64_def)
  show "msExpiryEpoch now n = (if n > max_i64 - now * 1000 then now else msDeadlineToSec now (now * 1000 + n))"
    unfolding msExpiryEpoch_def clock_simps [OF assms(1)] using i by simp
qed

lemma msExpiryEpoch_eq:
  assumes "clock_ok now" and "i64 n"
  shows "msExpiryEpoch now n =
    (if n > max_i64 - now * 1000 then now
     else if 0 < n then max (now + 1) (now + n div 1000) else tdiv (now * 1000 + n) 1000)"
proof -
  have "0 < n \<Longrightarrow> tdiv (now * 1000 + n) 1000 = now + n div 1000"
    using assms(1) by (simp add: tdiv_def clock_ok_def)
  then show ?thesis
    unfolding msExpiryEpoch_deadline(1) [OF assms] msDeadlineToSec_eq [OF assms(1)] by (auto simp: max_def)
qed

lemma msExpiryEpoch_ok: "clock_ok now \<Longrightarrow> i64 n \<Longrightarrow> expiry_ok now (msExpiryEpoch now n)"
  using msDeadlineToSec_ok [of now "now * 1000 + n"] msExpiryEpoch_deadline [of now n]
  by (auto simp: expiry_ok_def clock_ok_def i64_def)

text \<open>
  C26: for any 64-bit argument, and any clock value whose milliseconds fit 64 bits, no expiry computation
  wraps: a relative expiry resolves to the requested second (milliseconds rounded down to whole
  seconds, but a positive one never to an instant expiry), an unrepresentable one resolves to
  \<open>now\<close>, and the time that remains until any expiry in the future fits 64 bits, in milliseconds too.
\<close>

theorem expiry_arithmetic:
  assumes "clock_ok now" and "i64 n"
  shows "secExpiryEpoch now n = (if n \<le> max_i64 div 1000 - now then now + n else now) \<and>
    msExpiryEpoch now n =
      (if n > max_i64 - now * 1000 then now
       else if 0 < n then max (now + 1) (now + n div 1000)
       else tdiv (now * 1000 + n) 1000) \<and>
    expiry_ok now (secExpiryEpoch now n) \<and> expiry_ok now (msExpiryEpoch now n) \<and>
    expiry_ok now (expireAtEpoch now n) \<and> expiry_ok now (msDeadlineToSec now n)"
  using secExpiryEpoch_eq msExpiryEpoch_eq secExpiryEpoch_ok msExpiryEpoch_ok expireAtEpoch_ok
    msDeadlineToSec_ok assms by blast

theorem expiry_arithmetic_witness:
  "msExpiryEpoch 1700000000 1 = 1700000001 \<and> secExpiryEpoch 1700000000 max_i64 = 1700000000"
  using expiry_arithmetic [of 1700000000 1] expiry_arithmetic [of 1700000000 max_i64]
  by (simp add: clock_ok_def i64_def)

section \<open>Behaviour of the key commands\<close>

definition live_at :: "int \<Rightarrow> smeta option \<Rightarrow> bool" where
  "live_at now mo \<longleftrightarrow> (case mo of None \<Rightarrow> False | Some m \<Rightarrow> \<not> IsExpired m now)"

definition key_live :: "tbl \<Rightarrow> bytes \<Rightarrow> bool" where
  "key_live t pk \<longleftrightarrow> live_at (t_time t) (t_meta t pk)"

lemma live_meta_key_live: "live_meta t pk \<noteq> None \<longleftrightarrow> key_live t pk"
  by (simp add: live_meta_def key_live_def live_at_def split: option.split)

lemma exists_loop_mem:
  "exists_loop (mem_env q cfg) db n keys w =
    (IntReply (n + int (length (filter (\<lambda>k. key_live (backend w) (encodePK cfg db k)) keys))), w)"
  by (induction keys arbitrary: n)
    (simp_all add: ret_def attempt_def keyLive_mem live_meta_key_live del: not_None_eq)

lemma del_loop_mem:
  "fst (del_loop (mem_env q cfg) db now n keys w) =
      IntReply (n + int (card {pk \<in> encodePK cfg db ` set keys. live_at now (t_meta (backend w) pk)})) \<and>
   t_meta (backend (snd (del_loop (mem_env q cfg) db now n keys w))) =
      (\<lambda>pk. if pk \<in> encodePK cfg db ` set keys then None else t_meta (backend w) pk)"
proof (induction keys arbitrary: n w)
  case Nil
  show ?case by (simp add: ret_def)
next
  case (Cons k keys)
  let ?pk = "encodePK cfg db k" and ?t = "backend w"
  let ?w = "snd (Meta_DeleteMeta (mem_env q cfg) ?pk w)"
  have m: "t_meta (backend ?w) = (t_meta ?t)(?pk := None)"
    by (simp add: DeleteMeta_mem Let_def)
  have unf: "del_loop (mem_env q cfg) db now n (k # keys) w =
      del_loop (mem_env q cfg) db now (if live_at now (t_meta ?t ?pk) then n + 1 else n) keys ?w"
    by (simp add: Let_def attempt_def Meta_Load_mem DeleteMeta_mem live_at_def)
  let ?S = "{pk \<in> encodePK cfg db ` set keys. live_at now (((t_meta ?t)(?pk := None)) pk)}"
  have "{pk \<in> encodePK cfg db ` set (k # keys). live_at now (t_meta ?t pk)} =
      (if live_at now (t_meta ?t ?pk) then insert ?pk ?S else ?S)"
    by (auto simp: live_at_def split: if_splits)
  moreover have "?pk \<notin> ?S" and "finite ?S" by (simp_all add: live_at_def)
  ultimately have "card {pk \<in> encodePK cfg db ` set (k # keys). live_at now (t_meta ?t pk)} =
      (if live_at now (t_meta ?t ?pk) then 1 else 0) + card ?S"
    by simp
  then have "fst (del_loop (mem_env q cfg) db now n (k # keys) w) =
      IntReply (n + int (card {pk \<in> encodePK cfg db ` set (k # keys). live_at now (t_meta ?t pk)}))"
    unfolding unf using Cons.IH m by simp
  moreover have "t_meta (backend (snd (del_loop (mem_env q cfg) db now n (k # keys) w))) =
      (\<lambda>pk. if pk \<in> encodePK cfg db ` set (k # keys) then None else t_meta ?t pk)"
    unfolding unf using Cons.IH m by auto
  ultimately show ?case by blast
qed

text \<open>
  C24: DEL replies the number of distinct given keys that were live, removes the meta item of every given
  key (so that none exists afterwards) and of no other; EXISTS replies the number of given keys
  that are live, with repetitions, and changes nothing.
\<close>

theorem del_exists:
  assumes "conforming_env E view" and "t = view (backend w)"
    and "pks = map (encodePK (e_cfg E) db) keys"
  shows "fst (handleDel E db (cmd # keys) w) = IntReply (int (card {pk \<in> set pks. key_live t pk})) \<and>
    t_meta (view (backend (snd (handleDel E db (cmd # keys) w)))) =
      (\<lambda>pk. if pk \<in> set pks then None else t_meta t pk) \<and>
    fst (handleExists E db (cmd # keys) w) = IntReply (int (length (filter (key_live t) pks))) \<and>
    view (backend (snd (handleExists E db (cmd # keys) w))) = t"
proof -
  note sims = conforming_env.sim_key_commands [OF assms(1)]
  have t: "backend (wview view w) = t" using assms(2) by simp
  have del: "handleDel (abs_env E) db (cmd # keys) (wview view w) =
      del_loop (mem_env (e_enq E) (e_cfg E)) db (t_time t) 0 keys (wview view w)"
    by (simp add: handleDel_def withNow_def abs_env_mem_env assms(2))
  have ex: "handleExists (abs_env E) db (cmd # keys) (wview view w) =
      (IntReply (int (length (filter (key_live t) pks))), wview view w)"
    by (simp add: handleExists_def abs_env_mem_env exists_loop_mem assms(2,3) filter_map comp_def)
  have pks: "set pks = encodePK (e_cfg E) db ` set keys" by (simp add: assms(3))
  show ?thesis
    unfolding sim_fst [OF sims(1)] sim_backend [OF sims(1)] sim_fst [OF sims(2)] sim_backend [OF sims(2)] del ex
      pks key_live_def
    using del_loop_mem [of "e_enq E" "e_cfg E" db "t_time t" 0 keys "wview view w"] unfolding t
    by (simp only: t add_0 fst_conv snd_conv key_live_def)
qed

text \<open>A key with an expiry time, over the in-memory store.\<close>

definition demo_tbl :: tbl where
  "demo_tbl = set_str ''k'' (Some ''v'') (set_meta ''k'' (Some \<lparr>m_type = TypeString, m_exp = 0, m_count = 0\<rparr>)
     (set_meta ''old'' (Some \<lparr>m_type = TypeString, m_exp = 90, m_count = 0\<rparr>) (empty_tbl 100)))"

lemma demo_tbl_simps [simp]:
  "t_meta demo_tbl ''k'' = Some \<lparr>m_type = TypeString, m_exp = 0, m_count = 0\<rparr>"
  "t_meta demo_tbl ''old'' = Some \<lparr>m_type = TypeString, m_exp = 90, m_count = 0\<rparr>"
  "t_time demo_tbl = 100" "t_str demo_tbl ''k'' = Some ''v''"
  by (simp_all add: demo_tbl_def empty_tbl_def)

theorem del_exists_witness:
  "fst (handleDel (mem_env SyncDeleter cfg0) 0 [''DEL'', ''k'', ''k'', ''old''] (mem_world demo_tbl)) = IntReply 1"
proof -
  have "{pk \<in> set [''k'', ''k'', ''old'']. key_live demo_tbl pk} = {''k''}"
    by (auto simp: key_live_def live_at_def IsExpired_def)
  then show ?thesis
    using del_exists [OF conforming_mem refl refl, of SyncDeleter cfg0 0 "''DEL''" "[''k'', ''k'', ''old'']"
        "mem_world demo_tbl"]
    by (simp add: encodePK_def)
qed

lemma applyExpire_mem:
  assumes "ParseInt (args ! 2) = Inr n" and "pk = encodePK cfg db (args ! 1)" and "t = backend w"
    and "e = f (t_time t) n"
  shows "fst (applyExpire (mem_env q cfg) db args f w) = IntReply (if key_live t pk then 1 else 0)"
    and "t_meta (backend (snd (applyExpire (mem_env q cfg) db args f w))) =
      (if \<not> key_live t pk then t_meta t
       else if e \<le> t_time t then (t_meta t)(pk := None)
       else (t_meta t)(pk := map_option (\<lambda>m. m\<lparr>m_exp := e\<rparr>) (t_meta t pk)))"
    and "t_time (backend (snd (applyExpire (mem_env q cfg) db args f w))) = t_time t"
  using assms live_meta_key_live [of t pk]
  by (auto simp: applyExpire_def withNow_def attempt_def keyLive_mem DeleteMeta_mem Meta_SetExpire_mem ret_def
      Let_def key_live_def live_at_def split: option.splits)

lemma applyExpire_then_ttl:
  assumes "conforming_env E view" and "t = view (backend w)" and "clock_ok (t_time t)"
    and "ParseInt arg = Inr n" and "pk = encodePK (e_cfg E) db key"
    and "f \<in> {secExpiryEpoch, msExpiryEpoch, expireAtEpoch, msDeadlineToSec}" and "e = f (t_time t) n"
    and "w' = snd (applyExpire E db [cmd, key, arg] f w)"
  shows "fst (applyExpire E db [cmd, key, arg] f w) = IntReply (if key_live t pk then 1 else 0) \<and>
    (\<not> key_live t pk \<longrightarrow> t_meta (view (backend w')) = t_meta t) \<and>
    (key_live t pk \<longrightarrow>
      fst (handleTTL E db [cmd', key] w') = IntReply (if t_time t < e then e - t_time t else -2) \<and>
      fst (handlePTTL E db [cmd', key] w') = IntReply (if t_time t < e then (e - t_time t) * 1000 else -2))"
proof -
  let ?now = "t_time t" and ?w' = "wview view w'"
  have sim: "sim view (applyExpire E db [cmd, key, arg] f) (applyExpire (abs_env E) db [cmd, key, arg] f)"
    by (rule conforming_env.sim_applyExpire [OF assms(1)])
  note ttl = sim_fst [OF conforming_env.sim_replyTTL [OF assms(1)], of db "[cmd', key]" _ w']
  have "backend ?w' = view (backend w')" by simp
  also have "\<dots> = backend (snd (applyExpire (abs_env E) db [cmd, key, arg] f (wview view w)))"
    unfolding assms(8) by (rule sim_backend [OF sim])
  finally have b: "backend ?w' = backend (snd (applyExpire (mem_env (e_enq E) (e_cfg E)) db [cmd, key, arg] f (wview view w)))"
    by (simp only: abs_env_mem_env)
  note mem = applyExpire_mem [of "[cmd, key, arg]" n pk "e_cfg E" db t "wview view w" e f "e_enq E"]
  have reply: "fst (applyExpire E db [cmd, key, arg] f w) = IntReply (if key_live t pk then 1 else 0)"
    using sim_fst [OF sim, of w] mem(1) assms by (simp add: abs_env_mem_env)
  have meta: "t_meta (backend ?w') =
      (if \<not> key_live t pk then t_meta t
       else if e \<le> ?now then (t_meta t)(pk := None)
       else (t_meta t)(pk := map_option (\<lambda>m. m\<lparr>m_exp := e\<rparr>) (t_meta t pk)))"
    and time: "t_time (backend ?w') = ?now"
    unfolding b using mem(2,3) assms by simp_all
  have "i64 n" using assms(4) by (rule ParseInt_i64)
  then have "expiry_ok ?now e"
    using assms(3,6,7) secExpiryEpoch_ok msExpiryEpoch_ok expireAtEpoch_ok msDeadlineToSec_ok by blast
  then have "?now < e \<Longrightarrow> i64 (e - ?now) \<and> i64 ((e - ?now) * 1000)" and "0 \<le> ?now"
    using assms(3) by (auto simp: expiry_ok_def clock_ok_def i64_def)
  then have "key_live t pk \<Longrightarrow>
      fst (replyTTL (abs_env E) db [cmd', key] b ?w') =
        IntReply (if ?now < e then (if b then (e - ?now) * 1000 else e - ?now) else -2)" for b
    using assms(5) meta time
    by (auto simp: replyTTL_def withNow_def attempt_def abs_env_mem_env Meta_Load_mem ret_def Let_def IsExpired_def
        key_live_def live_at_def simp del: wview_simps split: option.splits)
  then show ?thesis
    using reply meta ttl by (simp add: handleTTL_def handlePTTL_def)
qed

text \<open>
  The four commands, and the seconds of life each grants at the time \<open>now\<close>, none if that is not positive.
  Milliseconds are cut to seconds, but never a future deadline to none, and a lifetime whose end in
  milliseconds does not fit 64 bits counts as none.
\<close>

datatype expire_cmd = Expire | PExpire | ExpireAt | PExpireAt

fun expire_handler :: "'s env \<Rightarrow> int \<Rightarrow> expire_cmd \<Rightarrow> bytes list \<Rightarrow> 's handler" where
  "expire_handler E db Expire args = handleExpire E db args"
| "expire_handler E db PExpire args = handlePExpire E db args"
| "expire_handler E db ExpireAt args = handleExpireAt E db args"
| "expire_handler E db PExpireAt args = handlePExpireAt E db args"

fun lifetime :: "expire_cmd \<Rightarrow> int \<Rightarrow> int \<Rightarrow> int" where
  "lifetime Expire now n = (if now + n \<le> max_i64 div 1000 then n else 0)"
| "lifetime PExpire now n = (if 0 < n \<and> now * 1000 + n \<le> max_i64 then max 1 (n div 1000) else 0)"
| "lifetime ExpireAt now n = (if n \<le> max_i64 div 1000 then n - now else 0)"
| "lifetime PExpireAt now n = (if now * 1000 < n then max 1 (n div 1000 - now) else 0)"

fun epoch_of :: "expire_cmd \<Rightarrow> int \<Rightarrow> int \<Rightarrow> int" where
  "epoch_of Expire = secExpiryEpoch"
| "epoch_of PExpire = msExpiryEpoch"
| "epoch_of ExpireAt = expireAtEpoch"
| "epoch_of PExpireAt = msDeadlineToSec"

lemma expire_handler_eq: "expire_handler E db c args = applyExpire E db args (epoch_of c)"
  by (cases c) (simp_all add: handleExpire_def handlePExpire_def handleExpireAt_def handlePExpireAt_def)

lemma epoch_lifetime:
  assumes "clock_ok now" and "i64 n"
  shows "now < epoch_of c now n \<longleftrightarrow> 0 < lifetime c now n"
    and "now < epoch_of c now n \<Longrightarrow> epoch_of c now n - now = lifetime c now n"
proof -
  have past: "tdiv k 1000 \<le> now" if "k \<le> now * 1000" for k
    using that assms(1) by (auto simp: tdiv_def clock_ok_def)
  have pos: "tdiv k 1000 = k div 1000" if "now * 1000 < k" for k
    using that assms(1) by (auto simp: tdiv_def clock_ok_def)
  have "(now < epoch_of c now n \<longleftrightarrow> 0 < lifetime c now n) \<and>
      (now < epoch_of c now n \<longrightarrow> epoch_of c now n - now = lifetime c now n)"
  proof (cases c)
    case Expire
    then show ?thesis by (auto simp: secExpiryEpoch_eq [OF assms])
  next
    case PExpire
    then show ?thesis using past [of "now * 1000 + n"] by (auto simp: msExpiryEpoch_eq [OF assms] max_def)
  next
    case ExpireAt
    then show ?thesis by (auto simp: expireAtEpoch_def tdiv_def)
  next
    case PExpireAt
    then show ?thesis using past [of n] pos [of n] by (auto simp: msDeadlineToSec_eq [OF assms(1)] max_def)
  qed
  then show "now < epoch_of c now n \<longleftrightarrow> 0 < lifetime c now n"
    "now < epoch_of c now n \<Longrightarrow> epoch_of c now n - now = lifetime c now n" by blast+
qed

text \<open>
  C25: after EXPIRE, PEXPIRE, EXPIREAT or PEXPIREAT with an integer argument on a live key, which replies 1,
  a TTL in the same second replies exactly the seconds of life the command grants, and a PTTL that in
  milliseconds; when it grants none, both reply -2, the key being gone. On a key that is not live the reply is 0 and no meta
  item changes. An argument that is no integer is an error, and no meta item changes. The milliseconds
  of the clock fit 64 bits.
\<close>

theorem expire_then_ttl:
  assumes "conforming_env E view" and "t = view (backend w)" and "clock_ok (t_time t)"
    and "pk = encodePK (e_cfg E) db key" and "run = expire_handler E db c [cmd, key, arg] w" and "t' = view (backend (snd run))"
  shows "case ParseInt arg of
      Inl _ \<Rightarrow> fst run = Error ErrNotInteger \<and> t_meta t' = t_meta t
    | Inr n \<Rightarrow>
        if \<not> key_live t pk then fst run = IntReply 0 \<and> t_meta t' = t_meta t
        else fst run = IntReply 1 \<and>
          (let s = lifetime c (t_time t) n in
            fst (handleTTL E db [cmd', key] (snd run)) = IntReply (if 0 < s then s else -2) \<and>
            fst (handlePTTL E db [cmd', key] (snd run)) = IntReply (if 0 < s then s * 1000 else -2))"
proof (cases "ParseInt arg")
  case (Inl e)
  then show ?thesis using assms(2,5,6) by (simp add: expire_handler_eq applyExpire_def ret_def)
next
  case (Inr n)
  have f: "epoch_of c \<in> {secExpiryEpoch, msExpiryEpoch, expireAtEpoch, msDeadlineToSec}" by (cases c) simp_all
  note then_ttl = applyExpire_then_ttl [OF assms(1-3) Inr assms(4) f refl refl, of cmd cmd',
      folded expire_handler_eq, folded assms(5)]
  show ?thesis
    using then_ttl epoch_lifetime [OF assms(3) ParseInt_i64 [OF Inr], of c] Inr assms(6)
    by (auto simp: Let_def)
qed

theorem expire_then_ttl_witness:
  "fst (handlePTTL (mem_env SyncDeleter cfg0) 0 [''PTTL'', ''k'']
      (snd (handleExpire (mem_env SyncDeleter cfg0) 0 [''EXPIRE'', ''k'', ''10''] (mem_world demo_tbl)))) = IntReply 10000 \<and>
   fst (handlePTTL (mem_env SyncDeleter cfg0) 0 [''PTTL'', ''k'']
      (snd (handlePExpire (mem_env SyncDeleter cfg0) 0 [''PEXPIRE'', ''k'', ''10''] (mem_world demo_tbl)))) = IntReply 1000"
proof -
  have arg: "ParseInt ''10'' = Inr 10"
    by (simp add: ParseInt_iff i64_def fmt_int_def fmt_nat.simps)
  have live: "key_live demo_tbl ''k''" by (simp add: key_live_def live_at_def IsExpired_def)
  show ?thesis
    using expire_then_ttl [OF conforming_mem [of SyncDeleter cfg0] refl _ refl refl refl,
        where w = "mem_world demo_tbl" and c = Expire and db = 0 and key = "''k''" and arg = "''10''"
          and cmd = "''EXPIRE''" and cmd' = "''PTTL''"]
      expire_then_ttl [OF conforming_mem [of SyncDeleter cfg0] refl _ refl refl refl,
        where w = "mem_world demo_tbl" and c = PExpire and db = 0 and key = "''k''" and arg = "''10''"
          and cmd = "''PEXPIRE''" and cmd' = "''PTTL''"] arg live
    by (simp add: clock_ok_def encodePK_def)
qed

end
