(* ===== verification/Strings.thy ===== *)
theory Strings
  imports Keys Bitfield
begin

text \<open>
  The String commands (\<^verbatim>\<open>internal/command/strings.go\<close>, \<^verbatim>\<open>strings_rmw.go\<close>, \<^verbatim>\<open>strings_parse.go\<close>) and
  the read-modify-write loop that the bit and HyperLogLog commands share. A handler's arguments include the command name and their number was checked
  by the dispatcher.
\<close>

section \<open>Options of SET\<close>

record setOptions =
  nx :: bool
  xx :: bool
  expSet :: bool
  expEpoch :: int

text \<open>The option loop; the pending expiry is its unit (milliseconds?) and its unparsed token.\<close>

function setOptLoop ::
    "bytes list \<Rightarrow> bool \<Rightarrow> bool \<Rightarrow> (bool \<times> bytes) option \<Rightarrow> bytes + (bool \<times> bool \<times> (bool \<times> bytes) option)" where
  "setOptLoop opts isNx isXx pend =
     (case opts of
        [] \<Rightarrow> Inr (isNx, isXx, pend)
      | opt # rest \<Rightarrow>
          (let o' = toLower opt in
           if o' = ''nx'' then (if isXx then Inl ErrSyntax else setOptLoop rest True isXx pend)
           else if o' = ''xx'' then (if isNx then Inl ErrSyntax else setOptLoop rest isNx True pend)
           else if o' = ''ex'' \<or> o' = ''px'' then
             (let isMillis = (o' = ''px'') in
              if (case pend of None \<Rightarrow> False | Some (ms, _) \<Rightarrow> ms \<noteq> isMillis) \<or> rest = [] then Inl ErrSyntax
              else setOptLoop (tl rest) isNx isXx (Some (isMillis, hd rest)))
           else Inl ErrSyntax))"
  by pat_completeness auto
termination
  by (relation "measure (\<lambda>(opts, _). length opts)") auto

declare setOptLoop.simps [simp del]

definition parseSetOptions :: "bytes list \<Rightarrow> int \<Rightarrow> bytes + setOptions" where
  "parseSetOptions opts now =
     (case setOptLoop opts False False None of
        Inl e \<Rightarrow> Inl e
      | Inr (n, x, None) \<Rightarrow> Inr \<lparr>nx = n, xx = x, expSet = False, expEpoch = 0\<rparr>
      | Inr (n, x, Some (isMillis, tok)) \<Rightarrow>
          (case ParseInt tok of
             Inl _ \<Rightarrow> Inl ErrNotInteger
           | Inr k \<Rightarrow>
               if k \<le> 0 then Inl (ErrInvalidExpireTime ''set'')
               else Inr \<lparr>nx = n, xx = x, expSet = True,
                         expEpoch = (if isMillis then msExpiryEpoch now k else secExpiryEpoch now k)\<rparr>))"

section \<open>Reading and overwriting\<close>

definition handleGet :: "'s env \<Rightarrow> int \<Rightarrow> bytes list \<Rightarrow> 's handler" where
  "handleGet E db args =
     (let pk = encodePK (e_cfg E) db (args ! 1) in
      attempt (Meta_Load E pk) (\<lambda>mo.
        case mo of
          None \<Rightarrow> ret NullBulk
        | Some m \<Rightarrow> withNow E (\<lambda>now.
            if IsExpired m now then ret NullBulk
            else if m_type m \<noteq> TypeString then ret (Error ErrWrongType)
            else attempt (call (st_GetString (e_store E) pk)) (\<lambda>v.
              case v of None \<Rightarrow> ret NullBulk | Some b \<Rightarrow> ret (BulkString b)))))"

definition overwriteAnyType :: "'s env \<Rightarrow> bytes \<Rightarrow> ('s, serr + unit) act" where
  "overwriteAnyType E pk =
     bindE (Meta_Load E pk) (\<lambda>mo.
       case mo of
         None \<Rightarrow> ret (Inr ())
       | Some m \<Rightarrow>
           if m_type m = TypeString then ret (Inr ())
           else bindE (call (st_DeleteMembers (e_store E) pk)) (\<lambda>_.
                bindE (Meta_DeleteMeta E pk) (\<lambda>_. ret (Inr ()))))"

text \<open>\<open>readCurrentString\<close>: not live, live of another type, or the value (empty when the item is missing).\<close>

datatype strstate = StrAbsent | StrWrong | StrValue bytes

definition readCurrentString :: "'s env \<Rightarrow> bytes \<Rightarrow> ('s, serr + strstate) act" where
  "readCurrentString E pk =
     bindE (Meta_Load E pk) (\<lambda>mo.
       case mo of
         None \<Rightarrow> ret (Inr StrAbsent)
       | Some m \<Rightarrow> withNow E (\<lambda>now.
           if IsExpired m now then ret (Inr StrAbsent)
           else if m_type m \<noteq> TypeString then ret (Inr StrWrong)
           else bindE (call (st_GetString (e_store E) pk)) (\<lambda>v.
             case v of None \<Rightarrow> ret (Inr (StrValue [])) | Some b \<Rightarrow> ret (Inr (StrValue b)))))"

text \<open>The common head of the String reads.\<close>

definition withString :: "'s env \<Rightarrow> bytes \<Rightarrow> 's handler \<Rightarrow> (bytes \<Rightarrow> 's handler) \<Rightarrow> 's handler" where
  "withString E pk absent value =
     attempt (readCurrentString E pk) (\<lambda>r.
       case r of StrWrong \<Rightarrow> ret (Error ErrWrongType) | StrAbsent \<Rightarrow> absent | StrValue v \<Rightarrow> value v)"

section \<open>SET and its relatives\<close>

text \<open>The tail shared by plain SET, SETEX, PSETEX and the pairs of MSET.\<close>

definition overwriteString :: "'s env \<Rightarrow> bytes \<Rightarrow> bytes \<Rightarrow> ('s, serr + unit) act" where
  "overwriteString E pk val =
     bindE (overwriteAnyType E pk) (\<lambda>_.
     bindE (ensureTypeExpiring E pk TypeString) (\<lambda>_.
     call (st_SetString (e_store E) pk val)))"

definition handleSet :: "'s env \<Rightarrow> int \<Rightarrow> bytes list \<Rightarrow> 's handler" where
  "handleSet E db args =
     (let key = args ! 1; val = args ! 2; pk = encodePK (e_cfg E) db key in
      withNow E (\<lambda>now0.
      case parseSetOptions (drop 3 args) now0 of
        Inl e \<Rightarrow> ret (Error e)
      | Inr opt \<Rightarrow>
          attempt (CheckWrite key [] [val]) (\<lambda>_.
          if nx opt then
            withNow E (\<lambda>now1.
            attempt (Meta_CreateTypeIfAbsent E pk TypeString 0 now1) (\<lambda>created.
              if \<not> created then ret NullBulk
              else
                attempt (call (st_DeleteMembers (e_store E) pk)) (\<lambda>_.
                attempt (call (st_SetString (e_store E) pk val)) (\<lambda>_.
                if expSet opt then attempt (Meta_SetExpire E pk (expEpoch opt)) (\<lambda>_. ret (SimpleString ''OK''))
                else ret (SimpleString ''OK'')))))
          else
            attempt (if xx opt then keyLive E pk else ret (Inr True)) (\<lambda>live.
              if \<not> live then ret NullBulk
              else
                attempt (overwriteString E pk val) (\<lambda>_.
                if expSet opt then attempt (Meta_SetExpire E pk (expEpoch opt)) (\<lambda>_. ret (SimpleString ''OK''))
                else attempt (Meta_Persist E pk) (\<lambda>_. ret (SimpleString ''OK'')))))))"

definition handleSetNX :: "'s env \<Rightarrow> int \<Rightarrow> bytes list \<Rightarrow> 's handler" where
  "handleSetNX E db args =
     (let key = args ! 1; val = args ! 2; pk = encodePK (e_cfg E) db key in
      attempt (CheckWrite key [] [val]) (\<lambda>_.
      withNow E (\<lambda>now.
      attempt (Meta_CreateTypeIfAbsent E pk TypeString 0 now) (\<lambda>created.
        if \<not> created then ret (IntReply 0)
        else attempt (call (st_SetString (e_store E) pk val)) (\<lambda>_. ret (IntReply 1))))))"

definition setWithExpiry ::
    "'s env \<Rightarrow> int \<Rightarrow> bytes \<Rightarrow> bytes \<Rightarrow> bytes \<Rightarrow> bool \<Rightarrow> bytes \<Rightarrow> 's handler" where
  "setWithExpiry E db key val expiryArg isMillis cmd =
     (case ParseInt expiryArg of
        Inl _ \<Rightarrow> ret (Error ErrNotInteger)
      | Inr n \<Rightarrow>
          if n \<le> 0 then ret (Error (ErrInvalidExpireTime cmd))
          else
            attempt (CheckWrite key [] [val]) (\<lambda>_.
            withNow E (\<lambda>now.
            let pk = encodePK (e_cfg E) db key in
            attempt (overwriteString E pk val) (\<lambda>_.
            attempt (Meta_SetExpire E pk (if isMillis then msExpiryEpoch now n else secExpiryEpoch now n)) (\<lambda>_.
              ret (SimpleString ''OK''))))))"

definition handleSetEX :: "'s env \<Rightarrow> int \<Rightarrow> bytes list \<Rightarrow> 's handler" where
  "handleSetEX E db args = setWithExpiry E db (args ! 1) (args ! 3) (args ! 2) False ''setex''"

definition handlePSetEX :: "'s env \<Rightarrow> int \<Rightarrow> bytes list \<Rightarrow> 's handler" where
  "handlePSetEX E db args = setWithExpiry E db (args ! 1) (args ! 3) (args ! 2) True ''psetex''"

definition handleGetSet :: "'s env \<Rightarrow> int \<Rightarrow> bytes list \<Rightarrow> 's handler" where
  "handleGetSet E db args =
     (let key = args ! 1; val = args ! 2; pk = encodePK (e_cfg E) db key in
      attempt (CheckWrite key [] [val]) (\<lambda>_.
      attempt (ensureTypeExpiring E pk TypeString) (\<lambda>_.
      attempt (call (st_GetSetString (e_store E) pk val)) (\<lambda>old.
      attempt (Meta_Persist E pk) (\<lambda>_.
        case old of None \<Rightarrow> ret NullBulk | Some b \<Rightarrow> ret (BulkString b))))))"

section \<open>Several keys at once\<close>

definition msetBatchKeys :: nat where "msetBatchKeys = 25"

text \<open>\<open>(i, i+1)\<close> for even \<open>i\<close>; the handlers reject an odd number of arguments first.\<close>

fun pairs_of :: "bytes list \<Rightarrow> (bytes \<times> bytes) list" where
  "pairs_of (k # v # rest) = (k, v) # pairs_of rest"
| "pairs_of _ = []"

primrec mget_loop ::
    "'s env \<Rightarrow> int \<Rightarrow> int \<Rightarrow> bytes list \<Rightarrow> (bytes \<times> bool) list \<Rightarrow> ((bytes \<times> bool) list \<Rightarrow> 's handler) \<Rightarrow> 's handler" where
  "mget_loop E db now [] acc k = k acc"
| "mget_loop E db now (key # keys) acc k =
     (let pk = encodePK (e_cfg E) db key in
      attempt (Meta_Load E pk) (\<lambda>mo.
        let liveStr = (case mo of
              None \<Rightarrow> False | Some m \<Rightarrow> \<not> IsExpired m now \<and> m_type m = TypeString)
        in mget_loop E db now keys (acc @ [(pk, liveStr)]) k))"

definition handleMGet :: "'s env \<Rightarrow> int \<Rightarrow> bytes list \<Rightarrow> 's handler" where
  "handleMGet E db args =
     withNow E (\<lambda>now.
     mget_loop E db now (drop 1 args) [] (\<lambda>ks.
     attempt (call (st_MGetStrings (e_store E) (map fst (filter snd ks)))) (\<lambda>vals.
       let elems = map (\<lambda>(pk, live). if live then vals pk else None) ks
       in ret (OptBulkArray (map (\<lambda>v. case v of None \<Rightarrow> [] | Some b \<Rightarrow> b) elems) (map (\<lambda>v. v \<noteq> None) elems)))))"

primrec checkPairs :: "(bytes \<times> bytes) list \<Rightarrow> ('s, serr + unit) act" where
  "checkPairs [] = ret (Inr ())"
| "checkPairs (p # ps) = bindE (CheckWrite (fst p) [] [snd p]) (\<lambda>_. checkPairs ps)"

primrec msetPairs :: "'s env \<Rightarrow> int \<Rightarrow> (bytes \<times> bytes) list \<Rightarrow> ('s, serr + unit) act" where
  "msetPairs E db [] = ret (Inr ())"
| "msetPairs E db (p # ps) =
     (let pk = encodePK (e_cfg E) db (fst p) in
      bindE (overwriteString E pk (snd p)) (\<lambda>_.
      bindE (Meta_Persist E pk) (\<lambda>_. msetPairs E db ps)))"

function msetBatches :: "'s env \<Rightarrow> int \<Rightarrow> (bytes \<times> bytes) list \<Rightarrow> ('s, serr + unit) act" where
  "msetBatches E db ps =
     (if ps = [] then ret (Inr ())
      else bindE (msetPairs E db (take msetBatchKeys ps)) (\<lambda>_.
             msetBatches E db (drop msetBatchKeys ps)))"
  by pat_completeness auto
termination
  by (relation "measure (\<lambda>(_, _, ps). length ps)") (auto simp: msetBatchKeys_def)

declare msetBatches.simps [simp del]

definition handleMSet :: "'s env \<Rightarrow> int \<Rightarrow> bytes list \<Rightarrow> 's handler" where
  "handleMSet E db args =
     (let pairs = drop 1 args in
      if odd (length pairs) then ret (Error ErrMSetOddArgs)
      else
        attempt (checkPairs (pairs_of pairs)) (\<lambda>_.
        attempt (msetBatches E db (pairs_of pairs)) (\<lambda>_. ret (SimpleString ''OK''))))"

text \<open>Is any key of the list live? Stops at the first.\<close>

primrec anyLive :: "'s env \<Rightarrow> int \<Rightarrow> bytes list \<Rightarrow> ('s, serr + bool) act" where
  "anyLive E db [] = ret (Inr False)"
| "anyLive E db (key # keys) =
     bindE (keyLive E (encodePK (e_cfg E) db key)) (\<lambda>live.
       if live then ret (Inr True) else anyLive E db keys)"

primrec msetnxPairs :: "'s env \<Rightarrow> int \<Rightarrow> (bytes \<times> bytes) list \<Rightarrow> ('s, serr + unit) act" where
  "msetnxPairs E db [] = ret (Inr ())"
| "msetnxPairs E db (p # ps) =
     (let pk = encodePK (e_cfg E) db (fst p) in
      bindE (ensureTypeExpiring E pk TypeString) (\<lambda>_.
      bindE (call (st_SetString (e_store E) pk (snd p))) (\<lambda>_.
      bindE (Meta_Persist E pk) (\<lambda>_. msetnxPairs E db ps))))"

definition handleMSetNX :: "'s env \<Rightarrow> int \<Rightarrow> bytes list \<Rightarrow> 's handler" where
  "handleMSetNX E db args =
     (let pairs = drop 1 args in
      if odd (length pairs) then ret (Error ErrMSetOddArgs)
      else
        attempt (checkPairs (pairs_of pairs)) (\<lambda>_.
        attempt (anyLive E db (map fst (pairs_of pairs))) (\<lambda>live.
          if live then ret (IntReply 0)
          else attempt (msetnxPairs E db (pairs_of pairs)) (\<lambda>_. ret (IntReply 1)))))"

section \<open>Counters\<close>

definition incrBy :: "'s env \<Rightarrow> int \<Rightarrow> bytes \<Rightarrow> int \<Rightarrow> 's handler" where
  "incrBy E db key delta =
     attempt (CheckWrite key [] []) (\<lambda>_.
     let pk = encodePK (e_cfg E) db key in
     attempt (ensureTypeExpiring E pk TypeString) (\<lambda>_.
     attempt (call (st_IncrBy (e_store E) pk delta)) (\<lambda>n. ret (IntReply n))))"

definition handleIncr :: "'s env \<Rightarrow> int \<Rightarrow> bytes list \<Rightarrow> 's handler" where
  "handleIncr E db args = incrBy E db (args ! 1) 1"

definition handleDecr :: "'s env \<Rightarrow> int \<Rightarrow> bytes list \<Rightarrow> 's handler" where
  "handleDecr E db args = incrBy E db (args ! 1) (-1)"

definition handleIncrBy :: "'s env \<Rightarrow> int \<Rightarrow> bytes list \<Rightarrow> 's handler" where
  "handleIncrBy E db args =
     (case ParseInt (args ! 2) of
        Inl _ \<Rightarrow> ret (Error ErrNotInteger) | Inr n \<Rightarrow> incrBy E db (args ! 1) n)"

definition handleDecrBy :: "'s env \<Rightarrow> int \<Rightarrow> bytes list \<Rightarrow> 's handler" where
  "handleDecrBy E db args =
     (case ParseInt (args ! 2) of
        Inl _ \<Rightarrow> ret (Error ErrNotInteger) | Inr n \<Rightarrow> incrBy E db (args ! 1) (wrap64 (- n)))"

text \<open>INCRBYFLOAT checks the type of the key before it parses the increment.\<close>

definition handleIncrByFloat :: "'s env \<Rightarrow> int \<Rightarrow> bytes list \<Rightarrow> 's handler" where
  "handleIncrByFloat E db args =
     (let key = args ! 1; pk = encodePK (e_cfg E) db key;
          incr =
            (case parseFloatArg (args ! 2) of
               None \<Rightarrow> ret (Error ErrNotValidFloat)
             | Some delta \<Rightarrow>
                 attempt (CheckWrite key [] []) (\<lambda>_.
                 attempt (ensureTypeExpiring E pk TypeString) (\<lambda>_.
                 attempt (call (st_IncrByFloat (e_store E) pk delta)) (\<lambda>val. ret (BulkString val)))))
      in withString E pk incr (\<lambda>_. incr))"

section \<open>Read-modify-write\<close>

text \<open>The logical base the command builds on, and the stored item the compare-and-set asserts.\<close>

definition readStringForRMW :: "'s env \<Rightarrow> bytes \<Rightarrow> ('s, serr + (bytes \<times> bytes option \<times> bool)) act" where
  "readStringForRMW E pk =
     bindE (Meta_Load E pk) (\<lambda>mo.
     withNow E (\<lambda>now.
     let live = (case mo of None \<Rightarrow> False | Some m \<Rightarrow> \<not> IsExpired m now);
         isStr = (case mo of None \<Rightarrow> False | Some m \<Rightarrow> m_type m = TypeString)
     in bindE (call (st_GetString (e_store E) pk)) (\<lambda>v.
          ret (Inr (if live \<and> isStr then (case v of None \<Rightarrow> [] | Some b \<Rightarrow> b) else [], v, live \<and> \<not> isStr)))))"

text \<open>
  One attempt per unit of fuel. The callback \<open>compute\<close> gets the base and the variable it captures (the old
  bit of SETBIT, the results of BITFIELD, the changed flag of PFADD), which lives across attempts, and
  returns both anew. The result is the new length and the captured variable.
\<close>

primrec rmwLoop ::
    "nat \<Rightarrow> 's env \<Rightarrow> bytes \<Rightarrow> (bytes \<Rightarrow> 'r \<Rightarrow> ('s, serr + (bytes \<times> 'r)) act) \<Rightarrow> 'r \<Rightarrow> ('s, serr + (int \<times> 'r)) act" where
  "rmwLoop 0 E pk compute cap = ret (Inl RMWMaxRetries)"
| "rmwLoop (Suc n) E pk compute cap =
     bindE (readStringForRMW E pk) (\<lambda>(base, phys, wrongType).
       if wrongType then ret (Inl MetaWrongType)
       else
         bindE (compute base cap) (\<lambda>(nxt, r).
         bindE (ensureTypeExpiring E pk TypeString) (\<lambda>_.
         bindE (call (st_SetStringIfEquals (e_store E) pk nxt phys)) (\<lambda>ok.
           if ok then ret (Inr (int (length nxt), r)) else rmwLoop n E pk compute r))))"

definition rmwString ::
    "'s env \<Rightarrow> bytes \<Rightarrow> (bytes \<Rightarrow> 'r \<Rightarrow> ('s, serr + (bytes \<times> 'r)) act) \<Rightarrow> 'r \<Rightarrow> ('s, serr + (int \<times> 'r)) act" where
  "rmwString E pk compute cap = rmwLoop MaxRMWRetries E pk compute cap"

definition appendCompute :: "bytes \<Rightarrow> bytes \<Rightarrow> bytes \<Rightarrow> ('s, serr + (bytes \<times> unit)) act" where
  "appendCompute key val base =
     bindE (CheckWrite key [] [base @ val]) (\<lambda>_. ret (Inr (base @ val, ())))"

definition handleAppend :: "'s env \<Rightarrow> int \<Rightarrow> bytes list \<Rightarrow> 's handler" where
  "handleAppend E db args =
     (let key = args ! 1; val = args ! 2; pk = encodePK (e_cfg E) db key in
      attempt (rmwString E pk (\<lambda>base _. appendCompute key val base) ()) (\<lambda>(n, _). ret (IntReply n)))"

definition handleStrlen :: "'s env \<Rightarrow> int \<Rightarrow> bytes list \<Rightarrow> 's handler" where
  "handleStrlen E db args =
     withString E (encodePK (e_cfg E) db (args ! 1))
       (ret (IntReply 0)) (\<lambda>cur. ret (IntReply (int (length cur))))"

text \<open>The buffer SETRANGE writes: the base zero-filled to the new length, then overwritten.\<close>

definition setRangeBytes :: "bytes \<Rightarrow> nat \<Rightarrow> bytes \<Rightarrow> bytes" where
  "setRangeBytes base off val =
     (let buf = grow (max (length base) (off + length val)) base
      in take off buf @ val @ drop (off + length val) buf)"

definition setRangeCompute :: "bytes \<Rightarrow> int \<Rightarrow> bytes \<Rightarrow> bytes \<Rightarrow> ('s, serr + (bytes \<times> unit)) act" where
  "setRangeCompute key off val base =
     (if off > wrap64 (max_i64 - int (length val)) then
        bindE (CheckValueSize max_i64) (\<lambda>_. ret (Inr ([], ())))
      else
        bindE (CheckWrite key [] []) (\<lambda>_.
        bindE (CheckValueSize (max (int (length base)) (off + int (length val)))) (\<lambda>_.
          ret (Inr (setRangeBytes base (nat off) val, ())))))"

definition handleSetRange :: "'s env \<Rightarrow> int \<Rightarrow> bytes list \<Rightarrow> 's handler" where
  "handleSetRange E db args =
     (let key = args ! 1; val = args ! 3 in
      case ParseInt (args ! 2) of
        Inl _ \<Rightarrow> ret (Error ErrNotInteger)
      | Inr off \<Rightarrow>
          if off < 0 then ret (Error ErrOffsetOutOfRange)
          else
            (let pk = encodePK (e_cfg E) db key in
             if val = [] then
               withString E pk (ret (IntReply 0)) (\<lambda>cur. ret (IntReply (int (length cur))))
             else
               attempt (rmwString E pk (\<lambda>base _. setRangeCompute key off val base) ()) (\<lambda>(n, _). ret (IntReply n))))"

text \<open>The Go slice \<open>cur[lo:hi]\<close> is in range (property on \<open>rangeBounds\<close>).\<close>

definition handleGetRange :: "'s env \<Rightarrow> int \<Rightarrow> bytes list \<Rightarrow> 's handler" where
  "handleGetRange E db args =
     (case ParseInt (args ! 2) of
        Inl _ \<Rightarrow> ret (Error ErrNotInteger)
      | Inr start \<Rightarrow>
          (case ParseInt (args ! 3) of
             Inl _ \<Rightarrow> ret (Error ErrNotInteger)
           | Inr stop \<Rightarrow>
               withString E (encodePK (e_cfg E) db (args ! 1)) (ret (BulkString []))
                 (\<lambda>cur.
                   if cur = [] then ret (BulkString [])
                   else
                     let (lo, hi) = rangeBounds (int (length cur)) start stop
                     in ret (BulkString (take (nat (hi - lo)) (drop (nat lo) cur))))))"

section \<open>The handlers refine their runs over the abstract table\<close>

lemma sim_strstate [sim_intros]:
  "sim v f f' \<Longrightarrow> sim v g g' \<Longrightarrow> (\<And>m. sim v (h m) (h' m)) \<Longrightarrow>
    sim v (case_strstate f g h x) (case_strstate f' g' h' x)"
  by (cases x) simp_all

context conforming_env begin

lemma sim_overwriteAnyType [sim_intros]: "sim view (overwriteAnyType E pk) (overwriteAnyType E' pk)"
  unfolding overwriteAnyType_def abs_env_simps mem_store_simps by (intro sim_intros)

lemma sim_withString [sim_intros]:
  "sim view f f' \<Longrightarrow> (\<And>v. sim view (g v) (g' v)) \<Longrightarrow> sim view (withString E pk f g) (withString E' pk f' g')"
  unfolding withString_def readCurrentString_def abs_env_simps mem_store_simps by (intro sim_intros)

lemma sim_overwriteString [sim_intros]: "sim view (overwriteString E pk val) (overwriteString E' pk val)"
  unfolding overwriteString_def abs_env_simps mem_store_simps by (intro sim_intros)

lemma sim_setWithExpiry [sim_intros]:
  "sim view (setWithExpiry E db key val e ms cmd) (setWithExpiry E' db key val e ms cmd)"
  unfolding setWithExpiry_def Let_def abs_env_simps mem_store_simps by (intro sim_intros)

lemma sim_mget_loop [sim_intros]:
  "(\<And>ks. sim view (k ks) (k' ks)) \<Longrightarrow> sim view (mget_loop E db now keys acc k) (mget_loop E' db now keys acc k')"
  by (induction keys arbitrary: acc) (auto simp: Let_def intro!: sim_intros)

lemma sim_checkPairs [sim_intros]: "sim view (checkPairs ps) (checkPairs ps)"
  by (induction ps) (auto intro!: sim_intros)

lemma sim_msetPairs [sim_intros]: "sim view (msetPairs E db ps) (msetPairs E' db ps)"
  by (induction ps) (auto simp: Let_def intro!: sim_intros)

lemma sim_msetBatches [sim_intros]: "sim view (msetBatches E db ps) (msetBatches E' db ps)"
proof (induction "length ps" arbitrary: ps rule: less_induct)
  case less
  show ?case
  proof (cases "ps = []")
    case False
    then have "length (drop msetBatchKeys ps) < length ps" by (simp add: msetBatchKeys_def)
    with less have "sim view (msetBatches E db (drop msetBatchKeys ps)) (msetBatches E' db (drop msetBatchKeys ps))" .
    then show ?thesis
      by (subst (1 2) msetBatches.simps) (intro sim_intros)
  qed (simp add: msetBatches.simps sim_ret)
qed

lemma sim_anyLive [sim_intros]: "sim view (anyLive E db keys) (anyLive E' db keys)"
  by (induction keys) (auto intro!: sim_intros)

lemma sim_msetnxPairs [sim_intros]: "sim view (msetnxPairs E db ps) (msetnxPairs E' db ps)"
  by (induction ps) (auto simp: Let_def intro!: sim_intros)

lemma sim_incrBy [sim_intros]: "sim view (incrBy E db key delta) (incrBy E' db key delta)"
  unfolding incrBy_def Let_def abs_env_simps mem_store_simps by (intro sim_intros)

lemma sim_rmwString [sim_intros]:
  assumes "\<And>base c. sim view (compute base c) (compute' base c)"
  shows "sim view (rmwString E pk compute cap) (rmwString E' pk compute' cap)"
proof -
  have "sim view (rmwLoop n E pk compute cap) (rmwLoop n E' pk compute' cap)" for n cap
  proof (induction n arbitrary: cap)
    case (Suc n)
    then show ?case
      unfolding rmwLoop.simps readStringForRMW_def Let_def abs_env_simps mem_store_simps
      by (intro sim_intros assms)
  qed (simp add: sim_ret)
  then show ?thesis unfolding rmwString_def .
qed

lemma sim_appendCompute [sim_intros]: "sim view (appendCompute key val base) (appendCompute key val base)"
  unfolding appendCompute_def by (intro sim_intros)

lemma sim_setRangeCompute [sim_intros]:
  "sim view (setRangeCompute key off val base) (setRangeCompute key off val base)"
  unfolding setRangeCompute_def by (intro sim_intros)

lemma sim_setOptions [sim_intros]:
  "(\<And>e. sim view (f e) (f' e)) \<Longrightarrow> (\<And>opt. sim view (g opt) (g' opt)) \<Longrightarrow>
    sim view (case_sum f g (parseSetOptions opts n)) (case_sum f' g' (parseSetOptions opts n))"
  by (intro sim_intros)

lemma sim_string_commands [sim_intros]:
  "sim view (handleGet E db args) (handleGet E' db args)"
  "sim view (handleSet E db args) (handleSet E' db args)"
  "sim view (handleSetNX E db args) (handleSetNX E' db args)"
  "sim view (handleSetEX E db args) (handleSetEX E' db args)"
  "sim view (handlePSetEX E db args) (handlePSetEX E' db args)"
  "sim view (handleGetSet E db args) (handleGetSet E' db args)"
  "sim view (handleMGet E db args) (handleMGet E' db args)"
  "sim view (handleMSet E db args) (handleMSet E' db args)"
  "sim view (handleMSetNX E db args) (handleMSetNX E' db args)"
  "sim view (handleIncr E db args) (handleIncr E' db args)"
  "sim view (handleDecr E db args) (handleDecr E' db args)"
  "sim view (handleIncrBy E db args) (handleIncrBy E' db args)"
  "sim view (handleDecrBy E db args) (handleDecrBy E' db args)"
  "sim view (handleAppend E db args) (handleAppend E' db args)"
  "sim view (handleStrlen E db args) (handleStrlen E' db args)"
  "sim view (handleSetRange E db args) (handleSetRange E' db args)"
  "sim view (handleGetRange E db args) (handleGetRange E' db args)"
  "sim view (handleIncrByFloat E db args) (handleIncrByFloat E' db args)"
  unfolding handleGet_def handleSet_def handleSetNX_def handleSetEX_def handlePSetEX_def handleGetSet_def
    handleMGet_def handleMSet_def handleMSetNX_def handleIncr_def handleDecr_def handleIncrBy_def
    handleDecrBy_def handleIncrByFloat_def handleAppend_def handleStrlen_def handleSetRange_def handleGetRange_def Let_def
    abs_env_simps mem_store_simps
  by (intro sim_intros)+

end

end
