(* ===== verification/BitCmds.thy ===== *)
theory BitCmds
  imports Strings
begin

text \<open>
  The bit commands (\<^verbatim>\<open>internal/command/bit.go\<close>, \<^verbatim>\<open>bitfield.go\<close>): GETBIT, SETBIT, BITCOUNT, BITPOS,
  BITOP and BITFIELD over String values, on the byte-level functions of \<open>Bits\<close> and \<open>Bitfield\<close>.
\<close>

definition handleGetBit :: "'s env \<Rightarrow> int \<Rightarrow> bytes list \<Rightarrow> 's handler" where
  "handleGetBit E db args =
     (case parseBitOffset (args ! 2) of
        None \<Rightarrow> ret (Error errBitOffset)
      | Some offset \<Rightarrow>
          withString E (encodePK (e_cfg E) db (args ! 1)) (ret (IntReply 0))
            (\<lambda>cur. ret (IntReply (getBit cur (nat offset)))))"

definition setBitCompute :: "bytes \<Rightarrow> int \<Rightarrow> int \<Rightarrow> bytes \<Rightarrow> ('s, serr + (bytes \<times> int)) act" where
  "setBitCompute key offset bitVal base =
     bindE (CheckValueSize (offset div 8 + 1)) (\<lambda>_.
     let (nxt, oldBit) = setBitBytes base (nat offset) bitVal
     in bindE (CheckWrite key [] [nxt]) (\<lambda>_. ret (Inr (nxt, oldBit))))"

definition handleSetBit :: "'s env \<Rightarrow> int \<Rightarrow> bytes list \<Rightarrow> 's handler" where
  "handleSetBit E db args =
     (let key = args ! 1 in
      case parseBitOffset (args ! 2) of
        None \<Rightarrow> ret (Error errBitOffset)
      | Some offset \<Rightarrow>
          (case parseBitValue (args ! 3) of
             None \<Rightarrow> ret (Error errBitValue)
           | Some bitVal \<Rightarrow>
               attempt (rmwString E (encodePK (e_cfg E) db key) (\<lambda>base _. setBitCompute key offset bitVal base) 0)
                 (\<lambda>(_, oldBit). ret (IntReply oldBit))))"

text \<open>The byte range BITCOUNT works on: an error, a reply without counting, or bounds.\<close>

definition bitCountReply :: "bytes list \<Rightarrow> bytes \<Rightarrow> reply" where
  "bitCountReply args cur =
     (if length args \<noteq> 2 \<and> length args \<noteq> 4 then Error ErrSyntax
      else
        let cnt = (\<lambda>(lo, hi).
              if cur = [] \<or> lo > hi then IntReply 0
              else IntReply (int (countBits (take (nat (hi + 1 - lo)) (drop (nat lo) cur)))))
        in if length args = 4 then
             (case (parseIntArg (args ! 2), parseIntArg (args ! 3)) of
                (Some s, Some e) \<Rightarrow>
                  if s < 0 \<and> e < 0 \<and> s > e then IntReply 0 else cnt (byteRange (int (length cur)) s e)
              | _ \<Rightarrow> Error ErrNotInteger)
           else cnt (0, int (length cur) - 1))"

definition handleBitCount :: "'s env \<Rightarrow> int \<Rightarrow> bytes list \<Rightarrow> 's handler" where
  "handleBitCount E db args =
     withString E (encodePK (e_cfg E) db (args ! 1)) (ret (IntReply 0))
       (\<lambda>cur. ret (bitCountReply args cur))"

definition bitPosReply :: "bytes list \<Rightarrow> int \<Rightarrow> bytes \<Rightarrow> reply" where
  "bitPosReply args b cur =
     (if length args > 5 then Error ErrSyntax
      else
        let endGiven = (length args = 5); n = int (length cur);
            search = (\<lambda>(lo, hi).
              if cur = [] \<or> lo > hi then IntReply (-1)
              else
                let pos = bitPos cur b (nat lo) (nat hi)
                in IntReply (if pos < 0 \<and> b = 0 \<and> \<not> endGiven then (hi + 1) * 8 else pos))
        in if length args \<ge> 4 then
             (case parseIntArg (args ! 3) of
                None \<Rightarrow> Error ErrNotInteger
              | Some s \<Rightarrow>
                  if endGiven then
                    (case parseIntArg (args ! 4) of
                       None \<Rightarrow> Error ErrNotInteger
                     | Some e \<Rightarrow> search (byteRange n s e))
                  else search (byteRange n s (n - 1)))
           else search (0, n - 1))"

definition handleBitPos :: "'s env \<Rightarrow> int \<Rightarrow> bytes list \<Rightarrow> 's handler" where
  "handleBitPos E db args =
     (case ParseInt (args ! 2) of
        Inl _ \<Rightarrow> ret (Error ErrNotInteger)
      | Inr b \<Rightarrow>
          if b \<noteq> 0 \<and> b \<noteq> 1 then ret (Error errBitPosBit)
          else
            withString E (encodePK (e_cfg E) db (args ! 1))
              (ret (IntReply (if b = 0 then 0 else -1)))
              (\<lambda>cur. ret (bitPosReply args b cur)))"

text \<open>Reading the sources of BITOP; an absent one counts as empty.\<close>

primrec bitop_sources :: "'s env \<Rightarrow> int \<Rightarrow> bytes list \<Rightarrow> bytes list \<Rightarrow> (bytes list \<Rightarrow> 's handler) \<Rightarrow> 's handler" where
  "bitop_sources E db [] srcs k = k srcs"
| "bitop_sources E db (sk # sks) srcs k =
     withString E (encodePK (e_cfg E) db sk) (bitop_sources E db sks (srcs @ [[]]) k)
       (\<lambda>v. bitop_sources E db sks (srcs @ [v]) k)"

definition bitop_of_name :: "bytes \<Rightarrow> bitop option" where
  "bitop_of_name op =
     (if op = ''AND'' then Some OpAnd else if op = ''OR'' then Some OpOr
      else if op = ''XOR'' then Some OpXor else if op = ''NOT'' then Some OpNot else None)"

definition max_length :: "bytes list \<Rightarrow> nat" where
  "max_length srcs = foldl (\<lambda>m v. if length v > m then length v else m) 0 srcs"

definition handleBitOp :: "'s env \<Rightarrow> int \<Rightarrow> bytes list \<Rightarrow> 's handler" where
  "handleBitOp E db args =
     (let op = ToUpper (args ! 1); destKey = args ! 2; srcArgs = drop 3 args in
      if op = ''NOT'' \<and> length srcArgs \<noteq> 1 then ret (Error errBitOpNotOne)
      else case bitop_of_name op of
        None \<Rightarrow> ret (Error ErrSyntax)
      | Some bop \<Rightarrow>
          bitop_sources E db srcArgs [] (\<lambda>srcs.
            let result = bitopCompute bop srcs (max_length srcs);
                destPK = encodePK (e_cfg E) db destKey
            in if result = [] then attempt (Meta_DeleteMeta E destPK) (\<lambda>_. ret (IntReply 0))
               else
                 attempt (CheckWrite destKey [] [result]) (\<lambda>_.
                 attempt (overwriteString E destPK result) (\<lambda>_.
                 attempt (Meta_Persist E destPK) (\<lambda>_. ret (IntReply (int (length result))))))))"

definition bitFieldCompute :: "bytes \<Rightarrow> bitfieldOp list \<Rightarrow> bytes \<Rightarrow> ('s, serr + (bytes \<times> bfResult list)) act" where
  "bitFieldCompute key ops base =
     bindE (CheckValueSize (int (bfMaxBytes ops))) (\<lambda>_.
     let (applied, results) = applyBitfield (grow (bfMaxBytes ops) base) ops
     in bindE (CheckWrite key [] [applied]) (\<lambda>_. ret (Inr (applied, results))))"

definition bfReply :: "bfResult list \<Rightarrow> reply" where
  "bfReply results = IntArray (map (\<lambda>r. if nilResult r then None else Some (bfvalue r)) results)"

definition handleBitField :: "'s env \<Rightarrow> int \<Rightarrow> bytes list \<Rightarrow> 's handler" where
  "handleBitField E db args =
     (case parseBitfieldOps (drop 2 args) of
        Inl msg \<Rightarrow> ret (Error msg)
      | Inr ops \<Rightarrow>
          (let hasWrite = (\<exists>op \<in> set ops. op_kind op \<noteq> BfGet); pk = encodePK (e_cfg E) db (args ! 1) in
           if \<not> hasWrite then
             withString E pk (ret (bfReply (snd (applyBitfield [] ops))))
               (\<lambda>cur. ret (bfReply (snd (applyBitfield cur ops))))
           else
             attempt (rmwString E pk (\<lambda>base _. bitFieldCompute (args ! 1) ops base) [])
               (\<lambda>(_, results). ret (bfReply results))))"

context conforming_env begin

lemma sim_setBitCompute [sim_intros]: "sim view (setBitCompute key off b base) (setBitCompute key off b base)"
  unfolding setBitCompute_def Let_def by (intro sim_intros)

lemma sim_bitFieldCompute [sim_intros]: "sim view (bitFieldCompute key ops base) (bitFieldCompute key ops base)"
  unfolding bitFieldCompute_def Let_def by (intro sim_intros)

lemma sim_bitop_sources [sim_intros]:
  "(\<And>ss. sim view (k ss) (k' ss)) \<Longrightarrow> sim view (bitop_sources E db sks srcs k) (bitop_sources E' db sks srcs k')"
  by (induction sks arbitrary: srcs) (auto intro!: sim_intros)

lemma sim_bit_commands [sim_intros]:
  "sim view (handleGetBit E db args) (handleGetBit E' db args)"
  "sim view (handleSetBit E db args) (handleSetBit E' db args)"
  "sim view (handleBitCount E db args) (handleBitCount E' db args)"
  "sim view (handleBitPos E db args) (handleBitPos E' db args)"
  "sim view (handleBitOp E db args) (handleBitOp E' db args)"
  "sim view (handleBitField E db args) (handleBitField E' db args)"
  unfolding handleGetBit_def handleSetBit_def handleBitCount_def handleBitPos_def handleBitOp_def
    handleBitField_def Let_def abs_env_simps
  by (intro sim_intros)+

end

end
