(* ===== verification/StringSpec.thy ===== *)
theory StringSpec
  imports BitCmds
begin

text \<open>
  What the String commands promise. The handlers are run over the abstract table (\<open>\<dots>_mem\<close> lemmas);
  the properties hold for every store that keeps the contract, by the simulation of \<open>Strings\<close>.
\<close>

section \<open>Runs over the abstract table\<close>

text \<open>The meta item of a key after a String value was written over whatever it held.\<close>

definition string_meta :: "tbl \<Rightarrow> bytes \<Rightarrow> smeta" where
  "string_meta t pk =
     (case live_meta t pk of
        None \<Rightarrow> fresh_meta TypeString
      | Some m \<Rightarrow> if m_type m = TypeString then m else fresh_meta TypeString)"

lemma overwriteString_mem:
  shows "fst (overwriteString (mem_env q cfg) pk val w) = Inr ()"
    and "t_meta (backend (snd (overwriteString (mem_env q cfg) pk val w))) = (t_meta (backend w))(pk := Some (string_meta (backend w) pk))"
    and "t_str (backend (snd (overwriteString (mem_env q cfg) pk val w))) = (t_str (backend w))(pk := Some val)"
    and "same_except {pk} (backend w) (backend (snd (overwriteString (mem_env q cfg) pk val w)))"
  by (auto simp: overwriteString_def bindE_def overwriteAnyType_def Meta_Load_mem ret_def call_mem
      sp_DeleteMembers_def DeleteMeta_mem ensureTypeExpiring_mem sp_SetString_def Let_def string_meta_def
      live_meta_def same_except_def fun_eq_iff split: option.split)

lemma string_meta_type [simp]: "m_type (string_meta t pk) = TypeString"
  by (simp add: string_meta_def split: option.split)

lemma string_meta_live [simp]: "\<not> IsExpired (string_meta t pk) (t_time t)"
  by (auto simp: string_meta_def live_meta_Some IsExpired_def split: option.splits)

text \<open>The table after SET, and whether it writes.\<close>

definition set_proceeds :: "setOptions \<Rightarrow> tbl \<Rightarrow> bytes \<Rightarrow> bool" where
  "set_proceeds opt t pk \<longleftrightarrow>
     (if nx opt then \<not> key_live t pk else xx opt \<longrightarrow> key_live t pk)"

definition set_exp :: "setOptions \<Rightarrow> int" where
  "set_exp opt = (if expSet opt then expEpoch opt else 0)"

lemma CreateTypeIfAbsent_mem:
  "Meta_CreateTypeIfAbsent (mem_env q cfg) pk ty d n w =
    (if live_at n (t_meta (backend w) pk) then (Inr False, w)
     else (Inr True, on_tbl (set_meta pk (Some \<lparr>m_type = ty, m_exp = 0, m_count = d\<rparr>)) w))"
  by (auto simp: Meta_CreateTypeIfAbsent_def call_mem sp_CreateTypeIfAbsent_def live_at_def on_tbl_def
      split: option.split)

lemma handleSet_mem:
  fixes q cfg db cmd key val opts w
  defines "run \<equiv> handleSet (mem_env q cfg) db (cmd # key # val # opts) w"
    and "t \<equiv> backend w" and "pk \<equiv> encodePK cfg db key"
  assumes opt: "parseSetOptions opts (t_time t) = Inr opt" and fits: "write_fits key [] [val]"
  shows "fst run = (if set_proceeds opt t pk then SimpleString ''OK'' else NullBulk)"
    and "\<not> set_proceeds opt t pk \<Longrightarrow> backend (snd run) = t"
    and "set_proceeds opt t pk \<Longrightarrow> 
      t_meta (backend (snd run)) = (t_meta t)(pk := Some ((string_meta t pk)\<lparr>m_exp := set_exp opt\<rparr>)) \<and>
      t_str (backend (snd run)) = (t_str t)(pk := Some val) \<and> same_except {pk} t (backend (snd run))"
proof -
  note simps = handleSet_def withNow_def attempt_def Let_def ret_def call_mem
  have fits': "CheckWrite key [] [val] w' = (Inr (), w')" for w' :: "tbl world"
    using fits by (simp add: CheckWrite_run)
  note o = overwriteString_mem [where pk = pk and val = val and w = w and q = q and cfg = cfg]
  show "fst run = (if set_proceeds opt t pk then SimpleString ''OK'' else NullBulk)"
    using opt o(1) unfolding run_def t_def pk_def
    by (auto simp: simps fits' set_proceeds_def CreateTypeIfAbsent_mem sp_DeleteMembers_def sp_SetString_def
        Meta_SetExpire_mem Meta_Persist_mem keyLive_mem live_meta_key_live key_live_def live_at_def
        simp del: not_None_eq split: option.splits)
  show "\<not> set_proceeds opt t pk \<Longrightarrow> backend (snd run) = t"
    using opt unfolding run_def t_def pk_def
    by (auto simp: simps fits' set_proceeds_def CreateTypeIfAbsent_mem keyLive_mem live_meta_key_live
        key_live_def live_at_def simp del: not_None_eq split: if_splits)
  assume "set_proceeds opt t pk"
  then show "
      t_meta (backend (snd run)) = (t_meta t)(pk := Some ((string_meta t pk)\<lparr>m_exp := set_exp opt\<rparr>)) \<and>
      t_str (backend (snd run)) = (t_str t)(pk := Some val) \<and> same_except {pk} t (backend (snd run))"
    using opt o unfolding run_def t_def pk_def
    by (auto simp: simps fits' set_proceeds_def CreateTypeIfAbsent_mem sp_DeleteMembers_def sp_SetString_def
        Meta_SetExpire_mem Meta_Persist_mem keyLive_mem live_meta_key_live key_live_def live_at_def set_exp_def
        same_except_def string_meta_def live_meta_def simp del: not_None_eq split: if_splits option.splits)
qed

lemma handleGet_mem:
  "handleGet (mem_env q cfg) db [cmd, key] w =
    ((let t = backend w; pk = encodePK cfg db key in
      case live_meta t pk of
        None \<Rightarrow> NullBulk
      | Some m \<Rightarrow>
          if m_type m \<noteq> TypeString then Error ErrWrongType
          else case t_str t pk of None \<Rightarrow> NullBulk | Some b \<Rightarrow> BulkString b), w)"
  by (auto simp: handleGet_def attempt_def Meta_Load_mem withNow_def ret_def call_mem sp_GetString_def Let_def
      live_meta_def on_tbl_def split: option.split)

lemma replyTTL_mem:
  "replyTTL (mem_env q cfg) db [cmd, key] millis w =
    (IntReply (let t = backend w in
      case live_meta t (encodePK cfg db key) of
        None \<Rightarrow> -2
      | Some m \<Rightarrow>
          if m_exp m = 0 then -1
          else let left = wrap64 (m_exp m - t_time t) in if millis then wrap64 (left * 1000) else left), w)"
  by (auto simp: replyTTL_def withNow_def attempt_def Meta_Load_mem ret_def Let_def live_meta_def
      split: option.splits)

lemma set_exp_bounds:
  assumes "parseSetOptions opts now = Inr opt" and "clock_ok now"
  shows "0 \<le> set_exp opt" "expiry_ok now (set_exp opt)"
proof -
  have n: "0 \<le> secExpiryEpoch now n \<and> 0 \<le> msExpiryEpoch now n" if "i64 n" "0 < n" for n
    using that assms(2) by (auto simp: secExpiryEpoch_eq msExpiryEpoch_eq clock_ok_def)
  have "expSet opt \<Longrightarrow> \<exists>n. i64 n \<and> 0 < n \<and> expEpoch opt \<in> {secExpiryEpoch now n, msExpiryEpoch now n}"
    using assms(1) ParseInt_i64
    by (fastforce simp: parseSetOptions_def split: sum.splits prod.splits option.splits if_splits)
  then show "0 \<le> set_exp opt" "expiry_ok now (set_exp opt)"
    using n assms(2) secExpiryEpoch_ok msExpiryEpoch_ok
    by (fastforce simp: set_exp_def expiry_ok_def clock_ok_def i64_def)+
qed

lemma handleSet_oversized:
  assumes "parseSetOptions opts (t_time (backend w)) = Inr opt" and "\<not> write_fits key [] [val]"
  shows "fst (handleSet (mem_env q cfg) db (cmd # key # val # opts) w) = Error ErrValueExceedsBackendLimit"
    and "backend (snd (handleSet (mem_env q cfg) db (cmd # key # val # opts) w)) = backend w"
  using assms by (simp_all add: handleSet_def withNow_def attempt_def CheckWrite_run writeStoreError_def Let_def)

section \<open>SET\<close>

text \<open>
  C15: SET, with every combination of its options, against whatever the key held before. It writes
  unless NX finds the key live or XX does not, or the value is oversized, and then leaves the table
  as it was; otherwise it replies OK, GET afterwards replies the value (nil when the given expiry
  is already over), TTL the remaining seconds (-1 without an expiry: an old one is discarded), and
  no other key changes.
\<close>

theorem set_get:
  assumes "conforming_env E view" and "t = view (backend w)" and "clock_ok (t_time t)"
    and "parseSetOptions opts (t_time t) = Inr opt" and "pk = encodePK (e_cfg E) db key"
    and "run = handleSet E db (cmd # key # val # opts) w" and "w' = snd run" and "t' = view (backend w')"
  shows "if \<not> write_fits key [] [val] then fst run = Error ErrValueExceedsBackendLimit \<and> t' = t
    else if \<not> set_proceeds opt t pk then fst run = NullBulk \<and> t' = t
    else fst run = SimpleString ''OK'' \<and> same_except {pk} t t' \<and>
      (let e = set_exp opt; over = (0 < e \<and> e \<le> t_time t) in
        fst (handleGet E db [cmd', key] w') = (if over then NullBulk else BulkString val) \<and>
        fst (handleTTL E db [cmd', key] w') =
          IntReply (if over then -2 else if e = 0 then -1 else e - t_time t))"
proof -
  note sims = conforming_env.sim_string_commands [OF assms(1)] conforming_env.sim_key_commands [OF assms(1)]
  note set = sims(2) [of db "cmd # key # val # opts"]
  let ?W = "wview view w" and ?E = "mem_env (e_enq E) (e_cfg E)"
  let ?run = "handleSet ?E db (cmd # key # val # opts) ?W"
  have b: "backend ?W = t" "backend (wview view w') = t'" using assms(2,8) by simp_all
  have run: "fst run = fst ?run" "t' = backend (snd ?run)"
    using sim_fst [OF set] sim_backend [OF set] assms(6-8) by (simp_all add: abs_env_mem_env)
  show ?thesis
  proof (cases "write_fits key [] [val]")
    case False
    then show ?thesis
      using run handleSet_oversized [of opts ?W opt key val] assms(4) b(1) by simp
  next
    case True
    note mem = handleSet_mem [where w = "?W" and opts = opts and opt = opt and key = key and val = val
        and q = "e_enq E" and cfg = "e_cfg E" and db = db and cmd = cmd, unfolded b(1),
        OF assms(4) True, folded assms(5)]
    show ?thesis
    proof (cases "set_proceeds opt t pk")
      case False
      with mem(1,2) run \<open>write_fits key [] [val]\<close> show ?thesis by simp
    next
      case proceeds: True
      let ?m = "(string_meta t pk)\<lparr>m_exp := set_exp opt\<rparr>"
      have t': "t_meta t' = (t_meta t)(pk := Some ?m)" "t_str t' = (t_str t)(pk := Some val)"
          "same_except {pk} t t'"
        using mem(3) [OF proceeds] run(2) by simp_all
      have time: "t_time t' = t_time t" using t'(3) by (simp add: same_except_def)
      note exp = set_exp_bounds [OF assms(4,3)]
      then have left: "t_time t < set_exp opt \<Longrightarrow> i64 (set_exp opt - t_time t)"
        using assms(3) by (auto simp: expiry_ok_def clock_ok_def i64_def)
      have live: "live_meta t' pk = (if 0 < set_exp opt \<and> set_exp opt \<le> t_time t then None else Some ?m)"
        using t' time by (simp add: live_meta_def IsExpired_def)
      have get: "fst (handleGet E db [cmd', key] w') =
          (if 0 < set_exp opt \<and> set_exp opt \<le> t_time t then NullBulk else BulkString val)"
        using live t' assms(5)
        by (simp add: sim_fst [OF sims(1)] abs_env_mem_env handleGet_mem assms(8) [symmetric] Let_def)
      have ttl: "fst (handleTTL E db [cmd', key] w') =
          IntReply (if 0 < set_exp opt \<and> set_exp opt \<le> t_time t then -2
            else if set_exp opt = 0 then -1 else set_exp opt - t_time t)"
        using live t' assms(5) exp(1) left time
        by (simp add: sim_fst [OF conforming_env.sim_replyTTL [OF assms(1)]] abs_env_mem_env handleTTL_def replyTTL_mem assms(8) [symmetric] Let_def)
      show ?thesis
        using get ttl t'(3) run(1) mem(1) proceeds True by (simp add: Let_def)
    qed
  qed
qed

theorem set_get_witness:
  "fst (handleGet (mem_env SyncDeleter cfg0) 0 [''GET'', ''k'']
     (snd (handleSet (mem_env SyncDeleter cfg0) 0 [''SET'', ''k'', ''new''] (mem_world demo_tbl)))) = BulkString ''new''"
proof -
  have fits: "write_fits ''k'' [] [''new'']"
    by (simp add: write_fits_def nameTooLarge_def valueTooLarge_def MaxNameSize_def MaxValueSize_def)
  have opt: "parseSetOptions [] (t_time demo_tbl) = Inr \<lparr>nx = False, xx = False, expSet = False, expEpoch = 0\<rparr>"
    by (simp add: parseSetOptions_def setOptLoop.simps)
  show ?thesis
    using set_get [OF conforming_mem [of SyncDeleter cfg0] refl _ _ refl refl refl refl,
        where w = "mem_world demo_tbl" and opts = "[]" and key = "''k''" and val = "''new''" and db = 0
          and cmd = "''SET''" and cmd' = "''GET''"] fits opt
    by (simp add: clock_ok_def encodePK_def set_proceeds_def set_exp_def)
qed

section \<open>Read-modify-write\<close>

text \<open>The value a read-modify-write builds on: that of a live String, else empty.\<close>

definition string_value :: "tbl \<Rightarrow> bytes \<Rightarrow> bytes" where
  "string_value t pk =
     (case live_meta t pk of
        None \<Rightarrow> []
      | Some m \<Rightarrow> if m_type m = TypeString then (case t_str t pk of None \<Rightarrow> [] | Some v \<Rightarrow> v) else [])"

lemma withString_mem:
  "withString (mem_env q cfg) pk f g w =
    (if wrong_type (backend w) pk TypeString then (Error ErrWrongType, w)
     else if key_live (backend w) pk then g (string_value (backend w) pk) w
     else f w)"
  by (auto simp: withString_def readCurrentString_def attempt_def bindE_def Meta_Load_mem withNow_def ret_def
      call_mem sp_GetString_def wrong_type_def string_value_def live_meta_def key_live_def live_at_def
      split: option.splits)

lemma readStringForRMW_mem:
  "readStringForRMW (mem_env q cfg) pk w =
    (Inr (string_value (backend w) pk, t_str (backend w) pk, wrong_type (backend w) pk TypeString), w)"
  by (auto simp: readStringForRMW_def bindE_def Meta_Load_mem withNow_def ret_def call_mem sp_GetString_def
      Let_def wrong_type_def string_value_def live_meta_def split: option.splits)

lemma ensureType_string:
  assumes "\<not> wrong_type (backend w) pk TypeString"
  shows "\<exists>w'. ensureTypeExpiring (mem_env q cfg) pk TypeString w = (Inr (), w') \<and>
      t_meta (backend w') = (t_meta (backend w))(pk := Some (string_meta (backend w) pk)) \<and>
      same_except {pk} (backend w) (backend w') \<and>
      (t_str (backend w') = t_str (backend w) \<or>
       \<not> key_live (backend w) pk \<and> t_str (backend w') = (t_str (backend w))(pk := None))"
  using assms
  by (auto simp: ensureTypeExpiring_mem wrong_type_def string_meta_def live_meta_def same_except_def
      key_live_def live_at_def split: option.splits)

text \<open>
  What a \<open>compute\<close> callback may do: it is a function of the base and its captured variable, whatever the
  world, and a second attempt on the same base repeats the result.
\<close>

definition computes ::
    "(bytes \<Rightarrow> 'r \<Rightarrow> (tbl, serr + (bytes \<times> 'r)) act) \<Rightarrow> (bytes \<Rightarrow> 'r \<Rightarrow> serr + (bytes \<times> 'r)) \<Rightarrow> bool" where
  "computes compute f \<longleftrightarrow>
     (\<forall>base cap w. fst (compute base cap w) = f base cap \<and> backend (snd (compute base cap w)) = backend w) \<and>
     (\<forall>base cap nxt r. f base cap = Inr (nxt, r) \<longrightarrow> f base r = Inr (nxt, r))"

lemma computes_run:
  "computes compute f \<Longrightarrow> f base cap = x \<Longrightarrow> \<exists>w1. compute base cap w = (x, w1) \<and> backend w1 = backend w"
  by (rule exI [of _ "snd (compute base cap w)"]) (simp add: computes_def prod_eq_iff)

lemma computes_again: "computes compute f \<Longrightarrow> f base cap = Inr (nxt, r) \<Longrightarrow> f base r = Inr (nxt, r)"
  unfolding computes_def by blast

text \<open>
  One attempt: it succeeds, or the takeover of an expired key removed the item the
  compare-and-set expected.
\<close>

lemma rmwLoop_step:
  assumes "computes compute f" and "\<not> wrong_type (backend w) pk TypeString"
    and "f (string_value (backend w) pk) cap = Inr (nxt, r)"
  obtains w' where "t_meta (backend w') = (t_meta (backend w))(pk := Some (string_meta (backend w) pk))"
      "same_except {pk} (backend w) (backend w')"
    and "rmwLoop (Suc n) (mem_env q cfg) pk compute cap w = (Inr (int (length nxt), r), w') \<and>
        t_str (backend w') = (t_str (backend w))(pk := Some nxt) \<or>
      rmwLoop (Suc n) (mem_env q cfg) pk compute cap w = rmwLoop n (mem_env q cfg) pk compute r w' \<and>
        \<not> key_live (backend w) pk \<and> t_str (backend w') = (t_str (backend w))(pk := None)"
proof -
  obtain w1 where c: "compute (string_value (backend w) pk) cap w = (Inr (nxt, r), w1)" "backend w1 = backend w"
    using computes_run [OF assms(1,3)] by blast
  from ensureType_string [of w1 pk q cfg, unfolded c(2), OF assms(2)] obtain w2
    where e: "ensureTypeExpiring (mem_env q cfg) pk TypeString w1 = (Inr (), w2)"
      "t_meta (backend w2) = (t_meta (backend w))(pk := Some (string_meta (backend w) pk))"
      "same_except {pk} (backend w) (backend w2)"
      "t_str (backend w2) = t_str (backend w) \<or>
        \<not> key_live (backend w) pk \<and> t_str (backend w2) = (t_str (backend w))(pk := None)"
    by blast
  define ok where "ok \<longleftrightarrow> t_str (backend w2) pk = t_str (backend w) pk"
  define w3 where "w3 = (if ok then on_tbl (set_str pk (Some nxt)) w2 else w2)"
  have run: "rmwLoop (Suc n) (mem_env q cfg) pk compute cap w =
      (if ok then (Inr (int (length nxt), r), w3) else rmwLoop n (mem_env q cfg) pk compute r w3)"
    using assms(2) by (simp add: bindE_def readStringForRMW_mem c e(1) call_mem sp_SetStringIfEquals_def
        ret_def ok_def w3_def on_tbl_def)
  show ?thesis
  proof (rule that [of w3])
    show "t_meta (backend w3) = (t_meta (backend w))(pk := Some (string_meta (backend w) pk))"
      using e(2) by (simp add: w3_def)
    show "same_except {pk} (backend w) (backend w3)"
      using e(3) by (auto simp: w3_def same_except_def)
    show "rmwLoop (Suc n) (mem_env q cfg) pk compute cap w = (Inr (int (length nxt), r), w3) \<and>
        t_str (backend w3) = (t_str (backend w))(pk := Some nxt) \<or>
      rmwLoop (Suc n) (mem_env q cfg) pk compute cap w = rmwLoop n (mem_env q cfg) pk compute r w3 \<and>
        \<not> key_live (backend w) pk \<and> t_str (backend w3) = (t_str (backend w))(pk := None)"
    proof (cases ok)
      case True
      then show ?thesis
        unfolding run w3_def using e(4) by (simp only: if_True on_tbl_simps set_str_simps) auto
    next
      case False
      then show ?thesis unfolding run w3_def using e(4) by (simp only: if_False) (auto simp: ok_def)
    qed
  qed
qed

lemma rmwString_mem:
  fixes q cfg pk cap
  assumes "computes compute f"
  defines "run \<equiv> \<lambda>w. rmwString (mem_env q cfg) pk compute cap w"
  shows "wrong_type (backend w) pk TypeString \<Longrightarrow> run w = (Inl MetaWrongType, w)"
    and "\<not> wrong_type (backend w) pk TypeString \<Longrightarrow> f (string_value (backend w) pk) cap = Inl e \<Longrightarrow>
      fst (run w) = Inl e \<and> backend (snd (run w)) = backend w"
    and "\<not> wrong_type (backend w) pk TypeString \<Longrightarrow> f (string_value (backend w) pk) cap = Inr (nxt, r) \<Longrightarrow>
      fst (run w) = Inr (int (length nxt), r) \<and> same_except {pk} (backend w) (backend (snd (run w))) \<and>
      t_meta (backend (snd (run w))) = (t_meta (backend w))(pk := Some (string_meta (backend w) pk)) \<and>
      t_str (backend (snd (run w))) = (t_str (backend w))(pk := Some nxt)"
proof -
  obtain k where fuel: "MaxRMWRetries = Suc (Suc k)"
    using that [of 48] by (simp add: MaxRMWRetries_def)
  show "wrong_type (backend w) pk TypeString \<Longrightarrow> run w = (Inl MetaWrongType, w)"
    by (simp add: run_def rmwString_def fuel bindE_def readStringForRMW_mem ret_def)
  {
    assume nw: "\<not> wrong_type (backend w) pk TypeString" and f: "f (string_value (backend w) pk) cap = Inl e"
    obtain w1 where "compute (string_value (backend w) pk) cap w = (Inl e, w1)" "backend w1 = backend w"
      using computes_run [OF assms(1) f] by blast
    with nw show "fst (run w) = Inl e \<and> backend (snd (run w)) = backend w"
      by (simp add: run_def rmwString_def fuel bindE_def readStringForRMW_mem)
  }
  assume nw: "\<not> wrong_type (backend w) pk TypeString" and f: "f (string_value (backend w) pk) cap = Inr (nxt, r)"
  let ?m = "string_meta (backend w) pk"
  from rmwLoop_step [OF assms(1) nw f, of "Suc k" q cfg] obtain w1
    where w1: "t_meta (backend w1) = (t_meta (backend w))(pk := Some ?m)" "same_except {pk} (backend w) (backend w1)"
      "run w = (Inr (int (length nxt), r), w1) \<and> t_str (backend w1) = (t_str (backend w))(pk := Some nxt) \<or>
       run w = rmwLoop (Suc k) (mem_env q cfg) pk compute r w1 \<and>
        \<not> key_live (backend w) pk \<and> t_str (backend w1) = (t_str (backend w))(pk := None)"
    unfolding run_def rmwString_def fuel by blast
  from w1(3) show "fst (run w) = Inr (int (length nxt), r) \<and> same_except {pk} (backend w) (backend (snd (run w))) \<and>
      t_meta (backend (snd (run w))) = (t_meta (backend w))(pk := Some ?m) \<and>
      t_str (backend (snd (run w))) = (t_str (backend w))(pk := Some nxt)"
  proof
    assume again: "run w = rmwLoop (Suc k) (mem_env q cfg) pk compute r w1 \<and>
        \<not> key_live (backend w) pk \<and> t_str (backend w1) = (t_str (backend w))(pk := None)"
    have time: "t_time (backend w1) = t_time (backend w)" using w1(2) by (simp add: same_except_def)
    then have live1: "live_meta (backend w1) pk = Some ?m"
      using w1(1) by (simp add: live_meta_Some)
    have "live_meta (backend w) pk = None" using again live_meta_key_live by blast
    then have "string_value (backend w1) pk = string_value (backend w) pk"
      and nw1: "\<not> wrong_type (backend w1) pk TypeString" and m1: "string_meta (backend w1) pk = ?m"
      using again live1 by (simp_all add: string_value_def wrong_type_def string_meta_def [of "backend w1"])
    with computes_again [OF assms(1) f] have f1: "f (string_value (backend w1) pk) r = Inr (nxt, r)" by simp
    from rmwLoop_step [OF assms(1) nw1 f1, of k q cfg] obtain w2
      where w2: "t_meta (backend w2) = (t_meta (backend w1))(pk := Some ?m)"
        "same_except {pk} (backend w1) (backend w2)"
        "rmwLoop (Suc k) (mem_env q cfg) pk compute r w1 = (Inr (int (length nxt), r), w2)"
        "t_str (backend w2) = (t_str (backend w1))(pk := Some nxt)"
      using live1 live_meta_key_live [of "backend w1" pk] unfolding m1 by auto
    with again w1 show ?thesis
      using same_except_trans [OF w1(2) w2(2), of "{pk}"] by simp
  qed (use w1 in simp)
qed

definition rmw_outcome :: "tbl \<Rightarrow> bytes \<Rightarrow> (bytes \<Rightarrow> serr + (bytes \<times> 'r)) \<Rightarrow> serr + (bytes \<times> 'r)" where
  "rmw_outcome t pk f = (if wrong_type t pk TypeString then Inl MetaWrongType else f (string_value t pk))"

text \<open>Only the String at \<open>pk\<close> changed, to \<open>v\<close>; the expiry of a live String is kept.\<close>

definition string_written :: "tbl \<Rightarrow> bytes \<Rightarrow> bytes \<Rightarrow> tbl \<Rightarrow> bool" where
  "string_written t pk v t' \<longleftrightarrow> same_except {pk} t t' \<and>
     t_meta t' = (t_meta t)(pk := Some (string_meta t pk)) \<and> t_str t' = (t_str t)(pk := Some v)"

lemma string_written_read:
  assumes "string_written t pk v t'"
  shows "live_meta t' pk = Some (string_meta t pk)" "string_value t' pk = v" "key_live t' pk"
    "\<not> wrong_type t' pk TypeString" "t_str t' pk = Some v"
proof -
  show l: "live_meta t' pk = Some (string_meta t pk)"
    using assms by (simp add: string_written_def live_meta_Some same_except_def)
  then show "string_value t' pk = v" "key_live t' pk" "\<not> wrong_type t' pk TypeString" "t_str t' pk = Some v"
    using assms live_meta_key_live [of t' pk]
    by (simp_all add: string_written_def string_value_def wrong_type_def)
qed

lemma rmw_run:
  assumes "conforming_env E view" and "computes compute' f" and "\<And>b c. sim view (compute b c) (compute' b c)"
    and "t = view (backend w)" and "run = rmwString E pk compute cap w"
  shows "case rmw_outcome t pk (\<lambda>b. f b cap) of
      Inl e \<Rightarrow> fst run = Inl e \<and> view (backend (snd run)) = t
    | Inr (nxt, r) \<Rightarrow> fst run = Inr (int (length nxt), r) \<and> string_written t pk nxt (view (backend (snd run)))"
proof -
  let ?E = "mem_env (e_enq E) (e_cfg E)" and ?W = "wview view w"
  have "sim view (rmwString E pk compute cap) (rmwString ?E pk compute' cap)"
    using conforming_env.sim_rmwString [OF assms(1,3)] by (simp add: abs_env_mem_env)
  then have s: "fst run = fst (rmwString ?E pk compute' cap ?W)"
    "view (backend (snd run)) = backend (snd (rmwString ?E pk compute' cap ?W))"
    unfolding assms(5) by (auto dest: sim_fst sim_backend)
  note mem = rmwString_mem [OF assms(2), where w = ?W and pk = pk and cap = cap and q = "e_enq E" and cfg = "e_cfg E"]
  show ?thesis
  proof (cases "wrong_type t pk TypeString")
    case True
    then show ?thesis using mem(1) s assms(4) by (simp add: rmw_outcome_def)
  next
    case False
    then show ?thesis
      using mem(2,3) s assms(4)
      by (cases "f (string_value t pk) cap") (auto simp: rmw_outcome_def string_written_def split: prod.split)
  qed
qed

lemma rmw_handler:
  assumes "conforming_env E view" and "computes compute' f" and "\<And>b c. sim view (compute b c) (compute' b c)"
    and "t = view (backend w)" and "run = attempt (rmwString E pk compute cap) (\<lambda>(n, r). ret (g n r)) w"
  shows "case rmw_outcome t pk (\<lambda>b. f b cap) of
      Inl e \<Rightarrow> fst run = writeStoreError e \<and> view (backend (snd run)) = t
    | Inr (nxt, r) \<Rightarrow> fst run = g (int (length nxt)) r \<and> string_written t pk nxt (view (backend (snd run)))"
  using rmw_run [OF assms(1-4) refl, where pk = pk and cap = cap]
  by (auto simp: assms(5) attempt_def ret_def split: sum.splits prod.splits)

definition append_result :: "bytes \<Rightarrow> bytes \<Rightarrow> bytes \<Rightarrow> serr + (bytes \<times> unit)" where
  "append_result key val base =
     (if write_fits key [] [base @ val] then Inr (base @ val, ()) else Inl SizeExceeded)"

lemma append_computes:
  "computes (\<lambda>base _. appendCompute key val base) (\<lambda>base _. append_result key val base)"
  by (simp add: computes_def appendCompute_def append_result_def bindE_def CheckWrite_run ret_def)

definition setRange_result :: "bytes \<Rightarrow> int \<Rightarrow> bytes \<Rightarrow> bytes \<Rightarrow> serr + (bytes \<times> unit)" where
  "setRange_result key off val base =
     (if off + int (length val) \<le> int MaxValueSize \<and> length base \<le> MaxValueSize \<and> \<not> nameTooLarge key
      then Inr (setRangeBytes base (nat off) val, ()) else Inl SizeExceeded)"

text \<open>
  The first test of SETRANGE only fires for offsets near the top of \<^verbatim>\<open>int64\<close>, which the size cap
  rejects too; the length of a slice is far below it.
\<close>

lemma setRange_computes:
  assumes "0 \<le> off" and "int (length val) \<le> max_i64"
  shows "computes (\<lambda>base _. setRangeCompute key off val base) (\<lambda>base _. setRange_result key off val base)"
proof -
  have w: "wrap64 (max_i64 - int (length val)) = max_i64 - int (length val)"
    using assms(2) by (intro wrap64_id) (simp add: i64_def)
  show ?thesis
    using assms unfolding computes_def setRangeCompute_def setRange_result_def w
    by (auto simp: bindE_def CheckWrite_run CheckValueSize_def intercept_def ret_def write_fits_def
        MaxValueSize_def max_def)
qed

text \<open>
  C16: APPEND. A live key of another type is an error, so is a result over the size limit; in both
  cases nothing changes. Otherwise the value becomes the old one (that of a live String, else
  empty) followed by the argument, the reply is its length, the expiry of a live String stays, no
  other key changes, and GET returns the new value. The compare-and-set loop never gives up.
\<close>

theorem append_spec:
  assumes "conforming_env E view" and "t = view (backend w)" and "pk = encodePK (e_cfg E) db key"
    and "run = handleAppend E db [cmd, key, val] w" and "t' = view (backend (snd run))"
    and "new = string_value t pk @ val"
  shows "if wrong_type t pk TypeString then fst run = Error ErrWrongType \<and> t' = t
    else if \<not> write_fits key [] [new] then fst run = Error ErrValueExceedsBackendLimit \<and> t' = t
    else fst run = IntReply (int (length new)) \<and> string_written t pk new t' \<and>
      fst (handleGet E db [cmd', key] (snd run)) = BulkString new"
proof -
  have run: "run = attempt (rmwString E pk (\<lambda>base _. appendCompute key val base) ()) (\<lambda>(n, r). ret (IntReply n)) w"
    by (simp add: assms(3,4) handleAppend_def)
  have "case rmw_outcome t pk (append_result key val) of
      Inl e \<Rightarrow> fst run = writeStoreError e \<and> t' = t
    | Inr (nxt, r) \<Rightarrow> fst run = IntReply (int (length nxt)) \<and> string_written t pk nxt t'"
    unfolding assms(5)
    by (rule rmw_handler [OF assms(1) append_computes conforming_env.sim_appendCompute [OF assms(1)] assms(2) run])
  moreover have "string_written t pk new t' \<Longrightarrow> fst (handleGet E db [cmd', key] (snd run)) = BulkString new"
    using sim_fst [OF conforming_env.sim_string_commands(1) [OF assms(1)]] string_written_read [of t pk new t']
    by (simp add: abs_env_mem_env handleGet_mem assms(3) assms(5) [symmetric] Let_def)
  ultimately show ?thesis
    by (auto simp: rmw_outcome_def append_result_def writeStoreError_def assms(6))
qed

theorem append_spec_witness:
  "fst (handleGet (mem_env SyncDeleter cfg0) 0 [''GET'', ''k'']
     (snd (handleAppend (mem_env SyncDeleter cfg0) 0 [''APPEND'', ''k'', ''w''] (mem_world demo_tbl)))) = BulkString ''vw''"
proof -
  have "write_fits ''k'' [] [''vw'']"
    by (simp add: write_fits_def nameTooLarge_def valueTooLarge_def MaxNameSize_def MaxValueSize_def)
  moreover have "string_value demo_tbl ''k'' = ''v''" "\<not> wrong_type demo_tbl ''k'' TypeString"
    by (simp_all add: string_value_def wrong_type_def live_meta_def IsExpired_def)
  ultimately show ?thesis
    using append_spec [OF conforming_mem [of SyncDeleter cfg0] refl refl refl refl refl,
        where w = "mem_world demo_tbl" and key = "''k''" and val = "''w''" and db = 0
          and cmd = "''APPEND''" and cmd' = "''GET''"]
    by (simp add: encodePK_def)
qed

text \<open>The bytes SETRANGE writes: zero padding up to the offset, the value, what lay behind it.\<close>

lemma setRangeBytes_parts:
  "length (setRangeBytes base off val) = max (length base) (off + length val)"
  "take off (setRangeBytes base off val) = take off (grow off base)"
  "take (length val) (drop off (setRangeBytes base off val)) = val"
  "drop (off + length val) (setRangeBytes base off val) = drop (off + length val) base"
  by (auto simp: setRangeBytes_def grow_def Let_def min_def max_def split: if_splits)

lemma handleGetRange_mem:
  assumes "ParseInt a = Inr start" and "ParseInt b = Inr stop" and "key_live (backend w) (encodePK cfg db key)"
    and "\<not> wrong_type (backend w) (encodePK cfg db key) TypeString"
    and "cur = string_value (backend w) (encodePK cfg db key)" and "0 \<le> start" "start \<le> stop"
    and "stop < int (length cur)" "int (length cur) \<le> max_i64"
  shows "handleGetRange (mem_env q cfg) db [cmd, key, a, b] w =
    (BulkString (take (nat (stop - start + 1)) (drop (nat start) cur)), w)"
proof -
  have "wrap64 (stop + 1) = stop + 1" using assms(6-9) by (intro wrap64_nonneg) auto
  then have "rangeBounds (int (length cur)) start stop = (start, stop + 1)"
    using assms(6-9) by (simp add: rangeBounds_def Let_def)
  then show ?thesis
    using assms by (auto simp: handleGetRange_def withString_mem ret_def add.commute algebra_simps)
qed

text \<open>
  SETRANGE then GETRANGE. For a non-empty value at any offset the result of SETRANGE is as long as
  the old value and the written range require (that is the reply); the bytes before the offset are
  the old ones, zero-padded, those behind the range are untouched, and GETRANGE over exactly the
  written range returns the value. A wrong type or a result over the size limit changes nothing.
\<close>

lemma setrange_getrange:
  assumes "conforming_env E view" and "t = view (backend w)" and "pk = encodePK (e_cfg E) db key"
    and "ParseInt a = Inr off" and "0 \<le> off" and "val \<noteq> []" and "int (length val) \<le> max_i64"
    and "run = handleSetRange E db [cmd, key, a, val] w" and "t' = view (backend (snd run))"
    and "cur = string_value t pk" and "len = max (length cur) (nat off + length val)"
    and "ParseInt b = Inr (off + int (length val) - 1)"
  shows "if wrong_type t pk TypeString then fst run = Error ErrWrongType \<and> t' = t
    else if len > MaxValueSize \<or> nameTooLarge key then fst run = Error ErrValueExceedsBackendLimit \<and> t' = t
    else fst run = IntReply (int len) \<and>
      fst (handleGetRange E db [cmd', key, a, b] (snd run)) = BulkString val \<and>
      (\<exists>new. string_written t pk new t' \<and> length new = len \<and>
        take (nat off) new = take (nat off) (grow (nat off) cur) \<and>
        drop (nat off + length val) new = drop (nat off + length val) cur)"
proof -
  have run: "run = attempt (rmwString E pk (\<lambda>base _. setRangeCompute key off val base) ()) (\<lambda>(n, r). ret (IntReply n)) w"
    using assms(3-6,8) by (simp add: handleSetRange_def)
  have out: "case rmw_outcome t pk (setRange_result key off val) of
      Inl e \<Rightarrow> fst run = writeStoreError e \<and> t' = t
    | Inr (nxt, r) \<Rightarrow> fst run = IntReply (int (length nxt)) \<and> string_written t pk nxt t'"
    unfolding assms(9)
    by (rule rmw_handler [OF assms(1) setRange_computes [OF assms(5,7)]
          conforming_env.sim_setRangeCompute [OF assms(1)] assms(2) run])
  have fits: "off + int (length val) \<le> int MaxValueSize \<and> length cur \<le> MaxValueSize \<longleftrightarrow> \<not> len > MaxValueSize"
    using assms(5,11) by auto
  let ?new = "setRangeBytes cur (nat off) val"
  show ?thesis
  proof (cases "wrong_type t pk TypeString \<or> len > MaxValueSize \<or> nameTooLarge key")
    case True
    then show ?thesis
      using out fits by (auto simp: rmw_outcome_def setRange_result_def writeStoreError_def assms(10) [symmetric])
  next
    case False
    then have w: "fst run = IntReply (int (length ?new))" "string_written t pk ?new t'"
      using out fits by (simp_all add: rmw_outcome_def setRange_result_def assms(10) [symmetric])
    have len: "length ?new = len" using assms(11) by (simp add: setRangeBytes_parts)
    note read = string_written_read [OF w(2)]
    have "handleGetRange (mem_env (e_enq E) (e_cfg E)) db [cmd', key, a, b] (wview view (snd run)) =
        (BulkString (take (nat ((off + int (length val) - 1) - off + 1)) (drop (nat off) ?new)), wview view (snd run))"
    proof (rule handleGetRange_mem [OF assms(4,12)])
      show "0 \<le> off" "off \<le> off + int (length val) - 1" using assms(5,6) by (simp_all add: Suc_leI)
      show "off + int (length val) - 1 < int (length ?new)" using assms(5) by (auto simp: setRangeBytes_parts)
      show "int (length ?new) \<le> max_i64" using False len by (simp add: MaxValueSize_def)
    qed (use read assms(3,9) in simp_all)
    then have "fst (handleGetRange E db [cmd', key, a, b] (snd run)) = BulkString val"
      using sim_fst [OF conforming_env.sim_string_commands(17) [OF assms(1)]]
      by (simp add: abs_env_mem_env setRangeBytes_parts)
    moreover have "\<exists>new. string_written t pk new t' \<and> length new = len \<and>
        take (nat off) new = take (nat off) (grow (nat off) cur) \<and>
        drop (nat off + length val) new = drop (nat off + length val) cur"
      using w(2) len by (intro exI [of _ ?new]) (simp add: setRangeBytes_parts)
    ultimately show ?thesis using False w(1) len by simp
  qed
qed

lemma demo_value: "string_value demo_tbl ''k'' = ''v''" "\<not> wrong_type demo_tbl ''k'' TypeString"
  by (simp_all add: string_value_def wrong_type_def live_meta_def IsExpired_def)

lemma setrange_getrange_instance:
  "fst (handleGetRange (mem_env SyncDeleter cfg0) 0 [''GETRANGE'', ''k'', ''3'', ''4'']
     (snd (handleSetRange (mem_env SyncDeleter cfg0) 0 [''SETRANGE'', ''k'', ''3'', ''xy''] (mem_world demo_tbl))))
   = BulkString ''xy''"
proof -
  have args: "ParseInt ''3'' = Inr 3" "ParseInt ''4'' = Inr (3 + int (length ''xy'') - 1)"
    by (simp_all add: ParseInt_iff i64_def fmt_int_def fmt_nat.simps)
  show ?thesis
    using setrange_getrange [OF conforming_mem [of SyncDeleter cfg0] refl refl args(1) _ _ _ refl refl refl refl args(2),
        where w = "mem_world demo_tbl" and key = "''k''" and db = 0
          and cmd = "''SETRANGE''" and cmd' = "''GETRANGE''"] demo_value
    by (simp add: encodePK_def MaxValueSize_def nameTooLarge_def MaxNameSize_def)
qed

definition setBit_result :: "bytes \<Rightarrow> int \<Rightarrow> int \<Rightarrow> bytes \<Rightarrow> serr + (bytes \<times> int)" where
  "setBit_result key off v base =
     (if off div 8 < int MaxValueSize \<and> length base \<le> MaxValueSize \<and> \<not> nameTooLarge key
      then Inr (setBitBytes base (nat off) v) else Inl SizeExceeded)"

lemma setBit_computes:
  assumes "0 \<le> off"
  shows "computes (\<lambda>base _. setBitCompute key off v base) (\<lambda>base _. setBit_result key off v base)"
proof -
  have "length (fst (setBitBytes base (nat off) v)) = max (length base) (nat (off div 8) + 1)" for base
    using assms by (simp add: setBitBytes_spec nat_div_distrib)
  then have "write_fits key [] [fst (setBitBytes base (nat off) v)] \<longleftrightarrow>
      off div 8 < int MaxValueSize \<and> length base \<le> MaxValueSize \<and> \<not> nameTooLarge key"
    if "off div 8 + 1 \<le> int MaxValueSize" for base
    using that assms by (auto simp: write_fits_def valueTooLarge_def)
  then show ?thesis
    by (auto simp: computes_def setBitCompute_def setBit_result_def bindE_def CheckWrite_run CheckValueSize_def
        intercept_def ret_def case_prod_beta)
qed

lemma handleGetBit_mem:
  assumes "parseBitOffset a = Some off" and "key_live (backend w) (encodePK cfg db key)"
    and "\<not> wrong_type (backend w) (encodePK cfg db key) TypeString"
  shows "handleGetBit (mem_env q cfg) db [cmd, key, a] w =
    (IntReply (of_bool (bit_at (string_value (backend w) (encodePK cfg db key)) (nat off))), w)"
  using assms by (simp add: handleGetBit_def withString_mem ret_def getBit_bit_at)

text \<open>
  SETBIT then GETBIT. SETBIT replies the bit that was at the offset; afterwards GETBIT at that
  offset replies the new bit and at every other offset, inside the value or past its end, what it
  replied before. A wrong type, or an offset whose byte lies behind the size limit, changes nothing.
\<close>

lemma setbit_getbit:
  assumes "conforming_env E view" and "t = view (backend w)" and "pk = encodePK (e_cfg E) db key"
    and "parseBitOffset a = Some off" and "parseBitValue b = Some v" and "parseBitOffset a' = Some off'"
    and "run = handleSetBit E db [cmd, key, a, b] w" and "t' = view (backend (snd run))"
    and "cur = string_value t pk"
  shows "if wrong_type t pk TypeString then fst run = Error ErrWrongType \<and> t' = t
    else if off div 8 \<ge> int MaxValueSize \<or> length cur > MaxValueSize \<or> nameTooLarge key
      then fst run = Error ErrValueExceedsBackendLimit \<and> t' = t
    else fst run = IntReply (of_bool (bit_at cur (nat off))) \<and> same_except {pk} t t' \<and>
      fst (handleGetBit E db [cmd', key, a'] (snd run)) =
        IntReply (if off' = off then v else of_bool (bit_at cur (nat off')))"
proof -
  have off: "0 \<le> off" "0 \<le> off'" and v: "v = 0 \<or> v = 1"
    using assms(4-6) by (auto simp: parseBitOffset_def parseBitValue_def split: sum.splits if_splits)
  have run: "run = attempt (rmwString E pk (\<lambda>base _. setBitCompute key off v base) 0) (\<lambda>(n, r). ret (IntReply r)) w"
    using assms(3-5,7) by (simp add: handleSetBit_def)
  have out: "case rmw_outcome t pk (setBit_result key off v) of
      Inl e \<Rightarrow> fst run = writeStoreError e \<and> t' = t
    | Inr (nxt, r) \<Rightarrow> fst run = IntReply r \<and> string_written t pk nxt t'"
    unfolding assms(8)
    by (rule rmw_handler [OF assms(1) setBit_computes [OF off(1)]
          conforming_env.sim_setBitCompute [OF assms(1)] assms(2) run])
  show ?thesis
  proof (cases "wrong_type t pk TypeString \<or> off div 8 \<ge> int MaxValueSize \<or> length cur > MaxValueSize \<or> nameTooLarge key")
    case True
    then show ?thesis
      using out by (auto simp: rmw_outcome_def setBit_result_def writeStoreError_def assms(9) [symmetric])
  next
    case False
    let ?new = "fst (setBitBytes cur (nat off) v)"
    from False have w: "fst run = IntReply (snd (setBitBytes cur (nat off) v))" "string_written t pk ?new t'"
      using out by (simp_all add: rmw_outcome_def setBit_result_def assms(9) [symmetric] split: prod.splits)
    note read = string_written_read [OF w(2)]
    have "handleGetBit (mem_env (e_enq E) (e_cfg E)) db [cmd', key, a'] (wview view (snd run)) =
        (IntReply (of_bool (bit_at ?new (nat off'))), wview view (snd run))"
      using handleGetBit_mem [OF assms(6), of "wview view (snd run)" "e_cfg E" db key] read assms(3,8) by simp
    then have "fst (handleGetBit E db [cmd', key, a'] (snd run)) = IntReply (of_bool (bit_at ?new (nat off')))"
      using sim_fst [OF conforming_env.sim_bit_commands(1) [OF assms(1)]] by (simp add: abs_env_mem_env)
    moreover have "of_bool (bit_at ?new (nat off')) = (if off' = off then v else of_bool (bit_at cur (nat off')))"
      using v off by (auto simp: setBitBytes_spec)
    ultimately show ?thesis
      using False w setBitBytes_spec [of cur "nat off" v] by (simp add: string_written_def)
  qed
qed

lemma setbit_getbit_instance:
  "fst (handleGetBit (mem_env SyncDeleter cfg0) 0 [''GETBIT'', ''k'', ''7'']
     (snd (handleSetBit (mem_env SyncDeleter cfg0) 0 [''SETBIT'', ''k'', ''7'', ''1''] (mem_world demo_tbl))))
   = IntReply 1"
proof -
  have "ParseInt ''7'' = Inr 7"
    by (simp add: ParseInt_iff i64_def fmt_int_def fmt_nat.simps)
  then have args: "parseBitOffset ''7'' = Some 7" "parseBitValue ''1'' = Some 1"
    by (simp_all add: parseBitOffset_def parseBitValue_def maxBitOffset_def)
  show ?thesis
    using setbit_getbit [OF conforming_mem [of SyncDeleter cfg0] refl refl args(1,2,1) refl refl refl,
        where w = "mem_world demo_tbl" and key = "''k''" and db = 0
          and cmd = "''SETBIT''" and cmd' = "''GETBIT''"] demo_value
    by (simp add: encodePK_def MaxValueSize_def nameTooLarge_def MaxNameSize_def)
qed

section \<open>Counters\<close>

text \<open>The members of a key without meta item are gone: nothing is left for the lazy deleter.\<close>

definition no_orphans :: "tbl \<Rightarrow> bytes \<Rightarrow> bool" where
  "no_orphans t pk \<longleftrightarrow>
     (t_meta t pk = None \<longrightarrow> t_str t pk = None \<and> t_list t pk = [] \<and> t_hash t pk = [] \<and> t_set t pk = [])"

text \<open>The number a counter command starts from.\<close>

definition counter_value :: "tbl \<Rightarrow> bytes \<Rightarrow> arg_error + int" where
  "counter_value t pk = (if key_live t pk \<and> t_str t pk \<noteq> None then ParseInt (the (t_str t pk)) else Inr 0)"

lemma counter_value_i64: "counter_value t pk = Inr n \<Longrightarrow> i64 n"
  by (auto simp: counter_value_def i64_def split: if_splits dest: ParseInt_i64)

lemma ensureType_counter:
  assumes "\<not> wrong_type (backend w) pk TypeString" and "no_orphans (backend w) pk"
  shows "\<exists>w'. ensureTypeExpiring (mem_env q cfg) pk TypeString w = (Inr (), w') \<and>
      t_meta (backend w') = (t_meta (backend w))(pk := Some (string_meta (backend w) pk)) \<and>
      same_except {pk} (backend w) (backend w') \<and>
      (key_live (backend w) pk \<longrightarrow> backend w' = backend w) \<and>
      t_str (backend w') = (if key_live (backend w) pk then t_str (backend w) else (t_str (backend w))(pk := None))"
  using assms
  by (auto simp: ensureTypeExpiring_mem wrong_type_def string_meta_def live_meta_def same_except_def
      key_live_def live_at_def no_orphans_def split: option.splits if_splits)

lemma incrBy_mem:
  assumes "i64 d" and "no_orphans (backend w) (encodePK cfg db key)"
  shows "let t = backend w; pk = encodePK cfg db key; run = incrBy (mem_env q cfg) db key d w; t' = backend (snd run) in
    if nameTooLarge key then fst run = Error ErrValueExceedsBackendLimit \<and> t' = t
    else if wrong_type t pk TypeString then fst run = Error ErrWrongType \<and> t' = t
    else case counter_value t pk of
        Inl _ \<Rightarrow> fst run = Error ErrNotInteger \<and> t' = t
      | Inr cur \<Rightarrow>
          if \<not> i64 (cur + d) then fst run = Error ErrIncrDecrOverflow \<and> t' = t
          else fst run = IntReply (cur + d) \<and> string_written t pk (fmt_int (cur + d)) t'"
proof -
  let ?t = "backend w" and ?pk = "encodePK cfg db key"
  note simps = incrBy_def attempt_def CheckWrite_run Let_def write_fits_def writeStoreError_def
  consider "nameTooLarge key" | "\<not> nameTooLarge key" "wrong_type ?t ?pk TypeString"
    | "\<not> nameTooLarge key" "\<not> wrong_type ?t ?pk TypeString" by blast
  then show ?thesis
  proof cases
    case 1
    then show ?thesis by (simp add: simps)
  next
    case 2
    then have "ensureTypeExpiring (mem_env q cfg) ?pk TypeString w = (Inl MetaWrongType, w)"
      by (auto simp: ensureTypeExpiring_mem wrong_type_def live_meta_def split: option.splits if_splits)
    with 2 show ?thesis by (simp add: simps)
  next
    case 3
    from ensureType_counter [OF 3(2) assms(2), of q] obtain w1
      where e: "ensureTypeExpiring (mem_env q cfg) ?pk TypeString w = (Inr (), w1)"
        "t_meta (backend w1) = (t_meta ?t)(?pk := Some (string_meta ?t ?pk))"
        "same_except {?pk} ?t (backend w1)" "key_live ?t ?pk \<longrightarrow> backend w1 = ?t"
        "t_str (backend w1) = (if key_live ?t ?pk then t_str ?t else (t_str ?t)(?pk := None))"
      by blast
    have cv: "(case t_str (backend w1) ?pk of None \<Rightarrow> Inr 0 | Some v \<Rightarrow> ParseInt v) = counter_value ?t ?pk"
      using e(5) by (auto simp: counter_value_def split: option.split)
    show ?thesis
    proof (cases "counter_value ?t ?pk")
      case (Inl err)
      then have "key_live ?t ?pk" by (auto simp: counter_value_def split: if_splits)
      with Inl 3 e(1,4) cv show ?thesis by (simp add: simps call_mem sp_IncrBy_def)
    next
      case (Inr cur)
      note ov = incr_overflows_iff [OF counter_value_i64 [OF Inr] assms(1)]
      have "key_live ?t ?pk" if "\<not> i64 (cur + d)"
        using that assms(1) Inr by (auto simp: counter_value_def split: if_splits)
      then show ?thesis
        using 3 e cv Inr
        by (auto simp: simps call_mem sp_IncrBy_def ov ret_def string_written_def same_except_def)
    qed
  qed
qed

lemma incrBy_spec:
  assumes "conforming_env E view" and "t = view (backend w)" and "pk = encodePK (e_cfg E) db key"
    and "i64 d" and "no_orphans t pk" and "run = incrBy E db key d w" and "t' = view (backend (snd run))"
  shows "if nameTooLarge key then fst run = Error ErrValueExceedsBackendLimit \<and> t' = t
    else if wrong_type t pk TypeString then fst run = Error ErrWrongType \<and> t' = t
    else case counter_value t pk of
        Inl _ \<Rightarrow> fst run = Error ErrNotInteger \<and> t' = t
      | Inr cur \<Rightarrow>
          if \<not> i64 (cur + d) then fst run = Error ErrIncrDecrOverflow \<and> t' = t
          else fst run = IntReply (cur + d) \<and> string_written t pk (fmt_int (cur + d)) t'"
proof -
  note sim = conforming_env.sim_incrBy [OF assms(1), of db key d, unfolded abs_env_mem_env]
  have b: "backend (wview view w) = t" using assms(2) by simp
  note mem = incrBy_mem [of d "wview view w" "e_cfg E" db key "e_enq E",
      unfolded Let_def b assms(3) [symmetric], OF assms(4,5)]
  show ?thesis
    unfolding assms(6,7) sim_fst [OF sim] sim_backend [OF sim] by (rule mem)
qed

text \<open>
  The four commands, and the number each adds: none if its argument is no integer. DECRBY negates its
  argument in 64 bits, where the smallest integer is its own negation.
\<close>

datatype counter_cmd = CIncr | CDecr | CIncrBy bytes | CDecrBy bytes

fun counter_handler :: "'s env \<Rightarrow> int \<Rightarrow> bytes \<Rightarrow> counter_cmd \<Rightarrow> 's handler" where
  "counter_handler E db key CIncr = handleIncr E db [''INCR'', key]"
| "counter_handler E db key CDecr = handleDecr E db [''DECR'', key]"
| "counter_handler E db key (CIncrBy a) = handleIncrBy E db [''INCRBY'', key, a]"
| "counter_handler E db key (CDecrBy a) = handleDecrBy E db [''DECRBY'', key, a]"

fun counter_delta :: "counter_cmd \<Rightarrow> int option" where
  "counter_delta CIncr = Some 1"
| "counter_delta CDecr = Some (- 1)"
| "counter_delta (CIncrBy a) = (case ParseInt a of Inl _ \<Rightarrow> None | Inr n \<Rightarrow> Some n)"
| "counter_delta (CDecrBy a) =
     (case ParseInt a of Inl _ \<Rightarrow> None | Inr n \<Rightarrow> Some (if n = - (2 ^ 63) then n else - n))"

lemma wrap64_uminus: "i64 n \<Longrightarrow> wrap64 (- n) = (if n = - (2 ^ 63) then n else - n)"
  by (auto simp: wrap64_def i64_def)

lemma counter_handler_delta:
  "counter_handler E db key c w =
    (case counter_delta c of None \<Rightarrow> (Error ErrNotInteger, w) | Some d \<Rightarrow> incrBy E db key d w)"
  by (cases c) (auto simp: handleIncr_def handleDecr_def handleIncrBy_def handleDecrBy_def ret_def
      wrap64_uminus ParseInt_i64 split: sum.split)

lemma counter_delta_i64: "counter_delta c = Some d \<Longrightarrow> i64 d"
  by (cases c) (auto simp: i64_def split: sum.splits if_splits dest!: ParseInt_i64)

text \<open>
  C17: INCR adds 1, DECR subtracts 1, INCRBY adds its argument and DECRBY subtracts it (the smallest 64-bit
  integer, which is its own negation in 64 bits, is added). On a String holding an integer, or a key that
  does not exist (which counts as 0), the stored number becomes the exact sum and is the reply; the
  expiry stays. An argument or a value that is not a canonical 64-bit integer, a sum that does not fit
  64 bits, a key of another type and an oversized name are errors that change nothing.
\<close>

theorem incr_spec:
  assumes "conforming_env E view" and "t = view (backend w)" and "pk = encodePK (e_cfg E) db key"
    and "no_orphans t pk" and "run = counter_handler E db key c w" and "t' = view (backend (snd run))"
  shows "case counter_delta c of
      None \<Rightarrow> fst run = Error ErrNotInteger \<and> t' = t
    | Some d \<Rightarrow>
        if nameTooLarge key then fst run = Error ErrValueExceedsBackendLimit \<and> t' = t
        else if wrong_type t pk TypeString then fst run = Error ErrWrongType \<and> t' = t
        else (case counter_value t pk of
            Inl _ \<Rightarrow> fst run = Error ErrNotInteger \<and> t' = t
          | Inr cur \<Rightarrow>
              if \<not> i64 (cur + d) then fst run = Error ErrIncrDecrOverflow \<and> t' = t
              else fst run = IntReply (cur + d) \<and> string_written t pk (fmt_int (cur + d)) t')"
proof (cases "counter_delta c")
  case None
  then show ?thesis using assms(2,5,6) by (simp add: counter_handler_delta)
next
  case (Some d)
  have "run = incrBy E db key d w" using assms(5) Some by (simp add: counter_handler_delta)
  from incrBy_spec [OF assms(1-3) counter_delta_i64 [OF Some] assms(4) this assms(6)] Some
  show ?thesis by simp
qed

theorem incr_spec_witness:
  "fst (handleDecrBy (mem_env SyncDeleter cfg0) 0 [''DECRBY'', ''new'', ''5''] (mem_world demo_tbl)) = IntReply (- 5) \<and>
   fst (handleIncr (mem_env SyncDeleter cfg0) 0 [''INCR'', ''k''] (mem_world demo_tbl)) = Error ErrNotInteger"
proof -
  have new: "no_orphans demo_tbl ''new''" "\<not> wrong_type demo_tbl ''new'' TypeString" "counter_value demo_tbl ''new'' = Inr 0"
    by (simp_all add: no_orphans_def wrong_type_def counter_value_def live_meta_def key_live_def live_at_def
        demo_tbl_def empty_tbl_def)
  have k: "no_orphans demo_tbl ''k''" "\<exists>e. counter_value demo_tbl ''k'' = Inl e"
    by (simp_all add: no_orphans_def counter_value_def key_live_def live_at_def IsExpired_def ParseInt_def)
  have five: "ParseInt ''5'' = Inr 5" by (simp add: ParseInt_iff i64_def fmt_int_def fmt_nat.simps)
  show ?thesis
    using incr_spec [OF conforming_mem [of SyncDeleter cfg0] refl refl _ refl refl,
        where w = "mem_world demo_tbl" and key = "''new''" and db = 0 and c = "CDecrBy ''5''"]
      incr_spec [OF conforming_mem [of SyncDeleter cfg0] refl refl _ refl refl,
        where w = "mem_world demo_tbl" and key = "''k''" and db = 0 and c = CIncr] new k demo_value five
    by (auto simp: encodePK_def nameTooLarge_def MaxNameSize_def i64_def)
qed

section \<open>Several keys at once\<close>

text \<open>Splitting MSET into batches changes nothing, over any store.\<close>

lemma bindE_assoc: "bindE (bindE m f) g = bindE m (\<lambda>x. bindE (f x) g)"
  by (rule ext) (simp add: bindE_def split: sum.split)

lemma bindE_ret [simp]: "bindE (ret (Inr x)) f = f x"
  by (rule ext) (simp add: bindE_def ret_def)

lemma bindE_unit [simp]: "bindE m (\<lambda>_ :: unit. ret (Inr ())) = m"
  by (rule ext) (auto simp: bindE_def ret_def prod_eq_iff split: sum.split)

lemma msetPairs_append:
  "msetPairs E db (xs @ ys) = bindE (msetPairs E db xs) (\<lambda>_. msetPairs E db ys)"
  by (induction xs) (simp_all add: Let_def bindE_assoc)

lemma msetBatches_eq: "msetBatches E db ps = msetPairs E db ps"
proof (induction "length ps" arbitrary: ps rule: less_induct)
  case less
  show ?case
  proof (cases "ps = []")
    case False
    then have "length (drop msetBatchKeys ps) < length ps" by (simp add: msetBatchKeys_def)
    from less [OF this] have "msetBatches E db (drop msetBatchKeys ps) = msetPairs E db (drop msetBatchKeys ps)" .
    then show ?thesis
      using False msetPairs_append [of E db "take msetBatchKeys ps" "drop msetBatchKeys ps"]
      by (subst msetBatches.simps) simp
  qed (simp add: msetBatches.simps)
qed

text \<open>One pair written, and a list of pairs one after the other.\<close>

definition pair_step :: "config \<Rightarrow> int \<Rightarrow> bytes \<times> bytes \<Rightarrow> tbl \<Rightarrow> tbl \<Rightarrow> bool" where
  "pair_step cfg db p t t' \<longleftrightarrow> (let pk = encodePK cfg db (fst p) in
     same_except {pk} t t' \<and> t_meta t' pk = Some ((string_meta t pk)\<lparr>m_exp := 0\<rparr>) \<and> t_str t' pk = Some (snd p))"

primrec pairs_steps :: "config \<Rightarrow> int \<Rightarrow> (bytes \<times> bytes) list \<Rightarrow> tbl \<Rightarrow> tbl \<Rightarrow> bool" where
  "pairs_steps cfg db [] t t' \<longleftrightarrow> t' = t"
| "pairs_steps cfg db (p # ps) t t' \<longleftrightarrow> (\<exists>t1. pair_step cfg db p t t1 \<and> pairs_steps cfg db ps t1 t')"

text \<open>The value the last pair gives a partition key.\<close>

definition last_value :: "config \<Rightarrow> int \<Rightarrow> (bytes \<times> bytes) list \<Rightarrow> bytes \<Rightarrow> bytes option" where
  "last_value cfg db ps = map_of (rev (map (\<lambda>(k, v). (encodePK cfg db k, v)) ps))"

lemma last_value_simps [simp]:
  "last_value cfg db [] = Map.empty"
  "last_value cfg db (p # ps) pk =
    (case last_value cfg db ps pk of None \<Rightarrow> if pk = encodePK cfg db (fst p) then Some (snd p) else None | Some v \<Rightarrow> Some v)"
  by (auto simp: last_value_def map_add_def split: option.split prod.splits)

lemma pairs_steps_result:
  "pairs_steps cfg db ps t t' \<Longrightarrow> t_time t' = t_time t \<and> t_add t' = t_add t \<and>
    (\<forall>pk. case last_value cfg db ps pk of
       None \<Rightarrow> t_meta t' pk = t_meta t pk \<and> t_str t' pk = t_str t pk \<and> t_list t' pk = t_list t pk \<and>
         t_hash t' pk = t_hash t pk \<and> t_set t' pk = t_set t pk \<and> t_zset t' pk = t_zset t pk
     | Some v \<Rightarrow> t_str t' pk = Some v \<and> (\<exists>m. t_meta t' pk = Some m \<and> m_type m = TypeString \<and> m_exp m = 0))"
proof (induction ps arbitrary: t)
  case Nil
  then show ?case by simp
next
  case (Cons p ps)
  then obtain t1 where s: "pair_step cfg db p t t1" "pairs_steps cfg db ps t1 t'" by auto
  let ?k = "encodePK cfg db (fst p)"
  from Cons.IH [OF s(2)] have IH: "t_time t' = t_time t1" "t_add t' = t_add t1" "\<And>pk. case last_value cfg db ps pk of
       None \<Rightarrow> t_meta t' pk = t_meta t1 pk \<and> t_str t' pk = t_str t1 pk \<and> t_list t' pk = t_list t1 pk \<and>
         t_hash t' pk = t_hash t1 pk \<and> t_set t' pk = t_set t1 pk \<and> t_zset t' pk = t_zset t1 pk
     | Some v \<Rightarrow> t_str t' pk = Some v \<and> (\<exists>m. t_meta t' pk = Some m \<and> m_type m = TypeString \<and> m_exp m = 0)"
    by blast+
  from s(1) have k: "t_time t1 = t_time t" "t_add t1 = t_add t" "t_str t1 ?k = Some (snd p)"
      "\<exists>m. t_meta t1 ?k = Some m \<and> m_type m = TypeString \<and> m_exp m = 0"
    and o: "pk \<noteq> ?k \<Longrightarrow> t_meta t1 pk = t_meta t pk \<and> t_str t1 pk = t_str t pk \<and> t_list t1 pk = t_list t pk \<and>
         t_hash t1 pk = t_hash t pk \<and> t_set t1 pk = t_set t pk \<and> t_zset t1 pk = t_zset t pk" for pk
    by (auto simp: pair_step_def Let_def same_except_def)
  have "case last_value cfg db (p # ps) pk of
       None \<Rightarrow> t_meta t' pk = t_meta t pk \<and> t_str t' pk = t_str t pk \<and> t_list t' pk = t_list t pk \<and>
         t_hash t' pk = t_hash t pk \<and> t_set t' pk = t_set t pk \<and> t_zset t' pk = t_zset t pk
     | Some v \<Rightarrow> t_str t' pk = Some v \<and> (\<exists>m. t_meta t' pk = Some m \<and> m_type m = TypeString \<and> m_exp m = 0)" for pk
    using IH(3) [of pk] k(3,4) o [of pk] by (cases "pk = ?k") (auto split: option.splits)
  then show ?case using IH(1,2) k(1,2) by simp
qed

lemma persist_step:
  assumes "t_meta t1 = (t_meta t)(encodePK cfg db (fst p) := Some (string_meta t (encodePK cfg db (fst p))))"
    and "t_str t1 = (t_str t)(encodePK cfg db (fst p) := Some (snd p))" and "same_except {encodePK cfg db (fst p)} t t1"
  shows "pair_step cfg db p t (set_meta (encodePK cfg db (fst p)) (map_option (\<lambda>m. m\<lparr>m_exp := 0\<rparr>) (t_meta t1 (encodePK cfg db (fst p)))) t1)"
  using assms by (auto simp: pair_step_def Let_def same_except_def)

lemma msetPairs_mem:
  "fst (msetPairs (mem_env q cfg) db ps w) = Inr () \<and>
   pairs_steps cfg db ps (backend w) (backend (snd (msetPairs (mem_env q cfg) db ps w)))"
proof (induction ps arbitrary: w)
  case Nil
  then show ?case by (simp add: ret_def)
next
  case (Cons p ps)
  let ?pk = "encodePK cfg db (fst p)"
  let ?w1 = "snd (overwriteString (mem_env q cfg) ?pk (snd p) w)"
  let ?w2 = "on_tbl (\<lambda>t. set_meta ?pk (map_option (\<lambda>m. m\<lparr>m_exp := 0\<rparr>) (t_meta t ?pk)) t) ?w1"
  have run: "msetPairs (mem_env q cfg) db (p # ps) w = msetPairs (mem_env q cfg) db ps ?w2"
    using overwriteString_mem(1) [where q = q and cfg = cfg and pk = ?pk and val = "snd p" and w = w]
    by (simp add: Let_def bindE_def Meta_Persist_mem)
  have "pair_step cfg db p (backend w) (backend ?w2)"
    using persist_step [of "backend ?w1" "backend w" cfg db p] overwriteString_mem(2-4) [where q = q and cfg = cfg and pk = ?pk and val = "snd p" and w = w]
    by simp
  then show ?case unfolding run using Cons [of ?w2] by auto
qed

lemma checkPairs_run:
  "if \<forall>p \<in> set ps. write_fits (fst p) [] [snd p] then checkPairs ps w = (Inr (), w)
   else fst (checkPairs ps w) = Inl SizeExceeded \<and> backend (snd (checkPairs ps w)) = backend w"
  by (induction ps) (auto simp: ret_def bindE_def CheckWrite_run)

lemma anyLive_mem:
  "anyLive (mem_env q cfg) db keys w =
    (Inr (\<exists>k \<in> set keys. key_live (backend w) (encodePK cfg db k)), w)"
  by (induction keys) (auto simp: ret_def bindE_def keyLive_mem live_meta_key_live simp del: not_None_eq)

lemma msetnx_step:
  assumes "\<not> wrong_type (backend w) (encodePK cfg db (fst p)) TypeString"
  shows "\<exists>w'. msetnxPairs (mem_env q cfg) db (p # ps) w = msetnxPairs (mem_env q cfg) db ps w' \<and>
    pair_step cfg db p (backend w) (backend w')"
proof -
  let ?pk = "encodePK cfg db (fst p)"
  from ensureType_string [OF assms, of q cfg] obtain w1
    where e: "ensureTypeExpiring (mem_env q cfg) ?pk TypeString w = (Inr (), w1)"
      "t_meta (backend w1) = (t_meta (backend w))(?pk := Some (string_meta (backend w) ?pk))"
      "same_except {?pk} (backend w) (backend w1)"
      "t_str (backend w1) = t_str (backend w) \<or> t_str (backend w1) = (t_str (backend w))(?pk := None)" by blast
  let ?w2 = "on_tbl (set_str ?pk (Some (snd p))) w1"
  let ?w3 = "on_tbl (\<lambda>t. set_meta ?pk (map_option (\<lambda>m. m\<lparr>m_exp := 0\<rparr>) (t_meta t ?pk)) t) ?w2"
  have "msetnxPairs (mem_env q cfg) db (p # ps) w = msetnxPairs (mem_env q cfg) db ps ?w3"
    by (simp add: Let_def bindE_def e(1) call_mem sp_SetString_def Meta_Persist_mem)
  moreover have "pair_step cfg db p (backend w) (backend ?w3)"
    using persist_step [of "backend ?w2" "backend w" cfg db p] e(2-4) by (auto simp: same_except_def)
  ultimately show ?thesis by blast
qed

lemma pair_step_type:
  assumes "pair_step cfg db p t t'" and "\<not> wrong_type t pk TypeString"
  shows "\<not> wrong_type t' pk TypeString"
  using assms by (cases "pk = encodePK cfg db (fst p)")
    (auto simp: pair_step_def Let_def same_except_def wrong_type_def live_meta_def split: option.splits if_splits)

lemma msetnxPairs_mem:
  "(\<forall>p \<in> set ps. \<not> wrong_type (backend w) (encodePK cfg db (fst p)) TypeString) \<Longrightarrow>
   fst (msetnxPairs (mem_env q cfg) db ps w) = Inr () \<and>
   pairs_steps cfg db ps (backend w) (backend (snd (msetnxPairs (mem_env q cfg) db ps w)))"
proof (induction ps arbitrary: w)
  case Nil
  then show ?case by (simp add: ret_def)
next
  case (Cons p ps)
  from msetnx_step [of w cfg db p q ps] Cons.prems obtain w'
    where w': "msetnxPairs (mem_env q cfg) db (p # ps) w = msetnxPairs (mem_env q cfg) db ps w'"
      "pair_step cfg db p (backend w) (backend w')" by auto
  then have "\<forall>p' \<in> set ps. \<not> wrong_type (backend w') (encodePK cfg db (fst p')) TypeString"
    using Cons.prems pair_step_type by (metis list.set_intros(2))
  from Cons.IH [OF this] show ?case unfolding w'(1) using w'(2) by auto
qed

text \<open>What the client finds after the pairs were written, and that nothing else changed.\<close>

definition pairs_written :: "config \<Rightarrow> int \<Rightarrow> (bytes \<times> bytes) list \<Rightarrow> tbl \<Rightarrow> tbl \<Rightarrow> bool" where
  "pairs_written cfg db ps t t' \<longleftrightarrow> same_except ((\<lambda>p. encodePK cfg db (fst p)) ` set ps) t t' \<and>
     (\<forall>pk v. last_value cfg db ps pk = Some v \<longrightarrow>
       t_str t' pk = Some v \<and> (\<exists>m. t_meta t' pk = Some m \<and> m_type m = TypeString \<and> m_exp m = 0))"

lemma last_value_None: "last_value cfg db ps pk = None \<longleftrightarrow> pk \<notin> (\<lambda>p. encodePK cfg db (fst p)) ` set ps"
  by (force simp: last_value_def map_of_eq_None_iff)

lemma pairs_steps_written: "pairs_steps cfg db ps t t' \<Longrightarrow> pairs_written cfg db ps t t'"
  unfolding pairs_written_def same_except_def last_value_None [symmetric]
  by (drule pairs_steps_result) (force split: option.splits)

lemma pairs_written_get:
  assumes "pairs_written cfg db ps t (backend w)" and "last_value cfg db ps (encodePK cfg db k) = Some v"
  shows "handleGet (mem_env q cfg) db [cmd, k] w = (BulkString v, w)"
proof -
  obtain m where "t_meta (backend w) (encodePK cfg db k) = Some m" "m_type m = TypeString" "m_exp m = 0"
      "t_str (backend w) (encodePK cfg db k) = Some v"
    using assms unfolding pairs_written_def by blast
  then show ?thesis by (simp add: handleGet_mem Let_def live_meta_def IsExpired_def)
qed

text \<open>
  MSET. An odd number of arguments, or one oversized pair, is an error before anything is
  written. Otherwise every key holds, as a String without expiry and whatever it was before, the
  value of its last pair, GET returns it, and no other key changes. Splitting the pairs into batches
  of 25 makes no difference.
\<close>

lemma mset_spec:
  assumes "conforming_env E view" and "t = view (backend w)" and "ps = pairs_of args"
    and "run = handleMSet E db (cmd # args) w" and "t' = view (backend (snd run))"
  shows "if odd (length args) then fst run = Error ErrMSetOddArgs \<and> t' = t
    else if \<exists>p \<in> set ps. \<not> write_fits (fst p) [] [snd p] then fst run = Error ErrValueExceedsBackendLimit \<and> t' = t
    else fst run = SimpleString ''OK'' \<and> pairs_written (e_cfg E) db ps t t' \<and>
      (\<forall>k v. last_value (e_cfg E) db ps (encodePK (e_cfg E) db k) = Some v \<longrightarrow>
        fst (handleGet E db [cmd', k] (snd run)) = BulkString v)"
proof -
  let ?E = "mem_env (e_enq E) (e_cfg E)" and ?W = "wview view w"
  note sims = conforming_env.sim_string_commands [OF assms(1), unfolded abs_env_mem_env]
  have run: "fst run = fst (handleMSet ?E db (cmd # args) ?W)" "t' = backend (snd (handleMSet ?E db (cmd # args) ?W))"
    using sim_fst [OF sims(8)] sim_backend [OF sims(8)] assms(4,5) by simp_all
  note simps = handleMSet_def attempt_def ret_def writeStoreError_def assms(3) [symmetric] assms(2) [symmetric]
  show ?thesis
  proof (cases "odd (length args) \<or> (\<exists>p \<in> set ps. \<not> write_fits (fst p) [] [snd p])")
    case True
    then show ?thesis
      using checkPairs_run [of ps ?W] unfolding run by (auto simp: simps split: if_splits)
  next
    case False
    then have "checkPairs ps ?W = (Inr (), ?W)" using checkPairs_run [of ps ?W] by simp
    then have r: "fst run = SimpleString ''OK''" "pairs_written (e_cfg E) db ps t t'"
      using False msetPairs_mem [of "e_enq E" "e_cfg E" db ps ?W] pairs_steps_written unfolding run
      by (auto simp: simps msetBatches_eq)
    then have "fst (handleGet E db [cmd', k] (snd run)) = BulkString v"
      if "last_value (e_cfg E) db ps (encodePK (e_cfg E) db k) = Some v" for k v
      using pairs_written_get [of "e_cfg E" db ps t "wview view (snd run)" k v "e_enq E" cmd'] that
      by (simp add: sim_fst [OF sims(1)] assms(5))
    with r False show ?thesis by auto
  qed
qed

lemma mset_spec_instance:
  "fst (handleGet (mem_env SyncDeleter cfg0) 0 [''GET'', ''k'']
     (snd (handleMSet (mem_env SyncDeleter cfg0) 0 [''MSET'', ''k'', ''1'', ''b'', ''2'', ''k'', ''3''] (mem_world demo_tbl))))
   = BulkString ''3''"
  using mset_spec [OF conforming_mem [of SyncDeleter cfg0] refl refl refl refl,
      where w = "mem_world demo_tbl" and args = "[''k'', ''1'', ''b'', ''2'', ''k'', ''3'']" and db = 0
        and cmd = "''MSET''" and cmd' = "''GET''"]
  by (simp add: encodePK_def write_fits_def nameTooLarge_def valueTooLarge_def MaxNameSize_def MaxValueSize_def)

text \<open>
  C18: MSETNX is all or nothing: if any of the keys is live (of any type) the reply is 0 and the table is
  as it was; otherwise every pair is written as MSET would and the reply is 1.
\<close>

theorem msetnx_all_or_nothing:
  assumes "conforming_env E view" and "t = view (backend w)" and "ps = pairs_of args" and "even (length args)"
    and "\<forall>p \<in> set ps. write_fits (fst p) [] [snd p]"
    and "run = handleMSetNX E db (cmd # args) w" and "t' = view (backend (snd run))"
  shows "if \<exists>p \<in> set ps. key_live t (encodePK (e_cfg E) db (fst p)) then fst run = IntReply 0 \<and> t' = t
    else fst run = IntReply 1 \<and> pairs_written (e_cfg E) db ps t t'"
proof -
  let ?E = "mem_env (e_enq E) (e_cfg E)" and ?W = "wview view w"
  note sims = conforming_env.sim_string_commands [OF assms(1), unfolded abs_env_mem_env]
  have run: "fst run = fst (handleMSetNX ?E db (cmd # args) ?W)" "t' = backend (snd (handleMSetNX ?E db (cmd # args) ?W))"
    using sim_fst [OF sims(9)] sim_backend [OF sims(9)] assms(6,7) by simp_all
  have W: "backend ?W = t" using assms(2) by simp
  have check: "checkPairs ps ?W = (Inr (), ?W)" using checkPairs_run [of ps ?W] assms(5) by simp
  have "\<not> key_live t pk \<Longrightarrow> \<not> wrong_type t pk TypeString" for pk
    using live_meta_key_live [of t pk] by (auto simp: wrong_type_def)
  then have pairs: "\<not> (\<exists>p \<in> set ps. key_live t (encodePK (e_cfg E) db (fst p))) \<Longrightarrow>
      fst (msetnxPairs ?E db ps ?W) = Inr () \<and> pairs_written (e_cfg E) db ps t (backend (snd (msetnxPairs ?E db ps ?W)))"
    using msetnxPairs_mem [of ps ?W "e_cfg E" db "e_enq E", unfolded W] pairs_steps_written by blast
  have any: "anyLive ?E db (map fst ps) ?W = (Inr (\<exists>p \<in> set ps. key_live t (encodePK (e_cfg E) db (fst p))), ?W)"
    unfolding anyLive_mem W by simp
  have h: "handleMSetNX ?E db (cmd # args) ?W =
      (if \<exists>p \<in> set ps. key_live t (encodePK (e_cfg E) db (fst p)) then (IntReply 0, ?W)
       else attempt (msetnxPairs ?E db ps) (\<lambda>_. ret (IntReply 1)) ?W)"
    using assms(4) by (simp add: handleMSetNX_def attempt_def ret_def assms(3) [symmetric] check any)
  show ?thesis
    unfolding run h using pairs W by (auto simp: attempt_def ret_def simp del: wview_simps)
qed

theorem msetnx_all_or_nothing_witness:
  "fst (handleMSetNX (mem_env SyncDeleter cfg0) 0 [''MSETNX'', ''a'', ''1'', ''k'', ''2''] (mem_world demo_tbl)) = IntReply 0"
proof -
  have "key_live demo_tbl ''k''" by (simp add: key_live_def live_at_def IsExpired_def)
  then show ?thesis
    using msetnx_all_or_nothing [OF conforming_mem [of SyncDeleter cfg0] refl refl _ _ refl refl,
        where w = "mem_world demo_tbl" and args = "[''a'', ''1'', ''k'', ''2'']" and db = 0 and cmd = "''MSETNX''"]
    by (simp add: encodePK_def write_fits_def nameTooLarge_def valueTooLarge_def MaxNameSize_def MaxValueSize_def)
qed

section \<open>SETNX on an expired collection\<close>

text \<open>
  SETNX claims an expired key but, unlike SET NX, does not reclaim the members the expired
  collection left behind: they stay in the table under the new String key.
\<close>

definition expired_list_tbl :: tbl where
  "expired_list_tbl = set_list ''l'' [''stale''] (set_meta ''l'' (Some \<lparr>m_type = TypeList, m_exp = 90, m_count = 1\<rparr>) (empty_tbl 100))"

lemma setnx_keeps_stale_members:
  defines "run \<equiv> handleSetNX (mem_env SyncDeleter cfg0) 0 [''SETNX'', ''l'', ''v''] (mem_world expired_list_tbl)"
    and "run_set \<equiv> handleSet (mem_env SyncDeleter cfg0) 0 [''SET'', ''l'', ''v'', ''NX''] (mem_world expired_list_tbl)"
  shows "fst run = IntReply 1 \<and> t_list (backend (snd run)) ''l'' = [''stale'']"
    and "fst run_set = SimpleString ''OK'' \<and> t_list (backend (snd run_set)) ''l'' = []"
proof -
  have fits: "write_fits ''l'' [] [''v'']"
    by (simp add: write_fits_def nameTooLarge_def valueTooLarge_def MaxNameSize_def MaxValueSize_def)
  have nx: "toLower ''NX'' = ''nx''" by code_simp
  have opt: "parseSetOptions [''NX''] now = Inr \<lparr>nx = True, xx = False, expSet = False, expEpoch = 0\<rparr>" for now
    by (simp add: parseSetOptions_def setOptLoop.simps nx)
  show "fst run = IntReply 1 \<and> t_list (backend (snd run)) ''l'' = [''stale'']"
    using fits by (simp add: run_def handleSetNX_def Let_def encodePK_def attempt_def CheckWrite_run withNow_def
        CreateTypeIfAbsent_mem live_at_def IsExpired_def expired_list_tbl_def empty_tbl_def call_mem sp_SetString_def ret_def)
  show "fst run_set = SimpleString ''OK'' \<and> t_list (backend (snd run_set)) ''l'' = []"
    using fits by (simp add: run_set_def handleSet_def Let_def encodePK_def attempt_def CheckWrite_run withNow_def opt
        CreateTypeIfAbsent_mem live_at_def IsExpired_def expired_list_tbl_def empty_tbl_def call_mem sp_SetString_def
        sp_DeleteMembers_def ret_def)
qed

end
