(* ===== verification/Lists.thy ===== *)
theory Lists
  imports Keys
begin

text \<open>
  The List commands (\<^verbatim>\<open>internal/command/lists.go\<close>, \<^verbatim>\<open>lists2.go\<close>). A push or pop works on the element
  items and then on the counter of the meta item; LSET, LTRIM, LREM and LINSERT read the whole list,
  compute the new one and rewrite it.
\<close>

section \<open>Push and pop\<close>

definition pushCommon ::
    "'s env \<Rightarrow> bytes \<Rightarrow> bytes list \<Rightarrow> (bytes \<Rightarrow> bytes list \<Rightarrow> ('s, int) op) \<Rightarrow> 's handler" where
  "pushCommon E pk elements push =
     attempt (call (push pk elements)) (\<lambda>pushed.
     attempt (adjustCount E pk TypeList pushed) (\<lambda>_.
     attempt (Meta_Load E pk) (\<lambda>mo.
       ret (IntReply (case mo of None \<Rightarrow> 0 | Some m \<Rightarrow> m_count m)))))"

text \<open>The type check of LPUSH and RPUSH comes before the size guard.\<close>

definition handleLPush :: "'s env \<Rightarrow> int \<Rightarrow> bytes list \<Rightarrow> 's handler" where
  "handleLPush E db args =
     (let key = args ! 1; elements = drop 2 args; pk = encodePK (e_cfg E) db key in
      attempt (ensureTypeExpiring E pk TypeList) (\<lambda>_.
      attempt (CheckWrite key [] elements) (\<lambda>_.
      pushCommon E pk elements (st_LPush (e_store E)))))"

definition handleRPush :: "'s env \<Rightarrow> int \<Rightarrow> bytes list \<Rightarrow> 's handler" where
  "handleRPush E db args =
     (let key = args ! 1; elements = drop 2 args; pk = encodePK (e_cfg E) db key in
      attempt (ensureTypeExpiring E pk TypeList) (\<lambda>_.
      attempt (CheckWrite key [] elements) (\<lambda>_.
      pushCommon E pk elements (st_RPush (e_store E)))))"

definition pushXCommon ::
    "'s env \<Rightarrow> int \<Rightarrow> bytes list \<Rightarrow> (bytes \<Rightarrow> bytes list \<Rightarrow> ('s, int) op) \<Rightarrow> 's handler" where
  "pushXCommon E db args push =
     (let key = args ! 1; elements = drop 2 args; pk = encodePK (e_cfg E) db key in
      withKey E pk TypeList (ret (IntReply 0)) (\<lambda>_.
      attempt (CheckWrite key [] elements) (\<lambda>_.
      pushCommon E pk elements push)))"

definition handleLPushX :: "'s env \<Rightarrow> int \<Rightarrow> bytes list \<Rightarrow> 's handler" where
  "handleLPushX E db args = pushXCommon E db args (st_LPush (e_store E))"

definition handleRPushX :: "'s env \<Rightarrow> int \<Rightarrow> bytes list \<Rightarrow> 's handler" where
  "handleRPushX E db args = pushXCommon E db args (st_RPush (e_store E))"

definition popCommon :: "'s env \<Rightarrow> int \<Rightarrow> bytes list \<Rightarrow> (bytes \<Rightarrow> ('s, bytes option) op) \<Rightarrow> 's handler" where
  "popCommon E db args pop =
     (let pk = encodePK (e_cfg E) db (args ! 1) in
      withKey E pk TypeList (ret NullBulk) (\<lambda>_.
      attempt (call (pop pk)) (\<lambda>v.
        case v of
          None \<Rightarrow> ret NullBulk
        | Some b \<Rightarrow> attempt (adjustCount E pk TypeList (-1)) (\<lambda>_. ret (BulkString b)))))"

definition handleLPop :: "'s env \<Rightarrow> int \<Rightarrow> bytes list \<Rightarrow> 's handler" where
  "handleLPop E db args = popCommon E db args (st_LPop (e_store E))"

definition handleRPop :: "'s env \<Rightarrow> int \<Rightarrow> bytes list \<Rightarrow> 's handler" where
  "handleRPop E db args = popCommon E db args (st_RPop (e_store E))"

section \<open>Reads\<close>

definition handleLRange :: "'s env \<Rightarrow> int \<Rightarrow> bytes list \<Rightarrow> 's handler" where
  "handleLRange E db args =
     (let pk = encodePK (e_cfg E) db (args ! 1) in
      case ParseInt (args ! 2) of
        Inl _ \<Rightarrow> ret (Error ErrNotInteger)
      | Inr start \<Rightarrow>
          (case ParseInt (args ! 3) of
             Inl _ \<Rightarrow> ret (Error ErrNotInteger)
           | Inr stop \<Rightarrow>
               withKey E pk TypeList (ret EmptyArray) (\<lambda>m.
                 if resultCapExceeded (e_cfg E) (rangeResultCount (m_count m) start stop)
                 then ret (Error ErrCollectionTooLarge)
                 else attempt (call (st_LRange (e_store E) pk start stop)) (\<lambda>es. ret (BulkArray (Some es))))))"

definition handleLIndex :: "'s env \<Rightarrow> int \<Rightarrow> bytes list \<Rightarrow> 's handler" where
  "handleLIndex E db args =
     (let pk = encodePK (e_cfg E) db (args ! 1) in
      withKey E pk TypeList (ret NullBulk) (\<lambda>_.
        case ParseInt (args ! 2) of
          Inl _ \<Rightarrow> ret (Error ErrNotInteger)
        | Inr index \<Rightarrow>
            attempt (call (st_LIndex (e_store E) pk index)) (\<lambda>v.
              case v of None \<Rightarrow> ret NullBulk | Some b \<Rightarrow> ret (BulkString b))))"

definition handleLLen :: "'s env \<Rightarrow> int \<Rightarrow> bytes list \<Rightarrow> 's handler" where
  "handleLLen E db args =
     withKey E (encodePK (e_cfg E) db (args ! 1)) TypeList (ret (IntReply 0)) (\<lambda>m. ret (IntReply (m_count m)))"

section \<open>Rewriting the whole list\<close>

definition handleLSet :: "'s env \<Rightarrow> int \<Rightarrow> bytes list \<Rightarrow> 's handler" where
  "handleLSet E db args =
     (let key = args ! 1; pk = encodePK (e_cfg E) db key; value = args ! 3 in
      withKey E pk TypeList (ret (Error ErrNoSuchKey)) (\<lambda>_.
        case ParseInt (args ! 2) of
          Inl _ \<Rightarrow> ret (Error ErrNotInteger)
        | Inr index \<Rightarrow>
            attempt (call (st_LRangeAll (e_store E) pk)) (\<lambda>all.
              let n = int (length all); idx = (if index < 0 then index + n else index) in
              if idx < 0 \<or> idx \<ge> n then ret (Error ErrIndexOutOfRange)
              else
                attempt (CheckWrite key [] [value]) (\<lambda>_.
                attempt (call (st_LReplaceAll (e_store E) pk (all[nat idx := value]))) (\<lambda>_.
                ret (SimpleString ''OK''))))))"

text \<open>\<^verbatim>\<open>all[lo : hi+1]\<close> of the normalised range, or nothing.\<close>

definition trimmed :: "bytes list \<Rightarrow> int \<Rightarrow> int \<Rightarrow> bytes list" where
  "trimmed all start stop =
     (case ZNormalizeRankRange (int (length all)) start stop of
        None \<Rightarrow> []
      | Some (lo, hi) \<Rightarrow> take (nat (hi + 1 - lo)) (drop (nat lo) all))"

definition handleLTrim :: "'s env \<Rightarrow> int \<Rightarrow> bytes list \<Rightarrow> 's handler" where
  "handleLTrim E db args =
     (let pk = encodePK (e_cfg E) db (args ! 1) in
      case ParseInt (args ! 2) of
        Inl _ \<Rightarrow> ret (Error ErrNotInteger)
      | Inr start \<Rightarrow>
          (case ParseInt (args ! 3) of
             Inl _ \<Rightarrow> ret (Error ErrNotInteger)
           | Inr stop \<Rightarrow>
               withKey E pk TypeList (ret (SimpleString ''OK'')) (\<lambda>m.
                 attempt (call (st_LRangeAll (e_store E) pk)) (\<lambda>all.
                 let newList = trimmed all start stop in
                 attempt (call (st_LReplaceAll (e_store E) pk newList)) (\<lambda>_.
                 attempt (adjustCount E pk TypeList (wrap64 (int (length newList) - m_count m))) (\<lambda>_.
                 ret (SimpleString ''OK'')))))))"

text \<open>
  Marking matches to drop, scanning from the head (LREM with a negative count scans the reversed
  list): at most \<open>left\<close> of them. The result is the kept list and the number removed.
\<close>

fun drop_matches :: "bytes list \<Rightarrow> int \<Rightarrow> bytes \<Rightarrow> bytes list \<times> int" where
  "drop_matches [] left v = ([], 0)"
| "drop_matches (x # xs) left v =
     (if left > 0 \<and> x = v then (let (ys, n) = drop_matches xs (left - 1) v in (ys, n + 1))
      else (let (ys, n) = drop_matches xs left v in (x # ys, n)))"

definition lremCompute :: "bytes list \<Rightarrow> int \<Rightarrow> bytes \<Rightarrow> bytes list \<times> int" where
  "lremCompute all cnt v =
     (let n = int (length all) in
      if cnt > 0 then drop_matches all (if cnt > n then n else cnt) v
      else if cnt < 0 then
        (let (ys, r) = drop_matches (rev all) (if cnt < - n then n else wrap64 (- cnt)) v in (rev ys, r))
      else (filter (\<lambda>x. x \<noteq> v) all, int (length (filter (\<lambda>x. x = v) all))))"

definition handleLRem :: "'s env \<Rightarrow> int \<Rightarrow> bytes list \<Rightarrow> 's handler" where
  "handleLRem E db args =
     (let pk = encodePK (e_cfg E) db (args ! 1); value = args ! 3 in
      case ParseInt (args ! 2) of
        Inl _ \<Rightarrow> ret (Error ErrNotInteger)
      | Inr cnt \<Rightarrow>
          withKey E pk TypeList (ret (IntReply 0)) (\<lambda>_.
            attempt (call (st_LRangeAll (e_store E) pk)) (\<lambda>all.
            let (newList, removed) = lremCompute all cnt value in
            if removed = 0 then ret (IntReply 0)
            else
              attempt (call (st_LReplaceAll (e_store E) pk newList)) (\<lambda>_.
              attempt (adjustCount E pk TypeList (- removed)) (\<lambda>_.
              ret (IntReply removed))))))"

definition first_index :: "bytes \<Rightarrow> bytes list \<Rightarrow> nat option" where
  "first_index p xs = find (\<lambda>i. xs ! i = p) [0..<length xs]"

definition handleLInsert :: "'s env \<Rightarrow> int \<Rightarrow> bytes list \<Rightarrow> 's handler" where
  "handleLInsert E db args =
     (let key = args ! 1; pk = encodePK (e_cfg E) db key; pivot = args ! 3; value = args ! 4;
          place = ToUpper (args ! 2) in
      if place \<noteq> ''BEFORE'' \<and> place \<noteq> ''AFTER'' then ret (Error ErrSyntax)
      else
        withKey E pk TypeList (ret (IntReply 0)) (\<lambda>_.
          attempt (call (st_LRangeAll (e_store E) pk)) (\<lambda>all.
          case first_index pivot all of
            None \<Rightarrow> ret (IntReply (-1))
          | Some i \<Rightarrow>
              attempt (CheckWrite key [] [value]) (\<lambda>_.
              let insertAt = (if place = ''BEFORE'' then i else i + 1);
                  newList = take insertAt all @ [value] @ drop insertAt all in
              attempt (call (st_LReplaceAll (e_store E) pk newList)) (\<lambda>_.
              attempt (adjustCount E pk TypeList 1) (\<lambda>_.
              ret (IntReply (int (length newList)))))))))"

definition handleRPopLPush :: "'s env \<Rightarrow> int \<Rightarrow> bytes list \<Rightarrow> 's handler" where
  "handleRPopLPush E db args =
     (let srcPK = encodePK (e_cfg E) db (args ! 1); dstPK = encodePK (e_cfg E) db (args ! 2) in
      withKey E srcPK TypeList (ret NullBulk) (\<lambda>_.
        if srcPK = dstPK then
          attempt (call (st_RPop (e_store E) srcPK)) (\<lambda>v.
            case v of
              None \<Rightarrow> ret NullBulk
            | Some b \<Rightarrow> attempt (call (st_LPush (e_store E) srcPK [b])) (\<lambda>_. ret (BulkString b)))
        else
          attempt (loadMetaState E dstPK TypeList) (\<lambda>k.
          if k = KeyWrong then ret (Error ErrWrongType)
          else
            attempt (call (st_RPop (e_store E) srcPK)) (\<lambda>v.
              case v of
                None \<Rightarrow> ret NullBulk
              | Some b \<Rightarrow>
                  attempt (adjustCount E srcPK TypeList (-1)) (\<lambda>_.
                  attempt (ensureTypeExpiring E dstPK TypeList) (\<lambda>_.
                  attempt (call (st_LPush (e_store E) dstPK [b])) (\<lambda>_.
                  attempt (adjustCount E dstPK TypeList 1) (\<lambda>_.
                  ret (BulkString b)))))))))"

section \<open>The handlers refine their runs over the abstract table\<close>

context conforming_env begin

lemma sim_pushCommon [sim_intros]:
  "implements view (push pk es) (push' pk es) \<Longrightarrow> sim view (pushCommon E pk es push) (pushCommon E' pk es push')"
  unfolding pushCommon_def by (intro sim_intros)

lemma sim_list_commands [sim_intros]:
  "sim view (handleLPush E db args) (handleLPush E' db args)"
  "sim view (handleRPush E db args) (handleRPush E' db args)"
  "sim view (handleLPushX E db args) (handleLPushX E' db args)"
  "sim view (handleRPushX E db args) (handleRPushX E' db args)"
  "sim view (handleLPop E db args) (handleLPop E' db args)"
  "sim view (handleRPop E db args) (handleRPop E' db args)"
  "sim view (handleLRange E db args) (handleLRange E' db args)"
  "sim view (handleLIndex E db args) (handleLIndex E' db args)"
  "sim view (handleLLen E db args) (handleLLen E' db args)"
  "sim view (handleLSet E db args) (handleLSet E' db args)"
  "sim view (handleLTrim E db args) (handleLTrim E' db args)"
  "sim view (handleLRem E db args) (handleLRem E' db args)"
  "sim view (handleLInsert E db args) (handleLInsert E' db args)"
  "sim view (handleRPopLPush E db args) (handleRPopLPush E' db args)"
  unfolding handleLPush_def handleRPush_def handleLPushX_def handleRPushX_def pushXCommon_def handleLPop_def
    handleRPop_def popCommon_def handleLRange_def handleLIndex_def handleLLen_def handleLSet_def handleLTrim_def
    handleLRem_def handleLInsert_def handleRPopLPush_def Let_def abs_env_simps mem_store_simps
  by (intro sim_intros LPush RPush)+

end

end
