(* ===== verification/Collections.thy ===== *)
theory Collections
  imports Keys
begin

text \<open>
  What the List, Hash and Set commands share. A collection key has a meta item, whose counter is
  the number of its members, and its member items; it exists iff it has members. The locale
  \<open>collection\<close> asks of a kind of member items only that they are not part of the meta item and that
  reclaiming a key removes them, and proves what the helpers every handler is written with
  (\<^verbatim>\<open>ensureTypeExpiring\<close>, \<^verbatim>\<open>adjustCount\<close>, the type check of the reads) do to such a key.
\<close>

section \<open>A key and its members\<close>

text \<open>The key holds the members \<open>xs\<close>; an absent or expired key holds none.\<close>

definition coll_holds :: "keytype \<Rightarrow> (tbl \<Rightarrow> bytes \<Rightarrow> 'x list) \<Rightarrow> tbl \<Rightarrow> bytes \<Rightarrow> 'x list \<Rightarrow> bool" where
  "coll_holds ty get t pk xs \<longleftrightarrow>
     (case live_meta t pk of
        None \<Rightarrow> xs = [] \<and> (t_meta t pk = None \<longrightarrow> get t pk = [])
      | Some m \<Rightarrow> m_type m = ty \<and> xs \<noteq> [] \<and> get t pk = xs \<and> m_count m = int (length xs))"

text \<open>A collection under construction: meta item and members are there, but may disagree.\<close>

definition coll_at :: "keytype \<Rightarrow> (tbl \<Rightarrow> bytes \<Rightarrow> 'x list) \<Rightarrow> tbl \<Rightarrow> bytes \<Rightarrow> smeta \<Rightarrow> 'x list \<Rightarrow> bool" where
  "coll_at ty get t pk m xs \<longleftrightarrow>
     t_meta t pk = Some m \<and> m_type m = ty \<and> \<not> IsExpired m (t_time t) \<and> get t pk = xs"

text \<open>A run that replies and leaves what \<open>spec\<close> says, and touches no other key.\<close>

definition coll_run ::
    "keytype \<Rightarrow> (tbl \<Rightarrow> bytes \<Rightarrow> 'x list) \<Rightarrow> tbl \<Rightarrow> bytes \<Rightarrow> reply \<times> 'x list \<Rightarrow> reply \<times> tbl world \<Rightarrow> bool" where
  "coll_run ty get t pk spec run \<longleftrightarrow> fst run = fst spec \<and> coll_holds ty get (backend (snd run)) pk (snd spec) \<and>
     same_except {pk} t (backend (snd run))"

lemma coll_run_same: "coll_holds ty get (backend w) pk xs \<Longrightarrow> coll_run ty get (backend w) pk (r, xs) (r, w)"
  by (simp add: coll_run_def)

lemma coll_run_trans:
  "same_except {pk} t (backend w1) \<Longrightarrow> coll_run ty get (backend w1) pk spec run \<Longrightarrow> coll_run ty get t pk spec run"
  unfolding coll_run_def using same_except_trans [of "{pk}" t _ "{pk}" _ "{pk}"] by blast

lemma coll_holds_cases:
  assumes "coll_holds ty get t pk xs"
  obtains "xs = []" "live_meta t pk = None" "t_meta t pk = None \<Longrightarrow> get t pk = []"
  | m where "xs \<noteq> []" "live_meta t pk = Some m" "coll_at ty get t pk m xs" "m_count m = int (length xs)"
  using assms by (auto simp: coll_holds_def coll_at_def live_meta_Some split: option.splits)

lemma coll_holds_at:
  "coll_at ty get t pk m xs \<Longrightarrow> m_count m = int (length xs) \<Longrightarrow> xs \<noteq> [] \<Longrightarrow> coll_holds ty get t pk xs"
  by (simp add: coll_holds_def coll_at_def live_meta_def)

text \<open>A run on other keys does not touch the collection.\<close>

lemma coll_holds_frame:
  assumes "coll_holds ty get t pk xs" and "same_except pks t t'" and "pk \<notin> pks" and "get t' pk = get t pk"
  shows "coll_holds ty get t' pk xs"
proof -
  have "t_time t' = t_time t" "t_meta t' pk = t_meta t pk" using assms(2,3) by (auto simp: same_except_def)
  then have "live_meta t' pk = live_meta t pk" by (auto simp: live_meta_def split: option.split)
  then show ?thesis using assms(1,4) \<open>t_meta t' pk = t_meta t pk\<close>
    by (cases "live_meta t pk") (simp_all add: coll_holds_def)
qed

lemma coll_at_wrong_type:
  "coll_at ty get t pk m xs \<Longrightarrow> wrong_type t pk ty' \<longleftrightarrow> ty \<noteq> ty'"
  by (auto simp: coll_at_def wrong_type_def live_meta_def)

text \<open>
  A run whose reply and resulting members satisfy a relation, on the abstraction \<open>\<alpha>\<close> of the members
  (the map of a hash, the set of the members), and keep \<open>ok\<close>.
\<close>

definition spec_run ::
    "keytype \<Rightarrow> (tbl \<Rightarrow> bytes \<Rightarrow> 'x list) \<Rightarrow> ('x list \<Rightarrow> bool) \<Rightarrow> ('x list \<Rightarrow> 'a) \<Rightarrow> (reply \<Rightarrow> 'a \<Rightarrow> bool) \<Rightarrow>
      tbl \<Rightarrow> bytes \<Rightarrow> reply \<times> tbl world \<Rightarrow> bool" where
  "spec_run ty get ok \<alpha> P t pk run \<longleftrightarrow>
     (\<exists>r xs. coll_run ty get t pk (r, xs) run \<and> ok xs \<and> P r (\<alpha> xs))"

lemma spec_runI:
  "coll_run ty get t pk (r, xs) run \<Longrightarrow> ok xs \<Longrightarrow> P r (\<alpha> xs) \<Longrightarrow> spec_run ty get ok \<alpha> P t pk run"
  by (auto simp: spec_run_def)

section \<open>The laws of a kind of members\<close>

locale collection =
  fixes ty :: keytype and get :: "tbl \<Rightarrow> bytes \<Rightarrow> 'x list"
  assumes get_set_meta: "get (set_meta pk m t) = get t"
    and get_clear_members: "get (clear_members pk t) pk = []"
begin

text \<open>The counter adjusted by the difference.\<close>

lemma adjustCount_coll:
  assumes at: "coll_at ty get (backend w) pk m ys" and "d = int (length ys) - m_count m" and "ys = [] \<Longrightarrow> d < 0"
  obtains w' where "adjustCount (mem_env q cfg) pk ty d w = (Inr (), w')"
    "coll_holds ty get (backend w') pk ys" "same_except {pk} (backend w) (backend w')"
    "ys \<noteq> [] \<Longrightarrow> t_meta (backend w') pk = Some (m\<lparr>m_count := int (length ys)\<rparr>)"
proof -
  note assms = at [unfolded coll_at_def] assms
  let ?f = "\<lambda>w. if d = 0 then w
       else on_tbl (set_meta pk (if d < 0 \<and> m_count m + d \<le> 0 then None else Some (m\<lparr>m_count := m_count m + d\<rparr>))) w"
  show thesis
  proof (rule that [of "?f w"])
    show "adjustCount (mem_env q cfg) pk ty d w = (Inr (), ?f w)"
      using adjustCount_mem at by (simp add: coll_at_def)
    show "coll_holds ty get (backend (?f w)) pk ys"
    proof (cases "ys = []")
      case True
      then show ?thesis using assms by (simp add: coll_holds_def live_meta_def get_set_meta)
    next
      case False
      then show ?thesis
        using assms by (auto simp: coll_holds_def live_meta_def IsExpired_def get_set_meta)
    qed
    show "same_except {pk} (backend w) (backend (?f w))" by (auto simp: same_except_def)
    show "ys \<noteq> [] \<Longrightarrow> t_meta (backend (?f w)) pk = Some (m\<lparr>m_count := int (length ys)\<rparr>)"
      using assms by auto
  qed
qed

text \<open>A write creates the key when there is none, and starts from no members.\<close>

lemma ensure_coll:
  assumes "coll_holds ty get (backend w) pk xs"
  obtains w1 m where "ensureTypeExpiring (mem_env q cfg) pk ty w = (Inr (), w1)"
    "coll_at ty get (backend w1) pk m xs" "m_count m = int (length xs)" "same_except {pk} (backend w) (backend w1)"
  using assms
proof (cases rule: coll_holds_cases)
  case 1
  let ?m = "fresh_meta ty"
  consider "t_meta (backend w) pk = None"
    | m where "t_meta (backend w) pk = Some m" "IsExpired m (t_time (backend w))"
    using 1(2) by (auto simp: live_meta_def split: option.splits if_splits)
  then show ?thesis
  proof cases
    case 1
    then show ?thesis
      using that [of "on_tbl (set_meta pk (Some ?m)) w" ?m] \<open>xs = []\<close> assms
      by (simp add: ensureTypeExpiring_mem coll_at_def IsExpired_def same_except_def coll_holds_def live_meta_def
          get_set_meta)
  next
    case 2
    then show ?thesis
      using that [of "on_tbl (\<lambda>t. clear_members pk (set_meta pk (Some ?m) t)) w" ?m] \<open>xs = []\<close>
      by (simp add: ensureTypeExpiring_mem coll_at_def IsExpired_def same_except_def get_clear_members)
  qed
next
  case (2 m)
  then show ?thesis
    using that [of w m] by (simp add: ensureTypeExpiring_mem coll_at_def on_tbl_def)
qed

text \<open>A command on a live collection, or its reply when there is none.\<close>

lemma withKey_coll:
  assumes "coll_holds ty get (backend w) pk xs" and "xs = [] \<Longrightarrow> f w = (r, w)" and "xs = [] \<Longrightarrow> spec = (r, [])"
    and "\<And>m. coll_at ty get (backend w) pk m xs \<Longrightarrow> m_count m = int (length xs) \<Longrightarrow> xs \<noteq> [] \<Longrightarrow>
      coll_run ty get (backend w) pk spec (g m w)"
  shows "coll_run ty get (backend w) pk spec (withKey (mem_env q cfg) pk ty f g w)"
  using assms(1)
proof (cases rule: coll_holds_cases)
  case 1
  then show ?thesis
    using assms(1-3) by (simp add: withKey_mem coll_run_def)
next
  case (2 m)
  then show ?thesis
    using assms(4) [of m] by (simp add: withKey_mem coll_at_def)
qed

lemma withKey_spec:
  assumes "coll_holds ty get (backend w) pk xs" and "ok xs" and "f w = (r, w)" and "xs = [] \<Longrightarrow> P r (\<alpha> [])"
    and "\<And>m. coll_at ty get (backend w) pk m xs \<Longrightarrow> m_count m = int (length xs) \<Longrightarrow> xs \<noteq> [] \<Longrightarrow>
      spec_run ty get ok \<alpha> P (backend w) pk (g m w)"
  shows "spec_run ty get ok \<alpha> P (backend w) pk (withKey (mem_env q cfg) pk ty f g w)"
  using assms(1)
proof (cases rule: coll_holds_cases)
  case 1
  then show ?thesis
    using assms(1-4) by (intro spec_runI [of _ _ _ _ r xs]) (simp_all add: withKey_mem coll_run_same)
next
  case (2 m)
  then show ?thesis
    using assms(5) [of m] by (simp add: withKey_mem coll_at_def)
qed

text \<open>A command that only reads.\<close>

lemma read_spec:
  assumes "coll_holds ty get (backend w) pk xs" and "ok xs" and "f w = (r0, w)" and "xs = [] \<Longrightarrow> P r0 (\<alpha> [])"
    and "\<And>m. get (backend w) pk = xs \<Longrightarrow> m_count m = int (length xs) \<Longrightarrow> g m w = (r, w)"
    and "xs \<noteq> [] \<Longrightarrow> P r (\<alpha> xs)"
  shows "spec_run ty get ok \<alpha> P (backend w) pk (withKey (mem_env q cfg) pk ty f g w)"
proof (rule withKey_spec [where f = f and r = r0])
  fix m assume at: "coll_at ty get (backend w) pk m xs" "m_count m = int (length xs)" "xs \<noteq> []"
  then have "g m w = (r, w)" using assms(5) by (simp add: coll_at_def)
  then show "spec_run ty get ok \<alpha> P (backend w) pk (g m w)"
    using assms(1,2,6) at(3) by (intro spec_runI [of _ _ _ _ r xs]) (simp_all add: coll_run_same)
qed (use assms in simp_all)

text \<open>The adjustment of the counter that ends every write, alone and after the change of the members.\<close>

lemma reply_coll:
  assumes "coll_at ty get (backend w) pk m ys" and "d = int (length ys) - m_count m" and "ys = [] \<Longrightarrow> d < 0"
  shows "coll_run ty get (backend w) pk (r, ys)
    (attempt (adjustCount (mem_env q cfg) pk ty d) (\<lambda>_. ret r) w)"
proof -
  obtain w2 where "adjustCount (mem_env q cfg) pk ty d w = (Inr (), w2)"
    "coll_holds ty get (backend w2) pk ys" "same_except {pk} (backend w) (backend w2)"
    using adjustCount_coll [OF assms, where q = q and cfg = cfg] by metis
  then show ?thesis by (simp add: coll_run_def attempt_def ret_def)
qed

lemma change_coll:
  assumes at: "coll_at ty get (backend w) pk m xs" and "m_count m = int (length xs)"
    and step: "call f w = (Inr a, w1)" and at1: "coll_at ty get (backend w1) pk m ys"
    and same: "same_except {pk} (backend w) (backend w1)"
    and "d a = int (length ys) - int (length xs)" and "ys = [] \<Longrightarrow> d a < 0"
  shows "coll_run ty get (backend w) pk (r a, ys)
    (attempt (call f) (\<lambda>a. attempt (adjustCount (mem_env q cfg) pk ty (d a)) (\<lambda>_. ret (r a))) w)"
  using coll_run_trans [OF same reply_coll [OF at1, of "d a" "r a" q cfg]] step assms(2,6,7)
  by (simp add: attempt_def)

end

interpretation list_coll: collection TypeList t_list
  by unfold_locales simp_all

interpretation hash_coll: collection TypeHash t_hash
  by unfold_locales simp_all

interpretation set_coll: collection TypeSet t_set
  by unfold_locales simp_all

interpretation zset_coll: collection TypeZSet "\<lambda>t pk. zlist (t_zset t pk)"
  by unfold_locales simp_all

end
