(* ===== verification/ListSpec.thy ===== *)
theory ListSpec
  imports Lists Collections
begin

text \<open>
  Refinement of the List commands: over every store that keeps the contract, each of them is one
  operation of an ordinary list (\<open>list_spec\<close>), a key exists iff its list is not empty, and the
  counter of the meta item always is the length.
\<close>

section \<open>The abstract list\<close>

datatype list_cmd =
    LPush "bytes list" | RPush "bytes list" | LPushX bytes | RPushX bytes | LPop | RPop | LLen
  | LIndex int | LRange int int | LSet int bytes | LTrim int int | LRem int bytes
  | LInsert bool bytes bytes

text \<open>The request a client sends.\<close>

fun list_args :: "bytes \<Rightarrow> list_cmd \<Rightarrow> bytes list" where
  "list_args key (LPush es) = [''LPUSH'', key] @ es"
| "list_args key (RPush es) = [''RPUSH'', key] @ es"
| "list_args key (LPushX e) = [''LPUSHX'', key, e]"
| "list_args key (RPushX e) = [''RPUSHX'', key, e]"
| "list_args key LPop = [''LPOP'', key]"
| "list_args key RPop = [''RPOP'', key]"
| "list_args key LLen = [''LLEN'', key]"
| "list_args key (LIndex i) = [''LINDEX'', key, fmt_int i]"
| "list_args key (LRange i j) = [''LRANGE'', key, fmt_int i, fmt_int j]"
| "list_args key (LSet i v) = [''LSET'', key, fmt_int i, v]"
| "list_args key (LTrim i j) = [''LTRIM'', key, fmt_int i, fmt_int j]"
| "list_args key (LRem n v) = [''LREM'', key, fmt_int n, v]"
| "list_args key (LInsert b p v) = [''LINSERT'', key, if b then ''BEFORE'' else ''AFTER'', p, v]"

fun list_handler :: "'s env \<Rightarrow> int \<Rightarrow> bytes \<Rightarrow> list_cmd \<Rightarrow> 's handler" where
  "list_handler E db key (LPush es) = handleLPush E db (list_args key (LPush es))"
| "list_handler E db key (RPush es) = handleRPush E db (list_args key (RPush es))"
| "list_handler E db key (LPushX e) = handleLPushX E db (list_args key (LPushX e))"
| "list_handler E db key (RPushX e) = handleRPushX E db (list_args key (RPushX e))"
| "list_handler E db key LPop = handleLPop E db (list_args key LPop)"
| "list_handler E db key RPop = handleRPop E db (list_args key RPop)"
| "list_handler E db key LLen = handleLLen E db (list_args key LLen)"
| "list_handler E db key (LIndex i) = handleLIndex E db (list_args key (LIndex i))"
| "list_handler E db key (LRange i j) = handleLRange E db (list_args key (LRange i j))"
| "list_handler E db key (LSet i v) = handleLSet E db (list_args key (LSet i v))"
| "list_handler E db key (LTrim i j) = handleLTrim E db (list_args key (LTrim i j))"
| "list_handler E db key (LRem n v) = handleLRem E db (list_args key (LRem n v))"
| "list_handler E db key (LInsert b p v) = handleLInsert E db (list_args key (LInsert b p v))"

text \<open>The elements with index from \<open>i\<close> to \<open>j\<close>, where negative indices count from the end.\<close>

definition from_end :: "'a list \<Rightarrow> int \<Rightarrow> int" where
  "from_end xs i = (if i < 0 then i + int (length xs) else i)"

definition index_range :: "'a list \<Rightarrow> int \<Rightarrow> int \<Rightarrow> 'a list" where
  "index_range xs i j =
     map snd (filter (\<lambda>(k, _). from_end xs i \<le> int k \<and> int k \<le> from_end xs j) (zip [0..<length xs] xs))"

text \<open>Removing the first \<open>n\<close> occurrences.\<close>

fun remove_n :: "nat \<Rightarrow> 'a \<Rightarrow> 'a list \<Rightarrow> 'a list" where
  "remove_n n v [] = []"
| "remove_n 0 v xs = xs"
| "remove_n (Suc n) v (x # xs) = (if x = v then remove_n n v xs else x # remove_n (Suc n) v xs)"

definition lrem_spec :: "int \<Rightarrow> bytes \<Rightarrow> bytes list \<Rightarrow> bytes list" where
  "lrem_spec n v xs =
     (if n > 0 then remove_n (nat n) v xs
      else if n < 0 then rev (remove_n (nat (- n)) v (rev xs))
      else filter (\<lambda>x. x \<noteq> v) xs)"

text \<open>What each command replies and leaves of a list; an absent key is the empty list.\<close>

fun list_spec :: "list_cmd \<Rightarrow> bytes list \<Rightarrow> reply \<times> bytes list" where
  "list_spec (LPush es) xs = (IntReply (int (length xs + length es)), rev es @ xs)"
| "list_spec (RPush es) xs = (IntReply (int (length xs + length es)), xs @ es)"
| "list_spec (LPushX e) xs = (if xs = [] then (IntReply 0, []) else (IntReply (int (length xs) + 1), e # xs))"
| "list_spec (RPushX e) xs = (if xs = [] then (IntReply 0, []) else (IntReply (int (length xs) + 1), xs @ [e]))"
| "list_spec LPop xs = (case xs of [] \<Rightarrow> (NullBulk, []) | y # ys \<Rightarrow> (BulkString y, ys))"
| "list_spec RPop xs = (if xs = [] then (NullBulk, []) else (BulkString (last xs), butlast xs))"
| "list_spec LLen xs = (IntReply (int (length xs)), xs)"
| "list_spec (LIndex i) xs =
     (if 0 \<le> from_end xs i \<and> from_end xs i < int (length xs) then BulkString (xs ! nat (from_end xs i))
      else NullBulk, xs)"
| "list_spec (LRange i j) xs = (if xs = [] then EmptyArray else BulkArray (Some (index_range xs i j)), xs)"
| "list_spec (LSet i v) xs =
     (if xs = [] then (Error ErrNoSuchKey, [])
      else if 0 \<le> from_end xs i \<and> from_end xs i < int (length xs)
      then (SimpleString ''OK'', xs[nat (from_end xs i) := v])
      else (Error ErrIndexOutOfRange, xs))"
| "list_spec (LTrim i j) xs = (SimpleString ''OK'', index_range xs i j)"
| "list_spec (LRem n v) xs = (let ys = lrem_spec n v xs in (IntReply (int (length xs) - int (length ys)), ys))"
| "list_spec (LInsert b p v) xs =
     (if xs = [] then (IntReply 0, [])
      else if p \<notin> set xs then (IntReply (-1), xs)
      else (IntReply (int (length xs) + 1),
            takeWhile (\<lambda>x. x \<noteq> p) xs @ (if b then [v, p] else [p, v]) @ tl (dropWhile (\<lambda>x. x \<noteq> p) xs)))"

text \<open>A request the proxy's limits let through: sizes, 64-bit integers, at least one pushed element.\<close>

definition list_cmd_ok :: "bytes \<Rightarrow> list_cmd \<Rightarrow> bool" where
  "list_cmd_ok key c \<longleftrightarrow>
     (case c of
        LPush es \<Rightarrow> es \<noteq> [] \<and> write_fits key [] es
      | RPush es \<Rightarrow> es \<noteq> [] \<and> write_fits key [] es
      | LPushX e \<Rightarrow> write_fits key [] [e]
      | RPushX e \<Rightarrow> write_fits key [] [e]
      | LIndex i \<Rightarrow> i64 i
      | LRange i j \<Rightarrow> i64 i \<and> i64 j
      | LSet i v \<Rightarrow> i64 i \<and> write_fits key [] [v]
      | LTrim i j \<Rightarrow> i64 i \<and> i64 j
      | LRem n v \<Rightarrow> i64 n
      | LInsert b p v \<Rightarrow> write_fits key [] [v]
      | _ \<Rightarrow> True)"

text \<open>The key holds the list \<open>xs\<close>, its counter is the length, and it exists iff \<open>xs\<close> is not empty.\<close>

abbreviation list_holds :: "tbl \<Rightarrow> bytes \<Rightarrow> bytes list \<Rightarrow> bool" where
  "list_holds \<equiv> coll_holds TypeList t_list"

lemmas list_holds_def = coll_holds_def [where ty = TypeList and get = t_list]

section \<open>The helpers compute the abstract operations\<close>

lemma index_range_slice:
  "index_range xs i j =
    (let n = int (length xs); lo = max 0 (from_end xs i); hi = min (n - 1) (from_end xs j)
     in take (nat (hi + 1 - lo)) (drop (nat lo) xs))"
proof -
  define lo hi where "lo = nat (max 0 (from_end xs i))" and "hi = nat (min (int (length xs) - 1) (from_end xs j) + 1)"
  have gen: "map snd (filter (\<lambda>(k, _). a \<le> k \<and> k < b) (zip [m..<m + length ys] ys)) =
      take (b - max a m) (drop (a - m) ys)" for a b m and ys :: "'a list"
  proof (induction ys arbitrary: m)
    case (Cons y ys)
    have "zip [m..<m + length (y # ys)] (y # ys) = (m, y) # zip [Suc m..<Suc m + length ys] ys"
      by (simp add: upt_conv_Cons del: upt_Suc)
    then show ?case
      using Cons [of "Suc m"]
      by (cases "a \<le> m"; cases "m < b") (auto simp: max_def take_Cons' drop_Cons' Suc_diff_le le_Suc_eq)
  qed simp
  have "filter (\<lambda>(k, _). from_end xs i \<le> int k \<and> int k \<le> from_end xs j) (zip [0..<length xs] xs) =
      filter (\<lambda>(k, _). lo \<le> k \<and> k < hi) (zip [0..<length xs] xs)"
    by (rule filter_cong) (auto simp: lo_def hi_def set_zip)
  then have "index_range xs i j = take (hi - lo) (drop lo xs)"
    using gen [of lo hi 0 xs] by (simp add: index_range_def)
  moreover have "hi - lo = nat (min (int (length xs) - 1) (from_end xs j) + 1 - max 0 (from_end xs i))"
    unfolding lo_def hi_def by linarith
  ultimately show ?thesis by (simp add: Let_def lo_def)
qed

lemma from_end_wrap:
  assumes "i64 i" and "int (length xs) \<le> max_i64"
  shows "i64 (from_end xs i)"
  using assms by (auto simp: from_end_def i64_def)

lemma index_at_from_end:
  "index_at xs i = (if 0 \<le> from_end xs i \<and> from_end xs i < int (length xs) then Some (xs ! nat (from_end xs i)) else None)"
  by (auto simp: index_at_def from_end_def Let_def)

lemma trimmed_index_range:
  assumes "i64 i" "i64 j" "int (length xs) \<le> max_i64"
  shows "trimmed xs i j = index_range xs i j" "rank_slice xs i j = index_range xs i j"
proof -
  have n: "i64 (int (length xs))" using assms(3) by (simp add: i64_def)
  show "rank_slice xs i j = index_range xs i j"
    by (simp only: rank_slice_def index_range_slice from_end_def Let_def)
  show "trimmed xs i j = index_range xs i j"
    unfolding trimmed_def ZNormalizeRankRange_eq [OF of_nat_0_le_iff n assms(1,2)] index_range_slice Let_def from_end_def
    by (auto simp: max_def min_def add.commute)
qed

lemma remove_0 [simp]: "remove_n 0 v xs = xs"
  by (cases xs) simp_all

lemma drop_matches_remove_n:
  "drop_matches xs (int k) v = (remove_n k v xs, int (length xs) - int (length (remove_n k v xs)))"
proof (induction xs arbitrary: k)
  case (Cons x xs)
  show ?case
    using Cons.IH [of k] Cons.IH [of "k - 1"] by (cases k) auto
qed simp

text \<open>More than the length removes all of them.\<close>

lemma remove_n_all: "length xs \<le> k \<Longrightarrow> remove_n k v xs = filter (\<lambda>x. x \<noteq> v) xs"
proof (induction xs arbitrary: k)
  case (Cons x xs)
  then obtain k' where "k = Suc k'" "length xs \<le> k'" by (cases k) auto
  with Cons.IH [of k'] Cons.IH [of k] show ?case by auto
qed simp

lemma length_remove_n_le: "length (remove_n k v xs) \<le> length xs"
  by (induction k v xs rule: remove_n.induct) auto

lemma remove_n_same: "length (remove_n k v xs) = length xs \<Longrightarrow> remove_n k v xs = xs"
proof (induction k v xs rule: remove_n.induct)
  case (3 n v x xs)
  then show ?case using length_remove_n_le [of n v xs] by (auto split: if_splits)
qed simp_all

lemma lrem_spec_same: "length (lrem_spec n v xs) = length xs \<Longrightarrow> lrem_spec n v xs = xs"
  using remove_n_same [of "nat n" v xs] remove_n_same [of "nat (- n)" v "rev xs"]
    length_filter_less [of _ xs "\<lambda>x. x \<noteq> v"]
  by (auto simp: lrem_spec_def filter_id_conv split: if_splits)

lemma lremCompute_spec:
  assumes "i64 n" and "int (length xs) \<le> max_i64"
  shows "lremCompute xs n v = (lrem_spec n v xs, int (length xs) - int (length (lrem_spec n v xs)))"
proof -
  let ?len = "int (length xs)"
  consider "n > 0" | "n < 0" | "n = 0" by linarith
  then show ?thesis
  proof cases
    case 1
    have "remove_n (nat (if n > ?len then ?len else n)) v xs = remove_n (nat n) v xs"
      using 1 by (simp add: remove_n_all)
    then show ?thesis
      using 1 drop_matches_remove_n [of xs "nat (if n > ?len then ?len else n)" v]
      by (auto simp: lremCompute_def lrem_spec_def Let_def split: if_splits)
  next
    case 2
    define k where "k = (if n < - ?len then ?len else wrap64 (- n))"
    have k: "k = (if n < - ?len then ?len else - n)"
      using 2 assms by (auto simp: k_def i64_def)
    have "remove_n (nat k) v (rev xs) = remove_n (nat (- n)) v (rev xs)"
      unfolding k using 2 by (auto simp: remove_n_all)
    then show ?thesis
      using 2 drop_matches_remove_n [of "rev xs" "nat k" v] k
      by (auto simp: lremCompute_def lrem_spec_def Let_def simp flip: k_def)
  next
    case 3
    then show ?thesis
      using sum_length_filter_compl [of "\<lambda>x. x = v" xs] by (simp add: lremCompute_def lrem_spec_def)
  qed
qed

text \<open>A list split at the first occurrence of an element.\<close>

lemma split_first:
  assumes "p \<in> set xs"
  obtains ys zs where "xs = ys @ p # zs" "takeWhile (\<lambda>x. x \<noteq> p) xs = ys" "dropWhile (\<lambda>x. x \<noteq> p) xs = p # zs" "p \<notin> set ys"
proof -
  obtain ys zs where xs: "xs = ys @ p # zs" "p \<notin> set ys" using split_list_first [OF assms] by blast
  then have "takeWhile (\<lambda>x. x \<noteq> p) xs = ys" "dropWhile (\<lambda>x. x \<noteq> p) xs = p # zs"
    by (simp_all add: takeWhile_append dropWhile_append)
  with xs that show ?thesis by blast
qed

lemma first_index_takeWhile:
  "first_index p xs = (if p \<in> set xs then Some (length (takeWhile (\<lambda>x. x \<noteq> p) xs)) else None)"
proof (cases "p \<in> set xs")
  case False
  then show ?thesis by (auto simp: first_index_def find_None_iff)
next
  case True
  then obtain ys zs where xs: "xs = ys @ p # zs" "takeWhile (\<lambda>x. x \<noteq> p) xs = ys" "p \<notin> set ys"
    by (rule split_first)
  have "find (\<lambda>i. (ys @ p # zs) ! i = p) ([0..<length ys] @ length ys # [Suc (length ys)..<length ys + length (p # zs)]) = Some (length ys)"
  proof -
    have "find (\<lambda>i. (ys @ p # zs) ! i = p) [0..<length ys] = None"
      using xs(3) by (auto simp: find_None_iff nth_append)
    then show ?thesis by (simp add: find_append)
  qed
  moreover have "[0..<length xs] = [0..<length ys] @ length ys # [Suc (length ys)..<length ys + length (p # zs)]"
    using upt_add_eq_append [of 0 "length ys" "length (p # zs)"] upt_conv_Cons [of "length ys" "length ys + length (p # zs)"]
    by (simp add: xs(1) del: upt_Suc)
  ultimately show ?thesis using True xs(2) by (simp add: first_index_def flip: xs(1))
qed

lemma insert_at_pivot:
  assumes "p \<in> set xs" and "n = length (takeWhile (\<lambda>x. x \<noteq> p) xs)"
  shows "take n xs = takeWhile (\<lambda>x. x \<noteq> p) xs" "drop n xs = p # tl (dropWhile (\<lambda>x. x \<noteq> p) xs)"
    "take (Suc n) xs = takeWhile (\<lambda>x. x \<noteq> p) xs @ [p]" "drop (Suc n) xs = tl (dropWhile (\<lambda>x. x \<noteq> p) xs)"
proof -
  from assms(1) obtain ys zs where xs: "xs = ys @ p # zs" "takeWhile (\<lambda>x. x \<noteq> p) xs = ys" "dropWhile (\<lambda>x. x \<noteq> p) xs = p # zs"
    by (rule split_first)
  show "take n xs = takeWhile (\<lambda>x. x \<noteq> p) xs" "drop n xs = p # tl (dropWhile (\<lambda>x. x \<noteq> p) xs)"
    "take (Suc n) xs = takeWhile (\<lambda>x. x \<noteq> p) xs @ [p]" "drop (Suc n) xs = tl (dropWhile (\<lambda>x. x \<noteq> p) xs)"
    unfolding assms(2) xs(2,3) by (simp_all add: xs(1))
qed

section \<open>Each command, over the abstract table\<close>

abbreviation list_at :: "tbl \<Rightarrow> bytes \<Rightarrow> smeta \<Rightarrow> bytes list \<Rightarrow> bool" where
  "list_at \<equiv> coll_at TypeList t_list"

abbreviation list_run :: "tbl \<Rightarrow> bytes \<Rightarrow> reply \<times> bytes list \<Rightarrow> reply \<times> tbl world \<Rightarrow> bool" where
  "list_run \<equiv> coll_run TypeList t_list"

lemmas list_at_def = coll_at_def [where ty = TypeList and get = t_list]
lemmas list_run_def = coll_run_def [where ty = TypeList and get = t_list]
lemmas live_list_result = coll_holds_at [where ty = TypeList and get = t_list]
lemmas adjustCount_list = list_coll.adjustCount_coll
lemmas ensure_list = list_coll.ensure_coll
lemmas withKey_list = list_coll.withKey_coll

lemma pushCommon_mem:
  assumes "list_at (backend w) pk m xs" "m_count m = int (length xs)" "es \<noteq> []"
    and "\<And>t. push pk es t = (Inr (int (length es)), set_list pk (f (t_list t pk)) t)"
    and "length (f xs) = length xs + length es"
  shows "list_run (backend w) pk (IntReply (int (length xs + length es)), f xs) (pushCommon (mem_env q cfg) pk es push w)"
proof -
  let ?w1 = "on_tbl (\<lambda>t. set_list pk (f (t_list t pk)) t) w"
  have at: "list_at (backend ?w1) pk m (f xs)" using assms(1) by (simp add: list_at_def)
  have ne: "f xs \<noteq> []" using assms(3,5) by auto
  obtain w2 where w2: "adjustCount (mem_env q cfg) pk TypeList (int (length es)) ?w1 = (Inr (), w2)"
    "list_holds (backend w2) pk (f xs)" "same_except {pk} (backend ?w1) (backend w2)"
    "t_meta (backend w2) pk = Some (m\<lparr>m_count := int (length (f xs))\<rparr>)"
    using adjustCount_list [OF at, of "int (length es)"] assms(2,5) ne by auto
  have "same_except {pk} (backend w) (backend ?w1)" by (simp add: same_except_def)
  then have "same_except {pk} (backend w) (backend w2)" using w2(3) by (rule same_except_trans) simp
  moreover have "call (push pk es) w = (Inr (int (length es)), ?w1)"
    by (simp add: call_mem assms(4))
  ultimately show ?thesis
    using w2 assms(5) by (simp add: list_run_def pushCommon_def attempt_def Meta_Load_mem ret_def)
qed

lemma push_mem:
  assumes "list_holds (backend w) (encodePK cfg db key) xs" "es \<noteq> []" "write_fits key [] es"
  shows "list_run (backend w) (encodePK cfg db key) (list_spec (LPush es) xs)
      (handleLPush (mem_env q cfg) db ([c, key] @ es) w)"
    and "list_run (backend w) (encodePK cfg db key) (list_spec (RPush es) xs)
      (handleRPush (mem_env q cfg) db ([c, key] @ es) w)"
proof -
  let ?pk = "encodePK cfg db key"
  from ensure_list [OF assms(1), of q cfg] obtain w1 m
    where w1: "ensureTypeExpiring (mem_env q cfg) ?pk TypeList w = (Inr (), w1)"
    "list_at (backend w1) ?pk m xs" "m_count m = int (length xs)" "same_except {?pk} (backend w) (backend w1)" .
  note run = handleLPush_def handleRPush_def attempt_def CheckWrite_run Let_def
  have "list_run (backend w1) ?pk (list_spec (LPush es) xs) (pushCommon (mem_env q cfg) ?pk es sp_LPush w1)"
    using pushCommon_mem [OF w1(2,3) assms(2), of sp_LPush "\<lambda>ys. rev es @ ys"] by (simp add: sp_LPush_def)
  then show "list_run (backend w) ?pk (list_spec (LPush es) xs) (handleLPush (mem_env q cfg) db ([c, key] @ es) w)"
    using w1(1) assms(3) same_except_trans [OF w1(4)] by (auto simp: run list_run_def)
  have "list_run (backend w1) ?pk (list_spec (RPush es) xs) (pushCommon (mem_env q cfg) ?pk es sp_RPush w1)"
    using pushCommon_mem [OF w1(2,3) assms(2), of sp_RPush "\<lambda>ys. ys @ es"] by (simp add: sp_RPush_def)
  then show "list_run (backend w) ?pk (list_spec (RPush es) xs) (handleRPush (mem_env q cfg) db ([c, key] @ es) w)"
    using w1(1) assms(3) same_except_trans [OF w1(4)] by (auto simp: run list_run_def)
qed

lemma pushX_mem:
  assumes "list_holds (backend w) (encodePK cfg db key) xs" "write_fits key [] [e]"
  shows "list_run (backend w) (encodePK cfg db key) (list_spec (LPushX e) xs)
      (handleLPushX (mem_env q cfg) db [c, key, e] w)"
    and "list_run (backend w) (encodePK cfg db key) (list_spec (RPushX e) xs)
      (handleRPushX (mem_env q cfg) db [c, key, e] w)"
proof -
  let ?pk = "encodePK cfg db key"
  have h: "handleLPushX (mem_env q cfg) db [c, key, e] = withKey (mem_env q cfg) ?pk TypeList (ret (IntReply 0))
        (\<lambda>_. attempt (CheckWrite key [] [e]) (\<lambda>_. pushCommon (mem_env q cfg) ?pk [e] sp_LPush))"
    "handleRPushX (mem_env q cfg) db [c, key, e] = withKey (mem_env q cfg) ?pk TypeList (ret (IntReply 0))
        (\<lambda>_. attempt (CheckWrite key [] [e]) (\<lambda>_. pushCommon (mem_env q cfg) ?pk [e] sp_RPush))"
    by (simp_all add: handleLPushX_def handleRPushX_def pushXCommon_def Let_def)
  note push = pushCommon_mem [of w ?pk _ xs "[e]" sp_LPush "\<lambda>ys. e # ys" q cfg]
    pushCommon_mem [of w ?pk _ xs "[e]" sp_RPush "\<lambda>ys. ys @ [e]" q cfg]
  show "list_run (backend w) ?pk (list_spec (LPushX e) xs) (handleLPushX (mem_env q cfg) db [c, key, e] w)"
    unfolding h
    by (rule withKey_list [OF assms(1)])
      (use assms(2) push in \<open>simp_all add: attempt_def CheckWrite_run ret_def sp_LPush_def add.commute\<close>)
  show "list_run (backend w) ?pk (list_spec (RPushX e) xs) (handleRPushX (mem_env q cfg) db [c, key, e] w)"
    unfolding h
    by (rule withKey_list [OF assms(1)])
      (use assms(2) push in \<open>simp_all add: attempt_def CheckWrite_run ret_def sp_RPush_def add.commute\<close>)
qed

lemma pop_mem:
  assumes "list_holds (backend w) (encodePK cfg db key) xs"
  shows "list_run (backend w) (encodePK cfg db key) (list_spec LPop xs) (handleLPop (mem_env q cfg) db [c, key] w)"
    and "list_run (backend w) (encodePK cfg db key) (list_spec RPop xs) (handleRPop (mem_env q cfg) db [c, key] w)"
proof -
  let ?pk = "encodePK cfg db key"
  have pop: "list_run (backend w) ?pk (BulkString x, ys)
      (attempt (call (pop ?pk)) (\<lambda>v. case v of None \<Rightarrow> ret NullBulk
        | Some b \<Rightarrow> attempt (adjustCount (mem_env q cfg) ?pk TypeList (-1)) (\<lambda>_. ret (BulkString b))) w)"
    if hyps: "list_at (backend w) ?pk m xs" "m_count m = int (length xs)" "pop ?pk (backend w) = (Inr (Some x), set_list ?pk ys (backend w))"
      "length xs = Suc (length ys)" for m x ys and pop :: "bytes \<Rightarrow> (tbl, bytes option) op"
  proof -
    let ?w1 = "w\<lparr>backend := set_list ?pk ys (backend w)\<rparr>"
    have at: "list_at (backend ?w1) ?pk m ys" using hyps(1) by (simp add: list_at_def)
    obtain w2
      where w2: "adjustCount (mem_env q cfg) ?pk TypeList (-1) ?w1 = (Inr (), w2)" "list_holds (backend w2) ?pk ys"
        "same_except {?pk} (backend ?w1) (backend w2)"
      using adjustCount_list [OF at, where d = "-1" and q = q and cfg = cfg] hyps(2,4) by auto
    then show ?thesis
      using hyps(3) same_except_trans [of "{?pk}" "backend w" "backend ?w1" "{?pk}" "backend w2" "{?pk}"]
      by (auto simp: list_run_def attempt_def call_def ret_def same_except_def)
  qed
  have h: "handleLPop (mem_env q cfg) db [c, key] = withKey (mem_env q cfg) ?pk TypeList (ret NullBulk)
        (\<lambda>_. attempt (call (sp_LPop ?pk)) (\<lambda>v. case v of None \<Rightarrow> ret NullBulk
          | Some b \<Rightarrow> attempt (adjustCount (mem_env q cfg) ?pk TypeList (-1)) (\<lambda>_. ret (BulkString b))))"
    "handleRPop (mem_env q cfg) db [c, key] = withKey (mem_env q cfg) ?pk TypeList (ret NullBulk)
        (\<lambda>_. attempt (call (sp_RPop ?pk)) (\<lambda>v. case v of None \<Rightarrow> ret NullBulk
          | Some b \<Rightarrow> attempt (adjustCount (mem_env q cfg) ?pk TypeList (-1)) (\<lambda>_. ret (BulkString b))))"
    by (simp_all add: handleLPop_def handleRPop_def popCommon_def Let_def)
  show "list_run (backend w) ?pk (list_spec LPop xs) (handleLPop (mem_env q cfg) db [c, key] w)"
    unfolding h
  proof (rule withKey_list [OF assms])
    fix m assume at: "list_at (backend w) ?pk m xs" "m_count m = int (length xs)" "xs \<noteq> []"
    then obtain y ys where xs: "xs = y # ys" by (cases xs) auto
    then show "list_run (backend w) ?pk (list_spec LPop xs) (attempt (call (sp_LPop ?pk)) (\<lambda>v. case v of None \<Rightarrow> ret NullBulk
          | Some b \<Rightarrow> attempt (adjustCount (mem_env q cfg) ?pk TypeList (-1)) (\<lambda>_. ret (BulkString b))) w)"
      using pop [OF at(1,2), of sp_LPop y ys] at(1) by (simp add: sp_LPop_def list_at_def)
  qed (simp_all add: ret_def)
  show "list_run (backend w) ?pk (list_spec RPop xs) (handleRPop (mem_env q cfg) db [c, key] w)"
    unfolding h
  proof (rule withKey_list [OF assms])
    fix m assume at: "list_at (backend w) ?pk m xs" "m_count m = int (length xs)" "xs \<noteq> []"
    then show "list_run (backend w) ?pk (list_spec RPop xs) (attempt (call (sp_RPop ?pk)) (\<lambda>v. case v of None \<Rightarrow> ret NullBulk
          | Some b \<Rightarrow> attempt (adjustCount (mem_env q cfg) ?pk TypeList (-1)) (\<lambda>_. ret (BulkString b))) w)"
      using pop [OF at(1,2), of sp_RPop "last xs" "butlast xs"] by (simp add: sp_RPop_def list_at_def)
  qed (simp_all add: ret_def)
qed

lemma rewrite_mem:
  assumes at: "list_at (backend w) pk m xs" and count: "m_count m = int (length xs)" and "xs \<noteq> []"
    and d: "d = int (length ys) - int (length xs)"
  shows "list_run (backend w) pk (r, ys)
    (attempt (call (sp_LReplaceAll pk ys)) (\<lambda>_. attempt (adjustCount (mem_env q cfg) pk TypeList d) (\<lambda>_. ret r)) w)"
proof -
  let ?w1 = "on_tbl (\<lambda>t. set_list pk ys (clear_members pk t)) w"
  have at1: "list_at (backend ?w1) pk m ys" using at by (simp add: list_at_def)
  obtain w2 where w2: "adjustCount (mem_env q cfg) pk TypeList d ?w1 = (Inr (), w2)"
    "list_holds (backend w2) pk ys" "same_except {pk} (backend ?w1) (backend w2)"
    using adjustCount_list [OF at1, where d = d and q = q and cfg = cfg] count d assms(3) by auto
  have "same_except {pk} (backend w) (backend ?w1)" by (simp add: same_except_def)
  then have "same_except {pk} (backend w) (backend w2)" using w2(3) by (rule same_except_trans) simp
  then show ?thesis
    using w2 by (simp add: list_run_def attempt_def call_mem sp_LReplaceAll_def ret_def)
qed

lemma LRangeAll_at: "list_at (backend w) pk m xs \<Longrightarrow> call (sp_LRangeAll pk) w = (Inr xs, w)"
  by (simp add: call_mem sp_LRangeAll_def list_at_def)

lemma LReplaceAll_only:
  assumes "list_at (backend w) pk m xs" "m_count m = int (length xs)" "length ys = length xs" "xs \<noteq> []"
  shows "list_run (backend w) pk (r, ys) (attempt (call (sp_LReplaceAll pk ys)) (\<lambda>_. ret r) w)"
  using assms
  by (auto simp: list_run_def attempt_def call_mem sp_LReplaceAll_def ret_def list_holds_def live_meta_def list_at_def
      same_except_def)

lemma reads_mem:
  assumes "list_holds (backend w) (encodePK cfg db key) xs" "int (length xs) \<le> max_i64"
  shows "list_run (backend w) (encodePK cfg db key) (list_spec LLen xs) (handleLLen (mem_env q cfg) db [c, key] w)"
    and "i64 i \<Longrightarrow> list_run (backend w) (encodePK cfg db key) (list_spec (LIndex i) xs)
      (handleLIndex (mem_env q cfg) db [c, key, fmt_int i] w)"
    and "i64 i \<Longrightarrow> i64 j \<Longrightarrow> MaxCollectionResult cfg \<le> 0 \<Longrightarrow>
      list_run (backend w) (encodePK cfg db key) (list_spec (LRange i j) xs)
        (handleLRange (mem_env q cfg) db [c, key, fmt_int i, fmt_int j] w)"
proof -
  let ?pk = "encodePK cfg db key" and ?E = "mem_env q cfg"
  have "handleLLen ?E db [c, key] = withKey ?E ?pk TypeList (ret (IntReply 0)) (\<lambda>m. ret (IntReply (m_count m)))"
    by (simp add: handleLLen_def)
  then show "list_run (backend w) ?pk (list_spec LLen xs) (handleLLen ?E db [c, key] w)"
    by (simp only:) (rule withKey_list [OF assms(1)], simp_all add: ret_def list_run_def live_list_result)
  {
    assume i: "i64 i"
    have "handleLIndex ?E db [c, key, fmt_int i] = withKey ?E ?pk TypeList (ret NullBulk) (\<lambda>_.
        attempt (call (sp_LIndex ?pk i)) (\<lambda>v. case v of None \<Rightarrow> ret NullBulk | Some b \<Rightarrow> ret (BulkString b)))"
      by (simp add: handleLIndex_def Let_def ParseInt_fmt [OF i])
    then show "list_run (backend w) ?pk (list_spec (LIndex i) xs) (handleLIndex ?E db [c, key, fmt_int i] w)"
      by (simp only:) (rule withKey_list [OF assms(1)], auto simp: ret_def list_run_def live_list_result attempt_def
        call_mem sp_LIndex_def index_at_from_end list_at_def from_end_def)
  }
  assume ij: "i64 i" "i64 j" "MaxCollectionResult cfg \<le> 0"
  have "handleLRange ?E db [c, key, fmt_int i, fmt_int j] = withKey ?E ?pk TypeList (ret EmptyArray) (\<lambda>_.
      attempt (call (sp_LRange ?pk i j)) (\<lambda>es. ret (BulkArray (Some es))))"
    using ij(3) by (simp add: handleLRange_def Let_def ParseInt_fmt [OF ij(1)] ParseInt_fmt [OF ij(2)] resultCapExceeded_def)
  then show "list_run (backend w) ?pk (list_spec (LRange i j) xs) (handleLRange ?E db [c, key, fmt_int i, fmt_int j] w)"
    by (simp only:) (rule withKey_list [OF assms(1)], auto simp: ret_def list_run_def live_list_result attempt_def
      call_mem sp_LRange_def list_at_def trimmed_index_range(2) [OF ij(1,2) assms(2)])
qed

lemma rewrites_mem:
  assumes holds: "list_holds (backend w) (encodePK cfg db key) xs" and len: "int (length xs) \<le> max_i64"
  shows "i64 i \<Longrightarrow> write_fits key [] [v] \<Longrightarrow> list_run (backend w) (encodePK cfg db key) (list_spec (LSet i v) xs)
      (handleLSet (mem_env q cfg) db [c, key, fmt_int i, v] w)"
    and "i64 i \<Longrightarrow> i64 j \<Longrightarrow> list_run (backend w) (encodePK cfg db key) (list_spec (LTrim i j) xs)
      (handleLTrim (mem_env q cfg) db [c, key, fmt_int i, fmt_int j] w)"
    and "i64 i \<Longrightarrow> list_run (backend w) (encodePK cfg db key) (list_spec (LRem i v) xs)
      (handleLRem (mem_env q cfg) db [c, key, fmt_int i, v] w)"
    and "write_fits key [] [v] \<Longrightarrow> list_run (backend w) (encodePK cfg db key) (list_spec (LInsert b p v) xs)
      (handleLInsert (mem_env q cfg) db [c, key, if b then ''BEFORE'' else ''AFTER'', p, v] w)"
proof -
  let ?pk = "encodePK cfg db key" and ?E = "mem_env q cfg"
  {
    assume i: "i64 i" and fits: "write_fits key [] [v]"
    have "handleLSet ?E db [c, key, fmt_int i, v] = withKey ?E ?pk TypeList (ret (Error ErrNoSuchKey)) (\<lambda>_.
        attempt (call (sp_LRangeAll ?pk)) (\<lambda>all. let idx = from_end all i in
          if idx < 0 \<or> idx \<ge> int (length all) then ret (Error ErrIndexOutOfRange)
          else attempt (CheckWrite key [] [v]) (\<lambda>_.
            attempt (call (sp_LReplaceAll ?pk (all[nat idx := v]))) (\<lambda>_. ret (SimpleString ''OK'')))))"
      by (simp add: handleLSet_def Let_def ParseInt_fmt [OF i] from_end_def cong: if_cong)
    then show "list_run (backend w) ?pk (list_spec (LSet i v) xs) (handleLSet ?E db [c, key, fmt_int i, v] w)"
    proof (simp only:, intro withKey_list [OF holds])
      fix m assume at: "list_at (backend w) ?pk m xs" "m_count m = int (length xs)" "xs \<noteq> []"
      show "list_run (backend w) ?pk (list_spec (LSet i v) xs)
        (attempt (call (sp_LRangeAll ?pk)) (\<lambda>all. let idx = from_end all i in
          if idx < 0 \<or> idx \<ge> int (length all) then ret (Error ErrIndexOutOfRange)
          else attempt (CheckWrite key [] [v]) (\<lambda>_.
            attempt (call (sp_LReplaceAll ?pk (all[nat idx := v]))) (\<lambda>_. ret (SimpleString ''OK'')))) w)"
        using LReplaceAll_only [OF at(1,2) _ at(3), of "xs[nat (from_end xs i) := v]" "SimpleString ''OK''"] at fits
        by (auto simp: attempt_def LRangeAll_at Let_def CheckWrite_run list_run_def live_list_result ret_def)
    qed (simp_all add: ret_def)
  }
  {
    assume ij: "i64 i" "i64 j"
    note range = trimmed_index_range(1) [OF ij len]
    have "length (index_range xs i j) \<le> length xs"
      by (simp add: index_range_slice Let_def)
    then have wrap: "wrap64 (int (length (index_range xs i j)) - int (length xs)) =
        int (length (index_range xs i j)) - int (length xs)"
      using len by (intro wrap64_id) (simp add: i64_def)
    have "handleLTrim ?E db [c, key, fmt_int i, fmt_int j] = withKey ?E ?pk TypeList (ret (SimpleString ''OK'')) (\<lambda>m.
        attempt (call (sp_LRangeAll ?pk)) (\<lambda>all.
          attempt (call (sp_LReplaceAll ?pk (trimmed all i j))) (\<lambda>_.
          attempt (adjustCount ?E ?pk TypeList (wrap64 (int (length (trimmed all i j)) - m_count m))) (\<lambda>_.
          ret (SimpleString ''OK'')))))"
      by (simp add: handleLTrim_def Let_def ParseInt_fmt [OF ij(1)] ParseInt_fmt [OF ij(2)])
    then show "list_run (backend w) ?pk (list_spec (LTrim i j) xs) (handleLTrim ?E db [c, key, fmt_int i, fmt_int j] w)"
    proof (simp only:, intro withKey_list [OF holds])
      fix m assume at: "list_at (backend w) ?pk m xs" "m_count m = int (length xs)" "xs \<noteq> []"
      show "list_run (backend w) ?pk (list_spec (LTrim i j) xs)
        (attempt (call (sp_LRangeAll ?pk)) (\<lambda>all.
          attempt (call (sp_LReplaceAll ?pk (trimmed all i j))) (\<lambda>_.
          attempt (adjustCount ?E ?pk TypeList (wrap64 (int (length (trimmed all i j)) - m_count m))) (\<lambda>_.
          ret (SimpleString ''OK'')))) w)"
        using rewrite_mem [OF at refl, where ys = "index_range xs i j" and r = "SimpleString ''OK''" and q = q and cfg = cfg]
        by (simp add: attempt_def [of "call (sp_LRangeAll ?pk)"] LRangeAll_at [OF at(1)] at(2) range wrap)
    qed (simp_all add: ret_def index_range_def)
  }
  {
    assume n: "i64 i"
    note spec = lremCompute_spec [OF n len]
    have "handleLRem ?E db [c, key, fmt_int i, v] = withKey ?E ?pk TypeList (ret (IntReply 0)) (\<lambda>m.
        attempt (call (sp_LRangeAll ?pk)) (\<lambda>all. case lremCompute all i v of (ys, r) \<Rightarrow>
          if r = 0 then ret (IntReply 0)
          else attempt (call (sp_LReplaceAll ?pk ys)) (\<lambda>_.
            attempt (adjustCount ?E ?pk TypeList (- r)) (\<lambda>_. ret (IntReply r)))))"
      by (simp add: handleLRem_def Let_def ParseInt_fmt [OF n] cong: if_cong)
    then show "list_run (backend w) ?pk (list_spec (LRem i v) xs) (handleLRem ?E db [c, key, fmt_int i, v] w)"
    proof (simp only:, intro withKey_list [OF holds])
      fix m assume at: "list_at (backend w) ?pk m xs" "m_count m = int (length xs)" "xs \<noteq> []"
      show "list_run (backend w) ?pk (list_spec (LRem i v) xs)
        (attempt (call (sp_LRangeAll ?pk)) (\<lambda>all. case lremCompute all i v of (ys, r) \<Rightarrow>
          if r = 0 then ret (IntReply 0)
          else attempt (call (sp_LReplaceAll ?pk ys)) (\<lambda>_.
            attempt (adjustCount ?E ?pk TypeList (- r)) (\<lambda>_. ret (IntReply r)))) w)"
      proof (cases "length (lrem_spec i v xs) = length xs")
        case True
        then show ?thesis
          using at lrem_spec_same [OF True]
          by (simp add: attempt_def LRangeAll_at [OF at(1)] spec list_run_def live_list_result ret_def)
      next
        case False
        then show ?thesis
          using rewrite_mem [OF at refl, where ys = "lrem_spec i v xs" and q = q and cfg = cfg
            and r = "IntReply (int (length xs) - int (length (lrem_spec i v xs)))"]
          by (simp add: attempt_def [of "call (sp_LRangeAll ?pk)"] LRangeAll_at [OF at(1)] spec Let_def)
      qed
    qed (auto simp: ret_def lrem_spec_def Let_def)
  }
  assume fits: "write_fits key [] [v]"
  define place where "place = (if b then ''BEFORE'' else ''AFTER'')"
  have upper: "\<forall>ch \<in> set ''BEFORTA''. upper_byte ch = ch" by code_simp
  let ?at = "\<lambda>i. if b then i else i + 1"
  have "handleLInsert ?E db [c, key, place, p, v] = withKey ?E ?pk TypeList (ret (IntReply 0)) (\<lambda>m.
      attempt (call (sp_LRangeAll ?pk)) (\<lambda>all. case first_index p all of
          None \<Rightarrow> ret (IntReply (-1))
        | Some i \<Rightarrow>
            attempt (CheckWrite key [] [v]) (\<lambda>_.
            attempt (call (sp_LReplaceAll ?pk (take (?at i) all @ [v] @ drop (?at i) all))) (\<lambda>_.
            attempt (adjustCount ?E ?pk TypeList 1) (\<lambda>_.
              ret (IntReply (int (length (take (?at i) all @ [v] @ drop (?at i) all)))))))))"
    by (cases b) (simp_all add: handleLInsert_def Let_def place_def upper cong: if_cong option.case_cong)
  then show "list_run (backend w) ?pk (list_spec (LInsert b p v) xs)
      (handleLInsert ?E db [c, key, if b then ''BEFORE'' else ''AFTER'', p, v] w)"
    unfolding place_def [symmetric]
  proof (simp only:, intro withKey_list [OF holds])
    fix m assume at: "list_at (backend w) ?pk m xs" "m_count m = int (length xs)" "xs \<noteq> []"
    define n where "n = length (takeWhile (\<lambda>x. x \<noteq> p) xs)"
    define ys where "ys = take (?at n) xs @ [v] @ drop (?at n) xs"
    have ys: "p \<in> set xs \<Longrightarrow> ys = takeWhile (\<lambda>x. x \<noteq> p) xs @ (if b then [v, p] else [p, v]) @ tl (dropWhile (\<lambda>x. x \<noteq> p) xs)"
      using insert_at_pivot [OF _ n_def] by (simp add: ys_def)
    have y: "b \<Longrightarrow> take n xs @ v # drop n xs = ys" "\<not> b \<Longrightarrow> take (Suc n) xs @ v # drop (Suc n) xs = ys"
      by (simp_all add: ys_def)
    have len: "length ys = Suc (length xs)" by (simp add: ys_def min_def)
    have rw: "list_run (backend w) ?pk (IntReply (int (length xs) + 1), ys)
        (attempt (call (sp_LReplaceAll ?pk ys)) (\<lambda>_. attempt (adjustCount ?E ?pk TypeList 1) (\<lambda>_. ret (IntReply (int (length xs) + 1)))) w)"
      by (rule rewrite_mem [OF at]) (simp add: len)
    show "list_run (backend w) ?pk (list_spec (LInsert b p v) xs)
      (attempt (call (sp_LRangeAll ?pk)) (\<lambda>all. case first_index p all of
          None \<Rightarrow> ret (IntReply (-1))
        | Some i \<Rightarrow>
            attempt (CheckWrite key [] [v]) (\<lambda>_.
            attempt (call (sp_LReplaceAll ?pk (take (?at i) all @ [v] @ drop (?at i) all))) (\<lambda>_.
            attempt (adjustCount ?E ?pk TypeList 1) (\<lambda>_.
              ret (IntReply (int (length (take (?at i) all @ [v] @ drop (?at i) all)))))))) w)"
    proof (cases "p \<in> set xs")
      case False
      then show ?thesis
        using at by (simp add: attempt_def LRangeAll_at [OF at(1)] first_index_takeWhile ret_def list_run_def live_list_result)
    next
      case True
      then show ?thesis
        using rw at(3) len
        by (simp add: attempt_def [of "call (sp_LRangeAll ?pk)"] attempt_def [of "CheckWrite key [] [v]"] CheckWrite_run fits
            LRangeAll_at [OF at(1)] first_index_takeWhile n_def [symmetric] y ys [symmetric]
            add.commute del: length_append length_take length_drop)
    qed
  qed (simp_all add: ret_def)
qed

section \<open>Refinement\<close>

text \<open>
  C8: the List commands refine an ordinary list. If a key holds the list \<open>xs\<close> (absent: the empty list),
  each command replies what the list operation returns, the key then holds the resulting list, with
  its counter equal to the length and the key existing iff it is not empty, and no other key
  changes. A live key of another type gives WRONGTYPE and nothing changes.
\<close>

theorem list_commands_refine:
  assumes "conforming_env E view" and "t = view (backend w)" and "pk = encodePK (e_cfg E) db key"
    and "list_cmd_ok key c" and "MaxCollectionResult (e_cfg E) \<le> 0"
    and "run = list_handler E db key c w" and "t' = view (backend (snd run))"
    and "list_holds t pk xs" and "int (length xs) \<le> max_i64"
  shows "fst run = fst (list_spec c xs) \<and> list_holds t' pk (snd (list_spec c xs)) \<and> same_except {pk} t t'"
proof -
  let ?E = "mem_env (e_enq E) (e_cfg E)" and ?W = "wview view w"
  have W: "backend ?W = t" using assms(2) by simp
  have holds: "list_holds (backend ?W) (encodePK (e_cfg E) db key) xs" using assms(2,3,8) by simp
  note sims = conforming_env.sim_list_commands [OF assms(1), unfolded abs_env_mem_env]
  have sim: "sim view (list_handler E db key c) (list_handler ?E db key c)"
    by (cases c) (simp_all add: sims)
  have "list_run (backend ?W) (encodePK (e_cfg E) db key) (list_spec c xs) (list_handler ?E db key c ?W)"
    using assms(4) push_mem [OF holds] pushX_mem [OF holds] pop_mem [OF holds] reads_mem [OF holds assms(9)]
      rewrites_mem [OF holds assms(9)] assms(5)
    by (cases c) (simp_all add: list_cmd_ok_def del: list_spec.simps)
  then show ?thesis
    using sim_fst [OF sim] sim_backend [OF sim] W assms(3,6,7) by (simp add: list_run_def del: wview_simps)
qed

text \<open>A list key over the in-memory store.\<close>

definition list_tbl :: tbl where
  "list_tbl = set_list ''l'' [''a'', ''b'', ''a''] (set_meta ''l'' (Some \<lparr>m_type = TypeList, m_exp = 0, m_count = 3\<rparr>) demo_tbl)"

lemma list_tbl_holds: "list_holds list_tbl ''l'' [''a'', ''b'', ''a'']" "list_holds list_tbl ''m'' []"
  by (simp_all add: list_holds_def list_tbl_def live_meta_def IsExpired_def demo_tbl_def empty_tbl_def)

theorem list_commands_refine_witness:
  "fst (list_handler (mem_env SyncDeleter cfg0) 0 ''l'' (LRem (-1) ''a'') (mem_world list_tbl)) = IntReply 1 \<and>
   list_holds (backend (snd (list_handler (mem_env SyncDeleter cfg0) 0 ''l'' (LRem (-1) ''a'') (mem_world list_tbl))))
     ''l'' [''a'', ''b'']"
  using list_commands_refine [OF conforming_mem [of SyncDeleter cfg0] refl refl _ _ refl refl,
      where w = "mem_world list_tbl" and key = "''l''" and db = 0 and c = "LRem (-1) ''a''" and xs = "[''a'', ''b'', ''a'']"]
    list_tbl_holds
  by (simp add: encodePK_def list_cmd_ok_def i64_def lrem_spec_def)

section \<open>Moving an element\<close>

lemma list_holds_other: "same_except pks t t' \<Longrightarrow> pk \<notin> pks \<Longrightarrow> list_holds t pk xs \<Longrightarrow> list_holds t' pk xs"
  by (auto simp: same_except_def list_holds_def live_meta_def split: option.splits if_splits)

lemma pop_tail_mem:
  assumes "list_holds (backend w) pk xs" "xs \<noteq> []"
  obtains m w1 w2 where "live_meta (backend w) pk = Some m" "m_type m = TypeList"
    "call (sp_RPop pk) w = (Inr (Some (last xs)), w1)" "w1 = on_tbl (set_list pk (butlast xs)) w"
    "adjustCount (mem_env q cfg) pk TypeList (-1) w1 = (Inr (), w2)" "list_holds (backend w2) pk (butlast xs)"
    "same_except {pk} (backend w) (backend w2)"
proof -
  from assms obtain m where m: "live_meta (backend w) pk = Some m" "list_at (backend w) pk m xs"
      "m_count m = int (length xs)" "m_type m = TypeList"
    by (auto simp: list_holds_def list_at_def live_meta_Some split: option.splits)
  let ?w1 = "on_tbl (set_list pk (butlast xs)) w"
  have at: "list_at (backend ?w1) pk m (butlast xs)" using m(2) by (simp add: list_at_def)
  obtain w2 where w2: "adjustCount (mem_env q cfg) pk TypeList (-1) ?w1 = (Inr (), w2)"
    "list_holds (backend w2) pk (butlast xs)" "same_except {pk} (backend ?w1) (backend w2)"
    using adjustCount_list [OF at, where d = "-1" and q = q and cfg = cfg] m(3) assms(2)
    by (auto simp: of_nat_diff Suc_leI)
  have "same_except {pk} (backend w) (backend ?w1)" by (simp add: same_except_def)
  then have "same_except {pk} (backend w) (backend w2)" using w2(3) by (rule same_except_trans) simp
  moreover have "call (sp_RPop pk) w = (Inr (Some (last xs)), ?w1)"
    using m(2) assms(2) by (simp add: call_mem sp_RPop_def list_at_def on_tbl_def)
  ultimately show thesis using that m w2 by blast
qed

lemma push_head_mem:
  assumes "list_holds (backend w) pk ys"
  obtains w1 w2 w3 where "ensureTypeExpiring (mem_env q cfg) pk TypeList w = (Inr (), w1)"
    "call (sp_LPush pk [v]) w1 = (Inr 1, w2)" "adjustCount (mem_env q cfg) pk TypeList 1 w2 = (Inr (), w3)"
    "list_holds (backend w3) pk (v # ys)" "same_except {pk} (backend w) (backend w3)"
proof -
  from ensure_list [OF assms, of q cfg] obtain w1 m
    where w1: "ensureTypeExpiring (mem_env q cfg) pk TypeList w = (Inr (), w1)"
    "list_at (backend w1) pk m ys" "m_count m = int (length ys)" "same_except {pk} (backend w) (backend w1)" .
  let ?w2 = "on_tbl (set_list pk (v # ys)) w1"
  have at: "list_at (backend ?w2) pk m (v # ys)" using w1(2) by (simp add: list_at_def)
  obtain w3 where w3: "adjustCount (mem_env q cfg) pk TypeList 1 ?w2 = (Inr (), w3)"
    "list_holds (backend w3) pk (v # ys)" "same_except {pk} (backend ?w2) (backend w3)"
    using adjustCount_list [OF at, where d = 1 and q = q and cfg = cfg] w1(3) by auto
  have "same_except {pk} (backend w) (backend ?w2)" using w1(4) by (simp add: same_except_def)
  then have "same_except {pk} (backend w) (backend w3)" using w3(3) by (rule same_except_trans) simp
  moreover have "call (sp_LPush pk [v]) w1 = (Inr 1, ?w2)"
    using w1(2) by (simp add: call_mem sp_LPush_def list_at_def on_tbl_def)
  ultimately show thesis using that w1 w3 by blast
qed

text \<open>
  C32: RPOPLPUSH moves the last element of the source to the head of the destination and replies it; both
  counters follow, an emptied source disappears, an absent destination is created. With source and
  destination the same key it rotates the list. An absent source gives nil, and nothing changes.
\<close>

theorem rpoplpush_moves:
  assumes "conforming_env E view" and "t = view (backend w)"
    and "spk = encodePK (e_cfg E) db src" and "dpk = encodePK (e_cfg E) db dst"
    and "run = handleRPopLPush E db [cmd, src, dst] w" and "t' = view (backend (snd run))"
    and "list_holds t spk xs" and "list_holds t dpk ys"
  shows "if xs = [] then fst run = NullBulk \<and> t' = t
    else fst run = BulkString (last xs) \<and> same_except {spk, dpk} t t' \<and>
      (if spk = dpk then list_holds t' spk (last xs # butlast xs)
       else list_holds t' spk (butlast xs) \<and> list_holds t' dpk (last xs # ys))"
proof -
  let ?E = "mem_env (e_enq E) (e_cfg E)" and ?W = "wview view w"
  let ?run = "handleRPopLPush ?E db [cmd, src, dst] ?W"
  note sim = conforming_env.sim_list_commands(14) [OF assms(1), of db "[cmd, src, dst]", unfolded abs_env_mem_env]
  have run: "fst run = fst ?run" "t' = backend (snd ?run)"
    using sim_fst [OF sim] sim_backend [OF sim] assms(5,6) by simp_all
  have W: "backend ?W = t" using assms(2) by simp
  show ?thesis
  proof (cases "xs = []")
    case True
    then have "live_meta t spk = None" using assms(7) by (auto simp: list_holds_def split: option.splits)
    with True W show ?thesis
      unfolding run by (simp add: handleRPopLPush_def withKey_mem assms(3) [symmetric] ret_def Let_def del: wview_simps)
  next
    case xs: False
    from pop_tail_mem [of ?W spk xs "e_enq E" "e_cfg E", unfolded W, OF assms(7) xs] obtain m w1 w2
      where pop: "live_meta t spk = Some m" "m_type m = TypeList" "call (sp_RPop spk) ?W = (Inr (Some (last xs)), w1)"
        "w1 = on_tbl (set_list spk (butlast xs)) ?W" "adjustCount ?E spk TypeList (-1) w1 = (Inr (), w2)"
        "list_holds (backend w2) spk (butlast xs)" "same_except {spk} t (backend w2)" .
    show ?thesis
    proof (cases "spk = dpk")
      case True
      have "fst ?run = BulkString (last xs) \<and> backend (snd ?run) = set_list spk (last xs # butlast xs) (set_list spk (butlast xs) t)"
        using True pop W
        by (simp add: handleRPopLPush_def withKey_mem assms(3,4) [symmetric] ret_def Let_def attempt_def
            call_mem sp_LPush_def del: wview_simps)
      then show ?thesis
        using xs True run assms(7) pop(1,2)
        by (auto simp: list_holds_def live_meta_def same_except_def split: if_splits option.splits)
    next
      case False
      have "\<not> wrong_type t dpk TypeList"
        using assms(8) by (auto simp: list_holds_def wrong_type_def split: option.splits)
      then have dst: "fst (loadMetaState ?E dpk TypeList ?W) \<noteq> Inr KeyWrong"
          "\<exists>k. loadMetaState ?E dpk TypeList ?W = (Inr k, ?W) \<and> k \<noteq> KeyWrong"
        using W by (auto simp: loadMetaState_mem wrong_type_def split: option.splits)
      have ys: "list_holds (backend w2) dpk ys"
        using list_holds_other [OF pop(7) _ assms(8)] False by simp
      from push_head_mem [OF ys, of "e_enq E" "e_cfg E" "last xs"] obtain w3 w4 w5
        where push: "ensureTypeExpiring ?E dpk TypeList w2 = (Inr (), w3)"
          "call (sp_LPush dpk [last xs]) w3 = (Inr 1, w4)" "adjustCount ?E dpk TypeList 1 w4 = (Inr (), w5)"
          "list_holds (backend w5) dpk (last xs # ys)" "same_except {dpk} (backend w2) (backend w5)" .
      have "?run = (BulkString (last xs), w5)"
        using False pop W push dst(2)
        by (auto simp: handleRPopLPush_def withKey_mem assms(3,4) [symmetric] ret_def Let_def attempt_def
            simp del: wview_simps)
      then show ?thesis
        using xs False run push(4) list_holds_other [OF push(5) _ pop(6)] same_except_trans [OF pop(7) push(5), of "{spk, dpk}"]
        by simp
    qed
  qed
qed

theorem rpoplpush_moves_witness:
  "fst (handleRPopLPush (mem_env SyncDeleter cfg0) 0 [''RPOPLPUSH'', ''l'', ''m''] (mem_world list_tbl)) = BulkString ''a''"
  using rpoplpush_moves [OF conforming_mem [of SyncDeleter cfg0] refl refl refl refl refl,
      where w = "mem_world list_tbl" and src = "''l''" and dst = "''m''" and db = 0 and cmd = "''RPOPLPUSH''"
        and xs = "[''a'', ''b'', ''a'']" and ys = "[]"] list_tbl_holds
  by (simp add: encodePK_def)

section \<open>An oversized push\<close>

text \<open>
  LPUSH and RPUSH create the key before they check the sizes: an oversized element on an absent key
  is refused, but leaves a live list key with no element.
\<close>

lemma oversized_push_leaves_key:
  assumes "\<not> write_fits ''m'' [] [big]"
  shows "fst (handleLPush (mem_env SyncDeleter cfg0) 0 [''LPUSH'', ''m'', big] (mem_world list_tbl)) = Error ErrValueExceedsBackendLimit"
    and "t_meta (backend (snd (handleLPush (mem_env SyncDeleter cfg0) 0 [''LPUSH'', ''m'', big] (mem_world list_tbl)))) ''m'' =
      Some (fresh_meta TypeList)"
  using assms
  by (simp_all add: handleLPush_def encodePK_def Let_def attempt_def ensureTypeExpiring_mem list_tbl_def demo_tbl_def
      empty_tbl_def CheckWrite_run writeStoreError_def)

end
