(* ===== verification/Hashes.thy ===== *)
theory Hashes
  imports Collections
begin

text \<open>
  The Hash commands (\<^verbatim>\<open>internal/command/hashes.go\<close>): writes check sizes, take the key over when it has
  expired, write the fields and adjust the counter by the number of new ones; reads skip field
  names too long to be stored. HSCAN is in theory \<open>Scans\<close>.
\<close>

section \<open>Writes\<close>

definition maxStorableMemberLen :: nat where "maxStorableMemberLen = MaxMemberNameSize"

definition memberStorable :: "bytes \<Rightarrow> bool" where
  "memberStorable m \<longleftrightarrow> length m \<le> maxStorableMemberLen"

lemma memberStorable_fits: "write_fits key fs vs \<Longrightarrow> list_all memberStorable fs"
  by (auto simp: write_fits_def memberNameTooLarge_def memberStorable_def maxStorableMemberLen_def list_all_iff)

text \<open>The common head of the writes: an error reply, or go on.\<close>

definition ensureHashWritable ::
    "'s env \<Rightarrow> bytes \<Rightarrow> bytes \<Rightarrow> bytes list \<Rightarrow> bytes list \<Rightarrow> 's handler \<Rightarrow> 's handler" where
  "ensureHashWritable E pk key fnames vals k =
     attempt (CheckWrite key fnames vals) (\<lambda>_.
     attempt (ensureTypeExpiring E pk TypeHash) (\<lambda>_. k))"

fun splitHashPairs :: "bytes list \<Rightarrow> bytes list \<times> bytes list \<times> (bytes \<times> bytes) list" where
  "splitHashPairs (f # v # rest) =
     (let (fnames, vals, hfields) = splitHashPairs rest in (f # fnames, v # vals, (f, v) # hfields))"
| "splitHashPairs _ = ([], [], [])"

definition handleHSet :: "'s env \<Rightarrow> int \<Rightarrow> bytes list \<Rightarrow> 's handler" where
  "handleHSet E db args =
     (let key = args ! 1; rest = drop 2 args; pk = encodePK (e_cfg E) db key in
      if odd (length rest) then ret (Error (ErrWrongNumberOfArgs ''hset''))
      else
        (let (fnames, vals, hfields) = splitHashPairs rest in
         ensureHashWritable E pk key fnames vals
           (attempt (call (st_HSet (e_store E) pk hfields)) (\<lambda>added.
            attempt (adjustCount E pk TypeHash added) (\<lambda>_. ret (IntReply added))))))"

definition handleHMSet :: "'s env \<Rightarrow> int \<Rightarrow> bytes list \<Rightarrow> 's handler" where
  "handleHMSet E db args =
     (let key = args ! 1; rest = drop 2 args; pk = encodePK (e_cfg E) db key in
      if odd (length rest) then ret (Error ''ERR wrong number of arguments for HMSET'')
      else
        (let (fnames, vals, hfields) = splitHashPairs rest in
         ensureHashWritable E pk key fnames vals
           (attempt (call (st_HSet (e_store E) pk hfields)) (\<lambda>added.
            attempt (adjustCount E pk TypeHash added) (\<lambda>_. ret (SimpleString ''OK''))))))"

definition handleHSetNX :: "'s env \<Rightarrow> int \<Rightarrow> bytes list \<Rightarrow> 's handler" where
  "handleHSetNX E db args =
     (let key = args ! 1; field = args ! 2; val = args ! 3; pk = encodePK (e_cfg E) db key in
      ensureHashWritable E pk key [field] [val]
        (attempt (call (st_HSetNX (e_store E) pk field val)) (\<lambda>isSet.
           if isSet then attempt (adjustCount E pk TypeHash 1) (\<lambda>_. ret (IntReply 1))
           else ret (IntReply 0))))"

definition handleHDel :: "'s env \<Rightarrow> int \<Rightarrow> bytes list \<Rightarrow> 's handler" where
  "handleHDel E db args =
     (let pk = encodePK (e_cfg E) db (args ! 1); names = filter memberStorable (drop 2 args) in
      withKey E pk TypeHash (ret (IntReply 0)) (\<lambda>_.
        attempt (call (st_HDel (e_store E) pk names)) (\<lambda>removed.
        attempt (adjustCount E pk TypeHash (- removed)) (\<lambda>_. ret (IntReply removed)))))"

definition handleHIncrBy :: "'s env \<Rightarrow> int \<Rightarrow> bytes list \<Rightarrow> 's handler" where
  "handleHIncrBy E db args =
     (let key = args ! 1; field = args ! 2; pk = encodePK (e_cfg E) db key in
      case ParseInt (args ! 3) of
        Inl _ \<Rightarrow> ret (Error ErrNotInteger)
      | Inr delta \<Rightarrow>
          ensureHashWritable E pk key [field] []
            (attempt (call (st_HIncrBy (e_store E) pk field delta)) (\<lambda>(nxt, isNew).
               if isNew then attempt (adjustCount E pk TypeHash 1) (\<lambda>_. ret (IntReply nxt))
               else ret (IntReply nxt))))"

definition handleHIncrByFloat :: "'s env \<Rightarrow> int \<Rightarrow> bytes list \<Rightarrow> 's handler" where
  "handleHIncrByFloat E db args =
     (let key = args ! 1; field = args ! 2; pk = encodePK (e_cfg E) db key in
      case parseFloatArg (args ! 3) of
        None \<Rightarrow> ret (Error ErrNotValidFloat)
      | Some delta \<Rightarrow>
          ensureHashWritable E pk key [field] []
            (attempt (call (st_HIncrByFloat (e_store E) pk field delta)) (\<lambda>(val, isNew).
               if isNew then attempt (adjustCount E pk TypeHash 1) (\<lambda>_. ret (BulkString val))
               else ret (BulkString val))))"

section \<open>Reads\<close>

definition handleHGet :: "'s env \<Rightarrow> int \<Rightarrow> bytes list \<Rightarrow> 's handler" where
  "handleHGet E db args =
     (let pk = encodePK (e_cfg E) db (args ! 1); field = args ! 2 in
      withKey E pk TypeHash (ret NullBulk) (\<lambda>_.
        if \<not> memberStorable field then ret NullBulk
        else attempt (call (st_HGet (e_store E) pk field)) (\<lambda>v.
          case v of None \<Rightarrow> ret NullBulk | Some b \<Rightarrow> ret (BulkString b))))"

text \<open>One bulk string per present element, a null for the others.\<close>

definition optReply :: "bytes option list \<Rightarrow> reply" where
  "optReply vs = OptBulkArray (map (\<lambda>v. case v of None \<Rightarrow> [] | Some b \<Rightarrow> b) vs) (map (\<lambda>v. v \<noteq> None) vs)"

definition handleHMGet :: "'s env \<Rightarrow> int \<Rightarrow> bytes list \<Rightarrow> 's handler" where
  "handleHMGet E db args =
     (let pk = encodePK (e_cfg E) db (args ! 1); names = drop 2 args in
      withKey E pk TypeHash (ret (optReply (map (\<lambda>_. None) names))) (\<lambda>_.
        attempt (call (st_HMGet (e_store E) pk (filter memberStorable names))) (\<lambda>vals.
        ret (optReply (map vals names)))))"

text \<open>The head of the whole-collection reads: empty when absent, an error above the result cap.\<close>

definition withAll :: "'s env \<Rightarrow> bytes \<Rightarrow> keytype \<Rightarrow> 's handler \<Rightarrow> 's handler" where
  "withAll E pk ty k =
     withKey E pk ty (ret EmptyArray) (\<lambda>m.
       if resultCapExceeded (e_cfg E) (m_count m) then ret (Error ErrCollectionTooLarge) else k)"

definition handleHGetAll :: "'s env \<Rightarrow> int \<Rightarrow> bytes list \<Rightarrow> 's handler" where
  "handleHGetAll E db args =
     (let pk = encodePK (e_cfg E) db (args ! 1) in
      withAll E pk TypeHash
        (attempt (call (st_HGetAll (e_store E) pk)) (\<lambda>fs.
         ret (BulkArray (Some (concat (map (\<lambda>(f, v). [f, v]) fs)))))))"

definition handleHKeys :: "'s env \<Rightarrow> int \<Rightarrow> bytes list \<Rightarrow> 's handler" where
  "handleHKeys E db args =
     (let pk = encodePK (e_cfg E) db (args ! 1) in
      withAll E pk TypeHash
        (attempt (call (st_HKeys (e_store E) pk)) (\<lambda>ks. ret (BulkArray (Some ks)))))"

definition handleHVals :: "'s env \<Rightarrow> int \<Rightarrow> bytes list \<Rightarrow> 's handler" where
  "handleHVals E db args =
     (let pk = encodePK (e_cfg E) db (args ! 1) in
      withAll E pk TypeHash
        (attempt (call (st_HVals (e_store E) pk)) (\<lambda>vs. ret (BulkArray (Some vs)))))"

definition handleHExists :: "'s env \<Rightarrow> int \<Rightarrow> bytes list \<Rightarrow> 's handler" where
  "handleHExists E db args =
     (let pk = encodePK (e_cfg E) db (args ! 1); field = args ! 2 in
      withKey E pk TypeHash (ret (IntReply 0)) (\<lambda>_.
        if \<not> memberStorable field then ret (IntReply 0)
        else attempt (call (st_HExists (e_store E) pk field)) (\<lambda>ex. ret (IntReply (if ex then 1 else 0)))))"

definition handleHLen :: "'s env \<Rightarrow> int \<Rightarrow> bytes list \<Rightarrow> 's handler" where
  "handleHLen E db args =
     withKey E (encodePK (e_cfg E) db (args ! 1)) TypeHash (ret (IntReply 0)) (\<lambda>m. ret (IntReply (m_count m)))"

definition handleHStrlen :: "'s env \<Rightarrow> int \<Rightarrow> bytes list \<Rightarrow> 's handler" where
  "handleHStrlen E db args =
     (let pk = encodePK (e_cfg E) db (args ! 1); field = args ! 2 in
      withKey E pk TypeHash (ret (IntReply 0)) (\<lambda>_.
        if \<not> memberStorable field then ret (IntReply 0)
        else attempt (call (st_HStrlen (e_store E) pk field)) (\<lambda>n. ret (IntReply n))))"

text \<open>The abstract environment with the check of the seam on HINCRBYFLOAT.\<close>

definition checked_env :: "'s env \<Rightarrow> tbl env" where
  "checked_env E = (abs_env E)\<lparr>e_store := checked_store\<rparr>"

lemma withNow_checked: "withNow (checked_env E) = withNow (abs_env E)"
  by (intro ext) (simp add: withNow_def checked_env_def)

lemma checked_env_helpers:
  "e_cfg (checked_env E) = e_cfg E" "st_HIncrByFloat (e_store (checked_env E)) = sp_HIncrByFloat_checked"
  "ensureHashWritable (checked_env E) = ensureHashWritable (abs_env E)"
  "adjustCount (checked_env E) = adjustCount (abs_env E)"
proof -
  have st: "st_EnsureType (e_store (checked_env E)) = sp_EnsureType"
    "st_EnsureTypeExpiring (e_store (checked_env E)) = sp_EnsureTypeExpiring"
    "st_DeleteMetaIfEmpty (e_store (checked_env E)) = sp_DeleteMetaIfEmpty"
    "st_DeleteMembers (e_store (checked_env E)) = sp_DeleteMembers" "e_now (checked_env E) = t_time"
    by (simp_all add: checked_env_def checked_store_def)
  then have meta: "Meta_EnsureType (checked_env E) = Meta_EnsureType (abs_env E)"
    "Meta_EnsureTypeExpiring (checked_env E) = Meta_EnsureTypeExpiring (abs_env E)"
    "Meta_DeleteMetaIfEmpty (checked_env E) = Meta_DeleteMetaIfEmpty (abs_env E)"
    by (intro ext; simp add: Meta_EnsureTypeExpiring_def Meta_EnsureType_def Meta_DeleteMetaIfEmpty_def)+
  from st meta withNow_checked show "adjustCount (checked_env E) = adjustCount (abs_env E)"
    "ensureHashWritable (checked_env E) = ensureHashWritable (abs_env E)"
    by (intro ext; simp add: ensureHashWritable_def ensureTypeExpiring_def adjustCount_def withNow_checked cong: if_cong)+
qed (simp_all add: checked_env_def checked_store_def)

section \<open>The handlers refine their runs over the abstract table\<close>

context conforming_env begin

lemma sim_ensureHashWritable [sim_intros]:
  "sim view k k' \<Longrightarrow> sim view (ensureHashWritable E pk key fs vs k) (ensureHashWritable E' pk key fs vs k')"
  unfolding ensureHashWritable_def by (intro sim_intros)

lemma sim_withAll [sim_intros]: "sim view k k' \<Longrightarrow> sim view (withAll E pk ty k) (withAll E' pk ty k')"
  unfolding withAll_def abs_env_simps by (intro sim_intros)

lemma sim_hash_commands [sim_intros]:
  "sim view (handleHSet E db args) (handleHSet E' db args)"
  "sim view (handleHMSet E db args) (handleHMSet E' db args)"
  "sim view (handleHSetNX E db args) (handleHSetNX E' db args)"
  "sim view (handleHGet E db args) (handleHGet E' db args)"
  "sim view (handleHMGet E db args) (handleHMGet E' db args)"
  "sim view (handleHGetAll E db args) (handleHGetAll E' db args)"
  "sim view (handleHDel E db args) (handleHDel E' db args)"
  "sim view (handleHExists E db args) (handleHExists E' db args)"
  "sim view (handleHKeys E db args) (handleHKeys E' db args)"
  "sim view (handleHVals E db args) (handleHVals E' db args)"
  "sim view (handleHLen E db args) (handleHLen E' db args)"
  "sim view (handleHIncrBy E db args) (handleHIncrBy E' db args)"
  "sim view (handleHStrlen E db args) (handleHStrlen E' db args)"
  unfolding handleHSet_def handleHMSet_def handleHSetNX_def handleHGet_def handleHMGet_def handleHGetAll_def
    handleHDel_def handleHExists_def handleHKeys_def handleHVals_def handleHLen_def handleHIncrBy_def
    handleHStrlen_def Let_def abs_env_simps mem_store_simps
  by (intro sim_intros)+

text \<open>The contract leaves two answers to a HINCRBYFLOAT whose result is not finite.\<close>

lemma sim_HIncrByFloat:
  "sim view (handleHIncrByFloat E db args) (handleHIncrByFloat E' db args) \<or>
   sim view (handleHIncrByFloat E db args) (handleHIncrByFloat (checked_env E) db args)"
proof (cases "parseFloatArg (args ! 3)")
  case (Some delta)
  let ?pk = "encodePK (e_cfg E) db (args ! 1)" and ?f = "args ! 2"
  have sim: "sim view (handleHIncrByFloat E db args)
      (ensureHashWritable E' ?pk (args ! 1) [?f] [] (attempt (call g) (\<lambda>(val, isNew).
         if isNew then attempt (adjustCount E' ?pk TypeHash 1) (\<lambda>_. ret (BulkString val)) else ret (BulkString val))))"
    if "implements view (st_HIncrByFloat (e_store E) ?pk ?f delta) g" for g
    using Some unfolding handleHIncrByFloat_def Let_def
    by (simp del: One_nat_def) (intro sim_intros that [THEN sim_call])
  from HIncrByFloat [of ?pk ?f delta] sim [of "sp_HIncrByFloat ?pk ?f delta"] sim [of "sp_HIncrByFloat_checked ?pk ?f delta"]
  show ?thesis
    using Some by (auto simp: handleHIncrByFloat_def Let_def checked_env_helpers cong: if_cong)
qed (simp add: handleHIncrByFloat_def Let_def sim_ret)

end

end
