(* ===== verification/HashSpec.thy ===== *)
theory HashSpec
  imports Hashes
begin

text \<open>
  Refinement of the Hash commands: over every store that keeps the contract, each of them is one
  operation of a finite map (\<open>hash_spec\<close>), whatever order the backend lists the fields in; a key
  exists iff its map is not empty, and the counter of the meta item always is the number of fields.
\<close>

section \<open>The abstract map\<close>

datatype hash_cmd =
    HSet "(bytes \<times> bytes) list" | HMSet "(bytes \<times> bytes) list" | HSetNX bytes bytes | HGet bytes
  | HMGet "bytes list" | HGetAll | HKeys | HVals | HDel "bytes list" | HExists bytes | HLen | HStrlen bytes
  | HIncrBy bytes int | HIncrByFloat bytes bytes

definition pair_args :: "(bytes \<times> bytes) list \<Rightarrow> bytes list" where
  "pair_args fvs = concat (map (\<lambda>(f, v). [f, v]) fvs)"

fun hash_args :: "bytes \<Rightarrow> hash_cmd \<Rightarrow> bytes list" where
  "hash_args key (HSet fvs) = [''HSET'', key] @ pair_args fvs"
| "hash_args key (HMSet fvs) = [''HMSET'', key] @ pair_args fvs"
| "hash_args key (HSetNX f v) = [''HSETNX'', key, f, v]"
| "hash_args key (HGet f) = [''HGET'', key, f]"
| "hash_args key (HMGet fs) = [''HMGET'', key] @ fs"
| "hash_args key HGetAll = [''HGETALL'', key]"
| "hash_args key HKeys = [''HKEYS'', key]"
| "hash_args key HVals = [''HVALS'', key]"
| "hash_args key (HDel fs) = [''HDEL'', key] @ fs"
| "hash_args key (HExists f) = [''HEXISTS'', key, f]"
| "hash_args key HLen = [''HLEN'', key]"
| "hash_args key (HStrlen f) = [''HSTRLEN'', key, f]"
| "hash_args key (HIncrBy f n) = [''HINCRBY'', key, f, fmt_int n]"
| "hash_args key (HIncrByFloat f x) = [''HINCRBYFLOAT'', key, f, x]"

fun hash_handler :: "'s env \<Rightarrow> int \<Rightarrow> bytes \<Rightarrow> hash_cmd \<Rightarrow> 's handler" where
  "hash_handler E db key (HSet fvs) = handleHSet E db (hash_args key (HSet fvs))"
| "hash_handler E db key (HMSet fvs) = handleHMSet E db (hash_args key (HMSet fvs))"
| "hash_handler E db key (HSetNX f v) = handleHSetNX E db (hash_args key (HSetNX f v))"
| "hash_handler E db key (HGet f) = handleHGet E db (hash_args key (HGet f))"
| "hash_handler E db key (HMGet fs) = handleHMGet E db (hash_args key (HMGet fs))"
| "hash_handler E db key HGetAll = handleHGetAll E db (hash_args key HGetAll)"
| "hash_handler E db key HKeys = handleHKeys E db (hash_args key HKeys)"
| "hash_handler E db key HVals = handleHVals E db (hash_args key HVals)"
| "hash_handler E db key (HDel fs) = handleHDel E db (hash_args key (HDel fs))"
| "hash_handler E db key (HExists f) = handleHExists E db (hash_args key (HExists f))"
| "hash_handler E db key HLen = handleHLen E db (hash_args key HLen)"
| "hash_handler E db key (HStrlen f) = handleHStrlen E db (hash_args key (HStrlen f))"
| "hash_handler E db key (HIncrBy f n) = handleHIncrBy E db (hash_args key (HIncrBy f n))"
| "hash_handler E db key (HIncrByFloat f x) = handleHIncrByFloat E db (hash_args key (HIncrByFloat f x))"

text \<open>A listing of a map, in any order.\<close>

definition lists :: "(bytes \<times> bytes) list \<Rightarrow> (bytes \<rightharpoonup> bytes) \<Rightarrow> bool" where
  "lists h m \<longleftrightarrow> distinct (map fst h) \<and> map_of h = m"

definition opt_bulk :: "bytes option \<Rightarrow> reply" where
  "opt_bulk v = (case v of None \<Rightarrow> NullBulk | Some b \<Rightarrow> BulkString b)"

text \<open>The float a field holds: zero if there is no field.\<close>

definition stored_float :: "bytes option \<Rightarrow> f64 option" where
  "stored_float v = (case v of None \<Rightarrow> Some (FZero False) | Some b \<Rightarrow> parseFloatArg b)"

text \<open>
  What each command may reply, and leaves, of a map; an absent key is the empty map. A counter
  field must hold a canonical 64-bit integer, and the sum must fit; a field incremented by a float must
  hold a float.
\<close>

fun hash_spec :: "hash_cmd \<Rightarrow> (bytes \<rightharpoonup> bytes) \<Rightarrow> reply \<Rightarrow> (bytes \<rightharpoonup> bytes) \<Rightarrow> bool" where
  "hash_spec (HSet fvs) m r m' \<longleftrightarrow> m' = m ++ map_of (rev fvs) \<and> r = IntReply (int (card (fst ` set fvs - dom m)))"
| "hash_spec (HMSet fvs) m r m' \<longleftrightarrow> m' = m ++ map_of (rev fvs) \<and> r = SimpleString ''OK''"
| "hash_spec (HSetNX f v) m r m' \<longleftrightarrow>
     (if m f = None then r = IntReply 1 \<and> m' = m(f \<mapsto> v) else r = IntReply 0 \<and> m' = m)"
| "hash_spec (HGet f) m r m' \<longleftrightarrow> r = opt_bulk (m f) \<and> m' = m"
| "hash_spec (HMGet fs) m r m' \<longleftrightarrow> r = optReply (map m fs) \<and> m' = m"
| "hash_spec HGetAll m r m' \<longleftrightarrow> m' = m \<and>
     (if m = Map.empty then r = EmptyArray else \<exists>h. lists h m \<and> r = BulkArray (Some (pair_args h)))"
| "hash_spec HKeys m r m' \<longleftrightarrow> m' = m \<and>
     (if m = Map.empty then r = EmptyArray else \<exists>h. lists h m \<and> r = BulkArray (Some (map fst h)))"
| "hash_spec HVals m r m' \<longleftrightarrow> m' = m \<and>
     (if m = Map.empty then r = EmptyArray else \<exists>h. lists h m \<and> r = BulkArray (Some (map snd h)))"
| "hash_spec (HDel fs) m r m' \<longleftrightarrow> m' = m |` (- set fs) \<and> r = IntReply (int (card (dom m \<inter> set fs)))"
| "hash_spec (HExists f) m r m' \<longleftrightarrow> m' = m \<and> r = IntReply (if m f = None then 0 else 1)"
| "hash_spec HLen m r m' \<longleftrightarrow> m' = m \<and> r = IntReply (int (card (dom m)))"
| "hash_spec (HStrlen f) m r m' \<longleftrightarrow> m' = m \<and>
     r = IntReply (case m f of None \<Rightarrow> 0 | Some v \<Rightarrow> int (length v))"
| "hash_spec (HIncrBy f n) m r m' \<longleftrightarrow>
     (let old = (case m f of None \<Rightarrow> fmt_int 0 | Some v \<Rightarrow> v) in
      if \<exists>k. i64 k \<and> old = fmt_int k \<and> i64 (k + n)
      then \<exists>k. i64 k \<and> old = fmt_int k \<and> r = IntReply (k + n) \<and> m' = m(f \<mapsto> fmt_int (k + n))
      else m' = m \<and> r = Error (if \<exists>k. i64 k \<and> old = fmt_int k then ErrIncrDecrOverflow else ErrHashNotInteger))"
| "hash_spec (HIncrByFloat f x) m r m' \<longleftrightarrow>
     (case parseFloatArg x of
        None \<Rightarrow> r = Error ErrNotValidFloat \<and> m' = m
      | Some d \<Rightarrow>
          (case stored_float (m f) of
             None \<Rightarrow> r = Error ErrHashNotFloat \<and> m' = m
           | Some cur \<Rightarrow>
               r = BulkString (formatRedisFloat (fadd cur d)) \<and> m' = m(f \<mapsto> formatRedisFloat (fadd cur d))))"

text \<open>
  A float increment whose result is not finite is left out: the comment of the storage seam has it
  refused, those of the store and of the handler have it stored.
\<close>

definition incr_finite :: "hash_cmd \<Rightarrow> (bytes \<rightharpoonup> bytes) \<Rightarrow> bool" where
  "incr_finite c m \<longleftrightarrow>
     (case c of
        HIncrByFloat f x \<Rightarrow>
          (case (parseFloatArg x, stored_float (m f)) of (Some d, Some cur) \<Rightarrow> finite64 (fadd cur d) | _ \<Rightarrow> True)
      | _ \<Rightarrow> True)"

definition hash_cmd_ok :: "bytes \<Rightarrow> hash_cmd \<Rightarrow> bool" where
  "hash_cmd_ok key c \<longleftrightarrow>
     (case c of
        HSet fvs \<Rightarrow> fvs \<noteq> [] \<and> write_fits key (map fst fvs) (map snd fvs)
      | HMSet fvs \<Rightarrow> fvs \<noteq> [] \<and> write_fits key (map fst fvs) (map snd fvs)
      | HSetNX f v \<Rightarrow> write_fits key [f] [v]
      | HIncrBy f n \<Rightarrow> write_fits key [f] [] \<and> i64 n
      | HIncrByFloat f x \<Rightarrow> write_fits key [f] []
      | _ \<Rightarrow> True)"

text \<open>The key holds the map \<open>m\<close>: its counter is the number of fields and it exists iff there is one.\<close>

definition hash_ok :: "(bytes \<times> bytes) list \<Rightarrow> bool" where
  "hash_ok h \<longleftrightarrow> distinct (map fst h) \<and> list_all (\<lambda>(f, _). memberStorable f) h"

definition hash_holds :: "tbl \<Rightarrow> bytes \<Rightarrow> (bytes \<rightharpoonup> bytes) \<Rightarrow> bool" where
  "hash_holds t pk m \<longleftrightarrow> (\<exists>h. coll_holds TypeHash t_hash t pk h \<and> hash_ok h \<and> map_of h = m)"

section \<open>Association lists as maps\<close>

lemma map_of_hset_all: "map_of (hset_all fvs h) = map_of h ++ map_of (rev fvs)"
  unfolding hset_all_def
proof (induction fvs arbitrary: h)
  case (Cons fv fvs)
  obtain f v where fv: "fv = (f, v)" by (cases fv)
  have "map_of (fold (\<lambda>(f, v). AList.update f v) (fv # fvs) h) = (map_of h)(f \<mapsto> v) ++ map_of (rev fvs)"
    by (simp add: fv Cons.IH update_conv' fun_upd_def)
  also have "\<dots> = map_of h ++ map_of (rev (fv # fvs))"
    by (simp add: fv map_add_def fun_eq_iff split: option.split)
  finally show ?case .
qed simp

lemma distinct_hset_all: "distinct (map fst h) \<Longrightarrow> distinct (map fst (hset_all fvs h))"
  unfolding hset_all_def by (induction fvs arbitrary: h) (auto simp: split_beta distinct_update)

lemma keys_hset_all: "fst ` set (hset_all fvs h) = fst ` set h \<union> fst ` set fvs"
proof -
  have "dom (map_of (hset_all fvs h)) = dom (map_of h) \<union> fst ` set fvs"
    by (simp add: map_of_hset_all dom_map_of_conv_image_fst Un_commute)
  then show ?thesis by (simp add: dom_map_of_conv_image_fst)
qed

lemma length_card: "distinct (map fst h) \<Longrightarrow> int (length h) = int (card (dom (map_of h)))"
  by (metis distinct_card dom_map_of_conv_image_fst length_map set_map)

lemma length_hset_all:
  assumes "distinct (map fst h)"
  shows "int (length (hset_all fvs h)) - int (length h) = int (card (fst ` set fvs - dom (map_of h)))"
proof -
  have "int (length (hset_all fvs h)) = int (card (dom (map_of h) \<union> fst ` set fvs))"
    using length_card [OF distinct_hset_all [OF assms], of fvs]
    by (simp add: map_of_hset_all dom_map_of_conv_image_fst Un_commute)
  also have "dom (map_of h) \<union> fst ` set fvs = dom (map_of h) \<union> (fst ` set fvs - dom (map_of h))" by auto
  also have "card \<dots> = card (dom (map_of h)) + card (fst ` set fvs - dom (map_of h))"
    by (rule card_Un_disjoint) (auto simp: finite_dom_map_of)
  finally show ?thesis using length_card [OF assms] by simp
qed

lemma hash_ok_hset_all:
  "hash_ok h \<Longrightarrow> list_all (\<lambda>(f, _). memberStorable f) fvs \<Longrightarrow> hash_ok (hset_all fvs h)"
proof -
  assume h: "hash_ok h" and fvs: "list_all (\<lambda>(f, _). memberStorable f) fvs"
  have eq: "list_all (\<lambda>(f, _). memberStorable f) g \<longleftrightarrow> (\<forall>f \<in> fst ` set g. memberStorable f)" for g :: "(bytes \<times> bytes) list"
    by (auto simp: list_all_iff)
  show ?thesis
    using h fvs unfolding hash_ok_def eq keys_hset_all by (auto intro: distinct_hset_all)
qed

lemma map_of_hdel_all: "map_of (hdel_all fs h) = map_of h |` (- set fs)"
  unfolding hdel_all_def by (induction h) (auto simp: fun_eq_iff restrict_map_def)

lemma hash_ok_filter: "hash_ok h \<Longrightarrow> hash_ok (filter P h)"
  by (auto simp: hash_ok_def list_all_iff distinct_map_filter)

lemma length_hdel_all:
  assumes "distinct (map fst h)"
  shows "int (length h) - int (length (hdel_all fs h)) = int (card (dom (map_of h) \<inter> set fs))"
proof -
  have "distinct (map fst (hdel_all fs h))"
    using assms by (simp add: hdel_all_def distinct_map_filter)
  from length_card [OF this] have "int (length (hdel_all fs h)) = int (card (dom (map_of h) - set fs))"
    by (simp add: map_of_hdel_all dom_restrict Diff_eq)
  moreover have "card (dom (map_of h)) = card (dom (map_of h) \<inter> set fs) + card (dom (map_of h) - set fs)"
    by (metis card_Diff_subset_Int card_mono finite_Int finite_dom_map_of inf_le1 le_add_diff_inverse)
  ultimately show ?thesis using length_card [OF assms] by simp
qed

lemma length_update:
  "int (length (AList.update f v h)) = int (length h) + (if map_of h f = None then 1 else 0)"
  by (induction h) auto

lemma splitHashPairs_pair_args: "splitHashPairs (pair_args fvs) = (map fst fvs, map snd fvs, fvs)"
  by (induction fvs) (auto simp: pair_args_def)

lemma even_pair_args: "even (length (pair_args fvs))"
  by (induction fvs) (auto simp: pair_args_def)

section \<open>Each command, over the abstract table\<close>

abbreviation hash_run :: "tbl \<Rightarrow> bytes \<Rightarrow> hash_cmd \<Rightarrow> (bytes \<times> bytes) list \<Rightarrow> reply \<times> tbl world \<Rightarrow> bool" where
  "hash_run t pk c h run \<equiv> spec_run TypeHash t_hash hash_ok map_of (hash_spec c (map_of h)) t pk run"

lemmas hash_run_def = spec_run_def [where ty = TypeHash and get = t_hash and ok = hash_ok and \<alpha> = map_of]
lemmas withKey_hash = hash_coll.withKey_spec [where ok = hash_ok and \<alpha> = map_of]
lemmas read_hash = hash_coll.read_spec [where ok = hash_ok and \<alpha> = map_of]

lemma hash_runI:
  "coll_run TypeHash t_hash t pk (r, h') run \<Longrightarrow> hash_ok h' \<Longrightarrow> hash_spec c (map_of h) r (map_of h') \<Longrightarrow>
    hash_run t pk c h run"
  by (rule spec_runI)

lemma reads_hash:
  assumes holds: "coll_holds TypeHash t_hash (backend w) (encodePK cfg db key) h" and ok: "hash_ok h"
    and cap: "MaxCollectionResult cfg \<le> 0"
  shows "hash_run (backend w) (encodePK cfg db key) (HGet f) h (handleHGet (mem_env q cfg) db [n, key, f] w)"
    and "hash_run (backend w) (encodePK cfg db key) (HMGet fs) h (handleHMGet (mem_env q cfg) db ([n, key] @ fs) w)"
    and "hash_run (backend w) (encodePK cfg db key) HGetAll h (handleHGetAll (mem_env q cfg) db [n, key] w)"
    and "hash_run (backend w) (encodePK cfg db key) HKeys h (handleHKeys (mem_env q cfg) db [n, key] w)"
    and "hash_run (backend w) (encodePK cfg db key) HVals h (handleHVals (mem_env q cfg) db [n, key] w)"
    and "hash_run (backend w) (encodePK cfg db key) (HExists f) h (handleHExists (mem_env q cfg) db [n, key, f] w)"
    and "hash_run (backend w) (encodePK cfg db key) HLen h (handleHLen (mem_env q cfg) db [n, key] w)"
    and "hash_run (backend w) (encodePK cfg db key) (HStrlen f) h (handleHStrlen (mem_env q cfg) db [n, key, f] w)"
proof -
  have unstorable: "map_of h x = None" if "\<not> memberStorable x" for x
    using ok that by (auto simp: hash_ok_def list_all_iff map_of_eq_None_iff)
  have lists: "lists h (map_of h)" and ne: "h \<noteq> [] \<Longrightarrow> map_of h \<noteq> Map.empty"
    and len: "int (length h) = int (card (dom (map_of h)))"
    using ok by (auto simp: hash_ok_def lists_def length_card)
  have mget: "map (\<lambda>f. if f \<in> set fs \<and> memberStorable f then map_of h f else None) fs = map (map_of h) fs"
    using unstorable by (intro map_cong) auto
  note run = attempt_def call_mem ret_def resultCapExceeded_def sp_HGet_def sp_HMGet_def sp_HGetAll_def
    sp_HKeys_def sp_HVals_def sp_HExists_def sp_HStrlen_def
  note defs = handleHGet_def handleHMGet_def handleHGetAll_def handleHKeys_def handleHVals_def handleHExists_def
    handleHLen_def handleHStrlen_def withAll_def Let_def mem_env_simps mem_store_simps nth_Cons_0 nth_Cons_Suc
    One_nat_def numeral_2_eq_2 drop_Suc_Cons drop_0 append_Cons append_Nil
  let ?pk = "encodePK cfg db key" and ?E = "mem_env q cfg"
  show "hash_run (backend w) ?pk (HGet f) h (handleHGet ?E db [n, key, f] w)"
    unfolding defs
    by (rule read_hash [OF holds ok, where ?r0.0 = NullBulk and r = "opt_bulk (map_of h f)"])
      (simp_all add: run unstorable opt_bulk_def split: option.split)
  show "hash_run (backend w) ?pk (HMGet fs) h (handleHMGet ?E db ([n, key] @ fs) w)"
    unfolding defs
    by (rule read_hash [OF holds ok, where ?r0.0 = "optReply (map (\<lambda>_. None) fs)" and r = "optReply (map (map_of h) fs)"])
      (simp_all add: run mget cong: if_cong)
  show "hash_run (backend w) ?pk HGetAll h (handleHGetAll ?E db [n, key] w)"
    unfolding defs
    by (rule read_hash [OF holds ok, where ?r0.0 = EmptyArray and r = "BulkArray (Some (pair_args h))"])
      (use lists ne cap in \<open>auto simp: run pair_args_def\<close>)
  show "hash_run (backend w) ?pk HKeys h (handleHKeys ?E db [n, key] w)"
    unfolding defs
    by (rule read_hash [OF holds ok, where ?r0.0 = EmptyArray and r = "BulkArray (Some (map fst h))"])
      (use lists ne cap in \<open>auto simp: run\<close>)
  show "hash_run (backend w) ?pk HVals h (handleHVals ?E db [n, key] w)"
    unfolding defs
    by (rule read_hash [OF holds ok, where ?r0.0 = EmptyArray and r = "BulkArray (Some (map snd h))"])
      (use lists ne cap in \<open>auto simp: run\<close>)
  show "hash_run (backend w) ?pk (HExists f) h (handleHExists ?E db [n, key, f] w)"
    unfolding defs
    by (rule read_hash [OF holds ok, where ?r0.0 = "IntReply 0" and r = "IntReply (if map_of h f = None then 0 else 1)"])
      (simp_all add: run unstorable)
  show "hash_run (backend w) ?pk HLen h (handleHLen ?E db [n, key] w)"
    unfolding defs
    by (rule read_hash [OF holds ok, where ?r0.0 = "IntReply 0" and r = "IntReply (int (length h))"])
      (simp_all add: run len)
  show "hash_run (backend w) ?pk (HStrlen f) h (handleHStrlen ?E db [n, key, f] w)"
    unfolding defs
    by (rule read_hash [OF holds ok, where ?r0.0 = "IntReply 0"
          and r = "IntReply (case map_of h f of None \<Rightarrow> 0 | Some v \<Rightarrow> int (length v))"])
      (simp_all add: run unstorable)
qed

lemma ensureHashWritable_mem:
  assumes "coll_holds TypeHash t_hash (backend w) pk h" and "write_fits key fs vs"
  obtains w1 m where "\<And>k. ensureHashWritable (mem_env q cfg) pk key fs vs k w = k w1"
    "coll_at TypeHash t_hash (backend w1) pk m h" "m_count m = int (length h)" "same_except {pk} (backend w) (backend w1)"
proof -
  obtain w1 m where "ensureTypeExpiring (mem_env q cfg) pk TypeHash w = (Inr (), w1)"
    "coll_at TypeHash t_hash (backend w1) pk m h" "m_count m = int (length h)" "same_except {pk} (backend w) (backend w1)"
    by (rule hash_coll.ensure_coll [OF assms(1)])
  then show thesis
    using assms(2) by (intro that) (simp_all add: ensureHashWritable_def attempt_def CheckWrite_run)
qed

text \<open>Setting members of a hash keeps the meta item.\<close>

lemma coll_at_set_hash: "coll_at TypeHash t_hash t pk m h \<Longrightarrow> coll_at TypeHash t_hash (set_hash pk h' t) pk m h'"
  by (simp add: coll_at_def)

lemma same_except_set_hash: "same_except {pk} t (set_hash pk h' t)"
  by (simp add: same_except_def)

lemma hset_mem:
  assumes holds: "coll_holds TypeHash t_hash (backend w) pk h" and ok: "hash_ok h"
    and fits: "write_fits key (map fst fvs) (map snd fvs)" and ne: "fvs \<noteq> []"
  shows "coll_run TypeHash t_hash (backend w) pk (r (int (card (fst ` set fvs - dom (map_of h)))), hset_all fvs h)
      (ensureHashWritable (mem_env q cfg) pk key (map fst fvs) (map snd fvs)
        (attempt (call (sp_HSet pk fvs)) (\<lambda>added.
         attempt (adjustCount (mem_env q cfg) pk TypeHash added) (\<lambda>_. ret (r added)))) w)"
    and "hash_ok (hset_all fvs h)"
proof -
  have d: "distinct (map fst h)" using ok by (simp add: hash_ok_def)
  obtain w1 m where w1: "\<And>k. ensureHashWritable (mem_env q cfg) pk key (map fst fvs) (map snd fvs) k w = k w1"
    "coll_at TypeHash t_hash (backend w1) pk m h" "m_count m = int (length h)" "same_except {pk} (backend w) (backend w1)"
    by (rule ensureHashWritable_mem [OF holds fits]) blast
  have "fst ` set (hset_all fvs h) \<noteq> {}" using ne by (simp add: keys_hset_all)
  then have ne': "hset_all fvs h \<noteq> []" by auto
  have "coll_run TypeHash t_hash (backend w1) pk (r (int (card (fst ` set fvs - dom (map_of h)))), hset_all fvs h)
      (attempt (call (sp_HSet pk fvs)) (\<lambda>added.
         attempt (adjustCount (mem_env q cfg) pk TypeHash added) (\<lambda>_. ret (r added))) w1)"
  proof (rule hash_coll.change_coll [OF w1(2,3), where d = "\<lambda>a. a"])
    show "call (sp_HSet pk fvs) w1 = (Inr (int (card (fst ` set fvs - dom (map_of h)))),
        on_tbl (set_hash pk (hset_all fvs h)) w1)"
      using w1(2) length_hset_all [OF d, of fvs] by (simp add: call_mem sp_HSet_def Let_def coll_at_def on_tbl_def)
  qed (use w1(2) ne' length_hset_all [OF d, of fvs] in \<open>simp_all add: coll_at_set_hash same_except_set_hash\<close>)
  then show "coll_run TypeHash t_hash (backend w) pk (r (int (card (fst ` set fvs - dom (map_of h)))), hset_all fvs h)
      (ensureHashWritable (mem_env q cfg) pk key (map fst fvs) (map snd fvs)
        (attempt (call (sp_HSet pk fvs)) (\<lambda>added.
         attempt (adjustCount (mem_env q cfg) pk TypeHash added) (\<lambda>_. ret (r added)))) w)"
    unfolding w1(1) by (rule coll_run_trans [OF w1(4)])
  show "hash_ok (hset_all fvs h)"
    using hash_ok_hset_all [OF ok] memberStorable_fits [OF fits] by (simp add: list_all_iff split_beta)
qed

lemma hset_hash:
  assumes "coll_holds TypeHash t_hash (backend w) (encodePK cfg db key) h" and "hash_ok h"
    and "fvs \<noteq> []" and "write_fits key (map fst fvs) (map snd fvs)"
  shows "hash_run (backend w) (encodePK cfg db key) (HSet fvs) h
      (handleHSet (mem_env q cfg) db ([n, key] @ pair_args fvs) w)"
    and "hash_run (backend w) (encodePK cfg db key) (HMSet fvs) h
      (handleHMSet (mem_env q cfg) db ([n, key] @ pair_args fvs) w)"
proof -
  note hset = hset_mem [OF assms(1,2,4,3)]
  note unf = Let_def splitHashPairs_pair_args even_pair_args
  show "hash_run (backend w) (encodePK cfg db key) (HSet fvs) h
      (handleHSet (mem_env q cfg) db ([n, key] @ pair_args fvs) w)"
    using hash_runI [OF hset(1) [where r = IntReply] hset(2), of "HSet fvs"]
    by (simp add: handleHSet_def unf map_of_hset_all)
  show "hash_run (backend w) (encodePK cfg db key) (HMSet fvs) h
      (handleHMSet (mem_env q cfg) db ([n, key] @ pair_args fvs) w)"
    using hash_runI [OF hset(1) [where r = "\<lambda>_. SimpleString ''OK''"] hset(2), of "HMSet fvs"]
    by (simp add: handleHMSet_def unf map_of_hset_all)
qed

lemma hsetnx_hash:
  assumes holds: "coll_holds TypeHash t_hash (backend w) (encodePK cfg db key) h" and ok: "hash_ok h"
    and fits: "write_fits key [f] [v]"
  shows "hash_run (backend w) (encodePK cfg db key) (HSetNX f v) h
    (handleHSetNX (mem_env q cfg) db [n, key, f, v] w)"
proof -
  let ?pk = "encodePK cfg db key" and ?E = "mem_env q cfg"
  obtain w1 m where w1: "\<And>k. ensureHashWritable ?E ?pk key [f] [v] k w = k w1"
    "coll_at TypeHash t_hash (backend w1) ?pk m h" "m_count m = int (length h)" "same_except {?pk} (backend w) (backend w1)"
    by (rule ensureHashWritable_mem [OF holds fits]) blast
  have run: "handleHSetNX ?E db [n, key, f, v] w = attempt (call (sp_HSetNX ?pk f v)) (\<lambda>isSet.
      if isSet then attempt (adjustCount ?E ?pk TypeHash 1) (\<lambda>_. ret (IntReply 1)) else ret (IntReply 0)) w1"
    by (simp add: handleHSetNX_def Let_def w1(1))
  have h: "t_hash (backend w1) ?pk = h" using w1(2) by (simp add: coll_at_def)
  show ?thesis
  proof (cases "map_of h f")
    case (Some b)
    then have "h \<noteq> []" and "handleHSetNX ?E db [n, key, f, v] w = (IntReply 0, w1)"
      by (auto simp: run attempt_def call_mem sp_HSetNX_def h ret_def on_tbl_def)
    then have "coll_run TypeHash t_hash (backend w1) ?pk (IntReply 0, h) (handleHSetNX ?E db [n, key, f, v] w)"
      using coll_run_same [OF coll_holds_at [OF w1(2,3)]] by simp
    then show ?thesis
      using Some coll_run_trans [OF w1(4)] ok by (intro hash_runI [of _ _ "IntReply 0" h]) simp_all
  next
    case None
    let ?h = "AList.update f v h" and ?w2 = "on_tbl (set_hash ?pk (AList.update f v h)) w1"
    have upd: "?h = hset_all [(f, v)] h" by (simp add: hset_all_def)
    have len: "int (length ?h) = int (length h) + 1" using None by (simp add: length_update)
    have "handleHSetNX ?E db [n, key, f, v] w = attempt (adjustCount ?E ?pk TypeHash 1) (\<lambda>_. ret (IntReply 1)) ?w2"
      using None by (simp add: run attempt_def call_mem sp_HSetNX_def h on_tbl_def)
    moreover have "coll_run TypeHash t_hash (backend ?w2) ?pk (IntReply 1, ?h)
        (attempt (adjustCount ?E ?pk TypeHash 1) (\<lambda>_. ret (IntReply 1)) ?w2)"
      using w1(2,3) len by (intro hash_coll.reply_coll) (auto intro: coll_at_set_hash)
    ultimately have "coll_run TypeHash t_hash (backend ?w2) ?pk (IntReply 1, ?h) (handleHSetNX ?E db [n, key, f, v] w)"
      by simp
    then have "coll_run TypeHash t_hash (backend w) ?pk (IntReply 1, ?h) (handleHSetNX ?E db [n, key, f, v] w)"
      by (intro coll_run_trans [OF w1(4) coll_run_trans [where ?w1.0 = ?w2]]) (simp_all add: same_except_set_hash)
    moreover have "hash_ok ?h"
      using hash_ok_hset_all [OF ok, of "[(f, v)]"] memberStorable_fits [OF fits] by (simp add: upd)
    ultimately show ?thesis
      using None by (intro hash_runI [of _ _ "IntReply 1" ?h]) (simp_all add: update_conv' fun_upd_def)
  qed
qed

lemma hdel_hash:
  assumes holds: "coll_holds TypeHash t_hash (backend w) (encodePK cfg db key) h" and ok: "hash_ok h"
  shows "hash_run (backend w) (encodePK cfg db key) (HDel fs) h (handleHDel (mem_env q cfg) db ([n, key] @ fs) w)"
proof -
  let ?pk = "encodePK cfg db key" and ?E = "mem_env q cfg" and ?fs = "filter memberStorable fs"
  have d: "distinct (map fst h)" using ok by (simp add: hash_ok_def)
  have storable: "dom (map_of h) \<inter> {f. \<not> memberStorable f} = {}"
    using ok by (auto simp: hash_ok_def list_all_iff dest: map_of_SomeD)
  then have same: "map_of h |` (- set ?fs) = map_of h |` (- set fs)" "dom (map_of h) \<inter> set ?fs = dom (map_of h) \<inter> set fs"
    by (auto simp: restrict_map_def fun_eq_iff)
  let ?h = "hdel_all ?fs h" and ?r = "int (card (dom (map_of h) \<inter> set fs))"
  have r: "?r = int (length h) - int (length ?h)" using length_hdel_all [OF d, of ?fs] same by simp
  have "hash_ok ?h" unfolding hdel_all_def by (rule hash_ok_filter [OF ok])
  moreover have "hash_spec (HDel fs) (map_of h) (IntReply ?r) (map_of ?h)"
    by (simp only: hash_spec.simps map_of_hdel_all same)
  ultimately have spec: "hash_ok ?h" "hash_spec (HDel fs) (map_of h) (IntReply ?r) (map_of ?h)" .
  have "handleHDel ?E db ([n, key] @ fs) = withKey ?E ?pk TypeHash (ret (IntReply 0)) (\<lambda>_.
      attempt (call (sp_HDel ?pk ?fs)) (\<lambda>removed. attempt (adjustCount ?E ?pk TypeHash (- removed)) (\<lambda>_. ret (IntReply removed))))"
    by (simp add: handleHDel_def Let_def)
  then show ?thesis
  proof (simp only:, intro withKey_hash [OF holds ok, where r = "IntReply 0"])
    fix m assume at: "coll_at TypeHash t_hash (backend w) ?pk m h" "m_count m = int (length h)" "h \<noteq> []"
    have "coll_run TypeHash t_hash (backend w) ?pk (IntReply ?r, ?h)
      (attempt (call (sp_HDel ?pk ?fs)) (\<lambda>removed. attempt (adjustCount ?E ?pk TypeHash (- removed)) (\<lambda>_. ret (IntReply removed))) w)"
    proof (rule hash_coll.change_coll [OF at(1,2), where d = uminus])
      show "call (sp_HDel ?pk ?fs) w = (Inr ?r, on_tbl (set_hash ?pk ?h) w)"
        using at(1) r by (simp add: call_mem sp_HDel_def Let_def coll_at_def on_tbl_def)
    qed (use at r in \<open>simp_all add: coll_at_set_hash same_except_set_hash\<close>)
    then show "hash_run (backend w) ?pk (HDel fs) h
      (attempt (call (sp_HDel ?pk ?fs)) (\<lambda>removed. attempt (adjustCount ?E ?pk TypeHash (- removed)) (\<lambda>_. ret (IntReply removed))) w)"
      by (rule hash_runI [OF _ spec])
  qed (simp_all add: ret_def)
qed

text \<open>The stored counter: its value, or not a canonical 64-bit integer.\<close>

lemma counter_cases:
  assumes "old = (case v of None \<Rightarrow> fmt_int 0 | Some b \<Rightarrow> b)"
  obtains k where "(case v of None \<Rightarrow> Inr 0 | Some b \<Rightarrow> ParseInt b) = Inr k" "i64 k" "old = fmt_int k"
  | e where "(case v of None \<Rightarrow> Inr 0 | Some b \<Rightarrow> ParseInt b) = Inl e" "\<nexists>k. i64 k \<and> old = fmt_int k" "v \<noteq> None"
proof (cases v)
  case None
  then show ?thesis using that(1) [of 0] assms by (simp add: i64_def)
next
  case (Some b)
  then show ?thesis
    using that ParseInt_iff [of b] assms by (cases "ParseInt b") auto
qed

text \<open>The end of the two increments: the field is written, and counted if it is new.\<close>

lemma update_field:
  assumes "coll_at TypeHash t_hash (backend w) pk m h" and "m_count m = int (length h)"
    and "same_except {pk} t (backend w)" and "hash_ok h" and "memberStorable f"
    and "hash_spec c (map_of h) r ((map_of h)(f \<mapsto> v))" and "w' = on_tbl (set_hash pk (AList.update f v h)) w"
    and "run = (if map_of h f = None then attempt (adjustCount (mem_env q cfg) pk TypeHash 1) (\<lambda>_. ret r) w' else (r, w'))"
  shows "hash_run t pk c h run"
proof -
  let ?h = "AList.update f v h"
  have upd: "?h = hset_all [(f, v)] h" by (simp add: hset_all_def)
  note len = length_update [of f v h]
  have at2: "coll_at TypeHash t_hash (backend w') pk m ?h" and ne: "?h \<noteq> []" and same: "same_except {pk} (backend w) (backend w')"
    using assms(1) length_greater_0_conv [of ?h] len
    by (auto simp: assms(7) same_except_def intro: coll_at_set_hash)
  have ok2: "hash_ok ?h" and m2: "map_of ?h = (map_of h)(f \<mapsto> v)"
    using hash_ok_hset_all [OF assms(4), of "[(f, v)]"] assms(5) by (simp_all add: upd) (simp add: map_of_hset_all)
  have "coll_run TypeHash t_hash (backend w') pk (r, ?h) (attempt (adjustCount (mem_env q cfg) pk TypeHash 1) (\<lambda>_. ret r) w')"
    if "map_of h f = None"
    using at2 assms(2) len ne that by (intro hash_coll.reply_coll) auto
  moreover have "coll_run TypeHash t_hash (backend w') pk (r, ?h) (r, w')" if "map_of h f \<noteq> None"
    using at2 assms(2) len ne that by (intro coll_run_same coll_holds_at) auto
  ultimately have "coll_run TypeHash t_hash (backend w') pk (r, ?h) run" using assms(8) by simp
  then show ?thesis
    using hash_runI [OF coll_run_trans [OF assms(3) coll_run_trans [OF same]] ok2] assms(6) m2 by metis
qed

lemma hincrby_hash:
  assumes holds: "coll_holds TypeHash t_hash (backend w) (encodePK cfg db key) h" and ok: "hash_ok h"
    and fits: "write_fits key [f] []" and d: "i64 d"
  shows "hash_run (backend w) (encodePK cfg db key) (HIncrBy f d) h
    (handleHIncrBy (mem_env q cfg) db [n, key, f, fmt_int d] w)"
proof -
  let ?pk = "encodePK cfg db key" and ?E = "mem_env q cfg" and ?run = "handleHIncrBy (mem_env q cfg) db [n, key, f, fmt_int d] w"
  obtain w1 m where w1: "\<And>k. ensureHashWritable ?E ?pk key [f] [] k w = k w1"
    "coll_at TypeHash t_hash (backend w1) ?pk m h" "m_count m = int (length h)" "same_except {?pk} (backend w) (backend w1)"
    by (rule ensureHashWritable_mem [OF holds fits]) blast
  have run: "?run = attempt (call (sp_HIncrBy ?pk f d)) (\<lambda>(nxt, isNew).
      if isNew then attempt (adjustCount ?E ?pk TypeHash 1) (\<lambda>_. ret (IntReply nxt)) else ret (IntReply nxt)) w1"
    by (simp add: handleHIncrBy_def Let_def ParseInt_fmt [OF d] w1(1))
  have h: "t_hash (backend w1) ?pk = h" using w1(2) by (simp add: coll_at_def)
  define old where "old = (case map_of h f of None \<Rightarrow> fmt_int 0 | Some v \<Rightarrow> v)"
  have failed: "hash_run (backend w) ?pk (HIncrBy f d) h ?run"
    if hyps: "?run = (Error e, w1)" "map_of h f \<noteq> None" "hash_spec (HIncrBy f d) (map_of h) (Error e) (map_of h)" for e
  proof -
    have "h \<noteq> []" using hyps(2) by auto
    then have "coll_run TypeHash t_hash (backend w1) ?pk (Error e, h) ?run"
      using coll_run_same [OF coll_holds_at [OF w1(2,3)]] hyps(1) by simp
    then show ?thesis
      using hash_runI [OF coll_run_trans [OF w1(4)] ok hyps(3)] by blast
  qed
  from old_def show ?thesis
  proof (cases rule: counter_cases)
    case (2 e)
    then show ?thesis
      by (intro failed [of ErrHashNotInteger])
        (auto simp: run attempt_def call_mem sp_HIncrBy_def h Let_def on_tbl_def writeStoreError_def
          simp flip: old_def split: option.splits)
  next
    case (1 k)
    note ov = incr_overflows_iff [OF 1(2) d]
    show ?thesis
    proof (cases "i64 (k + d)")
      case False
      then have some: "map_of h f \<noteq> None"
        using d 1(3) by (auto simp: old_def split: option.splits)
      show ?thesis
        using False 1 by (intro failed [OF _ some, of ErrIncrDecrOverflow])
          (simp_all add: run attempt_def call_mem sp_HIncrBy_def h Let_def on_tbl_def writeStoreError_def ov
            flip: old_def)
    next
      case True
      show ?thesis
        using 1 True memberStorable_fits [OF fits]
        by (intro update_field [OF w1(2-4) ok _ _ refl])
          (auto simp: run attempt_def call_mem sp_HIncrBy_def h Let_def on_tbl_def ov ret_def simp flip: old_def)
    qed
  qed
qed

lemma hincrbyfloat_hash:
  assumes holds: "coll_holds TypeHash t_hash (backend w) (encodePK cfg db key) h" and ok: "hash_ok h"
    and fits: "write_fits key [f] []" and fin: "incr_finite (HIncrByFloat f x) (map_of h)"
    and E: "E = mem_env q cfg \<or> E = checked_env (mem_env q cfg)"
  shows "hash_run (backend w) (encodePK cfg db key) (HIncrByFloat f x) h (handleHIncrByFloat E db [n, key, f, x] w)"
proof (cases "parseFloatArg x")
  case None
  then have "handleHIncrByFloat E db [n, key, f, x] w = (Error ErrNotValidFloat, w)"
    by (simp add: handleHIncrByFloat_def Let_def ret_def)
  then show ?thesis using hash_runI [OF coll_run_same [OF holds] ok] None by simp
next
  case (Some d)
  let ?pk = "encodePK cfg db key" and ?E = "mem_env q cfg" and ?run = "handleHIncrByFloat E db [n, key, f, x] w"
  have abs: "abs_env ?E = ?E" by (simp add: abs_env_mem_env)
  obtain w1 m where w1: "\<And>k. ensureHashWritable ?E ?pk key [f] [] k w = k w1"
    "coll_at TypeHash t_hash (backend w1) ?pk m h" "m_count m = int (length h)" "same_except {?pk} (backend w) (backend w1)"
    by (rule ensureHashWritable_mem [OF holds fits]) blast
  have h: "t_hash (backend w1) ?pk = h" using w1(2) by (simp add: coll_at_def)
  define g where "g = st_HIncrByFloat (e_store E) ?pk f d"
  have run: "?run = attempt (call g) (\<lambda>(val, isNew).
      if isNew then attempt (adjustCount ?E ?pk TypeHash 1) (\<lambda>_. ret (BulkString val)) else ret (BulkString val)) w1"
    using E Some w1(1) by (auto simp: handleHIncrByFloat_def Let_def g_def checked_env_helpers abs cong: if_cong)
  have eq: "g (backend w1) = sp_HIncrByFloat ?pk f d (backend w1)"
    using E fin Some h
    by (auto simp: g_def checked_env_helpers sp_HIncrByFloat_checked_def sp_HIncrByFloat_def incr_finite_def stored_float_def
        split: option.splits)
  show ?thesis
  proof (cases "stored_float (map_of h f)")
    case None
    then have "?run = (Error ErrHashNotFloat, w1)" and "h \<noteq> []"
      by (auto simp: run attempt_def call_mem eq sp_HIncrByFloat_def h Let_def on_tbl_def writeStoreError_def stored_float_def
          split: option.splits)
    then have "coll_run TypeHash t_hash (backend w1) ?pk (Error ErrHashNotFloat, h) ?run"
      using coll_run_same [OF coll_holds_at [OF w1(2,3)]] by simp
    then show ?thesis
      using hash_runI [OF coll_run_trans [OF w1(4)] ok] Some None by simp
  next
    case (Some cur)
    then show ?thesis
      using \<open>parseFloatArg x = Some d\<close> memberStorable_fits [OF fits]
      by (intro update_field [OF w1(2-4) ok _ _ refl])
        (auto simp: run attempt_def call_mem eq sp_HIncrByFloat_def h Let_def on_tbl_def ret_def stored_float_def)
  qed
qed

section \<open>Refinement\<close>

text \<open>
  C9: every Hash command but the paging read HSCAN refines an operation of an ordinary finite map. If a
  key holds the map \<open>m\<close> (absent: the empty map), the command replies what the map operation returns, the
  key then holds the resulting map, with its counter equal to the number of fields and the key
  existing iff there is one, and no other key changes. HINCRBY on a field that is no 64-bit integer, or
  past the 64-bit range, and HINCRBYFLOAT on a field or by an increment that is no float, is an error and
  changes nothing; HINCRBYFLOAT with a result that is not finite is left out. Names and values are within
  their size limits, and no cap on the size of a result is configured.
\<close>

theorem hash_commands_refine:
  assumes "conforming_env E view" and "t = view (backend w)" and "pk = encodePK (e_cfg E) db key"
    and "hash_cmd_ok key c" and "MaxCollectionResult (e_cfg E) \<le> 0"
    and "run = hash_handler E db key c w" and "t' = view (backend (snd run))"
    and "hash_holds t pk m" and "incr_finite c m"
  shows "\<exists>m'. hash_spec c m (fst run) m' \<and> hash_holds t' pk m' \<and> same_except {pk} t t'"
proof -
  let ?E = "mem_env (e_enq E) (e_cfg E)" and ?W = "wview view w"
  have W: "backend ?W = t" using assms(2) by simp
  obtain h where h: "coll_holds TypeHash t_hash (backend ?W) (encodePK (e_cfg E) db key) h" "hash_ok h" "map_of h = m"
    using assms(3,8) W by (auto simp: hash_holds_def)
  note sims = conforming_env.sim_hash_commands [OF assms(1), unfolded abs_env_mem_env]
  obtain E' where E': "E' = ?E \<or> (\<exists>f x. c = HIncrByFloat f x) \<and> E' = checked_env ?E"
    and sim: "sim view (hash_handler E db key c) (hash_handler E' db key c)"
  proof (cases "\<exists>f x. c = HIncrByFloat f x")
    case True
    then obtain f x where c: "c = HIncrByFloat f x" by blast
    have checked: "checked_env E = checked_env ?E" by (simp add: checked_env_def abs_env_mem_env)
    from conforming_env.sim_HIncrByFloat [OF assms(1), of db "hash_args key c", unfolded abs_env_mem_env checked]
    show ?thesis using that c by auto
  next
    case False
    then show ?thesis using that [of ?E] sims by (cases c) simp_all
  qed
  have "hash_run (backend ?W) (encodePK (e_cfg E) db key) c h (hash_handler E' db key c ?W)"
    using assms(4,9) E' h(3) hincrbyfloat_hash [OF h(1,2), where E = E' and q = "e_enq E"] hset_hash [OF h(1,2)] hsetnx_hash [OF h(1,2)] hdel_hash [OF h(1,2)] hincrby_hash [OF h(1,2)]
      reads_hash [OF h(1,2) assms(5)]
    by (cases c) (simp_all add: hash_cmd_ok_def)
  then obtain r h' where "coll_run TypeHash t_hash t pk (r, h') (hash_handler E' db key c ?W)" "hash_ok h'"
    "hash_spec c m r (map_of h')"
    using W h(3) assms(3) by (auto simp: hash_run_def)
  then show ?thesis
    using sim_fst [OF sim] sim_backend [OF sim] assms(6,7)
    by (auto simp: coll_run_def hash_holds_def simp del: wview_simps)
qed

text \<open>A hash key over the in-memory store.\<close>

definition hash_tbl :: tbl where
  "hash_tbl = set_hash ''h'' [(''f'', ''9''), (''g'', ''x'')] (set_meta ''h'' (Some \<lparr>m_type = TypeHash, m_exp = 0, m_count = 2\<rparr>) (empty_tbl 100))"

lemma hash_tbl_holds: "hash_holds hash_tbl ''h'' [''f'' \<mapsto> ''9'', ''g'' \<mapsto> ''x'']"
proof -
  have "coll_holds TypeHash t_hash hash_tbl ''h'' [(''f'', ''9''), (''g'', ''x'')]"
    by (simp add: coll_holds_def hash_tbl_def live_meta_def IsExpired_def)
  moreover have "hash_ok [(''f'', ''9''), (''g'', ''x'')]"
    by (simp add: hash_ok_def memberStorable_def maxStorableMemberLen_def MaxMemberNameSize_def MaxNameSize_def)
  moreover have "map_of [(''f'', ''9''), (''g'', ''x'')] = [''f'' \<mapsto> ''9'', ''g'' \<mapsto> ''x'']"
    by (simp add: fun_eq_iff)
  ultimately show ?thesis unfolding hash_holds_def by blast
qed

theorem hash_commands_refine_witness:
  "fst (hash_handler (mem_env SyncDeleter cfg0) 0 ''h'' (HIncrBy ''f'' 1) (mem_world hash_tbl)) = IntReply 10 \<and>
   hash_holds (backend (snd (hash_handler (mem_env SyncDeleter cfg0) 0 ''h'' (HIncrBy ''f'' 1) (mem_world hash_tbl))))
     ''h'' [''f'' \<mapsto> ''10'', ''g'' \<mapsto> ''x'']"
proof -
  have nine: "''9'' = fmt_int 9" "fmt_int 10 = ''10''" by code_simp+
  have "hash_cmd_ok ''h'' (HIncrBy ''f'' 1)"
    by (simp add: hash_cmd_ok_def write_fits_def nameTooLarge_def memberNameTooLarge_def MaxMemberNameSize_def
        MaxNameSize_def i64_def)
  then obtain m' where
    "hash_spec (HIncrBy ''f'' 1) [''f'' \<mapsto> ''9'', ''g'' \<mapsto> ''x''] (fst (hash_handler (mem_env SyncDeleter cfg0) 0 ''h'' (HIncrBy ''f'' 1) (mem_world hash_tbl))) m'"
    "hash_holds (backend (snd (hash_handler (mem_env SyncDeleter cfg0) 0 ''h'' (HIncrBy ''f'' 1) (mem_world hash_tbl)))) ''h'' m'"
    using hash_commands_refine [OF conforming_mem [of SyncDeleter cfg0] refl refl _ _ refl refl _,
        where w = "mem_world hash_tbl" and db = 0 and key = "''h''" and m = "[''f'' \<mapsto> ''9'', ''g'' \<mapsto> ''x'']"
          and c = "HIncrBy ''f'' 1"] hash_tbl_holds
    by (auto simp: encodePK_def incr_finite_def)
  then show ?thesis
    by (simp add: Let_def nine(1)) (auto simp: i64_def nine(2) fun_upd_twist)
qed

end
