(* ===== verification/Sets.thy ===== *)
theory Sets
  imports Hashes
begin

text \<open>
  The Set commands (\<^verbatim>\<open>internal/command/sets.go\<close>). The random choice of SPOP and SRANDMEMBER and the
  iteration order of Go's maps in the set algebra are arguments (\<open>pick\<close>, \<open>iter\<close>). SSCAN is in theory
  \<open>Scans\<close>.
\<close>

section \<open>Members of one key\<close>

definition ensureSetWritable :: "'s env \<Rightarrow> bytes \<Rightarrow> bytes \<Rightarrow> bytes list \<Rightarrow> 's handler \<Rightarrow> 's handler" where
  "ensureSetWritable E pk key members k =
     attempt (CheckWrite key members []) (\<lambda>_.
     attempt (ensureTypeExpiring E pk TypeSet) (\<lambda>_. k))"

definition handleSAdd :: "'s env \<Rightarrow> int \<Rightarrow> bytes list \<Rightarrow> 's handler" where
  "handleSAdd E db args =
     (let key = args ! 1; members = drop 2 args; pk = encodePK (e_cfg E) db key in
      ensureSetWritable E pk key members
        (attempt (call (st_SAdd (e_store E) pk members)) (\<lambda>added.
         attempt (adjustCount E pk TypeSet added) (\<lambda>_. ret (IntReply added)))))"

definition handleSRem :: "'s env \<Rightarrow> int \<Rightarrow> bytes list \<Rightarrow> 's handler" where
  "handleSRem E db args =
     (let pk = encodePK (e_cfg E) db (args ! 1); toRemove = filter memberStorable (drop 2 args) in
      withKey E pk TypeSet (ret (IntReply 0)) (\<lambda>_.
        attempt (call (st_SRem (e_store E) pk toRemove)) (\<lambda>removed.
        attempt (adjustCount E pk TypeSet (- removed)) (\<lambda>_. ret (IntReply removed)))))"

definition handleSIsMember :: "'s env \<Rightarrow> int \<Rightarrow> bytes list \<Rightarrow> 's handler" where
  "handleSIsMember E db args =
     (let pk = encodePK (e_cfg E) db (args ! 1); member = args ! 2 in
      withKey E pk TypeSet (ret (IntReply 0)) (\<lambda>_.
        if \<not> memberStorable member then ret (IntReply 0)
        else attempt (call (st_SIsMember (e_store E) pk member)) (\<lambda>b. ret (IntReply (if b then 1 else 0)))))"

definition handleSMembers :: "'s env \<Rightarrow> int \<Rightarrow> bytes list \<Rightarrow> 's handler" where
  "handleSMembers E db args =
     (let pk = encodePK (e_cfg E) db (args ! 1) in
      withAll E pk TypeSet
        (attempt (call (st_SMembers (e_store E) pk)) (\<lambda>ms. ret (BulkArray (Some ms)))))"

definition handleSCard :: "'s env \<Rightarrow> int \<Rightarrow> bytes list \<Rightarrow> 's handler" where
  "handleSCard E db args =
     withKey E (encodePK (e_cfg E) db (args ! 1)) TypeSet (ret (IntReply 0)) (\<lambda>m. ret (IntReply (m_count m)))"

section \<open>Random members\<close>

text \<open>The optional count: none, a number, or an error reply.\<close>

definition parseCount :: "bool \<Rightarrow> bytes list \<Rightarrow> reply + int option" where
  "parseCount negative_ok args =
     (if length args = 3 then
        (case ParseInt (args ! 2) of
           Inl _ \<Rightarrow> Inl (Error ErrNotInteger)
         | Inr n \<Rightarrow> if n < 0 \<and> \<not> negative_ok then Inl (Error ''ERR index out of range'') else Inr (Some n))
      else if length args > 3 then Inl (Error ErrSyntax)
      else Inr None)"

definition countReply :: "int option \<Rightarrow> bytes list \<Rightarrow> reply" where
  "countReply c ms =
     (case c of
        Some _ \<Rightarrow> BulkArray (Some ms)
      | None \<Rightarrow> (case ms of [] \<Rightarrow> NullBulk | m # _ \<Rightarrow> BulkString m))"

definition absentReply :: "int option \<Rightarrow> reply" where
  "absentReply c = (case c of Some _ \<Rightarrow> EmptyArray | None \<Rightarrow> NullBulk)"

definition handleSPop :: "'s env \<Rightarrow> pick \<Rightarrow> int \<Rightarrow> bytes list \<Rightarrow> 's handler" where
  "handleSPop E pick db args =
     (let pk = encodePK (e_cfg E) db (args ! 1) in
      case parseCount False args of
        Inl r \<Rightarrow> ret r
      | Inr c \<Rightarrow>
          withKey E pk TypeSet (ret (absentReply c)) (\<lambda>_.
            attempt (call (st_SPop (e_store E) pick pk (case c of None \<Rightarrow> 1 | Some n \<Rightarrow> n))) (\<lambda>removed.
            attempt (adjustCount E pk TypeSet (- int (length removed))) (\<lambda>_. ret (countReply c removed)))))"

definition handleSRandMember :: "'s env \<Rightarrow> pick \<Rightarrow> int \<Rightarrow> bytes list \<Rightarrow> 's handler" where
  "handleSRandMember E pick db args =
     (let pk = encodePK (e_cfg E) db (args ! 1) in
      case parseCount True args of
        Inl r \<Rightarrow> ret r
      | Inr c \<Rightarrow>
          withKey E pk TypeSet (ret (absentReply c)) (\<lambda>_.
            attempt (call (st_SRandMember (e_store E) pick pk (case c of None \<Rightarrow> 1 | Some n \<Rightarrow> n))) (\<lambda>ms.
            ret (countReply c ms))))"

section \<open>Set algebra\<close>

datatype setOp = opUnion | opInter | opDiff

text \<open>The members of an operand; none when it is not live, \<open>None\<close> when it is of another type.\<close>

definition loadSetMembers :: "'s env \<Rightarrow> bytes \<Rightarrow> ('s, serr + bytes list option) act" where
  "loadSetMembers E pk =
     bindE (loadMetaState E pk TypeSet) (\<lambda>k.
       case k of
         KeyWrong \<Rightarrow> ret (Inr None)
       | KeyAbsent \<Rightarrow> ret (Inr (Some []))
       | KeyLive m \<Rightarrow> bindE (call (st_SMembers (e_store E) pk)) (\<lambda>ms. ret (Inr (Some ms))))"

text \<open>
  Loading the operands in order; the intersection is empty as soon as one is. The outcome is an
  operand of another type, that early result, or the operands.
\<close>

datatype operands = OpsWrong | OpsEmpty | Ops "bytes list list"

primrec loadSets :: "'s env \<Rightarrow> setOp \<Rightarrow> bytes list \<Rightarrow> bytes list list \<Rightarrow> ('s, serr + operands) act" where
  "loadSets E op [] sets = ret (Inr (Ops sets))"
| "loadSets E op (pk # pks) sets =
     bindE (loadSetMembers E pk) (\<lambda>mo.
       case mo of
         None \<Rightarrow> ret (Inr OpsWrong)
       | Some ms \<Rightarrow>
           if op = opInter \<and> ms = [] then ret (Inr OpsEmpty) else loadSets E op pks (sets @ [ms]))"

text \<open>A Go map used as a set is the list of its keys; \<open>iter\<close> is the order it is iterated in.\<close>

definition set_algebra :: "setOp \<Rightarrow> bytes list list \<Rightarrow> bytes list" where
  "set_algebra op sets =
     (case op of
        opUnion \<Rightarrow> fold (\<lambda>s acc. sadd_all s acc) sets []
      | opInter \<Rightarrow> fold (\<lambda>s acc. filter (\<lambda>m. m \<in> set s) acc) (tl sets) (remdups (hd sets))
      | opDiff \<Rightarrow> fold (\<lambda>s acc. filter (\<lambda>m. m \<notin> set s) acc) (tl sets) (remdups (hd sets)))"

definition computeSetAlgebra ::
    "'s env \<Rightarrow> (bytes list \<Rightarrow> bytes list) \<Rightarrow> setOp \<Rightarrow> bytes list \<Rightarrow> ('s, serr + bytes list option) act" where
  "computeSetAlgebra E iter op pks =
     bindE (loadSets E op pks []) (\<lambda>r.
       case r of
         OpsWrong \<Rightarrow> ret (Inr None)
       | OpsEmpty \<Rightarrow> ret (Inr (Some []))
       | Ops sets \<Rightarrow> ret (Inr (Some (if sets = [] then [] else iter (set_algebra op sets)))))"

definition handleSetAlgebraRead ::
    "'s env \<Rightarrow> (bytes list \<Rightarrow> bytes list) \<Rightarrow> setOp \<Rightarrow> int \<Rightarrow> bytes list \<Rightarrow> 's handler" where
  "handleSetAlgebraRead E iter op db keys =
     attempt (computeSetAlgebra E iter op (map (encodePK (e_cfg E) db) keys)) (\<lambda>r.
       case r of None \<Rightarrow> ret (Error ErrWrongType) | Some ms \<Rightarrow> ret (BulkArray (Some ms)))"

definition handleSUnion :: "'s env \<Rightarrow> (bytes list \<Rightarrow> bytes list) \<Rightarrow> int \<Rightarrow> bytes list \<Rightarrow> 's handler" where
  "handleSUnion E iter db args = handleSetAlgebraRead E iter opUnion db (drop 1 args)"

definition handleSInter :: "'s env \<Rightarrow> (bytes list \<Rightarrow> bytes list) \<Rightarrow> int \<Rightarrow> bytes list \<Rightarrow> 's handler" where
  "handleSInter E iter db args = handleSetAlgebraRead E iter opInter db (drop 1 args)"

definition handleSDiff :: "'s env \<Rightarrow> (bytes list \<Rightarrow> bytes list) \<Rightarrow> int \<Rightarrow> bytes list \<Rightarrow> 's handler" where
  "handleSDiff E iter db args = handleSetAlgebraRead E iter opDiff db (drop 1 args)"

definition handleSetAlgebraStore ::
    "'s env \<Rightarrow> (bytes list \<Rightarrow> bytes list) \<Rightarrow> setOp \<Rightarrow> int \<Rightarrow> bytes list \<Rightarrow> 's handler" where
  "handleSetAlgebraStore E iter op db args =
     (let destKey = args ! 1; srcKeys = drop 2 args; destPK = encodePK (e_cfg E) db destKey in
      attempt (computeSetAlgebra E iter op (map (encodePK (e_cfg E) db) srcKeys)) (\<lambda>r.
        case r of
          None \<Rightarrow> ret (Error ErrWrongType)
        | Some result \<Rightarrow>
            attempt (CheckWrite destKey result []) (\<lambda>_.
            attempt (Meta_DeleteMeta E destPK) (\<lambda>_.
            attempt (call (st_DeleteMembers (e_store E) destPK)) (\<lambda>_.
              if result = [] then ret (IntReply 0)
              else
                attempt (ensureTypeExpiring E destPK TypeSet) (\<lambda>_.
                attempt (call (st_SAdd (e_store E) destPK result)) (\<lambda>added.
                attempt (adjustCount E destPK TypeSet added) (\<lambda>_. ret (IntReply added)))))))))"

definition handleSUnionStore :: "'s env \<Rightarrow> (bytes list \<Rightarrow> bytes list) \<Rightarrow> int \<Rightarrow> bytes list \<Rightarrow> 's handler" where
  "handleSUnionStore E iter db args = handleSetAlgebraStore E iter opUnion db args"

definition handleSInterStore :: "'s env \<Rightarrow> (bytes list \<Rightarrow> bytes list) \<Rightarrow> int \<Rightarrow> bytes list \<Rightarrow> 's handler" where
  "handleSInterStore E iter db args = handleSetAlgebraStore E iter opInter db args"

definition handleSDiffStore :: "'s env \<Rightarrow> (bytes list \<Rightarrow> bytes list) \<Rightarrow> int \<Rightarrow> bytes list \<Rightarrow> 's handler" where
  "handleSDiffStore E iter db args = handleSetAlgebraStore E iter opDiff db args"

section \<open>SMOVE\<close>

definition smoveIsMember :: "'s env \<Rightarrow> bytes \<Rightarrow> bytes \<Rightarrow> 's handler \<Rightarrow> 's handler" where
  "smoveIsMember E pk member k =
     (if \<not> memberStorable member then ret (IntReply 0)
      else attempt (call (st_SIsMember (e_store E) pk member)) (\<lambda>b. if b then k else ret (IntReply 0)))"

definition handleSMove :: "'s env \<Rightarrow> int \<Rightarrow> bytes list \<Rightarrow> 's handler" where
  "handleSMove E db args =
     (let dstKey = args ! 2; member = args ! 3;
          srcPK = encodePK (e_cfg E) db (args ! 1); dstPK = encodePK (e_cfg E) db dstKey in
      withKey E srcPK TypeSet (ret (IntReply 0)) (\<lambda>_.
        if srcPK = dstPK then smoveIsMember E srcPK member (ret (IntReply 1))
        else
          attempt (loadMetaState E dstPK TypeSet) (\<lambda>k.
          if k = KeyWrong then ret (Error ErrWrongType)
          else
            smoveIsMember E srcPK member
              (attempt (CheckWrite dstKey [member] []) (\<lambda>_.
               attempt (call (st_SRem (e_store E) srcPK [member])) (\<lambda>removed.
               attempt (adjustCount E srcPK TypeSet (- removed)) (\<lambda>_.
               attempt (ensureTypeExpiring E dstPK TypeSet) (\<lambda>_.
               attempt (call (st_SAdd (e_store E) dstPK [member])) (\<lambda>added.
               attempt (adjustCount E dstPK TypeSet added) (\<lambda>_. ret (IntReply 1)))))))))))"

section \<open>The handlers refine their runs over the abstract table\<close>

lemma sim_operands [sim_intros]:
  "sim v f f' \<Longrightarrow> sim v g g' \<Longrightarrow> (\<And>m. sim v (h m) (h' m)) \<Longrightarrow>
    sim v (case_operands f g h x) (case_operands f' g' h' x)"
  by (cases x) simp_all

context conforming_env begin

lemma sim_ensureSetWritable [sim_intros]:
  "sim view k k' \<Longrightarrow> sim view (ensureSetWritable E pk key ms k) (ensureSetWritable E' pk key ms k')"
  unfolding ensureSetWritable_def by (intro sim_intros)

lemma sim_loadSetMembers [sim_intros]: "sim view (loadSetMembers E pk) (loadSetMembers E' pk)"
  unfolding loadSetMembers_def abs_env_simps mem_store_simps by (intro sim_intros)

lemma sim_loadSets [sim_intros]: "sim view (loadSets E op pks sets) (loadSets E' op pks sets)"
  by (induction pks arbitrary: sets) (auto intro!: sim_intros)

lemma sim_setAlgebra [sim_intros]:
  "sim view (computeSetAlgebra E iter op pks) (computeSetAlgebra E' iter op pks)"
  "sim view (handleSetAlgebraRead E iter op db keys) (handleSetAlgebraRead E' iter op db keys)"
  "sim view (handleSetAlgebraStore E iter op db args) (handleSetAlgebraStore E' iter op db args)"
proof -
  show 1: "sim view (computeSetAlgebra E iter op pks) (computeSetAlgebra E' iter op pks)" for pks
    unfolding computeSetAlgebra_def by (intro sim_intros)
  show "sim view (handleSetAlgebraRead E iter op db keys) (handleSetAlgebraRead E' iter op db keys)"
    unfolding handleSetAlgebraRead_def abs_env_simps by (intro sim_intros 1)
  show "sim view (handleSetAlgebraStore E iter op db args) (handleSetAlgebraStore E' iter op db args)"
    unfolding handleSetAlgebraStore_def Let_def abs_env_simps mem_store_simps by (intro sim_intros 1)
qed

lemma sim_smoveIsMember [sim_intros]:
  "sim view k k' \<Longrightarrow> sim view (smoveIsMember E pk m k) (smoveIsMember E' pk m k')"
  unfolding smoveIsMember_def abs_env_simps mem_store_simps by (intro sim_intros)

lemma sim_set_commands [sim_intros]:
  "sim view (handleSAdd E db args) (handleSAdd E' db args)"
  "sim view (handleSRem E db args) (handleSRem E' db args)"
  "sim view (handleSIsMember E db args) (handleSIsMember E' db args)"
  "sim view (handleSMembers E db args) (handleSMembers E' db args)"
  "sim view (handleSCard E db args) (handleSCard E' db args)"
  "sim view (handleSRandMember E pick db args) (handleSRandMember E' pick db args)"
  "sim view (handleSUnion E iter db args) (handleSUnion E' iter db args)"
  "sim view (handleSInter E iter db args) (handleSInter E' iter db args)"
  "sim view (handleSDiff E iter db args) (handleSDiff E' iter db args)"
  "sim view (handleSUnionStore E iter db args) (handleSUnionStore E' iter db args)"
  "sim view (handleSInterStore E iter db args) (handleSInterStore E' iter db args)"
  "sim view (handleSDiffStore E iter db args) (handleSDiffStore E' iter db args)"
  "sim view (handleSMove E db args) (handleSMove E' db args)"
  unfolding handleSAdd_def handleSRem_def handleSIsMember_def handleSMembers_def handleSCard_def
    handleSRandMember_def handleSUnion_def handleSInter_def handleSDiff_def handleSUnionStore_def
    handleSInterStore_def handleSDiffStore_def handleSMove_def Let_def abs_env_simps mem_store_simps
  by (intro sim_intros)+

text \<open>The members SPOP removes are chosen by some fair choice over the abstract table, too.\<close>

lemma sim_SPop:
  assumes "fair_pick pick"
  shows "\<exists>pick'. fair_pick pick' \<and> sim view (handleSPop E pick db args) (handleSPop E' pick' db args)"
proof -
  obtain pick' where "fair_pick pick'" and pop: "implements view
      (st_SPop (e_store E) pick (encodePK (e_cfg E) db (args ! 1))
        (case parseCount False args of Inr (Some n) \<Rightarrow> n | _ \<Rightarrow> 1))
      (sp_SPop pick' (encodePK (e_cfg E) db (args ! 1)) (case parseCount False args of Inr (Some n) \<Rightarrow> n | _ \<Rightarrow> 1))"
    using SPop [OF assms] by blast
  moreover have "sim view (handleSPop E pick db args) (handleSPop E' pick' db args)"
  proof (cases "parseCount False args")
    case (Inr c)
    then show ?thesis
      using pop unfolding handleSPop_def Let_def abs_env_simps mem_store_simps
      by (cases c) (auto intro!: sim_intros)
  qed (simp add: handleSPop_def Let_def sim_ret)
  ultimately show ?thesis by blast
qed

end

end
