(* ===== verification/SetSpec.thy ===== *)
theory SetSpec
  imports Sets "HOL-Library.Multiset"
begin

text \<open>
  Refinement of the Set commands: over every store that keeps the contract, each of them is one
  operation of a finite set (\<open>set_spec\<close>), whatever order the backend lists the members in and
  whichever members a random choice picks; set algebra and SMOVE combine several of them.
\<close>

section \<open>The abstract set\<close>

datatype set_cmd =
    SAdd "bytes list" | SRem "bytes list" | SIsMember bytes | SMembers | SCard | SPop "int option"
  | SRandMember "int option"

fun set_args :: "bytes \<Rightarrow> set_cmd \<Rightarrow> bytes list" where
  "set_args key (SAdd ms) = [''SADD'', key] @ ms"
| "set_args key (SRem ms) = [''SREM'', key] @ ms"
| "set_args key (SIsMember m) = [''SISMEMBER'', key, m]"
| "set_args key SMembers = [''SMEMBERS'', key]"
| "set_args key SCard = [''SCARD'', key]"
| "set_args key (SPop None) = [''SPOP'', key]"
| "set_args key (SPop (Some n)) = [''SPOP'', key, fmt_int n]"
| "set_args key (SRandMember None) = [''SRANDMEMBER'', key]"
| "set_args key (SRandMember (Some n)) = [''SRANDMEMBER'', key, fmt_int n]"

fun set_handler :: "'s env \<Rightarrow> pick \<Rightarrow> int \<Rightarrow> bytes \<Rightarrow> set_cmd \<Rightarrow> 's handler" where
  "set_handler E pick db key (SAdd ms) = handleSAdd E db (set_args key (SAdd ms))"
| "set_handler E pick db key (SRem ms) = handleSRem E db (set_args key (SRem ms))"
| "set_handler E pick db key (SIsMember m) = handleSIsMember E db (set_args key (SIsMember m))"
| "set_handler E pick db key SMembers = handleSMembers E db (set_args key SMembers)"
| "set_handler E pick db key SCard = handleSCard E db (set_args key SCard)"
| "set_handler E pick db key (SPop c) = handleSPop E pick db (set_args key (SPop c))"
| "set_handler E pick db key (SRandMember c) = handleSRandMember E pick db (set_args key (SRandMember c))"

text \<open>
  What each command may reply, and leaves, of a set; an absent key is the empty set. SPOP and
  SRANDMEMBER take any members, as many as asked for or as there are.
\<close>

fun set_spec :: "set_cmd \<Rightarrow> bytes set \<Rightarrow> reply \<Rightarrow> bytes set \<Rightarrow> bool" where
  "set_spec (SAdd ms) S r S' \<longleftrightarrow> S' = S \<union> set ms \<and> r = IntReply (int (card (set ms - S)))"
| "set_spec (SRem ms) S r S' \<longleftrightarrow> S' = S - set ms \<and> r = IntReply (int (card (S \<inter> set ms)))"
| "set_spec (SIsMember m) S r S' \<longleftrightarrow> S' = S \<and> r = IntReply (if m \<in> S then 1 else 0)"
| "set_spec SMembers S r S' \<longleftrightarrow> S' = S \<and>
     (if S = {} then r = EmptyArray else \<exists>xs. distinct xs \<and> set xs = S \<and> r = BulkArray (Some xs))"
| "set_spec SCard S r S' \<longleftrightarrow> S' = S \<and> r = IntReply (int (card S))"
| "set_spec (SPop c) S r S' \<longleftrightarrow>
     (if S = {} then S' = {} \<and> r = absentReply c
      else \<exists>xs. distinct xs \<and> set xs \<subseteq> S \<and> S' = S - set xs \<and> r = countReply c xs \<and>
             length xs = (case c of None \<Rightarrow> 1 | Some n \<Rightarrow> min (nat n) (card S)))"
| "set_spec (SRandMember c) S r S' \<longleftrightarrow> S' = S \<and>
     (if S = {} then r = absentReply c
      else \<exists>xs. set xs \<subseteq> S \<and> r = countReply c xs \<and>
             (case c of
                None \<Rightarrow> length xs = 1
              | Some n \<Rightarrow> if n \<ge> 0 then distinct xs \<and> length xs = min (nat n) (card S)
                           else length xs = min (nat (- n)) maxSRandRepeats))"

definition set_cmd_ok :: "bytes \<Rightarrow> set_cmd \<Rightarrow> bool" where
  "set_cmd_ok key c \<longleftrightarrow>
     (case c of
        SAdd ms \<Rightarrow> ms \<noteq> [] \<and> write_fits key ms []
      | SPop (Some n) \<Rightarrow> 0 \<le> n \<and> i64 n
      | SRandMember (Some n) \<Rightarrow> i64 n
      | _ \<Rightarrow> True)"

text \<open>The key holds the set \<open>S\<close>: its counter is the cardinality and it exists iff \<open>S\<close> is not empty.\<close>

definition set_ok :: "bytes list \<Rightarrow> bool" where
  "set_ok xs \<longleftrightarrow> distinct xs \<and> list_all memberStorable xs"

definition set_holds :: "tbl \<Rightarrow> bytes \<Rightarrow> bytes set \<Rightarrow> bool" where
  "set_holds t pk S \<longleftrightarrow> (\<exists>xs. coll_holds TypeSet t_set t pk xs \<and> set_ok xs \<and> set xs = S)"

section \<open>Member lists as sets\<close>

lemma set_sadd_all [simp]: "set (sadd_all ms xs) = set xs \<union> set ms"
  by (auto simp: sadd_all_def)

lemma distinct_sadd_all [simp]: "distinct xs \<Longrightarrow> distinct (sadd_all ms xs)"
  by (auto simp: sadd_all_def)

lemma length_sadd_all:
  assumes "distinct xs"
  shows "int (length (sadd_all ms xs)) - int (length xs) = int (card (set ms - set xs))"
proof -
  have "length (filter (\<lambda>x. x \<notin> set xs) (remdups ms)) = card (set ms - set xs)"
    by (subst distinct_card [symmetric]) (auto intro: arg_cong [where f = card])
  then show ?thesis by (simp add: sadd_all_def)
qed

lemma length_removed:
  assumes "distinct xs"
  shows "int (length xs) - int (length (filter (\<lambda>x. x \<notin> A) xs)) = int (card (set xs \<inter> A))"
proof -
  have "length (filter (\<lambda>x. x \<in> A) xs) = card (set xs \<inter> A)"
    using assms by (subst distinct_card [symmetric]) (auto intro: arg_cong [where f = card])
  then show ?thesis
    using sum_length_filter_compl [of "\<lambda>x. x \<in> A" xs] by simp
qed

lemma set_ok_sadd_all: "set_ok xs \<Longrightarrow> list_all memberStorable ms \<Longrightarrow> set_ok (sadd_all ms xs)"
  by (auto simp: set_ok_def list_all_iff)

lemma set_ok_filter: "set_ok xs \<Longrightarrow> set_ok (filter P xs)"
  by (auto simp: set_ok_def list_all_iff)

section \<open>Each command, over the abstract table\<close>

abbreviation set_run :: "tbl \<Rightarrow> bytes \<Rightarrow> set_cmd \<Rightarrow> bytes list \<Rightarrow> reply \<times> tbl world \<Rightarrow> bool" where
  "set_run t pk c xs run \<equiv> spec_run TypeSet t_set set_ok set (set_spec c (set xs)) t pk run"

lemmas set_run_def = spec_run_def [where ty = TypeSet and get = t_set and ok = set_ok and \<alpha> = set]
lemmas withKey_set = set_coll.withKey_spec [where ok = set_ok and \<alpha> = set]
lemmas read_set = set_coll.read_spec [where ok = set_ok and \<alpha> = set]

lemma set_runI:
  "coll_run TypeSet t_set t pk (r, ys) run \<Longrightarrow> set_ok ys \<Longrightarrow> set_spec c (set xs) r (set ys) \<Longrightarrow> set_run t pk c xs run"
  by (rule spec_runI)

lemma coll_at_set_set: "coll_at TypeSet t_set t pk m xs \<Longrightarrow> coll_at TypeSet t_set (set_set pk ys t) pk m ys"
  by (simp add: coll_at_def)

lemma same_except_set_set: "same_except {pk} t (set_set pk xs t)"
  by (simp add: same_except_def)

lemma reads_set:
  assumes holds: "coll_holds TypeSet t_set (backend w) (encodePK cfg db key) xs" and ok: "set_ok xs"
    and cap: "MaxCollectionResult cfg \<le> 0"
  shows "set_run (backend w) (encodePK cfg db key) (SIsMember x) xs (handleSIsMember (mem_env q cfg) db [n, key, x] w)"
    and "set_run (backend w) (encodePK cfg db key) SMembers xs (handleSMembers (mem_env q cfg) db [n, key] w)"
    and "set_run (backend w) (encodePK cfg db key) SCard xs (handleSCard (mem_env q cfg) db [n, key] w)"
proof -
  have d: "distinct xs" and unstorable: "\<not> memberStorable x \<Longrightarrow> x \<notin> set xs" for x
    using ok by (auto simp: set_ok_def list_all_iff)
  note run = attempt_def call_mem ret_def resultCapExceeded_def sp_SIsMember_def sp_SMembers_def
  note defs = handleSIsMember_def handleSMembers_def handleSCard_def withAll_def Let_def mem_env_simps mem_store_simps
    nth_Cons_0 nth_Cons_Suc One_nat_def numeral_2_eq_2
  let ?pk = "encodePK cfg db key" and ?E = "mem_env q cfg"
  show "set_run (backend w) ?pk (SIsMember x) xs (handleSIsMember ?E db [n, key, x] w)"
    unfolding defs
    by (rule read_set [OF holds ok, where ?r0.0 = "IntReply 0" and r = "IntReply (if x \<in> set xs then 1 else 0)"])
      (simp_all add: run unstorable)
  show "set_run (backend w) ?pk SMembers xs (handleSMembers ?E db [n, key] w)"
    unfolding defs
    by (rule read_set [OF holds ok, where ?r0.0 = EmptyArray and r = "BulkArray (Some xs)"])
      (use d cap in \<open>auto simp: run\<close>)
  show "set_run (backend w) ?pk SCard xs (handleSCard ?E db [n, key] w)"
    unfolding defs
    by (rule read_set [OF holds ok, where ?r0.0 = "IntReply 0" and r = "IntReply (int (length xs))"])
      (use d in \<open>simp_all add: run distinct_card\<close>)
qed

lemma ensureSetWritable_mem:
  assumes "coll_holds TypeSet t_set (backend w) pk xs" and "write_fits key ms []"
  obtains w1 m where "\<And>k. ensureSetWritable (mem_env q cfg) pk key ms k w = k w1"
    "coll_at TypeSet t_set (backend w1) pk m xs" "m_count m = int (length xs)" "same_except {pk} (backend w) (backend w1)"
proof -
  obtain w1 m where "ensureTypeExpiring (mem_env q cfg) pk TypeSet w = (Inr (), w1)"
    "coll_at TypeSet t_set (backend w1) pk m xs" "m_count m = int (length xs)" "same_except {pk} (backend w) (backend w1)"
    by (rule set_coll.ensure_coll [OF assms(1)])
  then show thesis
    using assms(2) by (intro that) (simp_all add: ensureSetWritable_def attempt_def CheckWrite_run)
qed

text \<open>Adding members and counting the new ones, the step SADD, SMOVE and the STORE commands share.\<close>

lemma sadd_step:
  assumes at: "coll_at TypeSet t_set (backend w) pk m xs" and count: "m_count m = int (length xs)"
    and d: "distinct xs" and ne: "ms \<noteq> []"
  shows "coll_run TypeSet t_set (backend w) pk (r (int (card (set ms - set xs))), sadd_all ms xs)
      (attempt (call (sp_SAdd pk ms)) (\<lambda>added.
       attempt (adjustCount (mem_env q cfg) pk TypeSet added) (\<lambda>_. ret (r added))) w)"
proof (rule set_coll.change_coll [OF at count, where d = "\<lambda>a. a"])
  show "call (sp_SAdd pk ms) w = (Inr (int (card (set ms - set xs))), on_tbl (set_set pk (sadd_all ms xs)) w)"
    using at length_sadd_all [OF d, of ms] by (simp add: call_mem sp_SAdd_def Let_def coll_at_def on_tbl_def)
  have "set (sadd_all ms xs) \<noteq> {}" using ne by simp
  then show "sadd_all ms xs = [] \<Longrightarrow> int (card (set ms - set xs)) < 0" by simp
qed (use at length_sadd_all [OF d, of ms] in \<open>simp_all add: coll_at_set_set same_except_set_set\<close>)

text \<open>Removing members and counting them.\<close>

lemma srem_step:
  assumes at: "coll_at TypeSet t_set (backend w) pk m xs" and count: "m_count m = int (length xs)" and "xs \<noteq> []"
    and step: "call f w = (Inr a, on_tbl (set_set pk (filter (\<lambda>x. x \<notin> A) xs)) w)"
    and d: "d a = - int (card (set xs \<inter> A))" and "distinct xs"
  shows "coll_run TypeSet t_set (backend w) pk (r a, filter (\<lambda>x. x \<notin> A) xs)
      (attempt (call f) (\<lambda>a. attempt (adjustCount (mem_env q cfg) pk TypeSet (d a)) (\<lambda>_. ret (r a))) w)"
proof (rule set_coll.change_coll [OF at count step])
  note len = length_removed [OF assms(6), of A]
  show "d a = int (length (filter (\<lambda>x. x \<notin> A) xs)) - int (length xs)" using d len by linarith
  have "length xs > 0" using assms(3) by simp
  then show "d a < 0" if "filter (\<lambda>x. x \<notin> A) xs = []"
    using d len [unfolded that list.size(3)] by linarith
qed (use at in \<open>simp_all add: coll_at_set_set same_except_set_set\<close>)

lemma sadd_set:
  assumes holds: "coll_holds TypeSet t_set (backend w) (encodePK cfg db key) xs" and ok: "set_ok xs"
    and "ms \<noteq> []" and fits: "write_fits key ms []"
  shows "set_run (backend w) (encodePK cfg db key) (SAdd ms) xs (handleSAdd (mem_env q cfg) db ([n, key] @ ms) w)"
proof -
  let ?pk = "encodePK cfg db key"
  obtain w1 m where w1: "\<And>k. ensureSetWritable (mem_env q cfg) ?pk key ms k w = k w1"
    "coll_at TypeSet t_set (backend w1) ?pk m xs" "m_count m = int (length xs)" "same_except {?pk} (backend w) (backend w1)"
    by (rule ensureSetWritable_mem [OF holds fits]) blast
  have "coll_run TypeSet t_set (backend w) ?pk (IntReply (int (card (set ms - set xs))), sadd_all ms xs)
      (handleSAdd (mem_env q cfg) db ([n, key] @ ms) w)"
    using coll_run_trans [OF w1(4) sadd_step [OF w1(2,3) _ assms(3), where r = IntReply]] ok
    by (simp add: handleSAdd_def Let_def w1(1) set_ok_def)
  moreover have "set_ok (sadd_all ms xs)"
    using set_ok_sadd_all [OF ok] memberStorable_fits [OF fits] by simp
  ultimately show ?thesis by (rule set_runI) simp
qed

lemma srem_set:
  assumes holds: "coll_holds TypeSet t_set (backend w) (encodePK cfg db key) xs" and ok: "set_ok xs"
  shows "set_run (backend w) (encodePK cfg db key) (SRem ms) xs (handleSRem (mem_env q cfg) db ([n, key] @ ms) w)"
proof -
  let ?pk = "encodePK cfg db key" and ?E = "mem_env q cfg" and ?ms = "filter memberStorable ms"
  let ?ys = "filter (\<lambda>x. x \<notin> set ?ms) xs" and ?r = "int (card (set xs \<inter> set ms))"
  have d: "distinct xs" and same: "set xs \<inter> set ?ms = set xs \<inter> set ms" "set ?ys = set xs - set ms"
    using ok by (auto simp: set_ok_def list_all_iff)
  have "handleSRem ?E db ([n, key] @ ms) = withKey ?E ?pk TypeSet (ret (IntReply 0)) (\<lambda>_.
      attempt (call (sp_SRem ?pk ?ms)) (\<lambda>removed. attempt (adjustCount ?E ?pk TypeSet (- removed)) (\<lambda>_. ret (IntReply removed))))"
    by (simp add: handleSRem_def Let_def)
  then show ?thesis
  proof (simp only:, intro withKey_set [OF holds ok, where r = "IntReply 0"])
    fix m assume at: "coll_at TypeSet t_set (backend w) ?pk m xs" "m_count m = int (length xs)" "xs \<noteq> []"
    have "call (sp_SRem ?pk ?ms) w = (Inr ?r, on_tbl (set_set ?pk ?ys) w)"
      using at(1) length_removed [OF d, of "set ?ms"]
      by (simp add: call_mem sp_SRem_def Let_def coll_at_def on_tbl_def same del: set_filter)
    from srem_step [OF at this, where d = uminus and r = IntReply] d same
    have "coll_run TypeSet t_set (backend w) ?pk (IntReply ?r, ?ys)
      (attempt (call (sp_SRem ?pk ?ms)) (\<lambda>removed. attempt (adjustCount ?E ?pk TypeSet (- removed)) (\<lambda>_. ret (IntReply removed))) w)"
      by (simp del: set_filter)
    then show "set_run (backend w) ?pk (SRem ms) xs
      (attempt (call (sp_SRem ?pk ?ms)) (\<lambda>removed. attempt (adjustCount ?E ?pk TypeSet (- removed)) (\<lambda>_. ret (IntReply removed))) w)"
      by (rule set_runI [OF _ set_ok_filter [OF ok]]) (simp add: same del: set_filter)
  qed (simp_all add: ret_def)
qed

lemma parseCount_args:
  "parseCount b [n, key] = Inr None"
  "i64 k \<Longrightarrow> 0 \<le> k \<or> b \<Longrightarrow> parseCount b [n, key, fmt_int k] = Inr (Some k)"
  by (auto simp: parseCount_def ParseInt_fmt)

abbreviation asked :: "int option \<Rightarrow> int" where
  "asked c \<equiv> (case c of None \<Rightarrow> 1 | Some n \<Rightarrow> n)"

lemma spop_set:
  assumes holds: "coll_holds TypeSet t_set (backend w) (encodePK cfg db key) xs" and ok: "set_ok xs"
    and fair: "fair_pick pick" and c: "set_cmd_ok key (SPop c)"
  shows "set_run (backend w) (encodePK cfg db key) (SPop c) xs
    (handleSPop (mem_env q cfg) pick db (set_args key (SPop c)) w)"
proof -
  let ?pk = "encodePK cfg db key" and ?E = "mem_env q cfg"
  have d: "distinct xs" using ok by (simp add: set_ok_def)
  have n: "asked c \<ge> 0" using c by (auto simp: set_cmd_ok_def split: option.splits)
  have "handleSPop ?E pick db (set_args key (SPop c)) = withKey ?E ?pk TypeSet (ret (absentReply c)) (\<lambda>_.
      attempt (call (sp_SPop pick ?pk (asked c))) (\<lambda>removed.
      attempt (adjustCount ?E ?pk TypeSet (- int (length removed))) (\<lambda>_. ret (countReply c removed))))"
    using c by (cases c) (simp_all add: handleSPop_def Let_def set_cmd_ok_def parseCount_args)
  then show ?thesis
  proof (simp only:, intro withKey_set [OF holds ok, where r = "absentReply c"])
    fix m assume at: "coll_at TypeSet t_set (backend w) ?pk m xs" "m_count m = int (length xs)" "xs \<noteq> []"
    define ys where "ys = (if asked c \<le> 0 then [] else pick (asked c) xs)"
    have ys: "distinct ys" "set ys \<subseteq> set xs" "length ys = min (nat (asked c)) (length xs)"
      using fair_pickD [OF fair d, of "asked c"] n by (auto simp: ys_def)
    have "call (sp_SPop pick ?pk (asked c)) w = (Inr ys, on_tbl (set_set ?pk (filter (\<lambda>x. x \<notin> set ys) xs)) w)"
      using at(1) set_set_id [of "backend w" ?pk] by (auto simp: call_mem sp_SPop_def Let_def coll_at_def on_tbl_def ys_def)
    moreover have "- int (length ys) = - int (card (set xs \<inter> set ys))"
      using ys(1,2) by (simp add: distinct_card inf_absorb2)
    ultimately have "coll_run TypeSet t_set (backend w) ?pk (countReply c ys, filter (\<lambda>x. x \<notin> set ys) xs)
      (attempt (call (sp_SPop pick ?pk (asked c))) (\<lambda>removed.
      attempt (adjustCount ?E ?pk TypeSet (- int (length removed))) (\<lambda>_. ret (countReply c removed))) w)"
      by (intro srem_step [OF at(1,2,3), where d = "\<lambda>removed. - int (length removed)"]) (use d in auto)
    then show "set_run (backend w) ?pk (SPop c) xs
      (attempt (call (sp_SPop pick ?pk (asked c))) (\<lambda>removed.
      attempt (adjustCount ?E ?pk TypeSet (- int (length removed))) (\<lambda>_. ret (countReply c removed))) w)"
    proof (rule set_runI [OF _ set_ok_filter [OF ok]])
      have "length xs \<ge> 1" using at(3) by (cases xs) auto
      then have "length ys = (case c of None \<Rightarrow> 1 | Some n \<Rightarrow> min (nat n) (card (set xs)))"
        using ys(3) d by (auto simp: distinct_card split: option.split)
      then show "set_spec (SPop c) (set xs) (countReply c ys) (set (filter (\<lambda>x. x \<notin> set ys) xs))"
        using ys at(3) by auto
    qed
  qed (simp_all add: ret_def)
qed

lemma srandmember_set:
  assumes holds: "coll_holds TypeSet t_set (backend w) (encodePK cfg db key) xs" and ok: "set_ok xs"
    and fair: "fair_pick pick" and c: "set_cmd_ok key (SRandMember c)"
  shows "set_run (backend w) (encodePK cfg db key) (SRandMember c) xs
    (handleSRandMember (mem_env q cfg) pick db (set_args key (SRandMember c)) w)"
proof -
  let ?pk = "encodePK cfg db key" and ?E = "mem_env q cfg"
  have d: "distinct xs" using ok by (simp add: set_ok_def)
  have run: "handleSRandMember ?E pick db (set_args key (SRandMember c)) = withKey ?E ?pk TypeSet (ret (absentReply c)) (\<lambda>_.
      attempt (call (sp_SRandMember pick ?pk (asked c))) (\<lambda>ms. ret (countReply c ms)))"
    using c by (cases c) (simp_all add: handleSRandMember_def Let_def set_cmd_ok_def parseCount_args)
  note pick = fair_pickD [OF fair d, of "asked c"]
  have "set_spec (SRandMember c) (set xs) (countReply c (pick (asked c) xs)) (set xs)" if "xs \<noteq> []"
  proof -
    have "length xs \<ge> 1" using that by (cases xs) auto
    then show ?thesis
      using pick that d by (auto simp: distinct_card split: option.splits)
  qed
  then show ?thesis
    unfolding run
    by (intro read_set [OF holds ok, where ?r0.0 = "absentReply c" and r = "countReply c (if xs = [] then [] else pick (asked c) xs)"])
      (simp_all add: attempt_def call_mem sp_SRandMember_def ret_def)
qed

text \<open>
  C10: the Set commands refine an ordinary finite set. If a key holds the set \<open>S\<close> (absent: the empty set),
  each command replies what the set operation allows, the key then holds the resulting set, with its
  counter equal to the cardinality and the key existing iff it is not empty, and no other key
  changes. SPOP removes exactly the members it replies, distinct members of the set, as many as asked
  for or as there are, however the random choice falls.
\<close>

theorem set_commands_refine:
  assumes "conforming_env E view" and "t = view (backend w)" and "pk = encodePK (e_cfg E) db key"
    and "set_cmd_ok key c" and "MaxCollectionResult (e_cfg E) \<le> 0" and "fair_pick pick"
    and "run = set_handler E pick db key c w" and "t' = view (backend (snd run))"
    and "set_holds t pk S"
  shows "\<exists>S'. set_spec c S (fst run) S' \<and> set_holds t' pk S' \<and> same_except {pk} t t'"
proof -
  let ?E = "mem_env (e_enq E) (e_cfg E)" and ?W = "wview view w"
  have W: "backend ?W = t" using assms(2) by simp
  obtain xs where xs: "coll_holds TypeSet t_set (backend ?W) (encodePK (e_cfg E) db key) xs" "set_ok xs" "set xs = S"
    using assms(3,9) W by (auto simp: set_holds_def)
  note sims = conforming_env.sim_set_commands [OF assms(1), unfolded abs_env_mem_env]
  obtain pick' where fair: "fair_pick pick'" and sim: "sim view (set_handler E pick db key c) (set_handler ?E pick' db key c)"
  proof (cases "\<exists>n. c = SPop n")
    case True
    then show ?thesis
      using conforming_env.sim_SPop [OF assms(1,6), unfolded abs_env_mem_env, of db "set_args key c"] that by auto
  next
    case False
    have "sim view (set_handler E pick db key c) (set_handler ?E pick db key c)"
      using False by (cases c) (simp_all add: sims)
    then show ?thesis using that assms(6) by blast
  qed
  have "set_run (backend ?W) (encodePK (e_cfg E) db key) c xs (set_handler ?E pick' db key c ?W)"
    using assms(4) sadd_set [OF xs(1,2)] srem_set [OF xs(1,2)] spop_set [OF xs(1,2) fair] srandmember_set [OF xs(1,2) fair]
      reads_set [OF xs(1,2) assms(5)]
    by (cases c) (simp_all add: set_cmd_ok_def del: set_spec.simps)
  then obtain r xs' where "coll_run TypeSet t_set t pk (r, xs') (set_handler ?E pick' db key c ?W)" "set_ok xs'"
    "set_spec c S r (set xs')"
    using W xs(3) assms(3) by (auto simp: set_run_def)
  then show ?thesis
    using sim_fst [OF sim] sim_backend [OF sim] assms(7,8)
    by (auto simp: coll_run_def set_holds_def simp del: wview_simps set_spec.simps)
qed

text \<open>A set key over the in-memory store.\<close>

definition set_tbl :: tbl where
  "set_tbl = set_set ''s'' [''a'', ''b'', ''c''] (set_meta ''s'' (Some \<lparr>m_type = TypeSet, m_exp = 0, m_count = 3\<rparr>)
     (set_set ''u'' [''b''] (set_meta ''u'' (Some \<lparr>m_type = TypeSet, m_exp = 0, m_count = 1\<rparr>) (empty_tbl 100))))"

lemma set_tbl_holds: "set_holds set_tbl ''s'' {''a'', ''b'', ''c''}" "set_holds set_tbl ''u'' {''b''}" "set_holds set_tbl ''v'' {}"
proof -
  have ok: "set_ok [''a'', ''b'', ''c'']" "set_ok [''b'']" "set_ok []"
    by (simp_all add: set_ok_def memberStorable_def maxStorableMemberLen_def MaxMemberNameSize_def MaxNameSize_def)
  have holds: "coll_holds TypeSet t_set set_tbl ''s'' [''a'', ''b'', ''c'']" "coll_holds TypeSet t_set set_tbl ''u'' [''b'']"
    "coll_holds TypeSet t_set set_tbl ''v'' []"
    by (simp_all add: coll_holds_def set_tbl_def live_meta_def IsExpired_def empty_tbl_def)
  show "set_holds set_tbl ''s'' {''a'', ''b'', ''c''}" "set_holds set_tbl ''u'' {''b''}" "set_holds set_tbl ''v'' {}"
    unfolding set_holds_def using ok holds by fastforce+
qed

theorem set_commands_refine_witness:
  "\<exists>xs. length xs = 2 \<and> distinct xs \<and> set xs \<subseteq> {''a'', ''b'', ''c''} \<and>
    fst (set_handler (mem_env SyncDeleter cfg0) first_pick 0 ''s'' (SPop (Some 2)) (mem_world set_tbl)) = BulkArray (Some xs) \<and>
    set_holds (backend (snd (set_handler (mem_env SyncDeleter cfg0) first_pick 0 ''s'' (SPop (Some 2)) (mem_world set_tbl))))
      ''s'' ({''a'', ''b'', ''c''} - set xs)"
proof -
  obtain S' where
    "set_spec (SPop (Some 2)) {''a'', ''b'', ''c''}
       (fst (set_handler (mem_env SyncDeleter cfg0) first_pick 0 ''s'' (SPop (Some 2)) (mem_world set_tbl))) S'"
    "set_holds (backend (snd (set_handler (mem_env SyncDeleter cfg0) first_pick 0 ''s'' (SPop (Some 2)) (mem_world set_tbl)))) ''s'' S'"
    using set_commands_refine [OF conforming_mem [of SyncDeleter cfg0] refl refl _ _ fair_first_pick refl refl,
        where w = "mem_world set_tbl" and db = 0 and key = "''s''" and S = "{''a'', ''b'', ''c''}" and c = "SPop (Some 2)"]
      set_tbl_holds
    by (auto simp: encodePK_def set_cmd_ok_def i64_def simp del: set_spec.simps set_handler.simps)
  then show ?thesis
    by (auto simp: countReply_def simp del: set_handler.simps)
qed

section \<open>Set algebra\<close>

definition algebra :: "setOp \<Rightarrow> bytes set list \<Rightarrow> bytes set" where
  "algebra op Ss =
     (case op of opUnion \<Rightarrow> \<Union> (set Ss) | opInter \<Rightarrow> \<Inter> (set Ss) | opDiff \<Rightarrow> hd Ss - \<Union> (set (tl Ss)))"

lemma fold_union: "distinct acc \<Longrightarrow> distinct (fold sadd_all xss acc) \<and> set (fold sadd_all xss acc) = set acc \<union> \<Union> (set (map set xss))"
  by (induction xss arbitrary: acc) auto

lemma fold_filter:
  "distinct acc \<Longrightarrow> distinct (fold (\<lambda>s. filter (\<lambda>m. Q m s)) xss acc) \<and>
    set (fold (\<lambda>s. filter (\<lambda>m. Q m s)) xss acc) = {m \<in> set acc. \<forall>s \<in> set xss. Q m s}"
  by (induction xss arbitrary: acc) auto

lemma set_algebra_spec:
  assumes "xss \<noteq> []"
  shows "distinct (set_algebra op xss)" "set (set_algebra op xss) = algebra op (map set xss)"
proof -
  obtain ys yss where xss: "xss = ys # yss" using assms by (cases xss) auto
  show "distinct (set_algebra op xss)"
    using fold_union [of "[]" xss] fold_filter [of "remdups ys" "\<lambda>m s. m \<in> set s" yss]
      fold_filter [of "remdups ys" "\<lambda>m s. m \<notin> set s" yss]
    by (cases op) (simp_all add: set_algebra_def xss)
  show "set (set_algebra op xss) = algebra op (map set xss)"
    using fold_union [of "[]" xss] fold_filter [of "remdups ys" "\<lambda>m s. m \<in> set s" yss]
      fold_filter [of "remdups ys" "\<lambda>m s. m \<notin> set s" yss]
    by (cases op) (auto simp: set_algebra_def algebra_def xss)
qed

lemma loadSetMembers_mem:
  assumes "coll_holds TypeSet t_set (backend w) pk xs"
  shows "loadSetMembers (mem_env q cfg) pk w = (Inr (Some xs), w)"
  using assms
  by (cases rule: coll_holds_cases)
    (auto simp: loadSetMembers_def bindE_def loadMetaState_mem ret_def call_mem sp_SMembers_def coll_at_def on_tbl_def)

lemma loadSets_mem:
  "list_all2 (\<lambda>pk xs. coll_holds TypeSet t_set (backend w) pk xs) pks xss \<Longrightarrow>
    loadSets (mem_env q cfg) op pks acc w =
      (Inr (if op = opInter \<and> [] \<in> set xss then OpsEmpty else Ops (acc @ xss)), w)"
proof (induction pks arbitrary: acc xss)
  case (Cons pk pks)
  then obtain ys yss where "xss = ys # yss" "coll_holds TypeSet t_set (backend w) pk ys"
    "list_all2 (\<lambda>pk xs. coll_holds TypeSet t_set (backend w) pk xs) pks yss"
    by (auto simp: list_all2_Cons1)
  then show ?case
    using Cons.IH [of yss "acc @ [ys]"]
    by (auto simp: bindE_def loadSetMembers_mem ret_def)
qed (simp add: ret_def)

lemma computeSetAlgebra_mem:
  assumes holds: "list_all2 (\<lambda>pk xs. coll_holds TypeSet t_set (backend w) pk xs) pks xss" and "xss \<noteq> []"
    and iter: "\<And>xs. mset (iter xs) = mset xs"
  obtains res where "computeSetAlgebra (mem_env q cfg) iter op pks w = (Inr (Some res), w)"
    "distinct res" "set res = algebra op (map set xss)"
proof (cases "op = opInter \<and> [] \<in> set xss")
  case True
  then have "algebra op (map set xss) = {}" by (force simp: algebra_def)
  with True show ?thesis
    by (intro that [of "[]"]) (auto simp: computeSetAlgebra_def bindE_def loadSets_mem [OF holds] ret_def)
next
  case False
  let ?res = "iter (set_algebra op xss)"
  have "set ?res = set (set_algebra op xss)" by (metis iter set_mset_mset)
  moreover have "distinct ?res \<longleftrightarrow> distinct (set_algebra op xss)" by (metis iter mset_eq_imp_distinct_iff)
  moreover have "computeSetAlgebra (mem_env q cfg) iter op pks w = (Inr (Some ?res), w)"
    using False assms(2) by (auto simp: computeSetAlgebra_def bindE_def loadSets_mem [OF holds] ret_def)
  ultimately show ?thesis
    using that set_algebra_spec [OF assms(2), of op] by blast
qed

lemma algebra_subset: "Ss \<noteq> [] \<Longrightarrow> algebra op Ss \<subseteq> \<Union> (set Ss)"
  by (cases op; cases Ss) (auto simp: algebra_def)

lemma operand_lists:
  "list_all2 (\<lambda>key S. set_holds t (f key) S) keys Ss \<Longrightarrow>
    \<exists>xss. list_all2 (coll_holds TypeSet t_set t) (map f keys) xss \<and> map set xss = Ss \<and> list_all set_ok xss"
proof (induction rule: list_all2_induct)
  case (Cons key keys S Ss)
  then obtain xs xss where "coll_holds TypeSet t_set t (f key) xs" "set_ok xs" "set xs = S"
    "list_all2 (coll_holds TypeSet t_set t) (map f keys) xss" "map set xss = Ss" "list_all set_ok xss"
    by (auto simp: set_holds_def)
  then show ?case by (intro exI [of _ "xs # xss"]) simp
qed simp

lemma store_mem:
  assumes holds: "list_all2 (\<lambda>key S. set_holds (backend w) (encodePK cfg db key) S) keys Ss" and "keys \<noteq> []"
    and iter: "\<And>xs. mset (iter xs) = mset xs" and name: "\<not> nameTooLarge destKey"
    and run: "run = handleSetAlgebraStore (mem_env q cfg) iter op db (c # destKey # keys) w"
  shows "fst run = IntReply (int (card (algebra op Ss)))"
    and "set_holds (backend (snd run)) (encodePK cfg db destKey) (algebra op Ss)"
    and "same_except {encodePK cfg db destKey} (backend w) (backend (snd run))"
proof -
  let ?pk = "encodePK cfg db destKey" and ?E = "mem_env q cfg" and ?S = "algebra op Ss"
  obtain xss where xss: "list_all2 (coll_holds TypeSet t_set (backend w)) (map (encodePK cfg db) keys) xss"
    "map set xss = Ss" "list_all set_ok xss"
    using operand_lists [OF holds] by blast
  then have ne: "xss \<noteq> []" using assms(2) by auto
  obtain res where res: "computeSetAlgebra ?E iter op (map (encodePK cfg db) keys) w = (Inr (Some res), w)"
    "distinct res" "set res = ?S"
    using computeSetAlgebra_mem [OF xss(1) ne iter] xss(2) by metis
  have "?S \<subseteq> \<Union> (set Ss)" using algebra_subset ne xss(2) by blast
  then have storable: "list_all memberStorable res"
    using xss(2,3) res(3) by (fastforce simp: list_all_iff set_ok_def)
  then have fits: "write_fits destKey res []"
    using name by (auto simp: write_fits_def memberNameTooLarge_def memberStorable_def maxStorableMemberLen_def list_all_iff)
  define w1 where "w1 = snd (Meta_DeleteMeta ?E ?pk w)"
  define w2 where "w2 = on_tbl (clear_members ?pk) w1"
  have w2: "coll_holds TypeSet t_set (backend w2) ?pk []" and same: "same_except {?pk} (backend w) (backend w2)"
    by (auto simp: w2_def w1_def DeleteMeta_mem(2) Let_def coll_holds_def live_meta_def same_except_def)
  have del: "Meta_DeleteMeta ?E ?pk w = (Inr (t_meta (backend w) ?pk \<noteq> None), w1)"
    by (simp add: w1_def prod_eq_iff DeleteMeta_mem(1))
  have clear: "call (sp_DeleteMembers ?pk) w1 = (fst (call (sp_DeleteMembers ?pk) w1), w2)"
    "\<exists>k. fst (call (sp_DeleteMembers ?pk) w1) = Inr k"
    by (auto simp: call_mem sp_DeleteMembers_def w2_def)
  have runs: "run = (if res = [] then (IntReply 0, w2) else
      attempt (ensureTypeExpiring ?E ?pk TypeSet) (\<lambda>_.
        attempt (call (sp_SAdd ?pk res)) (\<lambda>added.
        attempt (adjustCount ?E ?pk TypeSet added) (\<lambda>_. ret (IntReply added)))) w2)"
    using clear fits unfolding run handleSetAlgebraStore_def
    by (auto simp: Let_def attempt_def res(1) CheckWrite_run del ret_def cong: if_cong)
  have "coll_run TypeSet t_set (backend w2) ?pk (IntReply (int (card ?S)), res) run"
  proof (cases "res = []")
    case True
    then have "?S = {}" using res(3) by simp
    with True show ?thesis using runs coll_run_same [OF w2] by simp
  next
    case False
    obtain w3 m where w3: "ensureTypeExpiring ?E ?pk TypeSet w2 = (Inr (), w3)" "coll_at TypeSet t_set (backend w3) ?pk m []"
      "m_count m = int (length ([] :: bytes list))" "same_except {?pk} (backend w2) (backend w3)"
      by (rule set_coll.ensure_coll [OF w2])
    have "sadd_all res [] = res" using res(2) by (simp add: sadd_all_def distinct_remdups_id)
    then show ?thesis
      using coll_run_trans [OF w3(4) sadd_step [OF w3(2,3) _ False, where r = IntReply and q = q and cfg = cfg]] False
      by (simp add: runs attempt_def [of "ensureTypeExpiring ?E ?pk TypeSet"] w3(1) res(3))
  qed
  from coll_run_trans [OF same this] show "fst run = IntReply (int (card ?S))"
    "set_holds (backend (snd run)) ?pk ?S" "same_except {?pk} (backend w) (backend (snd run))"
    using res(2,3) storable by (auto simp: coll_run_def set_holds_def set_ok_def)
qed

text \<open>
  C13: SUNION, SINTER and SDIFF reply exactly the members of the union, intersection or difference of
  their operands (absent keys count as empty), each once, and change nothing; the STORE variants
  leave exactly that set under the destination, whatever it held and even if it is an operand, reply
  its cardinality, remove the destination when the result is empty, and change no other key.
\<close>

theorem set_algebra_commands:
  assumes "conforming_env E view" and "t = view (backend w)"
    and "list_all2 (\<lambda>key S. set_holds t (encodePK (e_cfg E) db key) S) keys Ss" and "keys \<noteq> []"
    and "\<And>xs. mset (iter xs) = mset xs" and "\<not> nameTooLarge destKey"
    and "rd = handleSetAlgebraRead E iter op db keys w"
    and "st = handleSetAlgebraStore E iter op db (c # destKey # keys) w"
    and "t' = view (backend (snd st))" and "destPK = encodePK (e_cfg E) db destKey"
  shows "(\<exists>xs. distinct xs \<and> set xs = algebra op Ss \<and> fst rd = BulkArray (Some xs)) \<and> view (backend (snd rd)) = t \<and>
    fst st = IntReply (int (card (algebra op Ss))) \<and> set_holds t' destPK (algebra op Ss) \<and> same_except {destPK} t t'"
proof -
  let ?E = "mem_env (e_enq E) (e_cfg E)" and ?W = "wview view w"
  have W: "backend ?W = t" using assms(2) by simp
  have holds: "list_all2 (\<lambda>key S. set_holds (backend ?W) (encodePK (e_cfg E) db key) S) keys Ss"
    using assms(3) W by simp
  note sims = conforming_env.sim_setAlgebra(2,3) [OF assms(1), unfolded abs_env_mem_env]
  obtain xss where xss: "list_all2 (coll_holds TypeSet t_set (backend ?W)) (map (encodePK (e_cfg E) db) keys) xss"
    "map set xss = Ss" using operand_lists [OF holds] by blast
  then have "xss \<noteq> []" using assms(4) by auto
  then obtain res where "computeSetAlgebra ?E iter op (map (encodePK (e_cfg E) db) keys) ?W = (Inr (Some res), ?W)"
    "distinct res" "set res = algebra op Ss"
    using computeSetAlgebra_mem [OF xss(1) _ assms(5)] xss(2) by metis
  then have "handleSetAlgebraRead ?E iter op db keys ?W = (BulkArray (Some res), ?W)" "distinct res" "set res = algebra op Ss"
    by (simp_all add: handleSetAlgebraRead_def attempt_def ret_def)
  then have "\<exists>xs. distinct xs \<and> set xs = algebra op Ss \<and> fst rd = BulkArray (Some xs)" "view (backend (snd rd)) = t"
    using sim_fst [OF sims(1)] sim_backend [OF sims(1)] assms(7) W by (auto simp del: wview_simps)
  moreover have "fst st = IntReply (int (card (algebra op Ss)))" "set_holds t' destPK (algebra op Ss)" "same_except {destPK} t t'"
    using store_mem [OF holds assms(4,5,6) refl, of "e_enq E" op c] sim_fst [OF sims(2)] sim_backend [OF sims(2)]
      assms(8-10) W
    by (simp_all del: wview_simps)
  ultimately show ?thesis by simp
qed

theorem set_algebra_commands_witness:
  "set_holds (backend (snd (handleSetAlgebraStore (mem_env SyncDeleter cfg0) rev opDiff 0 [''SDIFFSTORE'', ''s'', ''s'', ''u''] (mem_world set_tbl))))
    ''s'' {''a'', ''c''}"
proof -
  have "set_holds (backend (snd (handleSetAlgebraStore (mem_env SyncDeleter cfg0) rev opDiff 0 (''SDIFFSTORE'' # ''s'' # [''s'', ''u'']) (mem_world set_tbl))))
    ''s'' (algebra opDiff [{''a'', ''b'', ''c''}, {''b''}])"
    using set_algebra_commands [OF conforming_mem [of SyncDeleter cfg0] refl _ _ _ _ refl refl refl refl,
        where w = "mem_world set_tbl" and db = 0 and keys = "[''s'', ''u'']" and Ss = "[{''a'', ''b'', ''c''}, {''b''}]"
          and iter = rev and op = opDiff and c = "''SDIFFSTORE''" and destKey = "''s''"] set_tbl_holds
    by (simp add: encodePK_def nameTooLarge_def MaxNameSize_def)
  moreover have "algebra opDiff [{''a'', ''b'', ''c''}, {''b''}] = {''a'', ''c''}" by (auto simp: algebra_def)
  ultimately show ?thesis by simp
qed

section \<open>SMOVE\<close>

lemma set_holds_frame:
  "set_holds t pk S \<Longrightarrow> same_except pks t t' \<Longrightarrow> pk \<notin> pks \<Longrightarrow> set_holds t' pk S"
  unfolding set_holds_def by (metis (no_types, lifting) coll_holds_frame same_except_def)

lemma smove_mem:
  assumes src: "set_holds (backend w) (encodePK cfg db src) S" and dst: "set_holds (backend w) (encodePK cfg db dst) D"
    and name: "\<not> nameTooLarge dst" and ne: "encodePK cfg db src \<noteq> encodePK cfg db dst"
    and run: "run = handleSMove (mem_env q cfg) db [c, src, dst, x] w"
  shows "x \<notin> S \<Longrightarrow> run = (IntReply 0, w)"
    and "x \<in> S \<Longrightarrow> fst run = IntReply 1 \<and> set_holds (backend (snd run)) (encodePK cfg db src) (S - {x}) \<and>
      set_holds (backend (snd run)) (encodePK cfg db dst) (D \<union> {x}) \<and>
      same_except {encodePK cfg db src, encodePK cfg db dst} (backend w) (backend (snd run))"
proof -
  let ?s = "encodePK cfg db src" and ?d = "encodePK cfg db dst" and ?E = "mem_env q cfg"
  obtain xs where xs: "coll_holds TypeSet t_set (backend w) ?s xs" "set_ok xs" "set xs = S" using src by (auto simp: set_holds_def)
  obtain ys where ys: "coll_holds TypeSet t_set (backend w) ?d ys" "set_ok ys" "set ys = D" using dst by (auto simp: set_holds_def)
  have dstate: "\<exists>k. loadMetaState ?E ?d TypeSet w = (Inr k, w) \<and> k \<noteq> KeyWrong"
    using ys(1) by (cases rule: coll_holds_cases) (auto simp: loadMetaState_mem coll_at_def)
  show "run = (IntReply 0, w)" if "x \<notin> S"
    using xs(1)
  proof (cases rule: coll_holds_cases)
    case (2 m)
    then show ?thesis
      using dstate ne that xs(3)
      by (auto simp: run handleSMove_def Let_def withKey_mem ret_def attempt_def smoveIsMember_def call_mem
          sp_SIsMember_def coll_at_def)
  qed (simp add: run handleSMove_def Let_def withKey_mem ret_def)
  assume x: "x \<in> S"
  have sx: "memberStorable x" using x xs(2,3) by (auto simp: set_ok_def list_all_iff)
  then have fits: "write_fits dst [x] []"
    using name by (simp add: write_fits_def memberNameTooLarge_def memberStorable_def maxStorableMemberLen_def)
  from xs(1) obtain m where m: "coll_at TypeSet t_set (backend w) ?s m xs" "m_count m = int (length xs)" "xs \<noteq> []"
    using x xs(3) by (cases rule: coll_holds_cases) auto
  let ?zs = "filter (\<lambda>y. y \<notin> {x}) xs"
  have "call (sp_SRem ?s [x]) w = (Inr 1, on_tbl (set_set ?s ?zs) w)"
    using m(1) length_removed [of xs "{x}"] x xs
    by (simp add: call_mem sp_SRem_def Let_def coll_at_def on_tbl_def set_ok_def)
  from srem_step [OF m this, where d = uminus and r = IntReply and q = q and cfg = cfg] xs x
  have rem: "coll_run TypeSet t_set (backend w) ?s (IntReply 1, ?zs)
      (attempt (call (sp_SRem ?s [x])) (\<lambda>a. attempt (adjustCount ?E ?s TypeSet (- a)) (\<lambda>_. ret (IntReply a))) w)"
    by (simp add: set_ok_def)
  define w1 where "w1 = snd (adjustCount ?E ?s TypeSet (-1) (on_tbl (set_set ?s ?zs) w))"
  have w1: "adjustCount ?E ?s TypeSet (-1) (on_tbl (set_set ?s ?zs) w) = (Inr (), w1)"
    "coll_holds TypeSet t_set (backend w1) ?s ?zs" "same_except {?s} (backend w) (backend w1)"
    using rem m(1) \<open>call (sp_SRem ?s [x]) w = _\<close>
    by (auto simp: coll_run_def attempt_def ret_def w1_def coll_at_def adjustCount_mem split: sum.splits)
  have ys1: "coll_holds TypeSet t_set (backend w1) ?d ys"
    using coll_holds_frame [OF ys(1) w1(3)] w1(3) ne by (simp add: same_except_def)
  obtain w2 m2 where w2: "ensureTypeExpiring ?E ?d TypeSet w1 = (Inr (), w2)" "coll_at TypeSet t_set (backend w2) ?d m2 ys"
    "m_count m2 = int (length ys)" "same_except {?d} (backend w1) (backend w2)"
    by (rule set_coll.ensure_coll [OF ys1])
  have runs: "run = attempt (call (sp_SAdd ?d [x])) (\<lambda>added.
      attempt (adjustCount ?E ?d TypeSet added) (\<lambda>_. ret (IntReply 1))) w2"
    using dstate ne x xs(3) m \<open>call (sp_SRem ?s [x]) w = _\<close> sx fits w1(1) w2(1)
    by (auto simp: run handleSMove_def Let_def withKey_mem attempt_def smoveIsMember_def CheckWrite_run
        coll_at_def live_meta_def call_mem [of "sp_SIsMember _ _"] sp_SIsMember_def)
  have add: "coll_run TypeSet t_set (backend w1) ?d (IntReply 1, sadd_all [x] ys) run"
    using coll_run_trans [OF w2(4) sadd_step [OF w2(2,3), where r = "\<lambda>_. IntReply 1" and q = q and cfg = cfg]] ys(2)
    by (simp add: runs set_ok_def)
  have "coll_holds TypeSet t_set (backend (snd run)) ?s ?zs"
    using coll_holds_frame [OF w1(2), of "{?d}" "backend (snd run)"] add ne by (simp add: coll_run_def same_except_def)
  moreover have "set_ok ?zs" "set ?zs = S - {x}" "set_ok (sadd_all [x] ys)" "set (sadd_all [x] ys) = D \<union> {x}"
    using set_ok_filter [OF xs(2)] set_ok_sadd_all [OF ys(2)] sx xs(3) ys(3) by auto
  moreover have "same_except {?s, ?d} (backend w) (backend (snd run))"
    using same_except_trans [OF w1(3), of "{?d}"] add by (auto simp: coll_run_def)
  ultimately show "fst run = IntReply 1 \<and> set_holds (backend (snd run)) ?s (S - {x}) \<and>
      set_holds (backend (snd run)) ?d (D \<union> {x}) \<and> same_except {?s, ?d} (backend w) (backend (snd run))"
    using add unfolding set_holds_def coll_run_def by auto
qed

text \<open>
  C14: SMOVE moves its member from the source set to the destination set, in one step for both
  cardinalities (a source left empty stops existing, an absent destination is created), and replies
  1; without the member it replies 0 and changes nothing.
\<close>

theorem smove_moves:
  assumes "conforming_env E view" and "t = view (backend w)"
    and "srcPK = encodePK (e_cfg E) db src" and "dstPK = encodePK (e_cfg E) db dst" and "srcPK \<noteq> dstPK"
    and "set_holds t srcPK S" and "set_holds t dstPK D" and "\<not> nameTooLarge dst"
    and "run = handleSMove E db [c, src, dst, x] w" and "t' = view (backend (snd run))"
  shows "if x \<in> S then fst run = IntReply 1 \<and> set_holds t' srcPK (S - {x}) \<and> set_holds t' dstPK (D \<union> {x}) \<and>
      same_except {srcPK, dstPK} t t'
    else fst run = IntReply 0 \<and> t' = t"
proof -
  note sim = conforming_env.sim_set_commands(13) [OF assms(1), unfolded abs_env_mem_env]
  have W: "backend (wview view w) = t" using assms(2) by simp
  have "set_holds (backend (wview view w)) (encodePK (e_cfg E) db src) S"
    "set_holds (backend (wview view w)) (encodePK (e_cfg E) db dst) D"
    using assms(3,4,6,7) W by simp_all
  note mem = smove_mem [OF this assms(8) _ refl, where q = "e_enq E" and c = c and x = x]
  show ?thesis
    using mem assms(3-5,9,10) sim_fst [OF sim] sim_backend [OF sim] W by (auto simp del: wview_simps)
qed

theorem smove_moves_witness:
  "set_holds (backend (snd (handleSMove (mem_env SyncDeleter cfg0) 0 [''SMOVE'', ''u'', ''v'', ''b''] (mem_world set_tbl)))) ''v'' {''b''}"
  using smove_moves [OF conforming_mem [of SyncDeleter cfg0] refl refl refl _ _ _ _ refl refl,
      where w = "mem_world set_tbl" and db = 0 and src = "''u''" and dst = "''v''" and S = "{''b''}" and D = "{}"
        and c = "''SMOVE''" and x = "''b''"] set_tbl_holds
  by (simp add: encodePK_def nameTooLarge_def MaxNameSize_def)

end
