(* ===== verification/ZSets.thy ===== *)
theory ZSets
  imports Sets
begin

text \<open>
  The Sorted Set commands (\<^verbatim>\<open>internal/command/zsets.go\<close>, \<^verbatim>\<open>zsets_add.go\<close>, \<^verbatim>\<open>zsets_score.go\<close>,
  \<^verbatim>\<open>zsets_rank.go\<close>, \<^verbatim>\<open>zsets_remove.go\<close>, \<^verbatim>\<open>zsets_lex.go\<close>, \<^verbatim>\<open>zsets_store.go\<close>). A Go map from members to scores is
  an association list; \<open>iter\<close> is the order Go iterates it in. ZSCAN is in theory \<open>Scans\<close>.
\<close>

section \<open>Errors\<close>

definition errNotValidFloat :: bytes where
  "errNotValidFloat = ''ERR value is not a valid float''"

definition errZaddNxXx :: bytes where
  "errZaddNxXx = ''ERR XX and NX options at the same time are not compatible''"

definition errZaddIncr :: bytes where
  "errZaddIncr = ''ERR INCR option supports a single increment-element pair''"

definition errMinOrMaxNotFloat :: bytes where
  "errMinOrMaxNotFloat = ''ERR min or max is not a float''"

definition errScoreNotFinite :: bytes where
  "errScoreNotFinite = ''ERR score must be a finite number''"

definition errScoreOutOfRange :: bytes where
  "errScoreOutOfRange = ''ERR value is out of range''"

definition errNotValidStringRange :: bytes where
  "errNotValidStringRange = ''ERR min or max not valid string range item''"

definition errAtLeastOneKey :: bytes where
  "errAtLeastOneKey = ''ERR at least 1 input key is needed for ZUNIONSTORE/ZINTERSTORE''"

definition errZWeightNotFloat :: bytes where
  "errZWeightNotFloat = ''ERR weight value is not a float''"

section \<open>Scores and bounds\<close>

definition parseScore :: "bytes \<Rightarrow> f64 option" where
  "parseScore arg =
     (if arg \<in> set [''inf'', ''+inf'', ''Inf'', ''+Inf'', ''INF'', ''+INF''] then Some (FInf False)
      else if arg \<in> set [''-inf'', ''-Inf'', ''-INF''] then Some (FInf True)
      else if arg = [] then Some (FZero False)
      else (case ParseFloat arg of Inl _ \<Rightarrow> None | Inr f \<Rightarrow> Some f))"

text \<open>The domain of a DynamoDB Number, as in the storage layer; the error, when out of it.\<close>

definition dynamoNumberMaxMagnitude :: f64 where
  "dynamoNumberMaxMagnitude = f64_of_ratio ((10 ^ 38 - 1) * 10 ^ 88) 1"

definition dynamoNumberMinMagnitude :: f64 where
  "dynamoNumberMinMagnitude = f64_of_ratio 1 (10 ^ 130)"

definition checkScoreDomain :: "f64 \<Rightarrow> bytes option" where
  "checkScoreDomain f =
     (if is_inf f then Some errScoreNotFinite
      else if \<not> is_zero f \<and> flt (fabs f) dynamoNumberMinMagnitude then Some errScoreOutOfRange
      else if flt dynamoNumberMaxMagnitude (fabs f) then Some errScoreOutOfRange
      else None)"

definition storeScore :: "bytes \<Rightarrow> bytes + f64" where
  "storeScore arg =
     (case parseScore arg of
        None \<Rightarrow> Inl errNotValidFloat
      | Some f \<Rightarrow> (case checkScoreDomain f of Some e \<Rightarrow> Inl e | None \<Rightarrow> Inr f))"

definition is_space :: "char \<Rightarrow> bool" where
  "is_space c \<longleftrightarrow> code c = 32 \<or> (9 \<le> code c \<and> code c \<le> 13)"

definition trimLeadingSpace :: "bytes \<Rightarrow> bytes" where
  "trimLeadingSpace b = dropWhile is_space b"

definition saturateOutOfRangeFloat :: "bytes \<Rightarrow> f64 option" where
  "saturateOutOfRangeFloat arg =
     (if CHR ''_'' \<in> set arg then None
      else (case go_ParseFloat arg of PFrange f \<Rightarrow> Some f | _ \<Rightarrow> None))"

definition parseScoreBound :: "bytes \<Rightarrow> ScoreBound option" where
  "parseScoreBound arg0 =
     (let exclusive = (arg0 \<noteq> [] \<and> arg0 ! 0 = CHR ''('');
          arg = (if exclusive then drop 1 arg0 else arg0);
          trimmed = trimLeadingSpace arg
      in if trimmed = [] \<and> arg \<noteq> [] then None
         else
           case (case parseScore trimmed of Some f \<Rightarrow> Some f | None \<Rightarrow> saturateOutOfRangeFloat trimmed) of
             None \<Rightarrow> None
           | Some f \<Rightarrow> Some \<lparr>sb_Value = f, sb_Exclusive = exclusive\<rparr>)"

definition formatScore :: "f64 \<Rightarrow> bytes" where
  "formatScore score =
     (if score = FInf False then ''inf'' else if score = FInf True then ''-inf'' else FormatFloat_g17 score)"

definition zMembersReply :: "zmember list \<Rightarrow> bool \<Rightarrow> reply" where
  "zMembersReply members withScores =
     BulkArray (Some
       (if \<not> withScores then map fst members else concat (map (\<lambda>(m, x). [m, formatScore x]) members)))"

section \<open>Options\<close>

definition equalFold :: "bytes \<Rightarrow> bytes \<Rightarrow> bool" where
  "equalFold b s \<longleftrightarrow> map lower_byte b = map lower_byte s"

definition parseWithScores :: "bytes list \<Rightarrow> bool option" where
  "parseWithScores tail =
     (case tail of
        [] \<Rightarrow> Some False
      | [t] \<Rightarrow> if equalFold t ''WITHSCORES'' then Some True else None
      | _ \<Rightarrow> None)"

fun scoreTailLoop :: "bytes list \<Rightarrow> bool \<times> int \<times> int \<Rightarrow> bytes + bool \<times> int \<times> int" where
  "scoreTailLoop [] r = Inr r"
| "scoreTailLoop (t # ts) (ws, offset, n) =
     (if equalFold t ''WITHSCORES'' then scoreTailLoop ts (True, offset, n)
      else if equalFold t ''LIMIT'' \<and> length ts \<ge> 2 then
        (case ParseInt (ts ! 0) of
           Inl _ \<Rightarrow> Inl ErrNotInteger
         | Inr o' \<Rightarrow>
             (case ParseInt (ts ! 1) of
                Inl _ \<Rightarrow> Inl ErrNotInteger
              | Inr n' \<Rightarrow> scoreTailLoop (drop 2 ts) (ws, o', n')))
      else Inl ErrSyntax)"

definition parseScoreTail :: "bytes list \<Rightarrow> bytes + bool \<times> int \<times> int" where
  "parseScoreTail tail = scoreTailLoop tail (False, 0, -1)"

record zaddFlags =
  zf_nx :: bool
  zf_xx :: bool
  zf_ch :: bool
  zf_incr :: bool

fun zaddFlagLoop :: "bytes list \<Rightarrow> zaddFlags \<Rightarrow> zaddFlags \<times> bytes list" where
  "zaddFlagLoop [] f = (f, [])"
| "zaddFlagLoop (t # ts) f =
     (let T = ToUpper t in
      if T = ''NX'' then zaddFlagLoop ts (f\<lparr>zf_nx := True\<rparr>)
      else if T = ''XX'' then zaddFlagLoop ts (f\<lparr>zf_xx := True\<rparr>)
      else if T = ''CH'' then zaddFlagLoop ts (f\<lparr>zf_ch := True\<rparr>)
      else if T = ''INCR'' then zaddFlagLoop ts (f\<lparr>zf_incr := True\<rparr>)
      else (f, t # ts))"

text \<open>The flags and the pairs that follow them, or the error reply.\<close>

definition parseZAddFlags :: "bytes list \<Rightarrow> bytes + zaddFlags \<times> bytes list" where
  "parseZAddFlags rest =
     (let (f, pairs) = zaddFlagLoop rest \<lparr>zf_nx = False, zf_xx = False, zf_ch = False, zf_incr = False\<rparr> in
      if pairs = [] \<or> length pairs mod 2 \<noteq> 0 then Inl ErrSyntax
      else if zf_nx f \<and> zf_xx f then Inl errZaddNxXx
      else if zf_incr f \<and> length pairs \<noteq> 2 then Inl errZaddIncr
      else Inr (f, pairs))"

section \<open>ZADD\<close>

text \<open>The score and member arguments, pair by pair; the first bad score is the error.\<close>

fun parsePairs :: "bytes list \<Rightarrow> bytes + zmember list" where
  "parsePairs (s # m # rest) =
     (case storeScore s of
        Inl e \<Rightarrow> Inl e
      | Inr score \<Rightarrow> (case parsePairs rest of Inl e \<Rightarrow> Inl e | Inr ms \<Rightarrow> Inr ((m, score) # ms)))"
| "parsePairs _ = Inr []"

definition zaddFastPath :: "'s env \<Rightarrow> bytes \<Rightarrow> bytes \<Rightarrow> bytes list \<Rightarrow> 's handler" where
  "zaddFastPath E key pk pairs =
     (case parsePairs pairs of
        Inl e \<Rightarrow> ret (Error e)
      | Inr members \<Rightarrow>
          attempt (CheckWrite key (map fst members) []) (\<lambda>_.
          attempt (ensureTypeExpiring E pk TypeZSet) (\<lambda>_.
          attempt (call (st_ZAdd (e_store E) pk members)) (\<lambda>added.
          attempt (adjustCount E pk TypeZSet added) (\<lambda>_. ret (IntReply added))))))"

text \<open>
  The in-command view: what is loaded of each member (none, or its score or that it has none), the
  scores to write in the order of their first appearance, and the two counters.
\<close>

record zview =
  zv_cur :: "bytes \<Rightarrow> f64 option option"
  zv_final :: "zmember list"
  zv_added :: int
  zv_changed :: int

definition zview0 :: zview where
  "zview0 = \<lparr>zv_cur = Map.empty, zv_final = [], zv_added = 0, zv_changed = 0\<rparr>"

definition zaddApply :: "bool \<Rightarrow> bool \<Rightarrow> bytes \<Rightarrow> f64 \<Rightarrow> f64 option \<Rightarrow> zview \<Rightarrow> zview" where
  "zaddApply nx xx m score cur v =
     (let v = v\<lparr>zv_cur := (zv_cur v)(m \<mapsto> cur)\<rparr> in
      if (nx \<and> cur \<noteq> None) \<or> (xx \<and> cur = None) then v
      else
        v\<lparr>zv_cur := (zv_cur v)(m \<mapsto> Some score), zv_final := AList.update m score (zv_final v),
          zv_added := zv_added v + (if cur = None then 1 else 0),
          zv_changed := zv_changed v + (case cur of None \<Rightarrow> 1 | Some x \<Rightarrow> if \<not> feq score x then 1 else 0)\<rparr>)"

primrec zaddLoop :: "'s env \<Rightarrow> bytes \<Rightarrow> bool \<Rightarrow> bool \<Rightarrow> zmember list \<Rightarrow> zview \<Rightarrow> ('s, serr + zview) act" where
  "zaddLoop E pk nx xx [] v = ret (Inr v)"
| "zaddLoop E pk nx xx (p # ps) v =
     bindE (case zv_cur v (fst p) of Some cur \<Rightarrow> ret (Inr cur) | None \<Rightarrow> call (st_ZScore (e_store E) pk (fst p))) (\<lambda>cur.
       zaddLoop E pk nx xx ps (zaddApply nx xx (fst p) (snd p) cur v))"

definition zaddWrite :: "'s env \<Rightarrow> bytes \<Rightarrow> bool \<Rightarrow> zview \<Rightarrow> 's handler" where
  "zaddWrite E pk ch v =
     (let reply = ret (IntReply (if ch then zv_changed v else zv_added v)) in
      if zv_final v = [] then reply
      else
        attempt (ensureTypeExpiring E pk TypeZSet) (\<lambda>_.
        attempt (call (st_ZAdd (e_store E) pk (zv_final v))) (\<lambda>_.
          if zv_added v > 0 then attempt (adjustCount E pk TypeZSet (zv_added v)) (\<lambda>_. reply)
          else reply)))"

definition zaddFlagPath :: "'s env \<Rightarrow> bytes \<Rightarrow> bytes \<Rightarrow> zaddFlags \<Rightarrow> bytes list \<Rightarrow> 's handler" where
  "zaddFlagPath E key pk flags pairs =
     (case parsePairs pairs of
        Inl e \<Rightarrow> ret (Error e)
      | Inr members \<Rightarrow>
          attempt (loadMetaState E pk TypeZSet) (\<lambda>k.
            if k = KeyWrong then ret (Error ErrWrongType)
            else
              attempt (CheckWrite key (map fst members) []) (\<lambda>_.
              attempt (zaddLoop E pk (zf_nx flags) (zf_xx flags) members zview0) (zaddWrite E pk (zf_ch flags)))))"

text \<open>The increment shared by ZINCRBY and ZADD INCR.\<close>

definition zincrTail :: "'s env \<Rightarrow> bytes \<Rightarrow> bytes \<Rightarrow> f64 \<Rightarrow> 's handler" where
  "zincrTail E pk member delta =
     attempt (ensureTypeExpiring E pk TypeZSet) (\<lambda>_.
     attempt (call (st_ZIncrBy (e_store E) pk member delta)) (\<lambda>(newScore, isNew).
       if isNew then attempt (adjustCount E pk TypeZSet 1) (\<lambda>_. ret (BulkString (formatScore newScore)))
       else ret (BulkString (formatScore newScore))))"

definition zaddIncr :: "'s env \<Rightarrow> bytes \<Rightarrow> bytes \<Rightarrow> bool \<Rightarrow> bool \<Rightarrow> bytes list \<Rightarrow> 's handler" where
  "zaddIncr E key pk nx xx pairs =
     (case storeScore (pairs ! 0) of
        Inl e \<Rightarrow> ret (Error e)
      | Inr delta \<Rightarrow>
          let member = pairs ! 1 in
          attempt (CheckWrite key [member] []) (\<lambda>_.
          attempt (loadMetaState E pk TypeZSet) (\<lambda>k.
            if k = KeyWrong then ret (Error ErrWrongType)
            else if nx \<or> xx then
              attempt (call (st_ZScore (e_store E) pk member)) (\<lambda>cur.
                if (nx \<and> cur \<noteq> None) \<or> (xx \<and> cur = None) then ret NullBulk
                else zincrTail E pk member delta)
            else zincrTail E pk member delta)))"

definition handleZAdd :: "'s env \<Rightarrow> int \<Rightarrow> bytes list \<Rightarrow> 's handler" where
  "handleZAdd E db args =
     (let key = args ! 1; pk = encodePK (e_cfg E) db key in
      case parseZAddFlags (drop 2 args) of
        Inl e \<Rightarrow> ret (Error e)
      | Inr (f, pairs) \<Rightarrow>
          if zf_incr f then zaddIncr E key pk (zf_nx f) (zf_xx f) pairs
          else if \<not> zf_nx f \<and> \<not> zf_xx f \<and> \<not> zf_ch f then zaddFastPath E key pk pairs
          else zaddFlagPath E key pk f pairs)"

section \<open>Scores of members\<close>

definition handleZScore :: "'s env \<Rightarrow> int \<Rightarrow> bytes list \<Rightarrow> 's handler" where
  "handleZScore E db args =
     (let pk = encodePK (e_cfg E) db (args ! 1) in
      withKey E pk TypeZSet (ret NullBulk) (\<lambda>_.
        if \<not> memberStorable (args ! 2) then ret NullBulk
        else
          attempt (call (st_ZScore (e_store E) pk (args ! 2))) (\<lambda>score.
            case score of None \<Rightarrow> ret NullBulk | Some x \<Rightarrow> ret (BulkString (formatScore x)))))"

definition handleZIncrBy :: "'s env \<Rightarrow> int \<Rightarrow> bytes list \<Rightarrow> 's handler" where
  "handleZIncrBy E db args =
     (let key = args ! 1 in
      case storeScore (args ! 2) of
        Inl e \<Rightarrow> ret (Error e)
      | Inr delta \<Rightarrow>
          let member = args ! 3; pk = encodePK (e_cfg E) db key in
          attempt (CheckWrite key [member] []) (\<lambda>_. zincrTail E pk member delta))"

text \<open>The two bounds of a command, or its error.\<close>

definition withScoreBounds ::
    "bytes \<Rightarrow> bytes \<Rightarrow> (ScoreBound \<Rightarrow> ScoreBound \<Rightarrow> 's handler) \<Rightarrow> 's handler" where
  "withScoreBounds a b k =
     (case parseScoreBound a of
        None \<Rightarrow> ret (Error errMinOrMaxNotFloat)
      | Some x \<Rightarrow> (case parseScoreBound b of None \<Rightarrow> ret (Error errMinOrMaxNotFloat) | Some y \<Rightarrow> k x y))"

definition handleZCount :: "'s env \<Rightarrow> int \<Rightarrow> bytes list \<Rightarrow> 's handler" where
  "handleZCount E db args =
     (let pk = encodePK (e_cfg E) db (args ! 1) in
      withScoreBounds (args ! 2) (args ! 3) (\<lambda>mn mx.
        withKey E pk TypeZSet (ret (IntReply 0)) (\<lambda>_.
          attempt (call (st_ZCount (e_store E) pk mn mx)) (\<lambda>n. ret (IntReply n)))))"

definition applyZLimit :: "zmember list \<Rightarrow> int \<Rightarrow> int \<Rightarrow> zmember list" where
  "applyZLimit members offset n =
     (if offset < 0 \<or> offset \<ge> int (length members) then []
      else
        let members = drop (nat offset) members in
        if n \<ge> 0 \<and> n < int (length members) then take (nat n) members else members)"

definition zRangeByScore :: "'s env \<Rightarrow> int \<Rightarrow> bytes list \<Rightarrow> bool \<Rightarrow> 's handler" where
  "zRangeByScore E db args desc =
     (let pk = encodePK (e_cfg E) db (args ! 1) in
      withScoreBounds (args ! 2) (args ! 3) (\<lambda>first second.
        let (mn, mx) = (if desc then (second, first) else (first, second)) in
        case parseScoreTail (drop 4 args) of
          Inl e \<Rightarrow> ret (Error e)
        | Inr (withScores, offset, n) \<Rightarrow>
            withKey E pk TypeZSet (ret EmptyArray) (\<lambda>_.
              attempt (call (st_ZRangeByScore (e_store E) pk mn mx desc)) (\<lambda>members.
                ret (zMembersReply (applyZLimit members offset n) withScores)))))"

definition handleZRangeByScore :: "'s env \<Rightarrow> int \<Rightarrow> bytes list \<Rightarrow> 's handler" where
  "handleZRangeByScore E db args = zRangeByScore E db args False"

definition handleZRevRangeByScore :: "'s env \<Rightarrow> int \<Rightarrow> bytes list \<Rightarrow> 's handler" where
  "handleZRevRangeByScore E db args = zRangeByScore E db args True"

section \<open>Ranks\<close>

definition handleZCard :: "'s env \<Rightarrow> int \<Rightarrow> bytes list \<Rightarrow> 's handler" where
  "handleZCard E db args =
     withKey E (encodePK (e_cfg E) db (args ! 1)) TypeZSet (ret (IntReply 0)) (\<lambda>m. ret (IntReply (m_count m)))"

text \<open>Two integer arguments, or the error.\<close>

definition withInts :: "bytes \<Rightarrow> bytes \<Rightarrow> (int \<Rightarrow> int \<Rightarrow> 's handler) \<Rightarrow> 's handler" where
  "withInts a b k =
     (case ParseInt a of
        Inl _ \<Rightarrow> ret (Error ErrNotInteger)
      | Inr x \<Rightarrow> (case ParseInt b of Inl _ \<Rightarrow> ret (Error ErrNotInteger) | Inr y \<Rightarrow> k x y))"

definition handleZRangeByRank :: "'s env \<Rightarrow> int \<Rightarrow> bytes list \<Rightarrow> bool \<Rightarrow> 's handler" where
  "handleZRangeByRank E db args desc =
     (let pk = encodePK (e_cfg E) db (args ! 1) in
      withInts (args ! 2) (args ! 3) (\<lambda>start stop.
        case parseWithScores (drop 4 args) of
          None \<Rightarrow> ret (Error ErrSyntax)
        | Some withScores \<Rightarrow>
            withKey E pk TypeZSet (ret EmptyArray) (\<lambda>m.
              if resultCapExceeded (e_cfg E) (rangeResultCount (m_count m) start stop)
              then ret (Error ErrCollectionTooLarge)
              else
                attempt (call (st_ZRangeByRank (e_store E) pk start stop desc)) (\<lambda>members.
                  ret (zMembersReply members withScores)))))"

definition handleZRange :: "'s env \<Rightarrow> int \<Rightarrow> bytes list \<Rightarrow> 's handler" where
  "handleZRange E db args = handleZRangeByRank E db args False"

definition handleZRevRange :: "'s env \<Rightarrow> int \<Rightarrow> bytes list \<Rightarrow> 's handler" where
  "handleZRevRange E db args = handleZRangeByRank E db args True"

definition handleZRankDir :: "'s env \<Rightarrow> int \<Rightarrow> bytes list \<Rightarrow> bool \<Rightarrow> 's handler" where
  "handleZRankDir E db args desc =
     (let pk = encodePK (e_cfg E) db (args ! 1) in
      withKey E pk TypeZSet (ret NullBulk) (\<lambda>_.
        if \<not> memberStorable (args ! 2) then ret NullBulk
        else
          attempt (call (st_ZRank (e_store E) pk (args ! 2) desc)) (\<lambda>rank.
            case rank of None \<Rightarrow> ret NullBulk | Some n \<Rightarrow> ret (IntReply n))))"

definition handleZRank :: "'s env \<Rightarrow> int \<Rightarrow> bytes list \<Rightarrow> 's handler" where
  "handleZRank E db args = handleZRankDir E db args False"

definition handleZRevRank :: "'s env \<Rightarrow> int \<Rightarrow> bytes list \<Rightarrow> 's handler" where
  "handleZRevRank E db args = handleZRankDir E db args True"

section \<open>Removal\<close>

definition handleZRem :: "'s env \<Rightarrow> int \<Rightarrow> bytes list \<Rightarrow> 's handler" where
  "handleZRem E db args =
     (let pk = encodePK (e_cfg E) db (args ! 1) in
      withKey E pk TypeZSet (ret (IntReply 0)) (\<lambda>_.
        attempt (call (st_ZRem (e_store E) pk (filter memberStorable (drop 2 args)))) (\<lambda>removed.
        attempt (adjustCount E pk TypeZSet (- removed)) (\<lambda>_. ret (IntReply removed)))))"

definition handleZRemRangeByRank :: "'s env \<Rightarrow> int \<Rightarrow> bytes list \<Rightarrow> 's handler" where
  "handleZRemRangeByRank E db args =
     (let pk = encodePK (e_cfg E) db (args ! 1) in
      withInts (args ! 2) (args ! 3) (\<lambda>start stop.
        withKey E pk TypeZSet (ret (IntReply 0)) (\<lambda>_.
          attempt (call (st_ZRemRangeByRank (e_store E) pk start stop)) (\<lambda>removed.
          attempt (adjustCount E pk TypeZSet (- removed)) (\<lambda>_. ret (IntReply removed))))))"

definition handleZRemRangeByScore :: "'s env \<Rightarrow> int \<Rightarrow> bytes list \<Rightarrow> 's handler" where
  "handleZRemRangeByScore E db args =
     (let pk = encodePK (e_cfg E) db (args ! 1) in
      withScoreBounds (args ! 2) (args ! 3) (\<lambda>mn mx.
        withKey E pk TypeZSet (ret (IntReply 0)) (\<lambda>_.
          attempt (call (st_ZRemRangeByScore (e_store E) pk mn mx)) (\<lambda>removed.
          attempt (adjustCount E pk TypeZSet (- removed)) (\<lambda>_. ret (IntReply removed))))))"

section \<open>Lexicographic ranges\<close>

record lexBound =
  lx_value :: bytes
  lx_inclusive :: bool
  lx_negInf :: bool
  lx_posInf :: bool

definition parseLexBound :: "bytes \<Rightarrow> lexBound option" where
  "parseLexBound arg =
     (case arg of
        [] \<Rightarrow> None
      | c # rest \<Rightarrow>
          if c = CHR ''-'' then
            (if rest = [] then Some \<lparr>lx_value = [], lx_inclusive = False, lx_negInf = True, lx_posInf = False\<rparr> else None)
          else if c = CHR ''+'' then
            (if rest = [] then Some \<lparr>lx_value = [], lx_inclusive = False, lx_negInf = False, lx_posInf = True\<rparr> else None)
          else if c = CHR ''['' then
            Some \<lparr>lx_value = rest, lx_inclusive = True, lx_negInf = False, lx_posInf = False\<rparr>
          else if c = CHR ''('' then
            Some \<lparr>lx_value = rest, lx_inclusive = False, lx_negInf = False, lx_posInf = False\<rparr>
          else None)"

definition lexInRange :: "bytes \<Rightarrow> lexBound \<Rightarrow> lexBound \<Rightarrow> bool" where
  "lexInRange member mn mx =
     (if lx_posInf mn then False
      else if \<not> lx_negInf mn \<and> (if lx_inclusive mn then member < lx_value mn else member \<le> lx_value mn) then False
      else if lx_negInf mx then False
      else if \<not> lx_posInf mx \<and> (if lx_inclusive mx then member > lx_value mx else member \<ge> lx_value mx) then False
      else True)"

definition parseLexLimit :: "bytes list \<Rightarrow> bytes + int \<times> int" where
  "parseLexLimit rest =
     (if rest = [] then Inr (0, -1)
      else if length rest < 3 \<or> \<not> equalFold (rest ! 0) ''LIMIT'' then Inl ErrSyntax
      else
        (case ParseInt (rest ! 1) of
           Inl _ \<Rightarrow> Inl ErrNotInteger
         | Inr offset \<Rightarrow>
             (case ParseInt (rest ! 2) of
                Inl _ \<Rightarrow> Inl ErrNotInteger
              | Inr n \<Rightarrow> if length rest \<noteq> 3 then Inl ErrSyntax else Inr (offset, n))))"

definition withLexBounds :: "bytes \<Rightarrow> bytes \<Rightarrow> (lexBound \<Rightarrow> lexBound \<Rightarrow> 's handler) \<Rightarrow> 's handler" where
  "withLexBounds a b k =
     (case parseLexBound a of
        None \<Rightarrow> ret (Error errNotValidStringRange)
      | Some x \<Rightarrow> (case parseLexBound b of None \<Rightarrow> ret (Error errNotValidStringRange) | Some y \<Rightarrow> k x y))"

definition zRangeByLex :: "'s env \<Rightarrow> int \<Rightarrow> bytes list \<Rightarrow> bool \<Rightarrow> 's handler" where
  "zRangeByLex E db args desc =
     (let pk = encodePK (e_cfg E) db (args ! 1) in
      withLexBounds (args ! 2) (args ! 3) (\<lambda>first second.
        let (mn, mx) = (if desc then (second, first) else (first, second)) in
        case parseLexLimit (drop 4 args) of
          Inl e \<Rightarrow> ret (Error e)
        | Inr (offset, n) \<Rightarrow>
            withKey E pk TypeZSet (ret EmptyArray) (\<lambda>_.
              attempt (call (st_ZRangeByRank (e_store E) pk 0 (-1) False)) (\<lambda>all.
                let filtered = filter (\<lambda>m. lexInRange (fst m) mn mx) all;
                    ordered = (if desc then ZReverse filtered else filtered)
                in ret (zMembersReply (applyZLimit ordered offset n) False)))))"

definition handleZRangeByLex :: "'s env \<Rightarrow> int \<Rightarrow> bytes list \<Rightarrow> 's handler" where
  "handleZRangeByLex E db args = zRangeByLex E db args False"

definition handleZRevRangeByLex :: "'s env \<Rightarrow> int \<Rightarrow> bytes list \<Rightarrow> 's handler" where
  "handleZRevRangeByLex E db args = zRangeByLex E db args True"

definition handleZLexCount :: "'s env \<Rightarrow> int \<Rightarrow> bytes list \<Rightarrow> 's handler" where
  "handleZLexCount E db args =
     (let pk = encodePK (e_cfg E) db (args ! 1) in
      withLexBounds (args ! 2) (args ! 3) (\<lambda>mn mx.
        withKey E pk TypeZSet (ret (IntReply 0)) (\<lambda>_.
          attempt (call (st_ZRangeByRank (e_store E) pk 0 (-1) False)) (\<lambda>all.
            ret (IntReply (int (length (filter (\<lambda>m. lexInRange (fst m) mn mx) all))))))))"

definition handleZRemRangeByLex :: "'s env \<Rightarrow> int \<Rightarrow> bytes list \<Rightarrow> 's handler" where
  "handleZRemRangeByLex E db args =
     (let pk = encodePK (e_cfg E) db (args ! 1) in
      withLexBounds (args ! 2) (args ! 3) (\<lambda>mn mx.
        withKey E pk TypeZSet (ret (IntReply 0)) (\<lambda>_.
          attempt (call (st_ZRangeByRank (e_store E) pk 0 (-1) False)) (\<lambda>all.
            let members = map fst (filter (\<lambda>m. lexInRange (fst m) mn mx) all) in
            if members = [] then ret (IntReply 0)
            else
              attempt (call (st_ZRem (e_store E) pk members)) (\<lambda>removed.
              attempt (adjustCount E pk TypeZSet (- removed)) (\<lambda>_. ret (IntReply removed)))))))"

section \<open>ZUNIONSTORE and ZINTERSTORE\<close>

datatype zAggregate = zAggSum | zAggMin | zAggMax

definition aggregateScore :: "zAggregate \<Rightarrow> f64 \<Rightarrow> f64 \<Rightarrow> f64" where
  "aggregateScore agg acc nxt =
     (case agg of
        zAggMin \<Rightarrow> if flt nxt acc then nxt else acc
      | zAggMax \<Rightarrow> if flt acc nxt then nxt else acc
      | zAggSum \<Rightarrow> (let v = fadd acc nxt in if v = FNaN then FZero False else v))"

definition weightScore :: "f64 \<Rightarrow> f64 \<Rightarrow> f64" where
  "weightScore score weight = (let v = fmul score weight in if v = FNaN then FZero False else v)"

definition parseWeights :: "bytes list \<Rightarrow> bytes + f64 list" where
  "parseWeights ws =
     foldr (\<lambda>w r. case parseScore w of None \<Rightarrow> Inl errZWeightNotFloat | Some f \<Rightarrow> map_sum id ((#) f) r) ws (Inr [])"

function zStoreOptLoop :: "nat \<Rightarrow> bytes list \<Rightarrow> f64 list \<times> zAggregate \<Rightarrow> bytes + f64 list \<times> zAggregate" where
  "zStoreOptLoop n [] r = Inr r"
| "zStoreOptLoop n (t # ts) (weights, agg) =
     (let T = ToUpper t in
      if T = ''WEIGHTS'' then
        (if length ts < n then Inl ErrSyntax
         else
           (case parseWeights (take n ts) of
              Inl e \<Rightarrow> Inl e
            | Inr ws \<Rightarrow> zStoreOptLoop n (drop n ts) (ws, agg)))
      else if T = ''AGGREGATE'' then
        (case ts of
           [] \<Rightarrow> Inl ErrSyntax
         | a # ts' \<Rightarrow>
             (let A = ToUpper a in
              if A = ''SUM'' then zStoreOptLoop n ts' (weights, zAggSum)
              else if A = ''MIN'' then zStoreOptLoop n ts' (weights, zAggMin)
              else if A = ''MAX'' then zStoreOptLoop n ts' (weights, zAggMax)
              else Inl ErrSyntax))
      else Inl ErrSyntax)"
  by pat_completeness auto

termination zStoreOptLoop
  by (relation "measure (\<lambda>(n, ts, r). length ts)") auto

definition parseZStoreOptions :: "bytes list \<Rightarrow> nat \<Rightarrow> bytes + f64 list \<times> zAggregate" where
  "parseZStoreOptions tail numKeys = zStoreOptLoop numKeys tail (replicate numKeys (f64_of_int 1), zAggSum)"

text \<open>The scores of an operand; \<open>None\<close> when it is of another type.\<close>

definition loadZStoreOperand :: "'s env \<Rightarrow> bytes \<Rightarrow> ('s, serr + zmember list option) act" where
  "loadZStoreOperand E pk =
     bindE (Meta_Load E pk) (\<lambda>mo.
       case mo of
         None \<Rightarrow> ret (Inr (Some []))
       | Some m \<Rightarrow> withNow E (\<lambda>now.
           if IsExpired m now then ret (Inr (Some []))
           else if m_type m = TypeZSet then
             bindE (call (st_ZRangeByRank (e_store E) pk 0 (-1) False)) (\<lambda>ms. ret (Inr (Some (score_map ms))))
           else if m_type m = TypeSet then
             bindE (call (st_SMembers (e_store E) pk)) (\<lambda>ms. ret (Inr (Some (map (\<lambda>m. (m, f64_of_int 1)) (remdups ms)))))
           else ret (Inr None)))"

primrec loadZOperands :: "'s env \<Rightarrow> bytes list \<Rightarrow> zmember list list \<Rightarrow> ('s, serr + zmember list list option) act" where
  "loadZOperands E [] ops = ret (Inr (Some ops))"
| "loadZOperands E (pk # pks) ops =
     bindE (loadZStoreOperand E pk) (\<lambda>mo.
       case mo of None \<Rightarrow> ret (Inr None) | Some scores \<Rightarrow> loadZOperands E pks (ops @ [scores]))"

text \<open>A member of the first operand against the later ones; none when one lacks it.\<close>

definition interScore :: "zAggregate \<Rightarrow> bytes \<Rightarrow> (zmember list \<times> f64) list \<Rightarrow> f64 \<Rightarrow> f64 option" where
  "interScore agg m ops acc0 =
     fold (\<lambda>(op, w) acc. case acc of None \<Rightarrow> None | Some x \<Rightarrow>
         (case map_of op m of None \<Rightarrow> None | Some s \<Rightarrow> Some (aggregateScore agg x (weightScore s w)))) ops (Some acc0)"

definition unionOperand :: "zAggregate \<Rightarrow> zmember list \<Rightarrow> f64 \<Rightarrow> zmember list \<Rightarrow> zmember list" where
  "unionOperand agg op w result =
     fold (\<lambda>(m, s) r.
       AList.update m (case map_of r m of
           Some acc \<Rightarrow> aggregateScore agg acc (weightScore s w)
         | None \<Rightarrow> weightScore s w) r) op result"

definition combineZStores :: "zmember list list \<Rightarrow> f64 list \<Rightarrow> zAggregate \<Rightarrow> bool \<Rightarrow> zmember list" where
  "combineZStores operands weights agg isInter =
     (if isInter then
        (case zip operands weights of
           [] \<Rightarrow> []
         | (op, w) # later \<Rightarrow>
             List.map_filter (\<lambda>(m, s). map_option (Pair m) (interScore agg m later (weightScore s w))) op)
      else fold (\<lambda>(op, w) r. unionOperand agg op w r) (zip operands weights) [])"

text \<open>The first error of the scores in the order they are looked at.\<close>

definition domain_error :: "zmember list \<Rightarrow> bytes option" where
  "domain_error ms = foldr (\<lambda>(m, x) r. case checkScoreDomain x of Some e \<Rightarrow> Some e | None \<Rightarrow> r) ms None"

definition in_order :: "(bytes list \<Rightarrow> bytes list) \<Rightarrow> zmember list \<Rightarrow> zmember list" where
  "in_order iter result = List.map_filter (\<lambda>m. map_option (Pair m) (map_of result m)) (iter (map fst result))"

text \<open>Replacing the destination with the result members.\<close>

definition zStoreWrite :: "'s env \<Rightarrow> bytes \<Rightarrow> bytes \<Rightarrow> zmember list \<Rightarrow> 's handler" where
  "zStoreWrite E destKey destPK members =
     attempt (CheckWrite destKey (map fst members) []) (\<lambda>_.
     attempt (Meta_DeleteMeta E destPK) (\<lambda>_.
     attempt (call (st_DeleteMembers (e_store E) destPK)) (\<lambda>_.
       if members = [] then ret (IntReply 0)
       else
         attempt (ensureTypeExpiring E destPK TypeZSet) (\<lambda>_.
         attempt (call (st_ZAdd (e_store E) destPK members)) (\<lambda>added.
         attempt (adjustCount E destPK TypeZSet added) (\<lambda>_. ret (IntReply added)))))))"

text \<open>The options, the combination, the check of the scores, and the write.\<close>

definition zStoreCombine ::
    "'s env \<Rightarrow> (bytes list \<Rightarrow> bytes list) \<Rightarrow> bytes \<Rightarrow> bytes \<Rightarrow> bool \<Rightarrow> nat \<Rightarrow> bytes list \<Rightarrow> zmember list list \<Rightarrow> 's handler" where
  "zStoreCombine E iter destKey destPK isInter n tail operands =
     (case parseZStoreOptions tail n of
        Inl e \<Rightarrow> ret (Error e)
      | Inr (weights, agg) \<Rightarrow>
          let members = in_order iter (combineZStores operands weights agg isInter) in
          case domain_error members of
            Some e \<Rightarrow> ret (Error e)
          | None \<Rightarrow> zStoreWrite E destKey destPK members)"

definition handleZStore :: "'s env \<Rightarrow> (bytes list \<Rightarrow> bytes list) \<Rightarrow> int \<Rightarrow> bytes list \<Rightarrow> bool \<Rightarrow> 's handler" where
  "handleZStore E iter db args isInter =
     (let destKey = args ! 1; destPK = encodePK (e_cfg E) db destKey in
      case ParseInt (args ! 2) of
        Inl _ \<Rightarrow> ret (Error ErrNotInteger)
      | Inr numKeys \<Rightarrow>
          if numKeys \<le> 0 then ret (Error errAtLeastOneKey)
          else if int (length (drop 3 args)) < numKeys then ret (Error ErrSyntax)
          else
            let n = nat numKeys; keyArgs = take n (drop 3 args); tail = drop n (drop 3 args) in
            attempt (loadZOperands E (map (encodePK (e_cfg E) db) keyArgs) []) (\<lambda>ops.
              case ops of
                None \<Rightarrow> ret (Error ErrWrongType)
              | Some operands \<Rightarrow> zStoreCombine E iter destKey destPK isInter n tail operands))"

definition handleZUnionStore :: "'s env \<Rightarrow> (bytes list \<Rightarrow> bytes list) \<Rightarrow> int \<Rightarrow> bytes list \<Rightarrow> 's handler" where
  "handleZUnionStore E iter db args = handleZStore E iter db args False"

definition handleZInterStore :: "'s env \<Rightarrow> (bytes list \<Rightarrow> bytes list) \<Rightarrow> int \<Rightarrow> bytes list \<Rightarrow> 's handler" where
  "handleZInterStore E iter db args = handleZStore E iter db args True"

section \<open>Scores that pass the checks can be stored\<close>

lemma f64_ok_parseScore:
  assumes "parseScore arg = Some f"
  shows "f64_ok f" "f \<noteq> FNaN"
proof -
  have "f = FInf False \<or> f = FInf True \<or> f = FZero False \<or> ParseFloat arg = Inr f"
    using assms unfolding parseScore_def by (cases "ParseFloat arg") (simp_all del: list.set split: if_split_asm)
  then show "f64_ok f" "f \<noteq> FNaN" using f64_ok_ParseFloat [of arg] by (auto simp: f64_ok_def)
qed

lemma checkScoreDomain_storable:
  "checkScoreDomain f = None \<Longrightarrow> f64_ok f \<Longrightarrow> f \<noteq> FNaN \<Longrightarrow> storable f"
  by (auto simp: checkScoreDomain_def storable_def scoreOutOfDomain_def dynamoNumberMaxMagnitude_def
      dynamoNumberMinMagnitude_def zsetScoreMaxMagnitude_def zsetScoreMinMagnitude_def split: if_splits)

lemma storeScore_storable: "storeScore arg = Inr f \<Longrightarrow> storable f"
  using f64_ok_parseScore [of arg f] checkScoreDomain_storable [of f]
  by (auto simp: storeScore_def split: option.splits)

lemma parsePairs_storable: "parsePairs args = Inr ms \<Longrightarrow> \<forall>p \<in> set ms. storable (snd p)"
proof (induction args arbitrary: ms rule: parsePairs.induct)
  case (1 s m rest)
  then obtain score ms' where "storeScore s = Inr score" "parsePairs rest = Inr ms'" "ms = (m, score) # ms'"
    by (auto split: sum.splits)
  then show ?case using 1(1) storeScore_storable by auto
qed auto


lemma set_update_sub: "set (AList.update k v xs) \<subseteq> insert (k, v) (set xs)"
  by (induction xs) auto

lemma zaddLoop_final:
  "fst (zaddLoop E pk nx xx ps v w) = Inr v' \<Longrightarrow> \<forall>p \<in> set ps. P (snd p) \<Longrightarrow> \<forall>p \<in> set (zv_final v). P (snd p) \<Longrightarrow>
    \<forall>p \<in> set (zv_final v'). P (snd p)"
proof (induction ps arbitrary: v w)
  case Nil
  then show ?case by (simp add: ret_def)
next
  case (Cons p ps)
  obtain cur w1 where "fst (zaddLoop E pk nx xx ps (zaddApply nx xx (fst p) (snd p) cur v) w1) = Inr v'"
    using Cons.prems(1) by (auto simp: bindE_def split: sum.splits)
  moreover have "\<forall>q \<in> set (zv_final (zaddApply nx xx (fst p) (snd p) cur v)). P (snd q)"
    using Cons.prems(2,3) set_update_sub [of "fst p" "snd p" "zv_final v"] by (auto simp: zaddApply_def Let_def)
  ultimately show ?case using Cons by simp
qed

text \<open>Combined scores are numbers, so that those in the domain can be stored.\<close>

definition number :: "f64 \<Rightarrow> bool" where
  "number x \<longleftrightarrow> f64_ok x \<and> x \<noteq> FNaN"

abbreviation numbers :: "zmember list \<Rightarrow> bool" where
  "numbers ms \<equiv> \<forall>p \<in> set ms. number (snd p)"

lemma storable_number: "storable x \<Longrightarrow> number x"
  by (auto simp: number_def storable_def scoreOutOfDomain_def)

lemma number_simps [simp]: "number (FZero s)" "number (f64_of_int 1)" "number (FInf s)"
proof -
  have "f64_of_int 1 = FFin (2 ^ 52) (-52)" by (rule f64_of_int_1)
  then show "number (f64_of_int 1)" by (simp add: number_def f64_ok_def)
qed (simp_all add: number_def f64_ok_def)

lemma number_weight: "number s \<Longrightarrow> number w \<Longrightarrow> number (weightScore s w)"
  by (simp add: weightScore_def Let_def number_def f64_ok_ops) (simp add: f64_ok_def)

lemma number_aggregate: "number a \<Longrightarrow> number b \<Longrightarrow> number (aggregateScore agg a b)"
  by (cases agg) (auto simp: aggregateScore_def Let_def number_def f64_ok_ops, simp add: f64_ok_def)

lemma number_weights: "parseWeights ts = Inr ws \<Longrightarrow> \<forall>w \<in> set ws. number w"
proof (induction ts arbitrary: ws)
  case Nil
  then show ?case by (simp add: parseWeights_def)
next
  case (Cons t ts)
  then obtain f ws' where "parseScore t = Some f" "parseWeights ts = Inr ws'" "ws = f # ws'"
    by (cases "parseWeights ts") (auto simp: parseWeights_def split: option.splits)
  then show ?case using Cons.IH f64_ok_parseScore by (auto simp: number_def)
qed

lemma number_options: "zStoreOptLoop n ts (ws, agg) = Inr (ws', agg') \<Longrightarrow> \<forall>w \<in> set ws. number w \<Longrightarrow> \<forall>w \<in> set ws'. number w"
proof (induction n ts "(ws, agg)" arbitrary: ws agg rule: zStoreOptLoop.induct)
  case (2 n t ts)
  then show ?case by (auto simp: Let_def number_weights split: if_splits sum.splits list.splits)
qed simp

lemma numbers_inter:
  "\<forall>(op, w) \<in> set ops. numbers op \<and> number w \<Longrightarrow> number a \<Longrightarrow> interScore agg m ops a = Some x \<Longrightarrow> number x"
proof (induction ops arbitrary: a)
  case Nil
  then show ?case by (simp add: interScore_def)
next
  case (Cons ow ops)
  have none: "fold (\<lambda>(op, w) acc. case acc of None \<Rightarrow> None | Some x \<Rightarrow>
      (case map_of op m of None \<Rightarrow> None | Some s \<Rightarrow> Some (aggregateScore agg x (weightScore s w)))) ops None = None"
    by (induction ops) auto
  obtain op w where ow: "ow = (op, w)" by (cases ow)
  obtain s where s: "map_of op m = Some s"
    using Cons.prems(3) none by (cases "map_of op m") (auto simp: interScore_def ow)
  then have "number (aggregateScore agg a (weightScore s w))"
    using Cons.prems(1,2) map_of_SomeD [OF s] by (force simp: ow intro!: number_aggregate number_weight)
  then show ?case using Cons.IH Cons.prems s by (simp add: interScore_def ow)
qed

lemma numbers_union: "numbers op \<Longrightarrow> number w \<Longrightarrow> numbers r \<Longrightarrow> numbers (unionOperand agg op w r)"
proof (induction op arbitrary: r)
  case (Cons p op)
  obtain m s where p: "p = (m, s)" by (cases p)
  let ?x = "case map_of r m of Some acc \<Rightarrow> aggregateScore agg acc (weightScore s w) | None \<Rightarrow> weightScore s w"
  have "number ?x"
    using Cons.prems by (auto simp: p intro!: number_aggregate number_weight split: option.split dest!: map_of_SomeD)
  then have "numbers (AList.update m ?x r)" using Cons.prems(3) set_update_sub [of m ?x r] by auto
  then show ?case using Cons by (simp add: unionOperand_def p)
qed (simp add: unionOperand_def)

lemma numbers_combine:
  assumes "\<forall>op \<in> set ops. numbers op" and "\<forall>w \<in> set ws. number w"
  shows "numbers (combineZStores ops ws agg isInter)"
proof (cases isInter)
  case True
  show ?thesis
  proof (cases "zip ops ws")
    case (Cons ow later)
    obtain op w where ow: "ow = (op, w)" by (cases ow)
    have all: "\<forall>(op, w) \<in> set (ow # later). numbers op \<and> number w"
      using assms by (auto simp flip: Cons dest: set_zip_leftD set_zip_rightD)
    show ?thesis
    proof
      fix p
      assume "p \<in> set (combineZStores ops ws agg isInter)"
      then obtain m s where s: "(m, s) \<in> set op" "interScore agg m later (weightScore s w) = Some (snd p)"
        by (auto simp: combineZStores_def True Cons ow List.map_filter_def)
      have "number s" "number w" using all s(1) by (auto simp: ow dest: bspec [of _ _ "(m, s)"])
      then have "number (weightScore s w)" by (rule number_weight)
      then show "number (snd p)" using numbers_inter [OF _ _ s(2)] all by simp
    qed
  qed (simp add: combineZStores_def True del: zip_eq_Nil_iff)
next
  case False
  have union: "numbers r \<Longrightarrow> \<forall>(op, w) \<in> set ows. numbers op \<and> number w \<Longrightarrow>
      numbers (fold (\<lambda>(op, w) r. unionOperand agg op w r) ows r)" for r ows
  proof (induction ows arbitrary: r)
    case (Cons ow ows)
    obtain op w where ow: "ow = (op, w)" by (cases ow)
    have "numbers (unionOperand agg op w r)" using Cons.prems by (intro numbers_union) (simp_all add: ow)
    then show ?case using Cons.IH Cons.prems(2) by (simp add: ow)
  qed simp
  have "\<forall>(op, w) \<in> set (zip ops ws). numbers op \<and> number w"
    using assms by (auto dest: set_zip_leftD set_zip_rightD)
  then show ?thesis using union [of "[]" "zip ops ws"] by (simp add: combineZStores_def False)
qed

lemma in_order_sub: "set (in_order iter result) \<subseteq> set result"
  by (auto simp: in_order_def List.map_filter_def dest: map_of_SomeD)

lemma domain_error_None:
  "domain_error ms = None \<Longrightarrow> numbers ms \<Longrightarrow> \<forall>p \<in> set ms. storable (snd p)"
proof (induction ms)
  case (Cons p ms)
  obtain m x where p: "p = (m, x)" by (cases p)
  have "checkScoreDomain x = None" "domain_error ms = None"
    using Cons.prems(1) by (cases "checkScoreDomain x"; simp add: p domain_error_def)+
  then show ?case using Cons by (simp add: p number_def checkScoreDomain_storable)
qed simp

section \<open>The handlers refine their runs over the abstract table\<close>

text \<open>A call whose contract has a condition runs after a part whose results meet it.\<close>

lemma sim_attempt_post:
  assumes "sim v m m'" and "\<And>w a. fst (m' w) = Inr a \<Longrightarrow> Q a" and "\<And>a. Q a \<Longrightarrow> sim v (k a) (k' a)"
  shows "sim v (attempt m k) (attempt m' k')"
  using assms by (auto simp: sim_def attempt_def split: sum.split)

lemma sim_withBounds [sim_intros]:
  "(\<And>x y. sim v (k x y) (k' x y)) \<Longrightarrow> sim v (withScoreBounds a b k) (withScoreBounds a b k')"
  "(\<And>x y. sim v (l x y) (l' x y)) \<Longrightarrow> sim v (withLexBounds a b l) (withLexBounds a b l')"
  "(\<And>x y. sim v (i x y) (i' x y)) \<Longrightarrow> sim v (withInts a b i) (withInts a b i')"
  unfolding withScoreBounds_def withLexBounds_def withInts_def by (intro sim_intros | assumption)+

lemma loadZStoreOperand_numbers:
  "fst (loadZStoreOperand (mem_env q cfg) pk w) = Inr (Some ms) \<Longrightarrow> numbers ms"
proof -
  assume "fst (loadZStoreOperand (mem_env q cfg) pk w) = Inr (Some ms)"
  then consider "ms = []" | xs where "ms = score_map xs" "set xs \<subseteq> set (zlist (t_zset (backend w) pk))"
    | xs where "ms = map (\<lambda>m. (m, f64_of_int 1)) xs"
    by (auto simp: loadZStoreOperand_def bindE_def Meta_Load_def call_def ret_def withNow_def sp_LoadMeta_def
        sp_ZRangeByRank_def zrange_rank_def sp_SMembers_def mem_env_def dest: rank_range_sub(1) [THEN subsetD]
        split: option.splits if_splits)
  then show ?thesis
  proof cases
    case 2
    then show ?thesis using set_score_map [of xs] zlist_storable storable_number by fastforce
  qed auto
qed

lemma loadZOperands_numbers:
  "fst (loadZOperands (mem_env q cfg) pks ops w) = Inr (Some ops') \<Longrightarrow> \<forall>op \<in> set ops. numbers op \<Longrightarrow>
    \<forall>op \<in> set ops'. numbers op"
proof (induction pks arbitrary: ops w)
  case Nil
  then show ?case by (simp add: ret_def)
next
  case (Cons pk pks)
  let ?r = "loadZStoreOperand (mem_env q cfg) pk w"
  obtain scores where s: "fst ?r = Inr (Some scores)"
      "fst (loadZOperands (mem_env q cfg) pks (ops @ [scores]) (snd ?r)) = Inr (Some ops')"
    using Cons.prems(1) by (cases "fst ?r"; cases "projr (fst ?r)") (simp_all add: bindE_def ret_def)
  then have "numbers scores" using loadZStoreOperand_numbers by blast
  then have "\<forall>op \<in> set (ops @ [scores]). numbers op" using Cons.prems(2) by simp
  then show ?case by (rule Cons.IH [OF s(2)])
qed

context conforming_env begin

lemma sim_zincrTail: "storable x \<Longrightarrow> sim view (zincrTail E pk m x) (zincrTail E' pk m x)"
  unfolding zincrTail_def abs_env_simps mem_store_simps
  by (intro sim_intros sim_call ZIncrBy)

lemma sim_zaddLoop [sim_intros]: "sim view (zaddLoop E pk nx xx ps v) (zaddLoop E' pk nx xx ps v)"
  by (induction ps arbitrary: v) (auto intro!: sim_intros ZScore)

lemma sim_zaddFastPath [sim_intros]: "sim view (zaddFastPath E key pk pairs) (zaddFastPath E' key pk pairs)"
proof (cases "parsePairs pairs")
  case (Inr ms)
  then show ?thesis
    using parsePairs_storable [OF Inr] unfolding zaddFastPath_def abs_env_simps mem_store_simps
    by (auto intro!: sim_intros sim_call ZAdd)
qed (simp add: zaddFastPath_def sim_ret)

lemma sim_zaddWrite:
  "\<forall>p \<in> set (zv_final v). storable (snd p) \<Longrightarrow> sim view (zaddWrite E pk ch v) (zaddWrite E' pk ch v)"
  unfolding zaddWrite_def Let_def abs_env_simps mem_store_simps by (intro sim_intros sim_call ZAdd)

lemma sim_zaddRun:
  assumes "\<forall>p \<in> set ms. storable (snd p)"
  shows "sim view (attempt (zaddLoop E pk nx xx ms zview0) (zaddWrite E pk ch))
    (attempt (zaddLoop E' pk nx xx ms zview0) (zaddWrite E' pk ch))"
proof (rule sim_attempt_post [OF sim_zaddLoop _ sim_zaddWrite])
  show "\<forall>p \<in> set (zv_final v). storable (snd p)" if "fst (zaddLoop E' pk nx xx ms zview0 w) = Inr v" for w v
    using zaddLoop_final [OF that assms] by (simp add: zview0_def)
qed

lemma sim_zaddFlagPath [sim_intros]: "sim view (zaddFlagPath E key pk f pairs) (zaddFlagPath E' key pk f pairs)"
proof (cases "parsePairs pairs")
  case (Inr ms)
  show ?thesis
    unfolding zaddFlagPath_def Inr sum.case
    by (rule sim_zaddRun [OF parsePairs_storable [OF Inr]] | rule sim_intros)+
qed (simp add: zaddFlagPath_def sim_ret)

lemma sim_zaddIncr [sim_intros]: "sim view (zaddIncr E key pk nx xx pairs) (zaddIncr E' key pk nx xx pairs)"
  using storeScore_storable [of "pairs ! 0"] sim_zincrTail unfolding zaddIncr_def Let_def abs_env_simps mem_store_simps
  by (cases "storeScore (pairs ! 0)") (auto intro!: sim_intros)

lemma sim_loadZStoreOperand [sim_intros]: "sim view (loadZStoreOperand E pk) (loadZStoreOperand E' pk)"
  unfolding loadZStoreOperand_def abs_env_simps mem_store_simps by (intro sim_intros)

lemma sim_loadZOperands [sim_intros]: "sim view (loadZOperands E pks ops) (loadZOperands E' pks ops)"
  by (induction pks arbitrary: ops) (auto intro!: sim_intros)

lemma sim_zset_commands [sim_intros]:
  "sim view (handleZAdd E db args) (handleZAdd E' db args)"
  "sim view (handleZScore E db args) (handleZScore E' db args)"
  "sim view (handleZCount E db args) (handleZCount E' db args)"
  "sim view (zRangeByScore E db args desc) (zRangeByScore E' db args desc)"
  "sim view (handleZCard E db args) (handleZCard E' db args)"
  "sim view (handleZRangeByRank E db args desc) (handleZRangeByRank E' db args desc)"
  "sim view (handleZRankDir E db args desc) (handleZRankDir E' db args desc)"
  "sim view (handleZRem E db args) (handleZRem E' db args)"
  "sim view (handleZRemRangeByRank E db args) (handleZRemRangeByRank E' db args)"
  "sim view (handleZRemRangeByScore E db args) (handleZRemRangeByScore E' db args)"
  "sim view (zRangeByLex E db args desc) (zRangeByLex E' db args desc)"
  "sim view (handleZLexCount E db args) (handleZLexCount E' db args)"
  "sim view (handleZRemRangeByLex E db args) (handleZRemRangeByLex E' db args)"
  unfolding handleZAdd_def handleZScore_def handleZCount_def zRangeByScore_def handleZCard_def
    handleZRangeByRank_def handleZRankDir_def handleZRem_def handleZRemRangeByRank_def
    handleZRemRangeByScore_def zRangeByLex_def handleZLexCount_def handleZRemRangeByLex_def Let_def
    abs_env_simps mem_store_simps
  by (intro sim_intros)+

lemma sim_ZIncrBy [sim_intros]: "sim view (handleZIncrBy E db args) (handleZIncrBy E' db args)"
  using storeScore_storable [of "args ! 2"] sim_zincrTail unfolding handleZIncrBy_def Let_def abs_env_simps mem_store_simps
  by (cases "storeScore (args ! 2)") (auto intro!: sim_intros)

lemma sim_zStoreWrite:
  "\<forall>p \<in> set ms. storable (snd p) \<Longrightarrow> sim view (zStoreWrite E key pk ms) (zStoreWrite E' key pk ms)"
  unfolding zStoreWrite_def abs_env_simps mem_store_simps by (intro sim_intros sim_call ZAdd)

lemma sim_zStoreCombine:
  assumes "\<forall>op \<in> set ops. numbers op"
  shows "sim view (zStoreCombine E iter key pk i n ts ops) (zStoreCombine E' iter key pk i n ts ops)"
proof (cases "parseZStoreOptions ts n")
  case (Inr p)
  obtain ws agg where p: "p = (ws, agg)" by (cases p)
  have "\<forall>w \<in> set ws. number w"
    using Inr number_options [of n ts "replicate n (f64_of_int 1)" zAggSum ws agg]
    by (simp add: parseZStoreOptions_def p)
  then have nums: "numbers (in_order iter (combineZStores ops ws agg i))"
    using numbers_combine [OF assms, of ws agg i] in_order_sub by blast
  show ?thesis
    using domain_error_None [OF _ nums] sim_zStoreWrite
    by (cases "domain_error (in_order iter (combineZStores ops ws agg i))")
      (simp_all add: zStoreCombine_def Inr p sim_ret)
qed (simp add: zStoreCombine_def sim_ret)

lemma sim_ZStore [sim_intros]: "sim view (handleZStore E iter db args i) (handleZStore E' iter db args i)"
proof -
  have "sim view
      (attempt (loadZOperands E pks []) (\<lambda>ops. case ops of None \<Rightarrow> ret (Error ErrWrongType)
        | Some operands \<Rightarrow> zStoreCombine E iter key pk i n ts operands))
      (attempt (loadZOperands E' pks []) (\<lambda>ops. case ops of None \<Rightarrow> ret (Error ErrWrongType)
        | Some operands \<Rightarrow> zStoreCombine E' iter key pk i n ts operands))" for pks key pk n ts
  proof (rule sim_attempt_post [OF sim_loadZOperands])
    show "case ops of None \<Rightarrow> True | Some ops' \<Rightarrow> \<forall>op \<in> set ops'. numbers op"
      if "fst (loadZOperands E' pks [] w) = Inr ops" for w ops
      using that loadZOperands_numbers [of "e_enq E" "e_cfg E" pks "[]" w]
      by (auto simp: abs_env_mem_env split: option.split)
  qed (auto simp: sim_ret sim_zStoreCombine split: option.splits)
  then show ?thesis
    unfolding handleZStore_def Let_def abs_env_simps by (auto intro!: sim_ret split: sum.split)
qed

lemma sim_zset_directions [sim_intros]:
  "sim view (handleZRangeByScore E db args) (handleZRangeByScore E' db args)"
  "sim view (handleZRevRangeByScore E db args) (handleZRevRangeByScore E' db args)"
  "sim view (handleZRange E db args) (handleZRange E' db args)"
  "sim view (handleZRevRange E db args) (handleZRevRange E' db args)"
  "sim view (handleZRank E db args) (handleZRank E' db args)"
  "sim view (handleZRevRank E db args) (handleZRevRank E' db args)"
  "sim view (handleZRangeByLex E db args) (handleZRangeByLex E' db args)"
  "sim view (handleZRevRangeByLex E db args) (handleZRevRangeByLex E' db args)"
  "sim view (handleZUnionStore E iter db args) (handleZUnionStore E' iter db args)"
  "sim view (handleZInterStore E iter db args) (handleZInterStore E' iter db args)"
  unfolding handleZRangeByScore_def handleZRevRangeByScore_def handleZRange_def handleZRevRange_def
    handleZRank_def handleZRevRank_def handleZRangeByLex_def handleZRevRangeByLex_def
    handleZUnionStore_def handleZInterStore_def
  by (intro sim_intros)+

end

end
