(* ===== verification/ZSetSpec.thy ===== *)
theory ZSetSpec
  imports ZSets ListSpec
begin

text \<open>
  Refinement of the Sorted Set commands on one key: over every store that keeps the contract, each of
  them is one operation of a finite map from members to scores (\<open>zset_spec\<close>); ranges and ranks are
  those of the listing of the map by score and then by member (\<open>by_score\<close>). A key exists iff its map
  is not empty, and the counter of the meta item is the number of members.
\<close>

section \<open>The abstract sorted set\<close>

datatype zset_cmd =
    ZAdd bool bool bool "(bytes \<times> bytes) list" | ZAddIncr bool bool bool "(bytes \<times> bytes) list" | ZIncrBy bytes bytes | ZScore bytes | ZCard | ZCount bytes bytes
  | ZRange bool int int bool | ZRank bool bytes | ZRangeByScore bool bytes bytes bool "(int \<times> int) option"
  | ZRem "bytes list" | ZRemRangeByRank int int | ZRemRangeByScore bytes bytes
  | ZRangeByLex bool bytes bytes "(int \<times> int) option" | ZLexCount bytes bytes | ZRemRangeByLex bytes bytes

definition flag_args :: "bool \<Rightarrow> bool \<Rightarrow> bool \<Rightarrow> bytes list" where
  "flag_args nx xx ch = (if nx then [''NX''] else []) @ (if xx then [''XX''] else []) @ (if ch then [''CH''] else [])"

definition score_args :: "(bytes \<times> bytes) list \<Rightarrow> bytes list" where
  "score_args sms = concat (map (\<lambda>(s, m). [s, m]) sms)"

definition limit_args :: "(int \<times> int) option \<Rightarrow> bytes list" where
  "limit_args lmt = (case lmt of None \<Rightarrow> [] | Some (i, n) \<Rightarrow> [''LIMIT'', fmt_int i, fmt_int n])"

fun zset_args :: "bytes \<Rightarrow> zset_cmd \<Rightarrow> bytes list" where
  "zset_args key (ZAdd nx xx ch sms) = [''ZADD'', key] @ flag_args nx xx ch @ score_args sms"
| "zset_args key (ZAddIncr nx xx ch sms) = [''ZADD'', key] @ flag_args nx xx ch @ ''INCR'' # score_args sms"
| "zset_args key (ZIncrBy s m) = [''ZINCRBY'', key, s, m]"
| "zset_args key (ZScore m) = [''ZSCORE'', key, m]"
| "zset_args key ZCard = [''ZCARD'', key]"
| "zset_args key (ZCount a b) = [''ZCOUNT'', key, a, b]"
| "zset_args key (ZRange desc i j ws) =
     [if desc then ''ZREVRANGE'' else ''ZRANGE'', key, fmt_int i, fmt_int j] @ (if ws then [''WITHSCORES''] else [])"
| "zset_args key (ZRank desc m) = [if desc then ''ZREVRANK'' else ''ZRANK'', key, m]"
| "zset_args key (ZRangeByScore desc a b ws lmt) =
     [if desc then ''ZREVRANGEBYSCORE'' else ''ZRANGEBYSCORE'', key, a, b] @
       (if ws then [''WITHSCORES''] else []) @ limit_args lmt"
| "zset_args key (ZRem ms) = [''ZREM'', key] @ ms"
| "zset_args key (ZRemRangeByRank i j) = [''ZREMRANGEBYRANK'', key, fmt_int i, fmt_int j]"
| "zset_args key (ZRemRangeByScore a b) = [''ZREMRANGEBYSCORE'', key, a, b]"
| "zset_args key (ZRangeByLex desc a b lmt) =
     [if desc then ''ZREVRANGEBYLEX'' else ''ZRANGEBYLEX'', key, a, b] @ limit_args lmt"
| "zset_args key (ZLexCount a b) = [''ZLEXCOUNT'', key, a, b]"
| "zset_args key (ZRemRangeByLex a b) = [''ZREMRANGEBYLEX'', key, a, b]"

fun zset_run :: "'s env \<Rightarrow> int \<Rightarrow> zset_cmd \<Rightarrow> bytes list \<Rightarrow> 's handler" where
  "zset_run E db (ZAdd _ _ _ _) args = handleZAdd E db args"
| "zset_run E db (ZAddIncr _ _ _ _) args = handleZAdd E db args"
| "zset_run E db (ZIncrBy _ _) args = handleZIncrBy E db args"
| "zset_run E db (ZScore _) args = handleZScore E db args"
| "zset_run E db ZCard args = handleZCard E db args"
| "zset_run E db (ZCount _ _) args = handleZCount E db args"
| "zset_run E db (ZRange desc _ _ _) args = (if desc then handleZRevRange else handleZRange) E db args"
| "zset_run E db (ZRank desc _) args = (if desc then handleZRevRank else handleZRank) E db args"
| "zset_run E db (ZRangeByScore desc _ _ _ _) args =
     (if desc then handleZRevRangeByScore else handleZRangeByScore) E db args"
| "zset_run E db (ZRem _) args = handleZRem E db args"
| "zset_run E db (ZRemRangeByRank _ _) args = handleZRemRangeByRank E db args"
| "zset_run E db (ZRemRangeByScore _ _) args = handleZRemRangeByScore E db args"
| "zset_run E db (ZRangeByLex desc _ _ _) args = (if desc then handleZRevRangeByLex else handleZRangeByLex) E db args"
| "zset_run E db (ZLexCount _ _) args = handleZLexCount E db args"
| "zset_run E db (ZRemRangeByLex _ _) args = handleZRemRangeByLex E db args"

text \<open>The handler of a command on the request a client sends for it.\<close>

definition zset_handler :: "'s env \<Rightarrow> int \<Rightarrow> bytes \<Rightarrow> zset_cmd \<Rightarrow> 's handler" where
  "zset_handler E db key c = zset_run E db c (zset_args key c)"

text \<open>The order of a sorted set, on the real values of the scores, and the listing of a map by it.\<close>

definition score_order :: "zmember \<Rightarrow> zmember \<Rightarrow> bool" where
  "score_order a b \<longleftrightarrow> rv (snd a) < rv (snd b) \<or> (rv (snd a) = rv (snd b) \<and> fst a < fst b)"

definition by_score :: "(bytes \<rightharpoonup> f64) \<Rightarrow> zmember list \<Rightarrow> bool" where
  "by_score M l \<longleftrightarrow> distinct (map fst l) \<and> map_of l = M \<and> sorted_wrt score_order l"

text \<open>Score bounds: a finite or infinite end, possibly excluded.\<close>

definition above :: "ScoreBound \<Rightarrow> f64 \<Rightarrow> bool" where
  "above b x \<longleftrightarrow> (case sb_Value b of FInf neg \<Rightarrow> neg | FNaN \<Rightarrow> True
     | y \<Rightarrow> if sb_Exclusive b then rv y < rv x else rv y \<le> rv x)"

definition below :: "ScoreBound \<Rightarrow> f64 \<Rightarrow> bool" where
  "below b x \<longleftrightarrow> (case sb_Value b of FInf neg \<Rightarrow> \<not> neg | FNaN \<Rightarrow> True
     | y \<Rightarrow> if sb_Exclusive b then rv x < rv y else rv x \<le> rv y)"

definition in_scores :: "ScoreBound \<Rightarrow> ScoreBound \<Rightarrow> zmember \<Rightarrow> bool" where
  "in_scores mn mx p \<longleftrightarrow> above mn (snd p) \<and> below mx (snd p)"

text \<open>Lexicographic bounds on the members.\<close>

definition lex_above :: "lexBound \<Rightarrow> bytes \<Rightarrow> bool" where
  "lex_above b m \<longleftrightarrow> \<not> lx_posInf b \<and> (lx_negInf b \<or> (if lx_inclusive b then lx_value b \<le> m else lx_value b < m))"

definition lex_below :: "lexBound \<Rightarrow> bytes \<Rightarrow> bool" where
  "lex_below b m \<longleftrightarrow> \<not> lx_negInf b \<and> (lx_posInf b \<or> (if lx_inclusive b then m \<le> lx_value b else m < lx_value b))"

definition in_lex :: "lexBound \<Rightarrow> lexBound \<Rightarrow> zmember \<Rightarrow> bool" where
  "in_lex mn mx p \<longleftrightarrow> lex_above mn (fst p) \<and> lex_below mx (fst p)"

text \<open>The LIMIT option: an offset and a number, all of the rest when that is negative.\<close>

definition limited :: "(int \<times> int) option \<Rightarrow> 'a list \<Rightarrow> 'a list" where
  "limited lmt l =
     (case lmt of
        None \<Rightarrow> l
      | Some (i, n) \<Rightarrow> if i < 0 then [] else if n < 0 then drop (nat i) l else take (nat n) (drop (nat i) l))"

text \<open>Two parsed bounds, or the error of the command.\<close>

definition with_bounds ::
    "(bytes \<Rightarrow> 'b option) \<Rightarrow> bytes \<Rightarrow> bytes \<Rightarrow> bytes \<Rightarrow> (bytes \<rightharpoonup> f64) \<Rightarrow> reply \<Rightarrow> (bytes \<rightharpoonup> f64) \<Rightarrow> ('b \<Rightarrow> 'b \<Rightarrow> bool) \<Rightarrow> bool" where
  "with_bounds parse err a b M r M' P \<longleftrightarrow>
     (case (parse a, parse b) of (Some x, Some y) \<Rightarrow> P x y | _ \<Rightarrow> r = Error err \<and> M' = M)"

text \<open>One score and member of ZADD: NX only adds, XX only updates; the counts of added and of changed members.\<close>

definition zadd_one :: "bool \<Rightarrow> bool \<Rightarrow> zmember \<Rightarrow> (bytes \<rightharpoonup> f64) \<times> int \<times> int \<Rightarrow> (bytes \<rightharpoonup> f64) \<times> int \<times> int" where
  "zadd_one nx xx p S =
     (case p of (m, x) \<Rightarrow> case S of (M, added, changed) \<Rightarrow>
        (case M m of
           None \<Rightarrow> if xx then S else (M(m \<mapsto> unsigned_zero x), added + 1, changed + 1)
         | Some y \<Rightarrow> if nx then S else (M(m \<mapsto> unsigned_zero x), added, if rv x = rv y then changed else changed + 1)))"

definition zadd_all :: "bool \<Rightarrow> bool \<Rightarrow> zmember list \<Rightarrow> (bytes \<rightharpoonup> f64) \<Rightarrow> (bytes \<rightharpoonup> f64) \<times> int \<times> int" where
  "zadd_all nx xx ps M = fold (zadd_one nx xx) ps (M, 0, 0)"

text \<open>The reply of a range, and the removal of members.\<close>

definition range_reply :: "(bytes \<rightharpoonup> f64) \<Rightarrow> bool \<Rightarrow> reply \<Rightarrow> (zmember list \<Rightarrow> zmember list) \<Rightarrow> bool" where
  "range_reply M ws r f \<longleftrightarrow>
     (if M = Map.empty then r = EmptyArray else \<exists>l. by_score M l \<and> r = zMembersReply (f l) ws)"

definition removes :: "(bytes \<rightharpoonup> f64) \<Rightarrow> reply \<Rightarrow> (bytes \<rightharpoonup> f64) \<Rightarrow> bytes set \<Rightarrow> bool" where
  "removes M r M' A \<longleftrightarrow> M' = M |` (- A) \<and> r = IntReply (int (card (dom M \<inter> A)))"

definition directed :: "bool \<Rightarrow> 'a list \<Rightarrow> 'a list" where
  "directed desc l = (if desc then rev l else l)"

text \<open>The increment of a member by the addition of the backend, which the check of the domain precedes.\<close>

definition zincr_effect ::
    "(f64 \<Rightarrow> f64 \<Rightarrow> f64 option) \<Rightarrow> f64 \<Rightarrow> bytes \<Rightarrow> (bytes \<rightharpoonup> f64) \<Rightarrow> reply \<Rightarrow> (bytes \<rightharpoonup> f64) \<Rightarrow> bool" where
  "zincr_effect add d m M r M' \<longleftrightarrow>
     (if scoreOutOfDomain (case M m of None \<Rightarrow> d | Some x \<Rightarrow> fadd x d) then r = Error ErrScoreOutOfRange \<and> M' = M
      else
        case add (case M m of None \<Rightarrow> FZero False | Some x \<Rightarrow> x) d of
          None \<Rightarrow> r = Error ErrBackendError \<and> M' = M
        | Some x \<Rightarrow> r = BulkString (formatScore x) \<and> M' = M(m \<mapsto> unsigned_zero x))"

text \<open>
  What each command may reply, and leaves, of a map; an absent key is the empty map. \<open>add\<close> is the
  addition of the backend, which ZINCRBY and ZADD INCR use.
\<close>

fun zset_spec :: "(f64 \<Rightarrow> f64 \<Rightarrow> f64 option) \<Rightarrow> zset_cmd \<Rightarrow> (bytes \<rightharpoonup> f64) \<Rightarrow> reply \<Rightarrow> (bytes \<rightharpoonup> f64) \<Rightarrow> bool" where
  "zset_spec add (ZAdd nx xx ch sms) M r M' \<longleftrightarrow>
     (if nx \<and> xx then r = Error errZaddNxXx \<and> M' = M
      else
        case parsePairs (score_args sms) of
          Inl e \<Rightarrow> r = Error e \<and> M' = M
        | Inr ps \<Rightarrow>
            (case zadd_all nx xx ps M of (N, added, changed) \<Rightarrow>
               M' = N \<and> r = IntReply (if ch then changed else added)))"
| "zset_spec add (ZIncrBy s m) M r M' \<longleftrightarrow>
     (case storeScore s of
        Inl e \<Rightarrow> r = Error e \<and> M' = M
      | Inr d \<Rightarrow> zincr_effect add d m M r M')"
| "zset_spec add (ZAddIncr nx xx ch sms) M r M' \<longleftrightarrow>
     (if nx \<and> xx then r = Error errZaddNxXx \<and> M' = M
      else
        case sms of
          [(s, m)] \<Rightarrow>
            (case storeScore s of
               Inl e \<Rightarrow> r = Error e \<and> M' = M
             | Inr d \<Rightarrow>
                 if (nx \<and> M m \<noteq> None) \<or> (xx \<and> M m = None) then r = NullBulk \<and> M' = M
                 else zincr_effect add d m M r M')
        | _ \<Rightarrow> r = Error errZaddIncr \<and> M' = M)"
| "zset_spec add (ZScore m) M r M' \<longleftrightarrow> M' = M \<and>
     r = (case M m of None \<Rightarrow> NullBulk | Some x \<Rightarrow> BulkString (formatScore x))"
| "zset_spec add ZCard M r M' \<longleftrightarrow> M' = M \<and> r = IntReply (int (card (dom M)))"
| "zset_spec add (ZCount a b) M r M' \<longleftrightarrow>
     with_bounds parseScoreBound errMinOrMaxNotFloat a b M r M' (\<lambda>mn mx.
       M' = M \<and> r = IntReply (int (card {m. \<exists>x. M m = Some x \<and> in_scores mn mx (m, x)})))"
| "zset_spec add (ZRange desc i j ws) M r M' \<longleftrightarrow> M' = M \<and>
     range_reply M ws r (\<lambda>l. index_range (directed desc l) i j)"
| "zset_spec add (ZRank desc m) M r M' \<longleftrightarrow> M' = M \<and>
     (if M m = None then r = NullBulk
      else \<exists>l k. by_score M l \<and> k < length l \<and> fst (directed desc l ! k) = m \<and> r = IntReply (int k))"
| "zset_spec add (ZRangeByScore desc a b ws lmt) M r M' \<longleftrightarrow>
     with_bounds parseScoreBound errMinOrMaxNotFloat a b M r M' (\<lambda>x y. M' = M \<and>
       range_reply M ws r (\<lambda>l. limited lmt
         (directed desc (filter (if desc then in_scores y x else in_scores x y) l))))"
| "zset_spec add (ZRem ms) M r M' \<longleftrightarrow> removes M r M' (set ms)"
| "zset_spec add (ZRemRangeByRank i j) M r M' \<longleftrightarrow>
     (\<exists>l. by_score M l \<and> removes M r M' (fst ` set (index_range l i j)))"
| "zset_spec add (ZRemRangeByScore a b) M r M' \<longleftrightarrow>
     with_bounds parseScoreBound errMinOrMaxNotFloat a b M r M' (\<lambda>mn mx.
       removes M r M' {m. \<exists>x. M m = Some x \<and> in_scores mn mx (m, x)})"
| "zset_spec add (ZRangeByLex desc a b lmt) M r M' \<longleftrightarrow>
     with_bounds parseLexBound errNotValidStringRange a b M r M' (\<lambda>x y. M' = M \<and>
       range_reply M False r (\<lambda>l. limited lmt
         (directed desc (filter (if desc then in_lex y x else in_lex x y) l))))"
| "zset_spec add (ZLexCount a b) M r M' \<longleftrightarrow>
     with_bounds parseLexBound errNotValidStringRange a b M r M' (\<lambda>mn mx.
       M' = M \<and> r = IntReply (int (card {m. \<exists>x. M m = Some x \<and> in_lex mn mx (m, x)})))"
| "zset_spec add (ZRemRangeByLex a b) M r M' \<longleftrightarrow>
     with_bounds parseLexBound errNotValidStringRange a b M r M' (\<lambda>mn mx.
       removes M r M' {m. \<exists>x. M m = Some x \<and> in_lex mn mx (m, x)})"

text \<open>
  What the spec needs of a request: sizes, 64-bit integers, a score before the first member that is no
  option; for ZADD with an option no expired key in the way (see below), and for an increment a
  backend that can add, and hold, the sum.
\<close>

definition key_expired :: "tbl \<Rightarrow> bytes \<Rightarrow> bool" where
  "key_expired t pk \<longleftrightarrow> (case t_meta t pk of None \<Rightarrow> False | Some m \<Rightarrow> IsExpired m (t_time t))"

definition sum_ok :: "tbl \<Rightarrow> (bytes \<rightharpoonup> f64) \<Rightarrow> bytes \<Rightarrow> bytes \<Rightarrow> bool" where
  "sum_ok t M s m \<longleftrightarrow>
     (case storeScore s of
        Inl _ \<Rightarrow> True
      | Inr d \<Rightarrow>
          (case t_add t (case M m of None \<Rightarrow> FZero False | Some x \<Rightarrow> x) d of None \<Rightarrow> M m \<noteq> None | Some x \<Rightarrow> storable x))"

definition zset_cmd_ok :: "tbl \<Rightarrow> bytes \<Rightarrow> bytes \<Rightarrow> (bytes \<rightharpoonup> f64) \<Rightarrow> zset_cmd \<Rightarrow> bool" where
  "zset_cmd_ok t key pk M c \<longleftrightarrow>
     (case c of
        ZAdd nx xx ch sms \<Rightarrow> sms \<noteq> [] \<and> write_fits key (map snd sms) [] \<and>
          ToUpper (fst (hd sms)) \<notin> set [''NX'', ''XX'', ''CH'', ''INCR''] \<and> (nx \<or> xx \<or> ch \<longrightarrow> \<not> key_expired t pk)
      | ZAddIncr nx xx ch sms \<Rightarrow> sms \<noteq> [] \<and> write_fits key (map snd sms) [] \<and>
          ToUpper (fst (hd sms)) \<notin> set [''NX'', ''XX'', ''CH'', ''INCR''] \<and> (nx \<or> xx \<longrightarrow> \<not> key_expired t pk) \<and>
          list_all (\<lambda>(s, m). sum_ok t M s m) sms
      | ZIncrBy s m \<Rightarrow> write_fits key [m] [] \<and> sum_ok t M s m
      | ZRange desc i j ws \<Rightarrow> i64 i \<and> i64 j
      | ZRangeByScore desc a b ws lmt \<Rightarrow> (\<forall>i n. lmt = Some (i, n) \<longrightarrow> i64 i \<and> i64 n)
      | ZRemRangeByRank i j \<Rightarrow> i64 i \<and> i64 j
      | ZRangeByLex desc a b lmt \<Rightarrow> (\<forall>i n. lmt = Some (i, n) \<longrightarrow> i64 i \<and> i64 n)
      | _ \<Rightarrow> True)"

text \<open>The key holds the map \<open>M\<close>: its counter is the number of members and it exists iff there is one.\<close>

abbreviation zget :: "tbl \<Rightarrow> bytes \<Rightarrow> zmember list" where
  "zget t pk \<equiv> zlist (t_zset t pk)"

definition zset_ok :: "zmember list \<Rightarrow> bool" where
  "zset_ok xs \<longleftrightarrow> zitems_ok xs \<and> list_all (\<lambda>(m, _). memberStorable m) xs"

definition zset_holds :: "tbl \<Rightarrow> bytes \<Rightarrow> (bytes \<rightharpoonup> f64) \<Rightarrow> bool" where
  "zset_holds t pk M \<longleftrightarrow> (\<exists>xs. coll_holds TypeZSet zget t pk xs \<and> zset_ok xs \<and> map_of xs = M)"

section \<open>Members in order\<close>

lemma by_score_zitems: "zitems_ok xs \<Longrightarrow> by_score (map_of xs) xs"
proof -
  assume ok: "zitems_ok xs"
  have "sorted_wrt score_order xs"
  proof (rule sorted_wrt_mono_rel [of xs zless])
    show "sorted_wrt zless xs" using ok by (simp add: zitems_ok_def)
    fix a b
    assume "a \<in> set xs" "b \<in> set xs" "zless a b"
    moreover from this have "finite64 (snd a)" "finite64 (snd b)"
      using zitems_ok_zmembers [OF ok] by (simp_all add: zmembers_def)
    ultimately show "score_order a b" using zless_rv by (simp add: score_order_def)
  qed
  then show ?thesis using ok by (simp add: by_score_def zitems_ok_def)
qed

lemma selected_members:
  assumes "distinct (map fst xs)"
  shows "{m. \<exists>x. map_of xs m = Some x \<and> P (m, x)} = fst ` set (filter P xs)"
    and "int (card {m. \<exists>x. map_of xs m = Some x \<and> P (m, x)}) = int (length (filter P xs))"
proof -
  show eq: "{m. \<exists>x. map_of xs m = Some x \<and> P (m, x)} = fst ` set (filter P xs)"
  proof (rule set_eqI)
    fix m
    have "(m \<in> fst ` set (filter P xs)) = (\<exists>x. (m, x) \<in> set xs \<and> P (m, x))" by force
    then show "(m \<in> {m. \<exists>x. map_of xs m = Some x \<and> P (m, x)}) = (m \<in> fst ` set (filter P xs))"
      using map_of_eq_Some_iff [OF assms] by simp
  qed
  show "int (card {m. \<exists>x. map_of xs m = Some x \<and> P (m, x)}) = int (length (filter P xs))"
    unfolding eq using distinct_card [OF distinct_map_filter [OF assms, of P]] by simp
qed

lemma ZScoreInRange_iff: "finite64 (snd p) \<Longrightarrow> ZScoreInRange (snd p) mn mx = in_scores mn mx p"
proof -
  assume fin: "finite64 (snd p)"
  have inf: "flt (FInf s) x = s" "flt x (FInf s) = (\<not> s)" "fle (FInf s) x = s" "fle x (FInf s) = (\<not> s)"
    "\<not> flt FNaN x" "\<not> flt x FNaN" "\<not> fle FNaN x" "\<not> fle x FNaN" if "finite64 x" for s x
    using that by (auto simp: flt_def fle_def feq_def finite64_def split: f64.splits)
  have fin': "finite64 (FZero s)" "finite64 (FFin a e)" for s a e by (simp_all add: finite64_def)
  note cmp = compare_rv [OF fin fin'(1)] compare_rv [OF fin'(1) fin] compare_rv [OF fin fin'(2)] compare_rv [OF fin'(2) fin]
  show ?thesis
    by (cases "sb_Value mn"; cases "sb_Value mx")
      (simp_all add: ZScoreInRange_def in_scores_def above_def below_def inf [OF fin] cmp not_less not_le)
qed

lemma lexInRange_iff: "lexInRange (fst p) mn mx = in_lex mn mx p"
  unfolding lexInRange_def in_lex_def lex_above_def lex_below_def by (simp add: not_less not_le)

lemma applyZLimit_limited: "applyZLimit l i n = limited (Some (i, n)) l"
  by (auto simp: applyZLimit_def limited_def Let_def)

lemma rank_range_index_range:
  assumes "i64 i" "i64 j" "int (length xs) \<le> max_i64"
  shows "rank_range xs i j = index_range xs i j"
proof -
  have n: "i64 (int (length xs))" using assms(3) by (simp add: i64_def)
  show ?thesis
    unfolding rank_range_def ZNormalizeRankRange_eq [OF of_nat_0_le_iff n assms(1,2)] index_range_slice Let_def from_end_def
    by (auto simp: max_def min_def add.commute)
qed

lemma zrank_position:
  assumes "m \<in> fst ` set l" and "distinct (map fst l)"
  shows "\<exists>k < length l. fst (l ! k) = m \<and> zrank l m = Some (int k)"
proof -
  let ?k = "length (takeWhile (\<lambda>p. fst p \<noteq> m) l)"
  obtain p where p: "p \<in> set l" "fst p = m" using assms(1) by auto
  then have "takeWhile (\<lambda>p. fst p \<noteq> m) l \<noteq> l" using set_takeWhileD by metis
  then have "?k < length l" using length_takeWhile_le le_neq_implies_less takeWhile_eq_take take_all by metis
  then show ?thesis using nth_length_takeWhile [of "\<lambda>p. fst p \<noteq> m" l] assms(1) by (auto simp: zrank_def)
qed

section \<open>Each read, over the abstract table\<close>

abbreviation zrun :: "tbl \<Rightarrow> bytes \<Rightarrow> zset_cmd \<Rightarrow> zmember list \<Rightarrow> reply \<times> tbl world \<Rightarrow> bool" where
  "zrun t pk c xs run \<equiv> spec_run TypeZSet zget zset_ok map_of (zset_spec (t_add t) c (map_of xs)) t pk run"

lemmas withKey_zset = zset_coll.withKey_spec [where ok = zset_ok and \<alpha> = map_of]
lemmas read_zset = zset_coll.read_spec [where ok = zset_ok and \<alpha> = map_of]

lemma spec_run_cong:
  "(\<And>r M. P r M = Q r M) \<Longrightarrow> spec_run ty get ok \<alpha> P t pk run = spec_run ty get ok \<alpha> Q t pk run"
  by (simp add: spec_run_def)

lemma unchanged:
  "coll_holds ty get (backend w) pk xs \<Longrightarrow> ok xs \<Longrightarrow> P r (\<alpha> xs) \<Longrightarrow> spec_run ty get ok \<alpha> P (backend w) pk (r, w)"
  by (rule spec_runI [OF coll_run_same])

lemma with_bounds_run:
  assumes "coll_holds ty get (backend w) pk xs" and "ok xs"
    and "\<And>x y. parse a = Some x \<Longrightarrow> parse b = Some y \<Longrightarrow>
      spec_run ty get ok map_of (\<lambda>r M. P r M x y) (backend w) pk (k x y w)"
  shows "spec_run ty get ok map_of (\<lambda>r M. with_bounds parse err a b (map_of xs) r M (P r M)) (backend w) pk
    ((case parse a of None \<Rightarrow> ret (Error err)
      | Some x \<Rightarrow> (case parse b of None \<Rightarrow> ret (Error err) | Some y \<Rightarrow> k x y)) w)"
proof -
  have "spec_run ty get ok map_of (\<lambda>r M. r = Error err \<and> M = map_of xs) (backend w) pk (Error err, w)"
    by (rule unchanged [where ok = ok and \<alpha> = map_of]) (simp_all add: assms(1,2))
  then show ?thesis
    using assms(3) by (cases "parse a"; cases "parse b") (simp_all add: with_bounds_def ret_def)
qed

text \<open>The parts of a request.\<close>

lemma parseWithScores_args: "parseWithScores (if ws then [''WITHSCORES''] else []) = Some ws"
  by (simp add: parseWithScores_def equalFold_def)

lemma parseScoreTail_args:
  assumes "\<forall>i n. lmt = Some (i, n) \<longrightarrow> i64 i \<and> i64 n"
  shows "\<exists>i n. parseScoreTail ((if ws then [''WITHSCORES''] else []) @ limit_args lmt) = Inr (ws, i, n) \<and>
    (\<forall>l :: zmember list. applyZLimit l i n = limited lmt l)"
proof -
  have fold: "equalFold ''WITHSCORES'' ''WITHSCORES''" "equalFold ''LIMIT'' ''LIMIT''" "\<not> equalFold ''LIMIT'' ''WITHSCORES''"
    by code_simp+
  have id: "applyZLimit l 0 (-1) = l" for l :: "zmember list"
    by (cases l) (simp_all add: applyZLimit_def)
  show ?thesis
  proof (cases lmt)
    case None
    then show ?thesis by (cases ws) (simp_all add: parseScoreTail_def limit_args_def fold id limited_def)
  next
    case (Some p)
    then obtain i n where p: "lmt = Some (i, n)" "i64 i" "i64 n" using assms by (cases p) simp
    then show ?thesis
      by (cases ws) (simp_all add: parseScoreTail_def limit_args_def fold ParseInt_fmt applyZLimit_limited)
  qed
qed

lemma parseLexLimit_args:
  assumes "\<forall>i n. lmt = Some (i, n) \<longrightarrow> i64 i \<and> i64 n"
  shows "\<exists>i n. parseLexLimit (limit_args lmt) = Inr (i, n) \<and> (\<forall>l :: zmember list. applyZLimit l i n = limited lmt l)"
proof -
  have fold: "equalFold ''LIMIT'' ''LIMIT''" by code_simp
  have id: "applyZLimit l 0 (-1) = l" for l :: "zmember list"
    by (cases l) (simp_all add: applyZLimit_def)
  show ?thesis
  proof (cases lmt)
    case None
    then show ?thesis by (simp add: parseLexLimit_def limit_args_def id limited_def)
  next
    case (Some p)
    then obtain i n where p: "lmt = Some (i, n)" "i64 i" "i64 n" using assms by (cases p) simp
    then show ?thesis
      by (simp add: parseLexLimit_def limit_args_def fold ParseInt_fmt applyZLimit_limited numeral_2_eq_2)
  qed
qed

lemma zset_okD:
  assumes "zset_ok xs"
  shows "zitems_ok xs" "distinct (map fst xs)" "\<not> memberStorable m \<Longrightarrow> map_of xs m = None" "by_score (map_of xs) xs"
    and "p \<in> set xs \<Longrightarrow> finite64 (snd p)" and "xs = [] \<longleftrightarrow> map_of xs = Map.empty"
    and "int (card (dom (map_of xs))) = int (length xs)"
proof -
  show ok: "zitems_ok xs" using assms by (simp add: zset_ok_def)
  then show d: "distinct (map fst xs)" by (simp add: zitems_ok_def)
  show "\<not> memberStorable m \<Longrightarrow> map_of xs m = None"
    using assms by (auto simp: zset_ok_def list_all_iff map_of_eq_None_iff)
  show "by_score (map_of xs) xs" by (rule by_score_zitems [OF ok])
  show "p \<in> set xs \<Longrightarrow> finite64 (snd p)" using zitems_ok_zmembers [OF ok] by (simp add: zmembers_def)
  show "xs = [] \<longleftrightarrow> map_of xs = Map.empty" by simp
  show "int (card (dom (map_of xs))) = int (length xs)"
    using distinct_card [OF d] by (simp add: dom_map_of_conv_image_fst)
qed

lemma ranged:
  assumes "zset_ok xs" and "xs \<noteq> []"
  shows "range_reply (map_of xs) ws (zMembersReply (f xs) ws) f"
  using zset_okD(4,6) [OF assms(1)] assms(2) by (auto simp: range_reply_def)

lemma range_reply_empty: "range_reply Map.empty ws EmptyArray f"
  by (simp add: range_reply_def)

lemma filter_in_scores: "zset_ok xs \<Longrightarrow> filter (\<lambda>p. ZScoreInRange (snd p) mn mx) xs = filter (in_scores mn mx) xs"
  by (rule filter_cong [OF refl]) (simp add: ZScoreInRange_iff zset_okD(5))

lemma filter_in_lex: "filter (\<lambda>p. lexInRange (fst p) mn mx) xs = filter (in_lex mn mx) xs"
  by (simp add: lexInRange_iff)

lemma zrun_read:
  assumes "coll_holds TypeZSet zget (backend w) pk xs" and "zset_ok xs"
    and "xs = [] \<Longrightarrow> zset_spec (t_add (backend w)) c Map.empty r0 Map.empty"
    and "\<And>m. zget (backend w) pk = xs \<Longrightarrow> m_count m = int (length xs) \<Longrightarrow> g m w = (r, w)"
    and "xs \<noteq> [] \<Longrightarrow> zset_spec (t_add (backend w)) c (map_of xs) r (map_of xs)"
  shows "zrun (backend w) pk c xs (withKey (mem_env q cfg) pk TypeZSet (ret r0) g w)"
proof (rule read_zset [OF assms(1), where ?r0.0 = r0 and r = r])
  show "zset_spec (t_add (backend w)) c (map_of xs) r0 (map_of [])" if "xs = []" using assms(3) that by simp
qed (use assms in \<open>simp_all add: ret_def\<close>)

lemma simple_reads:
  assumes holds: "coll_holds TypeZSet zget (backend w) (encodePK cfg db key) xs" and ok: "zset_ok xs"
  shows "zrun (backend w) (encodePK cfg db key) (ZScore m) xs (zset_handler (mem_env q cfg) db key (ZScore m) w)"
    and "zrun (backend w) (encodePK cfg db key) ZCard xs (zset_handler (mem_env q cfg) db key ZCard w)"
    and "zrun (backend w) (encodePK cfg db key) (ZRank desc m) xs (zset_handler (mem_env q cfg) db key (ZRank desc m) w)"
proof -
  note run = attempt_def call_mem ret_def on_tbl_def
  note zok = zset_okD [OF ok]
  show "zrun (backend w) (encodePK cfg db key) (ZScore m) xs (zset_handler (mem_env q cfg) db key (ZScore m) w)"
    unfolding zset_handler_def zset_run.simps zset_args.simps handleZScore_def Let_def mem_env_simps mem_store_simps
      nth_Cons_0 nth_Cons_Suc One_nat_def numeral_2_eq_2
    by (rule zrun_read [OF holds ok, where r = "case map_of xs m of None \<Rightarrow> NullBulk | Some x \<Rightarrow> BulkString (formatScore x)"])
      (simp_all add: run zok(3) sp_ZScore_def zscore_def split: option.split)
  show "zrun (backend w) (encodePK cfg db key) ZCard xs (zset_handler (mem_env q cfg) db key ZCard w)"
    unfolding zset_handler_def zset_run.simps zset_args.simps handleZCard_def Let_def mem_env_simps mem_store_simps
      nth_Cons_0 nth_Cons_Suc One_nat_def
    by (rule zrun_read [OF holds ok, where r = "IntReply (int (length xs))"]) (simp_all add: run zok(7))
  define ord where "ord = directed desc xs"
  have ord: "set ord = set xs" "distinct (map fst ord)"
    using zok(2) by (simp_all add: ord_def directed_def flip: rev_map)
  define r where "r = (case zrank ord m of None \<Rightarrow> NullBulk | Some n \<Rightarrow> IntReply n)"
  have spec: "zset_spec add (ZRank desc m) (map_of xs) r (map_of xs)" for add
  proof (cases "m \<in> fst ` set xs")
    case True
    then obtain k where k: "k < length ord" "fst (ord ! k) = m" "zrank ord m = Some (int k)"
      using zrank_position [of m ord] ord by auto
    have "length ord = length xs" by (simp add: ord_def directed_def)
    then have "\<exists>l k. by_score (map_of xs) l \<and> k < length l \<and> fst (directed desc l ! k) = m \<and> r = IntReply (int k)"
      using zok(4) k by (intro exI [of _ xs] exI [of _ k]) (simp add: r_def flip: ord_def)
    moreover have "map_of xs m \<noteq> None" using True by (simp add: map_of_eq_None_iff)
    ultimately show ?thesis by auto
  next
    case False
    then show ?thesis using ord(1) by (simp add: r_def zrank_def map_of_eq_None_iff)
  qed
  have unst: "r = NullBulk" if "\<not> memberStorable m"
    using zok(3) [OF that] ord(1) by (simp add: r_def zrank_def map_of_eq_None_iff)
  have "zrun (backend w) (encodePK cfg db key) (ZRank desc m) xs (handleZRankDir (mem_env q cfg) db [n, key, m] desc w)" for n
    unfolding handleZRankDir_def Let_def mem_env_simps mem_store_simps nth_Cons_0 nth_Cons_Suc One_nat_def numeral_2_eq_2
  proof (rule zrun_read [OF holds ok, where r = r])
    show "zset_spec (t_add (backend w)) (ZRank desc m) Map.empty NullBulk Map.empty" by simp
    show "(if \<not> memberStorable m then ret NullBulk
        else attempt (call (sp_ZRank (encodePK cfg db key) m desc))
          (\<lambda>rank. case rank of None \<Rightarrow> ret NullBulk | Some n \<Rightarrow> ret (IntReply n))) w = (r, w)"
      if "zget (backend w) (encodePK cfg db key) = xs"
      using that unst by (auto simp: run sp_ZRank_def r_def ord_def directed_def split: option.split)
  qed (rule spec)
  then show "zrun (backend w) (encodePK cfg db key) (ZRank desc m) xs (zset_handler (mem_env q cfg) db key (ZRank desc m) w)"
    by (cases desc) (simp_all add: zset_handler_def handleZRank_def handleZRevRank_def del: zset_spec.simps)
qed

lemma bounded_reads:
  assumes holds: "coll_holds TypeZSet zget (backend w) (encodePK cfg db key) xs" and ok: "zset_ok xs"
    and len: "int (length xs) \<le> max_i64"
  shows "zrun (backend w) (encodePK cfg db key) (ZCount a b) xs (zset_handler (mem_env q cfg) db key (ZCount a b) w)"
    and "zrun (backend w) (encodePK cfg db key) (ZLexCount a b) xs (zset_handler (mem_env q cfg) db key (ZLexCount a b) w)"
proof -
  note run = attempt_def call_mem ret_def on_tbl_def
  note sel = selected_members(2) [OF zset_okD(2) [OF ok]]
  have all: "rank_range xs 0 (-1) = xs"
    using rank_range_index_range [of 0 "-1" xs] len by (simp add: i64_def index_range_slice from_end_def Let_def)
  show "zrun (backend w) (encodePK cfg db key) (ZCount a b) xs (zset_handler (mem_env q cfg) db key (ZCount a b) w)"
    unfolding zset_handler_def zset_run.simps zset_args.simps handleZCount_def Let_def mem_env_simps mem_store_simps
      nth_Cons_0 nth_Cons_Suc One_nat_def numeral_2_eq_2 numeral_3_eq_3 withScoreBounds_def zset_spec.simps
  proof (rule with_bounds_run [OF holds, where ok = zset_ok])
    fix mn mx
    assume p: "parseScoreBound a = Some mn" "parseScoreBound b = Some mx"
    show "spec_run TypeZSet zget zset_ok map_of
        (\<lambda>r M. M = map_of xs \<and> r = IntReply (int (card {m. \<exists>x. map_of xs m = Some x \<and> in_scores mn mx (m, x)})))
        (backend w) (encodePK cfg db key)
        (withKey (mem_env q cfg) (encodePK cfg db key) TypeZSet (ret (IntReply 0))
          (\<lambda>_. attempt (call (sp_ZCount (encodePK cfg db key) mn mx)) (\<lambda>n. ret (IntReply n))) w)"
      by (rule read_zset [OF holds ok, where ?r0.0 = "IntReply 0"
            and r = "IntReply (int (length (filter (in_scores mn mx) xs)))"])
        (simp_all add: run sp_ZCount_def zrange_score_def filter_in_scores [OF ok] sel)
  qed (rule ok)
  show "zrun (backend w) (encodePK cfg db key) (ZLexCount a b) xs (zset_handler (mem_env q cfg) db key (ZLexCount a b) w)"
    unfolding zset_handler_def zset_run.simps zset_args.simps handleZLexCount_def Let_def mem_env_simps mem_store_simps
      nth_Cons_0 nth_Cons_Suc One_nat_def numeral_2_eq_2 numeral_3_eq_3 withLexBounds_def zset_spec.simps
  proof (rule with_bounds_run [OF holds, where ok = zset_ok])
    fix mn mx
    assume p: "parseLexBound a = Some mn" "parseLexBound b = Some mx"
    show "spec_run TypeZSet zget zset_ok map_of
        (\<lambda>r M. M = map_of xs \<and> r = IntReply (int (card {m. \<exists>x. map_of xs m = Some x \<and> in_lex mn mx (m, x)})))
        (backend w) (encodePK cfg db key)
        (withKey (mem_env q cfg) (encodePK cfg db key) TypeZSet (ret (IntReply 0))
          (\<lambda>_. attempt (call (sp_ZRangeByRank (encodePK cfg db key) 0 (-1) False))
            (\<lambda>all. ret (IntReply (int (length (filter (\<lambda>m. lexInRange (fst m) mn mx) all)))))) w)"
      by (rule read_zset [OF holds ok, where ?r0.0 = "IntReply 0"
            and r = "IntReply (int (length (filter (in_lex mn mx) xs)))"])
        (simp_all add: run sp_ZRangeByRank_def zrange_rank_def all filter_in_lex sel)
  qed (rule ok)
qed

lemma range_reads:
  assumes holds: "coll_holds TypeZSet zget (backend w) (encodePK cfg db key) xs" and ok: "zset_ok xs"
    and len: "int (length xs) \<le> max_i64" and cap: "MaxCollectionResult cfg \<le> 0"
  shows "i64 i \<Longrightarrow> i64 j \<Longrightarrow> zrun (backend w) (encodePK cfg db key) (ZRange desc i j ws) xs
      (zset_handler (mem_env q cfg) db key (ZRange desc i j ws) w)"
    and "\<forall>i n. lmt = Some (i, n) \<longrightarrow> i64 i \<and> i64 n \<Longrightarrow>
      zrun (backend w) (encodePK cfg db key) (ZRangeByScore desc a b ws lmt) xs
        (zset_handler (mem_env q cfg) db key (ZRangeByScore desc a b ws lmt) w)"
    and "\<forall>i n. lmt = Some (i, n) \<longrightarrow> i64 i \<and> i64 n \<Longrightarrow>
      zrun (backend w) (encodePK cfg db key) (ZRangeByLex desc a b lmt) xs
        (zset_handler (mem_env q cfg) db key (ZRangeByLex desc a b lmt) w)"
proof -
  let ?pk = "encodePK cfg db key" and ?E = "mem_env q cfg"
  note run = attempt_def call_mem ret_def on_tbl_def
  have all: "rank_range xs 0 (-1) = xs"
    using rank_range_index_range [of 0 "-1" xs] len by (simp add: i64_def index_range_slice from_end_def Let_def)
  {
    assume ij: "i64 i" "i64 j"
    have "length (directed desc xs) = length xs" by (simp add: directed_def)
    then have range: "rank_range (directed desc xs) i j = index_range (directed desc xs) i j"
      using rank_range_index_range [OF ij, of "directed desc xs"] len by simp
    have eq: "handleZRangeByRank ?E db ([c, key, fmt_int i, fmt_int j] @ (if ws then [''WITHSCORES''] else [])) desc =
        withKey ?E ?pk TypeZSet (ret EmptyArray) (\<lambda>m. attempt (call (sp_ZRangeByRank ?pk i j desc)) (\<lambda>ms. ret (zMembersReply ms ws)))"
      for c
      using cap by (simp add: handleZRangeByRank_def Let_def withInts_def ParseInt_fmt ij parseWithScores_args resultCapExceeded_def)
    have "zrun (backend w) ?pk (ZRange desc i j ws) xs
        (handleZRangeByRank ?E db ([c, key, fmt_int i, fmt_int j] @ (if ws then [''WITHSCORES''] else [])) desc w)" for c
      unfolding eq
    proof (rule zrun_read [OF holds ok, where r = "zMembersReply (index_range (directed desc xs) i j) ws"])
      show "xs \<noteq> [] \<Longrightarrow> zset_spec (t_add (backend w)) (ZRange desc i j ws) (map_of xs)
          (zMembersReply (index_range (directed desc xs) i j) ws) (map_of xs)"
        using ranged [OF ok, where f = "\<lambda>l. index_range (directed desc l) i j"] by simp
    qed (use range in \<open>simp_all add: run sp_ZRangeByRank_def zrange_rank_def directed_def range_reply_empty split: if_splits\<close>)
    then show "zrun (backend w) ?pk (ZRange desc i j ws) xs (zset_handler ?E db key (ZRange desc i j ws) w)"
      by (cases desc) (simp_all add: zset_handler_def handleZRange_def handleZRevRange_def del: zset_spec.simps)
  }
  assume lmt: "\<forall>i n. lmt = Some (i, n) \<longrightarrow> i64 i \<and> i64 n"
  {
    obtain off n where args: "parseScoreTail ((if ws then [''WITHSCORES''] else []) @ limit_args lmt) = Inr (ws, off, n)"
      "\<And>l :: zmember list. applyZLimit l off n = limited lmt l"
      using parseScoreTail_args [OF lmt, of ws] by metis
    have "zrun (backend w) ?pk (ZRangeByScore desc a b ws lmt) xs
        (zRangeByScore ?E db ([c, key, a, b] @ (if ws then [''WITHSCORES''] else []) @ limit_args lmt) desc w)" for c
      unfolding zRangeByScore_def Let_def withScoreBounds_def zset_spec.simps mem_env_simps mem_store_simps
    proof (simp only: numeral_nat nth_Cons_0 nth_Cons_Suc append_Cons append_Nil drop_Suc_Cons drop_0 One_nat_def,
        rule with_bounds_run [OF holds, where ok = zset_ok])
      fix x y
      let ?in = "if desc then in_scores y x else in_scores x y"
      let ?f = "\<lambda>l. limited lmt (directed desc (filter ?in l))"
      show "spec_run TypeZSet zget zset_ok map_of (\<lambda>r M. M = map_of xs \<and> range_reply (map_of xs) ws r ?f) (backend w) ?pk
        ((case if desc then (y, x) else (x, y) of (mn, mx) \<Rightarrow>
           case parseScoreTail ((if ws then [''WITHSCORES''] else []) @ limit_args lmt) of Inl e \<Rightarrow> ret (Error e)
           | Inr (withScores, offset, n) \<Rightarrow> withKey ?E ?pk TypeZSet (ret EmptyArray)
               (\<lambda>_. attempt (call (sp_ZRangeByScore ?pk mn mx desc))
                  (\<lambda>members. ret (zMembersReply (applyZLimit members offset n) withScores)))) w)"
        by (cases desc; simp add: args(1); rule read_zset [OF holds ok, where ?r0.0 = EmptyArray and r = "zMembersReply (?f xs) ws"])
          (use ranged [OF ok, where ws = ws and f = ?f] in \<open>simp_all add: run range_reply_empty args(2)
            sp_ZRangeByScore_def zrange_score_def filter_in_scores [OF ok] directed_def Let_def\<close>)
    qed (rule ok)
    then show "zrun (backend w) ?pk (ZRangeByScore desc a b ws lmt) xs (zset_handler ?E db key (ZRangeByScore desc a b ws lmt) w)"
      by (cases desc) (simp_all add: zset_handler_def handleZRangeByScore_def handleZRevRangeByScore_def del: zset_spec.simps)
  }
  obtain off n where args: "parseLexLimit (limit_args lmt) = Inr (off, n)"
    "\<And>l :: zmember list. applyZLimit l off n = limited lmt l"
    using parseLexLimit_args [OF lmt] by metis
  have "zrun (backend w) ?pk (ZRangeByLex desc a b lmt) xs
      (zRangeByLex ?E db ([c, key, a, b] @ limit_args lmt) desc w)" for c
    unfolding zRangeByLex_def Let_def withLexBounds_def zset_spec.simps mem_env_simps mem_store_simps
  proof (simp only: numeral_nat nth_Cons_0 nth_Cons_Suc append_Cons append_Nil drop_Suc_Cons drop_0 One_nat_def,
      rule with_bounds_run [OF holds, where ok = zset_ok])
    fix x y
    let ?in = "if desc then in_lex y x else in_lex x y"
    let ?f = "\<lambda>l. limited lmt (directed desc (filter ?in l))"
    show "spec_run TypeZSet zget zset_ok map_of (\<lambda>r M. M = map_of xs \<and> range_reply (map_of xs) False r ?f) (backend w) ?pk
      ((case if desc then (y, x) else (x, y) of (mn, mx) \<Rightarrow>
         case parseLexLimit (limit_args lmt) of Inl e \<Rightarrow> ret (Error e)
         | Inr (offset, n) \<Rightarrow> withKey ?E ?pk TypeZSet (ret EmptyArray)
             (\<lambda>_. attempt (call (sp_ZRangeByRank ?pk 0 (- 1) False))
                (\<lambda>all. ret (zMembersReply (applyZLimit (if desc then ZReverse (filter (\<lambda>m. lexInRange (fst m) mn mx) all)
                   else filter (\<lambda>m. lexInRange (fst m) mn mx) all) offset n) False)))) w)"
      by (cases desc; simp add: args(1); rule read_zset [OF holds ok, where ?r0.0 = EmptyArray and r = "zMembersReply (?f xs) False"])
        (use ranged [OF ok, where ws = False and f = ?f] in \<open>simp_all add: run range_reply_empty args(2)
          sp_ZRangeByRank_def zrange_rank_def all filter_in_lex directed_def ZReverse_rev\<close>)
  qed (rule ok)
  then show "zrun (backend w) ?pk (ZRangeByLex desc a b lmt) xs (zset_handler ?E db key (ZRangeByLex desc a b lmt) w)"
    by (cases desc) (simp_all add: zset_handler_def handleZRangeByLex_def handleZRevRangeByLex_def del: zset_spec.simps)
qed

section \<open>Each removal, over the abstract table\<close>

lemma map_of_outside: "map_of (filter (\<lambda>p. fst p \<notin> A) xs) = map_of xs |` (- A)"
  by (induction xs) (auto simp: fun_eq_iff restrict_map_def)

lemma length_outside:
  assumes "distinct (map fst xs)"
  shows "int (length xs) - int (length (filter (\<lambda>p. fst p \<notin> A) xs)) = int (card (dom (map_of xs) \<inter> A))"
proof -
  have "length (filter (\<lambda>p. fst p \<in> A) xs) = card (fst ` set (filter (\<lambda>p. fst p \<in> A) xs))"
    using distinct_card [OF distinct_map_filter [OF assms, of "\<lambda>p. fst p \<in> A"]] by simp
  also have "fst ` set (filter (\<lambda>p. fst p \<in> A) xs) = dom (map_of xs) \<inter> A"
    by (auto simp: dom_map_of_conv_image_fst)
  finally show ?thesis using sum_length_filter_compl [of "\<lambda>p. fst p \<in> A" xs] by simp
qed

lemma zset_ok_filter: "zset_ok xs \<Longrightarrow> zset_ok (filter P xs)"
  by (auto simp: zset_ok_def zitems_ok_filter list_all_iff)

text \<open>The members removed by a store operation, and the counter adjusted.\<close>

lemma zdrop_mem:
  assumes at: "coll_at TypeZSet zget (backend w) pk m xs" "m_count m = int (length xs)" and ok: "zset_ok xs" and ne: "xs \<noteq> []"
    and step: "f (backend w) = (Inr (int (card (dom (map_of xs) \<inter> set ks))), set_zset pk (zdrop ks (t_zset (backend w) pk)) (backend w))"
  shows "spec_run TypeZSet zget zset_ok map_of (\<lambda>r M. removes (map_of xs) r M (set ks)) (backend w) pk
    (attempt (call f) (\<lambda>removed. attempt (adjustCount (mem_env q cfg) pk TypeZSet (- removed)) (\<lambda>_. ret (IntReply removed))) w)"
proof -
  let ?ys = "filter (\<lambda>p. fst p \<notin> set ks) xs" and ?n = "int (card (dom (map_of xs) \<inter> set ks))"
  have z: "zlist (zdrop ks (t_zset (backend w) pk)) = ?ys" using at(1) by (simp add: coll_at_def zlist_zdrop)
  note n = length_outside [OF zset_okD(2) [OF ok], of "set ks"]
  have "coll_run TypeZSet zget (backend w) pk (IntReply ?n, ?ys)
    (attempt (call f) (\<lambda>removed. attempt (adjustCount (mem_env q cfg) pk TypeZSet (- removed)) (\<lambda>_. ret (IntReply removed))) w)"

  proof (rule zset_coll.change_coll [OF at, where d = uminus])
    show "call f w = (Inr ?n, on_tbl (set_zset pk (zdrop ks (t_zset (backend w) pk))) w)"
      by (simp add: call_mem step on_tbl_def)
    show "?ys = [] \<Longrightarrow> - ?n < 0" using n ne length_greater_0_conv [of xs] by simp
  qed (use at(1) n z in \<open>simp_all add: coll_at_def same_except_def\<close>)
  then show ?thesis
    by (intro spec_runI [where r = "IntReply ?n" and xs = ?ys]) (simp_all add: zset_ok_filter [OF ok] removes_def map_of_outside)
qed

text \<open>Removing selected members.\<close>

lemma selected_removed:
  assumes "set vs \<subseteq> set xs" and "distinct (map fst vs)"
  shows "int (length vs) = int (card (dom (map_of xs) \<inter> set (map fst vs)))"
proof -
  have "dom (map_of xs) \<inter> set (map fst vs) = set (map fst vs)"
    using assms(1) by (auto simp: dom_map_of_conv_image_fst)
  then show ?thesis using distinct_card [OF assms(2)] by simp
qed

lemma zrem_run:
  assumes "coll_holds TypeZSet zget (backend w) pk xs" and "zset_ok xs"
    and "zget (backend w) pk = xs \<Longrightarrow>
      f (backend w) = (Inr (int (card (dom (map_of xs) \<inter> set ks))), set_zset pk (zdrop ks (t_zset (backend w) pk)) (backend w))"
  shows "spec_run TypeZSet zget zset_ok map_of (\<lambda>r M. removes (map_of xs) r M (set ks)) (backend w) pk
    (withKey (mem_env q cfg) pk TypeZSet (ret (IntReply 0)) (\<lambda>_.
       attempt (call f) (\<lambda>removed. attempt (adjustCount (mem_env q cfg) pk TypeZSet (- removed)) (\<lambda>_. ret (IntReply removed)))) w)"
proof (rule withKey_zset [OF assms(1,2), where r = "IntReply 0"])
  show "removes (map_of xs) (IntReply 0) (map_of []) (set ks)" if "xs = []" using that by (simp add: removes_def)
  fix m
  assume at: "coll_at TypeZSet zget (backend w) pk m xs" "m_count m = int (length xs)" "xs \<noteq> []"
  show "spec_run TypeZSet zget zset_ok map_of (\<lambda>r M. removes (map_of xs) r M (set ks)) (backend w) pk
    (attempt (call f) (\<lambda>removed. attempt (adjustCount (mem_env q cfg) pk TypeZSet (- removed)) (\<lambda>_. ret (IntReply removed))) w)"
    using at(1) assms(3) by (intro zdrop_mem [OF at(1,2) assms(2) at(3)]) (auto simp: coll_at_def)
qed (simp add: ret_def)

lemma removals:
  assumes holds: "coll_holds TypeZSet zget (backend w) (encodePK cfg db key) xs" and ok: "zset_ok xs"
    and len: "int (length xs) \<le> max_i64"
  shows "zrun (backend w) (encodePK cfg db key) (ZRem ms) xs (zset_handler (mem_env q cfg) db key (ZRem ms) w)"
    and "i64 i \<Longrightarrow> i64 j \<Longrightarrow> zrun (backend w) (encodePK cfg db key) (ZRemRangeByRank i j) xs
      (zset_handler (mem_env q cfg) db key (ZRemRangeByRank i j) w)"
    and "zrun (backend w) (encodePK cfg db key) (ZRemRangeByScore a b) xs
      (zset_handler (mem_env q cfg) db key (ZRemRangeByScore a b) w)"
    and "zrun (backend w) (encodePK cfg db key) (ZRemRangeByLex a b) xs
      (zset_handler (mem_env q cfg) db key (ZRemRangeByLex a b) w)"
proof -
  let ?pk = "encodePK cfg db key" and ?E = "mem_env q cfg"
  note zok = zset_okD [OF ok]
  let ?ms = "filter memberStorable ms"
  have st: "map_of xs x = Some y \<Longrightarrow> memberStorable x" for x y
    using zok(3) [of x] by (cases "memberStorable x") auto
  then have "dom (map_of xs) \<inter> set ?ms = dom (map_of xs) \<inter> set ms" by auto
  moreover have "map_of xs |` (- set ?ms) = map_of xs |` (- set ms)"
    by (rule ext) (use zok(3) in \<open>auto simp: restrict_map_def\<close>)
  ultimately have same: "removes (map_of xs) r M (set ?ms) = removes (map_of xs) r M (set ms)" for r M
    by (simp only: removes_def)
  have rem: "sp_ZRem ?pk ks (backend w) = (Inr (int (card (dom (map_of xs) \<inter> set ks))),
      set_zset ?pk (zdrop ks (t_zset (backend w) ?pk)) (backend w))" if "zget (backend w) ?pk = xs" for ks
    using that length_outside [OF zok(2), of "set ks"] by (simp add: sp_ZRem_def Let_def zlist_zdrop)
  show "zrun (backend w) ?pk (ZRem ms) xs (zset_handler ?E db key (ZRem ms) w)"
    unfolding zset_spec.simps
    using zrem_run [OF holds ok, where f = "sp_ZRem ?pk ?ms" and ks = ?ms and q = q and cfg = cfg, OF rem, unfolded same] by (simp add: zset_handler_def handleZRem_def Let_def)
  {
    assume ij: "i64 i" "i64 j"
    note range = rank_range_index_range [OF ij len]
    let ?vs = "index_range xs i j"
    have "distinct (map fst ?vs)"
      using rank_range_sub(2) [of "map fst xs" i j] zok(2)
      by (simp add: range [symmetric] rank_range_def take_map drop_map split: option.splits prod.splits)
    then have n: "int (length ?vs) = int (card (dom (map_of xs) \<inter> set (map fst ?vs)))"
      using rank_range_sub(1) [of xs i j] by (intro selected_removed) (simp_all add: range)
    have "sp_ZRemRangeByRank ?pk i j (backend w) = (Inr (int (card (dom (map_of xs) \<inter> set (map fst ?vs)))),
        set_zset ?pk (zdrop (map fst ?vs) (t_zset (backend w) ?pk)) (backend w))" if "zget (backend w) ?pk = xs"
      using that n by (simp add: sp_ZRemRangeByRank_def Let_def zrange_rank_def range)
    then have run: "spec_run TypeZSet zget zset_ok map_of (\<lambda>r M. removes (map_of xs) r M (fst ` set ?vs)) (backend w) ?pk
        (zset_handler ?E db key (ZRemRangeByRank i j) w)"
      using zrem_run [OF holds ok, of "sp_ZRemRangeByRank ?pk i j" "map fst ?vs" q cfg]
      by (simp add: zset_handler_def handleZRemRangeByRank_def Let_def withInts_def ParseInt_fmt ij)
    then show "zrun (backend w) ?pk (ZRemRangeByRank i j) xs (zset_handler ?E db key (ZRemRangeByRank i j) w)"
      using zok(4) by (auto simp: spec_run_def)
  }
  have sel: "int (length (filter P xs)) = int (card (dom (map_of xs) \<inter> set (map fst (filter P xs))))" for P
    by (intro selected_removed distinct_map_filter zok(2)) auto
  show "zrun (backend w) ?pk (ZRemRangeByScore a b) xs (zset_handler ?E db key (ZRemRangeByScore a b) w)"
    unfolding zset_handler_def zset_run.simps zset_args.simps handleZRemRangeByScore_def Let_def mem_env_simps mem_store_simps
      nth_Cons_0 nth_Cons_Suc One_nat_def numeral_2_eq_2 numeral_3_eq_3 withScoreBounds_def zset_spec.simps
  proof (rule with_bounds_run [OF holds, where ok = zset_ok])
    fix mn mx
    let ?ks = "map fst (filter (in_scores mn mx) xs)"
    have "sp_ZRemRangeByScore ?pk mn mx (backend w) = (Inr (int (card (dom (map_of xs) \<inter> set ?ks))),
        set_zset ?pk (zdrop ?ks (t_zset (backend w) ?pk)) (backend w))" if "zget (backend w) ?pk = xs"
      using that sel [of "in_scores mn mx"] by (simp add: sp_ZRemRangeByScore_def Let_def zrange_score_def filter_in_scores [OF ok])
    then show "spec_run TypeZSet zget zset_ok map_of
        (\<lambda>r M. removes (map_of xs) r M {m. \<exists>x. map_of xs m = Some x \<and> in_scores mn mx (m, x)}) (backend w) ?pk
        (withKey ?E ?pk TypeZSet (ret (IntReply 0)) (\<lambda>_. attempt (call (sp_ZRemRangeByScore ?pk mn mx))
          (\<lambda>removed. attempt (adjustCount ?E ?pk TypeZSet (- removed)) (\<lambda>_. ret (IntReply removed)))) w)"
      using zrem_run [OF holds ok, of "sp_ZRemRangeByScore ?pk mn mx" ?ks q cfg]
      by (simp add: selected_members(1) [OF zok(2)])
  qed (rule ok)
  show "zrun (backend w) ?pk (ZRemRangeByLex a b) xs (zset_handler ?E db key (ZRemRangeByLex a b) w)"
    unfolding zset_handler_def zset_run.simps zset_args.simps handleZRemRangeByLex_def Let_def mem_env_simps mem_store_simps
      nth_Cons_0 nth_Cons_Suc One_nat_def numeral_2_eq_2 numeral_3_eq_3 withLexBounds_def zset_spec.simps
  proof (rule with_bounds_run [OF holds, where ok = zset_ok])
    fix mn mx
    let ?ks = "map fst (filter (in_lex mn mx) xs)"
    have all: "rank_range xs 0 (-1) = xs"
      using rank_range_index_range [of 0 "-1" xs] len by (simp add: i64_def index_range_slice from_end_def Let_def)
    show "spec_run TypeZSet zget zset_ok map_of
        (\<lambda>r M. removes (map_of xs) r M {m. \<exists>x. map_of xs m = Some x \<and> in_lex mn mx (m, x)}) (backend w) ?pk
        (withKey ?E ?pk TypeZSet (ret (IntReply 0)) (\<lambda>_. attempt (call (sp_ZRangeByRank ?pk 0 (- 1) False))
          (\<lambda>all. if map fst (filter (\<lambda>m. lexInRange (fst m) mn mx) all) = [] then ret (IntReply 0)
             else attempt (call (sp_ZRem ?pk (map fst (filter (\<lambda>m. lexInRange (fst m) mn mx) all))))
               (\<lambda>removed. attempt (adjustCount ?E ?pk TypeZSet (- removed)) (\<lambda>_. ret (IntReply removed))))) w)"
    proof (rule withKey_zset [OF holds ok, where r = "IntReply 0"])
      show "removes (map_of xs) (IntReply 0) (map_of []) {m. \<exists>x. map_of xs m = Some x \<and> in_lex mn mx (m, x)}" if "xs = []"
        using that by (simp add: removes_def)
      fix m
      assume at: "coll_at TypeZSet zget (backend w) ?pk m xs" "m_count m = int (length xs)" "xs \<noteq> []"
      then have xs: "zget (backend w) ?pk = xs" by (simp add: coll_at_def)
      have empty: "spec_run TypeZSet zget zset_ok map_of (\<lambda>r M. removes (map_of xs) r M (set ?ks)) (backend w) ?pk (IntReply 0, w)"
        if "?ks = []"
        by (rule unchanged [OF holds]) (use that ok in \<open>simp_all add: removes_def restrict_map_def\<close>)
      show "spec_run TypeZSet zget zset_ok map_of
          (\<lambda>r M. removes (map_of xs) r M {m. \<exists>x. map_of xs m = Some x \<and> in_lex mn mx (m, x)}) (backend w) ?pk
          (attempt (call (sp_ZRangeByRank ?pk 0 (- 1) False))
            (\<lambda>all. if map fst (filter (\<lambda>m. lexInRange (fst m) mn mx) all) = [] then ret (IntReply 0)
             else attempt (call (sp_ZRem ?pk (map fst (filter (\<lambda>m. lexInRange (fst m) mn mx) all))))
               (\<lambda>removed. attempt (adjustCount ?E ?pk TypeZSet (- removed)) (\<lambda>_. ret (IntReply removed)))) w)"
        using empty zdrop_mem [OF at(1,2) ok at(3), where f = "sp_ZRem ?pk ?ks" and ks = ?ks and q = q and cfg = cfg, OF rem [OF xs]]
        by (cases "?ks = []")
          (simp_all add: selected_members(1) [OF zok(2)] attempt_def [of "call (sp_ZRangeByRank ?pk 0 (- 1) False)"] call_mem
            sp_ZRangeByRank_def zrange_rank_def on_tbl_def xs all lexInRange_iff ret_def)
    qed (simp add: ret_def)
  qed (rule ok)
qed

section \<open>Each write, over the abstract table\<close>

lemma zitems_of:
  assumes "zset_ok xs"
  shows "zlist (Zitems xs) = xs" "zscore (Zitems xs) = map_of xs"
  using Zitems_inverse [of xs] zset_okD(1) [OF assms] by (simp_all add: zscore_def)

lemma zlist_of: "zlist z = xs \<Longrightarrow> zset_ok xs \<Longrightarrow> z = Zitems xs"
  by (metis zlist_inverse)

lemma zset_ok_zput_all:
  assumes "zset_ok xs" and "\<forall>p \<in> set ms. storable (snd p)" and "list_all memberStorable (map fst ms)"
  shows "zset_ok (zlist (zput_all ms (Zitems xs)))"
proof -
  have "fst ` set (zlist (zput_all ms (Zitems xs))) = dom (zscore (zput_all ms (Zitems xs)))"
    by (simp add: zscore_def dom_map_of_conv_image_fst)
  also have "\<dots> = fst ` set xs \<union> fst ` set ms"
    by (simp add: dom_zput_all [OF assms(2)] zitems_of [OF assms(1)] dom_map_of_conv_image_fst)
  finally have keys: "fst ` set (zlist (zput_all ms (Zitems xs))) = fst ` set xs \<union> fst ` set ms" .
  have eq: "list_all (\<lambda>(m, _). memberStorable m) g \<longleftrightarrow> (\<forall>m \<in> fst ` set g. memberStorable m)" for g :: "zmember list"
    by (auto simp: list_all_iff)
  show ?thesis
    using assms(1,3) unfolding zset_ok_def eq keys by (auto simp: zlist_ok list_all_iff)
qed

text \<open>The end of every ZADD: the key created, the members written, the counter adjusted.\<close>

lemma zadd_write:
  assumes holds: "coll_holds TypeZSet zget (backend w) pk xs" and ok: "zset_ok xs" and ne: "ms \<noteq> []"
    and ms: "\<forall>p \<in> set ms. storable (snd p)"
    and n: "\<And>a. a = int (length (zlist (zput_all ms (Zitems xs)))) - int (length xs) \<Longrightarrow> d a = a"
  shows "coll_run TypeZSet zget (backend w) pk (r (int (length (zlist (zput_all ms (Zitems xs)))) - int (length xs)),
      zlist (zput_all ms (Zitems xs)))
    (attempt (ensureTypeExpiring (mem_env q cfg) pk TypeZSet) (\<lambda>_. attempt (call (sp_ZAdd pk ms)) (\<lambda>added.
      attempt (adjustCount (mem_env q cfg) pk TypeZSet (d added)) (\<lambda>_. ret (r added)))) w)"
proof -
  let ?ys = "zlist (zput_all ms (Zitems xs))"
  obtain w1 m where w1: "ensureTypeExpiring (mem_env q cfg) pk TypeZSet w = (Inr (), w1)"
    "coll_at TypeZSet zget (backend w1) pk m xs" "m_count m = int (length xs)" "same_except {pk} (backend w) (backend w1)"
    by (rule zset_coll.ensure_coll [OF holds])
  have z: "t_zset (backend w1) pk = Zitems xs" using w1(2) ok by (intro zlist_of) (simp_all add: coll_at_def)
  have "dom (map_of ?ys) \<noteq> {}"
    using dom_zput_all [OF ms] ne by (simp add: zscore_def)
  then have ne': "?ys \<noteq> []" by auto
  have "coll_run TypeZSet zget (backend w1) pk (r (int (length ?ys) - int (length xs)), ?ys)
    (attempt (call (sp_ZAdd pk ms)) (\<lambda>added. attempt (adjustCount (mem_env q cfg) pk TypeZSet (d added)) (\<lambda>_. ret (r added))) w1)"
  proof (rule zset_coll.change_coll [OF w1(2,3), where d = d])
    show "call (sp_ZAdd pk ms) w1 = (Inr (int (length ?ys) - int (length xs)), on_tbl (set_zset pk (zput_all ms (Zitems xs))) w1)"
      by (simp add: call_mem sp_ZAdd_def Let_def z zitems_of [OF ok] on_tbl_def)
  qed (use w1(2) ne' n in \<open>simp_all add: coll_at_def same_except_def\<close>)
  then show ?thesis
    using coll_run_trans [OF w1(4)] by (simp add: attempt_def [of "ensureTypeExpiring (mem_env q cfg) pk TypeZSet"] w1(1))
qed

text \<open>The counts of the specification.\<close>

lemma zadd_counts:
  "fold (zadd_one nx xx) ps (M, a, c) = (N, a', c') \<Longrightarrow> finite (dom M) \<Longrightarrow>
    finite (dom N) \<and> a' - a = int (card (dom N)) - int (card (dom M))"
proof (induction ps arbitrary: M a c)
  case (Cons p ps)
  obtain m x where p: "p = (m, x)" by (cases p)
  obtain M1 a1 c1 where step: "zadd_one nx xx p (M, a, c) = (M1, a1, c1)" by (cases "zadd_one nx xx p (M, a, c)")
  then have "finite (dom M1) \<and> a1 - a = int (card (dom M1)) - int (card (dom M))"
    using Cons.prems(2)
    by (auto simp: zadd_one_def p card_insert_if insert_absorb domIff split: option.splits if_splits)
  moreover have "finite (dom N) \<and> a' - a1 = int (card (dom N)) - int (card (dom M1))"
    using Cons.prems(1) calculation by (intro Cons.IH) (simp_all add: step)
  ultimately show ?case by simp
qed simp

lemma zadd_fast:
  "\<forall>p \<in> set ps. storable (snd p) \<Longrightarrow> fst (fold (zadd_one False False) ps (zscore z, a, c)) = zscore (zput_all ps z)"
proof (induction ps arbitrary: z a c)
  case (Cons p ps)
  obtain m x where p: "p = (m, x)" by (cases p)
  have "\<exists>a' c'. zadd_one False False p (zscore z, a, c) = (zscore (zput m x z), a', c')"
    using Cons.prems by (auto simp: zadd_one_def p zscore_zput split: option.split)
  then obtain a' c' where "zadd_one False False p (zscore z, a, c) = (zscore (zput m x z), a', c')" by blast
  then show ?case using Cons by (simp add: p)
qed simp

lemma zadd_all_length:
  assumes "zset_ok xs" and "zadd_all nx xx ps (map_of xs) = (map_of ys, a, c)" and "zset_ok ys"
  shows "a = int (length ys) - int (length xs)"
  using zadd_counts [of nx xx ps "map_of xs" 0 0 "map_of ys" a c] assms zset_okD(7)
  by (simp add: zadd_all_def finite_dom_map_of)

text \<open>The in-command view of ZADD with an option follows the specification.\<close>

definition zview_of :: "(bytes \<rightharpoonup> f64) \<Rightarrow> zview \<Rightarrow> (bytes \<rightharpoonup> f64) \<times> int \<times> int \<Rightarrow> bool" where
  "zview_of M0 v S \<longleftrightarrow>
     (case S of (M, a, c) \<Rightarrow>
        zv_added v = a \<and> zv_changed v = c \<and> distinct (map fst (zv_final v)) \<and>
        M = M0 ++ (map_option unsigned_zero \<circ> map_of (zv_final v)) \<and>
        (\<forall>k cur. zv_cur v k = Some cur \<longrightarrow> map_option unsigned_zero cur = M k) \<and>
        (\<forall>k. zv_cur v k = None \<longrightarrow> M k = M0 k) \<and>
        (\<forall>k x. M k = Some x \<longrightarrow> finite64 x \<and> unsigned_zero x = x))"

lemma finite_unsigned_zero: "finite64 (unsigned_zero x) = finite64 x"
  by (cases x) (simp_all add: unsigned_zero_def is_zero_def finite64_def)

lemma zaddApply_view:
  assumes inv: "zview_of M0 v (M, a, c)" and "storable x"
    and cur: "cur = (case zv_cur v m of Some cur \<Rightarrow> cur | None \<Rightarrow> M0 m)"
  shows "zview_of M0 (zaddApply nx xx m x cur v) (zadd_one nx xx (m, x) (M, a, c))"
proof -
  note all = inv [unfolded zview_of_def prod.case]
  note tail = all [THEN conjunct2, THEN conjunct2, THEN conjunct2]
  note counts = all [THEN conjunct1] all [THEN conjunct2, THEN conjunct1] all [THEN conjunct2, THEN conjunct2, THEN conjunct1]
  note M = tail [THEN conjunct1] and loaded = tail [THEN conjunct2, THEN conjunct1]
    and other = tail [THEN conjunct2, THEN conjunct2, THEN conjunct1]
    and vals = tail [THEN conjunct2, THEN conjunct2, THEN conjunct2]
  have vals': "M k = Some y \<Longrightarrow> finite64 y \<and> unsigned_zero y = y" for k y using vals by blast
  have fx: "finite64 x" "finite64 (unsigned_zero x)" using assms(2) by (simp_all add: storable_finite finite_unsigned_zero)
  have known: "map_option unsigned_zero cur = M m"
  proof (cases "zv_cur v m")
    case None
    then have "cur = M m" using other cur by simp
    then show ?thesis by (cases "M m") (simp_all add: vals')
  next
    case (Some k)
    then show ?thesis using loaded cur by simp
  qed
  have feq: "feq x y = (rv x = rv (unsigned_zero y))" if "cur = Some y" for y
  proof -
    have "M m = Some (unsigned_zero y)" using known that by simp
    then have "finite64 y" using vals' finite_unsigned_zero by blast
    then show ?thesis using compare_rv(2) [OF fx(1)] by simp
  qed
  have upd: "map_of (AList.update m x (zv_final v)) = (map_of (zv_final v))(m \<mapsto> x)" by (simp add: update_conv')
  let ?v = "v\<lparr>zv_cur := (zv_cur v)(m \<mapsto> cur)\<rparr>"
  have keep: "zview_of M0 ?v (M, a, c)"
    using counts loaded other vals known by (simp add: zview_of_def flip: M)
  have set: "zview_of M0 (?v\<lparr>zv_cur := (zv_cur ?v)(m \<mapsto> Some x), zv_final := AList.update m x (zv_final ?v),
      zv_added := a', zv_changed := c'\<rparr>) (M(m \<mapsto> unsigned_zero x), a', c')" for a' c'
    using counts loaded other vals fx by (simp add: zview_of_def upd distinct_update flip: M)
  show ?thesis
  proof (cases cur)
    case None
    then have "M m = None" using known by simp
    then show ?thesis
      using keep set None counts by (simp add: zaddApply_def Let_def zadd_one_def)
  next
    case (Some y)
    then have "M m = Some (unsigned_zero y)" using known by simp
    then show ?thesis
      using keep set Some counts feq [OF Some] by (simp add: zaddApply_def Let_def zadd_one_def)
  qed
qed

lemma zaddLoop_view:
  assumes "zview_of M0 v S" and "\<forall>p \<in> set ps. storable (snd p)" and "zscore (t_zset (backend w) pk) = M0"
  obtains v' where "zaddLoop (mem_env q cfg) pk nx xx ps v w = (Inr v', w)" "zview_of M0 v' (fold (zadd_one nx xx) ps S)"
    "fst ` set (zv_final v') \<subseteq> fst ` set (zv_final v) \<union> fst ` set ps"
  using assms(1,2)
proof (induction ps arbitrary: v S thesis)
  case Nil
  then show ?case by (simp add: ret_def)
next
  case (Cons p ps)
  obtain m x where p: "p = (m, x)" by (cases p)
  obtain M a c where S: "S = (M, a, c)" by (cases S)
  let ?cur = "case zv_cur v m of Some cur \<Rightarrow> cur | None \<Rightarrow> M0 m"
  let ?v = "zaddApply nx xx m x ?cur v"
  have inv: "zview_of M0 ?v (zadd_one nx xx p S)"
    using zaddApply_view [of M0 v M a c x ?cur m nx xx] Cons.prems(2,3) by (simp add: p S)
  have keys: "fst ` set (zv_final ?v) \<subseteq> insert m (fst ` set (zv_final v))"
    by (auto simp: zaddApply_def Let_def dest: set_update_sub [THEN subsetD])
  obtain v' where v': "zaddLoop (mem_env q cfg) pk nx xx ps ?v w = (Inr v', w)"
    "zview_of M0 v' (fold (zadd_one nx xx) ps (zadd_one nx xx p S))"
    "fst ` set (zv_final v') \<subseteq> fst ` set (zv_final ?v) \<union> fst ` set ps"
    using Cons.IH [OF _ inv] Cons.prems(3) by auto
  have "zaddLoop (mem_env q cfg) pk nx xx (p # ps) v w = zaddLoop (mem_env q cfg) pk nx xx ps ?v w"
    using assms(3) by (simp add: p bindE_def ret_def call_mem sp_ZScore_def on_tbl_def split: option.split)
  then show ?case
    using v' keys by (intro Cons.prems(1) [of v']) (auto simp: p simp del: zaddLoop.simps)
qed

lemma zview0_of: "zset_ok xs \<Longrightarrow> zview_of (map_of xs) zview0 (map_of xs, 0, 0)"
proof -
  assume ok: "zset_ok xs"
  have "finite64 x \<and> unsigned_zero x = x" if "map_of xs k = Some x" for k x
    using map_of_SomeD [OF that] zset_okD(1,5) [OF ok] by (force simp: zitems_ok_def)
  then show ?thesis by (simp add: zview_of_def zview0_def comp_def)
qed

lemma zview_of_written:
  assumes "zview_of (map_of xs) v (M, a, c)" and "zset_ok xs" and "\<forall>p \<in> set (zv_final v). storable (snd p)"
  shows "M = map_of (zlist (zput_all (zv_final v) (Zitems xs)))"
proof -
  have "map_of (rev (map (apsnd unsigned_zero) (zv_final v))) = map_option unsigned_zero \<circ> map_of (zv_final v)"
  proof -
    have "distinct (map fst (map (apsnd unsigned_zero) (zv_final v)))"
      using assms(1) by (simp add: zview_of_def comp_def)
    then have "map_of (rev (map (apsnd unsigned_zero) (zv_final v))) = map_of (map (apsnd unsigned_zero) (zv_final v))"
      by (subst map_of_inject_set) (simp_all flip: rev_map)
    then show ?thesis by (simp add: apsnd_def map_prod_def map_of_map)
  qed
  then show ?thesis
    using assms(1) zscore_zput_all [OF assms(3), of "Zitems xs"]
    by (simp add: zview_of_def zscore_def [symmetric] zitems_of [OF assms(2)])
qed

lemma attempt_ret: "attempt (ret (Inr v)) k = k v"
  by (rule ext) (simp add: attempt_def ret_def)

text \<open>The request of ZADD.\<close>

lemma score_args_simps [simp]:
  "score_args [] = []" "score_args (p # sms) = fst p # snd p # score_args sms" "even (length (score_args sms))"
proof -
  show "even (length (score_args sms))" by (induction sms) (auto simp: score_args_def)
qed (simp_all add: score_args_def split_beta)

lemma zaddFlagLoop_args:
  assumes "sms \<noteq> []" and "ToUpper (fst (hd sms)) \<notin> set [''NX'', ''XX'', ''CH'', ''INCR'']"
  shows "parseZAddFlags (flag_args nx xx ch @ score_args sms) =
    (if nx \<and> xx then Inl errZaddNxXx else Inr (\<lparr>zf_nx = nx, zf_xx = xx, zf_ch = ch, zf_incr = False\<rparr>, score_args sms))"
proof -
  obtain p sms' where sms: "sms = p # sms'" using assms(1) by (cases sms) auto
  have up: "upper_byte CHR ''N'' = CHR ''N''" "upper_byte CHR ''X'' = CHR ''X''" "upper_byte CHR ''C'' = CHR ''C''"
    "upper_byte CHR ''H'' = CHR ''H''"
    by code_simp+
  have stop: "zaddFlagLoop (score_args sms) f = (f, score_args sms)" for f
    using assms(2) by (simp add: sms Let_def)
  have "zaddFlagLoop (flag_args nx xx ch @ score_args sms) \<lparr>zf_nx = False, zf_xx = False, zf_ch = False, zf_incr = False\<rparr> =
      (\<lparr>zf_nx = nx, zf_xx = xx, zf_ch = ch, zf_incr = False\<rparr>, score_args sms)"
    by (cases nx; cases xx; cases ch) (simp_all add: flag_args_def up stop Let_def del: score_args_simps(2))
  then show ?thesis
    using score_args_simps(3) [of sms] sms by (simp add: parseZAddFlags_def even_iff_mod_2_eq_zero)
qed

lemma zaddFlagLoop_incr:
  assumes "sms \<noteq> []" and "ToUpper (fst (hd sms)) \<notin> set [''NX'', ''XX'', ''CH'', ''INCR'']"
  shows "parseZAddFlags (flag_args nx xx ch @ ''INCR'' # score_args sms) =
    (if nx \<and> xx then Inl errZaddNxXx else if length sms \<noteq> 1 then Inl errZaddIncr
     else Inr (\<lparr>zf_nx = nx, zf_xx = xx, zf_ch = ch, zf_incr = True\<rparr>, score_args sms))"
proof -
  obtain p sms' where sms: "sms = p # sms'" using assms(1) by (cases sms) auto
  have up: "upper_byte CHR ''N'' = CHR ''N''" "upper_byte CHR ''X'' = CHR ''X''" "upper_byte CHR ''C'' = CHR ''C''"
    "upper_byte CHR ''H'' = CHR ''H''" "upper_byte CHR ''I'' = CHR ''I''" "upper_byte CHR ''R'' = CHR ''R''"
    by code_simp+
  have stop: "zaddFlagLoop (score_args sms) f = (f, score_args sms)" for f
    using assms(2) by (simp add: sms Let_def)
  have "zaddFlagLoop (flag_args nx xx ch @ ''INCR'' # score_args sms) \<lparr>zf_nx = False, zf_xx = False, zf_ch = False, zf_incr = False\<rparr> =
      (\<lparr>zf_nx = nx, zf_xx = xx, zf_ch = ch, zf_incr = True\<rparr>, score_args sms)"
    by (cases nx; cases xx; cases ch) (simp_all add: flag_args_def up stop Let_def del: score_args_simps(2))
  moreover have "length (score_args sms) = 2 * length sms" by (induction sms) (auto simp: score_args_def)
  ultimately show ?thesis using sms by (simp add: parseZAddFlags_def)
qed

lemma parsePairs_keys: "parsePairs (score_args sms) = Inr ms \<Longrightarrow> map fst ms = map snd sms"
  by (induction sms arbitrary: ms) (auto split: sum.splits)

lemma parsePairs_ne: "parsePairs (score_args sms) = Inr ms \<Longrightarrow> sms \<noteq> [] \<Longrightarrow> ms \<noteq> []"
  using parsePairs_keys by fastforce

lemma zadd_fast_run:
  assumes holds: "coll_holds TypeZSet zget (backend w) pk xs" and ok: "zset_ok xs"
    and ms: "parsePairs (score_args sms) = Inr ms" "sms \<noteq> []" and fits: "write_fits key (map snd sms) []"
  shows "spec_run TypeZSet zget zset_ok map_of
    (\<lambda>r M. case zadd_all False False ms (map_of xs) of (N, added, changed) \<Rightarrow> M = N \<and> r = IntReply added) (backend w) pk
    (zaddFastPath (mem_env q cfg) key pk (score_args sms) w)"
proof -
  let ?ys = "zlist (zput_all ms (Zitems xs))"
  have st: "\<forall>p \<in> set ms. storable (snd p)" by (rule parsePairs_storable [OF ms(1)])
  have ok': "zset_ok ?ys"
    using memberStorable_fits [OF fits] parsePairs_keys [OF ms(1)] by (intro zset_ok_zput_all [OF ok st]) simp
  obtain a c where all: "zadd_all False False ms (map_of xs) = (map_of ?ys, a, c)"
    using zadd_fast [OF st, of "Zitems xs" 0 0]
    by (cases "zadd_all False False ms (map_of xs)") (simp add: zadd_all_def zitems_of [OF ok] zscore_def [of "zput_all _ _"])
  have "coll_run TypeZSet zget (backend w) pk (IntReply (int (length ?ys) - int (length xs)), ?ys)
      (zaddFastPath (mem_env q cfg) key pk (score_args sms) w)"
    using zadd_write [OF holds ok parsePairs_ne [OF ms] st, where d = "\<lambda>a. a" and r = IntReply and q = q and cfg = cfg] fits
    by (simp add: zaddFastPath_def ms(1) parsePairs_keys [OF ms(1)] attempt_def [of "CheckWrite _ _ _"] CheckWrite_run)
  then show ?thesis
    using ok' by (rule spec_runI [where ok = zset_ok]) (simp add: all zadd_all_length [OF ok all ok'])
qed

lemma zadd_flag_run:
  assumes holds: "coll_holds TypeZSet zget (backend w) pk xs" and ok: "zset_ok xs"
    and ms: "parsePairs (score_args sms) = Inr ms" "sms \<noteq> []" and fits: "write_fits key (map snd sms) []"
    and fresh: "\<not> key_expired (backend w) pk"
  shows "spec_run TypeZSet zget zset_ok map_of
    (\<lambda>r M. case zadd_all nx xx ms (map_of xs) of (N, added, changed) \<Rightarrow> M = N \<and> r = IntReply (if ch then changed else added))
    (backend w) pk (zaddFlagPath (mem_env q cfg) key pk \<lparr>zf_nx = nx, zf_xx = xx, zf_ch = ch, zf_incr = False\<rparr> (score_args sms) w)"
proof -
  have st: "\<forall>p \<in> set ms. storable (snd p)" by (rule parsePairs_storable [OF ms(1)])
  have state: "\<forall>m. live_meta (backend w) pk = Some m \<longrightarrow> m_type m = TypeZSet"
    using holds by (auto simp: coll_holds_def)
  from holds have z: "t_zset (backend w) pk = Zitems xs"
  proof (cases rule: coll_holds_cases)
    case 1
    then have "zget (backend w) pk = xs"
      using fresh by (auto simp: live_meta_def key_expired_def split: option.splits if_splits)
    then show "t_zset (backend w) pk = Zitems xs" using ok by (rule zlist_of)
  next
    case (2 m)
    then show "t_zset (backend w) pk = Zitems xs" using ok by (intro zlist_of) (simp_all add: coll_at_def)
  qed
  obtain v where v: "zaddLoop (mem_env q cfg) pk nx xx ms zview0 w = (Inr v, w)"
    "zview_of (map_of xs) v (fold (zadd_one nx xx) ms (map_of xs, 0, 0))"
    "fst ` set (zv_final v) \<subseteq> fst ` set (zv_final zview0) \<union> fst ` set ms"
    using zaddLoop_view [OF zview0_of [OF ok] st, where w = w and pk = pk and nx = nx and xx = xx and q = q and cfg = cfg]
      zitems_of [OF ok] by (auto simp: z)
  obtain N a c where all: "zadd_all nx xx ms (map_of xs) = (N, a, c)" by (cases "zadd_all nx xx ms (map_of xs)")
  then have inv: "zview_of (map_of xs) v (N, a, c)" using v(2) by (simp add: zadd_all_def)
  have fin: "\<forall>p \<in> set (zv_final v). storable (snd p)"
    using zaddLoop_final [of "mem_env q cfg" pk nx xx ms zview0 w v storable] v(1) st by (simp add: zview0_def)
  let ?ys = "zlist (zput_all (zv_final v) (Zitems xs))"
  have N: "N = map_of ?ys" by (rule zview_of_written [OF inv ok fin])
  have "list_all memberStorable (map fst ms)"
    using memberStorable_fits [OF fits] parsePairs_keys [OF ms(1)] by simp
  moreover have "set (map fst (zv_final v)) \<subseteq> set (map fst ms)" using v(3) by (simp add: zview0_def)
  ultimately have "list_all memberStorable (map fst (zv_final v))" unfolding list_all_iff by blast
  then have ok': "zset_ok ?ys" by (rule zset_ok_zput_all [OF ok fin])
  have n: "a = int (length ?ys) - int (length xs)" using zadd_all_length [OF ok _ ok'] all N by simp
  have "finite (dom (map_of xs))" "0 \<le> a"
  proof -
    show "finite (dom (map_of xs))" by (rule finite_dom_map_of)
    have "dom (map_of xs) \<subseteq> dom (map_of ?ys)"
      using dom_zput_all [OF fin, of "Zitems xs"] by (auto simp: zscore_def [symmetric] zitems_of [OF ok])
    then have "card (dom (map_of xs)) \<le> card (dom (map_of ?ys))" by (intro card_mono finite_dom_map_of)
    then show "0 \<le> a" using n zset_okD(7) [OF ok] zset_okD(7) [OF ok'] by simp
  qed
  let ?r = "IntReply (if ch then c else a)"
  have cnt: "zv_added v = a" "zv_changed v = c" using inv by (simp_all add: zview_of_def)
  have "coll_run TypeZSet zget (backend w) pk (?r, ?ys) (zaddWrite (mem_env q cfg) pk ch v w)"
  proof (cases "zv_final v = []")
    case True
    then show ?thesis
      using coll_run_same [OF holds, of ?r] by (cases ch) (simp_all add: zaddWrite_def cnt ret_def zitems_of [OF ok])
  next
    case False
    have "zaddWrite (mem_env q cfg) pk ch v = attempt (ensureTypeExpiring (mem_env q cfg) pk TypeZSet) (\<lambda>_.
        attempt (call (sp_ZAdd pk (zv_final v))) (\<lambda>_. attempt (adjustCount (mem_env q cfg) pk TypeZSet a) (\<lambda>_. ret ?r)))"
      using False \<open>0 \<le> a\<close> by (auto simp: zaddWrite_def Let_def cnt adjustCount_def attempt_ret)
    then show ?thesis
      using zadd_write [OF holds ok False fin, where d = "\<lambda>_. a" and r = "\<lambda>_. ?r" and q = q and cfg = cfg] n by simp
  qed
  moreover have "zaddFlagPath (mem_env q cfg) key pk \<lparr>zf_nx = nx, zf_xx = xx, zf_ch = ch, zf_incr = False\<rparr> (score_args sms) w =
      zaddWrite (mem_env q cfg) pk ch v w"
    using state fits parsePairs_keys [OF ms(1)]
    by (auto simp: zaddFlagPath_def ms(1) attempt_def loadMetaState_mem CheckWrite_run v(1) split: option.split)
  ultimately show ?thesis
    using ok' by (intro spec_runI [where ok = zset_ok and r = ?r and xs = ?ys]) (simp_all add: all N)
qed

lemma zadd_run:
  assumes holds: "coll_holds TypeZSet zget (backend w) (encodePK cfg db key) xs" and ok: "zset_ok xs"
    and c: "zset_cmd_ok (backend w) key (encodePK cfg db key) (map_of xs) (ZAdd nx xx ch sms)"
  shows "zrun (backend w) (encodePK cfg db key) (ZAdd nx xx ch sms) xs (zset_handler (mem_env q cfg) db key (ZAdd nx xx ch sms) w)"
proof -
  let ?pk = "encodePK cfg db key" and ?E = "mem_env q cfg"
  have sms: "sms \<noteq> []" "ToUpper (fst (hd sms)) \<notin> set [''NX'', ''XX'', ''CH'', ''INCR'']" "write_fits key (map snd sms) []"
    and fresh: "nx \<or> xx \<or> ch \<Longrightarrow> \<not> key_expired (backend w) ?pk"
    using c by (auto simp: zset_cmd_ok_def)
  have run: "zset_handler ?E db key (ZAdd nx xx ch sms) w =
      (if nx \<and> xx then ret (Error errZaddNxXx)
       else if \<not> nx \<and> \<not> xx \<and> \<not> ch then zaddFastPath ?E key ?pk (score_args sms)
       else zaddFlagPath ?E key ?pk \<lparr>zf_nx = nx, zf_xx = xx, zf_ch = ch, zf_incr = False\<rparr> (score_args sms)) w"
    using zaddFlagLoop_args [OF sms(1,2), of nx xx ch]
    by (simp add: zset_handler_def handleZAdd_def Let_def numeral_2_eq_2 split: if_splits)
  have err: "spec_run TypeZSet zget zset_ok map_of (\<lambda>r M. r = Error e \<and> M = map_of xs) (backend w) ?pk (Error e, w)" for e
    by (rule unchanged [OF holds]) (simp_all add: ok)
  show ?thesis
  proof (cases "nx \<and> xx")
    case True
    then show ?thesis using err unfolding run zset_spec.simps by (simp add: ret_def)
  next
    case False
    show ?thesis
    proof (cases "parsePairs (score_args sms)")
      case (Inl e)
      then show ?thesis
        using False err unfolding run zset_spec.simps
        by (cases nx; cases xx; cases ch) (simp_all add: zaddFastPath_def zaddFlagPath_def ret_def)
    next
      case (Inr ms)
      show ?thesis
        unfolding run zset_spec.simps Inr sum.case
        using False fresh zadd_fast_run [OF holds ok Inr sms(1,3), of q cfg]
          zadd_flag_run [OF holds ok Inr sms(1,3), where nx = nx and xx = xx and ch = ch and q = q and cfg = cfg]
        by (cases nx; cases xx; cases ch) simp_all
    qed
  qed
qed

lemma zincrTail_run:
  assumes holds: "coll_holds TypeZSet zget (backend w) pk xs" and ok: "zset_ok xs" and s: "storeScore s = Inr d"
    and fits: "write_fits key [m] []" and sum: "sum_ok (backend w) (map_of xs) s m"
  shows "spec_run TypeZSet zget zset_ok map_of (zincr_effect (t_add (backend w)) d m (map_of xs)) (backend w) pk
    (zincrTail (mem_env q cfg) pk m d w)"
proof -
  let ?E = "mem_env q cfg" and ?run = "zincrTail (mem_env q cfg) pk m d w"
  let ?add = "t_add (backend w) (case map_of xs m of None \<Rightarrow> FZero False | Some x \<Rightarrow> x) d"
  let ?sum = "case map_of xs m of None \<Rightarrow> d | Some x \<Rightarrow> fadd x d"
  have add: "case ?add of None \<Rightarrow> map_of xs m \<noteq> None | Some x \<Rightarrow> storable x"
    using sum s by (simp add: sum_ok_def)
  obtain w1 mt where w1: "ensureTypeExpiring ?E pk TypeZSet w = (Inr (), w1)"
    "coll_at TypeZSet zget (backend w1) pk mt xs" "m_count mt = int (length xs)" "same_except {pk} (backend w) (backend w1)"
    by (rule zset_coll.ensure_coll [OF holds])
  have z: "t_zset (backend w1) pk = Zitems xs" using w1(2) ok by (intro zlist_of) (simp_all add: coll_at_def)
  have t: "t_add (backend w1) = t_add (backend w)" using w1(4) by (simp add: same_except_def)
  have run: "?run = attempt (call (sp_ZIncrBy pk m d)) (\<lambda>(newScore, isNew).
      if isNew then attempt (adjustCount ?E pk TypeZSet 1) (\<lambda>_. ret (BulkString (formatScore newScore)))
      else ret (BulkString (formatScore newScore))) w1"
    by (simp add: zincrTail_def attempt_def [of "ensureTypeExpiring _ _ _"] w1(1))
  have failed: "spec_run TypeZSet zget zset_ok map_of (zincr_effect (t_add (backend w)) d m (map_of xs)) (backend w) pk ?run"
    if hyps: "?run = (Error e, w1)" "map_of xs m \<noteq> None" "zincr_effect (t_add (backend w)) d m (map_of xs) (Error e) (map_of xs)" for e
  proof -
    have "xs \<noteq> []" using hyps(2) by auto
    then have "coll_run TypeZSet zget (backend w1) pk (Error e, xs) ?run"
      using coll_run_same [OF coll_holds_at [OF w1(2,3)]] hyps(1) by simp
    then show ?thesis
      using ok hyps(3) coll_run_trans [OF w1(4)] by (intro spec_runI [where ok = zset_ok and xs = xs and r = "Error e"]) simp_all
  qed
  have sp: "sp_ZIncrBy pk m d (backend w1) =
      (if scoreOutOfDomain ?sum then (Inl ScoreOutOfRange, backend w1)
       else case ?add of None \<Rightarrow> (Inl ValidationException, backend w1)
         | Some new \<Rightarrow> (Inr (new, map_of xs m = None), set_zset pk (zput m new (Zitems xs)) (backend w1)))"
    unfolding sp_ZIncrBy_def Let_def native_incr_def z t zitems_of(2) [OF ok] ..
  have "storable d" by (rule storeScore_storable [OF s])
  then have dom: "scoreOutOfDomain ?sum \<Longrightarrow> map_of xs m \<noteq> None"
    by (auto simp: storable_def split: option.splits)
  show ?thesis
  proof (cases "scoreOutOfDomain ?sum")
    case True
    then show ?thesis
      using dom by (intro failed [of ErrScoreOutOfRange])
        (simp_all add: run attempt_def [of "call _"] call_mem sp on_tbl_def writeStoreError_def zincr_effect_def)
  next
    case False
    show ?thesis
    proof (cases ?add)
      case None
      then show ?thesis
        using False add by (intro failed [of ErrBackendError])
          (simp_all add: run attempt_def [of "call _"] call_mem sp on_tbl_def writeStoreError_def zincr_effect_def ValidationException_def)
    next
      case (Some new)
      then have new: "storable new" using add by simp
      let ?ys = "zlist (zput m new (Zitems xs))" and ?w2 = "on_tbl (set_zset pk (zput m new (Zitems xs))) w1"
      let ?r = "BulkString (formatScore new)"
      have ys: "map_of ?ys = (map_of xs)(m \<mapsto> unsigned_zero new)"
        using zscore_zput [OF new, of m "Zitems xs"] zitems_of [OF ok] by (simp add: zscore_def)
      have ok': "zset_ok ?ys"
        using zset_ok_zput_all [OF ok, of "[(m, new)]"] new memberStorable_fits [OF fits] by simp
      have len: "int (length ?ys) = int (length xs) + (if map_of xs m = None then 1 else 0)"
        using zset_okD(7) [OF ok] zset_okD(7) [OF ok'] by (auto simp: ys card_insert_if finite_dom_map_of insert_absorb domIff)
      have at2: "coll_at TypeZSet zget (backend ?w2) pk mt ?ys" and ne: "?ys \<noteq> []"
        and same: "same_except {pk} (backend w1) (backend ?w2)"
        using w1(2) arg_cong [OF ys, of dom] by (auto simp: coll_at_def same_except_def)
      have "?run = (if map_of xs m = None then attempt (adjustCount ?E pk TypeZSet 1) (\<lambda>_. ret ?r) ?w2 else (?r, ?w2))"
        using False by (simp add: run attempt_def [of "call _"] call_mem sp Some on_tbl_def ret_def)
      moreover have "coll_run TypeZSet zget (backend ?w2) pk (?r, ?ys) (attempt (adjustCount ?E pk TypeZSet 1) (\<lambda>_. ret ?r) ?w2)"
        if "map_of xs m = None"
        using at2 w1(3) len ne that by (intro zset_coll.reply_coll) auto
      moreover have "coll_run TypeZSet zget (backend ?w2) pk (?r, ?ys) (?r, ?w2)" if "map_of xs m \<noteq> None"
        using at2 w1(3) len ne that by (intro coll_run_same coll_holds_at) auto
      ultimately have "coll_run TypeZSet zget (backend ?w2) pk (?r, ?ys) ?run" by simp
      moreover have "zincr_effect (t_add (backend w)) d m (map_of xs) ?r (map_of ?ys)"
        using False Some by (simp add: ys zincr_effect_def)
      ultimately show ?thesis
        using ok' coll_run_trans [OF w1(4) coll_run_trans [OF same]]
        by (intro spec_runI [where ok = zset_ok and xs = ?ys and r = ?r]) simp_all
    qed
  qed
qed

lemma zincr_run:
  assumes holds: "coll_holds TypeZSet zget (backend w) (encodePK cfg db key) xs" and ok: "zset_ok xs"
    and c: "zset_cmd_ok (backend w) key (encodePK cfg db key) (map_of xs) (ZIncrBy s m)"
  shows "zrun (backend w) (encodePK cfg db key) (ZIncrBy s m) xs (zset_handler (mem_env q cfg) db key (ZIncrBy s m) w)"
proof (cases "storeScore s")
  case (Inl e)
  then show ?thesis
    using unchanged [OF holds, where ok = zset_ok and \<alpha> = map_of and P = "\<lambda>r M. r = Error e \<and> M = map_of xs" and r = "Error e"] ok
    unfolding zset_spec.simps by (simp add: zset_handler_def handleZIncrBy_def Let_def ret_def numeral_2_eq_2)
next
  case (Inr d)
  have fits: "write_fits key [m] []" and sum: "sum_ok (backend w) (map_of xs) s m"
    using c by (simp_all add: zset_cmd_ok_def)
  show ?thesis
    using zincrTail_run [OF holds ok Inr fits sum, of q cfg] fits unfolding zset_spec.simps Inr sum.case
    by (simp add: zset_handler_def handleZIncrBy_def Let_def Inr attempt_def [of "CheckWrite _ _ _"]
        CheckWrite_run numeral_2_eq_2 numeral_3_eq_3)
qed

lemma zaddincr_run:
  assumes holds: "coll_holds TypeZSet zget (backend w) (encodePK cfg db key) xs" and ok: "zset_ok xs"
    and c: "zset_cmd_ok (backend w) key (encodePK cfg db key) (map_of xs) (ZAddIncr nx xx ch sms)"
  shows "zrun (backend w) (encodePK cfg db key) (ZAddIncr nx xx ch sms) xs
    (zset_handler (mem_env q cfg) db key (ZAddIncr nx xx ch sms) w)"
proof -
  let ?pk = "encodePK cfg db key" and ?E = "mem_env q cfg"
  have sms: "sms \<noteq> []" "ToUpper (fst (hd sms)) \<notin> set [''NX'', ''XX'', ''CH'', ''INCR'']" "write_fits key (map snd sms) []"
    and fresh: "nx \<or> xx \<Longrightarrow> \<not> key_expired (backend w) ?pk" and sum: "list_all (\<lambda>(s, m). sum_ok (backend w) (map_of xs) s m) sms"
    using c by (auto simp: zset_cmd_ok_def)
  have run: "zset_handler ?E db key (ZAddIncr nx xx ch sms) w =
      (if nx \<and> xx then ret (Error errZaddNxXx) else if length sms \<noteq> 1 then ret (Error errZaddIncr)
       else zaddIncr ?E key ?pk nx xx (score_args sms)) w"
    using zaddFlagLoop_incr [OF sms(1,2), of nx xx ch]
    by (simp add: zset_handler_def handleZAdd_def Let_def numeral_2_eq_2 split: if_splits)
  have err: "spec_run TypeZSet zget zset_ok map_of (\<lambda>r M. r = a \<and> M = map_of xs) (backend w) ?pk (a, w)" for a
    by (rule unchanged [OF holds]) (simp_all add: ok)
  show ?thesis
  proof (cases "nx \<and> xx")
    case True
    then show ?thesis using err unfolding run zset_spec.simps by (simp add: ret_def)
  next
    case gate: False
    show ?thesis
    proof (cases "length sms = 1")
      case False
      then have "(case sms of [(s, m)] \<Rightarrow> P s m | _ \<Rightarrow> Q) = Q" for P and Q :: bool
        by (auto split: list.split)
      then show ?thesis
        using False gate err unfolding run zset_spec.simps by (cases nx; cases xx) (simp_all add: ret_def)
    next
      case True
      then obtain s m where one: "sms = [(s, m)]" by (cases sms) auto
      show ?thesis
      proof (cases "storeScore s")
        case (Inl e)
        then show ?thesis
          using gate err unfolding zset_spec.simps one run [unfolded one]
          by (cases nx; cases xx) (simp_all add: zaddIncr_def ret_def score_args_def)
      next
        case (Inr d)
        have fits: "write_fits key [m] []" and sum1: "sum_ok (backend w) (map_of xs) s m"
          using sms(3) sum one by simp_all
        note tail = zincrTail_run [OF holds ok Inr fits sum1, of q cfg]
        have state: "\<forall>m. live_meta (backend w) ?pk = Some m \<longrightarrow> m_type m = TypeZSet"
          using holds by (auto simp: coll_holds_def)
        have score: "zscore (t_zset (backend w) ?pk) m = map_of xs m" if "nx \<or> xx"
        proof -
          have "zget (backend w) ?pk = xs"
            using holds fresh [OF that]
            by (auto simp: coll_holds_def live_meta_def key_expired_def split: option.splits if_splits)
          then show ?thesis by (simp add: zscore_def)
        qed
        have "zaddIncr ?E key ?pk nx xx (score_args sms) w =
            (if (nx \<and> map_of xs m \<noteq> None) \<or> (xx \<and> map_of xs m = None) then (NullBulk, w) else zincrTail ?E ?pk m d w)"
          using state fits score gate
          by (auto simp: zaddIncr_def one score_args_def Inr attempt_def [of "CheckWrite _ _ _"] CheckWrite_run
              attempt_def [of "loadMetaState _ _ _"] loadMetaState_mem attempt_def [of "call _"] call_mem sp_ZScore_def on_tbl_def ret_def
              split: option.split)
        then show ?thesis
          using gate tail err unfolding zset_spec.simps one run [unfolded one]
          by (cases nx; cases xx; cases "map_of xs m") (simp_all add: Inr)
      qed
    qed
  qed
qed

section \<open>Refinement\<close>

text \<open>
  C11: every Sorted Set command on one key but the paging read ZSCAN, ZADD with its options NX, XX, CH and
  INCR among them, refines an operation of a finite map from members to scores. If a key holds the map
  \<open>M\<close> (absent: the empty map), the command replies what the map operation returns, ranges and ranks
  being those of the listing by score and then member, the key then holds the resulting map, with its
  counter equal to the number of members and the key existing iff there is one, and no other key
  changes. A score or a bound that does not parse, or a score a Number cannot hold, is an error and
  changes nothing. Left out is ZADD with NX, XX or CH on a key that has expired and was not reclaimed yet,
  which miscounts (\<open>zadd_ch_miscounts_expired_key\<close>); names are within their size limits, no cap on the
  size of a result is configured, and the sum of an increment is one the backend can hold, or refuses.
\<close>

theorem zset_commands_refine:
  assumes "conforming_env E view" and "t = view (backend w)" and "pk = encodePK (e_cfg E) db key"
    and "zset_cmd_ok t key pk M c" and "MaxCollectionResult (e_cfg E) \<le> 0"
    and "run = zset_handler E db key c w" and "t' = view (backend (snd run))"
    and "zset_holds t pk M" and "int (card (dom M)) \<le> max_i64"
  shows "\<exists>M'. zset_spec (t_add t) c M (fst run) M' \<and> zset_holds t' pk M' \<and> same_except {pk} t t'"
proof -
  let ?E = "mem_env (e_enq E) (e_cfg E)" and ?W = "wview view w"
  have W: "backend ?W = t" using assms(2) by simp
  obtain xs where xs: "coll_holds TypeZSet zget (backend ?W) (encodePK (e_cfg E) db key) xs" "zset_ok xs" "map_of xs = M"
    using assms(3,8) W by (auto simp: zset_holds_def)
  have len: "int (length xs) \<le> max_i64" using assms(9) zset_okD(7) [OF xs(2)] xs(3) by simp
  note sims = conforming_env.sim_zset_commands [OF assms(1), unfolded abs_env_mem_env]
    conforming_env.sim_ZIncrBy [OF assms(1), unfolded abs_env_mem_env]
    conforming_env.sim_zset_directions [OF assms(1), unfolded abs_env_mem_env]
  have sim: "sim view (zset_handler E db key c) (zset_handler ?E db key c)"
    unfolding zset_handler_def by (cases c) (simp_all add: sims)
  have c: "zset_cmd_ok (backend ?W) key (encodePK (e_cfg E) db key) (map_of xs) c" using assms(3,4) W xs(3) by simp
  have "zrun (backend ?W) (encodePK (e_cfg E) db key) c xs (zset_handler ?E db key c ?W)"
    using c simple_reads [OF xs(1,2)] bounded_reads [OF xs(1,2) len] range_reads [OF xs(1,2) len assms(5)]
      removals [OF xs(1,2) len] zadd_run [OF xs(1,2)] zincr_run [OF xs(1,2)] zaddincr_run [OF xs(1,2)]
    by (cases c) (simp_all add: zset_cmd_ok_def del: zset_spec.simps wview_simps)
  then obtain r ys where "coll_run TypeZSet zget t pk (r, ys) (zset_handler ?E db key c ?W)" "zset_ok ys"
    "zset_spec (t_add t) c M r (map_of ys)"
    using W xs(3) assms(3) by (auto simp: spec_run_def)
  then show ?thesis
    using sim_fst [OF sim] sim_backend [OF sim] assms(6,7)
    by (auto simp: coll_run_def zset_holds_def simp del: wview_simps zset_spec.simps)
qed

text \<open>A sorted-set key over the in-memory store, its member scored 1.\<close>

definition one64 :: f64 where
  "one64 = FFin (2 ^ 52) (-52)"

definition zset_tbl :: tbl where
  "zset_tbl = set_zset ''z'' (zput ''a'' one64 zempty)
     (set_meta ''z'' (Some \<lparr>m_type = TypeZSet, m_exp = 0, m_count = 1\<rparr>) (empty_tbl 100))"

lemma storable_1: "storable one64"
  unfolding one64_def by (rule storable_expo) (simp_all add: f64_ok_def)

lemma zlist_tbl: "zlist (zput ''a'' one64 zempty) = [(''a'', one64)]"
  using storable_1 by (simp add: zput.rep_eq unsigned_zero_def is_zero_def) (simp add: one64_def)

lemma zset_tbl_holds: "zset_holds zset_tbl ''z'' [''a'' \<mapsto> one64]"
proof -
  have "coll_holds TypeZSet zget zset_tbl ''z'' [(''a'', one64)]"
    by (simp add: coll_holds_def zset_tbl_def live_meta_def IsExpired_def zlist_tbl)
  moreover have "zset_ok [(''a'', one64)]"
    using zlist_ok [of "zput ''a'' one64 zempty"]
    by (simp add: zset_ok_def zlist_tbl memberStorable_def maxStorableMemberLen_def MaxMemberNameSize_def MaxNameSize_def)
  ultimately show ?thesis unfolding zset_holds_def by (intro exI [of _ "[(''a'', one64)]"]) simp
qed

lemma storeScore_0: "storeScore ''0'' = Inr (FZero False)"
proof -
  have "parseScore ''0'' = Some (FZero False)" by code_simp
  moreover have "\<not> flt dynamoNumberMaxMagnitude (FZero False)"
    unfolding dynamoNumberMaxMagnitude_def by (rule not_below_zero) simp
  ultimately show ?thesis by (simp add: storeScore_def checkScoreDomain_def is_inf_def is_zero_def fabs_def)
qed

theorem zset_commands_refine_witness:
  defines "run \<equiv> zset_handler (mem_env SyncDeleter cfg0) 0 ''z'' (ZAdd True False False [(''0'', ''a''), (''0'', ''b'')]) (mem_world zset_tbl)"
  shows "fst run = IntReply 1 \<and> zset_holds (backend (snd run)) ''z'' [''a'' \<mapsto> one64, ''b'' \<mapsto> FZero False]"
proof -
  let ?c = "ZAdd True False False [(''0'', ''a''), (''0'', ''b'')]" and ?M = "[''a'' \<mapsto> one64]"
  have up: "ToUpper ''0'' = ''0''" by code_simp
  have "zset_cmd_ok zset_tbl ''z'' ''z'' ?M ?c"
    by (simp add: zset_cmd_ok_def write_fits_def nameTooLarge_def memberNameTooLarge_def MaxMemberNameSize_def
        MaxNameSize_def up key_expired_def zset_tbl_def IsExpired_def)
  then obtain M' where M': "zset_spec (t_add zset_tbl) ?c ?M (fst run) M'" "zset_holds (backend (snd run)) ''z'' M'"
    using zset_commands_refine [OF conforming_mem [of SyncDeleter cfg0] refl refl _ _ refl refl,
        where w = "mem_world zset_tbl" and db = 0 and key = "''z''" and M = ?M and c = ?c] zset_tbl_holds
    by (auto simp: encodePK_def run_def)
  have "parsePairs (score_args [(''0'', ''a''), (''0'', ''b'')]) = Inr [(''a'', FZero False), (''b'', FZero False)]"
    by (simp add: storeScore_0)
  then show ?thesis
    using M' by (simp add: zadd_all_def zadd_one_def unsigned_zero_def is_zero_def)
qed

section \<open>An expired key in the way\<close>

text \<open>
  With NX, XX or CH the scores are read before the key is taken over and without a look at its expiry.
  Over an expired key that still has its members, \<^verbatim>\<open>ZADD key CH\<close> takes a stale member for one that is
  there: it reclaims the members, writes the new one, and leaves the counter at 0.
\<close>

lemma zadd_ch_miscounts_expired_key:
  assumes "t_meta t ''z'' = Some \<lparr>m_type = TypeZSet, m_exp = 5, m_count = 1\<rparr>" and "t_time t = 9"
    and "zscore (t_zset t ''z'') ''a'' = Some (FZero False)"
  shows "\<exists>t'. backend (snd (handleZAdd (mem_env SyncDeleter cfg0) 0 [''ZADD'', ''z'', ''CH'', ''0'', ''a''] (mem_world t))) = t' \<and>
    zscore (t_zset t' ''z'') ''a'' = Some (FZero False) \<and> t_meta t' ''z'' = Some \<lparr>m_type = TypeZSet, m_exp = 0, m_count = 0\<rparr>"
proof -
  have up: "ToUpper ''CH'' = ''CH''" "ToUpper ''0'' = ''0''" by code_simp+
  have pairs: "parseZAddFlags [''CH'', ''0'', ''a''] =
      Inr (\<lparr>zf_nx = False, zf_xx = False, zf_ch = True, zf_incr = False\<rparr>, [''0'', ''a''])"
    by code_simp
  have eq: "feq (FZero False) (FZero False)" by code_simp
  have live: "live_meta t ''z'' = None" using assms(1,2) by (simp add: live_meta_def IsExpired_def)
  have score: "zscore (zput ''a'' (FZero False) zempty) ''a'' = Some (FZero False)"
    by (simp add: zscore_zput unsigned_zero_def is_zero_def)
  show ?thesis
    using assms live
    by (simp add: handleZAdd_def pairs zaddFlagPath_def storeScore_0 attempt_def loadMetaState_mem CheckWrite_run
        write_fits_def nameTooLarge_def memberNameTooLarge_def MaxMemberNameSize_def MaxNameSize_def encodePK_def
        zview0_def bindE_def call_mem sp_ZScore_def zaddApply_def Let_def eq zaddWrite_def ret_def
        ensureTypeExpiring_mem IsExpired_def sp_ZAdd_def on_tbl_def score numeral_2_eq_2)
qed

section \<open>The text of a score\<close>

lemma infinite_texts:
  "t \<in> set [''inf'', ''+inf'', ''Inf'', ''+Inf'', ''INF'', ''+INF''] \<Longrightarrow> ParseFloat t = Inr (FInf False)"
  "t \<in> set [''-inf'', ''-Inf'', ''-INF''] \<Longrightarrow> ParseFloat t = Inr (FInf True)"
proof -
  have "list_all (\<lambda>t. ParseFloat t = Inr (FInf False)) [''inf'', ''+inf'', ''Inf'', ''+Inf'', ''INF'', ''+INF'']"
    "list_all (\<lambda>t. ParseFloat t = Inr (FInf True)) [''-inf'', ''-Inf'', ''-INF'']"
    by code_simp+
  then show "t \<in> set [''inf'', ''+inf'', ''Inf'', ''+Inf'', ''INF'', ''+INF''] \<Longrightarrow> ParseFloat t = Inr (FInf False)"
    "t \<in> set [''-inf'', ''-Inf'', ''-INF''] \<Longrightarrow> ParseFloat t = Inr (FInf True)"
    unfolding list_all_iff by blast+
qed

text \<open>
  C22: the text a score is replied as denotes that score: sent back as the score of ZADD or the increment
  of ZINCRBY, the 17 digits are parsed to the same double and pass the check of the domain, for every
  score a sorted set can hold.
\<close>

theorem score_text_roundtrip:
  assumes "storable x"
  shows "storeScore (formatScore x) = Inr x"
proof -
  have fin: "f64_ok x" "finite64 x" using assms storable_finite by (simp_all add: storable_def)
  then have fmt: "formatScore x = FormatFloat_g17 x" by (auto simp: formatScore_def finite64_def)
  have parse: "ParseFloat (formatScore x) = Inr x" unfolding fmt by (rule ParseFloat_g17 [OF fin])
  have "x \<noteq> FInf s" for s using fin(2) by (auto simp: finite64_def)
  then have notinf: "formatScore x \<notin> set [''inf'', ''+inf'', ''Inf'', ''+Inf'', ''INF'', ''+INF'']"
    "formatScore x \<notin> set [''-inf'', ''-Inf'', ''-INF'']"
    using infinite_texts [of "formatScore x"] parse by (metis sum.inject(2))+
  have "parseScore (formatScore x) = Some x"
    unfolding parseScore_def if_not_P [OF notinf(1)] if_not_P [OF notinf(2)] using parse
    by (cases "formatScore x = []") (simp add: ParseFloat_def, simp)
  moreover have "checkScoreDomain x = None"
    using assms by (auto simp: checkScoreDomain_def storable_def scoreOutOfDomain_def dynamoNumberMaxMagnitude_def
        dynamoNumberMinMagnitude_def zsetScoreMaxMagnitude_def zsetScoreMinMagnitude_def)
  ultimately show ?thesis by (simp add: storeScore_def)
qed

theorem score_text_roundtrip_witness: "storeScore (formatScore one64) = Inr one64"
  by (rule score_text_roundtrip [OF storable_1])

section \<open>The scores of ZUNIONSTORE and ZINTERSTORE\<close>

text \<open>
  C23: whatever the operands, the weights (infinite ones too) and the aggregate, every score ZUNIONSTORE and
  ZINTERSTORE compute is a number, never NaN (infinity times zero and infinity minus infinity count as
  zero); and when the scores pass the check, every one of them is a double that a Number holds, so the
  write stores exactly what was computed.
\<close>

theorem zstore_scores_typed:
  assumes "\<forall>op \<in> set operands. \<forall>p \<in> set op. storable (snd p)" and "parseZStoreOptions tail n = Inr (weights, agg)"
    and "members = in_order iter (combineZStores operands weights agg isInter)"
  shows "(\<forall>p \<in> set members. f64_ok (snd p) \<and> snd p \<noteq> FNaN) \<and>
    (domain_error members = None \<longrightarrow> (\<forall>p \<in> set members. storable (snd p)))"
proof -
  have "\<forall>w \<in> set weights. number w"
    using assms(2) number_options [of n tail "replicate n (f64_of_int 1)" zAggSum weights agg]
    by (simp add: parseZStoreOptions_def)
  moreover have "\<forall>op \<in> set operands. numbers op" using assms(1) storable_number by blast
  ultimately have "numbers members"
    using numbers_combine [of operands weights agg isInter] in_order_sub unfolding assms(3) by blast
  then show ?thesis using domain_error_None [of members] by (auto simp: number_def)
qed

theorem zstore_scores_typed_witness:
  "parseZStoreOptions [''WEIGHTS'', ''inf''] 1 = Inr ([FInf False], zAggSum) \<and>
   list_all (\<lambda>p. f64_ok (snd p) \<and> snd p \<noteq> FNaN)
     (in_order (\<lambda>ms. ms) (combineZStores [[(''a'', FZero False)]] [FInf False] zAggSum False))"
proof -
  have up: "upper_byte CHR ''W'' = CHR ''W''" "upper_byte CHR ''E'' = CHR ''E''" "upper_byte CHR ''I'' = CHR ''I''"
    "upper_byte CHR ''G'' = CHR ''G''" "upper_byte CHR ''H'' = CHR ''H''" "upper_byte CHR ''T'' = CHR ''T''"
    "upper_byte CHR ''S'' = CHR ''S''"
    by code_simp+
  have "parseWeights [''inf''] = Inr [FInf False]" by (simp add: parseWeights_def parseScore_def)
  then have "parseZStoreOptions [''WEIGHTS'', ''inf''] 1 = Inr ([FInf False], zAggSum)"
    by (simp add: parseZStoreOptions_def up Let_def)
  then show ?thesis
    using zstore_scores_typed [OF _ _ refl, of "[[(''a'', FZero False)]]" "[''WEIGHTS'', ''inf'']" 1 "[FInf False]" zAggSum "\<lambda>ms. ms" False]
    by (simp add: list_all_iff del: f64_ok_def)
qed

end
