(* ===== verification/WrongType.thy ===== *)
theory WrongType
  imports StringSpec ListSpec HashSpec SetSpec ZSetSpec
begin

text \<open>
  What every String, List, Hash, Set and Sorted Set command on one key does to a live key of another
  type: it replies WRONGTYPE and changes nothing. The requests are those of the refinements of each kind.
\<close>

section \<open>A key of another type\<close>

datatype string_cmd =
    Get | Strlen | GetSet bytes | Append bytes | GetRange int int | SetRange int bytes | Incr | Decr | IncrBy int
  | DecrBy int | IncrByFloat bytes

fun string_handler :: "'s env \<Rightarrow> int \<Rightarrow> bytes \<Rightarrow> string_cmd \<Rightarrow> 's handler" where
  "string_handler E db key Get = handleGet E db [''GET'', key]"
| "string_handler E db key Strlen = handleStrlen E db [''STRLEN'', key]"
| "string_handler E db key (GetSet v) = handleGetSet E db [''GETSET'', key, v]"
| "string_handler E db key (Append v) = handleAppend E db [''APPEND'', key, v]"
| "string_handler E db key (GetRange i j) = handleGetRange E db [''GETRANGE'', key, fmt_int i, fmt_int j]"
| "string_handler E db key (SetRange i v) = handleSetRange E db [''SETRANGE'', key, fmt_int i, v]"
| "string_handler E db key Incr = handleIncr E db [''INCR'', key]"
| "string_handler E db key Decr = handleDecr E db [''DECR'', key]"
| "string_handler E db key (IncrBy n) = handleIncrBy E db [''INCRBY'', key, fmt_int n]"
| "string_handler E db key (DecrBy n) = handleDecrBy E db [''DECRBY'', key, fmt_int n]"
| "string_handler E db key (IncrByFloat x) = handleIncrByFloat E db [''INCRBYFLOAT'', key, x]"

definition string_cmd_ok :: "bytes \<Rightarrow> string_cmd \<Rightarrow> bool" where
  "string_cmd_ok key c \<longleftrightarrow>
     (case c of
        GetSet v \<Rightarrow> write_fits key [] [v]
      | GetRange i j \<Rightarrow> i64 i \<and> i64 j
      | SetRange i v \<Rightarrow> i64 i \<and> 0 \<le> i
      | IncrBy n \<Rightarrow> i64 n \<and> write_fits key [] []
      | DecrBy n \<Rightarrow> i64 n \<and> write_fits key [] []
      | Incr \<Rightarrow> write_fits key [] []
      | Decr \<Rightarrow> write_fits key [] []
      | _ \<Rightarrow> True)"

text \<open>The arguments of a sorted-set command that are read before its key.\<close>

definition zset_args_ok :: "bytes \<Rightarrow> zset_cmd \<Rightarrow> bool" where
  "zset_args_ok key c \<longleftrightarrow>
     (case c of
        ZAdd n x ch sms \<Rightarrow> sms \<noteq> [] \<and> write_fits key (map snd sms) [] \<and> \<not> (n \<and> x) \<and>
          ToUpper (fst (hd sms)) \<notin> set [''NX'', ''XX'', ''CH'', ''INCR''] \<and> \<not> isl (parsePairs (score_args sms))
      | ZAddIncr n x ch sms \<Rightarrow> length sms = 1 \<and> write_fits key (map snd sms) [] \<and> \<not> (n \<and> x) \<and>
          ToUpper (fst (hd sms)) \<notin> set [''NX'', ''XX'', ''CH'', ''INCR''] \<and> \<not> isl (storeScore (fst (hd sms)))
      | ZIncrBy s m \<Rightarrow> write_fits key [m] [] \<and> \<not> isl (storeScore s)
      | ZCount a b \<Rightarrow> parseScoreBound a \<noteq> None \<and> parseScoreBound b \<noteq> None
      | ZRange desc i j ws \<Rightarrow> i64 i \<and> i64 j
      | ZRangeByScore desc a b ws lmt \<Rightarrow> parseScoreBound a \<noteq> None \<and> parseScoreBound b \<noteq> None \<and>
          (\<forall>i n. lmt = Some (i, n) \<longrightarrow> i64 i \<and> i64 n)
      | ZRemRangeByRank i j \<Rightarrow> i64 i \<and> i64 j
      | ZRemRangeByScore a b \<Rightarrow> parseScoreBound a \<noteq> None \<and> parseScoreBound b \<noteq> None
      | ZRangeByLex desc a b lmt \<Rightarrow> parseLexBound a \<noteq> None \<and> parseLexBound b \<noteq> None \<and>
          (\<forall>i n. lmt = Some (i, n) \<longrightarrow> i64 i \<and> i64 n)
      | ZLexCount a b \<Rightarrow> parseLexBound a \<noteq> None \<and> parseLexBound b \<noteq> None
      | ZRemRangeByLex a b \<Rightarrow> parseLexBound a \<noteq> None \<and> parseLexBound b \<noteq> None
      | _ \<Rightarrow> True)"

datatype key_cmd = OfString string_cmd | OfList list_cmd | OfHash hash_cmd | OfSet set_cmd | OfZSet zset_cmd

fun cmd_type :: "key_cmd \<Rightarrow> keytype" where
  "cmd_type (OfString c) = TypeString"
| "cmd_type (OfList c) = TypeList"
| "cmd_type (OfHash c) = TypeHash"
| "cmd_type (OfSet c) = TypeSet"
| "cmd_type (OfZSet c) = TypeZSet"

fun cmd_ok :: "bytes \<Rightarrow> key_cmd \<Rightarrow> bool" where
  "cmd_ok key (OfString c) = string_cmd_ok key c"
| "cmd_ok key (OfList c) = list_cmd_ok key c"
| "cmd_ok key (OfHash c) \<longleftrightarrow> hash_cmd_ok key c \<and> (case c of HIncrByFloat f x \<Rightarrow> parseFloatArg x \<noteq> None | _ \<Rightarrow> True)"
| "cmd_ok key (OfSet c) = set_cmd_ok key c"
| "cmd_ok key (OfZSet c) = zset_args_ok key c"

fun cmd_handler :: "'s env \<Rightarrow> pick \<Rightarrow> int \<Rightarrow> bytes \<Rightarrow> key_cmd \<Rightarrow> 's handler" where
  "cmd_handler E pick db key (OfString c) = string_handler E db key c"
| "cmd_handler E pick db key (OfList c) = list_handler E db key c"
| "cmd_handler E pick db key (OfHash c) = hash_handler E db key c"
| "cmd_handler E pick db key (OfSet c) = set_handler E pick db key c"
| "cmd_handler E pick db key (OfZSet c) = zset_handler E db key c"

text \<open>The helpers, on such a key.\<close>

lemma wrong_helpers:
  assumes "wrong_type (backend w) pk ty"
  shows "withKey (mem_env q cfg) pk ty f g w = (Error ErrWrongType, w)"
    and "attempt (ensureTypeExpiring (mem_env q cfg) pk ty) k w = (Error ErrWrongType, w)"
    and "attempt (loadMetaState (mem_env q cfg) pk ty) l w = l KeyWrong w"
    and "ty = TypeString \<Longrightarrow> withString (mem_env q cfg) pk f h w = (Error ErrWrongType, w)"
    and "ty = TypeString \<Longrightarrow> attempt (rmwString (mem_env q cfg) pk compute cap) j w = (Error ErrWrongType, w)"
proof -
  obtain m where m: "live_meta (backend w) pk = Some m" "m_type m \<noteq> ty"
    using assms by (auto simp: wrong_type_def split: option.splits)
  then have t: "t_meta (backend w) pk = Some m" "\<not> IsExpired m (t_time (backend w))" by (simp_all add: live_meta_Some)
  show "withKey (mem_env q cfg) pk ty f g w = (Error ErrWrongType, w)" using m by (simp add: withKey_mem)
  show "attempt (ensureTypeExpiring (mem_env q cfg) pk ty) k w = (Error ErrWrongType, w)"
    using m t by (simp add: attempt_def ensureTypeExpiring_mem writeStoreError_def)
  show "attempt (loadMetaState (mem_env q cfg) pk ty) l w = l KeyWrong w"
    using m by (simp add: attempt_def loadMetaState_mem)
  show "ty = TypeString \<Longrightarrow> withString (mem_env q cfg) pk f h w = (Error ErrWrongType, w)"
    using assms by (simp add: withString_mem)
  have retries: "MaxRMWRetries = Suc 49" by (simp add: MaxRMWRetries_def)
  have "ty = TypeString \<Longrightarrow> rmwString (mem_env q cfg) pk compute cap w = (Inl MetaWrongType, w)"
    unfolding rmwString_def retries rmwLoop.simps using assms by (simp add: bindE_def readStringForRMW_mem ret_def)
  then show "ty = TypeString \<Longrightarrow> attempt (rmwString (mem_env q cfg) pk compute cap) j w = (Error ErrWrongType, w)"
    by (simp add: attempt_def writeStoreError_def)
qed

lemma checked_write: "write_fits key ms vs \<Longrightarrow> attempt (CheckWrite key ms vs) k w = k () w"
  by (simp add: attempt_def CheckWrite_run)

lemma wrong_string:
  assumes "wrong_type (backend w) (encodePK cfg db key) TypeString" and "string_cmd_ok key c"
  shows "string_handler (mem_env q cfg) db key c w = (Error ErrWrongType, w)"
proof -
  note wrong = wrong_helpers [OF assms(1)]
  have get: "handleGet (mem_env q cfg) db [n, key] w = (Error ErrWrongType, w)" for n
    using assms(1) by (auto simp: handleGet_def Let_def attempt_def Meta_Load_mem withNow_def ret_def wrong_type_def
        live_meta_def split: option.splits if_splits)
  show ?thesis
    using assms(2) by (cases c)
      (simp_all add: get string_cmd_ok_def handleStrlen_def handleGetSet_def handleAppend_def handleGetRange_def
        handleSetRange_def handleIncr_def handleDecr_def handleIncrBy_def handleDecrBy_def handleIncrByFloat_def incrBy_def
        Let_def ParseInt_fmt checked_write wrong)
qed

lemma wrong_list:
  assumes "wrong_type (backend w) (encodePK cfg db key) TypeList" and "list_cmd_ok key c"
  shows "list_handler (mem_env q cfg) db key c w = (Error ErrWrongType, w)"
proof -
  have up: "ToUpper ''BEFORE'' = ''BEFORE''" "ToUpper ''AFTER'' = ''AFTER''" by code_simp+
  then have "ToUpper (if b then ''BEFORE'' else ''AFTER'') = (if b then ''BEFORE'' else ''AFTER'')" for b by simp
  then have "handleLInsert (mem_env q cfg) db (list_args key (LInsert b p v)) w = (Error ErrWrongType, w)" for b p v
    using wrong_helpers [OF assms(1)] by (cases b) (simp_all only: handleLInsert_def list_args.simps Let_def append_Cons append_Nil
      nth_Cons_0 nth_Cons_Suc One_nat_def numeral_nat if_True if_False up mem_env_simps, simp_all)
  then show ?thesis
    using assms(2) wrong_helpers [OF assms(1)] by (cases c)
      (simp_all add: list_cmd_ok_def handleLPush_def handleRPush_def handleLPushX_def handleRPushX_def pushXCommon_def
        handleLPop_def handleRPop_def popCommon_def handleLLen_def handleLIndex_def handleLRange_def handleLSet_def
        handleLTrim_def handleLRem_def Let_def ParseInt_fmt)
qed

lemma wrong_hash:
  assumes "wrong_type (backend w) (encodePK cfg db key) TypeHash" and "cmd_ok key (OfHash c)"
    and "E = mem_env q cfg \<or> (\<exists>f x. c = HIncrByFloat f x) \<and> E = checked_env (mem_env q cfg)"
  shows "hash_handler E db key c w = (Error ErrWrongType, w)"
proof -
  note wrong = wrong_helpers [OF assms(1)]
  note defs = hash_cmd_ok_def handleHSet_def handleHMSet_def handleHSetNX_def handleHGet_def handleHMGet_def
    handleHGetAll_def handleHKeys_def handleHVals_def handleHDel_def handleHExists_def handleHLen_def handleHStrlen_def
    handleHIncrBy_def withAll_def checked_write Let_def ParseInt_fmt splitHashPairs_pair_args even_pair_args
  have ensure: "ensureHashWritable (mem_env q cfg) (encodePK cfg db key) key fs vs k w = (Error ErrWrongType, w)"
    if "write_fits key fs vs" for fs vs k
    using that by (simp add: ensureHashWritable_def checked_write wrong)
  have abs: "abs_env (mem_env q cfg) = mem_env q cfg" by (simp add: abs_env_mem_env)
  have float: "handleHIncrByFloat E db (hash_args key c) w = (Error ErrWrongType, w)" if "c = HIncrByFloat f x" for f x
    using assms(2,3) that ensure
    by (auto simp: handleHIncrByFloat_def Let_def hash_cmd_ok_def checked_env_helpers abs)
  show ?thesis
  proof (cases "\<exists>f x. c = HIncrByFloat f x")
    case True
    then show ?thesis using float by auto
  next
    case False
    then have "E = mem_env q cfg" using assms(3) by blast
    then show ?thesis using assms(2) wrong ensure False by (cases c) (simp_all add: defs)
  qed
qed

lemma wrong_set:
  assumes "wrong_type (backend w) (encodePK cfg db key) TypeSet" and "set_cmd_ok key c"
  shows "set_handler (mem_env q cfg) pick db key c w = (Error ErrWrongType, w)"
proof -
  note wrong = wrong_helpers [OF assms(1)]
  have "handleSPop (mem_env q cfg) pick db (set_args key (SPop k)) w = (Error ErrWrongType, w)" if "c = SPop k" for k
    using that assms(2) wrong by (cases k) (simp_all add: handleSPop_def Let_def set_cmd_ok_def parseCount_args)
  moreover have "handleSRandMember (mem_env q cfg) pick db (set_args key (SRandMember k)) w = (Error ErrWrongType, w)"
    if "c = SRandMember k" for k
    using that assms(2) wrong by (cases k) (simp_all add: handleSRandMember_def Let_def set_cmd_ok_def parseCount_args)
  ultimately show ?thesis
    using assms(2) wrong by (cases c)
      (simp_all add: set_cmd_ok_def handleSAdd_def handleSRem_def handleSIsMember_def handleSMembers_def handleSCard_def
        withAll_def ensureSetWritable_def checked_write Let_def)
qed

lemma wrong_zset:
  assumes "wrong_type (backend w) (encodePK cfg db key) TypeZSet" and "zset_args_ok key c"
  shows "zset_handler (mem_env q cfg) db key c w = (Error ErrWrongType, w)"
proof (cases c)
  case (ZAdd n x ch sms)
  then obtain ms where ms: "parsePairs (score_args sms) = Inr ms" and ok: "sms \<noteq> []" "write_fits key (map snd sms) []"
      "\<not> (n \<and> x)" "ToUpper (fst (hd sms)) \<notin> set [''NX'', ''XX'', ''CH'', ''INCR'']"
    using assms(2) by (cases "parsePairs (score_args sms)") (simp_all add: zset_args_ok_def)
  have "handleZAdd (mem_env q cfg) db ([''ZADD'', key] @ flag_args n x ch @ score_args sms) w = (Error ErrWrongType, w)"
    using ok(2,3) wrong_helpers [OF assms(1)]
    by (cases n; cases x; cases ch) (simp_all add: handleZAdd_def Let_def zaddFlagLoop_args [OF ok(1,4)] zaddFastPath_def zaddFlagPath_def ms
        parsePairs_keys [OF ms] checked_write ret_def numeral_2_eq_2)
  then show ?thesis by (simp add: ZAdd zset_handler_def)
next
  case (ZAddIncr n x ch sms)
  then obtain s m d where sms: "sms = [(s, m)]" "storeScore s = Inr d" and ok: "write_fits key [m] []" "\<not> (n \<and> x)"
      "ToUpper s \<notin> set [''NX'', ''XX'', ''CH'', ''INCR'']"
    using assms(2) by (cases sms; cases "storeScore (fst (hd sms))") (auto simp: zset_args_ok_def)
  have parse: "parseZAddFlags (flag_args n x ch @ ''INCR'' # score_args sms) =
      Inr (\<lparr>zf_nx = n, zf_xx = x, zf_ch = ch, zf_incr = True\<rparr>, [s, m])"
    using zaddFlagLoop_incr [of sms n x ch] ok(2,3) sms(1) by (simp add: score_args_def)
  show ?thesis
    using wrong_helpers [OF assms(1)] ok(1) parse sms
    by (simp add: ZAddIncr zset_handler_def handleZAdd_def Let_def zaddIncr_def checked_write ret_def numeral_2_eq_2)
next
  case (ZIncrBy s m)
  then obtain d where "storeScore s = Inr d" "write_fits key [m] []"
    using assms(2) by (cases "storeScore s") (simp_all add: zset_args_ok_def)
  then show ?thesis
    using wrong_helpers [OF assms(1)]
    by (simp add: ZIncrBy zset_handler_def handleZIncrBy_def Let_def zincrTail_def checked_write numeral_2_eq_2 numeral_3_eq_3)
next
  case (ZRangeByScore desc a b ws lmt)
  then have lmt: "\<forall>i n. lmt = Some (i, n) \<longrightarrow> i64 i \<and> i64 n" using assms(2) by (simp add: zset_args_ok_def)
  obtain i n where "parseScoreTail ((if ws then [''WITHSCORES''] else []) @ limit_args lmt) = Inr (ws, i, n)"
    using parseScoreTail_args [OF lmt, of ws] by blast
  then have "zRangeByScore (mem_env q cfg) db ([c', key, a, b] @ (if ws then [''WITHSCORES''] else []) @ limit_args lmt) d w =
      (Error ErrWrongType, w)" for c' d
    using assms(2) wrong_helpers [OF assms(1)] by (cases d)
      (auto simp: ZRangeByScore zset_args_ok_def zRangeByScore_def withScoreBounds_def Let_def)
  then show ?thesis
    by (cases desc) (simp_all add: ZRangeByScore zset_handler_def handleZRangeByScore_def handleZRevRangeByScore_def)
next
  case (ZRangeByLex desc a b lmt)
  then have lmt: "\<forall>i n. lmt = Some (i, n) \<longrightarrow> i64 i \<and> i64 n" using assms(2) by (simp add: zset_args_ok_def)
  obtain i n where "parseLexLimit (limit_args lmt) = Inr (i, n)" using parseLexLimit_args [OF lmt] by blast
  then have "zRangeByLex (mem_env q cfg) db ([c', key, a, b] @ limit_args lmt) d w = (Error ErrWrongType, w)" for c' d
    using assms(2) wrong_helpers [OF assms(1)] by (cases d)
      (auto simp: ZRangeByLex zset_args_ok_def zRangeByLex_def withLexBounds_def Let_def)
  then show ?thesis
    by (cases desc) (simp_all add: ZRangeByLex zset_handler_def handleZRangeByLex_def handleZRevRangeByLex_def)
next
  case (ZRange desc i j ws)
  then have "handleZRangeByRank (mem_env q cfg) db ([c', key, fmt_int i, fmt_int j] @ (if ws then [''WITHSCORES''] else [])) d w =
      (Error ErrWrongType, w)" for c' d
    using assms(2) wrong_helpers [OF assms(1)]
    by (simp add: zset_args_ok_def handleZRangeByRank_def withInts_def Let_def ParseInt_fmt parseWithScores_args)
  then show ?thesis by (cases desc) (simp_all add: ZRange zset_handler_def handleZRange_def handleZRevRange_def)
qed (use assms(2) wrong_helpers [OF assms(1)] in \<open>auto simp: zset_args_ok_def zset_handler_def handleZScore_def handleZCard_def
      handleZCount_def handleZRank_def handleZRevRank_def handleZRankDir_def handleZRem_def handleZRemRangeByRank_def
      handleZRemRangeByScore_def handleZLexCount_def handleZRemRangeByLex_def withScoreBounds_def withLexBounds_def withInts_def
      Let_def ParseInt_fmt numeral_2_eq_2 numeral_3_eq_3\<close>)

text \<open>
  C12: a well-formed command on a live key of another type is refused with WRONGTYPE and changes nothing:
  for the String, List, Hash, Set and Sorted Set commands on one key (SET, SETNX, SETEX and MSET, which
  overwrite a key of any type, are not among them), over any conforming store.
\<close>

theorem wrong_type_refused:
  assumes "conforming_env E view" and "fair_pick pick" and "wrong_type (view (backend w)) (encodePK (e_cfg E) db key) (cmd_type c)"
    and "cmd_ok key c" and "run = cmd_handler E pick db key c w"
  shows "fst run = Error ErrWrongType \<and> view (backend (snd run)) = view (backend w)"
proof -
  let ?E = "mem_env (e_enq E) (e_cfg E)" and ?W = "wview view w"
  note sims = conforming_env.sim_string_commands [OF assms(1), unfolded abs_env_mem_env]
    conforming_env.sim_list_commands [OF assms(1), unfolded abs_env_mem_env]
    conforming_env.sim_hash_commands [OF assms(1), unfolded abs_env_mem_env]
    conforming_env.sim_set_commands [OF assms(1), unfolded abs_env_mem_env]
    conforming_env.sim_zset_commands [OF assms(1), unfolded abs_env_mem_env]
    conforming_env.sim_ZIncrBy [OF assms(1), unfolded abs_env_mem_env]
    conforming_env.sim_zset_directions [OF assms(1), unfolded abs_env_mem_env]
  obtain pick' E' where sim: "sim view (cmd_handler E pick db key c) (cmd_handler E' pick' db key c)"
    and E': "E' = ?E \<or> (\<exists>f x. c = OfHash (HIncrByFloat f x)) \<and> E' = checked_env ?E"
  proof (cases "(\<exists>n. c = OfSet (SPop n)) \<or> (\<exists>f x. c = OfHash (HIncrByFloat f x))")
    case True
    have checked: "checked_env E = checked_env ?E" by (simp add: checked_env_def abs_env_mem_env)
    note float = conforming_env.sim_HIncrByFloat [OF assms(1), unfolded abs_env_mem_env checked]
    from True show ?thesis
    proof (elim disjE exE)
      fix n assume "c = OfSet (SPop n)"
      then show ?thesis
        using conforming_env.sim_SPop [OF assms(1,2), unfolded abs_env_mem_env] that by fastforce
    next
      fix f x assume c: "c = OfHash (HIncrByFloat f x)"
      show ?thesis
        using float [of db "hash_args key (HIncrByFloat f x)"] that [of ?E pick] that [of "checked_env ?E" pick] c by auto
    qed
  next
    case False
    have "sim view (cmd_handler E pick db key c) (cmd_handler ?E pick db key c)"
    proof (cases c)
      case (OfZSet z)
      then show ?thesis by (cases z) (simp_all add: zset_handler_def sims)
    next
      case (OfString z)
      then show ?thesis by (cases z) (simp_all add: sims)
    next
      case (OfList z)
      then show ?thesis by (cases z) (simp_all add: sims)
    next
      case (OfHash z)
      then show ?thesis using False by (cases z) (simp_all add: sims)
    next
      case (OfSet z)
      then show ?thesis using False by (cases z) (simp_all add: sims)
    qed
    then show ?thesis using that by blast
  qed
  have "wrong_type (backend ?W) (encodePK (e_cfg E) db key) (cmd_type c)" using assms(3) by simp
  then have "cmd_handler E' pick' db key c ?W = (Error ErrWrongType, ?W)"
    using assms(4) E' wrong_string wrong_list wrong_hash [where E = E' and q = "e_enq E"] wrong_set wrong_zset
    by (cases c) (auto simp del: wview_simps)
  then show ?thesis using sim_fst [OF sim, of w] sim_backend [OF sim, of w] assms(5) by simp
qed

theorem wrong_type_refused_witness:
  defines "run \<equiv> cmd_handler (mem_env SyncDeleter cfg0) first_pick 0 ''l'' (OfHash (HSet [(''f'', ''v'')])) (mem_world list_tbl)"
  shows "fst run = Error ErrWrongType \<and> backend (snd run) = list_tbl"
proof -
  have "wrong_type list_tbl ''l'' TypeHash"
    by (simp add: wrong_type_def list_tbl_def live_meta_def IsExpired_def)
  moreover have "cmd_ok ''l'' (OfHash (HSet [(''f'', ''v'')]))"
    by (simp add: hash_cmd_ok_def write_fits_def nameTooLarge_def memberNameTooLarge_def valueTooLarge_def
        MaxMemberNameSize_def MaxNameSize_def MaxValueSize_def)
  ultimately show ?thesis
    using wrong_type_refused [OF conforming_mem [of SyncDeleter cfg0] fair_first_pick, where w = "mem_world list_tbl" and db = 0
        and key = "''l''" and c = "OfHash (HSet [(''f'', ''v'')])"]
    by (simp add: run_def encodePK_def)
qed

end
