(* ===== verification/Redimo.thy ===== *)
theory Redimo
  imports Store
begin

text \<open>
  The redimo-backed store (\<^verbatim>\<open>internal/storage/store_core.go\<close>, \<^verbatim>\<open>store_strings.go\<close>, \<^verbatim>\<open>store_lists.go\<close>,
  \<^verbatim>\<open>store_hashes.go\<close>, \<^verbatim>\<open>store_sets.go\<close>, \<^verbatim>\<open>store_zsets.go\<close>). The client of the third-party redimo library is a parameter:
  the record \<open>redimo\<close> of the calls the code makes, over an arbitrary state. The locale
  \<open>redimo_client\<close> states what the library documents of them; under it \<open>redimo_store\<close> keeps the
  contract of the storage seam. Values redimos writes are Binary; scores
  are Numbers, read and written as doubles.
\<close>

section \<open>The client\<close>

text \<open>A scalar DynamoDB attribute value; redimo's \<^verbatim>\<open>ReturnValue\<close> is one or empty.\<close>

datatype av = AvB bytes | AvS bytes | AvN bytes | AvBOOL bool | AvOther

text \<open>An error of the client: \<^verbatim>\<open>redimo.ErrWrongType\<close> with its text, or one of the SDK.\<close>

datatype redimo_err = RedimoErrWrongType string | RedimoErr backend_err

type_synonym ('s, 'a) cop = "'s \<Rightarrow> (redimo_err + 'a) \<times> 's"

record 's redimo =
  rc_EnsureType :: "bytes \<Rightarrow> keytype \<Rightarrow> int \<Rightarrow> ('s, int) cop"
  rc_EnsureTypeExpiring :: "bytes \<Rightarrow> keytype \<Rightarrow> int \<Rightarrow> int \<Rightarrow> ('s, int \<times> bool) cop"
  rc_CreateTypeIfAbsent :: "bytes \<Rightarrow> keytype \<Rightarrow> int \<Rightarrow> int \<Rightarrow> ('s, bool) cop"
  rc_LoadMeta :: "bytes \<Rightarrow> ('s, smeta option) cop"
  rc_SetExpire :: "bytes \<Rightarrow> int \<Rightarrow> ('s, bool) cop"
  rc_Persist :: "bytes \<Rightarrow> ('s, bool) cop"
  rc_DeleteMeta :: "bytes \<Rightarrow> ('s, bool) cop"
  rc_DeleteMetaIfEmpty :: "bytes \<Rightarrow> ('s, bool) cop"
  rc_DeleteMembers :: "bytes \<Rightarrow> int \<Rightarrow> ('s, int) cop"
  rc_GET :: "bytes \<Rightarrow> ('s, av option) cop"
  rc_BatchGET :: "bytes list \<Rightarrow> ('s, bytes \<Rightarrow> av option) cop"
  rc_SET :: "bytes \<Rightarrow> bytes \<Rightarrow> ('s, unit) cop"
  rc_GETSET :: "bytes \<Rightarrow> bytes \<Rightarrow> ('s, av option) cop"
  rc_SETCAS :: "bytes \<Rightarrow> bytes \<Rightarrow> bytes \<Rightarrow> bool \<Rightarrow> ('s, bool) cop"
  rc_LPUSH :: "bytes \<Rightarrow> bytes list \<Rightarrow> ('s, unit) cop"
  rc_RPUSH :: "bytes \<Rightarrow> bytes list \<Rightarrow> ('s, unit) cop"
  rc_LPOP :: "bytes \<Rightarrow> ('s, av option) cop"
  rc_RPOP :: "bytes \<Rightarrow> ('s, av option) cop"
  rc_LRANGE :: "bytes \<Rightarrow> int \<Rightarrow> int \<Rightarrow> ('s, av list) cop"
  rc_HSET :: "bytes \<Rightarrow> (bytes \<times> bytes) list \<Rightarrow> ('s, bytes list) cop"
  rc_HSETNX :: "bytes \<Rightarrow> bytes \<Rightarrow> bytes \<Rightarrow> ('s, bool) cop"
  rc_HGET :: "bytes \<Rightarrow> bytes \<Rightarrow> ('s, av option) cop"
  rc_HMGET :: "bytes \<Rightarrow> bytes list \<Rightarrow> ('s, bytes \<Rightarrow> av option) cop"
  rc_HGETALL :: "bytes \<Rightarrow> ('s, (bytes \<times> av) list) cop"
  rc_HDEL :: "bytes \<Rightarrow> bytes list \<Rightarrow> ('s, bytes list) cop"
  rc_HEXISTS :: "bytes \<Rightarrow> bytes \<Rightarrow> ('s, bool) cop"
  rc_HSETCAS :: "bytes \<Rightarrow> bytes \<Rightarrow> bytes \<Rightarrow> bytes \<Rightarrow> bool \<Rightarrow> ('s, bool) cop"
  rc_SADD :: "bytes \<Rightarrow> bytes list \<Rightarrow> ('s, bytes list) cop"
  rc_SREM :: "bytes \<Rightarrow> bytes list \<Rightarrow> ('s, bytes list) cop"
  rc_SISMEMBER :: "bytes \<Rightarrow> bytes \<Rightarrow> ('s, bool) cop"
  rc_SMEMBERS :: "bytes \<Rightarrow> ('s, bytes list) cop"
  rc_ZADD :: "bytes \<Rightarrow> zmember list \<Rightarrow> ('s, bytes list) cop"
  rc_ZREM :: "bytes \<Rightarrow> bytes list \<Rightarrow> ('s, bytes list) cop"
  rc_ZSCORE :: "bytes \<Rightarrow> bytes \<Rightarrow> ('s, f64 option) cop"
  rc_ZINCRBY :: "bytes \<Rightarrow> bytes \<Rightarrow> f64 \<Rightarrow> ('s, f64) cop"
  rc_ZMembersOrdered :: "bytes \<Rightarrow> bool \<Rightarrow> ('s, zmember list) cop"
  rc_ZRANK :: "bytes \<Rightarrow> bytes \<Rightarrow> ('s, int option) cop"
  rc_ZREVRANK :: "bytes \<Rightarrow> bytes \<Rightarrow> ('s, int option) cop"
  rv_String :: "av \<Rightarrow> bytes"
  rc_MaxBatchWriteItems :: int

text \<open>The store's state: the client's, and the process-wide counter of exhausted retry loops.\<close>

record 's rstate =
  table :: 's
  rmwExhausted :: nat

section \<open>Helpers of the store\<close>

definition rvBytes :: "av \<Rightarrow> bytes" where
  "rvBytes v =
     (case v of
        AvB b \<Rightarrow> b
      | AvS b \<Rightarrow> b
      | AvN b \<Rightarrow> b
      | AvBOOL b \<Rightarrow> (if b then ''1'' else ''0'')
      | AvOther \<Rightarrow> [])"

definition clampBatchSize :: "'s redimo \<Rightarrow> int \<Rightarrow> int" where
  "clampBatchSize R n =
     (if n \<le> 0 \<or> n > rc_MaxBatchWriteItems R then rc_MaxBatchWriteItems R else n)"

text \<open>An error of the client is passed on unchanged, except where it is tested for.\<close>

definition storeErr :: "redimo_err \<Rightarrow> serr" where
  "storeErr e =
     (case e of
        RedimoErrWrongType msg \<Rightarrow> Backend (OtherError msg)
      | RedimoErr b \<Rightarrow> Backend b)"

definition typeErr :: "redimo_err \<Rightarrow> serr" where
  "typeErr e = (case e of RedimoErrWrongType _ \<Rightarrow> StoreWrongType | RedimoErr b \<Rightarrow> Backend b)"

definition run_client :: "(redimo_err \<Rightarrow> serr) \<Rightarrow> ('s, 'a) cop \<Rightarrow> ('s rstate, 'a) op" where
  "run_client err f s = (map_sum err id (fst (f (table s))), s\<lparr>table := snd (f (table s))\<rparr>)"

abbreviation client :: "('s, 'a) cop \<Rightarrow> ('s rstate, 'a) op" where
  "client \<equiv> run_client storeErr"

text \<open>\<^verbatim>\<open>if err != nil { return err }\<close>, and returning.\<close>

definition thenE :: "('s, 'a) op \<Rightarrow> ('a \<Rightarrow> ('s, 'b) op) \<Rightarrow> ('s, 'b) op" where
  "thenE m k s = (case fst (m s) of Inl e \<Rightarrow> (Inl e, snd (m s)) | Inr v \<Rightarrow> k v (snd (m s)))"

definition doneE :: "'a \<Rightarrow> ('s, 'a) op" where
  "doneE v s = (Inr v, s)"

definition failE :: "serr \<Rightarrow> ('s, 'a) op" where
  "failE e s = (Inl e, s)"

text \<open>
  The compare-and-set loop: an attempt fails, lands with its result, or lost its race (\<open>None\<close>).
\<close>

primrec casLoop :: "nat \<Rightarrow> ('s rstate, 'a option) op \<Rightarrow> ('s rstate, 'a) op" where
  "casLoop 0 att s = (Inl RMWMaxRetries, s\<lparr>rmwExhausted := rmwExhausted s + 1\<rparr>)"
| "casLoop (Suc n) att s =
     thenE att (\<lambda>r. case r of Some v \<Rightarrow> doneE v | None \<Rightarrow> casLoop n att) s"

definition casRetry :: "('s rstate, 'a option) op \<Rightarrow> ('s rstate, 'a) op" where
  "casRetry att = casLoop MaxRMWRetries att"

text \<open>The parser of stored integers repeats the one of arguments.\<close>

definition parseStoredInt :: "bytes \<Rightarrow> serr + int" where
  "parseStoredInt b =
     (if b = [] then Inl NotInteger
      else if length b = 1 \<and> b ! 0 = CHR ''0'' then Inr 0
      else
        let negative = (b ! 0 = CHR ''-''); rest = (if negative then drop 1 b else b) in
        case rest of
          [] \<Rightarrow> Inl NotInteger
        | c # cs \<Rightarrow>
            if code c < 49 \<or> 57 < code c then Inl NotInteger
            else (case digit_loop (code c - 48) cs of
                None \<Rightarrow> Inl NotInteger
              | Some v \<Rightarrow>
                  (case int64_of_abs negative v of
                     None \<Rightarrow> Inl NotInteger
                   | Some n \<Rightarrow> Inr n)))"

text \<open>
  The random choices: \<open>shuffle\<close> is \<^verbatim>\<open>rand.Shuffle\<close> of a copy of the members, \<open>intn\<close> the draws of
  \<^verbatim>\<open>rand.Intn\<close>.
\<close>

definition randomDistinct :: "(bytes list \<Rightarrow> bytes list) \<Rightarrow> int \<Rightarrow> bytes list \<Rightarrow> bytes list" where
  "randomDistinct shuffle cnt members =
     (let c = (if cnt \<ge> int (length members) then int (length members) else cnt) in
      if c \<le> 0 then [] else take (nat c) (shuffle members))"

definition randomRepeats :: "(nat \<Rightarrow> nat \<Rightarrow> nat) \<Rightarrow> int \<Rightarrow> bytes list \<Rightarrow> bytes list" where
  "randomRepeats intn cnt members =
     (let mag0 = (if cnt = min_i64 then int maxSRandRepeats else - cnt);
          mag = (if mag0 > int maxSRandRepeats then int maxSRandRepeats else mag0)
      in map (\<lambda>i. members ! intn i (length members)) [0..<nat mag])"

definition randomPick :: "(bytes list \<Rightarrow> bytes list) \<Rightarrow> (nat \<Rightarrow> nat \<Rightarrow> nat) \<Rightarrow> pick" where
  "randomPick shuffle intn cnt members =
     (if members = [] then []
      else if cnt < 0 then randomRepeats intn cnt members
      else randomDistinct shuffle cnt members)"

section \<open>The operations of the store\<close>

definition rs_GetString :: "'s redimo \<Rightarrow> bytes \<Rightarrow> ('s rstate, bytes option) op" where
  "rs_GetString R pk = thenE (client (rc_GET R pk)) (\<lambda>rv. doneE (map_option rvBytes rv))"

definition rs_MGetStrings :: "'s redimo \<Rightarrow> bytes list \<Rightarrow> ('s rstate, bytes \<Rightarrow> bytes option) op" where
  "rs_MGetStrings R pks =
     thenE (client (rc_BatchGET R pks)) (\<lambda>rvs. doneE (\<lambda>pk. map_option rvBytes (rvs pk)))"

definition rs_GetSetString :: "'s redimo \<Rightarrow> bytes \<Rightarrow> bytes \<Rightarrow> ('s rstate, bytes option) op" where
  "rs_GetSetString R pk val = thenE (client (rc_GETSET R pk val)) (\<lambda>rv. doneE (map_option rvBytes rv))"

text \<open>The bytes of an optional value: nil when absent.\<close>

definition or_nil :: "bytes option \<Rightarrow> bytes" where
  "or_nil v = (case v of None \<Rightarrow> [] | Some b \<Rightarrow> b)"

definition rs_SetStringIfEquals :: "'s redimo \<Rightarrow> bytes \<Rightarrow> bytes \<Rightarrow> bytes option \<Rightarrow> ('s rstate, bool) op" where
  "rs_SetStringIfEquals R pk newVal old = client (rc_SETCAS R pk newVal (or_nil old) (old \<noteq> None))"

definition incrAttempt :: "'s redimo \<Rightarrow> bytes \<Rightarrow> int \<Rightarrow> ('s rstate, int option) op" where
  "incrAttempt R pk delta =
     thenE (client (rc_GET R pk)) (\<lambda>rv.
       case (case rv of None \<Rightarrow> Inr 0 | Some v \<Rightarrow> parseStoredInt (rvBytes v)) of
         Inl e \<Rightarrow> failE e
       | Inr cur \<Rightarrow>
           if incr_overflows cur delta then failE IncrOverflow
           else
             thenE (client (rc_SETCAS R pk (fmt_int (cur + delta)) (or_nil (map_option rvBytes rv)) (rv \<noteq> None)))
               (\<lambda>ok. doneE (if ok then Some (cur + delta) else None)))"

definition rs_IncrBy :: "'s redimo \<Rightarrow> bytes \<Rightarrow> int \<Rightarrow> ('s rstate, int) op" where
  "rs_IncrBy R pk delta = casRetry (incrAttempt R pk delta)"

definition incrFloatAttempt :: "'s redimo \<Rightarrow> bytes \<Rightarrow> f64 \<Rightarrow> ('s rstate, bytes option) op" where
  "incrFloatAttempt R pk delta =
     thenE (client (rc_GET R pk)) (\<lambda>rv.
       case (case rv of None \<Rightarrow> Some (FZero False) | Some v \<Rightarrow> parseStoredFloat (rvBytes v)) of
         None \<Rightarrow> failE NotFloat
       | Some cur \<Rightarrow>
           let next = fadd cur delta in
           if next = FNaN \<or> is_inf next then failE IncrNaNOrInfinity
           else
             thenE (client (rc_SETCAS R pk (formatRedisFloat next) (or_nil (map_option rvBytes rv)) (rv \<noteq> None)))
               (\<lambda>ok. doneE (if ok then Some (formatRedisFloat next) else None)))"

definition rs_IncrByFloat :: "'s redimo \<Rightarrow> bytes \<Rightarrow> f64 \<Rightarrow> ('s rstate, bytes) op" where
  "rs_IncrByFloat R pk delta = casRetry (incrFloatAttempt R pk delta)"

definition rs_LPush :: "'s redimo \<Rightarrow> bytes \<Rightarrow> bytes list \<Rightarrow> ('s rstate, int) op" where
  "rs_LPush R pk es =
     (if es = [] then doneE 0 else thenE (client (rc_LPUSH R pk es)) (\<lambda>_. doneE (int (length es))))"

definition rs_RPush :: "'s redimo \<Rightarrow> bytes \<Rightarrow> bytes list \<Rightarrow> ('s rstate, int) op" where
  "rs_RPush R pk es =
     (if es = [] then doneE 0 else thenE (client (rc_RPUSH R pk es)) (\<lambda>_. doneE (int (length es))))"

definition rs_LPop :: "'s redimo \<Rightarrow> bytes \<Rightarrow> ('s rstate, bytes option) op" where
  "rs_LPop R pk = thenE (client (rc_LPOP R pk)) (\<lambda>rv. doneE (map_option (rv_String R) rv))"

definition rs_RPop :: "'s redimo \<Rightarrow> bytes \<Rightarrow> ('s rstate, bytes option) op" where
  "rs_RPop R pk = thenE (client (rc_RPOP R pk)) (\<lambda>rv. doneE (map_option (rv_String R) rv))"

definition lAll :: "'s redimo \<Rightarrow> bytes \<Rightarrow> ('s rstate, bytes list) op" where
  "lAll R pk = thenE (client (rc_LRANGE R pk 0 (-1))) (\<lambda>rvs. doneE (map (rv_String R) rvs))"

definition rs_LRange :: "'s redimo \<Rightarrow> bytes \<Rightarrow> int \<Rightarrow> int \<Rightarrow> ('s rstate, bytes list) op" where
  "rs_LRange R pk start stop =
     thenE (client (rc_LRANGE R pk start stop)) (\<lambda>rvs. doneE (map (rv_String R) rvs))"

definition rs_LIndex :: "'s redimo \<Rightarrow> bytes \<Rightarrow> int \<Rightarrow> ('s rstate, bytes option) op" where
  "rs_LIndex R pk index =
     thenE (lAll R pk) (\<lambda>xs.
       let n = int (length xs); i = (if index < 0 then index + n else index) in
       if i < 0 \<or> i \<ge> n then doneE None else doneE (Some (xs ! nat i)))"

definition rs_DeleteMembers :: "'s redimo \<Rightarrow> int \<Rightarrow> bytes \<Rightarrow> ('s rstate, int) op" where
  "rs_DeleteMembers R batch pk = client (rc_DeleteMembers R pk batch)"

definition rs_LReplaceAll :: "'s redimo \<Rightarrow> int \<Rightarrow> bytes \<Rightarrow> bytes list \<Rightarrow> ('s rstate, int) op" where
  "rs_LReplaceAll R batch pk es =
     thenE (rs_DeleteMembers R batch pk) (\<lambda>_. if es = [] then doneE 0 else rs_RPush R pk es)"

text \<open>The Go map built from the fields: the last value of a field wins.\<close>

definition field_map :: "(bytes \<times> bytes) list \<Rightarrow> (bytes \<times> bytes) list" where
  "field_map fs = fold (\<lambda>(f, v). AList.update f v) fs []"

definition rs_HSet :: "'s redimo \<Rightarrow> bytes \<Rightarrow> (bytes \<times> bytes) list \<Rightarrow> ('s rstate, int) op" where
  "rs_HSet R pk fs =
     (if fs = [] then doneE 0
      else thenE (client (rc_HSET R pk (field_map fs))) (\<lambda>newly. doneE (int (length newly))))"

definition rs_HGet :: "'s redimo \<Rightarrow> bytes \<Rightarrow> bytes \<Rightarrow> ('s rstate, bytes option) op" where
  "rs_HGet R pk f = thenE (client (rc_HGET R pk f)) (\<lambda>rv. doneE (map_option rvBytes rv))"

definition rs_HMGet :: "'s redimo \<Rightarrow> bytes \<Rightarrow> bytes list \<Rightarrow> ('s rstate, bytes \<Rightarrow> bytes option) op" where
  "rs_HMGet R pk fs =
     (if fs = [] then doneE (\<lambda>_. None)
      else thenE (client (rc_HMGET R pk fs)) (\<lambda>rvs. doneE (\<lambda>f. map_option rvBytes (rvs f))))"

definition rs_HGetAll :: "'s redimo \<Rightarrow> bytes \<Rightarrow> ('s rstate, (bytes \<times> bytes) list) op" where
  "rs_HGetAll R pk =
     thenE (client (rc_HGETALL R pk)) (\<lambda>fs. doneE (map (\<lambda>(f, rv). (f, rvBytes rv)) fs))"

definition rs_HKeys :: "'s redimo \<Rightarrow> bytes \<Rightarrow> ('s rstate, bytes list) op" where
  "rs_HKeys R pk = thenE (rs_HGetAll R pk) (\<lambda>fs. doneE (map fst fs))"

definition rs_HVals :: "'s redimo \<Rightarrow> bytes \<Rightarrow> ('s rstate, bytes list) op" where
  "rs_HVals R pk = thenE (rs_HGetAll R pk) (\<lambda>fs. doneE (map snd fs))"

definition rs_HDel :: "'s redimo \<Rightarrow> bytes \<Rightarrow> bytes list \<Rightarrow> ('s rstate, int) op" where
  "rs_HDel R pk fs =
     (if fs = [] then doneE 0
      else thenE (client (rc_HDEL R pk fs)) (\<lambda>deleted. doneE (int (length deleted))))"

definition rs_HStrlen :: "'s redimo \<Rightarrow> bytes \<Rightarrow> bytes \<Rightarrow> ('s rstate, int) op" where
  "rs_HStrlen R pk f =
     thenE (client (rc_HGET R pk f)) (\<lambda>rv.
       doneE (case rv of None \<Rightarrow> 0 | Some v \<Rightarrow> int (length (rvBytes v))))"

definition hincrAttempt :: "'s redimo \<Rightarrow> bytes \<Rightarrow> bytes \<Rightarrow> int \<Rightarrow> ('s rstate, (int \<times> bool) option) op" where
  "hincrAttempt R pk f delta =
     thenE (client (rc_HGET R pk f)) (\<lambda>rv.
       case (case rv of None \<Rightarrow> Inr 0 | Some v \<Rightarrow> parseStoredInt (rvBytes v)) of
         Inl _ \<Rightarrow> failE HashNotInteger
       | Inr cur \<Rightarrow>
           if incr_overflows cur delta then failE IncrOverflow
           else
             thenE (client (rc_HSETCAS R pk f (fmt_int (cur + delta)) (or_nil (map_option rvBytes rv)) (rv \<noteq> None)))
               (\<lambda>ok. doneE (if ok then Some (cur + delta, rv = None) else None)))"

definition rs_HIncrBy :: "'s redimo \<Rightarrow> bytes \<Rightarrow> bytes \<Rightarrow> int \<Rightarrow> ('s rstate, int \<times> bool) op" where
  "rs_HIncrBy R pk f delta = casRetry (hincrAttempt R pk f delta)"

definition hincrFloatAttempt :: "'s redimo \<Rightarrow> bytes \<Rightarrow> bytes \<Rightarrow> f64 \<Rightarrow> ('s rstate, (bytes \<times> bool) option) op" where
  "hincrFloatAttempt R pk f delta =
     thenE (client (rc_HGET R pk f)) (\<lambda>rv.
       case (case rv of None \<Rightarrow> Some (FZero False) | Some v \<Rightarrow> parseStoredFloat (rvBytes v)) of
         None \<Rightarrow> failE HashNotFloat
       | Some cur \<Rightarrow>
           let out = formatRedisFloat (fadd cur delta) in
           thenE (client (rc_HSETCAS R pk f out (or_nil (map_option rvBytes rv)) (rv \<noteq> None)))
             (\<lambda>ok. doneE (if ok then Some (out, rv = None) else None)))"

definition rs_HIncrByFloat :: "'s redimo \<Rightarrow> bytes \<Rightarrow> bytes \<Rightarrow> f64 \<Rightarrow> ('s rstate, bytes \<times> bool) op" where
  "rs_HIncrByFloat R pk f delta = casRetry (hincrFloatAttempt R pk f delta)"

definition rs_SAdd :: "'s redimo \<Rightarrow> bytes \<Rightarrow> bytes list \<Rightarrow> ('s rstate, int) op" where
  "rs_SAdd R pk ms =
     (if ms = [] then doneE 0 else thenE (client (rc_SADD R pk ms)) (\<lambda>added. doneE (int (length added))))"

definition rs_SRem :: "'s redimo \<Rightarrow> bytes \<Rightarrow> bytes list \<Rightarrow> ('s rstate, int) op" where
  "rs_SRem R pk ms =
     (if ms = [] then doneE 0 else thenE (client (rc_SREM R pk ms)) (\<lambda>removed. doneE (int (length removed))))"

definition rs_SPop :: "'s redimo \<Rightarrow> pick \<Rightarrow> bytes \<Rightarrow> int \<Rightarrow> ('s rstate, bytes list) op" where
  "rs_SPop R pick pk cnt =
     (if cnt \<le> 0 then doneE []
      else
        thenE (client (rc_SMEMBERS R pk)) (\<lambda>members.
          if members = [] then doneE []
          else
            let chosen = pick cnt members in
            if chosen = [] then doneE [] else client (rc_SREM R pk chosen)))"

definition rs_SRandMember :: "'s redimo \<Rightarrow> pick \<Rightarrow> bytes \<Rightarrow> int \<Rightarrow> ('s rstate, bytes list) op" where
  "rs_SRandMember R pick pk cnt =
     thenE (client (rc_SMEMBERS R pk)) (\<lambda>members. doneE (if members = [] then [] else pick cnt members))"

section \<open>Sorted sets\<close>

definition rs_ZAdd :: "'s redimo \<Rightarrow> bytes \<Rightarrow> zmember list \<Rightarrow> ('s rstate, int) op" where
  "rs_ZAdd R pk members =
     (if members = [] then doneE 0
      else thenE (client (rc_ZADD R pk (score_map members))) (\<lambda>added. doneE (int (length added))))"

definition rs_ZRem :: "'s redimo \<Rightarrow> bytes \<Rightarrow> bytes list \<Rightarrow> ('s rstate, int) op" where
  "rs_ZRem R pk members =
     (if members = [] then doneE 0
      else thenE (client (rc_ZREM R pk members)) (\<lambda>removed. doneE (int (length removed))))"

definition rs_ZIncrBy :: "'s redimo \<Rightarrow> bytes \<Rightarrow> bytes \<Rightarrow> f64 \<Rightarrow> ('s rstate, f64 \<times> bool) op" where
  "rs_ZIncrBy R pk member delta =
     thenE (client (rc_ZSCORE R pk member)) (\<lambda>old.
       if scoreOutOfDomain (case old of None \<Rightarrow> delta | Some x \<Rightarrow> fadd x delta) then failE ScoreOutOfRange
       else thenE (client (rc_ZINCRBY R pk member delta)) (\<lambda>newScore. doneE (newScore, old = None)))"

definition zAscending :: "'s redimo \<Rightarrow> bytes \<Rightarrow> ('s rstate, zmember list) op" where
  "zAscending R pk = thenE (client (rc_ZMembersOrdered R pk True)) (\<lambda>ms. doneE (SortZMembers ms))"

definition rs_ZRangeByRank :: "'s redimo \<Rightarrow> bytes \<Rightarrow> int \<Rightarrow> int \<Rightarrow> bool \<Rightarrow> ('s rstate, zmember list) op" where
  "rs_ZRangeByRank R pk start stop desc =
     thenE (zAscending R pk) (\<lambda>asc. doneE (rank_range (if desc then ZReverse asc else asc) start stop))"

definition rs_ZRangeByScore ::
    "'s redimo \<Rightarrow> bytes \<Rightarrow> ScoreBound \<Rightarrow> ScoreBound \<Rightarrow> bool \<Rightarrow> ('s rstate, zmember list) op" where
  "rs_ZRangeByScore R pk mn mx desc =
     thenE (zAscending R pk) (\<lambda>asc.
       let filtered = filter (\<lambda>m. ZScoreInRange (snd m) mn mx) asc in
       doneE (if desc then ZReverse filtered else filtered))"

definition rs_ZCount :: "'s redimo \<Rightarrow> bytes \<Rightarrow> ScoreBound \<Rightarrow> ScoreBound \<Rightarrow> ('s rstate, int) op" where
  "rs_ZCount R pk mn mx =
     thenE (zAscending R pk) (\<lambda>asc. doneE (int (length (filter (\<lambda>m. ZScoreInRange (snd m) mn mx) asc))))"

definition rs_ZRank :: "'s redimo \<Rightarrow> bytes \<Rightarrow> bytes \<Rightarrow> bool \<Rightarrow> ('s rstate, int option) op" where
  "rs_ZRank R pk member desc = client (if desc then rc_ZREVRANK R pk member else rc_ZRANK R pk member)"

definition zRemMembers :: "'s redimo \<Rightarrow> bytes \<Rightarrow> zmember list \<Rightarrow> ('s rstate, int) op" where
  "zRemMembers R pk victims =
     (if victims = [] then doneE 0
      else thenE (client (rc_ZREM R pk (map fst victims))) (\<lambda>removed. doneE (int (length removed))))"

definition rs_ZRemRangeByRank :: "'s redimo \<Rightarrow> bytes \<Rightarrow> int \<Rightarrow> int \<Rightarrow> ('s rstate, int) op" where
  "rs_ZRemRangeByRank R pk start stop =
     thenE (rs_ZRangeByRank R pk start stop False) (\<lambda>victims. zRemMembers R pk victims)"

definition rs_ZRemRangeByScore :: "'s redimo \<Rightarrow> bytes \<Rightarrow> ScoreBound \<Rightarrow> ScoreBound \<Rightarrow> ('s rstate, int) op" where
  "rs_ZRemRangeByScore R pk mn mx =
     thenE (rs_ZRangeByScore R pk mn mx False) (\<lambda>victims. zRemMembers R pk victims)"

section \<open>The store\<close>

definition redimo_store :: "'s redimo \<Rightarrow> int \<Rightarrow> 's rstate store" where
  "redimo_store R batch =
     \<lparr>st_EnsureType = (\<lambda>pk ty d. run_client typeErr (rc_EnsureType R pk ty d)),
      st_EnsureTypeExpiring = (\<lambda>pk ty d n. run_client typeErr (rc_EnsureTypeExpiring R pk ty d n)),
      st_CreateTypeIfAbsent = (\<lambda>pk ty d n. client (rc_CreateTypeIfAbsent R pk ty d n)),
      st_LoadMeta = (\<lambda>pk. client (rc_LoadMeta R pk)),
      st_SetExpire = (\<lambda>pk e. client (rc_SetExpire R pk e)),
      st_Persist = (\<lambda>pk. client (rc_Persist R pk)),
      st_DeleteMeta = (\<lambda>pk. client (rc_DeleteMeta R pk)),
      st_DeleteMetaIfEmpty = (\<lambda>pk. client (rc_DeleteMetaIfEmpty R pk)),
      st_DeleteMembers = rs_DeleteMembers R (clampBatchSize R batch),
      st_GetString = rs_GetString R, st_MGetStrings = rs_MGetStrings R,
      st_SetString = (\<lambda>pk v. client (rc_SET R pk v)),
      st_GetSetString = rs_GetSetString R, st_SetStringIfEquals = rs_SetStringIfEquals R,
      st_IncrBy = rs_IncrBy R, st_LPush = rs_LPush R, st_RPush = rs_RPush R, st_LPop = rs_LPop R,
      st_RPop = rs_RPop R, st_LRange = rs_LRange R, st_LIndex = rs_LIndex R, st_LRangeAll = lAll R,
      st_LReplaceAll = rs_LReplaceAll R (clampBatchSize R batch), st_HSet = rs_HSet R,
      st_HSetNX = (\<lambda>pk f v. client (rc_HSETNX R pk f v)), st_HGet = rs_HGet R, st_HMGet = rs_HMGet R,
      st_HGetAll = rs_HGetAll R, st_HKeys = rs_HKeys R, st_HVals = rs_HVals R, st_HDel = rs_HDel R,
      st_HExists = (\<lambda>pk f. client (rc_HEXISTS R pk f)), st_HStrlen = rs_HStrlen R,
      st_HIncrBy = rs_HIncrBy R, st_SAdd = rs_SAdd R, st_SRem = rs_SRem R,
      st_SIsMember = (\<lambda>pk m. client (rc_SISMEMBER R pk m)),
      st_SMembers = (\<lambda>pk. client (rc_SMEMBERS R pk)), st_SPop = rs_SPop R,
      st_SRandMember = rs_SRandMember R, st_IncrByFloat = rs_IncrByFloat R,
      st_HIncrByFloat = rs_HIncrByFloat R, st_ZAdd = rs_ZAdd R, st_ZRem = rs_ZRem R,
      st_ZScore = (\<lambda>pk m. client (rc_ZSCORE R pk m)), st_ZIncrBy = rs_ZIncrBy R,
      st_ZRangeByRank = rs_ZRangeByRank R, st_ZRangeByScore = rs_ZRangeByScore R, st_ZCount = rs_ZCount R,
      st_ZRank = rs_ZRank R, st_ZRemRangeByRank = rs_ZRemRangeByRank R,
      st_ZRemRangeByScore = rs_ZRemRangeByScore R\<rparr>"

end
