(* ===== verification/RedimoSpec.thy ===== *)
theory RedimoSpec
  imports Redimo "HOL-Library.Multiset"
begin

text \<open>
  The redimo-backed store keeps the contract of the storage seam but for LRANGE with a negative index
  (\<open>store_core\<close>), and the whole contract if the client's LRANGE does. \<open>ref_client\<close> is what the redimo
  library documents of its calls, executable on the abstract table (values are Binary, the
  conditional writes land iff the stored value is the expected one); the locale \<open>redimo_client\<close> is
  any client that behaves like it.
\<close>

section \<open>The documented behaviour of the client\<close>

text \<open>A call that only can fail with a type conflict.\<close>

definition typed :: "(tbl, 'a) op \<Rightarrow> (tbl, 'a) cop" where
  "typed f t = (map_sum (\<lambda>_. RedimoErrWrongType ''wrong type'') id (fst (f t)), snd (f t))"

definition ok_call :: "(tbl \<Rightarrow> 'a \<times> tbl) \<Rightarrow> (tbl, 'a) cop" where
  "ok_call f t = (Inr (fst (f t)), snd (f t))"

definition rf_SETCAS :: "bytes \<Rightarrow> bytes \<Rightarrow> bytes \<Rightarrow> bool \<Rightarrow> (tbl, bool) cop" where
  "rf_SETCAS pk new old oldExists = ok_call (\<lambda>t.
     if t_str t pk = (if oldExists then Some old else None) then (True, set_str pk (Some new) t) else (False, t))"

definition rf_HSETCAS :: "bytes \<Rightarrow> bytes \<Rightarrow> bytes \<Rightarrow> bytes \<Rightarrow> bool \<Rightarrow> (tbl, bool) cop" where
  "rf_HSETCAS pk f new old oldExists = ok_call (\<lambda>t.
     if map_of (t_hash t pk) f = (if oldExists then Some old else None)
     then (True, set_hash pk (AList.update f new (t_hash t pk)) t) else (False, t))"

definition rf_HSET :: "bytes \<Rightarrow> (bytes \<times> bytes) list \<Rightarrow> (tbl, bytes list) cop" where
  "rf_HSET pk fs = ok_call (\<lambda>t.
     (filter (\<lambda>f. map_of (t_hash t pk) f = None) (map fst fs), set_hash pk (hset_all fs (t_hash t pk)) t))"

definition rf_HDEL :: "bytes \<Rightarrow> bytes list \<Rightarrow> (tbl, bytes list) cop" where
  "rf_HDEL pk fs = ok_call (\<lambda>t.
     (map fst (filter (\<lambda>(f, _). f \<in> set fs) (t_hash t pk)), set_hash pk (hdel_all fs (t_hash t pk)) t))"

definition rf_SADD :: "bytes \<Rightarrow> bytes list \<Rightarrow> (tbl, bytes list) cop" where
  "rf_SADD pk ms = ok_call (\<lambda>t.
     (filter (\<lambda>m. m \<notin> set (t_set t pk)) (remdups ms), set_set pk (sadd_all ms (t_set t pk)) t))"

text \<open>SREM reports the members it removed, in an order \<open>ord\<close> the library does not promise.\<close>

definition rf_SREM :: "(bytes list \<Rightarrow> bytes list) \<Rightarrow> bytes \<Rightarrow> bytes list \<Rightarrow> (tbl, bytes list) cop" where
  "rf_SREM ord pk ms = ok_call (\<lambda>t.
     (ord (filter (\<lambda>m. m \<in> set ms) (t_set t pk)),
      set_set pk (filter (\<lambda>m. m \<notin> set ms) (t_set t pk)) t))"

text \<open>
  ZADD reports the members it added; ZINCRBY adds natively. The ordered read lists the members by score,
  \<open>zord\<close>, in an order among equal scores the library does not promise.
\<close>

definition rf_ZADD :: "bytes \<Rightarrow> zmember list \<Rightarrow> (tbl, bytes list) cop" where
  "rf_ZADD pk ms = ok_call (\<lambda>t.
     (filter (\<lambda>m. zscore (t_zset t pk) m = None) (map fst ms), set_zset pk (zput_all ms (t_zset t pk)) t))"

definition rf_ZREM :: "(bytes list \<Rightarrow> bytes list) \<Rightarrow> bytes \<Rightarrow> bytes list \<Rightarrow> (tbl, bytes list) cop" where
  "rf_ZREM ord pk ms = ok_call (\<lambda>t.
     (ord (filter (\<lambda>m. m \<in> set ms) (map fst (zlist (t_zset t pk)))), set_zset pk (zdrop ms (t_zset t pk)) t))"

definition rf_ZINCRBY :: "bytes \<Rightarrow> bytes \<Rightarrow> f64 \<Rightarrow> (tbl, f64) cop" where
  "rf_ZINCRBY pk m delta t =
     (case native_incr t pk m delta of
        None \<Rightarrow> (Inl (RedimoErr (APIError ''ValidationException'')), t)
      | Some new \<Rightarrow> (Inr new, set_zset pk (zput m new (t_zset t pk)) t))"

definition ref_client :: "(bytes list \<Rightarrow> bytes list) \<Rightarrow> (zitems \<Rightarrow> zmember list) \<Rightarrow> tbl redimo" where
  "ref_client ord zord =
     \<lparr>rc_EnsureType = (\<lambda>pk ty d. typed (sp_EnsureType pk ty d)),
      rc_EnsureTypeExpiring = (\<lambda>pk ty d n. typed (sp_EnsureTypeExpiring pk ty d n)),
      rc_CreateTypeIfAbsent = (\<lambda>pk ty d n. typed (sp_CreateTypeIfAbsent pk ty d n)),
      rc_LoadMeta = (\<lambda>pk. ok_call (\<lambda>t. (t_meta t pk, t))),
      rc_SetExpire = (\<lambda>pk e. typed (sp_SetExpire pk e)), rc_Persist = (\<lambda>pk. typed (sp_Persist pk)),
      rc_DeleteMeta = (\<lambda>pk. typed (sp_DeleteMeta pk)),
      rc_DeleteMetaIfEmpty = (\<lambda>pk. typed (sp_DeleteMetaIfEmpty pk)),
      rc_DeleteMembers = (\<lambda>pk batch. typed (sp_DeleteMembers pk)),
      rc_GET = (\<lambda>pk. ok_call (\<lambda>t. (map_option AvB (t_str t pk), t))),
      rc_BatchGET = (\<lambda>pks. ok_call (\<lambda>t. (\<lambda>pk. if pk \<in> set pks then map_option AvB (t_str t pk) else None, t))),
      rc_SET = (\<lambda>pk v. ok_call (\<lambda>t. ((), set_str pk (Some v) t))),
      rc_GETSET = (\<lambda>pk v. ok_call (\<lambda>t. (map_option AvB (t_str t pk), set_str pk (Some v) t))),
      rc_SETCAS = rf_SETCAS,
      rc_LPUSH = (\<lambda>pk es. ok_call (\<lambda>t. ((), set_list pk (rev es @ t_list t pk) t))),
      rc_RPUSH = (\<lambda>pk es. ok_call (\<lambda>t. ((), set_list pk (t_list t pk @ es) t))),
      rc_LPOP = (\<lambda>pk. ok_call (\<lambda>t.
        case t_list t pk of [] \<Rightarrow> (None, t) | x # xs \<Rightarrow> (Some (AvB x), set_list pk xs t))),
      rc_RPOP = (\<lambda>pk. ok_call (\<lambda>t.
        if t_list t pk = [] then (None, t)
        else (Some (AvB (last (t_list t pk))), set_list pk (butlast (t_list t pk)) t))),
      rc_LRANGE = (\<lambda>pk i j. ok_call (\<lambda>t. (map AvB (rank_slice (t_list t pk) i j), t))),
      rc_HSET = rf_HSET,
      rc_HSETNX = (\<lambda>pk f v. typed (sp_HSetNX pk f v)),
      rc_HGET = (\<lambda>pk f. ok_call (\<lambda>t. (map_option AvB (map_of (t_hash t pk) f), t))),
      rc_HMGET = (\<lambda>pk fs. ok_call (\<lambda>t.
        (\<lambda>f. if f \<in> set fs then map_option AvB (map_of (t_hash t pk) f) else None, t))),
      rc_HGETALL = (\<lambda>pk. ok_call (\<lambda>t. (map (\<lambda>(f, v). (f, AvB v)) (t_hash t pk), t))),
      rc_HDEL = rf_HDEL,
      rc_HEXISTS = (\<lambda>pk f. ok_call (\<lambda>t. (map_of (t_hash t pk) f \<noteq> None, t))),
      rc_HSETCAS = rf_HSETCAS, rc_SADD = rf_SADD, rc_SREM = rf_SREM ord,
      rc_SISMEMBER = (\<lambda>pk m. ok_call (\<lambda>t. (m \<in> set (t_set t pk), t))),
      rc_SMEMBERS = (\<lambda>pk. ok_call (\<lambda>t. (t_set t pk, t))),
      rc_ZADD = rf_ZADD, rc_ZREM = rf_ZREM ord,
      rc_ZSCORE = (\<lambda>pk m. ok_call (\<lambda>t. (zscore (t_zset t pk) m, t))), rc_ZINCRBY = rf_ZINCRBY,
      rc_ZMembersOrdered = (\<lambda>pk asc. ok_call (\<lambda>t.
        (if asc then zord (t_zset t pk) else rev (zord (t_zset t pk)), t))),
      rc_ZRANK = (\<lambda>pk m. ok_call (\<lambda>t. (zrank (zlist (t_zset t pk)) m, t))),
      rc_ZREVRANK = (\<lambda>pk m. ok_call (\<lambda>t. (zrank (rev (zlist (t_zset t pk))) m, t))), rv_String = rvBytes,
      rc_MaxBatchWriteItems = 25\<rparr>"

text \<open>
  The calls of a client succeed (only ZINCRBY may be refused) and do, through a view of its state, what
  is documented of them. Of LRANGE only windows from the head of the list are asked for and the whole
  list: the comment at the head of \<^verbatim>\<open>store_lists.go\<close> says that negative indices count the meta item, that of
  \<^verbatim>\<open>LRange\<close> that they match Redis.
\<close>

locale redimo_client =
  fixes R :: "'s redimo" and view :: "'s \<Rightarrow> tbl" and now :: "'s \<Rightarrow> int" and ord :: "bytes list \<Rightarrow> bytes list"
    and zord :: "zitems \<Rightarrow> zmember list"
  assumes now: "now s = t_time (view s)"
    and ord: "mset (ord xs) = mset xs"
    and zord: "mset (zord z) = mset (zlist z)"
    and String: "rv_String R (AvB b) = b"
    and EnsureType: "implements view (rc_EnsureType R pk ty d) (rc_EnsureType (ref_client ord zord) pk ty d)"
    and EnsureTypeExpiring: "implements view (rc_EnsureTypeExpiring R pk ty d n) (rc_EnsureTypeExpiring (ref_client ord zord) pk ty d n)"
    and CreateTypeIfAbsent: "implements view (rc_CreateTypeIfAbsent R pk ty d n) (rc_CreateTypeIfAbsent (ref_client ord zord) pk ty d n)"
    and LoadMeta: "implements view (rc_LoadMeta R pk) (rc_LoadMeta (ref_client ord zord) pk)"
    and SetExpire: "implements view (rc_SetExpire R pk n) (rc_SetExpire (ref_client ord zord) pk n)"
    and Persist: "implements view (rc_Persist R pk) (rc_Persist (ref_client ord zord) pk)"
    and DeleteMeta: "implements view (rc_DeleteMeta R pk) (rc_DeleteMeta (ref_client ord zord) pk)"
    and DeleteMetaIfEmpty: "implements view (rc_DeleteMetaIfEmpty R pk) (rc_DeleteMetaIfEmpty (ref_client ord zord) pk)"
    and DeleteMembers: "implements view (rc_DeleteMembers R pk n) (rc_DeleteMembers (ref_client ord zord) pk n)"
    and GET: "implements view (rc_GET R pk) (rc_GET (ref_client ord zord) pk)"
    and BatchGET: "implements view (rc_BatchGET R pks) (rc_BatchGET (ref_client ord zord) pks)"
    and SET: "implements view (rc_SET R pk v) (rc_SET (ref_client ord zord) pk v)"
    and GETSET: "implements view (rc_GETSET R pk v) (rc_GETSET (ref_client ord zord) pk v)"
    and SETCAS: "implements view (rc_SETCAS R pk v u ex) (rc_SETCAS (ref_client ord zord) pk v u ex)"
    and LPUSH: "implements view (rc_LPUSH R pk xs) (rc_LPUSH (ref_client ord zord) pk xs)"
    and RPUSH: "implements view (rc_RPUSH R pk xs) (rc_RPUSH (ref_client ord zord) pk xs)"
    and LPOP: "implements view (rc_LPOP R pk) (rc_LPOP (ref_client ord zord) pk)"
    and RPOP: "implements view (rc_RPOP R pk) (rc_RPOP (ref_client ord zord) pk)"
    and LRANGE: "0 \<le> n \<and> (0 \<le> d \<or> n = 0 \<and> d = -1) \<Longrightarrow>
      implements view (rc_LRANGE R pk n d) (rc_LRANGE (ref_client ord zord) pk n d)"
    and HSET: "implements view (rc_HSET R pk fs) (rc_HSET (ref_client ord zord) pk fs)"
    and HSETNX: "implements view (rc_HSETNX R pk f v) (rc_HSETNX (ref_client ord zord) pk f v)"
    and HGET: "implements view (rc_HGET R pk f) (rc_HGET (ref_client ord zord) pk f)"
    and HMGET: "implements view (rc_HMGET R pk xs) (rc_HMGET (ref_client ord zord) pk xs)"
    and HGETALL: "implements view (rc_HGETALL R pk) (rc_HGETALL (ref_client ord zord) pk)"
    and HDEL: "implements view (rc_HDEL R pk xs) (rc_HDEL (ref_client ord zord) pk xs)"
    and HEXISTS: "implements view (rc_HEXISTS R pk f) (rc_HEXISTS (ref_client ord zord) pk f)"
    and HSETCAS: "implements view (rc_HSETCAS R pk f v u ex) (rc_HSETCAS (ref_client ord zord) pk f v u ex)"
    and SADD: "implements view (rc_SADD R pk xs) (rc_SADD (ref_client ord zord) pk xs)"
    and SREM: "implements view (rc_SREM R pk xs) (rc_SREM (ref_client ord zord) pk xs)"
    and SISMEMBER: "implements view (rc_SISMEMBER R pk x) (rc_SISMEMBER (ref_client ord zord) pk x)"
    and SMEMBERS: "implements view (rc_SMEMBERS R pk) (rc_SMEMBERS (ref_client ord zord) pk)"
    and ZADD: "\<forall>p \<in> set zs. storable (snd p) \<Longrightarrow> implements view (rc_ZADD R pk zs) (rc_ZADD (ref_client ord zord) pk zs)"
    and ZREM: "implements view (rc_ZREM R pk xs) (rc_ZREM (ref_client ord zord) pk xs)"
    and ZSCORE: "implements view (rc_ZSCORE R pk x) (rc_ZSCORE (ref_client ord zord) pk x)"
    and ZINCRBY: "storable fl \<Longrightarrow> implements view (rc_ZINCRBY R pk x fl) (rc_ZINCRBY (ref_client ord zord) pk x fl)"
    and ZMembersOrdered: "implements view (rc_ZMembersOrdered R pk asc) (rc_ZMembersOrdered (ref_client ord zord) pk asc)"
    and ZRANK: "implements view (rc_ZRANK R pk x) (rc_ZRANK (ref_client ord zord) pk x)"
    and ZREVRANK: "implements view (rc_ZREVRANK R pk x) (rc_ZREVRANK (ref_client ord zord) pk x)"

section \<open>Composing calls\<close>

lemma implements_thenE:
  "implements v m m' \<Longrightarrow> (\<And>a. implements v (k a) (k' a)) \<Longrightarrow> implements v (thenE m k) (thenE m' k')"
  by (simp add: implements_def thenE_def split: sum.split)

lemma implements_doneE: "implements v (doneE x) (doneE x)"
  by (simp add: implements_def doneE_def)

lemma implements_failE: "implements v (failE e) (failE e)"
  by (simp add: implements_def failE_def)

lemma implements_if: "implements v f f' \<Longrightarrow> implements v g g' \<Longrightarrow> implements v (if b then f else g) (if b then f' else g')"
  by simp

lemma implements_option:
  "implements v f f' \<Longrightarrow> (\<And>b. implements v (g b) (g' b)) \<Longrightarrow> implements v (case_option f g x) (case_option f' g' x)"
  by (cases x) simp_all

lemma implements_sum:
  "(\<And>a. implements v (f a) (f' a)) \<Longrightarrow> (\<And>b. implements v (g b) (g' b)) \<Longrightarrow>
    implements v (case_sum f g x) (case_sum f' g' x)"
  by (cases x) simp_all

text \<open>A call over the abstract table, its error mapped as the store maps it.\<close>

definition call_tbl :: "(redimo_err \<Rightarrow> serr) \<Rightarrow> (tbl, 'a) cop \<Rightarrow> (tbl, 'a) op" where
  "call_tbl err g t = (map_sum err id (fst (g t)), snd (g t))"

lemma implements_run_client:
  "implements view f g \<Longrightarrow> implements (\<lambda>s. view (table s)) (run_client err f) (call_tbl err g)"
  by (simp add: implements_def run_client_def call_tbl_def)

lemma call_tbl_ok [simp]: "call_tbl err (ok_call f) t = (Inr (fst (f t)), snd (f t))"
  by (simp add: call_tbl_def ok_call_def)

lemma implements_eq: "implements v f g \<Longrightarrow> (\<And>t. g t = h t) \<Longrightarrow> implements v f h"
  by (simp add: implements_def)

text \<open>Alone, an attempt of the compare-and-set loop never loses its race.\<close>

lemma implements_casRetry:
  assumes "implements view att att'" and "\<And>t. fst (att' t) \<noteq> Inr None"
  shows "implements view (casRetry att) (thenE att' (\<lambda>r. doneE (the r)))"
proof -
  obtain n where n: "MaxRMWRetries = Suc n" by (simp add: MaxRMWRetries_def)
  show ?thesis
    using assms unfolding casRetry_def n
    by (fastforce simp: implements_def thenE_def doneE_def split: sum.split option.split)
qed

section \<open>The map of fields\<close>

lemma update_same: "AList.update k v (AList.update k b h) = AList.update k v h"
  by (induction h) auto

lemma update_present:
  "k \<noteq> a \<Longrightarrow> k \<in> fst ` set h \<Longrightarrow> AList.update k v (AList.update a b h) = AList.update a b (AList.update k v h)"
  by (induction h) (auto split: if_splits)

lemma hset_all_Cons [simp]: "hset_all ((f, v) # fs) h = hset_all fs (AList.update f v h)"
  by (simp add: hset_all_def)

lemma hset_all_Nil [simp]: "hset_all [] h = h"
  by (simp add: hset_all_def)

lemma keys_update: "fst ` set (AList.update k v h) = insert k (fst ` set h)"
  by (induction h) auto

lemma hset_all_present:
  "k \<notin> fst ` set g \<Longrightarrow> k \<in> fst ` set h \<Longrightarrow> AList.update k v (hset_all g h) = hset_all g (AList.update k v h)"
proof (induction g arbitrary: h)
  case (Cons ab g)
  obtain a b where ab: "ab = (a, b)" by (cases ab)
  have "AList.update k v (AList.update a b h) = AList.update a b (AList.update k v h)"
    using Cons.prems by (intro update_present) (auto simp: ab)
  then show ?case
    using Cons.IH [of "AList.update a b h"] Cons.prems by (simp add: ab keys_update)
qed simp

lemma hset_all_update:
  "distinct (map fst g) \<Longrightarrow> hset_all (AList.update k v g) h = AList.update k v (hset_all g h)"
  by (induction g arbitrary: h) (auto simp: hset_all_present keys_update update_same)

lemma distinct_field_map: "distinct (map fst (field_map fs))"
proof -
  have "distinct (map fst g) \<Longrightarrow> distinct (map fst (hset_all fs g))" for g :: "(bytes \<times> bytes) list"
    by (induction fs arbitrary: g) (auto simp: distinct_update)
  then show ?thesis by (simp add: field_map_def hset_all_def)
qed

lemma hset_all_field_map: "hset_all (field_map fs) h = hset_all fs h"
proof -
  have "distinct (map fst g) \<Longrightarrow> hset_all (hset_all fs g) h = hset_all fs (hset_all g h)" for g :: "(bytes \<times> bytes) list"
    by (induction fs arbitrary: g) (auto simp: distinct_update hset_all_update)
  from this [of "[]"] show ?thesis by (simp add: field_map_def hset_all_def)
qed

lemma length_update': "length (AList.update k v h) = length h + (if map_of h k = None then 1 else 0)"
  by (induction h) auto

lemma length_hset_all_new:
  "distinct (map fst g) \<Longrightarrow>
    length (hset_all g h) = length h + length (filter (\<lambda>f. map_of h f = None) (map fst g))"
proof (induction g arbitrary: h)
  case (Cons kv g)
  obtain k v where kv: "kv = (k, v)" by (cases kv)
  have "filter (\<lambda>f. map_of (AList.update k v h) f = None) (map fst g) = filter (\<lambda>f. map_of h f = None) (map fst g)"
    using Cons.prems by (intro filter_cong) (auto simp: kv update_conv')
  moreover have "distinct (map fst g)" using Cons.prems by simp
  ultimately show ?case
    using Cons.IH [of "AList.update k v h"] by (simp add: kv length_update' del: filter_map length_filter_map)
qed simp

section \<open>The map of scores\<close>

lemma map_of_map_snd: "map_of (map (apsnd f) xs) k = map_option f (map_of xs k)"
  by (induction xs) auto

lemma zput_all_score_map:
  assumes "\<forall>p \<in> set ms. storable (snd p)"
  shows "zput_all (score_map ms) z = zput_all ms z"
proof (rule zitems_eqI)
  have "\<forall>p \<in> set (score_map ms). storable (snd p)" using assms set_score_map [of ms] by blast
  moreover have "map_of (rev (score_map ms)) = map_of (score_map ms)"
    using distinct_score_map by (intro map_of_inject_set [THEN iffD2]) (simp_all flip: rev_map)
  ultimately show "zscore (zput_all (score_map ms) z) = zscore (zput_all ms z)"
    using assms by (simp add: zscore_zput_all fun_eq_iff map_add_def rev_map map_of_map_snd map_of_score_map)
qed

lemma length_zput_all:
  assumes "\<forall>p \<in> set ms. storable (snd p)" and "distinct (map fst ms)"
  shows "length (zlist (zput_all ms z)) = length (zlist z) + length (filter (\<lambda>m. zscore z m = None) (map fst ms))"
proof -
  let ?new = "filter (\<lambda>m. zscore z m = None) (map fst ms)"
  have "dom (zscore z) \<union> fst ` set ms = dom (zscore z) \<union> set ?new" by auto
  moreover have "card (dom (zscore z) \<union> set ?new) = card (dom (zscore z)) + card (set ?new)"
    by (rule card_Un_disjoint) auto
  moreover have "card (set ?new) = length ?new" using assms(2) by (intro distinct_card) simp
  ultimately show ?thesis
    using assms(1) by (simp only: length_zlist dom_zput_all)
qed

lemma length_zdrop:
  "length (zlist z) = length (zlist (zdrop ms z)) + length (filter (\<lambda>m. m \<in> set ms) (map fst (zlist z)))"
  using sum_length_filter_compl [of "\<lambda>p. fst p \<in> set ms" "zlist z"] by (simp add: zlist_zdrop filter_map comp_def)

section \<open>The store keeps its contract\<close>

lemma rvBytes_AvB [simp]: "rvBytes \<circ> AvB = (\<lambda>b. b)" "rvBytes (AvB b) = b"
  by (simp_all add: rvBytes_def fun_eq_iff)

lemma map_option_AvB [simp]: "map_option rvBytes (map_option AvB v) = v"
  by (cases v) simp_all

lemma parseStoredInt_eq: "parseStoredInt b = (case ParseInt b of Inl _ \<Rightarrow> Inl NotInteger | Inr n \<Rightarrow> Inr n)"
proof (cases "b = [] \<or> length b = 1 \<and> b ! 0 = CHR ''0''")
  case True
  then show ?thesis by (auto simp: parseStoredInt_def ParseInt_def)
next
  case False
  define neg where "neg = (b ! 0 = CHR ''-'')"
  show ?thesis
  proof (cases "if neg then drop 1 b else b")
    case Nil
    with False show ?thesis by (simp add: parseStoredInt_def ParseInt_def Let_def neg_def [symmetric])
  next
    case (Cons c cs)
    have no0: "\<not> (length b = 1 \<and> b ! 0 = CHR ''0'')" using False by simp
    show ?thesis
    proof (cases "code c < 49 \<or> 57 < code c")
      case True
      with False Cons show ?thesis by (simp add: parseStoredInt_def ParseInt_def Let_def neg_def [symmetric])
    next
      case digit: False
      have "parseStoredInt b = (case digit_loop (code c - 48) cs of None \<Rightarrow> Inl NotInteger
          | Some v \<Rightarrow> (case int64_of_abs neg v of None \<Rightarrow> Inl NotInteger | Some n \<Rightarrow> Inr n))"
        using False Cons digit unfolding parseStoredInt_def if_not_P [OF no0] by (simp add: Let_def neg_def [symmetric])
      moreover have "ParseInt b = (case digit_loop (code c - 48) cs of None \<Rightarrow> Inl ArgNotInteger
          | Some v \<Rightarrow> (case int64_of_abs neg v of None \<Rightarrow> Inl ArgNotInteger | Some n \<Rightarrow> Inr n))"
        using False Cons digit unfolding ParseInt_def if_not_P [OF no0] by (simp add: Let_def neg_def [symmetric])
      ultimately show ?thesis by (simp split: option.split)
    qed
  qed
qed

lemma float_finite: "\<not> finite64 x \<longleftrightarrow> x = FNaN \<or> is_inf x"
  by (simp add: finite64_def is_inf_def split: f64.split)

lemmas composite_simps = thenE_def doneE_def failE_def ref_client_def call_tbl_ok map_option_AvB rvBytes_AvB

context redimo_client begin

abbreviation V :: "'s rstate \<Rightarrow> tbl" where
  "V \<equiv> \<lambda>s. view (table s)"

lemmas client_calls =
  EnsureType [THEN implements_run_client] EnsureTypeExpiring [THEN implements_run_client]
  CreateTypeIfAbsent [THEN implements_run_client] LoadMeta [THEN implements_run_client]
  SetExpire [THEN implements_run_client] Persist [THEN implements_run_client]
  DeleteMeta [THEN implements_run_client] DeleteMetaIfEmpty [THEN implements_run_client]
  DeleteMembers [THEN implements_run_client] GET [THEN implements_run_client]
  BatchGET [THEN implements_run_client] SET [THEN implements_run_client]
  GETSET [THEN implements_run_client] SETCAS [THEN implements_run_client]
  LPUSH [THEN implements_run_client] RPUSH [THEN implements_run_client]
  LPOP [THEN implements_run_client] RPOP [THEN implements_run_client]
  HSET [THEN implements_run_client]
  HSETNX [THEN implements_run_client] HGET [THEN implements_run_client]
  HMGET [THEN implements_run_client] HGETALL [THEN implements_run_client]
  HDEL [THEN implements_run_client] HEXISTS [THEN implements_run_client]
  HSETCAS [THEN implements_run_client] SADD [THEN implements_run_client]
  SREM [THEN implements_run_client] SISMEMBER [THEN implements_run_client]
  SMEMBERS [THEN implements_run_client] ZREM [THEN implements_run_client]
  ZSCORE [THEN implements_run_client]
  ZMembersOrdered [THEN implements_run_client] ZRANK [THEN implements_run_client]
  ZREVRANK [THEN implements_run_client]

lemmas composed = implements_thenE implements_doneE implements_failE implements_if implements_sum implements_option client_calls

lemma meta_ops:
  "implements V (run_client typeErr (rc_EnsureType R pk ty d)) (sp_EnsureType pk ty d)"
  "implements V (run_client typeErr (rc_EnsureTypeExpiring R pk ty d n)) (sp_EnsureTypeExpiring pk ty d n)"
  "implements V (client (rc_CreateTypeIfAbsent R pk ty d n)) (sp_CreateTypeIfAbsent pk ty d n)"
  "implements V (client (rc_LoadMeta R pk)) (sp_LoadMeta pk)"
  "implements V (client (rc_SetExpire R pk n)) (sp_SetExpire pk n)"
  "implements V (client (rc_Persist R pk)) (sp_Persist pk)"
  "implements V (client (rc_DeleteMeta R pk)) (sp_DeleteMeta pk)"
  "implements V (client (rc_DeleteMetaIfEmpty R pk)) (sp_DeleteMetaIfEmpty pk)"
  "implements V (rs_DeleteMembers R b pk) (sp_DeleteMembers pk)"
  unfolding rs_DeleteMembers_def
  by (rule implements_eq, rule client_calls, simp add: ref_client_def call_tbl_def typed_def ok_call_def typeErr_def
      sp_EnsureType_def sp_EnsureTypeExpiring_def sp_CreateTypeIfAbsent_def sp_LoadMeta_def sp_SetExpire_def sp_Persist_def
      sp_DeleteMeta_def sp_DeleteMetaIfEmpty_def sp_DeleteMembers_def split: option.split)+

lemma string_ops:
  "implements V (rs_GetString R pk) (sp_GetString pk)"
  "implements V (rs_MGetStrings R pks) (sp_MGetStrings pks)"
  "implements V (client (rc_SET R pk v)) (sp_SetString pk v)"
  "implements V (rs_GetSetString R pk v) (sp_GetSetString pk v)"
  "implements V (rs_SetStringIfEquals R pk v old) (sp_SetStringIfEquals pk v old)"
proof -
  show "implements V (rs_GetString R pk) (sp_GetString pk)"
    unfolding rs_GetString_def
    by (rule implements_eq, (rule composed)+) (simp add: composite_simps sp_GetString_def)
  show "implements V (rs_MGetStrings R pks) (sp_MGetStrings pks)"
    unfolding rs_MGetStrings_def
    by (rule implements_eq, (rule composed)+) (auto simp: composite_simps sp_MGetStrings_def)
  show "implements V (client (rc_SET R pk v)) (sp_SetString pk v)"
    by (rule implements_eq, (rule composed)+) (simp add: composite_simps sp_SetString_def)
  show "implements V (rs_GetSetString R pk v) (sp_GetSetString pk v)"
    unfolding rs_GetSetString_def
    by (rule implements_eq, (rule composed)+) (simp add: composite_simps sp_GetSetString_def)
  show "implements V (rs_SetStringIfEquals R pk v old) (sp_SetStringIfEquals pk v old)"
    unfolding rs_SetStringIfEquals_def
    by (rule implements_eq, (rule composed)+)
      (auto simp: composite_simps rf_SETCAS_def sp_SetStringIfEquals_def or_nil_def split: option.split)
qed

lemma list_ops:
  "implements V (rs_LPush R pk xs) (sp_LPush pk xs)"
  "implements V (rs_RPush R pk xs) (sp_RPush pk xs)"
  "implements V (rs_LPop R pk) (sp_LPop pk)"
  "implements V (rs_RPop R pk) (sp_RPop pk)"
  "implements view (rc_LRANGE R pk i j) (rc_LRANGE (ref_client ord zord) pk i j) \<Longrightarrow>
    implements V (rs_LRange R pk i j) (sp_LRange pk i j)"
  "implements V (rs_LIndex R pk i) (sp_LIndex pk i)"
  "implements V (lAll R pk) (sp_LRangeAll pk)"
  "implements V (rs_LReplaceAll R b pk xs) (sp_LReplaceAll pk xs)"
proof -
  have all: "rank_slice xs 0 (-1) = xs" for xs :: "bytes list"
    by (simp add: rank_slice_def Let_def)
  show "implements V (rs_LPush R pk xs) (sp_LPush pk xs)"
    unfolding rs_LPush_def
    by (rule implements_eq, (rule composed)+) (simp add: composite_simps sp_LPush_def set_list_def)
  show push: "implements V (rs_RPush R pk xs) (sp_RPush pk xs)" for xs
    unfolding rs_RPush_def
    by (rule implements_eq, (rule composed)+) (simp add: composite_simps sp_RPush_def set_list_def)
  show "implements V (rs_LPop R pk) (sp_LPop pk)"
    unfolding rs_LPop_def
    by (rule implements_eq, (rule composed)+) (simp add: composite_simps sp_LPop_def String split: list.split)
  show "implements V (rs_RPop R pk) (sp_RPop pk)"
    unfolding rs_RPop_def
    by (rule implements_eq, (rule composed)+) (simp add: composite_simps sp_RPop_def String)
  show "implements V (rs_LRange R pk i j) (sp_LRange pk i j)"
    if range: "implements view (rc_LRANGE R pk i j) (rc_LRANGE (ref_client ord zord) pk i j)"
    unfolding rs_LRange_def
    by (rule implements_eq, (rule composed range [THEN implements_run_client])+) (simp add: composite_simps sp_LRange_def String comp_def)
  show lAll: "implements V (lAll R pk) (sp_LRangeAll pk)"
    unfolding lAll_def
    by (rule implements_eq, (rule composed LRANGE [THEN implements_run_client], simp?)+) (simp add: composite_simps sp_LRangeAll_def String comp_def all)
  show "implements V (rs_LIndex R pk i) (sp_LIndex pk i)"
    unfolding rs_LIndex_def Let_def
    by (rule implements_eq, (rule lAll composed)+)
      (simp add: composite_simps sp_LRangeAll_def sp_LIndex_def index_at_def Let_def)
  show "implements V (rs_LReplaceAll R b pk xs) (sp_LReplaceAll pk xs)"
    unfolding rs_LReplaceAll_def
    by (rule implements_eq, (rule meta_ops(9) push composed)+)
      (simp add: composite_simps sp_DeleteMembers_def sp_RPush_def sp_LReplaceAll_def set_list_def clear_members_def)
qed

lemma IncrBy_op: "implements V (rs_IncrBy R pk d) (sp_IncrBy pk d)"
proof -
  define att where "att = thenE (call_tbl storeErr (rc_GET (ref_client ord zord) pk)) (\<lambda>rv.
       case (case rv of None \<Rightarrow> Inr 0 | Some v \<Rightarrow> parseStoredInt (rvBytes v)) of
         Inl e \<Rightarrow> failE e
       | Inr cur \<Rightarrow>
           if incr_overflows cur d then failE IncrOverflow
           else
             thenE (call_tbl storeErr (rc_SETCAS (ref_client ord zord) pk (fmt_int (cur + d)) (or_nil (map_option rvBytes rv)) (rv \<noteq> None)))
               (\<lambda>ok. doneE (if ok then Some (cur + d) else None)))"
  have att: "implements V (incrAttempt R pk d) att"
    unfolding incrAttempt_def att_def by (intro composed)
  have eq: "att t = (case (case t_str t pk of None \<Rightarrow> Inr 0 | Some v \<Rightarrow> ParseInt v) of
      Inl _ \<Rightarrow> (Inl NotInteger, t)
    | Inr cur \<Rightarrow> if incr_overflows cur d then (Inl IncrOverflow, t)
        else (Inr (Some (cur + d)), set_str pk (Some (fmt_int (cur + d))) t))" for t
    by (auto simp: att_def composite_simps rf_SETCAS_def or_nil_def parseStoredInt_eq split: option.split sum.split)
  then have "fst (att t) \<noteq> Inr None" for t by (auto split: sum.split)
  from implements_casRetry [OF att this] show ?thesis
    unfolding rs_IncrBy_def
    by (rule implements_eq) (auto simp: thenE_def doneE_def eq sp_IncrBy_def split: sum.split)
qed

lemma HIncrBy_op: "implements V (rs_HIncrBy R pk f d) (sp_HIncrBy pk f d)"
proof -
  define att where "att = thenE (call_tbl storeErr (rc_HGET (ref_client ord zord) pk f)) (\<lambda>rv.
       case (case rv of None \<Rightarrow> Inr 0 | Some v \<Rightarrow> parseStoredInt (rvBytes v)) of
         Inl _ \<Rightarrow> failE HashNotInteger
       | Inr cur \<Rightarrow>
           if incr_overflows cur d then failE IncrOverflow
           else
             thenE (call_tbl storeErr (rc_HSETCAS (ref_client ord zord) pk f (fmt_int (cur + d)) (or_nil (map_option rvBytes rv)) (rv \<noteq> None)))
               (\<lambda>ok. doneE (if ok then Some (cur + d, rv = None) else None)))"
  have att: "implements V (hincrAttempt R pk f d) att"
    unfolding hincrAttempt_def att_def by (intro composed)
  have eq: "att t = (case (case map_of (t_hash t pk) f of None \<Rightarrow> Inr 0 | Some v \<Rightarrow> ParseInt v) of
      Inl _ \<Rightarrow> (Inl HashNotInteger, t)
    | Inr cur \<Rightarrow> if incr_overflows cur d then (Inl IncrOverflow, t)
        else (Inr (Some (cur + d, map_of (t_hash t pk) f = None)),
              set_hash pk (AList.update f (fmt_int (cur + d)) (t_hash t pk)) t))" for t
    by (auto simp: att_def composite_simps rf_HSETCAS_def or_nil_def parseStoredInt_eq split: option.split sum.split)
  then have "fst (att t) \<noteq> Inr None" for t by (auto split: sum.split)
  from implements_casRetry [OF att this] show ?thesis
    unfolding rs_HIncrBy_def
    by (rule implements_eq) (auto simp: thenE_def doneE_def eq sp_HIncrBy_def Let_def split: sum.split)
qed

lemma hash_ops:
  "implements V (rs_HSet R pk fs) (sp_HSet pk fs)"
  "implements V (client (rc_HSETNX R pk f v)) (sp_HSetNX pk f v)"
  "implements V (rs_HGet R pk f) (sp_HGet pk f)"
  "implements V (rs_HMGet R pk xs) (sp_HMGet pk xs)"
  "implements V (rs_HGetAll R pk) (sp_HGetAll pk)"
  "implements V (rs_HKeys R pk) (sp_HKeys pk)"
  "implements V (rs_HVals R pk) (sp_HVals pk)"
  "implements V (rs_HDel R pk xs) (sp_HDel pk xs)"
  "implements V (client (rc_HEXISTS R pk f)) (sp_HExists pk f)"
  "implements V (rs_HStrlen R pk f) (sp_HStrlen pk f)"
proof -
  show "implements V (rs_HSet R pk fs) (sp_HSet pk fs)"
    unfolding rs_HSet_def
    by (rule implements_eq, (rule composed)+)
      (simp add: composite_simps rf_HSET_def sp_HSet_def Let_def hset_all_field_map field_map_def [of "[]"]
        length_hset_all_new [OF distinct_field_map, unfolded hset_all_field_map] set_hash_def del: filter_map length_filter_map)
  show "implements V (client (rc_HSETNX R pk f v)) (sp_HSetNX pk f v)"
    by (rule implements_eq, (rule composed)+) (simp add: ref_client_def call_tbl_def typed_def sp_HSetNX_def)
  show "implements V (rs_HGet R pk f) (sp_HGet pk f)"
    unfolding rs_HGet_def by (rule implements_eq, (rule composed)+) (simp add: composite_simps sp_HGet_def)
  show "implements V (rs_HMGet R pk xs) (sp_HMGet pk xs)"
    unfolding rs_HMGet_def by (rule implements_eq, (rule composed)+) (auto simp: composite_simps sp_HMGet_def)
  show all: "implements V (rs_HGetAll R pk) (sp_HGetAll pk)"
    unfolding rs_HGetAll_def
    by (rule implements_eq, (rule composed)+) (simp add: composite_simps sp_HGetAll_def comp_def split_beta)
  show "implements V (rs_HKeys R pk) (sp_HKeys pk)"
    unfolding rs_HKeys_def
    by (rule implements_eq, (rule all composed)+) (simp add: composite_simps sp_HGetAll_def sp_HKeys_def)
  show "implements V (rs_HVals R pk) (sp_HVals pk)"
    unfolding rs_HVals_def
    by (rule implements_eq, (rule all composed)+) (simp add: composite_simps sp_HGetAll_def sp_HVals_def)
  have len: "int (length h) - int (length (hdel_all xs h)) = int (length (filter (\<lambda>(f, _). f \<in> set xs) h))" for h
    using sum_length_filter_compl [of "\<lambda>p. fst p \<in> set xs" h] by (simp add: hdel_all_def case_prod_unfold)
  show "implements V (rs_HDel R pk xs) (sp_HDel pk xs)"
    unfolding rs_HDel_def
    by (rule implements_eq, (rule composed)+)
      (use len in \<open>auto simp: composite_simps rf_HDEL_def sp_HDel_def Let_def hdel_all_def set_hash_def\<close>)
  show "implements V (client (rc_HEXISTS R pk f)) (sp_HExists pk f)"
    by (rule implements_eq, (rule composed)+) (simp add: composite_simps sp_HExists_def)
  show "implements V (rs_HStrlen R pk f) (sp_HStrlen pk f)"
    unfolding rs_HStrlen_def
    by (rule implements_eq, (rule composed)+) (simp add: composite_simps sp_HStrlen_def split: option.split)
qed

lemma set_ops:
  "implements V (rs_SAdd R pk xs) (sp_SAdd pk xs)"
  "implements V (rs_SRem R pk xs) (sp_SRem pk xs)"
  "implements V (client (rc_SISMEMBER R pk x)) (sp_SIsMember pk x)"
  "implements V (client (rc_SMEMBERS R pk)) (sp_SMembers pk)"
  "implements V (rs_SRandMember R pick pk n) (sp_SRandMember pick pk n)"
proof -
  show "implements V (rs_SAdd R pk xs) (sp_SAdd pk xs)"
    unfolding rs_SAdd_def
    by (rule implements_eq, (rule composed)+)
      (auto simp: composite_simps rf_SADD_def sp_SAdd_def Let_def sadd_all_def set_set_def)
  show "implements V (client (rc_SISMEMBER R pk x)) (sp_SIsMember pk x)"
    by (rule implements_eq, (rule composed)+) (simp add: composite_simps sp_SIsMember_def)
  show "implements V (client (rc_SMEMBERS R pk)) (sp_SMembers pk)"
    by (rule implements_eq, (rule composed)+) (simp add: composite_simps sp_SMembers_def)
  show "implements V (rs_SRandMember R pick pk n) (sp_SRandMember pick pk n)"
    unfolding rs_SRandMember_def
    by (rule implements_eq, (rule composed)+) (simp add: composite_simps sp_SRandMember_def)
  have len: "int (length s) - int (length (filter (\<lambda>x. x \<notin> set xs) s)) = int (length (ord (filter (\<lambda>x. x \<in> set xs) s)))" for s
    using sum_length_filter_compl [of "\<lambda>x. x \<in> set xs" s] ord by (metis add_diff_cancel_right' of_nat_add size_mset)
  show "implements V (rs_SRem R pk xs) (sp_SRem pk xs)"
    unfolding rs_SRem_def
    by (rule implements_eq, (rule composed)+)
      (use len in \<open>auto simp: composite_simps rf_SREM_def sp_SRem_def Let_def set_set_def\<close>)
qed

lemma IncrByFloat_op: "implements V (rs_IncrByFloat R pk d) (sp_IncrByFloat pk d)"
proof -
  define att where "att = thenE (call_tbl storeErr (rc_GET (ref_client ord zord) pk)) (\<lambda>rv.
       case (case rv of None \<Rightarrow> Some (FZero False) | Some v \<Rightarrow> parseStoredFloat (rvBytes v)) of
         None \<Rightarrow> failE NotFloat
       | Some cur \<Rightarrow>
           if fadd cur d = FNaN \<or> is_inf (fadd cur d) then failE IncrNaNOrInfinity
           else
             thenE (call_tbl storeErr (rc_SETCAS (ref_client ord zord) pk (formatRedisFloat (fadd cur d))
                 (or_nil (map_option rvBytes rv)) (rv \<noteq> None)))
               (\<lambda>ok. doneE (if ok then Some (formatRedisFloat (fadd cur d)) else None)))"
  have att: "implements V (incrFloatAttempt R pk d) att"
    unfolding incrFloatAttempt_def att_def Let_def by (intro composed)
  have eq: "att t = (case (case t_str t pk of None \<Rightarrow> Some (FZero False) | Some v \<Rightarrow> parseFloatArg v) of
      None \<Rightarrow> (Inl NotFloat, t)
    | Some cur \<Rightarrow> if \<not> finite64 (fadd cur d) then (Inl IncrNaNOrInfinity, t)
        else (Inr (Some (formatRedisFloat (fadd cur d))), set_str pk (Some (formatRedisFloat (fadd cur d))) t))" for t
    unfolding float_finite
    by (auto simp: att_def composite_simps rf_SETCAS_def or_nil_def parseStoredFloat_eq split: option.split)
  then have "fst (att t) \<noteq> Inr None" for t by (auto split: option.split)
  from implements_casRetry [OF att this] show ?thesis
    unfolding rs_IncrByFloat_def
    by (rule implements_eq) (auto simp: thenE_def doneE_def eq sp_IncrByFloat_def Let_def split: option.split)
qed

lemma HIncrByFloat_op: "implements V (rs_HIncrByFloat R pk f d) (sp_HIncrByFloat pk f d)"
proof -
  define att where "att = thenE (call_tbl storeErr (rc_HGET (ref_client ord zord) pk f)) (\<lambda>rv.
       case (case rv of None \<Rightarrow> Some (FZero False) | Some v \<Rightarrow> parseStoredFloat (rvBytes v)) of
         None \<Rightarrow> failE HashNotFloat
       | Some cur \<Rightarrow>
           thenE (call_tbl storeErr (rc_HSETCAS (ref_client ord zord) pk f (formatRedisFloat (fadd cur d))
               (or_nil (map_option rvBytes rv)) (rv \<noteq> None)))
             (\<lambda>ok. doneE (if ok then Some (formatRedisFloat (fadd cur d), rv = None) else None)))"
  have att: "implements V (hincrFloatAttempt R pk f d) att"
    unfolding hincrFloatAttempt_def att_def Let_def by (intro composed)
  have eq: "att t = (case (case map_of (t_hash t pk) f of None \<Rightarrow> Some (FZero False) | Some v \<Rightarrow> parseFloatArg v) of
      None \<Rightarrow> (Inl HashNotFloat, t)
    | Some cur \<Rightarrow> (Inr (Some (formatRedisFloat (fadd cur d), map_of (t_hash t pk) f = None)),
              set_hash pk (AList.update f (formatRedisFloat (fadd cur d)) (t_hash t pk)) t))" for t
    by (auto simp: att_def composite_simps rf_HSETCAS_def or_nil_def parseStoredFloat_eq split: option.split)
  then have "fst (att t) \<noteq> Inr None" for t by (auto split: option.split)
  from implements_casRetry [OF att this] show ?thesis
    unfolding rs_HIncrByFloat_def
    by (rule implements_eq) (auto simp: thenE_def doneE_def eq sp_HIncrByFloat_def Let_def split: option.split)
qed

lemma zset_writes:
  "\<forall>p \<in> set zs. storable (snd p) \<Longrightarrow> implements V (rs_ZAdd R pk zs) (sp_ZAdd pk zs)"
  "implements V (rs_ZRem R pk xs) (sp_ZRem pk xs)"
  "storable fl \<Longrightarrow> implements V (rs_ZIncrBy R pk m fl) (sp_ZIncrBy pk m fl)"
  "implements V (zRemMembers R pk ms) (\<lambda>t. (Inr (length (filter (\<lambda>m. m \<in> fst ` set ms) (map fst (zlist (t_zset t pk))))),
     set_zset pk (zdrop (map fst ms) (t_zset t pk)) t))"
proof -
  have nil: "ord [] = []" and len: "length (ord xs) = length xs" for xs
    using ord [of "[]"] ord [of xs] by (simp, metis size_mset)
  have "zdrop [] z = z" for z by (rule zitems_eqI) (simp add: fun_eq_iff zscore_zdrop)
  then have drop_nil: "zdrop [] = (\<lambda>z. z)" by (simp add: fun_eq_iff)
  have removed: "int (length (zlist z)) - int (length (zlist (zdrop xs z))) =
      int (length (filter (\<lambda>m. m \<in> set xs) (map fst (zlist z))))" for z
    using length_zdrop [of z xs] by simp
  show "implements V (rs_ZRem R pk xs) (sp_ZRem pk xs)"
    unfolding rs_ZRem_def
    by (rule implements_eq, (rule composed)+)
      (auto simp: composite_simps rf_ZREM_def sp_ZRem_def Let_def drop_nil len removed simp del: filter_map length_filter_map)
  show "implements V (zRemMembers R pk ms) (\<lambda>t. (Inr (length (filter (\<lambda>m. m \<in> fst ` set ms) (map fst (zlist (t_zset t pk))))),
     set_zset pk (zdrop (map fst ms) (t_zset t pk)) t))"
    unfolding zRemMembers_def
    by (rule implements_eq, (rule composed)+) (auto simp: composite_simps rf_ZREM_def drop_nil len)
  show "implements V (rs_ZAdd R pk zs) (sp_ZAdd pk zs)" if zs: "\<forall>p \<in> set zs. storable (snd p)"
  proof -
    have map: "\<forall>p \<in> set (score_map zs). storable (snd p)" using zs set_score_map [of zs] by blast
    show ?thesis
      unfolding rs_ZAdd_def
      by (rule implements_eq, (rule composed ZADD [OF map, THEN implements_run_client])+)
        (simp add: composite_simps rf_ZADD_def sp_ZAdd_def Let_def zput_all_score_map [OF zs, symmetric] score_map_def [of "[]"]
          length_zput_all [OF map distinct_score_map] del: filter_map length_filter_map)
  qed
  show "implements V (rs_ZIncrBy R pk m fl) (sp_ZIncrBy pk m fl)" if "storable fl"
    unfolding rs_ZIncrBy_def
    by (rule implements_eq, (rule composed ZINCRBY [OF that, THEN implements_run_client])+)
      (auto simp: composite_simps rf_ZINCRBY_def sp_ZIncrBy_def Let_def call_tbl_def ok_call_def storeErr_def
        ValidationException_def split: option.split)
qed

lemma zset_reads:
  "implements V (client (rc_ZSCORE R pk m)) (sp_ZScore pk m)"
  "implements V (zAscending R pk) (\<lambda>t. (Inr (zlist (t_zset t pk)), t))"
  "implements V (rs_ZRangeByRank R pk i j desc) (sp_ZRangeByRank pk i j desc)"
  "implements V (rs_ZRangeByScore R pk mn mx desc) (sp_ZRangeByScore pk mn mx desc)"
  "implements V (rs_ZCount R pk mn mx) (sp_ZCount pk mn mx)"
  "implements V (rs_ZRank R pk m desc) (sp_ZRank pk m desc)"
proof -
  show "implements V (client (rc_ZSCORE R pk m)) (sp_ZScore pk m)"
    by (rule implements_eq, (rule composed)+) (simp add: composite_simps sp_ZScore_def)
  show asc: "implements V (zAscending R pk) (\<lambda>t. (Inr (zlist (t_zset t pk)), t))"
    unfolding zAscending_def
    by (rule implements_eq, (rule composed)+) (simp add: composite_simps SortZMembers_zlist zord)
  show "implements V (rs_ZRangeByRank R pk i j desc) (sp_ZRangeByRank pk i j desc)"
    unfolding rs_ZRangeByRank_def
    by (rule implements_eq, (rule asc composed)+)
      (simp add: composite_simps sp_ZRangeByRank_def zrange_rank_def ZReverse_rev)
  show "implements V (rs_ZRangeByScore R pk mn mx desc) (sp_ZRangeByScore pk mn mx desc)"
    unfolding rs_ZRangeByScore_def Let_def
    by (rule implements_eq, (rule asc composed)+)
      (simp add: composite_simps sp_ZRangeByScore_def zrange_score_def ZReverse_rev)
  show "implements V (rs_ZCount R pk mn mx) (sp_ZCount pk mn mx)"
    unfolding rs_ZCount_def
    by (rule implements_eq, (rule asc composed)+) (simp add: composite_simps sp_ZCount_def zrange_score_def)
  show "implements V (rs_ZRank R pk m desc) (sp_ZRank pk m desc)"
    unfolding rs_ZRank_def
    by (cases desc; simp, rule implements_eq, (rule composed)+) (simp_all add: composite_simps sp_ZRank_def)
qed

text \<open>The members of a range are distinct and all there.\<close>

lemma removed_all:
  assumes "set ms \<subseteq> set (zlist z)" and "distinct ms"
  shows "length (filter (\<lambda>m. m \<in> fst ` set ms) (map fst (zlist z))) = length ms"
proof -
  have inj: "inj_on fst (set (zlist z))" and d: "distinct (zlist z)"
    using distinct_zlist [of z] by (simp_all add: distinct_map)
  have "filter (\<lambda>m. m \<in> fst ` set ms) (map fst (zlist z)) = map fst (filter (\<lambda>p. p \<in> set ms) (zlist z))"
    using inj_on_image_mem_iff [OF inj _ assms(1)] by (simp add: filter_map comp_def cong: filter_cong)
  moreover have "set (filter (\<lambda>p. p \<in> set ms) (zlist z)) = set ms" using assms(1) by auto
  then have "length (filter (\<lambda>p. p \<in> set ms) (zlist z)) = length ms"
    using d assms(2) by (metis distinct_card distinct_filter)
  ultimately show ?thesis by simp
qed

lemma zset_removes:
  "implements V (rs_ZRemRangeByRank R pk i j) (sp_ZRemRangeByRank pk i j)"
  "implements V (rs_ZRemRangeByScore R pk mn mx) (sp_ZRemRangeByScore pk mn mx)"
proof -
  have d: "distinct (zlist z)" for z using distinct_zlist [of z] by (simp add: distinct_map)
  have rank: "set (zrange_rank z i j False) \<subseteq> set (zlist z)" "distinct (zrange_rank z i j False)" for z
    using d by (simp_all add: zrange_rank_def rank_range_sub)
  have score: "set (zrange_score z mn mx) \<subseteq> set (zlist z)" "distinct (zrange_score z mn mx)" for z
    using d by (auto simp: zrange_score_def)
  show "implements V (rs_ZRemRangeByRank R pk i j) (sp_ZRemRangeByRank pk i j)"
    unfolding rs_ZRemRangeByRank_def
    by (rule implements_eq, (rule zset_reads(3) zset_writes(4) composed)+)
      (simp add: composite_simps sp_ZRangeByRank_def sp_ZRemRangeByRank_def Let_def removed_all rank del: filter_map length_filter_map)
  show "implements V (rs_ZRemRangeByScore R pk mn mx) (sp_ZRemRangeByScore pk mn mx)"
    unfolding rs_ZRemRangeByScore_def
    by (rule implements_eq, (rule zset_reads(4) zset_writes(4) composed)+)
      (simp add: composite_simps sp_ZRangeByScore_def sp_ZRemRangeByScore_def Let_def removed_all score del: filter_map length_filter_map)
qed

lemma SPop_op:
  assumes "fair_pick pick"
  shows "\<exists>pick'. fair_pick pick' \<and> implements V (rs_SPop R pick pk n) (sp_SPop pick' pk n)"
proof -
  define pick' where "pick' k xs = (if k \<ge> 0 then ord (filter (\<lambda>x. x \<in> set (pick k xs)) xs) else pick k xs)" for k xs
  have ord_set: "set (ord xs) = set xs" "distinct (ord xs) = distinct xs" "length (ord xs) = length xs" for xs
    using ord [of xs] by (metis set_mset_mset, metis mset_eq_imp_distinct_iff, metis size_mset)
  have "fair_pick pick'"
    unfolding fair_pick_def
  proof (intro allI impI)
    fix k :: int and xs :: "bytes list"
    assume d: "distinct xs"
    note pick = fair_pickD [OF assms d, of k]
    have "length (filter (\<lambda>x. x \<in> set (pick k xs)) xs) = length (pick k xs)" if "k \<ge> 0"
    proof -
      have "set (filter (\<lambda>x. x \<in> set (pick k xs)) xs) = set (pick k xs)" using pick(1) by auto
      then show ?thesis using pick(2) [OF that] d by (metis distinct_card distinct_filter)
    qed
    then show "set (pick' k xs) \<subseteq> set xs \<and>
        (if k \<ge> 0 then distinct (pick' k xs) \<and> length (pick' k xs) = min (nat k) (length xs)
         else length (pick' k xs) = (if xs = [] then 0 else min (nat (- k)) maxSRandRepeats))"
      using pick d by (auto simp: pick'_def ord_set)
  qed
  moreover have "implements V (rs_SPop R pick pk n) (sp_SPop pick' pk n)"
  proof -
    have nil: "ord [] = []" using ord [of "[]"] by simp
    have same: "filter (\<lambda>x. x \<notin> set (pick' n xs)) xs = filter (\<lambda>x. x \<notin> set (pick n xs)) xs" if "n > 0" for xs
      using that by (intro filter_cong) (auto simp: pick'_def ord_set)
    have removed: "ord (filter (\<lambda>x. x \<in> set (pick n xs)) xs) = pick' n xs" if "n > 0" for xs
      using that by (simp add: pick'_def)
    have none: "pick n xs = [] \<Longrightarrow> pick' n xs = []" "pick' n [] = []" if "n > 0" for xs
      using that nil by (simp_all add: pick'_def)
    show ?thesis
      unfolding rs_SPop_def Let_def
    proof (rule implements_eq, (rule composed)+)
      fix t
      show "(if n \<le> 0 then doneE [] else thenE (call_tbl storeErr (rc_SMEMBERS (ref_client ord zord) pk)) (\<lambda>members.
          if members = [] then doneE [] else if pick n members = [] then doneE []
          else call_tbl storeErr (rc_SREM (ref_client ord zord) pk (pick n members)))) t = sp_SPop pick' pk n t"
        using none(1) [of "t_set t pk"] none(2)
        by (cases "t_set t pk = []"; cases "pick n (t_set t pk) = []")
          (simp_all add: composite_simps rf_SREM_def sp_SPop_def Let_def same removed)
    qed
  qed
  ultimately show ?thesis by blast
qed

end

sublocale redimo_client \<subseteq> store: store_core "redimo_store R batch" "\<lambda>s. view (table s)" "\<lambda>s. now (table s)"
  by unfold_locales
    (simp_all add: redimo_store_def now meta_ops string_ops IncrBy_op list_ops hash_ops HIncrBy_op set_ops SPop_op LRANGE
      IncrByFloat_op HIncrByFloat_op zset_writes zset_reads zset_removes)

context redimo_client begin

lemma redimo_store_core: "store_core (redimo_store R batch) (\<lambda>s. view (table s)) (\<lambda>s. now (table s))"
  by (rule store.store_core_axioms)

text \<open>If LRANGE counts a negative index from the end of the list, the store meets the whole contract.\<close>

lemma redimo_store_conforms:
  assumes "\<And>pk i j. implements view (rc_LRANGE R pk i j) (rc_LRANGE (ref_client ord zord) pk i j)"
  shows "store_contract (redimo_store R batch) (\<lambda>s. view (table s)) (\<lambda>s. now (table s))"
  by (intro store_contract.intro redimo_store_core store_contract_axioms.intro)
    (simp add: redimo_store_def list_ops(5) assms)

end

text \<open>The documented behaviour can be had: the reference client is a client.\<close>

interpretation ref: redimo_client "ref_client rev zlist" "\<lambda>t. t" t_time rev zlist
  by unfold_locales (simp_all add: ref_client_def)

section \<open>The random choices\<close>

text \<open>
  The members SPOP and SRANDMEMBER choose are a fair choice, if \<^verbatim>\<open>rand.Shuffle\<close> permutes and
  \<^verbatim>\<open>rand.Intn\<close> draws below its bound: for a count that is not negative, that many distinct members or
  all of them; for a negative one, that many draws with repeats, at most 2 to the 20.
\<close>
lemma randomPick_fair:
  assumes "\<And>xs. mset (shuffle xs) = mset xs" and "\<And>i n. 0 < n \<Longrightarrow> intn i n < n"
  shows "fair_pick (randomPick shuffle intn)"
  unfolding fair_pick_def
proof (intro allI impI)
  fix n :: int and xs :: "bytes list"
  assume d: "distinct xs"
  have sh: "set (shuffle xs) = set xs" "distinct (shuffle xs)" "length (shuffle xs) = length xs"
    using assms(1) [of xs] d by (metis set_mset_mset, metis mset_eq_imp_distinct_iff, metis size_mset)
  have "set (take k (shuffle xs)) \<subseteq> set xs" for k
    using sh(1) set_take_subset by metis
  then have "set (randomDistinct shuffle n xs) \<subseteq> set xs \<and> distinct (randomDistinct shuffle n xs)
      \<and> length (randomDistinct shuffle n xs) = min (nat n) (length xs)"
    using sh by (auto simp: randomDistinct_def Let_def min_def)
  moreover have "set (randomRepeats intn n xs) \<subseteq> set xs \<and> length (randomRepeats intn n xs) = min (nat (- n)) maxSRandRepeats"
    if "xs \<noteq> []" "n < 0"
    using assms(2) [of "length xs"] that by (auto simp: randomRepeats_def Let_def maxSRandRepeats_def)
  ultimately show "set (randomPick shuffle intn n xs) \<subseteq> set xs \<and>
      (if n \<ge> 0 then distinct (randomPick shuffle intn n xs) \<and> length (randomPick shuffle intn n xs) = min (nat n) (length xs)
       else length (randomPick shuffle intn n xs) = (if xs = [] then 0 else min (nat (- n)) maxSRandRepeats))"
    by (cases "xs = []"; cases "n < 0") (simp_all add: randomPick_def)
qed

lemma randomPick_fair_witness: "fair_pick (randomPick rev (\<lambda>i n. i mod n))"
  by (rule randomPick_fair) simp_all

end
