(* ===== verification/Racing.thy ===== *)
theory Racing
  imports RedimoSpec
begin

text \<open>
  Other writers. \<open>racing R\<close> is a client whose table other processes write between any two of its
  calls: its state carries the schedule of their writes, one (possibly of nothing) before each call.
  The read-modify-write operations of the redimo-backed store are atomic under every schedule, and
  finish as soon as one attempt is left alone.
\<close>

section \<open>A schedule of other writers\<close>

type_synonym 's raced = "'s \<times> ('s \<Rightarrow> 's) list"

text \<open>The state once the others took their next \<open>k\<close> turns.\<close>

definition others :: "nat \<Rightarrow> 's raced \<Rightarrow> 's raced" where
  "others k tw = (fold (\<lambda>w. w) (take k (snd tw)) (fst tw), drop k (snd tw))"

definition race :: "('s, 'a) cop \<Rightarrow> ('s raced, 'a) cop" where
  "race f tw =
     (fst (f (fst (others 1 tw))), (snd (f (fst (others 1 tw))), snd (others 1 tw)))"

definition racing :: "'s redimo \<Rightarrow> 's raced redimo" where
  "racing R =
     \<lparr>rc_EnsureType = (\<lambda>pk ty d. race (rc_EnsureType R pk ty d)),
      rc_EnsureTypeExpiring = (\<lambda>pk ty d n. race (rc_EnsureTypeExpiring R pk ty d n)),
      rc_CreateTypeIfAbsent = (\<lambda>pk ty d n. race (rc_CreateTypeIfAbsent R pk ty d n)),
      rc_LoadMeta = (\<lambda>pk. race (rc_LoadMeta R pk)), rc_SetExpire = (\<lambda>pk e. race (rc_SetExpire R pk e)),
      rc_Persist = (\<lambda>pk. race (rc_Persist R pk)), rc_DeleteMeta = (\<lambda>pk. race (rc_DeleteMeta R pk)),
      rc_DeleteMetaIfEmpty = (\<lambda>pk. race (rc_DeleteMetaIfEmpty R pk)),
      rc_DeleteMembers = (\<lambda>pk n. race (rc_DeleteMembers R pk n)), rc_GET = (\<lambda>pk. race (rc_GET R pk)),
      rc_BatchGET = (\<lambda>pks. race (rc_BatchGET R pks)), rc_SET = (\<lambda>pk v. race (rc_SET R pk v)),
      rc_GETSET = (\<lambda>pk v. race (rc_GETSET R pk v)),
      rc_SETCAS = (\<lambda>pk v u ex. race (rc_SETCAS R pk v u ex)), rc_LPUSH = (\<lambda>pk es. race (rc_LPUSH R pk es)),
      rc_RPUSH = (\<lambda>pk es. race (rc_RPUSH R pk es)), rc_LPOP = (\<lambda>pk. race (rc_LPOP R pk)),
      rc_RPOP = (\<lambda>pk. race (rc_RPOP R pk)), rc_LRANGE = (\<lambda>pk i j. race (rc_LRANGE R pk i j)),
      rc_HSET = (\<lambda>pk fs. race (rc_HSET R pk fs)), rc_HSETNX = (\<lambda>pk f v. race (rc_HSETNX R pk f v)),
      rc_HGET = (\<lambda>pk f. race (rc_HGET R pk f)), rc_HMGET = (\<lambda>pk fs. race (rc_HMGET R pk fs)),
      rc_HGETALL = (\<lambda>pk. race (rc_HGETALL R pk)), rc_HDEL = (\<lambda>pk fs. race (rc_HDEL R pk fs)),
      rc_HEXISTS = (\<lambda>pk f. race (rc_HEXISTS R pk f)),
      rc_HSETCAS = (\<lambda>pk f v u ex. race (rc_HSETCAS R pk f v u ex)), rc_SADD = (\<lambda>pk ms. race (rc_SADD R pk ms)),
      rc_SREM = (\<lambda>pk ms. race (rc_SREM R pk ms)), rc_SISMEMBER = (\<lambda>pk m. race (rc_SISMEMBER R pk m)),
      rc_SMEMBERS = (\<lambda>pk. race (rc_SMEMBERS R pk)), rc_ZADD = (\<lambda>pk ms. race (rc_ZADD R pk ms)),
      rc_ZREM = (\<lambda>pk ms. race (rc_ZREM R pk ms)), rc_ZSCORE = (\<lambda>pk m. race (rc_ZSCORE R pk m)),
      rc_ZINCRBY = (\<lambda>pk m x. race (rc_ZINCRBY R pk m x)),
      rc_ZMembersOrdered = (\<lambda>pk asc. race (rc_ZMembersOrdered R pk asc)),
      rc_ZRANK = (\<lambda>pk m. race (rc_ZRANK R pk m)), rc_ZREVRANK = (\<lambda>pk m. race (rc_ZREVRANK R pk m)),
      rv_String = rv_String R,
      rc_MaxBatchWriteItems = rc_MaxBatchWriteItems R\<rparr>"

lemma others_0 [simp]: "others 0 tw = tw"
  by (simp add: others_def)

lemma others_others: "others j (others k tw) = others (k + j) tw"
  by (simp add: others_def take_add add.commute [of j k])

lemma others_pair: "others j (fst (others k tw), snd (others k tw)) = others (k + j) tw"
  using others_others [of j k tw] by simp

section \<open>The retry loop, atomically\<close>

text \<open>
  The outcome of an operation run at one instant \<open>k\<close> of the schedule: its result is that of \<open>f\<close> on the
  table as it is then, and the only change of its own to the table is that of \<open>f\<close> then.
\<close>

definition atomic_at :: "nat \<Rightarrow> (tbl \<Rightarrow> (serr + 'a) \<times> tbl) \<Rightarrow> tbl raced rstate \<Rightarrow> (serr + 'a) \<times> tbl raced rstate" where
  "atomic_at k f s =
     (fst (f (fst (others k (table s)))),
      s\<lparr>table := (snd (f (fst (others k (table s)))), snd (others k (table s)))\<rparr>)"

text \<open>Every turn was lost: no change of its own, and the counter of exhausted loops is raised.\<close>

definition exhausted_at :: "nat \<Rightarrow> tbl raced rstate \<Rightarrow> (serr + 'a) \<times> tbl raced rstate" where
  "exhausted_at k s = (Inl RMWMaxRetries, s\<lparr>table := others k (table s), rmwExhausted := rmwExhausted s + 1\<rparr>)"

definition attempts :: "(tbl raced rstate, 'a option) op \<Rightarrow> (tbl \<Rightarrow> (serr + 'a) \<times> tbl) \<Rightarrow> bool" where
  "attempts att f \<longleftrightarrow>
     (\<forall>s. (\<exists>k\<le>2. att s = (map_sum id Some (fst (atomic_at k f s)), snd (atomic_at k f s)))
        \<or> att s = (Inr None, s\<lparr>table := others 2 (table s)\<rparr>))"

lemma atomic_at_others: "atomic_at k f (s\<lparr>table := others j (table s)\<rparr>) = atomic_at (j + k) f s"
  by (simp add: atomic_at_def others_others)

lemma casLoop_atomic:
  assumes "attempts att f"
  shows "(\<exists>k\<le>2 * n. casLoop n att s = atomic_at k f s) \<or> casLoop n att s = exhausted_at (2 * n) s"
proof (induction n arbitrary: s)
  case 0
  then show ?case by (simp add: exhausted_at_def)
next
  case (Suc n)
  consider k where "k \<le> 2" "att s = (map_sum id Some (fst (atomic_at k f s)), snd (atomic_at k f s))"
    | "att s = (Inr None, s\<lparr>table := others 2 (table s)\<rparr>)"
    using assms by (auto simp: attempts_def)
  then show ?case
  proof cases
    case 1
    then have "casLoop (Suc n) att s = atomic_at k f s"
      by (cases "fst (atomic_at k f s)") (simp_all add: thenE_def doneE_def prod_eq_iff)
    with 1 show ?thesis by (intro disjI1 exI [of _ k]) simp
  next
    case 2
    define s' where "s' = s\<lparr>table := others 2 (table s)\<rparr>"
    have step: "casLoop (Suc n) att s = casLoop n att s'"
      using 2 by (simp add: thenE_def s'_def)
    from Suc [of s'] show ?thesis
    proof (elim disjE exE conjE)
      fix k assume "k \<le> 2 * n" "casLoop n att s' = atomic_at k f s'"
      then show ?thesis
        by (intro disjI1 exI [of _ "2 + k"]) (simp add: step s'_def atomic_at_others del: casLoop.simps)
    next
      assume "casLoop n att s' = exhausted_at (2 * n) s'"
      then show ?thesis
        by (intro disjI2) (simp add: step s'_def exhausted_at_def others_others del: casLoop.simps)
    qed
  qed
qed

text \<open>An attempt between whose read and conditional write the others change nothing lands.\<close>

lemma casLoop_lands:
  assumes "attempts att f" and "i < n"
    and "\<And>s'. table s' = others (2 * i) (table s) \<Longrightarrow> fst (att s') \<noteq> Inr None"
  shows "\<exists>k\<le>2 * n. casLoop n att s = atomic_at k f s"
  using assms(2,3)
proof (induction n arbitrary: i s)
  case (Suc n)
  consider k where "k \<le> 2" "att s = (map_sum id Some (fst (atomic_at k f s)), snd (atomic_at k f s))"
    | "att s = (Inr None, s\<lparr>table := others 2 (table s)\<rparr>)"
    using assms(1) by (auto simp: attempts_def)
  then show ?case
  proof cases
    case 1
    then have "casLoop (Suc n) att s = atomic_at k f s"
      by (cases "fst (atomic_at k f s)") (simp_all add: thenE_def doneE_def prod_eq_iff)
    with 1 show ?thesis by (intro exI [of _ k]) simp
  next
    case 2
    then have "i \<noteq> 0" using Suc.prems(2) [of s] by (metis mult_0_right others_0 fst_conv)
    then obtain j where j: "i = Suc j" by (cases i) simp_all
    define s' where "s' = s\<lparr>table := others 2 (table s)\<rparr>"
    have "fst (att u) \<noteq> Inr None" if "table u = others (2 * j) (table s')" for u
      using Suc.prems(2) [of u] that by (simp add: j s'_def others_others)
    from Suc.IH [OF _ this] Suc.prems(1) obtain k where k: "k \<le> 2 * n" "casLoop n att s' = atomic_at k f s'"
      by (auto simp: j)
    have "casLoop (Suc n) att s = casLoop n att s'"
      using 2 by (simp add: thenE_def s'_def)
    with k show ?thesis
      by (intro exI [of _ "2 + k"]) (simp add: s'_def atomic_at_others del: casLoop.simps)
  qed
qed simp

section \<open>The attempts of the counters\<close>

lemma racing_GET:
  "client (rc_GET (racing (ref_client ord zord)) pk) s =
     (Inr (map_option AvB (t_str (fst (others 1 (table s))) pk)), s\<lparr>table := others 1 (table s)\<rparr>)"
  by (simp add: run_client_def racing_def race_def ref_client_def ok_call_def)

lemma racing_HGET:
  "client (rc_HGET (racing (ref_client ord zord)) pk f) s =
     (Inr (map_option AvB (map_of (t_hash (fst (others 1 (table s))) pk) f)), s\<lparr>table := others 1 (table s)\<rparr>)"
  by (simp add: run_client_def racing_def race_def ref_client_def ok_call_def)

lemma racing_SETCAS:
  "client (rc_SETCAS (racing (ref_client ord zord)) pk new old ex) s =
     (let (t, ws) = others 1 (table s) in
      if t_str t pk = (if ex then Some old else None) then (Inr True, s\<lparr>table := (set_str pk (Some new) t, ws)\<rparr>)
      else (Inr False, s\<lparr>table := (t, ws)\<rparr>))"
  by (simp add: run_client_def racing_def race_def ref_client_def rf_SETCAS_def ok_call_def split: prod.split)

lemma racing_HSETCAS:
  "client (rc_HSETCAS (racing (ref_client ord zord)) pk f new old ex) s =
     (let (t, ws) = others 1 (table s) in
      if map_of (t_hash t pk) f = (if ex then Some old else None)
      then (Inr True, s\<lparr>table := (set_hash pk (AList.update f new (t_hash t pk)) t, ws)\<rparr>)
      else (Inr False, s\<lparr>table := (t, ws)\<rparr>))"
  by (simp add: run_client_def racing_def race_def ref_client_def rf_HSETCAS_def ok_call_def split: prod.split)

lemma incrAttempt_racing:
  "incrAttempt (racing (ref_client ord zord)) pk d s =
     (let u = t_str (fst (others 1 (table s))) pk; (t, ws) = others 2 (table s) in
      case (case u of None \<Rightarrow> Inr 0 | Some v \<Rightarrow> ParseInt v) of
        Inl _ \<Rightarrow> (Inl NotInteger, s\<lparr>table := others 1 (table s)\<rparr>)
      | Inr cur \<Rightarrow>
          if incr_overflows cur d then (Inl IncrOverflow, s\<lparr>table := others 1 (table s)\<rparr>)
          else if t_str t pk = u then (Inr (Some (cur + d)), s\<lparr>table := (set_str pk (Some (fmt_int (cur + d))) t, ws)\<rparr>)
          else (Inr None, s\<lparr>table := (t, ws)\<rparr>))"
proof -
  have two: "others (Suc 0) (others (Suc 0) (table s)) = others 2 (table s)" by (simp add: others_others numeral_2_eq_2)
  show ?thesis
    by (cases "t_str (fst (others 1 (table s))) pk")
      (auto simp: incrAttempt_def thenE_def doneE_def failE_def racing_GET racing_SETCAS parseStoredInt_eq or_nil_def two
        Let_def split: sum.split prod.split)
qed

lemma hincrAttempt_racing:
  "hincrAttempt (racing (ref_client ord zord)) pk f d s =
     (let u = map_of (t_hash (fst (others 1 (table s))) pk) f; (t, ws) = others 2 (table s) in
      case (case u of None \<Rightarrow> Inr 0 | Some v \<Rightarrow> ParseInt v) of
        Inl _ \<Rightarrow> (Inl HashNotInteger, s\<lparr>table := others 1 (table s)\<rparr>)
      | Inr cur \<Rightarrow>
          if incr_overflows cur d then (Inl IncrOverflow, s\<lparr>table := others 1 (table s)\<rparr>)
          else if map_of (t_hash t pk) f = u
          then (Inr (Some (cur + d, u = None)),
                s\<lparr>table := (set_hash pk (AList.update f (fmt_int (cur + d)) (t_hash t pk)) t, ws)\<rparr>)
          else (Inr None, s\<lparr>table := (t, ws)\<rparr>))"
proof -
  have two: "others (Suc 0) (others (Suc 0) (table s)) = others 2 (table s)" by (simp add: others_others numeral_2_eq_2)
  show ?thesis
    by (cases "map_of (t_hash (fst (others 1 (table s))) pk) f")
      (auto simp: hincrAttempt_def thenE_def doneE_def failE_def racing_HGET racing_HSETCAS parseStoredInt_eq or_nil_def two
        Let_def split: sum.split prod.split)
qed

text \<open>Both counters are attempts of one shape: they read \<open>g\<close>, and write iff it did not change.\<close>

lemma attemptsI:
  assumes f: "\<And>t. f t = (case p (g t) of Inl e \<Rightarrow> (Inl e, t) | Inr v \<Rightarrow> (Inr v, put v t))"
    and att: "\<And>s. att s = (let u = g (fst (others 1 (table s))); (t, ws) = others 2 (table s) in
        case p u of Inl e \<Rightarrow> (Inl e, s\<lparr>table := others 1 (table s)\<rparr>)
        | Inr v \<Rightarrow> if g t = u then (Inr (Some v), s\<lparr>table := (put v t, ws)\<rparr>) else (Inr None, s\<lparr>table := (t, ws)\<rparr>))"
  shows "attempts att f"
  unfolding attempts_def
proof
  fix s :: "tbl raced rstate"
  define u where "u = g (fst (others 1 (table s)))"
  note att' = att [of s, folded u_def, unfolded Let_def split_beta]
  show "(\<exists>k\<le>2. att s = (map_sum id Some (fst (atomic_at k f s)), snd (atomic_at k f s)))
      \<or> att s = (Inr None, s\<lparr>table := others 2 (table s)\<rparr>)"
  proof (cases "p u")
    case (Inl e)
    then have "att s = (map_sum id Some (fst (atomic_at 1 f s)), snd (atomic_at 1 f s))"
      by (simp add: att' atomic_at_def f u_def [symmetric] del: One_nat_def)
    then show ?thesis by (intro disjI1 exI [of _ 1]) simp
  next
    case (Inr v)
    show ?thesis
    proof (cases "g (fst (others 2 (table s))) = u")
      case True
      with Inr have "att s = (map_sum id Some (fst (atomic_at 2 f s)), snd (atomic_at 2 f s))"
        by (simp add: att' atomic_at_def f)
      then show ?thesis by (intro disjI1 exI [of _ 2]) simp
    next
      case False
      with Inr show ?thesis by (simp add: att')
    qed
  qed
qed

lemma attempts_incr: "attempts (incrAttempt (racing (ref_client ord zord)) pk d) (sp_IncrBy pk d)"
  by (rule attemptsI [where g = "\<lambda>t. t_str t pk"
        and p = "\<lambda>u. case (case u of None \<Rightarrow> Inr 0 | Some v \<Rightarrow> ParseInt v) of Inl _ \<Rightarrow> Inl NotInteger
          | Inr cur \<Rightarrow> if incr_overflows cur d then Inl IncrOverflow else Inr (cur + d)"
        and put = "\<lambda>n. set_str pk (Some (fmt_int n))"])
    (auto simp: sp_IncrBy_def incrAttempt_racing Let_def split: sum.split prod.split)

lemma incrFloatAttempt_racing:
  "incrFloatAttempt (racing (ref_client ord zord)) pk d s =
     (let u = t_str (fst (others 1 (table s))) pk; (t, ws) = others 2 (table s) in
      case (case u of None \<Rightarrow> Some (FZero False) | Some v \<Rightarrow> parseFloatArg v) of
        None \<Rightarrow> (Inl NotFloat, s\<lparr>table := others 1 (table s)\<rparr>)
      | Some cur \<Rightarrow>
          if \<not> finite64 (fadd cur d) then (Inl IncrNaNOrInfinity, s\<lparr>table := others 1 (table s)\<rparr>)
          else if t_str t pk = u
          then (Inr (Some (formatRedisFloat (fadd cur d))),
                s\<lparr>table := (set_str pk (Some (formatRedisFloat (fadd cur d))) t, ws)\<rparr>)
          else (Inr None, s\<lparr>table := (t, ws)\<rparr>))"
proof -
  have two: "others (Suc 0) (others (Suc 0) (table s)) = others 2 (table s)" by (simp add: others_others numeral_2_eq_2)
  show ?thesis
    unfolding float_finite
    by (cases "t_str (fst (others 1 (table s))) pk")
      (auto simp: incrFloatAttempt_def thenE_def doneE_def failE_def racing_GET racing_SETCAS parseStoredFloat_eq
        or_nil_def two Let_def split: option.split prod.split)
qed

lemma hincrFloatAttempt_racing:
  "hincrFloatAttempt (racing (ref_client ord zord)) pk f d s =
     (let u = map_of (t_hash (fst (others 1 (table s))) pk) f; (t, ws) = others 2 (table s) in
      case (case u of None \<Rightarrow> Some (FZero False) | Some v \<Rightarrow> parseFloatArg v) of
        None \<Rightarrow> (Inl HashNotFloat, s\<lparr>table := others 1 (table s)\<rparr>)
      | Some cur \<Rightarrow>
          if map_of (t_hash t pk) f = u
          then (Inr (Some (formatRedisFloat (fadd cur d), u = None)),
                s\<lparr>table := (set_hash pk (AList.update f (formatRedisFloat (fadd cur d)) (t_hash t pk)) t, ws)\<rparr>)
          else (Inr None, s\<lparr>table := (t, ws)\<rparr>))"
proof -
  have two: "others (Suc 0) (others (Suc 0) (table s)) = others 2 (table s)" by (simp add: others_others numeral_2_eq_2)
  show ?thesis
    by (cases "map_of (t_hash (fst (others 1 (table s))) pk) f")
      (auto simp: hincrFloatAttempt_def thenE_def doneE_def failE_def racing_HGET racing_HSETCAS parseStoredFloat_eq
        or_nil_def two Let_def split: option.split prod.split)
qed

lemma attempts_incr_float: "attempts (incrFloatAttempt (racing (ref_client ord zord)) pk d) (sp_IncrByFloat pk d)"
  by (rule attemptsI [where g = "\<lambda>t. t_str t pk"
        and p = "\<lambda>u. case (case u of None \<Rightarrow> Some (FZero False) | Some v \<Rightarrow> parseFloatArg v) of None \<Rightarrow> Inl NotFloat
          | Some cur \<Rightarrow> if \<not> finite64 (fadd cur d) then Inl IncrNaNOrInfinity else Inr (formatRedisFloat (fadd cur d))"
        and put = "\<lambda>b. set_str pk (Some b)"])
    (auto simp: sp_IncrByFloat_def incrFloatAttempt_racing Let_def split: option.split prod.split)

lemma attempts_hincr_float: "attempts (hincrFloatAttempt (racing (ref_client ord zord)) pk f d) (sp_HIncrByFloat pk f d)"
  by (rule attemptsI [where g = "\<lambda>t. map_of (t_hash t pk) f"
        and p = "\<lambda>u. case (case u of None \<Rightarrow> Some (FZero False) | Some v \<Rightarrow> parseFloatArg v) of None \<Rightarrow> Inl HashNotFloat
          | Some cur \<Rightarrow> Inr (formatRedisFloat (fadd cur d), u = None)"
        and put = "\<lambda>n t. set_hash pk (AList.update f (fst n) (t_hash t pk)) t"])
    (auto simp: sp_HIncrByFloat_def hincrFloatAttempt_racing Let_def split: option.split prod.split)

lemma attempts_hincr: "attempts (hincrAttempt (racing (ref_client ord zord)) pk f d) (sp_HIncrBy pk f d)"
  by (rule attemptsI [where g = "\<lambda>t. map_of (t_hash t pk) f"
        and p = "\<lambda>u. case (case u of None \<Rightarrow> Inr 0 | Some v \<Rightarrow> ParseInt v) of Inl _ \<Rightarrow> Inl HashNotInteger
          | Inr cur \<Rightarrow> if incr_overflows cur d then Inl IncrOverflow else Inr (cur + d, u = None)"
        and put = "\<lambda>n t. set_hash pk (AList.update f (fmt_int (fst n)) (t_hash t pk)) t"])
    (auto simp: sp_HIncrBy_def hincrAttempt_racing Let_def split: sum.split prod.split)

section \<open>No update is lost\<close>

text \<open>
  C38: INCRBY, DECRBY, INCRBYFLOAT, HINCRBY and HINCRBYFLOAT on the redimo-backed store are atomic whatever other writers do
  between any two of its DynamoDB calls: the reply and the only write are those of an increment of
  the value the key has at one instant of the schedule, so that no update is lost; or every one of
  the 50 attempts lost its race, then nothing is written and the exhaustion counter goes up.
\<close>
theorem increments_are_atomic:
  "((\<exists>k\<le>100. rs_IncrBy (racing (ref_client ord zord)) pk d s = atomic_at k (sp_IncrBy pk d) s)
     \<or> rs_IncrBy (racing (ref_client ord zord)) pk d s = exhausted_at 100 s)
   \<and> ((\<exists>k\<le>100. rs_HIncrBy (racing (ref_client ord zord)) pk f d s = atomic_at k (sp_HIncrBy pk f d) s)
     \<or> rs_HIncrBy (racing (ref_client ord zord)) pk f d s = exhausted_at 100 s)
   \<and> ((\<exists>k\<le>100. rs_IncrByFloat (racing (ref_client ord zord)) pk x s = atomic_at k (sp_IncrByFloat pk x) s)
     \<or> rs_IncrByFloat (racing (ref_client ord zord)) pk x s = exhausted_at 100 s)
   \<and> ((\<exists>k\<le>100. rs_HIncrByFloat (racing (ref_client ord zord)) pk f x s = atomic_at k (sp_HIncrByFloat pk f x) s)
     \<or> rs_HIncrByFloat (racing (ref_client ord zord)) pk f x s = exhausted_at 100 s)"
  using casLoop_atomic [OF attempts_incr, of MaxRMWRetries ord zord pk d s]
    casLoop_atomic [OF attempts_hincr, of MaxRMWRetries ord zord pk f d s]
    casLoop_atomic [OF attempts_incr_float, of MaxRMWRetries ord zord pk x s]
    casLoop_atomic [OF attempts_hincr_float, of MaxRMWRetries ord zord pk f x s]
  by (simp_all add: rs_IncrBy_def rs_HIncrBy_def rs_IncrByFloat_def rs_HIncrByFloat_def casRetry_def MaxRMWRetries_def)

text \<open>
  C39: An increment completes as soon as the others leave its value alone between the read and the
  conditional write of one of its 50 attempts.
\<close>
theorem increment_completes:
  assumes "i < 50"
    and "t_str (fst (others (2 * i + 2) (table s))) pk = t_str (fst (others (2 * i + 1) (table s))) pk"
  shows "\<exists>k\<le>100. rs_IncrBy (racing (ref_client ord zord)) pk d s = atomic_at k (sp_IncrBy pk d) s"
proof -
  have "fst (incrAttempt (racing (ref_client ord zord)) pk d u) \<noteq> Inr None" if "table u = others (2 * i) (table s)" for u
    using assms(2) that by (auto simp: incrAttempt_racing others_others Let_def split: sum.split prod.split)
  from casLoop_lands [OF attempts_incr, of i MaxRMWRetries s ord zord pk d, OF _ this] assms(1) show ?thesis
    by (simp add: rs_IncrBy_def casRetry_def MaxRMWRetries_def)
qed

text \<open>Another client stores 7 between the read and the write of the first attempt.\<close>

definition race_demo :: "tbl raced rstate" where
  "race_demo = \<lparr>table = (set_str ''k'' (Some ''1'') (empty_tbl 100), [id, set_str ''k'' (Some ''7'')]), rmwExhausted = 0\<rparr>"

theorem increment_completes_witness:
  "\<exists>k\<le>100. rs_IncrBy (racing (ref_client rev zlist)) ''k'' 1 race_demo = atomic_at k (sp_IncrBy ''k'' 1) race_demo"
  by (rule increment_completes [where i = 1]) (simp_all add: race_demo_def others_def eval_nat_numeral)

end
