(* ===== verification/Throttle.thy ===== *)
theory Throttle
  imports Store
begin

text \<open>
  The throttle decorator of the store (\<^verbatim>\<open>internal/storage/throttle.go\<close>) and the circuit breaker it feeds
  (\<^verbatim>\<open>internal/storage/breaker.go\<close>). Times are Unix nanoseconds; the clock is a function of the state of
  the wrapped store. The breaker's history is the list of the outcomes recorded so far.
\<close>

section \<open>The circuit breaker\<close>

record breaker =
  br_threshold :: int
  br_cooldown :: int
  br_failures :: int
  br_openUntil :: int
  br_trips :: int

definition NewCircuitBreaker :: "int \<Rightarrow> int \<Rightarrow> breaker" where
  "NewCircuitBreaker threshold cooldown =
     \<lparr>br_threshold = (if threshold < 1 then 1 else threshold), br_cooldown = cooldown,
      br_failures = 0, br_openUntil = 0, br_trips = 0\<rparr>"

text \<open>A nil breaker is \<open>None\<close>.\<close>

definition Record :: "int \<Rightarrow> bool \<Rightarrow> breaker option \<Rightarrow> breaker option" where
  "Record now throttled bo =
     (case bo of
        None \<Rightarrow> None
      | Some b \<Rightarrow>
          if \<not> throttled then Some (b\<lparr>br_failures := 0\<rparr>)
          else
            let f = br_failures b + 1 in
            if f \<ge> br_threshold b
            then Some (b\<lparr>br_failures := 0, br_openUntil := wrap64 (now + br_cooldown b), br_trips := br_trips b + 1\<rparr>)
            else Some (b\<lparr>br_failures := f\<rparr>))"

definition Open :: "int \<Rightarrow> breaker option \<Rightarrow> bool" where
  "Open now bo = (case bo of None \<Rightarrow> False | Some b \<Rightarrow> br_openUntil b \<noteq> 0 \<and> now < br_openUntil b)"

definition Trips :: "breaker option \<Rightarrow> int" where
  "Trips bo = (case bo of None \<Rightarrow> 0 | Some b \<Rightarrow> br_trips b)"

section \<open>Classification of errors\<close>

definition throttle_codes :: "string list" where
  "throttle_codes =
     [''ProvisionedThroughputExceededException'', ''ThrottlingException'', ''Throttling'', ''ThrottledException'',
      ''RequestLimitExceeded'', ''TooManyRequestsException'']"

definition IsThrottled :: "serr \<Rightarrow> bool" where
  "IsThrottled err =
     (case err of
        Throttled \<Rightarrow> True
      | Backend ProvisionedThroughputExceeded \<Rightarrow> True
      | Backend (APIError errorCode) \<Rightarrow> errorCode \<in> set throttle_codes
      | _ \<Rightarrow> False)"

section \<open>The decorator\<close>

record 's tstate =
  ts_inner :: 's
  ts_breaker :: "breaker option"
  ts_alerts :: nat

text \<open>
  \<open>hook\<close>: an alerting hook is configured; \<open>ts_alerts\<close> counts its calls. \<open>clock\<close> is the time at which the
  wrapped operation has returned.
\<close>

definition obs_err :: "bool \<Rightarrow> int \<Rightarrow> serr + 'a \<Rightarrow> 's tstate \<Rightarrow> (serr + 'a) \<times> 's tstate" where
  "obs_err hook now r s =
     (let throttled = (case r of Inl e \<Rightarrow> IsThrottled e | Inr _ \<Rightarrow> False);
          s' = s\<lparr>ts_breaker := Record now throttled (ts_breaker s)\<rparr> in
      if throttled then (Inl Throttled, if hook then s'\<lparr>ts_alerts := ts_alerts s' + 1\<rparr> else s')
      else (r, s'))"

definition watched :: "('s \<Rightarrow> int) \<Rightarrow> bool \<Rightarrow> ('s, 'a) op \<Rightarrow> ('s tstate, 'a) op" where
  "watched clock hook f s =
     (let r = f (ts_inner s) in obs_err hook (clock (snd r)) (fst r) (s\<lparr>ts_inner := snd r\<rparr>))"

definition throttleStore :: "('s \<Rightarrow> int) \<Rightarrow> bool \<Rightarrow> 's store \<Rightarrow> 's tstate store" where
  "throttleStore clock hook S =
     \<lparr>st_EnsureType = (\<lambda>pk ty d. watched clock hook (st_EnsureType S pk ty d)),
      st_EnsureTypeExpiring = (\<lambda>pk ty d n. watched clock hook (st_EnsureTypeExpiring S pk ty d n)),
      st_CreateTypeIfAbsent = (\<lambda>pk ty d n. watched clock hook (st_CreateTypeIfAbsent S pk ty d n)),
      st_LoadMeta = (\<lambda>pk. watched clock hook (st_LoadMeta S pk)),
      st_SetExpire = (\<lambda>pk e. watched clock hook (st_SetExpire S pk e)),
      st_Persist = (\<lambda>pk. watched clock hook (st_Persist S pk)),
      st_DeleteMeta = (\<lambda>pk. watched clock hook (st_DeleteMeta S pk)),
      st_DeleteMetaIfEmpty = (\<lambda>pk. watched clock hook (st_DeleteMetaIfEmpty S pk)),
      st_DeleteMembers = (\<lambda>pk. watched clock hook (st_DeleteMembers S pk)),
      st_GetString = (\<lambda>pk. watched clock hook (st_GetString S pk)),
      st_MGetStrings = (\<lambda>pks. watched clock hook (st_MGetStrings S pks)),
      st_SetString = (\<lambda>pk v. watched clock hook (st_SetString S pk v)),
      st_GetSetString = (\<lambda>pk v. watched clock hook (st_GetSetString S pk v)),
      st_SetStringIfEquals = (\<lambda>pk v old. watched clock hook (st_SetStringIfEquals S pk v old)),
      st_IncrBy = (\<lambda>pk n. watched clock hook (st_IncrBy S pk n)),
      st_LPush = (\<lambda>pk es. watched clock hook (st_LPush S pk es)),
      st_RPush = (\<lambda>pk es. watched clock hook (st_RPush S pk es)),
      st_LPop = (\<lambda>pk. watched clock hook (st_LPop S pk)),
      st_RPop = (\<lambda>pk. watched clock hook (st_RPop S pk)),
      st_LRange = (\<lambda>pk i j. watched clock hook (st_LRange S pk i j)),
      st_LIndex = (\<lambda>pk i. watched clock hook (st_LIndex S pk i)),
      st_LRangeAll = (\<lambda>pk. watched clock hook (st_LRangeAll S pk)),
      st_LReplaceAll = (\<lambda>pk es. watched clock hook (st_LReplaceAll S pk es)),
      st_HSet = (\<lambda>pk fs. watched clock hook (st_HSet S pk fs)),
      st_HSetNX = (\<lambda>pk f v. watched clock hook (st_HSetNX S pk f v)),
      st_HGet = (\<lambda>pk f. watched clock hook (st_HGet S pk f)),
      st_HMGet = (\<lambda>pk fs. watched clock hook (st_HMGet S pk fs)),
      st_HGetAll = (\<lambda>pk. watched clock hook (st_HGetAll S pk)),
      st_HKeys = (\<lambda>pk. watched clock hook (st_HKeys S pk)),
      st_HVals = (\<lambda>pk. watched clock hook (st_HVals S pk)),
      st_HDel = (\<lambda>pk fs. watched clock hook (st_HDel S pk fs)),
      st_HExists = (\<lambda>pk f. watched clock hook (st_HExists S pk f)),
      st_HStrlen = (\<lambda>pk f. watched clock hook (st_HStrlen S pk f)),
      st_HIncrBy = (\<lambda>pk f n. watched clock hook (st_HIncrBy S pk f n)),
      st_SAdd = (\<lambda>pk ms. watched clock hook (st_SAdd S pk ms)),
      st_SRem = (\<lambda>pk ms. watched clock hook (st_SRem S pk ms)),
      st_SIsMember = (\<lambda>pk m. watched clock hook (st_SIsMember S pk m)),
      st_SMembers = (\<lambda>pk. watched clock hook (st_SMembers S pk)),
      st_SPop = (\<lambda>pick pk n. watched clock hook (st_SPop S pick pk n)),
      st_SRandMember = (\<lambda>pick pk n. watched clock hook (st_SRandMember S pick pk n)),
      st_IncrByFloat = (\<lambda>pk x. watched clock hook (st_IncrByFloat S pk x)),
      st_HIncrByFloat = (\<lambda>pk f x. watched clock hook (st_HIncrByFloat S pk f x)),
      st_ZAdd = (\<lambda>pk ms. watched clock hook (st_ZAdd S pk ms)),
      st_ZRem = (\<lambda>pk ms. watched clock hook (st_ZRem S pk ms)),
      st_ZScore = (\<lambda>pk m. watched clock hook (st_ZScore S pk m)),
      st_ZIncrBy = (\<lambda>pk m x. watched clock hook (st_ZIncrBy S pk m x)),
      st_ZRangeByRank = (\<lambda>pk i j d. watched clock hook (st_ZRangeByRank S pk i j d)),
      st_ZRangeByScore = (\<lambda>pk mn mx d. watched clock hook (st_ZRangeByScore S pk mn mx d)),
      st_ZCount = (\<lambda>pk mn mx. watched clock hook (st_ZCount S pk mn mx)),
      st_ZRank = (\<lambda>pk m d. watched clock hook (st_ZRank S pk m d)),
      st_ZRemRangeByRank = (\<lambda>pk i j. watched clock hook (st_ZRemRangeByRank S pk i j)),
      st_ZRemRangeByScore = (\<lambda>pk mn mx. watched clock hook (st_ZRemRangeByScore S pk mn mx))\<rparr>"

definition newThrottleStore :: "'s \<Rightarrow> breaker option \<Rightarrow> 's tstate" where
  "newThrottleStore s b = \<lparr>ts_inner = s, ts_breaker = b, ts_alerts = 0\<rparr>"

section \<open>The decorator is transparent\<close>

text \<open>An operation of the contract never fails with a throttle.\<close>

definition not_throttled :: "(tbl, 'a) op \<Rightarrow> bool" where
  "not_throttled g \<longleftrightarrow> (\<forall>t e. fst (g t) = Inl e \<longrightarrow> \<not> IsThrottled e)"

lemma not_throttled_ops:
  "not_throttled (sp_EnsureType pk ty d)"
  "not_throttled (sp_EnsureTypeExpiring pk ty d n)"
  "not_throttled (sp_CreateTypeIfAbsent pk ty d n)"
  "not_throttled (sp_LoadMeta pk)"
  "not_throttled (sp_SetExpire pk e)"
  "not_throttled (sp_Persist pk)"
  "not_throttled (sp_DeleteMeta pk)"
  "not_throttled (sp_DeleteMetaIfEmpty pk)"
  "not_throttled (sp_DeleteMembers pk)"
  "not_throttled (sp_GetString pk)"
  "not_throttled (sp_MGetStrings pks)"
  "not_throttled (sp_SetString pk v)"
  "not_throttled (sp_GetSetString pk v)"
  "not_throttled (sp_SetStringIfEquals pk v old)"
  "not_throttled (sp_IncrBy pk n)"
  "not_throttled (sp_LPush pk es)"
  "not_throttled (sp_RPush pk es)"
  "not_throttled (sp_LPop pk)"
  "not_throttled (sp_RPop pk)"
  "not_throttled (sp_LRange pk i j)"
  "not_throttled (sp_LIndex pk i)"
  "not_throttled (sp_LRangeAll pk)"
  "not_throttled (sp_LReplaceAll pk es)"
  "not_throttled (sp_HSet pk fs)"
  "not_throttled (sp_HSetNX pk f v)"
  "not_throttled (sp_HGet pk f)"
  "not_throttled (sp_HMGet pk xs)"
  "not_throttled (sp_HGetAll pk)"
  "not_throttled (sp_HKeys pk)"
  "not_throttled (sp_HVals pk)"
  "not_throttled (sp_HDel pk xs)"
  "not_throttled (sp_HExists pk f)"
  "not_throttled (sp_HStrlen pk f)"
  "not_throttled (sp_HIncrBy pk f n)"
  "not_throttled (sp_SAdd pk ms)"
  "not_throttled (sp_SRem pk ms)"
  "not_throttled (sp_SIsMember pk m)"
  "not_throttled (sp_SMembers pk)"
  "not_throttled (sp_SPop pick pk n)"
  "not_throttled (sp_SRandMember pick pk n)"
  "not_throttled (sp_IncrByFloat pk fl)"
  "not_throttled (sp_HIncrByFloat pk f fl)"
  "not_throttled (sp_HIncrByFloat_checked pk f fl)"
  "not_throttled (sp_ZAdd pk zs)"
  "not_throttled (sp_ZRem pk ms)"
  "not_throttled (sp_ZScore pk m1)"
  "not_throttled (sp_ZIncrBy pk m1 fl)"
  "not_throttled (sp_ZRangeByRank pk i j desc)"
  "not_throttled (sp_ZRangeByScore pk mn mx desc)"
  "not_throttled (sp_ZCount pk mn mx)"
  "not_throttled (sp_ZRank pk m1 desc)"
  "not_throttled (sp_ZRemRangeByRank pk i j)"
  "not_throttled (sp_ZRemRangeByScore pk mn mx)"
  by (auto simp: not_throttled_def IsThrottled_def Let_def
    sp_EnsureType_def sp_EnsureTypeExpiring_def sp_CreateTypeIfAbsent_def sp_LoadMeta_def sp_SetExpire_def
    sp_Persist_def sp_DeleteMeta_def sp_DeleteMetaIfEmpty_def sp_DeleteMembers_def sp_GetString_def
    sp_MGetStrings_def sp_SetString_def sp_GetSetString_def sp_SetStringIfEquals_def sp_IncrBy_def
    sp_LPush_def sp_RPush_def sp_LPop_def sp_RPop_def sp_LRange_def
    sp_LIndex_def sp_LRangeAll_def sp_LReplaceAll_def sp_HSet_def sp_HSetNX_def
    sp_HGet_def sp_HMGet_def sp_HGetAll_def sp_HKeys_def sp_HVals_def
    sp_HDel_def sp_HExists_def sp_HStrlen_def sp_HIncrBy_def sp_SAdd_def
    sp_SRem_def sp_SIsMember_def sp_SMembers_def sp_SPop_def sp_SRandMember_def ValidationException_def throttle_codes_def
    sp_IncrByFloat_def sp_HIncrByFloat_def sp_HIncrByFloat_checked_def sp_ZAdd_def sp_ZRem_def sp_ZScore_def sp_ZIncrBy_def sp_ZRangeByRank_def sp_ZRangeByScore_def sp_ZCount_def sp_ZRank_def sp_ZRemRangeByRank_def sp_ZRemRangeByScore_def
    split: option.splits sum.splits list.splits if_splits)

lemma implements_watched:
  assumes "implements view f g" "not_throttled g"
  shows "implements (\<lambda>s. view (ts_inner s)) (watched clock hook f) g"
  unfolding implements_def
proof (intro allI)
  fix s :: "'a tstate"
  have f: "fst (f (ts_inner s)) = fst (g (view (ts_inner s)))" "view (snd (f (ts_inner s))) = snd (g (view (ts_inner s)))"
    using assms(1) by (auto simp: implements_def)
  have "\<not> (case fst (f (ts_inner s)) of Inl e \<Rightarrow> IsThrottled e | Inr _ \<Rightarrow> False)"
    using assms(2) by (auto simp: f not_throttled_def split: sum.split)
  then show "fst (watched clock hook f s) = fst (g (view (ts_inner s))) \<and>
      view (ts_inner (snd (watched clock hook f s))) = snd (g (view (ts_inner s)))"
    by (simp add: watched_def obs_err_def Let_def f)
qed

context store_core begin

lemma throttled_core: "store_core (throttleStore clock hook S) (\<lambda>s. view (ts_inner s)) (\<lambda>s. now (ts_inner s))"
proof unfold_locales
  fix pick pk n
  assume "fair_pick pick"
  from SPop [OF this, of pk n] obtain pick' where "fair_pick pick'"
      "implements view (st_SPop S pick pk n) (sp_SPop pick' pk n)"
    by blast
  then show "\<exists>pick'. fair_pick pick' \<and>
      implements (\<lambda>s. view (ts_inner s)) (st_SPop (throttleStore clock hook S) pick pk n) (sp_SPop pick' pk n)"
    by (intro exI [of _ pick']) (simp add: throttleStore_def implements_watched not_throttled_ops)
next
  fix pk f fl
  show "implements (\<lambda>s. view (ts_inner s)) (st_HIncrByFloat (throttleStore clock hook S) pk f fl) (sp_HIncrByFloat pk f fl) \<or>
      implements (\<lambda>s. view (ts_inner s)) (st_HIncrByFloat (throttleStore clock hook S) pk f fl) (sp_HIncrByFloat_checked pk f fl)"
    using HIncrByFloat [of pk f fl] by (auto simp: throttleStore_def implements_watched not_throttled_ops)
qed (simp_all add: throttleStore_def now core_ops LRange_core ZAdd ZIncrBy implements_watched not_throttled_ops)

end

context store_contract begin

lemma throttled: "store_contract (throttleStore clock hook S) (\<lambda>s. view (ts_inner s)) (\<lambda>s. now (ts_inner s))"
  by (intro store_contract.intro throttled_core store_contract_axioms.intro)
    (simp add: throttleStore_def LRange implements_watched not_throttled_ops)

end

interpretation throttled_mem: store_contract "throttleStore clock hook mem_store" ts_inner "\<lambda>s. t_time (ts_inner s)"
  by (rule mem.throttled)

section \<open>The breaker's history\<close>

text \<open>One outcome: when it was recorded, and whether it was a throttle. Newest first.\<close>

type_synonym outcome = "int \<times> bool"

fun after :: "breaker option \<Rightarrow> outcome list \<Rightarrow> breaker option" where
  "after b [] = b"
| "after b ((now, throttled) # older) = Record now throttled (after b older)"

text \<open>The throttles since the last other outcome, and the times at which their number reached a multiple of \<open>n\<close>.\<close>

definition streak :: "outcome list \<Rightarrow> int" where
  "streak hs = int (length (takeWhile snd hs))"

fun trip_times :: "int \<Rightarrow> outcome list \<Rightarrow> int list" where
  "trip_times n [] = []"
| "trip_times n ((now, throttled) # older) =
     (if throttled \<and> n dvd streak ((now, throttled) # older) then [now] else []) @ trip_times n older"

lemma after_history:
  assumes "n \<ge> 1"
  shows "after (Some (NewCircuitBreaker n cooldown)) hs =
    Some \<lparr>br_threshold = n, br_cooldown = cooldown, br_failures = streak hs mod n,
      br_openUntil = (case trip_times n hs of [] \<Rightarrow> 0 | now # _ \<Rightarrow> wrap64 (now + cooldown)),
      br_trips = int (length (trip_times n hs))\<rparr>"
proof (induction hs)
  case Nil
  then show ?case using assms by (simp add: NewCircuitBreaker_def streak_def)
next
  case (Cons h hs)
  obtain now throttled where h: "h = (now, throttled)" by (cases h)
  define s r where "s = streak hs" and "r = s mod n"
  have r: "0 \<le> r" "r < n" "(s + 1) mod n = (r + 1) mod n"
    using assms by (simp_all add: r_def mod_add_left_eq)
  have step: "r + 1 \<ge> n \<longleftrightarrow> n dvd s + 1" "\<not> n dvd s + 1 \<Longrightarrow> (s + 1) mod n = r + 1" "n dvd s + 1 \<Longrightarrow> (s + 1) mod n = 0"
  proof -
    show "r + 1 \<ge> n \<longleftrightarrow> n dvd s + 1"
    proof (cases "r + 1 = n")
      case True
      with r show ?thesis by (simp add: dvd_eq_mod_eq_0)
    next
      case False
      with r have "(s + 1) mod n = r + 1" by simp
      with r False show ?thesis by (simp add: dvd_eq_mod_eq_0)
    qed
    then show "\<not> n dvd s + 1 \<Longrightarrow> (s + 1) mod n = r + 1" using r by simp
  qed simp
  have streak: "streak ((now, True) # hs) = s + 1" "streak ((now, False) # hs) = 0"
    by (simp_all add: streak_def s_def)
  show ?case
    using step by (cases throttled) (simp_all add: h Cons.IH Record_def Let_def streak flip: s_def r_def)
qed

lemma burst_trips:
  assumes "\<forall>h\<in>set burst. snd h" and "1 \<le> k" "k \<le> int (length burst)" "n dvd streak hs + k"
  shows "\<exists>t\<in>fst ` set burst. \<exists>ts. trip_times n (burst @ hs) = t # ts"
  using assms(1,3)
proof (induction burst)
  case Nil
  then show ?case using assms(2) by simp
next
  case (Cons h burst)
  obtain now throttled where h: "h = (now, throttled)" by (cases h)
  have len: "takeWhile snd (burst @ hs) = burst @ takeWhile snd hs"
    using Cons.prems(1) by (simp add: takeWhile_append2)
  have s: "streak (h # burst @ hs) = streak hs + int (length burst) + 1"
    using Cons.prems(1) by (simp add: streak_def h len)
  show ?case
  proof (cases "n dvd streak (h # burst @ hs)")
    case True
    then show ?thesis using Cons.prems(1) by (simp add: h)
  next
    case False
    then have "k \<noteq> int (length burst) + 1" using assms(4) s by (auto simp: add.assoc)
    with Cons obtain t ts where "t \<in> fst ` set burst" "trip_times n (burst @ hs) = t # ts" by auto
    with False show ?thesis by (auto simp: h)
  qed
qed

lemma streak_multiple:
  assumes "n \<ge> 1"
  obtains k where "1 \<le> k" "k \<le> n" "n dvd streak hs + k"
proof
  have "0 \<le> streak hs mod n" "streak hs mod n < n" using assms by simp_all
  then show "1 \<le> n - streak hs mod n" "n - streak hs mod n \<le> n" by linarith+
  have "streak hs + (n - streak hs mod n) = (streak hs div n + 1) * n"
    by (simp add: algebra_simps minus_mod_eq_mult_div)
  then show "n dvd streak hs + (n - streak hs mod n)" by simp
qed

text \<open>
  A throttle at time \<open>s\<close> is a half-open probe when the last trip's cooldown is over and nothing but
  throttles was recorded since then. The comment of the breaker lets it re-open at once; the code
  counts a full streak again.
\<close>

definition half_open :: "int \<Rightarrow> int \<Rightarrow> int \<Rightarrow> outcome list \<Rightarrow> bool" where
  "half_open n cooldown s hs =
     (case trip_times n hs of
        [] \<Rightarrow> False
      | t # _ \<Rightarrow> t + cooldown \<le> s \<and> list_all (\<lambda>(u, throttled). t + cooldown \<le> u \<longrightarrow> throttled) hs)"

fun no_probe :: "int \<Rightarrow> int \<Rightarrow> outcome list \<Rightarrow> bool" where
  "no_probe n cooldown [] = True"
| "no_probe n cooldown ((s, throttled) # older) =
     (\<not> (throttled \<and> half_open n cooldown s older) \<and> no_probe n cooldown older)"

lemma no_half_open_probe:
  "\<not> no_probe 2 10 [(20, True), (2, True), (1, True)]"
  "\<not> Open 21 (after (Some (NewCircuitBreaker 2 10)) [(20, True), (2, True), (1, True)])"
  "Open 11 (after (Some (NewCircuitBreaker 2 10)) [(2, True), (1, True)])"
  by (simp_all add: NewCircuitBreaker_def Record_def Open_def wrap64_def half_open_def streak_def)

lemma breaker_open_iff:
  assumes "n \<ge> 1" and "cooldown \<ge> 0" and "\<forall>h\<in>set hs. 0 < fst h \<and> fst h + cooldown \<le> max_i64"
    and "b = after (Some (NewCircuitBreaker n cooldown)) hs"
  shows "(Open now b \<longleftrightarrow> (\<exists>t ts. trip_times n hs = t # ts \<and> now < t + cooldown))
    \<and> Trips b = int (length (trip_times n hs))"
proof -
  have "t \<in> set (trip_times n hs) \<Longrightarrow> t \<in> fst ` set hs" for t
    by (induction n hs rule: trip_times.induct) (auto split: if_splits)
  with assms(2,3) have bound: "0 < t \<and> t + cooldown \<le> max_i64" if "t \<in> set (trip_times n hs)" for t
    using that by fastforce
  have "wrap64 (t + cooldown) = t + cooldown \<and> t + cooldown \<noteq> 0" if "trip_times n hs = t # ts" for t ts
  proof -
    from that bound [of t] have "0 < t \<and> t + cooldown \<le> max_i64" by simp
    with assms(2) have "i64 (t + cooldown)" "t + cooldown \<noteq> 0" by (auto simp: i64_def)
    then show ?thesis by simp
  qed
  then show ?thesis
    by (auto simp: assms(4) after_history [OF assms(1)] Open_def Trips_def split: list.split)
qed

text \<open>
  C40: over a history of outcomes in which no throttle is a half-open probe (none is recorded after
  the cooldown of a trip before another outcome is), the circuit breaker trips exactly when the throttles
  since the last other outcome reach a multiple of its threshold, is open from the last trip for
  exactly the cooldown, and counts its trips. Times are positive and the cooldown does not reach
  past the range of nanoseconds.
\<close>
theorem breaker_opens_exactly:
  assumes "n \<ge> 1" and "cooldown \<ge> 0" and "\<forall>h\<in>set hs. 0 < fst h \<and> fst h + cooldown \<le> max_i64"
    and "no_probe n cooldown hs" and "b = after (Some (NewCircuitBreaker n cooldown)) hs"
  shows "(Open now b \<longleftrightarrow> (\<exists>t ts. trip_times n hs = t # ts \<and> now < t + cooldown))
    \<and> Trips b = int (length (trip_times n hs))"
  by (rule breaker_open_iff [OF assms(1-3,5)])

text \<open>
  A throttle storm is shed: whatever was recorded before, \<open>threshold\<close> throttles in a row open the
  breaker, which stays open until the cooldown from some of them has passed.
\<close>
lemma storm_opens_breaker:
  assumes "n \<ge> 1" and "cooldown \<ge> 0"
    and "\<forall>h\<in>set (burst @ hs). 0 < fst h \<and> fst h + cooldown \<le> max_i64"
    and "\<forall>h\<in>set burst. snd h \<and> now < fst h + cooldown" and "int (length burst) = n"
  shows "Open now (after (Some (NewCircuitBreaker n cooldown)) (burst @ hs))"
proof -
  obtain k where "1 \<le> k" "k \<le> n" "n dvd streak hs + k" using streak_multiple [OF assms(1)] .
  with burst_trips [of burst k n hs] assms(4,5) obtain t ts where
      "t \<in> fst ` set burst" "trip_times n (burst @ hs) = t # ts"
    by auto
  moreover from this have "0 < t" "t + cooldown \<le> max_i64" "now < t + cooldown" using assms(3,4) by auto
  moreover from this have "wrap64 (t + cooldown) = t + cooldown" using assms(2) by (intro wrap64_id) (simp add: i64_def)
  ultimately show ?thesis
    using assms(2) by (simp add: after_history [OF assms(1)] Open_def)
qed

theorem breaker_opens_exactly_witness:
  "Open 11 (after (Some (NewCircuitBreaker 2 10)) [(2, True), (1, True)])"
  using breaker_opens_exactly [of 2 10 "[(2, True), (1, True)]" _ 11, OF _ _ _ _ refl]
  by (simp add: streak_def half_open_def)

lemma storm_opens_breaker_instance:
  "Open 11 (after (Some (NewCircuitBreaker 2 10)) [(5, True), (4, True), (3, False), (2, True)])"
  using storm_opens_breaker [of 2 10 "[(5, True), (4, True)]" "[(3, False), (2, True)]" 11] by simp

end
