(* ===== verification/Stack.thy ===== *)
theory Stack
  imports RedimoSpec Racing Throttle Runtime
begin

text \<open>
  The store the process runs on (\<^verbatim>\<open>storage.New\<close>): the redimo-backed store under the throttle decorator.
  Over any client whose calls succeed and do what is documented of them it meets the contract of the
  storage seam but for negative indices of LRANGE, and the whole contract if the client counts those
  from the end of the list; the theorems on the command families are stated over that contract.
\<close>

record options =
  TableName :: bytes
  EventuallyConsistent :: bool
  DeleteBatchSize :: int
  OnThrottle :: bool
  Breaker :: "breaker option"

text \<open>\<open>mk\<close> is the construction of the redimo client: its table, if one is named, and its consistency.\<close>

definition NewStore :: "(bytes option \<Rightarrow> bool \<Rightarrow> 's redimo) \<Rightarrow> ('s \<Rightarrow> int) \<Rightarrow> options \<Rightarrow> 's rstate tstate store" where
  "NewStore mk clock opts =
     throttleStore (\<lambda>s. clock (table s)) (OnThrottle opts)
       (redimo_store (mk (if TableName opts \<noteq> '''' then Some (TableName opts) else None) (EventuallyConsistent opts))
         (DeleteBatchSize opts))"

definition NewState :: "'s \<Rightarrow> options \<Rightarrow> 's rstate tstate" where
  "NewState s opts = newThrottleStore \<lparr>table = s, rmwExhausted = 0\<rparr> (Breaker opts)"

definition stack_env :: "(bytes option \<Rightarrow> bool \<Rightarrow> 's redimo) \<Rightarrow> ('s \<Rightarrow> int) \<Rightarrow> ('s \<Rightarrow> int) \<Rightarrow> options \<Rightarrow> enqueuer \<Rightarrow> config
    \<Rightarrow> 's rstate tstate env" where
  "stack_env mk clock now opts q cfg =
     \<lparr>e_store = NewStore mk clock opts, e_now = (\<lambda>s. now (table (ts_inner s))), e_enq = q, e_cfg = cfg\<rparr>"

lemma NewStore_core:
  assumes "\<And>name ev. redimo_client (mk name ev) view now ord zord"
  shows "store_core (NewStore mk clock opts) (\<lambda>s. view (table (ts_inner s))) (\<lambda>s. now (table (ts_inner s)))"
  unfolding NewStore_def
  by (rule store_core.throttled_core) (rule redimo_client.redimo_store_core [OF assms])

lemma stack_env_conforms:
  assumes "\<And>name ev. redimo_client (mk name ev) view now ord zord"
    and "\<And>name ev pk i j. implements view (rc_LRANGE (mk name ev) pk i j) (rc_LRANGE (ref_client ord zord) pk i j)"
  shows "conforming_env (stack_env mk clock now opts q cfg) (\<lambda>s. view (table (ts_inner s)))"
proof -
  have "store_contract (redimo_store (mk name ev) batch) (\<lambda>s. view (table s)) (\<lambda>s. now (table s))" for name ev batch
    by (rule redimo_client.redimo_store_conforms [OF assms])
  from store_contract.throttled [OF this] show ?thesis
    unfolding conforming_env_def stack_env_def NewStore_def by simp
qed


definition opts0 :: options where
  "opts0 = \<lparr>TableName = ''t'', EventuallyConsistent = False, DeleteBatchSize = 0, OnThrottle = True,
     Breaker = Some (NewCircuitBreaker 5 1000)\<rparr>"


end
