(* ===== verification/Slowlog.thy ===== *)
theory Slowlog
  imports Resp
begin

text \<open>
  The slow-command ring (\<^verbatim>\<open>internal/metrics/slowlog.go\<close>) and the SLOWLOG command over it
  (\<^verbatim>\<open>internal/command/slowlog.go\<close> is in theory \<open>Dispatch\<close>). Times and durations are integers of
  nanoseconds; the zero \<^verbatim>\<open>time.Time\<close> is \<open>None\<close>. The ring behaves as the list of the retained
  entries, newest first, cut at the capacity.
\<close>

section \<open>State and operations\<close>

record slowlogEntry =
  se_ID :: int
  se_Time :: "int option"
  se_Duration :: int
  se_Command :: bytes
  se_Args :: "bytes list"

record slowLog =
  sl_threshold :: int
  sl_buf :: "slowlogEntry list"
  sl_head :: nat
  sl_size :: nat
  sl_nextID :: int

definition DefaultSlowlogCapacity :: nat where "DefaultSlowlogCapacity = 128"
definition MaxSlowlogArgs :: nat where "MaxSlowlogArgs = 32"
definition MaxSlowlogArgBytes :: nat where "MaxSlowlogArgBytes = 128"

definition zeroEntry :: slowlogEntry where
  "zeroEntry = \<lparr>se_ID = 0, se_Time = None, se_Duration = 0, se_Command = [], se_Args = []\<rparr>"

definition capArgBytes :: "bytes \<Rightarrow> bytes" where
  "capArgBytes arg =
     (if length arg \<le> MaxSlowlogArgBytes then arg
      else take MaxSlowlogArgBytes arg @ ''... ('' @ fmt_int (int (length arg - MaxSlowlogArgBytes)) @ '' more bytes)'')"

definition capArgs :: "bytes list \<Rightarrow> bytes list" where
  "capArgs args =
     (if args = [] then []
      else
        let truncatedArgs = length args > MaxSlowlogArgs;
            keep = (if truncatedArgs then MaxSlowlogArgs - 1 else length args);
            out = map capArgBytes (take keep args)
        in if truncatedArgs then out @ [''... ('' @ fmt_int (int (length args - keep)) @ '' more arguments)''] else out)"

definition NewSlowLog :: "int \<Rightarrow> int \<Rightarrow> slowLog" where
  "NewSlowLog cap threshold =
     \<lparr>sl_threshold = threshold,
      sl_buf = replicate (if cap \<le> 0 then DefaultSlowlogCapacity else nat cap) zeroEntry,
      sl_head = 0, sl_size = 0, sl_nextID = 0\<rparr>"

definition SlowLog_Record :: "int \<Rightarrow> slowlogEntry \<Rightarrow> slowLog \<Rightarrow> bool \<times> slowLog" where
  "SlowLog_Record now e s =
     (if se_Duration e < sl_threshold s then (False, s)
      else
        let e' = e\<lparr>se_Time := (case se_Time e of None \<Rightarrow> Some now | Some t \<Rightarrow> Some t),
                   se_ID := sl_nextID s, se_Args := capArgs (se_Args e)\<rparr>
        in (True,
            s\<lparr>sl_nextID := sl_nextID s + 1, sl_buf := (sl_buf s)[sl_head s := e'],
              sl_head := (sl_head s + 1) mod length (sl_buf s),
              sl_size := (if sl_size s < length (sl_buf s) then sl_size s + 1 else sl_size s)\<rparr>))"

definition SlowLog_Get :: "int \<Rightarrow> slowLog \<Rightarrow> slowlogEntry list" where
  "SlowLog_Get n s =
     (let cnt = (if n \<ge> 0 \<and> n < int (sl_size s) then nat n else sl_size s) in
      map (\<lambda>i. sl_buf s ! nat ((int (sl_head s) - 1 - int i + int (length (sl_buf s))) mod int (length (sl_buf s))))
        [0..<cnt])"

definition SlowLog_Len :: "slowLog \<Rightarrow> nat" where
  "SlowLog_Len s = sl_size s"

definition SlowLog_Reset :: "slowLog \<Rightarrow> slowLog" where
  "SlowLog_Reset s =
     s\<lparr>sl_buf := replicate (length (sl_buf s)) zeroEntry, sl_head := 0, sl_size := 0, sl_nextID := 0\<rparr>"

section \<open>The ring as a list\<close>

text \<open>The retained entries, newest first.\<close>

definition recent :: "slowLog \<Rightarrow> slowlogEntry list" where
  "recent s = SlowLog_Get (-1) s"

definition ring_inv :: "slowLog \<Rightarrow> bool" where
  "ring_inv s \<longleftrightarrow> 0 < length (sl_buf s) \<and> sl_head s < length (sl_buf s) \<and> sl_size s \<le> length (sl_buf s)"

lemma ring_inv_New [simp]: "ring_inv (NewSlowLog cap threshold)"
  by (simp add: ring_inv_def NewSlowLog_def DefaultSlowlogCapacity_def)

lemma recent_New [simp]: "recent (NewSlowLog cap threshold) = []"
  by (simp add: recent_def SlowLog_Get_def NewSlowLog_def)

lemma Get_recent: "SlowLog_Get n s = (if n < 0 then recent s else take (nat n) (recent s))"
  by (auto simp: recent_def SlowLog_Get_def Let_def take_map take_upt min_def)

lemma ring_inv_Record: "ring_inv s \<Longrightarrow> ring_inv (snd (SlowLog_Record now e s))"
  by (auto simp: ring_inv_def SlowLog_Record_def Let_def)

text \<open>The entry as it is stored.\<close>

definition stamped :: "int \<Rightarrow> slowlogEntry \<Rightarrow> int \<Rightarrow> slowlogEntry" where
  "stamped now e i =
     e\<lparr>se_Time := (case se_Time e of None \<Rightarrow> Some now | Some t \<Rightarrow> Some t), se_ID := i, se_Args := capArgs (se_Args e)\<rparr>"

text \<open>The slot of the entry \<open>i\<close> places before the newest.\<close>

definition slot :: "nat \<Rightarrow> nat \<Rightarrow> nat \<Rightarrow> nat" where
  "slot c h i = nat ((int h - 1 - int i + int c) mod int c)"

lemma slot_eq: "h < c \<Longrightarrow> i < c \<Longrightarrow> slot c h i = (if i < h then h - 1 - i else h + c - 1 - i)"
proof -
  assume h: "h < c" "i < c"
  show ?thesis
  proof (cases "i < h")
    case True
    then have "int h - 1 - int i + int c = int (h - 1 - i) + int c" by linarith
    then have "(int h - 1 - int i + int c) mod int c = int (h - 1 - i)"
      using h True by (simp add: mod_pos_pos_trivial)
    then show ?thesis using True by (simp add: slot_def)
  next
    case False
    then have "int h - 1 - int i + int c = int (h + c - 1 - i)" "h + c - 1 - i < c" using h by linarith+
    then have "(int h - 1 - int i + int c) mod int c = int (h + c - 1 - i)"
      by (simp add: mod_pos_pos_trivial del: of_nat_add of_nat_diff)
    then show ?thesis using False by (simp add: slot_def)
  qed
qed

lemma next_head: "(h :: nat) < c \<Longrightarrow> (h + 1) mod c = (if h + 1 = c then 0 else h + 1)"
  by (cases "h + 1 = c") simp_all

lemma slot_0:
  assumes "h < c"
  shows "slot c ((h + 1) mod c) 0 = h"
proof (cases "h + 1 = c")
  case True
  then show ?thesis using assms by (auto simp: next_head slot_eq)
next
  case False
  with assms show ?thesis by (simp add: next_head slot_eq del: Suc_eq_plus1)
qed

lemma slot_Suc:
  assumes "h < c" "Suc i < c"
  shows "slot c ((h + 1) mod c) (Suc i) = slot c h i"
proof (cases "h + 1 = c")
  case True
  with assms show ?thesis unfolding next_head [OF assms(1)] by (auto simp: slot_eq)
next
  case False
  with assms show ?thesis unfolding next_head [OF assms(1)] by (auto simp: slot_eq)
qed

lemma slot_neq: "h < c \<Longrightarrow> Suc i < c \<Longrightarrow> slot c h i \<noteq> h"
  by (subst slot_eq) auto

lemma take_upt_0: "take k [0..<n] = [0..<min n k]"
  by (cases "k \<le> n") simp_all

lemma recent_slots: "recent s = map (\<lambda>i. sl_buf s ! slot (length (sl_buf s)) (sl_head s) i) [0..<sl_size s]"
  by (simp add: recent_def SlowLog_Get_def slot_def)

text \<open>Recording conses, and drops the oldest entry of a full ring.\<close>

lemma recent_Record:
  assumes "ring_inv s"
  shows "recent (snd (SlowLog_Record now e s)) =
    (if se_Duration e < sl_threshold s then recent s
     else take (length (sl_buf s)) (stamped now e (sl_nextID s) # recent s))"
proof (cases "se_Duration e < sl_threshold s")
  case True
  then show ?thesis by (simp add: SlowLog_Record_def)
next
  case False
  let ?c = "length (sl_buf s)" and ?h = "sl_head s" and ?s' = "snd (SlowLog_Record now e s)"
  have inv: "0 < ?c" "?h < ?c" "sl_size s \<le> ?c" using assms by (simp_all add: ring_inv_def)
  have s': "sl_buf ?s' = (sl_buf s)[?h := stamped now e (sl_nextID s)]" "sl_head ?s' = (?h + 1) mod ?c"
      "sl_size ?s' = (if sl_size s < ?c then sl_size s + 1 else sl_size s)"
    using False by (simp_all add: SlowLog_Record_def stamped_def Let_def)
  obtain k where k: "sl_size ?s' = Suc k" "k < ?c" "k \<le> sl_size s" "k = min (?c - 1) (sl_size s)"
    using inv s'(3) by (cases "sl_size ?s'") (auto split: if_splits)
  have old: "sl_buf ?s' ! slot ?c ((?h + 1) mod ?c) (Suc i) = sl_buf s ! slot ?c ?h i" if "i < k" for i
    using that k(2) slot_Suc [OF inv(2), of i] slot_neq [OF inv(2), of i] by (simp add: s'(1) del: One_nat_def)
  have "recent ?s' = stamped now e (sl_nextID s) # map (\<lambda>i. sl_buf s ! slot ?c ?h i) [0..<k]"
    using inv k(1) old by (simp add: recent_slots s'(1,2) slot_0 [OF inv(2), simplified] upt_conv_Cons map_Suc_upt [symmetric] comp_def del: upt_Suc)
  also have "map (\<lambda>i. sl_buf s ! slot ?c ?h i) [0..<k] = take (?c - 1) (recent s)"
    by (simp add: recent_slots take_map take_upt_0 k(4) min.commute)
  finally show ?thesis using False inv(1) by (cases ?c) simp_all
qed

section \<open>The log as a list\<close>

text \<open>Recording a sequence of commands, oldest first, each with the time of the clock at its recording.\<close>

definition record_all :: "(int \<times> slowlogEntry) list \<Rightarrow> slowLog \<Rightarrow> slowLog" where
  "record_all es s = fold (\<lambda>(now, e) s. snd (SlowLog_Record now e s)) es s"

text \<open>The commands slow enough, numbered from 0, oldest first.\<close>

definition logged :: "int \<Rightarrow> (int \<times> slowlogEntry) list \<Rightarrow> slowlogEntry list" where
  "logged threshold es =
     (let slow = filter (\<lambda>(_, e). se_Duration e \<ge> threshold) es in
      map (\<lambda>i. stamped (fst (slow ! i)) (snd (slow ! i)) (int i)) [0..<length slow])"

lemma logged_snoc:
  "logged threshold (es @ [(now, e)]) =
    (if se_Duration e < threshold then logged threshold es
     else logged threshold es @ [stamped now e (int (length (logged threshold es)))])"
  by (auto simp: logged_def Let_def nth_append intro!: map_cong)

lemma record_all_log:
  "ring_inv (record_all es (NewSlowLog cap threshold)) \<and>
   sl_threshold (record_all es (NewSlowLog cap threshold)) = threshold \<and>
   length (sl_buf (record_all es (NewSlowLog cap threshold))) = (if cap \<le> 0 then 128 else nat cap) \<and>
   sl_nextID (record_all es (NewSlowLog cap threshold)) = int (length (logged threshold es)) \<and>
   recent (record_all es (NewSlowLog cap threshold)) =
     take (if cap \<le> 0 then 128 else nat cap) (rev (logged threshold es))"
proof (induction es rule: rev_induct)
  case Nil
  then show ?case
    using ring_inv_New [of cap threshold]
    by (simp add: record_all_def logged_def) (simp add: NewSlowLog_def DefaultSlowlogCapacity_def)
next
  case (snoc e es)
  obtain now en where e: "e = (now, en)" by (cases e)
  define s where "s = record_all es (NewSlowLog cap threshold)"
  have step: "record_all (es @ [e]) (NewSlowLog cap threshold) = snd (SlowLog_Record now en s)"
    by (simp add: record_all_def s_def e)
  note IH = snoc [folded s_def]
  have "sl_threshold (snd (SlowLog_Record now en s)) = sl_threshold s"
      "length (sl_buf (snd (SlowLog_Record now en s))) = length (sl_buf s)"
      "sl_nextID (snd (SlowLog_Record now en s)) = (if se_Duration en < sl_threshold s then sl_nextID s else sl_nextID s + 1)"
    by (simp_all add: SlowLog_Record_def Let_def)
  then show ?case
    using IH unfolding step
    by (auto simp: recent_Record ring_inv_Record e logged_snoc take_Cons' split: if_splits)
qed

text \<open>
  C36: The slow log is the list of the commands at or above the threshold, numbered in the order they
  were recorded and with their arguments bounded: \<open>Get n\<close> returns the newest \<open>n\<close> (all of them for a
  negative \<open>n\<close>) of the last 128, or of the last as many as were configured, newest first.
\<close>
theorem slowlog_is_list:
  "SlowLog_Get n (record_all es (NewSlowLog cap threshold)) =
     (let held = take (if cap \<le> 0 then 128 else nat cap) (rev (logged threshold es)) in
      if n < 0 then held else take (nat n) held)"
  unfolding Get_recent using record_all_log [of es cap threshold] by (simp add: Let_def)


end
