(* ===== verification/ScanStore.thy ===== *)
theory ScanStore
  imports Redimo Throttle
begin

text \<open>
  The paging operations of the storage seam and their redimo-backed implementation
  (\<^verbatim>\<open>internal/storage/store_scan.go\<close>). Pagination tokens of the backend are opaque, of any type; the
  calls of the redimo client are parameters.
\<close>

record ('s, 'k) scan_ops =
  st_ScanKeys :: "'k option \<Rightarrow> int \<Rightarrow> int \<Rightarrow> ('s, bytes list \<times> 'k option) op"
  st_HScan :: "bytes \<Rightarrow> 'k option \<Rightarrow> int \<Rightarrow> ('s, (bytes \<times> bytes) list \<times> 'k option) op"
  st_SScan :: "bytes \<Rightarrow> 'k option \<Rightarrow> int \<Rightarrow> ('s, bytes list \<times> 'k option) op"
  st_ZScan :: "bytes \<Rightarrow> 'k option \<Rightarrow> int \<Rightarrow> ('s, zmember list \<times> 'k option) op"

text \<open>The paging calls of the client, and \<^verbatim>\<open>ReturnValue.Bytes\<close>.\<close>

record ('s, 'k) redimo_pages =
  rc_ScanMetaKeys :: "int \<Rightarrow> 'k option \<Rightarrow> int \<Rightarrow> ('s, bytes list \<times> 'k option) cop"
  rc_HScanPage :: "bytes \<Rightarrow> int \<Rightarrow> 'k option \<Rightarrow> ('s, (bytes \<times> av) list \<times> 'k option) cop"
  rc_ZScanPage :: "bytes \<Rightarrow> int \<Rightarrow> 'k option \<Rightarrow> ('s, zmember list \<times> 'k option) cop"
  rv_Bytes :: "av \<Rightarrow> bytes"

definition rs_ScanKeys :: "('s, 'k) redimo_pages \<Rightarrow> 'k option \<Rightarrow> int \<Rightarrow> int \<Rightarrow> ('s rstate, bytes list \<times> 'k option) op" where
  "rs_ScanKeys P lek limit now = client (rc_ScanMetaKeys P limit lek now)"

definition rs_HScan ::
    "('s, 'k) redimo_pages \<Rightarrow> bytes \<Rightarrow> 'k option \<Rightarrow> int \<Rightarrow> ('s rstate, (bytes \<times> bytes) list \<times> 'k option) op" where
  "rs_HScan P pk lek limit =
     thenE (client (rc_HScanPage P pk limit lek)) (\<lambda>(page, lek').
       doneE (map (\<lambda>(f, v). (f, rv_Bytes P v)) page, lek'))"

definition rs_SScan ::
    "('s, 'k) redimo_pages \<Rightarrow> bytes \<Rightarrow> 'k option \<Rightarrow> int \<Rightarrow> ('s rstate, bytes list \<times> 'k option) op" where
  "rs_SScan P pk lek limit =
     thenE (client (rc_HScanPage P pk limit lek)) (\<lambda>(page, lek'). doneE (map fst page, lek'))"

definition rs_ZScan ::
    "('s, 'k) redimo_pages \<Rightarrow> bytes \<Rightarrow> 'k option \<Rightarrow> int \<Rightarrow> ('s rstate, zmember list \<times> 'k option) op" where
  "rs_ZScan P pk lek limit = client (rc_ZScanPage P pk limit lek)"

text \<open>The paging operations under the throttle decorator, as \<^verbatim>\<open>storage.New\<close> builds them.\<close>

definition redimo_scans :: "('s \<Rightarrow> int) \<Rightarrow> bool \<Rightarrow> ('s, 'k) redimo_pages \<Rightarrow> ('s rstate tstate, 'k) scan_ops" where
  "redimo_scans clock hook P =
     \<lparr>st_ScanKeys = (\<lambda>lek limit now. watched (\<lambda>s. clock (table s)) hook (rs_ScanKeys P lek limit now)),
      st_HScan = (\<lambda>pk lek limit. watched (\<lambda>s. clock (table s)) hook (rs_HScan P pk lek limit)),
      st_SScan = (\<lambda>pk lek limit. watched (\<lambda>s. clock (table s)) hook (rs_SScan P pk lek limit)),
      st_ZScan = (\<lambda>pk lek limit. watched (\<lambda>s. clock (table s)) hook (rs_ZScan P pk lek limit))\<rparr>"

text \<open>
  HSCAN renders values through \<^verbatim>\<open>Bytes\<close>, HGETALL through \<open>rvBytes\<close>: where \<^verbatim>\<open>Bytes\<close> is empty for values that
  are not Binary, as the comment of \<^verbatim>\<open>rvBytes\<close> says, a value stored by another producer as a string
  shows in one and is empty in the other.
\<close>

lemma hscan_drops_foreign_values:
  assumes "rv_Bytes P (AvS ''7'') = []" and "rc_HScanPage P pk limit lek (table s) = (Inr ([(''f'', AvS ''7'')], None), t)"
    and "rc_HGETALL R pk (table s) = (Inr [(''f'', AvS ''7'')], t)"
  shows "fst (rs_HScan P pk lek limit s) = Inr ([(''f'', [])], None)" and "fst (rs_HGetAll R pk s) = Inr [(''f'', ''7'')]"
  using assms by (simp_all add: rs_HScan_def rs_HGetAll_def thenE_def doneE_def run_client_def rvBytes_def)

end
