(* ===== verification/Hll.thy ===== *)
theory Hll
  imports BitCmds Float64
begin

unbundle bit_operations_syntax

text \<open>
  HyperLogLog (\<^verbatim>\<open>internal/command/hll.go\<close>): the hash, the dense registers packed six bits each into the
  String value, the cardinality estimate on doubles, and PFADD, PFCOUNT, PFMERGE and PFDEBUG. The
  logarithm of \<^verbatim>\<open>math\<close> is a parameter of the estimate. \<open>registers\<close> reads a value as the
  list of its registers, on which an addition is a maximum at one place and a merge a pointwise one.
\<close>

section \<open>The blob and its registers\<close>

definition hllP :: nat where "hllP = 14"
definition hllRegisters :: nat where "hllRegisters = 16384"
definition hllPMask :: "64 word" where "hllPMask = 16383"
definition hllBits :: nat where "hllBits = 6"
definition hllRegisterMax :: nat where "hllRegisterMax = 63"
definition hllQ :: nat where "hllQ = 50"
definition hllHdrSize :: nat where "hllHdrSize = 16"
definition hllRegBytes :: nat where "hllRegBytes = 12288"

abbreviation errHLLWrongType :: bytes where
  "errHLLWrongType \<equiv> ''WRONGTYPE Key is not a valid HyperLogLog string value.''"

definition newDenseHLL :: bytes where
  "newDenseHLL = ''HYLL'' @ replicate (hllHdrSize + hllRegBytes - 4) (CHR 0x00)"

definition isHLL :: "bytes \<Rightarrow> bool" where
  "isHLL blob \<longleftrightarrow>
     length blob \<ge> hllHdrSize \<and> blob ! 0 = CHR ''H'' \<and> blob ! 1 = CHR ''Y'' \<and> blob ! 2 = CHR ''L'' \<and>
     blob ! 3 = CHR ''L'' \<and> blob ! 4 = CHR 0x00 \<and> length blob = hllHdrSize + hllRegBytes"

definition byte64 :: "char \<Rightarrow> 64 word" where
  "byte64 c = ucast (byte_of_char c)"

definition denseGetRegister :: "bytes \<Rightarrow> nat \<Rightarrow> nat" where
  "denseGetRegister regs regnum =
     (let b = regnum * hllBits div 8; fb = regnum * hllBits mod 8;
          b0 = byte64 (regs ! b);
          b1 = (if b + 1 < length regs then byte64 (regs ! (b + 1)) else 0)
      in unat ((drop_bit fb b0 OR push_bit (8 - fb) b1) AND of_nat hllRegisterMax))"

definition denseSetRegister :: "bytes \<Rightarrow> nat \<Rightarrow> nat \<Rightarrow> bytes" where
  "denseSetRegister regs regnum val =
     (let b = regnum * hllBits div 8; fb = regnum * hllBits mod 8; fb8 = 8 - fb;
          v = of_nat val :: 64 word; mask = of_nat hllRegisterMax :: 8 word;
          c0 = byte_of_char (regs ! b) AND NOT (push_bit fb mask) OR ucast (push_bit fb v);
          regs' = regs[b := char_of_byte c0]
      in if b + 1 < length regs then
           let c1 = byte_of_char (regs ! (b + 1)) AND NOT (drop_bit fb8 mask) OR ucast (drop_bit fb8 v)
           in regs'[b + 1 := char_of_byte c1]
         else regs')"

section \<open>The hash of an element\<close>

definition le64 :: "bytes \<Rightarrow> 64 word" where
  "le64 bs = foldr (\<lambda>c w. push_bit 8 w OR byte64 c) bs 0"

definition murmur_m :: "64 word" where "murmur_m = 0xc6a4a7935bd1e995"
definition murmur_rsh :: nat where "murmur_rsh = 47"

primrec murmur_blocks :: "nat \<Rightarrow> bytes \<Rightarrow> 64 word \<Rightarrow> 64 word" where
  "murmur_blocks 0 data h = h"
| "murmur_blocks (Suc n) data h =
     (let k0 = le64 (take 8 data) * murmur_m;
          k = (k0 XOR drop_bit murmur_rsh k0) * murmur_m
      in murmur_blocks n (drop 8 data) ((h XOR k) * murmur_m))"

text \<open>The fall-through switch: the bytes of the tail from its last to its first, then one product.\<close>

definition murmur_tail :: "bytes \<Rightarrow> 64 word \<Rightarrow> 64 word" where
  "murmur_tail tail h =
     (if tail = [] then h
      else foldl (\<lambda>h i. h XOR push_bit (8 * i) (byte64 (tail ! i))) h (rev [0..<length tail]) * murmur_m)"

definition murmur64A :: "bytes \<Rightarrow> 64 word \<Rightarrow> 64 word" where
  "murmur64A data seed =
     (let n = length data div 8;
          h0 = seed XOR (of_nat (length data) * murmur_m);
          h1 = murmur_tail (drop (n * 8) data) (murmur_blocks n data h0);
          h2 = (h1 XOR drop_bit murmur_rsh h1) * murmur_m
      in h2 XOR drop_bit murmur_rsh h2)"

text \<open>The loop \<^verbatim>\<open>for hash&bit == 0\<close> with \<^verbatim>\<open>bit = 1 << k\<close>; \<open>hllPatLen_loop\<close> shows the fuel is enough.\<close>

primrec patlen_loop :: "nat \<Rightarrow> 64 word \<Rightarrow> nat \<Rightarrow> nat option" where
  "patlen_loop 0 hash k = None"
| "patlen_loop (Suc n) hash k =
     (if hash AND push_bit k 1 = 0 then patlen_loop n hash (k + 1) else Some (k + 1))"

definition hllPatLen :: "bytes \<Rightarrow> nat \<times> nat" where
  "hllPatLen ele =
     (let hash = murmur64A ele 0xadc83b19;
          index = unat (hash AND hllPMask);
          hash' = drop_bit hllP hash OR push_bit hllQ 1
      in (case patlen_loop 64 hash' 0 of Some n \<Rightarrow> n | None \<Rightarrow> 0, index))"

section \<open>Adding, merging, counting\<close>

definition hllAdd :: "bytes \<Rightarrow> bytes \<Rightarrow> bytes \<times> bool" where
  "hllAdd regs ele =
     (let (patlen, index) = hllPatLen ele in
      if patlen > denseGetRegister regs index then (denseSetRegister regs index patlen, True)
      else (regs, False))"

definition hllMergeInto :: "bytes \<Rightarrow> bytes \<Rightarrow> bytes" where
  "hllMergeInto dst src =
     foldl (\<lambda>d i. let s = denseGetRegister src i in
              if s > denseGetRegister d i then denseSetRegister d i s else d) dst [0..<hllRegisters]"

text \<open>The sum and the number of zero registers.\<close>

definition hllSum :: "bytes \<Rightarrow> f64 \<times> nat" where
  "hllSum regs =
     foldl (\<lambda>(e, ez) j.
       let reg = denseGetRegister regs j in
       if reg = 0 then (e, ez + 1)
       else (fadd e (fdiv (f64_of_int 1) (f64_of_int (2 ^ reg))), ez)) (FZero False, 0) [0..<hllRegisters]"

definition hllCount :: "mathlib \<Rightarrow> bytes \<Rightarrow> int" where
  "hllCount M regs =
     (let m = f64_of_int (int hllRegisters);
          alpha = fdiv (f64_of_ratio 7213 10000) (fadd (f64_of_int 1) (fdiv (f64_of_ratio 1079 1000) m));
          (s, ez) = hllSum regs;
          e0 = fadd s (f64_of_int (int ez));
          e1 = fmul (fmul (fmul (fdiv (f64_of_int 1) e0) alpha) m) m;
          e2 =
            (if flt e1 (fmul m (f64_of_ratio 5 2)) \<and> ez \<noteq> 0 then fmul m (math_Log M (fdiv m (f64_of_int (int ez))))
             else if feq m (f64_of_int 16384) \<and> flt e1 (f64_of_int 72000) then
               let ee = fmul e1 e1;
                   bias =
                     fadd (fsub (fadd (fsub (fmul (f64_of_ratio 59119 (10 ^ 22)) (fmul (fmul ee e1) e1))
                                            (fmul (f64_of_ratio 14253 (10 ^ 16)) (fmul ee e1)))
                                      (fmul (f64_of_ratio 12940 (10 ^ 11)) ee))
                                (fmul (f64_of_ratio 52921 (10 ^ 7)) e1))
                          (f64_of_ratio 833216 10000)
               in fsub e1 (fmul e1 (fdiv bias (f64_of_int 100)))
             else e1)
      in trunc64 e2)"

section \<open>Registers as a list\<close>

text \<open>A value is read as a bit string, least significant bit of byte 0 first.\<close>

definition lbit :: "bytes \<Rightarrow> nat \<Rightarrow> bool" where
  "lbit regs p \<longleftrightarrow> p div 8 < length regs \<and> bit (byte_of_char (regs ! (p div 8))) (p mod 8)"

lemma bit_byte64: "bit (byte64 c) k \<longleftrightarrow> bit (byte_of_char c) k"
  using bit_imp_le_length [of "byte_of_char c" k] by (auto simp: byte64_def bit_ucast_iff)

lemma bit_63: "bit (63 :: int) k \<longleftrightarrow> k < 6"
proof -
  have "(63 :: int) = mask 6" by (simp add: mask_eq_exp_minus_1)
  then show ?thesis by (simp only: bit_mask_iff) auto
qed

lemma byte_pos:
  fixes n k :: nat
  defines "b \<equiv> n * 6 div 8" and "fb \<equiv> n * 6 mod 8"
  shows "k < 8 - fb \<Longrightarrow> (6 * n + k) div 8 = b \<and> (6 * n + k) mod 8 = fb + k"
    and "8 - fb \<le> k \<Longrightarrow> k < 8 \<Longrightarrow> (6 * n + k) div 8 = b + 1 \<and> (6 * n + k) mod 8 = k - (8 - fb)"
proof -
  have "6 * n = 8 * b + fb" "fb < 8" unfolding b_def fb_def by presburger+
  then have e: "6 * n + k = fb + k + 8 * b" by simp
  show "k < 8 - fb \<Longrightarrow> (6 * n + k) div 8 = b \<and> (6 * n + k) mod 8 = fb + k"
    unfolding e by simp
  assume k: "8 - fb \<le> k" "k < 8"
  then have "6 * n + k = (k - (8 - fb)) + 8 * (b + 1)" using e \<open>fb < 8\<close> by simp
  moreover have "k - (8 - fb) < 8" using k by simp
  ultimately show "(6 * n + k) div 8 = b + 1 \<and> (6 * n + k) mod 8 = k - (8 - fb)"
    by (simp only: div_mult_self2 mod_mult_self2) simp
qed

lemma bit_denseGetRegister:
  assumes "n * 6 div 8 < length regs"
  shows "bit (denseGetRegister regs n) k \<longleftrightarrow> k < 6 \<and> lbit regs (6 * n + k)"
proof (cases "k < 6")
  case False
  have "\<exists>x. denseGetRegister regs n = unat (x AND 63 :: 64 word)"
    by (simp only: denseGetRegister_def Let_def hllRegisterMax_def of_nat_numeral) blast
  with False show ?thesis by (auto simp: bit_unsigned_iff bit_and_iff bit_63)
next
  case k: True
  define b fb where "b = n * 6 div 8" and "fb = n * 6 mod 8"
  have fb: "fb < 8" by (simp add: fb_def)
  have reg: "bit (denseGetRegister regs n) k \<longleftrightarrow>
      bit (byte64 (regs ! b)) (fb + k) \<or> 8 - fb \<le> k \<and> b + 1 < length regs \<and> bit (byte64 (regs ! (b + 1))) (k - (8 - fb))"
    using k by (simp add: denseGetRegister_def Let_def hllRegisterMax_def hllBits_def bit_unsigned_iff bit_and_iff
        bit_or_iff bit_63 bit_drop_bit_eq bit_push_bit_iff b_def fb_def)
  show ?thesis
  proof (cases "k < 8 - fb")
    case True
    with k assms byte_pos(1) [of k n] show ?thesis
      unfolding reg by (simp add: lbit_def bit_byte64 b_def fb_def)
  next
    case False
    then have "\<not> bit (byte_of_char (regs ! b)) (fb + k)"
      using bit_imp_le_length [of "byte_of_char (regs ! b)" "fb + k"] by auto
    with False k byte_pos(2) [of n k] show ?thesis
      unfolding reg by (simp add: lbit_def bit_byte64 b_def fb_def)
  qed
qed

lemma length_denseSetRegister [simp]: "length (denseSetRegister regs n v) = length regs"
  by (simp add: denseSetRegister_def Let_def)

lemma bit_small: "v < 64 \<Longrightarrow> bit (v :: nat) k \<Longrightarrow> k < 6"
proof (rule ccontr)
  assume "v < 64" and b: "bit v k" and "\<not> k < 6"
  then have "v < 2 ^ k" using power_increasing [of 6 k "2 :: nat"] by simp
  then show False using b by (simp add: bit_iff_odd)
qed

lemma lbit_denseSetRegister:
  assumes "v < 64" and "n * 6 div 8 < length regs" and "p < 8 * length regs"
  shows "lbit (denseSetRegister regs n v) p \<longleftrightarrow>
    (if 6 * n \<le> p \<and> p < 6 * n + 6 then bit v (p - 6 * n) else lbit regs p)"
proof -
  define b fb where "b = n * 6 div 8" and "fb = n * 6 mod 8"
  have fb: "fb < 8" and six: "6 * n = 8 * b + fb" unfolding b_def fb_def by presburger+
  define q j where "q = p div 8" and "j = p mod 8"
  have j: "j < 8" and p: "p = 8 * q + j" by (simp_all add: q_def j_def)
  have q: "q < length regs" using assms(3) by (simp add: q_def less_mult_imp_div_less mult.commute)
  have vbit: "bit (of_nat v :: 64 word) k \<longleftrightarrow> bit v k" for k
    using bit_small [OF assms(1), of k] by (auto simp: bit_of_nat_iff)
  let ?set = "denseSetRegister regs n v"
  have at_b: "bit (byte_of_char (?set ! b)) j \<longleftrightarrow>
      (if fb \<le> j \<and> j < fb + 6 then bit v (j - fb) else bit (byte_of_char (regs ! b)) j)"
    if "b < length regs"
    using that j bit_small [OF assms(1), of "j - fb"]
    by (auto simp: denseSetRegister_def Let_def hllBits_def hllRegisterMax_def b_def fb_def bit_and_iff bit_or_iff
        bit_not_iff bit_push_bit_iff bit_ucast_iff bit_63 vbit nth_list_update)
  have at_b1: "bit (byte_of_char (?set ! (b + 1))) j \<longleftrightarrow>
      (if j < fb + 6 - 8 then bit v (8 - fb + j) else bit (byte_of_char (regs ! (b + 1))) j)"
    if "b + 1 < length regs"
    using that j fb bit_small [OF assms(1), of "8 - fb + j"]
    by (auto simp: denseSetRegister_def Let_def hllBits_def hllRegisterMax_def b_def fb_def bit_and_iff bit_or_iff
        bit_not_iff bit_drop_bit_eq bit_ucast_iff bit_63 vbit nth_list_update)
  have other: "q \<noteq> b \<Longrightarrow> q \<noteq> b + 1 \<Longrightarrow> ?set ! q = regs ! q"
    by (simp add: denseSetRegister_def Let_def b_def hllBits_def nth_list_update)
  have lb: "length xs = length regs \<Longrightarrow> lbit xs p \<longleftrightarrow> bit (byte_of_char (xs ! q)) j" for xs
    using q by (simp add: lbit_def q_def j_def)
  note here = lb [OF refl] lb [OF length_denseSetRegister]
  consider "q = b" | "q = b + 1" | "q < b \<or> b + 1 < q" by linarith
  then show ?thesis
  proof cases
    case 1
    then have "(6 * n \<le> p \<and> p < 6 * n + 6) = (fb \<le> j \<and> j < fb + 6)" "p - 6 * n = j - fb"
      using p six by auto
    with at_b q 1 show ?thesis unfolding here by simp
  next
    case 2
    then have "(6 * n \<le> p \<and> p < 6 * n + 6) = (j < fb + 6 - 8)" "p - 6 * n = 8 - fb + j"
      using p six fb by auto
    with at_b1 q 2 show ?thesis unfolding here by simp
  next
    case 3
    then have "\<not> (6 * n \<le> p \<and> p < 6 * n + 6)" using p six j fb by auto
    with other 3 show ?thesis unfolding here by auto
  qed
qed

definition registers :: "bytes \<Rightarrow> nat list" where
  "registers regs = map (denseGetRegister regs) [0..<hllRegisters]"

definition dense :: "bytes \<Rightarrow> bool" where
  "dense regs \<longleftrightarrow> length regs = hllRegBytes"

lemma register_byte: "dense regs \<Longrightarrow> n < hllRegisters \<Longrightarrow> n * 6 div 8 < length regs"
  by (simp add: dense_def hllRegBytes_def hllRegisters_def)

lemma dense_set [simp]: "dense (denseSetRegister regs n v) = dense regs"
  by (simp add: dense_def)

lemma denseGetRegister_less: "n * 6 div 8 < length regs \<Longrightarrow> denseGetRegister regs n < 64"
proof -
  assume "n * 6 div 8 < length regs"
  then have "take_bit 6 (denseGetRegister regs n) = denseGetRegister regs n"
    by (intro bit_eqI) (auto simp: bit_take_bit_iff bit_denseGetRegister)
  then show ?thesis
    using take_bit_nat_less_exp [of 6 "denseGetRegister regs n"] by simp
qed

lemma denseGet_denseSet:
  assumes "dense regs" and "n < hllRegisters" and "i < hllRegisters" and "v < 64"
  shows "denseGetRegister (denseSetRegister regs n v) i = (if i = n then v else denseGetRegister regs i)"
proof (rule bit_eqI)
  fix k
  note here = register_byte [OF assms(1)]
  have inside: "6 * i + k < 8 * length regs" if "k < 6"
    using that assms(1,3) by (simp add: dense_def hllRegBytes_def hllRegisters_def)
  show "bit (denseGetRegister (denseSetRegister regs n v) i) k \<longleftrightarrow>
      bit (if i = n then v else denseGetRegister regs i) k"
  proof (cases "k < 6")
    case True
    have "6 * n \<le> 6 * i + k \<and> 6 * i + k < 6 * n + 6 \<longleftrightarrow> i = n" using True by auto
    with True show ?thesis
      using here [OF assms(2)] here [OF assms(3)]
      by (simp add: bit_denseGetRegister lbit_denseSetRegister [OF assms(4) _ inside])
  next
    case False
    then show ?thesis
      using here [OF assms(3)] bit_small [OF assms(4)] by (auto simp: bit_denseGetRegister)
  qed
qed

lemma length_registers [simp]: "length (registers regs) = hllRegisters"
  by (simp add: registers_def)

lemma registers_nth: "i < hllRegisters \<Longrightarrow> registers regs ! i = denseGetRegister regs i"
  by (simp add: registers_def)

lemma registers_set:
  assumes "dense regs" and "n < hllRegisters" and "v < 64"
  shows "registers (denseSetRegister regs n v) = (registers regs)[n := v]"
  by (rule nth_equalityI) (simp_all add: registers_nth denseGet_denseSet assms nth_list_update)

lemma registers_bound: "dense regs \<Longrightarrow> r \<in> set (registers regs) \<Longrightarrow> r < 64"
  unfolding registers_def using denseGetRegister_less register_byte by auto

text \<open>The registers determine the value.\<close>

lemma registers_inj:
  assumes "dense a" and "dense b" and "registers a = registers b"
  shows "a = b"
proof (rule nth_equalityI)
  show "length a = length b" using assms(1,2) by (simp add: dense_def)
  fix i assume i: "i < length a"
  have "byte_of_char (a ! i) = byte_of_char (b ! i)"
  proof (rule bit_word_eqI)
    fix k assume "k < LENGTH(8)"
    then have k: "k < 8" by simp
    let ?p = "8 * i + k"
    have n: "?p div 6 < hllRegisters"
      using i k assms(1) by (simp add: dense_def hllRegBytes_def hllRegisters_def)
    have p: "6 * (?p div 6) + ?p mod 6 = ?p" by presburger
    have "denseGetRegister a (?p div 6) = denseGetRegister b (?p div 6)"
      using assms(3) registers_nth [OF n] by metis
    then have "lbit a ?p = lbit b ?p"
      using bit_denseGetRegister [OF register_byte [OF assms(1) n], of "?p mod 6"]
        bit_denseGetRegister [OF register_byte [OF assms(2) n], of "?p mod 6"] by (simp only: p) simp
    then show "bit (byte_of_char (a ! i)) k = bit (byte_of_char (b ! i)) k"
      using i k assms(1,2) by (simp add: lbit_def dense_def)
  qed
  then have "code (a ! i) = code (b ! i)" by (metis unat_byte_of_char)
  then show "a ! i = b ! i" by simp
qed

section \<open>The element hash and the additions on registers\<close>

lemma patlen_loop_bound:
  "bit h 50 \<Longrightarrow> k \<le> 50 \<Longrightarrow> 50 - k < n \<Longrightarrow> \<exists>m. patlen_loop n h k = Some m \<and> k < m \<and> m \<le> 51"
proof (induction n arbitrary: k)
  case (Suc n)
  show ?case
  proof (cases "h AND push_bit k 1 = 0")
    case True
    then have "\<not> bit h k" using Suc.prems(2)
      by (metis and_exp_eq_0_iff_not_bit push_bit_of_1)
    with Suc.prems have "k \<noteq> 50" by auto
    with True Suc.IH [of "k + 1"] Suc.prems show ?thesis by fastforce
  qed (use Suc.prems in simp)
qed simp

lemma hllPatLen_bounds:
  assumes "hllPatLen ele = (m, i)"
  shows "0 < m" "m \<le> 51" "i < hllRegisters"
proof -
  let ?h = "drop_bit hllP (murmur64A ele 0xadc83b19) OR push_bit hllQ 1"
  have "bit ?h 50" by (simp add: bit_or_iff bit_push_bit_iff hllQ_def)
  from patlen_loop_bound [OF this, of 0 64] obtain p where "patlen_loop 64 ?h 0 = Some p" "0 < p" "p \<le> 51"
    by auto
  then show "0 < m" "m \<le> 51" using assms by (auto simp: hllPatLen_def Let_def)
  have "unat (murmur64A ele 0xadc83b19 AND hllPMask) \<le> unat hllPMask"
    by (metis word_and_le1 word_le_nat_alt)
  then show "i < hllRegisters" using assms by (auto simp: hllPatLen_def Let_def hllPMask_def hllRegisters_def)
qed

text \<open>The abstract addition: a maximum at the element's register.\<close>

definition reg_add :: "nat list \<Rightarrow> bytes \<Rightarrow> nat list" where
  "reg_add rs ele = (let (m, i) = hllPatLen ele in rs[i := max (rs ! i) m])"

definition reg_merge :: "nat list \<Rightarrow> nat list \<Rightarrow> nat list" where
  "reg_merge rs qs = map2 max rs qs"

lemma hllAdd_registers:
  assumes "dense regs"
  shows "registers (fst (hllAdd regs ele)) = reg_add (registers regs) ele"
    and "snd (hllAdd regs ele) \<longleftrightarrow> reg_add (registers regs) ele \<noteq> registers regs"
    and "dense (fst (hllAdd regs ele))"
proof -
  obtain m i where p: "hllPatLen ele = (m, i)" by (cases "hllPatLen ele")
  note b = hllPatLen_bounds [OF p]
  have old: "registers regs ! i = denseGetRegister regs i" using b(3) by (rule registers_nth)
  have keep: "(registers regs)[i := denseGetRegister regs i] = registers regs" by (metis old list_update_id)
  have chg: "(registers regs)[i := m] \<noteq> registers regs" if "denseGetRegister regs i < m"
    using that old b(3) by (metis length_registers less_irrefl nth_list_update_eq)
  show "registers (fst (hllAdd regs ele)) = reg_add (registers regs) ele"
    using assms b by (auto simp: hllAdd_def p reg_add_def registers_set old max_def keep)
  show "snd (hllAdd regs ele) \<longleftrightarrow> reg_add (registers regs) ele \<noteq> registers regs"
    using chg by (auto simp: hllAdd_def p reg_add_def old max_def keep)
  show "dense (fst (hllAdd regs ele))"
    using assms by (simp add: hllAdd_def p)
qed

lemma hllMergeInto_registers:
  assumes "dense dst" and "dense src"
  shows "registers (hllMergeInto dst src) = reg_merge (registers dst) (registers src)"
    and "dense (hllMergeInto dst src)"
proof -
  define f where "f = (\<lambda>d i. let s = denseGetRegister src i in
    if s > denseGetRegister d i then denseSetRegister d i s else d)"
  have inv: "m \<le> hllRegisters \<Longrightarrow> dense (foldl f dst [0..<m]) \<and>
      (\<forall>j < hllRegisters. denseGetRegister (foldl f dst [0..<m]) j =
        (if j < m then max (denseGetRegister dst j) (denseGetRegister src j) else denseGetRegister dst j))" for m
  proof (induction m)
    case (Suc m)
    define d where "d = foldl f dst [0..<m]"
    from Suc have m: "m < hllRegisters" and IH: "dense d"
      "\<forall>j < hllRegisters. denseGetRegister d j =
        (if j < m then max (denseGetRegister dst j) (denseGetRegister src j) else denseGetRegister dst j)"
      by (auto simp: d_def)
    have s: "denseGetRegister src m < 64" by (rule denseGetRegister_less [OF register_byte [OF assms(2) m]])
    have "foldl f dst [0..<Suc m] =
        (if denseGetRegister dst m < denseGetRegister src m then denseSetRegister d m (denseGetRegister src m) else d)"
      using IH(2) m by (simp add: d_def [symmetric]) (simp add: f_def Let_def)
    then show ?case
      using IH by (auto simp: denseGet_denseSet [OF IH(1) m _ s] max_def less_Suc_eq)
  qed (use assms in simp)
  have run: "hllMergeInto dst src = foldl f dst [0..<hllRegisters]" by (simp add: hllMergeInto_def f_def)
  show "registers (hllMergeInto dst src) = reg_merge (registers dst) (registers src)"
    unfolding run using inv [of hllRegisters] by (intro nth_equalityI) (simp_all add: reg_merge_def registers_nth)
  show "dense (hllMergeInto dst src)" unfolding run using inv [of hllRegisters] by simp
qed

section \<open>The commands\<close>

definition pfadd_elements :: "bytes list \<Rightarrow> bytes \<Rightarrow> bool \<Rightarrow> bytes \<times> bool" where
  "pfadd_elements elements regs changed =
     foldl (\<lambda>(rs, ch) e. let (rs', grew) = hllAdd rs e in (rs', if grew then True else ch)) (regs, changed) elements"

text \<open>\<open>changed\<close> is the variable the callback captures: it lives across the attempts of the loop.\<close>

definition pfaddCompute :: "bytes \<Rightarrow> bytes list \<Rightarrow> bytes \<Rightarrow> bool \<Rightarrow> ('s, serr + (bytes \<times> bool)) act" where
  "pfaddCompute key elements base changed =
     (if base \<noteq> [] \<and> \<not> isHLL base then ret (Inl HLLWrongType)
      else
        let blob = (if base = [] then newDenseHLL else base);
            (regs, changed') = pfadd_elements elements (drop hllHdrSize blob) (if base = [] then True else changed);
            blob' = take hllHdrSize blob @ regs
        in bindE (CheckWrite key [] [blob']) (\<lambda>_. ret (Inr (blob', changed'))))"

text \<open>The tail of PFADD and PFMERGE: the sentinel has its own text, other errors go the common way.\<close>

definition attemptHLL :: "('s, serr + 'a) act \<Rightarrow> ('a \<Rightarrow> 's handler) \<Rightarrow> 's handler" where
  "attemptHLL m k w =
     (case fst (m w) of
        Inl e \<Rightarrow> (if e = HLLWrongType then Error errHLLWrongType else writeStoreError e, snd (m w))
      | Inr v \<Rightarrow> k v (snd (m w)))"

definition handlePFAdd :: "'s env \<Rightarrow> int \<Rightarrow> bytes list \<Rightarrow> 's handler" where
  "handlePFAdd E db args =
     (let key = args ! 1; elements = drop 2 args in
      attemptHLL (rmwString E (encodePK (e_cfg E) db key) (pfaddCompute key elements) False)
        (\<lambda>(_, changed). ret (IntReply (if changed then 1 else 0))))"

text \<open>The loops of PFCOUNT and PFMERGE over the source keys; absent ones are skipped.\<close>

primrec readHLLs ::
    "'s env \<Rightarrow> int \<Rightarrow> bytes list \<Rightarrow> ('a \<Rightarrow> bytes \<Rightarrow> 'a) \<Rightarrow> 'a \<Rightarrow> ('a \<Rightarrow> 's handler) \<Rightarrow> 's handler" where
  "readHLLs E db [] step acc k = k acc"
| "readHLLs E db (key # keys) step acc k =
     withString E (encodePK (e_cfg E) db key) (readHLLs E db keys step acc k)
       (\<lambda>cur.
         if \<not> isHLL cur then ret (Error errHLLWrongType)
         else readHLLs E db keys step (step acc (drop hllHdrSize cur)) k)"

definition handlePFCount :: "mathlib \<Rightarrow> 's env \<Rightarrow> int \<Rightarrow> bytes list \<Rightarrow> 's handler" where
  "handlePFCount M E db args =
     readHLLs E db (drop 1 args) (\<lambda>(merged, _) regs. (hllMergeInto merged regs, True))
       (replicate hllRegBytes (CHR 0x00), False)
       (\<lambda>(merged, any). ret (IntReply (if any then hllCount M merged else 0)))"

definition pfmergeCompute :: "bytes \<Rightarrow> bytes list \<Rightarrow> bytes \<Rightarrow> ('s, serr + (bytes \<times> unit)) act" where
  "pfmergeCompute destKey srcRegs base =
     (if base \<noteq> [] \<and> \<not> isHLL base then ret (Inl HLLWrongType)
      else
        let blob = (if base = [] then newDenseHLL else base);
            blob' = take hllHdrSize blob @ foldl hllMergeInto (drop hllHdrSize blob) srcRegs
        in bindE (CheckWrite destKey [] [blob']) (\<lambda>_. ret (Inr (blob', ()))))"

definition handlePFMerge :: "'s env \<Rightarrow> int \<Rightarrow> bytes list \<Rightarrow> 's handler" where
  "handlePFMerge E db args =
     (let destKey = args ! 1 in
      readHLLs E db (drop 2 args) (\<lambda>srcs regs. srcs @ [regs]) [] (\<lambda>srcRegs.
        attemptHLL (rmwString E (encodePK (e_cfg E) db destKey) (\<lambda>base _. pfmergeCompute destKey srcRegs base) ())
          (\<lambda>_. ret (SimpleString ''OK''))))"

definition pfdebugUnknownErr :: "bytes \<Rightarrow> bytes" where
  "pfdebugUnknownErr sub = ''ERR Unknown PFDEBUG subcommand '' @ [CHR 0x27] @ sub @ [CHR 0x27]"

definition pfdebugArityErr :: "bytes \<Rightarrow> bytes" where
  "pfdebugArityErr sub =
     ''ERR Wrong number of arguments for the '' @ [CHR 0x27] @ sub @ [CHR 0x27] @ '' subcommand''"

definition pfdebugReply :: "bytes list \<Rightarrow> bytes \<Rightarrow> reply" where
  "pfdebugReply args cur =
     (if \<not> isHLL cur then Error errHLLWrongType
      else
        let sub = toLower (args ! 1); regs = drop hllHdrSize cur;
            exact = (\<lambda>r. if length args \<noteq> 3 then Error (pfdebugArityErr (args ! 1)) else r)
        in if sub = ''getreg'' then
             exact (IntArray (map (\<lambda>j. Some (int (denseGetRegister regs j))) [0..<hllRegisters]))
           else if sub = ''encoding'' then exact (SimpleString ''dense'')
           else if sub = ''todense'' then exact (IntReply 0)
           else if sub = ''decode'' then exact (Error ''ERR HLL encoding is not sparse'')
           else Error (pfdebugUnknownErr (args ! 1)))"

definition handlePFDebug :: "'s env \<Rightarrow> int \<Rightarrow> bytes list \<Rightarrow> 's handler" where
  "handlePFDebug E db args =
     withString E (encodePK (e_cfg E) db (args ! 2))
       (ret (Error ''ERR The specified key does not exist'')) (\<lambda>cur. ret (pfdebugReply args cur))"

section \<open>The handlers refine their runs over the abstract table\<close>

context conforming_env begin

lemma sim_attemptHLL [sim_intros]:
  assumes "sim view m m'" and "\<And>v. sim view (k v) (k' v)"
  shows "sim view (attemptHLL m k) (attemptHLL m' k')"
using assms by (simp add: sim_def attemptHLL_def split: sum.split)

lemma sim_pfaddCompute [sim_intros]: "sim view (pfaddCompute key es base ch) (pfaddCompute key es base ch)"
  unfolding pfaddCompute_def Let_def by (intro sim_intros)

lemma sim_pfmergeCompute [sim_intros]: "sim view (pfmergeCompute key rs base) (pfmergeCompute key rs base)"
  unfolding pfmergeCompute_def Let_def by (intro sim_intros)

lemma sim_readHLLs [sim_intros]:
  assumes "\<And>a. sim view (k a) (k' a)"
  shows "sim view (readHLLs E db keys step acc k) (readHLLs E' db keys step acc k')"
proof (induction keys arbitrary: acc)
  case (Cons key keys)
  show ?case unfolding readHLLs.simps abs_env_simps by (intro sim_intros Cons.IH)
qed (simp add: assms)

lemma sim_hll_commands [sim_intros]:
  "sim view (handlePFAdd E db args) (handlePFAdd E' db args)"
  "sim view (handlePFCount M E db args) (handlePFCount M E' db args)"
  "sim view (handlePFMerge E db args) (handlePFMerge E' db args)"
  "sim view (handlePFDebug E db args) (handlePFDebug E' db args)"
  unfolding handlePFAdd_def handlePFCount_def handlePFMerge_def handlePFDebug_def Let_def abs_env_simps
  by (intro sim_intros)+

end

end
