(* ===== verification/HllSpec.thy ===== *)
theory HllSpec
  imports Hll StringSpec
begin

text \<open>
  What the HyperLogLog commands do to a table: PFADD raises registers to the maximum of the old value
  and the element's pattern length, replies whether anything changed and is idempotent; PFCOUNT counts
  the union of its keys, and PFMERGE stores that union.
\<close>

section \<open>Registers only grow\<close>

lemma reg_add_length [simp]: "length (reg_add rs e) = length rs"
  by (simp add: reg_add_def split: prod.split)

lemma reg_add_le: "list_all2 (\<le>) rs (reg_add rs e)"
proof -
  have "rs ! j \<le> rs[i := max (rs ! i) m] ! j" for i m j
    by (cases "i = j") (cases "i < length rs", simp_all add: list_update_beyond)
  then show ?thesis by (simp add: reg_add_def list_all2_conv_all_nth split: prod.split)
qed

lemma reg_add_absorbs: "list_all2 (\<le>) (reg_add rs e) qs \<Longrightarrow> reg_add qs e = qs"
proof -
  obtain m i where p: "hllPatLen e = (m, i)" by (cases "hllPatLen e")
  assume le: "list_all2 (\<le>) (reg_add rs e) qs"
  show ?thesis
  proof (cases "i < length qs")
    case True
    then have "(rs[i := max (rs ! i) m]) ! i \<le> qs ! i" "i < length rs"
      using le by (auto simp: reg_add_def p list_all2_conv_all_nth)
    then have "max (qs ! i) m = qs ! i" by (simp add: max_def split: if_splits)
    then show ?thesis by (simp add: reg_add_def p)
  qed (simp add: reg_add_def p list_update_beyond)
qed

lemma le_trans_list: "list_all2 (\<le>) xs ys \<Longrightarrow> list_all2 (\<le>) ys zs \<Longrightarrow> list_all2 (\<le>) xs (zs :: nat list)"
  by (rule list_all2_trans [where ?P1.0 = "(\<le>)" and ?P2.0 = "(\<le>)"]) auto

lemma foldl_reg_add_le: "list_all2 (\<le>) rs (foldl reg_add rs es)"
proof (induction es arbitrary: rs)
  case (Cons e es)
  then show ?case using le_trans_list [OF reg_add_le Cons.IH] by simp
qed (simp add: list_all2_conv_all_nth)

lemma foldl_reg_add_absorbs: "list_all2 (\<le>) (foldl reg_add rs es) qs \<Longrightarrow> foldl reg_add qs es = qs"
proof (induction es arbitrary: rs)
  case (Cons e es)
  then have "reg_add qs e = qs"
    using reg_add_absorbs le_trans_list [OF foldl_reg_add_le, of "reg_add rs e" es qs] by auto
  with Cons show ?case by auto
qed simp

lemma foldl_reg_add_idem: "foldl reg_add (foldl reg_add rs es) es = foldl reg_add rs es"
  by (rule foldl_reg_add_absorbs [of rs es]) (simp add: list_all2_conv_all_nth)

lemma pfadd_elements_registers:
  assumes "dense regs"
  shows "registers (fst (pfadd_elements es regs ch)) = foldl reg_add (registers regs) es"
    and "snd (pfadd_elements es regs ch) \<longleftrightarrow> ch \<or> foldl reg_add (registers regs) es \<noteq> registers regs"
    and "dense (fst (pfadd_elements es regs ch))"
proof -
  have "registers (fst (pfadd_elements es regs ch)) = foldl reg_add (registers regs) es \<and>
    (snd (pfadd_elements es regs ch) \<longleftrightarrow> ch \<or> foldl reg_add (registers regs) es \<noteq> registers regs) \<and>
    dense (fst (pfadd_elements es regs ch))"
    using assms
  proof (induction es arbitrary: regs ch)
    case Nil
    then show ?case by (simp add: pfadd_elements_def)
  next
    case (Cons e es)
    obtain rs' grew where a: "hllAdd regs e = (rs', grew)" by (cases "hllAdd regs e")
    note h = hllAdd_registers [OF Cons.prems, of e, unfolded a fst_conv snd_conv]
    have run: "pfadd_elements (e # es) regs ch = pfadd_elements es rs' (grew \<or> ch)"
      by (simp add: pfadd_elements_def a)
    have "foldl reg_add (registers regs) (e # es) \<noteq> registers regs"
      if "reg_add (registers regs) e \<noteq> registers regs"
    proof
      assume "foldl reg_add (registers regs) (e # es) = registers regs"
      then have "list_all2 (\<le>) (reg_add (registers regs) e) (registers regs)"
        using foldl_reg_add_le [of "reg_add (registers regs) e" es] by simp
      then show False using that reg_add_absorbs by blast
    qed
    then show ?case
      using Cons.IH [OF h(3), of "grew \<or> ch"] h(1,2) unfolding run by auto
  qed
  then show "registers (fst (pfadd_elements es regs ch)) = foldl reg_add (registers regs) es"
    "snd (pfadd_elements es regs ch) \<longleftrightarrow> ch \<or> foldl reg_add (registers regs) es \<noteq> registers regs"
    "dense (fst (pfadd_elements es regs ch))" by blast+
qed

section \<open>Values\<close>

lemma zero_registers: "registers (replicate hllRegBytes (CHR 0x00)) = replicate hllRegisters 0"
proof (rule nth_equalityI)
  fix i assume "i < length (registers (replicate hllRegBytes (CHR 0x00)))"
  then have i: "i < hllRegisters" by simp
  have d: "dense (replicate hllRegBytes (CHR 0x00))" by (simp add: dense_def)
  have "denseGetRegister (replicate hllRegBytes (CHR 0x00)) i = 0"
  proof (rule bit_eqI)
    fix k
    have "\<not> lbit (replicate hllRegBytes (CHR 0x00)) p" for p by (simp add: lbit_def)
    then show "bit (denseGetRegister (replicate hllRegBytes (CHR 0x00)) i) k = bit 0 k"
      using register_byte [OF d i] by (simp add: bit_denseGetRegister)
  qed
  with i show "registers (replicate hllRegBytes (CHR 0x00)) ! i = replicate hllRegisters 0 ! i"
    by (simp add: registers_nth)
qed simp

lemma drop_new: "drop hllHdrSize newDenseHLL = replicate hllRegBytes (CHR 0x00)"
  by (simp add: newDenseHLL_def hllHdrSize_def hllRegBytes_def)

lemma dense_drop: "isHLL v \<Longrightarrow> dense (drop hllHdrSize v)"
  by (simp add: isHLL_def dense_def)

lemma isHLL_new: "isHLL newDenseHLL"
  by (simp add: isHLL_def newDenseHLL_def hllHdrSize_def hllRegBytes_def nth_append nth_Cons')

lemma isHLL_regs: "isHLL v \<Longrightarrow> dense regs \<Longrightarrow> isHLL (take hllHdrSize v @ regs)"
  by (simp add: isHLL_def dense_def nth_append hllHdrSize_def)

lemma drop_regs: "isHLL v \<Longrightarrow> drop hllHdrSize (take hllHdrSize v @ regs) = regs"
  by (simp add: isHLL_def)

text \<open>The value PFADD and PFMERGE build on, and the registers of a value.\<close>

definition hll_base :: "bytes \<Rightarrow> bytes" where
  "hll_base v = (if v = [] then newDenseHLL else v)"

definition hll_regs :: "bytes \<Rightarrow> nat list" where
  "hll_regs v = registers (drop hllHdrSize (hll_base v))"

lemma hll_regs_empty: "hll_regs [] = replicate hllRegisters 0"
  by (simp add: hll_regs_def hll_base_def drop_new zero_registers)

section \<open>PFADD\<close>

definition pfadd_value :: "bytes list \<Rightarrow> bytes \<Rightarrow> bytes" where
  "pfadd_value es v = take hllHdrSize (hll_base v) @ fst (pfadd_elements es (drop hllHdrSize (hll_base v)) True)"

lemma pfadd_elements_flag: "fst (pfadd_elements es regs ch) = fst (pfadd_elements es regs ch')"
proof (induction es arbitrary: regs ch ch')
  case (Cons e es)
  then show ?case by (simp add: pfadd_elements_def split: prod.split)
qed (simp add: pfadd_elements_def)

lemma pfadd_value:
  assumes "v = [] \<or> isHLL v"
  shows "isHLL (pfadd_value es v)" "hll_regs (pfadd_value es v) = foldl reg_add (hll_regs v) es"
proof -
  have b: "isHLL (hll_base v)" using assms isHLL_new by (auto simp: hll_base_def)
  note e = pfadd_elements_registers [OF dense_drop [OF b], of es True]
  show h: "isHLL (pfadd_value es v)"
    unfolding pfadd_value_def by (rule isHLL_regs [OF b e(3)])
  then have "hll_base (pfadd_value es v) = pfadd_value es v"
    by (auto simp: hll_base_def isHLL_def hllHdrSize_def)
  then show "hll_regs (pfadd_value es v) = foldl reg_add (hll_regs v) es"
    using e(1) drop_regs [OF b] by (simp add: hll_regs_def pfadd_value_def [symmetric] flip: pfadd_value_def)
      (simp add: pfadd_value_def)
qed

definition pfadd_result :: "bytes \<Rightarrow> bytes list \<Rightarrow> bytes \<Rightarrow> bool \<Rightarrow> serr + (bytes \<times> bool)" where
  "pfadd_result key es base ch =
     (if base \<noteq> [] \<and> \<not> isHLL base then Inl HLLWrongType
      else if nameTooLarge key then Inl SizeExceeded
      else Inr (pfadd_value es base, base = [] \<or> ch \<or> foldl reg_add (hll_regs base) es \<noteq> hll_regs base))"

lemma hll_fits: "isHLL v \<Longrightarrow> write_fits key [] [v] \<longleftrightarrow> \<not> nameTooLarge key"
  by (simp add: isHLL_def write_fits_def valueTooLarge_def MaxValueSize_def hllHdrSize_def hllRegBytes_def)

lemma pfadd_computes: "computes (pfaddCompute key es) (pfadd_result key es)"
proof -
  have "fst (pfaddCompute key es base ch w) = pfadd_result key es base ch \<and>
      backend (snd (pfaddCompute key es base ch w)) = backend w" for base ch and w :: "tbl world"
  proof (cases "base \<noteq> [] \<and> \<not> isHLL base")
    case False
    define rs where "rs = drop hllHdrSize (hll_base base)"
    obtain rs' ch' where r: "pfadd_elements es rs (base = [] \<or> ch) = (rs', ch')"
      by (cases "pfadd_elements es rs (base = [] \<or> ch)")
    have b: "isHLL (hll_base base)" using False isHLL_new by (auto simp: hll_base_def)
    note e = pfadd_elements_registers [OF dense_drop [OF b], of es "base = [] \<or> ch", folded rs_def, unfolded r]
    have v: "pfadd_value es base = take hllHdrSize (hll_base base) @ rs'"
      using pfadd_elements_flag [of es rs True "base = [] \<or> ch"] by (simp add: pfadd_value_def rs_def [symmetric] r)
    have run: "pfaddCompute key es base ch w =
        bindE (CheckWrite key [] [pfadd_value es base]) (\<lambda>_. ret (Inr (pfadd_value es base, ch'))) w"
      using False r unfolding v by (cases "base = []") (simp_all add: pfaddCompute_def rs_def hll_base_def Let_def)
    have "isHLL (pfadd_value es base)" using False by (intro pfadd_value) auto
    then show ?thesis
      using False e(2) by (auto simp: run bindE_def CheckWrite_run hll_fits pfadd_result_def ret_def
          hll_regs_def rs_def [symmetric])
  qed (simp add: pfaddCompute_def pfadd_result_def ret_def)
  moreover have "pfadd_result key es base ch = Inr (nxt, r) \<Longrightarrow> pfadd_result key es base r = Inr (nxt, r)" for base ch nxt r
    by (auto simp: pfadd_result_def split: if_splits)
  ultimately show ?thesis unfolding computes_def by blast
qed

lemma pfadd_once:
  assumes "conforming_env E view" and "t = view (backend w)" and "pk = encodePK (e_cfg E) db key"
    and "v = string_value t pk" and "run = handlePFAdd E db (cmd # key # es) w"
    and "t' = view (backend (snd run))"
  shows "if wrong_type t pk TypeString then fst run = Error ErrWrongType \<and> t' = t
    else if v \<noteq> [] \<and> \<not> isHLL v then fst run = Error errHLLWrongType \<and> t' = t
    else if nameTooLarge key then fst run = Error ErrValueExceedsBackendLimit \<and> t' = t
    else fst run = IntReply (if v = [] \<or> foldl reg_add (hll_regs v) es \<noteq> hll_regs v then 1 else 0) \<and>
      string_written t pk (pfadd_value es v) t'"
proof -
  let ?rmw = "rmwString E pk (pfaddCompute key es) False w"
  have run: "run = attemptHLL (rmwString E pk (pfaddCompute key es) False)
      (\<lambda>(_, changed). ret (IntReply (if changed then 1 else 0))) w"
    by (simp add: assms(3,5) handlePFAdd_def Let_def)
  have "case rmw_outcome t pk (\<lambda>b. pfadd_result key es b False) of
      Inl e \<Rightarrow> fst ?rmw = Inl e \<and> view (backend (snd ?rmw)) = t
    | Inr (nxt, r) \<Rightarrow> fst ?rmw = Inr (int (length nxt), r) \<and> string_written t pk nxt (view (backend (snd ?rmw)))"
    by (rule rmw_run [OF assms(1) pfadd_computes conforming_env.sim_pfaddCompute [OF assms(1)] assms(2) refl])
  then show ?thesis
    unfolding assms(6)
    by (auto simp: run attemptHLL_def rmw_outcome_def pfadd_result_def assms(4) writeStoreError_def ret_def)
qed

lemma pfadd_runs:
  assumes "conforming_env E view" and "t = view (backend w)" and "pk = encodePK (e_cfg E) db key"
    and "v = string_value t pk" and "run = handlePFAdd E db (cmd # key # es) w"
    and "t' = view (backend (snd run))"
  shows "if wrong_type t pk TypeString then fst run = Error ErrWrongType \<and> t' = t
    else if v \<noteq> [] \<and> \<not> isHLL v then fst run = Error errHLLWrongType \<and> t' = t
    else if nameTooLarge key then fst run = Error ErrValueExceedsBackendLimit \<and> t' = t
    else \<exists>new. isHLL new \<and> string_written t pk new t' \<and>
      hll_regs new = foldl reg_add (hll_regs v) es \<and>
      fst run = IntReply (if v = [] \<or> hll_regs new \<noteq> hll_regs v then 1 else 0) \<and>
      fst (handlePFAdd E db (cmd' # key # es) (snd run)) = IntReply 0"
proof -
  note first = pfadd_once [OF assms]
  note second = pfadd_once [OF assms(1,6,3) refl refl refl, of cmd' es]
  show ?thesis
  proof (cases "wrong_type t pk TypeString \<or> v \<noteq> [] \<and> \<not> isHLL v \<or> nameTooLarge key")
    case True
    then show ?thesis using first by auto
  next
    case False
    let ?new = "pfadd_value es v"
    from False have w: "string_written t pk ?new t'" using first by auto
    note new = pfadd_value [of v es]
    have h: "isHLL ?new" "hll_regs ?new = foldl reg_add (hll_regs v) es" using False new by auto
    then have ne: "?new \<noteq> []" by (auto simp: isHLL_def hllHdrSize_def)
    have "fst (handlePFAdd E db (cmd' # key # es) (snd run)) = IntReply 0"
      using second string_written_read [OF w] False h ne by (simp add: foldl_reg_add_idem split: if_splits)
    with False h w first have "isHLL ?new \<and> string_written t pk ?new t' \<and> hll_regs ?new = foldl reg_add (hll_regs v) es \<and>
      fst run = IntReply (if v = [] \<or> hll_regs ?new \<noteq> hll_regs v then 1 else 0) \<and>
      fst (handlePFAdd E db (cmd' # key # es) (snd run)) = IntReply 0" by auto
    then have "\<exists>new. isHLL new \<and> string_written t pk new t' \<and> hll_regs new = foldl reg_add (hll_regs v) es \<and>
      fst run = IntReply (if v = [] \<or> hll_regs new \<noteq> hll_regs v then 1 else 0) \<and>
      fst (handlePFAdd E db (cmd' # key # es) (snd run)) = IntReply 0" by (rule exI)
    with False show ?thesis by (simp only: if_False de_Morgan_disj simp_thms)
  qed
qed

text \<open>A live String whose value is empty: a value, but no HyperLogLog.\<close>

definition empty_string :: "tbl \<Rightarrow> bytes \<Rightarrow> bool" where
  "empty_string t pk \<longleftrightarrow> key_live t pk \<and> \<not> wrong_type t pk TypeString \<and> string_value t pk = []"

text \<open>
  C19: PFADD on a key that is no live empty String. A live key of another type, a live String that is no
  HyperLogLog and an oversized key are errors that change nothing. Otherwise every element raises its
  register to its pattern length, in the sketch of the live value or in a new one, the reply is 1
  exactly when the key was created or a register grew, nothing else changes, and adding the same
  elements again replies 0.
\<close>

theorem pfadd_spec:
  assumes "conforming_env E view" and "t = view (backend w)" and "pk = encodePK (e_cfg E) db key"
    and "v = string_value t pk" and "run = handlePFAdd E db (cmd # key # es) w"
    and "t' = view (backend (snd run))" and "\<not> empty_string t pk"
  shows "if wrong_type t pk TypeString then fst run = Error ErrWrongType \<and> t' = t
    else if key_live t pk \<and> \<not> isHLL v then fst run = Error errHLLWrongType \<and> t' = t
    else if nameTooLarge key then fst run = Error ErrValueExceedsBackendLimit \<and> t' = t
    else \<exists>new. isHLL new \<and> string_written t pk new t' \<and>
      hll_regs new = foldl reg_add (hll_regs v) es \<and>
      fst run = IntReply (if \<not> key_live t pk \<or> hll_regs new \<noteq> hll_regs v then 1 else 0) \<and>
      fst (handlePFAdd E db (cmd' # key # es) (snd run)) = IntReply 0"
proof -
  note runs = pfadd_runs [OF assms(1-6), of cmd']
  show ?thesis
  proof (cases "wrong_type t pk TypeString")
    case True
    then show ?thesis using runs by (simp only: if_True)
  next
    case False
    then have v: "v = [] \<longleftrightarrow> \<not> key_live t pk"
      using assms(4,7) live_meta_key_live [of t pk] by (auto simp: empty_string_def string_value_def split: option.splits)
    show ?thesis using runs unfolding v not_not using False by (simp only: if_False)
  qed
qed

text \<open>
  A live empty String is taken for a missing sketch: PFADD overwrites it and replies 1, where the
  compatibility notes promise an error for a String that is no HyperLogLog.
\<close>

lemma pfadd_overwrites_empty_string:
  assumes "conforming_env E view" and "t = view (backend w)" and "pk = encodePK (e_cfg E) db key"
    and "run = handlePFAdd E db (cmd # key # es) w" and "empty_string t pk" and "\<not> nameTooLarge key"
  shows "fst run = IntReply 1 \<and> (\<exists>new. isHLL new \<and> string_written t pk new (view (backend (snd run))))"
  using pfadd_runs [OF assms(1-3) refl assms(4) refl, of cmd] assms(5,6) by (auto simp: empty_string_def)

text \<open>
  PFDEBUG puts the subcommand of the client, any bytes, into the text of an error: with a line break
  in it the client reads two replies where one was written.
\<close>

lemma pfdebug_breaks_framing:
  assumes "isHLL cur"
  shows "\<not> reply_wf (pfdebugReply [''PFDEBUG'', ''x'' @ [CR, LF] @ ''+OK'', key] cur)"
    and "decode_many 2 (decode (Suc 0)) (write_reply (pfdebugReply [''PFDEBUG'', ''x'' @ [CR, LF] @ ''+OK'', key] cur)) =
      Some ([RError (''ERR Unknown PFDEBUG subcommand '' @ [CHR 0x27] @ ''x''), RSimple (''OK'' @ [CHR 0x27])], [])"
proof -
  have sub: "toLower (''x'' @ [CR, LF] @ ''+OK'') = ''x'' @ [CR, LF] @ ''+ok''" by code_simp
  have reply: "pfdebugReply [''PFDEBUG'', ''x'' @ [CR, LF] @ ''+OK'', key] cur =
      Error (''ERR Unknown PFDEBUG subcommand '' @ [CHR 0x27] @ ''x'' @ [CR, LF] @ ''+OK'' @ [CHR 0x27])"
    using assms by (simp add: pfdebugReply_def sub [simplified] pfdebugUnknownErr_def Let_def)
  show "\<not> reply_wf (pfdebugReply [''PFDEBUG'', ''x'' @ [CR, LF] @ ''+OK'', key] cur)"
    unfolding reply by (simp add: line_safe_def)
  show "decode_many 2 (decode (Suc 0)) (write_reply (pfdebugReply [''PFDEBUG'', ''x'' @ [CR, LF] @ ''+OK'', key] cur)) =
      Some ([RError (''ERR Unknown PFDEBUG subcommand '' @ [CHR 0x27] @ ''x''), RSimple (''OK'' @ [CHR 0x27])], [])"
    unfolding reply by code_simp
qed

lemma demo_absent: "t_meta demo_tbl ''h'' = None" "t_meta demo_tbl ''d'' = None"
  by (simp_all add: demo_tbl_def empty_tbl_def)

theorem pfadd_spec_witness:
  defines "run \<equiv> handlePFAdd (mem_env SyncDeleter cfg0) 0 [''PFADD'', ''h'', ''x''] (mem_world demo_tbl)"
  shows "fst run = IntReply 1 \<and> fst (handlePFAdd (mem_env SyncDeleter cfg0) 0 [''PFADD'', ''h'', ''x''] (snd run)) = IntReply 0"
proof -
  have "string_value demo_tbl ''h'' = []" "\<not> wrong_type demo_tbl ''h'' TypeString"
    by (simp_all add: string_value_def wrong_type_def live_meta_def demo_absent)
  then show ?thesis
    using pfadd_spec [OF conforming_mem [of SyncDeleter cfg0] refl refl refl refl refl _,
        where w = "mem_world demo_tbl" and key = "''h''" and es = "[''x'']" and db = 0 and cmd = "''PFADD''" and cmd' = "''PFADD''"]
    by (auto simp: run_def encodePK_def nameTooLarge_def MaxNameSize_def empty_string_def key_live_def live_at_def demo_absent)
qed

section \<open>PFCOUNT and PFMERGE\<close>

text \<open>What the read loop collects from a table: the register bytes of the live keys, or an error text.\<close>

primrec hll_sources :: "tbl \<Rightarrow> bytes list \<Rightarrow> bytes + bytes list" where
  "hll_sources t [] = Inr []"
| "hll_sources t (pk # pks) =
     (if wrong_type t pk TypeString then Inl ErrWrongType
      else if \<not> key_live t pk then hll_sources t pks
      else if \<not> isHLL (string_value t pk) then Inl errHLLWrongType
      else map_sum id (Cons (drop hllHdrSize (string_value t pk))) (hll_sources t pks))"

lemma hll_sources_dense: "hll_sources t pks = Inr vs \<Longrightarrow> v \<in> set vs \<Longrightarrow> dense v"
proof (induction pks arbitrary: vs)
  case (Cons pk pks)
  then show ?case
    by (cases "hll_sources t pks") (auto split: if_splits intro: dense_drop)
qed simp

lemma readHLLs_mem:
  "readHLLs (mem_env q cfg) db keys step acc k w =
    (case hll_sources (backend w) (map (encodePK cfg db) keys) of
       Inl e \<Rightarrow> (Error e, w)
     | Inr vs \<Rightarrow> k (foldl step acc vs) w)"
proof (induction keys arbitrary: acc)
  case (Cons key keys)
  then show ?case
    by (auto simp: withString_mem ret_def split: sum.splits)
qed simp

definition union_of :: "bytes list \<Rightarrow> bytes" where
  "union_of vs = foldl hllMergeInto (replicate hllRegBytes (CHR 0x00)) vs"

lemma foldl_merge_registers:
  "dense d \<Longrightarrow> \<forall>v \<in> set vs. dense v \<Longrightarrow>
    dense (foldl hllMergeInto d vs) \<and> registers (foldl hllMergeInto d vs) = foldl reg_merge (registers d) (map registers vs)"
  by (induction vs arbitrary: d) (simp_all add: hllMergeInto_registers)

lemma pfcount_run:
  assumes "conforming_env E view" and "t = view (backend w)"
  shows "fst (handlePFCount M E db (cmd # keys) w) =
    (case hll_sources t (map (encodePK (e_cfg E) db) keys) of
       Inl e \<Rightarrow> Error e
     | Inr vs \<Rightarrow> IntReply (if vs = [] then 0 else hllCount M (union_of vs)))"
proof -
  have "foldl (\<lambda>(merged, _) regs. (hllMergeInto merged regs, True)) (d, b) vs =
      (foldl hllMergeInto d vs, if vs = [] then b else True)" for d b vs
    by (induction vs arbitrary: d b) simp_all
  then show ?thesis
    using sim_fst [OF conforming_env.sim_hll_commands(2) [OF assms(1)], of M db "cmd # keys" w]
    by (simp add: abs_env_mem_env handlePFCount_def readHLLs_mem assms(2) ret_def union_of_def split: sum.split)
qed

definition pfmerge_result :: "bytes \<Rightarrow> bytes list \<Rightarrow> bytes \<Rightarrow> unit \<Rightarrow> serr + (bytes \<times> unit)" where
  "pfmerge_result key vs base u =
     (if base \<noteq> [] \<and> \<not> isHLL base then Inl HLLWrongType
      else if nameTooLarge key then Inl SizeExceeded
      else Inr (take hllHdrSize (hll_base base) @ foldl hllMergeInto (drop hllHdrSize (hll_base base)) vs, ()))"

lemma pfmerge_computes:
  assumes "\<forall>v \<in> set vs. dense v"
  shows "computes (\<lambda>base _. pfmergeCompute key vs base) (pfmerge_result key vs)"
proof -
  have "fst (pfmergeCompute key vs base w) = pfmerge_result key vs base u \<and>
      backend (snd (pfmergeCompute key vs base w)) = backend w" for base u and w :: "tbl world"
  proof (cases "base \<noteq> [] \<and> \<not> isHLL base")
    case False
    have b: "isHLL (hll_base base)" using False isHLL_new by (auto simp: hll_base_def)
    have "isHLL (take hllHdrSize (hll_base base) @ foldl hllMergeInto (drop hllHdrSize (hll_base base)) vs)"
      using foldl_merge_registers [OF dense_drop [OF b] assms] by (intro isHLL_regs [OF b]) blast
    from hll_fits [OF this] show ?thesis
      using False by (auto simp: pfmergeCompute_def pfmerge_result_def Let_def hll_base_def bindE_def CheckWrite_run ret_def)
  qed (simp add: pfmergeCompute_def pfmerge_result_def ret_def)
  then show ?thesis by (auto simp: computes_def pfmerge_result_def split: if_splits)
qed

lemma pfmerge_run:
  assumes "conforming_env E view" and "t = view (backend w)" and "pk = encodePK (e_cfg E) db dest"
    and "hll_sources t (map (encodePK (e_cfg E) db) keys) = Inr vs"
    and "\<not> wrong_type t pk TypeString" and "v = string_value t pk" and "v = [] \<or> isHLL v" and "\<not> nameTooLarge dest"
    and "run = handlePFMerge E db (cmd # dest # keys) w"
  shows "fst run = SimpleString ''OK''"
    and "string_written t pk (take hllHdrSize (hll_base v) @ foldl hllMergeInto (drop hllHdrSize (hll_base v)) vs)
      (view (backend (snd run)))"
proof -
  let ?E = "mem_env (e_enq E) (e_cfg E)" and ?W = "wview view w"
  have collect: "foldl (\<lambda>srcs regs. srcs @ [regs]) us xs = us @ xs" for us xs :: "bytes list"
    by (induction xs arbitrary: us) simp_all
  have mem: "handlePFMerge ?E db (cmd # dest # keys) ?W =
      attemptHLL (rmwString ?E pk (\<lambda>base _. pfmergeCompute dest vs base) ()) (\<lambda>_. ret (SimpleString ''OK'')) ?W"
    using assms(2-4) by (simp add: handlePFMerge_def readHLLs_mem collect Let_def)
  have d: "\<forall>v \<in> set vs. dense v" using hll_sources_dense [OF assms(4)] by blast
  have "case rmw_outcome t pk (\<lambda>b. pfmerge_result dest vs b ()) of
      Inl e \<Rightarrow> fst (rmwString ?E pk (\<lambda>base _. pfmergeCompute dest vs base) () ?W) = Inl e \<and>
        backend (snd (rmwString ?E pk (\<lambda>base _. pfmergeCompute dest vs base) () ?W)) = t
    | Inr (nxt, r) \<Rightarrow> fst (rmwString ?E pk (\<lambda>base _. pfmergeCompute dest vs base) () ?W) = Inr (int (length nxt), r) \<and>
        string_written t pk nxt (backend (snd (rmwString ?E pk (\<lambda>base _. pfmergeCompute dest vs base) () ?W)))"
    using rmw_run [OF conforming_mem [of "e_enq E" "e_cfg E"] pfmerge_computes [OF d]
          conforming_env.sim_pfmergeCompute [OF conforming_mem, where key = dest and rs = vs] _ refl,
        where w = ?W and t = t and pk = pk and cap = "()"] assms(2) by simp
  moreover have "rmw_outcome t pk (\<lambda>b. pfmerge_result dest vs b ()) =
      Inr (take hllHdrSize (hll_base v) @ foldl hllMergeInto (drop hllHdrSize (hll_base v)) vs, ())"
    using assms(5-8) by (auto simp: rmw_outcome_def pfmerge_result_def)
  ultimately have r: "fst (handlePFMerge ?E db (cmd # dest # keys) ?W) = SimpleString ''OK''"
    "string_written t pk (take hllHdrSize (hll_base v) @ foldl hllMergeInto (drop hllHdrSize (hll_base v)) vs)
      (backend (snd (handlePFMerge ?E db (cmd # dest # keys) ?W)))"
    by (simp_all add: mem attemptHLL_def ret_def)
  note s = conforming_env.sim_hll_commands(3) [OF assms(1), of db "cmd # dest # keys", unfolded abs_env_mem_env]
  show "fst run = SimpleString ''OK''" using r(1) sim_fst [OF s] by (simp add: assms(9))
  show "string_written t pk (take hllHdrSize (hll_base v) @ foldl hllMergeInto (drop hllHdrSize (hll_base v)) vs)
      (view (backend (snd run)))"
    using r(2) sim_backend [OF s] by (simp add: assms(9))
qed

text \<open>
  C20: PFMERGE stores the union PFCOUNT counts: after merging keys into a destination that is
  not live, PFCOUNT of the destination replies what PFCOUNT of the keys replied, whatever the
  logarithm. Some key is live and every live one is a HyperLogLog.
\<close>

theorem pfmerge_pfcount:
  assumes "conforming_env E view" and "t = view (backend w)" and "\<not> key_live t (encodePK (e_cfg E) db dest)"
    and "hll_sources t (map (encodePK (e_cfg E) db) keys) = Inr vs" and "vs \<noteq> []"
    and "\<not> nameTooLarge dest" and "run = handlePFMerge E db (cmd # dest # keys) w"
  shows "fst run = SimpleString ''OK'' \<and>
    fst (handlePFCount M E db [cmd', dest] (snd run)) = fst (handlePFCount M E db (cmd' # keys) w) \<and>
    (\<exists>n. fst (handlePFCount M E db (cmd' # keys) w) = IntReply n)"
proof -
  let ?pk = "encodePK (e_cfg E) db dest" and ?t' = "view (backend (snd run))"
  have absent: "live_meta t ?pk = None" using assms(3) live_meta_key_live by blast
  then have v: "string_value t ?pk = []" "\<not> wrong_type t ?pk TypeString"
    by (simp_all add: string_value_def wrong_type_def)
  note m = pfmerge_run [OF assms(1,2) refl assms(4) v(2) refl _ assms(6,7)]
  let ?new = "take hllHdrSize newDenseHLL @ union_of vs"
  from m v have ok: "fst run = SimpleString ''OK''" and w: "string_written t ?pk ?new ?t'"
    by (simp_all add: hll_base_def drop_new union_of_def)
  have zero: "dense (replicate hllRegBytes (CHR 0x00))" by (simp add: dense_def)
  have dvs: "\<forall>v \<in> set vs. dense v" using hll_sources_dense [OF assms(4)] by blast
  note u = foldl_merge_registers [OF zero dvs, folded union_of_def]
  have h: "isHLL ?new" using u by (intro isHLL_regs isHLL_new) blast
  have src: "hll_sources ?t' (map (encodePK (e_cfg E) db) [dest]) = Inr [union_of vs]"
    using string_written_read [OF w] h drop_regs [OF isHLL_new] by simp
  have "reg_merge (replicate hllRegisters 0) (registers (union_of vs)) = registers (union_of vs)"
    by (rule nth_equalityI) (simp_all add: reg_merge_def)
  then have "registers (union_of [union_of vs]) = registers (union_of vs)"
    using hllMergeInto_registers(1) [OF zero conjunct1 [OF u]] by (simp add: union_of_def zero_registers)
  then have "union_of [union_of vs] = union_of vs"
    using registers_inj u hllMergeInto_registers(2) [OF zero conjunct1 [OF u]] by (simp add: union_of_def)
  then show ?thesis
    using ok pfcount_run [OF assms(1) refl, of M db cmd' "[dest]" "snd run"] src assms(5)
      pfcount_run [OF assms(1,2), of M db cmd' keys] assms(4) by simp
qed

definition hll_tbl :: tbl where
  "hll_tbl = demo_tbl\<lparr>t_str := (t_str demo_tbl)(''k'' := Some newDenseHLL)\<rparr>"

theorem pfmerge_pfcount_witness:
  defines "run \<equiv> handlePFMerge (mem_env SyncDeleter cfg0) 0 [''PFMERGE'', ''d'', ''k''] (mem_world hll_tbl)"
    and "M \<equiv> \<lparr>math_Log = \<lambda>_. FZero False, math_Sin = fabs, math_Cos = fabs, math_Asin = fabs,
      conv_u32 = \<lambda>_. 0, conv_u64 = \<lambda>_. 0\<rparr>"
  shows "fst (handlePFCount M (mem_env SyncDeleter cfg0) 0 [''PFCOUNT'', ''d''] (snd run)) =
    fst (handlePFCount M (mem_env SyncDeleter cfg0) 0 [''PFCOUNT'', ''k''] (mem_world hll_tbl))"
proof -
  have k: "string_value hll_tbl ''k'' = newDenseHLL" "\<not> wrong_type hll_tbl ''k'' TypeString" "key_live hll_tbl ''k''"
    "\<not> key_live hll_tbl ''d''"
    by (simp_all add: hll_tbl_def string_value_def wrong_type_def live_meta_def IsExpired_def key_live_def live_at_def demo_absent)
  then have "hll_sources hll_tbl [''k''] = Inr [drop hllHdrSize newDenseHLL]"
    by (simp add: isHLL_new)
  then show ?thesis
    using pfmerge_pfcount [OF conforming_mem [of SyncDeleter cfg0] refl _ _ _ _ refl,
        where w = "mem_world hll_tbl" and dest = "''d''" and keys = "[''k'']" and db = 0 and M = M
          and cmd = "''PFMERGE''" and cmd' = "''PFCOUNT''"] k
    by (simp add: run_def encodePK_def nameTooLarge_def MaxNameSize_def)
qed

end
