(* ===== verification/Geo.thy ===== *)
theory Geo
  imports Geohash ZSets
begin

text \<open>
  The geo commands (\<^verbatim>\<open>internal/command/geo.go\<close>) and the scaling of coordinates around the geohash core
  (\<^verbatim>\<open>internal/command/geohash.go\<close>). A geo key is a Sorted Set whose scores are 52-bit geohashes. The
  trigonometric functions and the conversion of a double out of the range of an unsigned integer are
  parameters (\<open>mathlib\<close>). Untyped constants are exact until they meet a double.
\<close>

section \<open>Errors\<close>

definition errNotGeoFloat :: bytes where
  "errNotGeoFloat = ''ERR value is not a valid float''"

definition errGeoUnit :: bytes where
  "errGeoUnit = ''ERR unsupported unit provided. please use m, km, ft, mi''"

definition errGeoNeedRadius :: bytes where
  "errGeoNeedRadius = ''ERR need numeric radius''"

definition errGeoNegRadius :: bytes where
  "errGeoNegRadius = ''ERR radius cannot be negative''"

definition errGeoCountPositive :: bytes where
  "errGeoCountPositive = ''ERR COUNT must be > 0''"

definition errGeoAddSyntax :: bytes where
  "errGeoAddSyntax = ''ERR syntax error. Try GEOADD key [x1] [y1] [name1] [x2] [y2] [name2] ... ''"

definition errGeoStoreWithWith :: bytes where
  "errGeoStoreWithWith =
     ''ERR STORE option in GEORADIUS is not compatible with WITHDIST, WITHHASH and WITHCOORDS options''"

definition errGeoDecode :: bytes where
  "errGeoDecode = ''ERR could not decode requested zset member''"

definition fmtGeoErrCoord :: "f64 \<Rightarrow> bytes" where
  "fmtGeoErrCoord f =
     (case f of
        FInf s \<Rightarrow> if s then ''-inf'' else ''inf''
      | FNaN \<Rightarrow> ''nan''
      | _ \<Rightarrow> FormatFloat_f 6 f)"

definition geoInvalidPairErr :: "f64 \<Rightarrow> f64 \<Rightarrow> bytes" where
  "geoInvalidPairErr lon lat =
     ''ERR invalid longitude,latitude pair '' @ fmtGeoErrCoord lon @ '','' @ fmtGeoErrCoord lat"

section \<open>Coordinates and geohashes\<close>

definition geoLatMin :: f64 where "geoLatMin = f64_of_ratio (-8505112878) (10 ^ 8)"
definition geoLatMax :: f64 where "geoLatMax = f64_of_ratio 8505112878 (10 ^ 8)"
definition geoLonMin :: f64 where "geoLonMin = f64_of_int (-180)"
definition geoLonMax :: f64 where "geoLonMax = f64_of_int 180"
definition geoLatSpan :: f64 where "geoLatSpan = f64_of_ratio 17010225756 (10 ^ 8)"
definition geoLonSpan :: f64 where "geoLonSpan = f64_of_int 360"
definition geoScale :: f64 where "geoScale = f64_of_int (2 ^ 26)"
definition math_Pi :: f64 where "math_Pi = f64_of_ratio 884279719003555 281474976710656"

text \<open>Twice the earth's radius, one constant expression in the code.\<close>

definition earthDiameter :: f64 where "earthDiameter = f64_of_ratio 12745595121712 (10 ^ 6)"

definition validGeoCoord :: "f64 \<Rightarrow> f64 \<Rightarrow> bool" where
  "validGeoCoord lon lat \<longleftrightarrow> fle geoLonMin lon \<and> fle lon geoLonMax \<and> fle geoLatMin lat \<and> fle lat geoLatMax"

text \<open>\<^verbatim>\<open>uint32(x)\<close> and \<^verbatim>\<open>uint64(x)\<close>: truncation, where the result fits.\<close>

definition u32_of :: "mathlib \<Rightarrow> f64 \<Rightarrow> 32 word" where
  "u32_of M x = (if finite64 x \<and> 0 \<le> trunc64 x \<and> trunc64 x < 2 ^ 32 then of_int (trunc64 x) else conv_u32 M x)"

definition u64_of :: "mathlib \<Rightarrow> f64 \<Rightarrow> 64 word" where
  "u64_of M x = (if finite64 x \<and> 0 \<le> trunc64 x \<and> trunc64 x < 2 ^ 64 then of_int (trunc64 x) else conv_u64 M x)"

definition geohashEncode52 :: "mathlib \<Rightarrow> f64 \<Rightarrow> f64 \<Rightarrow> 64 word" where
  "geohashEncode52 M lat0 lon =
     (let lat = (if flt lat0 geoLatMin then geoLatMin else if flt geoLatMax lat0 then geoLatMax else lat0);
          latOffset = fdiv (fsub lat geoLatMin) geoLatSpan;
          lonOffset = fdiv (fsub lon geoLonMin) geoLonSpan
      in interleave64 (u32_of M (fmul latOffset geoScale)) (u32_of M (fmul lonOffset geoScale)))"

text \<open>A coordinate from a cell index: the centre of the cell.\<close>

definition cell_centre :: "f64 \<Rightarrow> f64 \<Rightarrow> 32 word \<Rightarrow> f64" where
  "cell_centre low width i =
     (let edge = (\<lambda>j :: 32 word. fadd low (fmul (fdiv (f64_of_int (uint j)) geoScale) width))
      in fdiv (fadd (edge i) (edge (i + 1))) (f64_of_int 2))"

definition geohashDecode52 :: "64 word \<Rightarrow> f64 \<times> f64" where
  "geohashDecode52 bits =
     (let (ilat, ilon) = deinterleave64 bits
      in (cell_centre geoLatMin geoLatSpan ilat, cell_centre geoLonMin geoLonSpan ilon))"

definition geohashStandard11 :: "mathlib \<Rightarrow> f64 \<Rightarrow> f64 \<Rightarrow> bytes" where
  "geohashStandard11 M lat lon =
     (let latOffset = fdiv (fsub lat (f64_of_int (-90))) (f64_of_int 180);
          lonOffset = fdiv (fsub lon (f64_of_int (-180))) (f64_of_int 360)
      in geohashChars (interleave64 (u32_of M (fmul latOffset geoScale)) (u32_of M (fmul lonOffset geoScale))))"

text \<open>
  \<^verbatim>\<open>math.Sqrt\<close> is correctly rounded: an integer root of at least 54 bits, and a last bit for what was cut
  off, rounded once.
\<close>

primrec isqrt :: "nat \<Rightarrow> int \<Rightarrow> int \<Rightarrow> int" where
  "isqrt 0 n r = r"
| "isqrt (Suc k) n r = (let r' = r + 2 ^ k in isqrt k n (if r' * r' \<le> n then r' else r))"

definition fsqrt :: "f64 \<Rightarrow> f64" where
  "fsqrt x =
     (case x of
        FNaN \<Rightarrow> FNaN
      | FInf s \<Rightarrow> if s then FNaN else FInf False
      | FZero s \<Rightarrow> FZero s
      | FFin m e \<Rightarrow>
          if m < 0 then FNaN
          else
            let k = (if even e then 108 else 109); n = m * 2 ^ nat k; r = isqrt 82 n 0
            in round_bin (2 * r + (if r * r = n then 0 else 1)) ((e - k) div 2 - 1))"

definition radians :: "f64 \<Rightarrow> f64" where
  "radians x = fdiv (fmul x math_Pi) (f64_of_int 180)"

definition geoHaversine :: "mathlib \<Rightarrow> f64 \<Rightarrow> f64 \<Rightarrow> f64 \<Rightarrow> f64 \<Rightarrow> f64" where
  "geoHaversine M lat1 lon1 lat2 lon2 =
     (let la1 = radians lat1; la2 = radians lat2;
          dLat = radians (fsub lat2 lat1); dLon = radians (fsub lon2 lon1); two = f64_of_int 2;
          sLat = math_Sin M (fdiv dLat two); sLon = math_Sin M (fdiv dLon two);
          h = fadd (fmul sLat sLat) (fmul (fmul (fmul (math_Cos M la1) (math_Cos M la2)) sLon) sLon)
      in fmul earthDiameter (math_Asin M (fsqrt h)))"

section \<open>Arguments\<close>

definition parseGeoLongLat :: "bytes \<Rightarrow> bytes \<Rightarrow> bytes + f64 \<times> f64" where
  "parseGeoLongLat lonArg latArg =
     (case parseFloatArg lonArg of
        None \<Rightarrow> Inl errNotGeoFloat
      | Some lon \<Rightarrow>
          (case parseFloatArg latArg of
             None \<Rightarrow> Inl errNotGeoFloat
           | Some lat \<Rightarrow>
               if \<not> validGeoCoord lon lat then Inl (geoInvalidPairErr lon lat) else Inr (lon, lat)))"

definition parseGeoUnit :: "bytes \<Rightarrow> f64 option" where
  "parseGeoUnit b =
     (if b = ''m'' then Some (f64_of_int 1)
      else if b = ''km'' then Some (f64_of_int 1000)
      else if b = ''mi'' then Some (f64_of_ratio 160934 100)
      else if b = ''ft'' then Some (f64_of_ratio 3048 10000)
      else None)"

text \<open>The radius in metres and the unit.\<close>

definition parseGeoRadius :: "bytes \<Rightarrow> bytes \<Rightarrow> bytes + f64 \<times> f64" where
  "parseGeoRadius radiusArg unitArg =
     (case parseFloatArg radiusArg of
        None \<Rightarrow> Inl errGeoNeedRadius
      | Some radius \<Rightarrow>
          if flt radius (FZero False) then Inl errGeoNegRadius
          else (case parseGeoUnit unitArg of None \<Rightarrow> Inl errGeoUnit | Some u \<Rightarrow> Inr (fmul radius u, u)))"

record geoRadiusOptions =
  go_withCoord :: bool
  go_withDist :: bool
  go_withHash :: bool
  go_count :: int
  go_sortAsc :: bool
  go_sortDesc :: bool
  go_store :: bool
  go_storeDist :: bool
  go_storeKey :: bytes

definition geoOptions0 :: geoRadiusOptions where
  "geoOptions0 =
     \<lparr>go_withCoord = False, go_withDist = False, go_withHash = False, go_count = 0, go_sortAsc = False,
      go_sortDesc = False, go_store = False, go_storeDist = False, go_storeKey = []\<rparr>"

fun geoOptionLoop :: "bytes list \<Rightarrow> geoRadiusOptions \<Rightarrow> bytes + geoRadiusOptions" where
  "geoOptionLoop [] g = Inr g"
| "geoOptionLoop (t # ts) g =
     (let w = toLower t in
      if w = ''withcoord'' then geoOptionLoop ts (g\<lparr>go_withCoord := True\<rparr>)
      else if w = ''withdist'' then geoOptionLoop ts (g\<lparr>go_withDist := True\<rparr>)
      else if w = ''withhash'' then geoOptionLoop ts (g\<lparr>go_withHash := True\<rparr>)
      else if w = ''asc'' then geoOptionLoop ts (g\<lparr>go_sortAsc := True\<rparr>)
      else if w = ''desc'' then geoOptionLoop ts (g\<lparr>go_sortDesc := True\<rparr>)
      else if w = ''count'' then
        (case ts of
           [] \<Rightarrow> Inl ErrSyntax
         | c # ts' \<Rightarrow>
             (case ParseInt c of
                Inl _ \<Rightarrow> Inl ErrNotInteger
              | Inr n \<Rightarrow> if n \<le> 0 then Inl errGeoCountPositive else geoOptionLoop ts' (g\<lparr>go_count := n\<rparr>)))
      else if w = ''store'' \<or> w = ''storedist'' then
        (case ts of
           [] \<Rightarrow> Inl ErrSyntax
         | d # ts' \<Rightarrow>
             geoOptionLoop ts' (g\<lparr>go_store := True, go_storeDist := (w = ''storedist''), go_storeKey := d\<rparr>))
      else Inl ErrSyntax)"

definition parseGeoRadiusOptions :: "bytes list \<Rightarrow> bytes + geoRadiusOptions" where
  "parseGeoRadiusOptions rest = geoOptionLoop rest geoOptions0"

definition checkGeoStore :: "geoRadiusOptions \<Rightarrow> bool \<Rightarrow> bytes option" where
  "checkGeoStore g readOnly =
     (if \<not> go_store g then None
      else if readOnly then Some ErrSyntax
      else if go_withCoord g \<or> go_withDist g \<or> go_withHash g then Some errGeoStoreWithWith
      else None)"

definition isReadOnlyGeo :: "bytes \<Rightarrow> bool" where
  "isReadOnlyGeo name \<longleftrightarrow>
     length name \<ge> 3 \<and> name ! (length name - 3) = CHR ''_'' \<and>
     name ! (length name - 2) \<in> {CHR ''r'', CHR ''R''} \<and> name ! (length name - 1) \<in> {CHR ''o'', CHR ''O''}"

section \<open>GEOADD and the reads of positions\<close>

text \<open>The longitude, latitude and member arguments, three by three; the first bad one is the error.\<close>

fun parseGeoMembers :: "mathlib \<Rightarrow> bytes list \<Rightarrow> bytes + zmember list" where
  "parseGeoMembers M (lonArg # latArg # m # rest) =
     (case parseGeoLongLat lonArg latArg of
        Inl e \<Rightarrow> Inl e
      | Inr (lon, lat) \<Rightarrow>
          (case parseGeoMembers M rest of
             Inl e \<Rightarrow> Inl e
           | Inr ms \<Rightarrow> Inr ((m, f64_of_int (uint (geohashEncode52 M lat lon))) # ms)))"
| "parseGeoMembers M _ = Inr []"

definition handleGeoAdd :: "mathlib \<Rightarrow> 's env \<Rightarrow> int \<Rightarrow> bytes list \<Rightarrow> 's handler" where
  "handleGeoAdd M E db args =
     (let key = args ! 1; rest = drop 2 args in
      if length rest mod 3 \<noteq> 0 then ret (Error errGeoAddSyntax)
      else
        case parseGeoMembers M rest of
          Inl e \<Rightarrow> ret (Error e)
        | Inr members \<Rightarrow>
            let pk = encodePK (e_cfg E) db key in
            attempt (CheckWrite key (map fst members) []) (\<lambda>_.
            attempt (ensureTypeExpiring E pk TypeZSet) (\<lambda>_.
            attempt (call (st_ZAdd (e_store E) pk members)) (\<lambda>added.
            attempt (adjustCount E pk TypeZSet added) (\<lambda>_. ret (IntReply added))))))"

text \<open>The latitude and longitude of a member.\<close>

definition memberPos :: "mathlib \<Rightarrow> 's env \<Rightarrow> bytes \<Rightarrow> bytes \<Rightarrow> ('s, serr + (f64 \<times> f64) option) act" where
  "memberPos M E pk member =
     (if \<not> memberStorable member then ret (Inr None)
      else
        bindE (call (st_ZScore (e_store E) pk member)) (\<lambda>score.
          ret (Inr (map_option (\<lambda>x. geohashDecode52 (u64_of M x)) score))))"

definition handleGeoDist :: "mathlib \<Rightarrow> 's env \<Rightarrow> int \<Rightarrow> bytes list \<Rightarrow> 's handler" where
  "handleGeoDist M E db args =
     (if length args > 5 then ret (Error ErrSyntax)
      else
        case (if length args = 5 then parseGeoUnit (args ! 4) else Some (f64_of_int 1)) of
          None \<Rightarrow> ret (Error errGeoUnit)
        | Some unit \<Rightarrow>
            let pk = encodePK (e_cfg E) db (args ! 1) in
            withKey E pk TypeZSet (ret (BulkString [])) (\<lambda>_.
              attempt (memberPos M E pk (args ! 2)) (\<lambda>p1.
              attempt (memberPos M E pk (args ! 3)) (\<lambda>p2.
                case (p1, p2) of
                  (Some (lat1, lon1), Some (lat2, lon2)) \<Rightarrow>
                    ret (BulkString (FormatFloat_f 4 (fdiv (geoHaversine M lat1 lon1 lat2 lon2) unit)))
                | _ \<Rightarrow> ret NullBulk))))"

definition trimRight :: "char \<Rightarrow> bytes \<Rightarrow> bytes" where
  "trimRight c s = rev (dropWhile (\<lambda>d. d = c) (rev s))"

definition formatGeoCoord :: "f64 \<Rightarrow> bytes" where
  "formatGeoCoord v =
     (let s = FormatFloat_f 17 v in
      if CHR ''.'' \<in> set s then trimRight (CHR ''.'') (trimRight (CHR ''0'') s) else s)"

text \<open>The loop over the member arguments of GEOPOS and GEOHASH; \<open>elem\<close> makes the element of one.\<close>

primrec geoMembersLoop ::
    "mathlib \<Rightarrow> 's env \<Rightarrow> bytes \<Rightarrow> ((f64 \<times> f64) option \<Rightarrow> geo_item) \<Rightarrow> bytes list \<Rightarrow> geo_elem list \<Rightarrow> 's handler" where
  "geoMembersLoop M E pk elem [] acc = ret (GeoReply acc)"
| "geoMembersLoop M E pk elem (name # names) acc =
     attempt (memberPos M E pk name) (\<lambda>p. geoMembersLoop M E pk elem names (acc @ [GItem (elem p)]))"

definition geoPosItem :: "(f64 \<times> f64) option \<Rightarrow> geo_item" where
  "geoPosItem p =
     (case p of None \<Rightarrow> GNullArray | Some (lat, lon) \<Rightarrow> GPair (formatGeoCoord lon) (formatGeoCoord lat))"

definition handleGeoPos :: "mathlib \<Rightarrow> 's env \<Rightarrow> int \<Rightarrow> bytes list \<Rightarrow> 's handler" where
  "handleGeoPos M E db args =
     (let pk = encodePK (e_cfg E) db (args ! 1) in
      withKey E pk TypeZSet (ret (GeoReply [])) (\<lambda>_. geoMembersLoop M E pk geoPosItem (drop 2 args) []))"

definition geoHashItem :: "mathlib \<Rightarrow> (f64 \<times> f64) option \<Rightarrow> geo_item" where
  "geoHashItem M p =
     (case p of None \<Rightarrow> GNullBulk | Some (lat, lon) \<Rightarrow> GBulk (geohashStandard11 M lat lon))"

definition handleGeoHash :: "mathlib \<Rightarrow> 's env \<Rightarrow> int \<Rightarrow> bytes list \<Rightarrow> 's handler" where
  "handleGeoHash M E db args =
     (let pk = encodePK (e_cfg E) db (args ! 1) in
      withKey E pk TypeZSet (ret (GeoReply [])) (\<lambda>_. geoMembersLoop M E pk (geoHashItem M) (drop 2 args) []))"

section \<open>GEORADIUS\<close>

record geoResult =
  gr_member :: bytes
  gr_lat :: f64
  gr_lon :: f64
  gr_score :: "64 word"
  gr_dist :: f64

text \<open>The members within the radius, in the order of the read.\<close>

definition geoMatches :: "mathlib \<Rightarrow> f64 \<Rightarrow> f64 \<Rightarrow> f64 \<Rightarrow> f64 \<Rightarrow> zmember list \<Rightarrow> geoResult list" where
  "geoMatches M centerLat centerLon radiusMeters unit members =
     concat (map (\<lambda>(m, x).
       let score = u64_of M x; (plat, plon) = geohashDecode52 score;
           d = geoHaversine M centerLat centerLon plat plon
       in if fle d radiusMeters
          then [\<lparr>gr_member = m, gr_lat = plat, gr_lon = plon, gr_score = score, gr_dist = fdiv d unit\<rparr>]
          else []) members)"

text \<open>\<^verbatim>\<open>sort.SliceStable\<close>.\<close>

primrec ginsert :: "('a \<Rightarrow> 'a \<Rightarrow> bool) \<Rightarrow> 'a \<Rightarrow> 'a list \<Rightarrow> 'a list" where
  "ginsert lt a [] = [a]"
| "ginsert lt a (b # bs) = (if lt b a then b # ginsert lt a bs else a # b # bs)"

definition stable_sort :: "('a \<Rightarrow> 'a \<Rightarrow> bool) \<Rightarrow> 'a list \<Rightarrow> 'a list" where
  "stable_sort lt xs = foldr (ginsert lt) xs []"

definition geoOrder :: "geoRadiusOptions \<Rightarrow> geoResult list \<Rightarrow> geoResult list" where
  "geoOrder g results =
     (let sortAsc = (go_sortAsc g \<or> (go_count g > 0 \<and> \<not> go_sortDesc g));
          ordered =
            (if sortAsc \<or> go_sortDesc g
             then stable_sort (\<lambda>a b. if go_sortDesc g then flt (gr_dist b) (gr_dist a) else flt (gr_dist a) (gr_dist b)) results
             else results)
      in if go_count g > 0 \<and> go_count g < int (length ordered) then take (nat (go_count g)) ordered else ordered)"

definition geoRow :: "geoRadiusOptions \<Rightarrow> geoResult \<Rightarrow> geo_elem" where
  "geoRow g res =
     (if \<not> (go_withCoord g \<or> go_withDist g \<or> go_withHash g) then GItem (GBulk (gr_member res))
      else
        GRow ([GBulk (gr_member res)] @
          (if go_withDist g then [GBulk (FormatFloat_f 4 (gr_dist res))] else []) @
          (if go_withHash g then [GInt (sint (gr_score res))] else []) @
          (if go_withCoord g then [GPair (formatGeoCoord (gr_lon res)) (formatGeoCoord (gr_lat res))] else [])))"

text \<open>The statements after the members are collected are those of the tail of \<^verbatim>\<open>handleZStore\<close>.\<close>

definition geoStore :: "'s env \<Rightarrow> int \<Rightarrow> bytes \<Rightarrow> bool \<Rightarrow> geoResult list \<Rightarrow> 's handler" where
  "geoStore E db storeKey storeDist results =
     zStoreWrite E storeKey (encodePK (e_cfg E) db storeKey)
       (map (\<lambda>res. (gr_member res, if storeDist then gr_dist res else f64_of_int (uint (gr_score res)))) results)"

definition geoRadiusReply ::
    "mathlib \<Rightarrow> 's env \<Rightarrow> int \<Rightarrow> bytes \<Rightarrow> f64 \<Rightarrow> f64 \<Rightarrow> f64 \<times> f64 \<Rightarrow> geoRadiusOptions \<Rightarrow> 's handler" where
  "geoRadiusReply M E db pk lat lon radius g =
     attempt (call (st_ZRangeByRank (e_store E) pk 0 (-1) False)) (\<lambda>all.
       let results = geoOrder g (geoMatches M lat lon (fst radius) (snd radius) all) in
       if go_store g then geoStore E db (go_storeKey g) (go_storeDist g) results
       else ret (GeoReply (map (geoRow g) results)))"

text \<open>The radius, the options and the search, common to both commands.\<close>

definition geoRadiusTail ::
    "mathlib \<Rightarrow> 's env \<Rightarrow> int \<Rightarrow> bytes \<Rightarrow> bytes \<Rightarrow> f64 \<Rightarrow> f64 \<Rightarrow> bytes list \<Rightarrow> 's handler" where
  "geoRadiusTail M E db pk cmd lat lon rest =
     (case parseGeoRadius (rest ! 0) (rest ! 1) of
        Inl e \<Rightarrow> ret (Error e)
      | Inr radius \<Rightarrow>
          (case parseGeoRadiusOptions (drop 2 rest) of
             Inl e \<Rightarrow> ret (Error e)
           | Inr g \<Rightarrow>
               (case checkGeoStore g (isReadOnlyGeo cmd) of
                  Some e \<Rightarrow> ret (Error e)
                | None \<Rightarrow> geoRadiusReply M E db pk lat lon radius g)))"

definition handleGeoRadius :: "mathlib \<Rightarrow> 's env \<Rightarrow> int \<Rightarrow> bytes list \<Rightarrow> 's handler" where
  "handleGeoRadius M E db args =
     (let pk = encodePK (e_cfg E) db (args ! 1) in
      withKey E pk TypeZSet (ret (GeoReply [])) (\<lambda>_.
        case parseGeoLongLat (args ! 2) (args ! 3) of
          Inl e \<Rightarrow> ret (Error e)
        | Inr (lon, lat) \<Rightarrow> geoRadiusTail M E db pk (args ! 0) lat lon (drop 4 args)))"

definition handleGeoRadiusByMember :: "mathlib \<Rightarrow> 's env \<Rightarrow> int \<Rightarrow> bytes list \<Rightarrow> 's handler" where
  "handleGeoRadiusByMember M E db args =
     (let pk = encodePK (e_cfg E) db (args ! 1) in
      withKey E pk TypeZSet (ret (GeoReply [])) (\<lambda>_.
        attempt (memberPos M E pk (args ! 2)) (\<lambda>p.
          case p of
            None \<Rightarrow> ret (Error errGeoDecode)
          | Some (lat, lon) \<Rightarrow> geoRadiusTail M E db pk (args ! 0) lat lon (drop 3 args))))"

section \<open>The nearest members\<close>

lemma mset_ginsert [simp]: "mset (ginsert lt a xs) = add_mset a (mset xs)"
  by (induction xs) auto

lemma mset_stable_sort [simp]: "mset (stable_sort lt xs) = mset xs"
  unfolding stable_sort_def by (induction xs) simp_all

lemma set_stable_sort [simp]: "set (stable_sort lt xs) = set xs"
  by (metis mset_stable_sort set_mset_mset)

lemma length_stable_sort [simp]: "length (stable_sort lt xs) = length xs"
  by (metis mset_stable_sort size_mset)

lemma set_ginsert [simp]: "set (ginsert lt a xs) = insert a (set xs)"
  by (induction xs) auto

lemma sorted_stable_sort:
  fixes key :: "'a \<Rightarrow> real"
  assumes "\<And>a b. a \<in> set xs \<Longrightarrow> b \<in> set xs \<Longrightarrow> lt a b \<longleftrightarrow> key a < key b"
  shows "sorted_wrt (\<lambda>a b. key a \<le> key b) (stable_sort lt xs)"
proof -
  have ins: "sorted_wrt (\<lambda>a b. key a \<le> key b) (ginsert lt a ys)"
    if "sorted_wrt (\<lambda>a b. key a \<le> key b) ys" "a \<in> set xs" "set ys \<subseteq> set xs" for a ys
    using that
  proof (induction ys)
    case (Cons y ys)
    then have "lt y a \<longleftrightarrow> key y < key a" using assms by auto
    with Cons show ?case by (cases "lt y a") (auto simp: not_less intro: order_trans less_imp_le)
  qed simp
  have "set ys \<subseteq> set xs \<Longrightarrow> sorted_wrt (\<lambda>a b. key a \<le> key b) (stable_sort lt ys)" for ys
    by (induction ys) (use set_stable_sort [of lt] in \<open>auto simp: stable_sort_def intro!: ins\<close>)
  then show ?thesis by simp
qed

lemma set_geoOrder: "set (geoOrder g rs) \<subseteq> set rs"
  by (auto simp: geoOrder_def Let_def split: if_splits dest: in_set_takeD)

text \<open>
  C21: GEORADIUS with COUNT n and no DESC keeps the nearest members: the smaller of n and the number of
  matches, in ascending distance, and none that was left out is nearer than one that was kept.
\<close>

theorem georadius_count_nearest:
  assumes "go_count g > 0" and "\<not> go_sortDesc g" and "\<forall>r \<in> set rs. finite64 (gr_dist r)"
  shows "length (geoOrder g rs) = min (nat (go_count g)) (length rs) \<and>
    sorted_wrt (\<lambda>a b. fle (gr_dist a) (gr_dist b)) (geoOrder g rs) \<and>
    (\<exists>rest. mset rs = mset (geoOrder g rs) + mset rest \<and>
      (\<forall>a \<in> set (geoOrder g rs). \<forall>b \<in> set rest. fle (gr_dist a) (gr_dist b)))"
proof -
  define ss where "ss = stable_sort (\<lambda>a b. flt (gr_dist a) (gr_dist b)) rs"
  have fin: "\<forall>r \<in> set ss. finite64 (gr_dist r)" and m: "mset ss = mset rs" "length ss = length rs"
    using assms(3) by (simp_all add: ss_def)
  have "sorted_wrt (\<lambda>a b. rv (gr_dist a) \<le> rv (gr_dist b)) ss"
    unfolding ss_def by (rule sorted_stable_sort) (simp add: assms(3) compare_rv)
  then have sorted: "sorted_wrt (\<lambda>a b. fle (gr_dist a) (gr_dist b)) ss"
    by (rule sorted_wrt_mono_rel [rotated]) (simp add: fin compare_rv)
  have out: "geoOrder g rs = take (nat (go_count g)) ss"
    using assms(1,2) m(2) by (auto simp: geoOrder_def Let_def ss_def [symmetric])
  let ?n = "nat (go_count g)"
  have split: "ss = take ?n ss @ drop ?n ss" by simp
  then have "sorted_wrt (\<lambda>a b. fle (gr_dist a) (gr_dist b)) (take ?n ss @ drop ?n ss)" using sorted by simp
  then have s: "sorted_wrt (\<lambda>a b. fle (gr_dist a) (gr_dist b)) (take ?n ss)"
    "\<forall>a \<in> set (take ?n ss). \<forall>b \<in> set (drop ?n ss). fle (gr_dist a) (gr_dist b)"
    unfolding sorted_wrt_append by blast+
  have "mset rs = mset (take ?n ss) + mset (drop ?n ss)"
    unfolding m(1) [symmetric] by (simp flip: mset_append)
  then show ?thesis unfolding out using s m(2) by (auto simp: min.commute)
qed

theorem georadius_count_nearest_witness:
  defines "r \<equiv> \<lambda>m d. \<lparr>gr_member = m, gr_lat = FZero False, gr_lon = FZero False, gr_score = 0, gr_dist = FFin d 0\<rparr>"
    and "g \<equiv> geoOptions0\<lparr>go_count := 2\<rparr>"
  shows "length (geoOrder g [r ''far'' 9, r ''near'' 1, r ''mid'' 4]) = 2"
  using georadius_count_nearest [of g "[r ''far'' 9, r ''near'' 1, r ''mid'' 4]"]
  by (simp add: g_def r_def geoOptions0_def finite64_def)

section \<open>The handlers refine their runs over the abstract table\<close>

lemma parseGeoMembers_storable: "parseGeoMembers M args = Inr ms \<Longrightarrow> \<forall>p \<in> set ms. storable (snd p)"
proof (induction M args arbitrary: ms rule: parseGeoMembers.induct)
  case (1 M lonArg latArg m rest)
  then obtain lon lat ms' where p: "parseGeoLongLat lonArg latArg = Inr (lon, lat)" "parseGeoMembers M rest = Inr ms'"
    "ms = (m, f64_of_int (uint (geohashEncode52 M lat lon))) # ms'"
    by (auto split: sum.splits prod.splits)
  with "1.IH" have "\<forall>p \<in> set ms'. storable (snd p)" by fastforce
  then show ?case by (simp add: p(3) storable_uint64)
qed simp_all

text \<open>A distance STOREDIST writes is a Number's: an assumption on the trigonometric functions.\<close>

definition dists_storable :: "mathlib \<Rightarrow> bool" where
  "dists_storable M \<longleftrightarrow>
     (\<forall>lat lon radius b unit ms. parseGeoUnit b = Some unit \<longrightarrow>
       (\<forall>r \<in> set (geoMatches M lat lon radius unit ms). storable (gr_dist r)))"

lemma geoMatches_in:
  "r \<in> set (geoMatches M lat lon radius unit ms) \<Longrightarrow>
    \<exists>a b. fle (geoHaversine M lat lon a b) radius \<and> gr_dist r = fdiv (geoHaversine M lat lon a b) unit"
  unfolding geoMatches_def Let_def by (fastforce split: prod.splits if_splits)

text \<open>It can hold: with an arc sine that vanishes every distance is zero.\<close>

lemma dists_storable_possible: "dists_storable (M\<lparr>math_Asin := \<lambda>_. FZero False\<rparr>)"
proof -
  have "\<exists>m e. unit = FFin m e" if "parseGeoUnit b = Some unit" for b unit
  proof -
    have "\<exists>m e. f64_of_int 1 = FFin m e" by (simp add: f64_of_int_1)
    moreover have ratio: "\<exists>m e. f64_of_ratio n d = FFin m e"
      if "0 < n" "0 < d" "2 powi -2 \<le> real_of_int n / real_of_int d" "real_of_int n / real_of_int d < 2 powi (11 + 1)" for n d
      using round_mag_expo [OF that(1-4), of False] that by (auto simp: f64_of_ratio_def)
    have "\<exists>m e. f64_of_int 1000 = FFin m e"
      unfolding f64_of_int_def by (rule ratio) (simp_all add: power_int_def power_divide)
    moreover have "\<exists>m e. f64_of_ratio 160934 100 = FFin m e"
      by (rule ratio) (simp_all add: power_int_def power_divide)
    moreover have "\<exists>m e. f64_of_ratio 3048 10000 = FFin m e"
      by (rule ratio) (simp_all add: power_int_def power_divide)
    moreover have "unit \<in> {f64_of_int 1, f64_of_int 1000, f64_of_ratio 160934 100, f64_of_ratio 3048 10000}"
      using that by (auto simp: parseGeoUnit_def split: if_splits)
    ultimately show ?thesis by blast
  qed
  moreover have "storable (gr_dist r)"
    if "r \<in> set (geoMatches (M\<lparr>math_Asin := \<lambda>_. FZero False\<rparr>) lat lon radius (FFin m e) ms)" for r lat lon radius m e ms
  proof -
    have "fmul x (FZero False) \<in> {FNaN, FZero False, FZero True}" for x
      by (cases x) (simp_all add: fmul_def fsign_def)
    moreover have "math_Asin (M\<lparr>math_Asin := \<lambda>_. FZero False\<rparr>) x = FZero False" for x by simp
    ultimately have "geoHaversine (M\<lparr>math_Asin := \<lambda>_. FZero False\<rparr>) a b c d \<in> {FNaN, FZero False, FZero True}" for a b c d
      by (simp only: geoHaversine_def Let_def)
    with geoMatches_in [OF that] obtain d
      where "d \<in> {FNaN, FZero False, FZero True}" "fle d radius" "gr_dist r = fdiv d (FFin m e)" by blast
    then show ?thesis by (auto simp: fdiv_def Let_def fle_def flt_def feq_def)
  qed
  ultimately show ?thesis unfolding dists_storable_def by blast
qed

context conforming_env begin

lemma sim_memberPos [sim_intros]: "sim view (memberPos M E pk m) (memberPos M E' pk m)"
  unfolding memberPos_def abs_env_simps mem_store_simps by (intro sim_intros)

lemma sim_geoMembersLoop [sim_intros]:
  "sim view (geoMembersLoop M E pk elem names acc) (geoMembersLoop M E' pk elem names acc)"
  by (induction names arbitrary: acc) (auto intro!: sim_intros)

lemma sim_GeoAdd [sim_intros]: "sim view (handleGeoAdd M E db args) (handleGeoAdd M E' db args)"
proof (cases "parseGeoMembers M (drop 2 args)")
  case (Inr ms)
  show ?thesis
    using parseGeoMembers_storable [OF Inr] unfolding handleGeoAdd_def Let_def abs_env_simps mem_store_simps
    by (auto simp: Inr intro!: sim_intros sim_call ZAdd)
qed (simp add: handleGeoAdd_def Let_def sim_ret)

lemma sim_geo_reads [sim_intros]:
  "sim view (handleGeoDist M E db args) (handleGeoDist M E' db args)"
  "sim view (handleGeoPos M E db args) (handleGeoPos M E' db args)"
  "sim view (handleGeoHash M E db args) (handleGeoHash M E' db args)"
  unfolding handleGeoDist_def handleGeoPos_def handleGeoHash_def Let_def abs_env_simps
  by (intro sim_intros)+

lemma sim_geoRadiusReply:
  assumes "dists_storable M" and "parseGeoUnit u = Some (snd radius)"
  shows "sim view (geoRadiusReply M E db pk lat lon radius g) (geoRadiusReply M E' db pk lat lon radius g)"
proof -
  have "sim view (geoStore E db key sd (geoOrder g (geoMatches M lat lon a (snd radius) all)))
      (geoStore E' db key sd (geoOrder g (geoMatches M lat lon a (snd radius) all)))" for key sd a all
  proof -
    have "storable (gr_dist p)" if "p \<in> set (geoOrder g (geoMatches M lat lon a (snd radius) all))" for p
      using assms that set_geoOrder [of g "geoMatches M lat lon a (snd radius) all"] unfolding dists_storable_def by blast
    then show ?thesis
      unfolding geoStore_def abs_env_simps by (intro sim_zStoreWrite) (auto simp: storable_uint64)
  qed
  then show ?thesis
    unfolding geoRadiusReply_def Let_def abs_env_simps mem_store_simps by (intro sim_intros)
qed

lemma sim_geo_radius:
  assumes "dists_storable M"
  shows "sim view (handleGeoRadius M E db args) (handleGeoRadius M E' db args)"
    and "sim view (handleGeoRadiusByMember M E db args) (handleGeoRadiusByMember M E' db args)"
proof -
  have "sim view (geoRadiusTail M E db pk cmd lat lon rest) (geoRadiusTail M E' db pk cmd lat lon rest)" for pk cmd lat lon rest
  proof (cases "parseGeoRadius (rest ! 0) (rest ! 1)")
    case (Inr radius)
    then have u: "parseGeoUnit (rest ! 1) = Some (snd radius)"
      by (auto simp: parseGeoRadius_def split: option.splits if_splits)
    show ?thesis
      unfolding geoRadiusTail_def Inr sum.case by (intro sim_intros sim_geoRadiusReply [OF assms u])
  qed (simp add: geoRadiusTail_def sim_ret)
  note tail = this
  show "sim view (handleGeoRadius M E db args) (handleGeoRadius M E' db args)"
    "sim view (handleGeoRadiusByMember M E db args) (handleGeoRadiusByMember M E' db args)"
    unfolding handleGeoRadius_def handleGeoRadiusByMember_def Let_def abs_env_simps
    by (intro sim_intros tail)+
qed

end

end
