(* ===== verification/Server.thy ===== *)
theory Server
  imports Runtime Slowlog ScanRegistry ScanStore
begin

text \<open>
  The state of a served connection (\<^verbatim>\<open>internal/server/conn_state.go\<close>) and of the process behind it:
  the world of the data commands, the slow log, the SCAN cursor registry and the metrics. A command
  handler writes one reply or, where it draws cursors from the random source, may not return
  (\<open>None\<close>). Deadlines of contexts are not modelled.
\<close>

section \<open>Connections\<close>

record conn =
  cn_authed :: bool
  cn_db :: int
  cn_instID :: bytes
  cn_obs :: obs
  cn_closed :: bool

definition newConn :: "bytes \<Rightarrow> conn" where
  "newConn inst =
     \<lparr>cn_authed = False, cn_db = 0, cn_instID = inst, cn_obs = \<lparr>errored = False, errClass = []\<rparr>, cn_closed = False\<rparr>"

section \<open>The process\<close>

text \<open>
  The collectors of \<^verbatim>\<open>internal/metrics/metrics.go\<close>: calls by name and family (the ones seen), observed durations by name
  and family (newest first), errors by name, family and class.
\<close>

record metrics =
  mt_qps :: "((bytes \<times> bytes) \<times> nat) list"
  mt_latency :: "bytes \<times> bytes \<Rightarrow> int list"
  mt_errors :: "bytes \<times> bytes \<times> bytes \<Rightarrow> nat"

text \<open>\<open>sv_draws\<close> counts the draws from the random source of cursors.\<close>

record ('s, 'k) srv =
  sv_conn :: conn
  sv_world :: "'s world"
  sv_slow :: slowLog
  sv_scan :: "'k registry"
  sv_draws :: nat
  sv_metrics :: metrics

text \<open>
  What the handlers run on: the environment of the data commands, the paging operations, the random
  source of cursors, the clock in nanoseconds, the random choice of members, the iteration order of
  Go maps and the functions of \<^verbatim>\<open>math\<close>.
\<close>

record ('s, 'k) senv =
  sx_env :: "'s env"
  sx_scans :: "('s, 'k) scan_ops"
  sx_rnd :: "nat \<Rightarrow> 64 word"
  sx_nanos :: "'s \<Rightarrow> int"
  sx_pick :: pick
  sx_iter :: "bytes list \<Rightarrow> bytes list"
  sx_math :: mathlib

type_synonym ('s, 'k, 'a) sact = "('s, 'k) srv \<Rightarrow> ('a \<times> ('s, 'k) srv) option"
type_synonym ('s, 'k) chandler = "bytes list \<Rightarrow> ('s, 'k, reply) sact"

text \<open>A handler that only replies, and a data command run on the world.\<close>

definition replies :: "reply \<Rightarrow> ('s, 'k, reply) sact" where
  "replies r s = Some (r, s)"

definition on_world :: "('s, 'a) act \<Rightarrow> ('s, 'k, 'a) sact" where
  "on_world f s = (let r = f (sv_world s) in Some (fst r, s\<lparr>sv_world := snd r\<rparr>))"

definition data :: "(int \<Rightarrow> bytes list \<Rightarrow> 's handler) \<Rightarrow> ('s, 'k) chandler" where
  "data h args s = on_world (h (cn_db (sv_conn s)) args) s"

definition sbind :: "('s, 'k, 'a) sact \<Rightarrow> ('a \<Rightarrow> ('s, 'k, 'b) sact) \<Rightarrow> ('s, 'k, 'b) sact" where
  "sbind m k s = (case m s of None \<Rightarrow> None | Some (v, s') \<Rightarrow> k v s')"

definition nanos :: "('s, 'k) senv \<Rightarrow> ('s, 'k) srv \<Rightarrow> int" where
  "nanos X s = sx_nanos X (backend (sv_world s))"

definition epoch :: "('s, 'k) senv \<Rightarrow> ('s, 'k) srv \<Rightarrow> int" where
  "epoch X s = e_now (sx_env X) (backend (sv_world s))"

end
