(* ===== verification/Scans.thy ===== *)
theory Scans
  imports Server Args Glob Hashes Sets ZSets
begin

text \<open>
  SCAN, HSCAN, SSCAN and ZSCAN (\<^verbatim>\<open>internal/command/scan.go\<close>, \<^verbatim>\<open>hashes.go\<close>, \<^verbatim>\<open>sets.go\<close>, \<^verbatim>\<open>zsets.go\<close>): cursor and option
  parsing, the cursor registry, one page of the backend, the filter, and the reply with the next
  cursor.
\<close>

section \<open>Options\<close>

text \<open>Conversion to \<^verbatim>\<open>int32\<close>.\<close>

definition wrap32 :: "int \<Rightarrow> int" where
  "wrap32 n = (n + 2147483648) mod 4294967296 - 2147483648"

record scanOpts =
  sc_pattern :: "bytes option"
  sc_limit :: int

fun scanOptLoop :: "bytes list \<Rightarrow> scanOpts \<Rightarrow> bytes + scanOpts" where
  "scanOptLoop (k # v # opts) so =
     (let K = ToUpper k in
      if K = ''MATCH'' then scanOptLoop opts (so\<lparr>sc_pattern := Some v\<rparr>)
      else if K = ''COUNT'' then
        (case ParseInt v of
           Inl _ \<Rightarrow> Inl ErrNotInteger
         | Inr n \<Rightarrow> if n < 1 then Inl ErrSyntax else scanOptLoop opts (so\<lparr>sc_limit := wrap32 n\<rparr>))
      else Inl ErrSyntax)"
| "scanOptLoop _ so = Inr so"

definition parseScanOpts :: "bytes list \<Rightarrow> bytes + scanOpts" where
  "parseScanOpts opts =
     (if length opts mod 2 \<noteq> 0 then Inl ErrSyntax else scanOptLoop opts \<lparr>sc_pattern = None, sc_limit = 0\<rparr>)"

definition scanMatch :: "scanOpts \<Rightarrow> bytes \<Rightarrow> bool" where
  "scanMatch so name = (case sc_pattern so of None \<Rightarrow> True | Some p \<Rightarrow> globMatch p name)"

section \<open>Cursors\<close>

text \<open>The pagination token of a cursor: none for 0, else that of the registry, if it is there.\<close>

definition resolveCursor :: "('s, 'k) senv \<Rightarrow> nat \<Rightarrow> ('s, 'k, 'k option option) sact" where
  "resolveCursor X cur s =
     (if cur = 0 then Some (Some None, s)
      else
        let r = LoadOwned (nanos X s) (of_nat cur) (cn_instID (sv_conn s)) (sv_scan s) in
        Some (map_option Some (fst r), s\<lparr>sv_scan := snd r\<rparr>))"

definition fmt_cursor :: "64 word \<Rightarrow> bytes" where
  "fmt_cursor c = fmt_nat (unat c)"

text \<open>The cursor of the reply: 0 at the end, else a fresh one under which the token is saved.\<close>

definition nextCursor :: "('s, 'k) senv \<Rightarrow> 'k option \<Rightarrow> ('s, 'k, bytes) sact" where
  "nextCursor X lek s =
     (case lek of
        None \<Rightarrow> Some (''0'', s)
      | Some k \<Rightarrow>
          (case Save (sx_rnd X) (sv_draws s) (nanos X s) k (sv_scan s) of
             None \<Rightarrow> None
           | Some (c, n, reg) \<Rightarrow> Some (fmt_cursor c, s\<lparr>sv_draws := n, sv_scan := reg\<rparr>)))"

text \<open>From the cursor on: resolve it, fetch a page, reply with the items kept and the next cursor.\<close>

definition scanPage :: "('s, 'k) senv \<Rightarrow> nat \<Rightarrow> ('k option \<Rightarrow> ('s, 'k, serr + 'a \<times> 'k option) sact) \<Rightarrow>
    ('a \<Rightarrow> bytes list) \<Rightarrow> ('s, 'k, reply) sact" where
  "scanPage X cur fetch render =
     sbind (resolveCursor X cur) (\<lambda>lek.
       case lek of
         None \<Rightarrow> replies (Error ErrInvalidCursor)
       | Some l \<Rightarrow>
           sbind (fetch l) (\<lambda>r.
             case r of
               Inl e \<Rightarrow> replies (writeStoreError e)
             | Inr (page, lek') \<Rightarrow>
                 sbind (nextCursor X lek') (\<lambda>c. replies (ScanReply c (render page)))))"

section \<open>Handlers\<close>

definition handleScan :: "('s, 'k) senv \<Rightarrow> ('s, 'k) chandler" where
  "handleScan X args s =
     (case parseScanCursor (args ! 1) of
        None \<Rightarrow> replies (Error ErrInvalidCursor) s
      | Some cur \<Rightarrow>
          (case parseScanOpts (drop 2 args) of
             Inl e \<Rightarrow> replies (Error e) s
           | Inr so \<Rightarrow>
               scanPage X cur
                 (\<lambda>lek s. on_world (call (st_ScanKeys (sx_scans X) lek (sc_limit so) (epoch X s))) s)
                 (\<lambda>pks. filter (scanMatch so) (List.map_filter (decodePK (e_cfg (sx_env X)) (cn_db (sv_conn s))) pks))
                 s))"

text \<open>HSCAN, SSCAN and ZSCAN check the key between the cursor and the options.\<close>

definition scanKey :: "('s, 'k) senv \<Rightarrow> keytype \<Rightarrow> (bytes \<Rightarrow> 'k option \<Rightarrow> int \<Rightarrow> ('s, 'a \<times> 'k option) op) \<Rightarrow>
    (scanOpts \<Rightarrow> 'a \<Rightarrow> bytes list) \<Rightarrow> ('s, 'k) chandler" where
  "scanKey X ty page render args s =
     (let pk = encodePK (e_cfg (sx_env X)) (cn_db (sv_conn s)) (args ! 1) in
      case parseScanCursor (args ! 2) of
        None \<Rightarrow> replies (Error ErrInvalidCursor) s
      | Some cur \<Rightarrow>
          sbind (on_world (loadMetaState (sx_env X) pk ty)) (\<lambda>st.
            case st of
              Inl e \<Rightarrow> replies (writeStoreError e)
            | Inr KeyWrong \<Rightarrow> replies (Error ErrWrongType)
            | Inr KeyAbsent \<Rightarrow> replies (ScanReply ''0'' [])
            | Inr (KeyLive _) \<Rightarrow>
                (case parseScanOpts (drop 3 args) of
                   Inl e \<Rightarrow> replies (Error e)
                 | Inr so \<Rightarrow> scanPage X cur (\<lambda>lek. on_world (call (page pk lek (sc_limit so)))) (render so))) s)"

definition handleHScan :: "('s, 'k) senv \<Rightarrow> ('s, 'k) chandler" where
  "handleHScan X =
     scanKey X TypeHash (st_HScan (sx_scans X))
       (\<lambda>so fields. concat (map (\<lambda>(f, v). [f, v]) (filter (\<lambda>(f, _). scanMatch so f) fields)))"

definition handleSScan :: "('s, 'k) senv \<Rightarrow> ('s, 'k) chandler" where
  "handleSScan X = scanKey X TypeSet (st_SScan (sx_scans X)) (\<lambda>so. filter (scanMatch so))"

definition handleZScan :: "('s, 'k) senv \<Rightarrow> ('s, 'k) chandler" where
  "handleZScan X =
     scanKey X TypeZSet (st_ZScan (sx_scans X))
       (\<lambda>so members. concat (map (\<lambda>(m, x). [m, formatScore x]) (filter (\<lambda>(m, _). scanMatch so m) members)))"

end
