(* ===== verification/Connection.thy ===== *)
theory Connection
  imports Server Args
begin

text \<open>
  The commands that need no storage: handshake and connection management
  (\<^verbatim>\<open>internal/command/connection.go\<close>), the probe stubs (\<^verbatim>\<open>stub.go\<close>), SLOWLOG (\<^verbatim>\<open>slowlog.go\<close>) and the
  families that are declined (\<^verbatim>\<open>rejected.go\<close>), and INFO (\<^verbatim>\<open>info.go\<close>).
\<close>

section \<open>Connection commands\<close>

definition set_conn :: "(conn \<Rightarrow> conn) \<Rightarrow> ('s, 'k) srv \<Rightarrow> ('s, 'k) srv" where
  "set_conn f s = s\<lparr>sv_conn := f (sv_conn s)\<rparr>"

definition handleHello :: "('s, 'k) chandler" where
  "handleHello args = replies (Error (ErrUnknownCommand (args ! 0)))"

definition handlePing :: "('s, 'k) chandler" where
  "handlePing args =
     (if length args = 1 then replies (SimpleString ''PONG'')
      else if length args = 2 then replies (BulkString (args ! 1))
      else replies (Error (ErrWrongNumberOfArgs ''ping'')))"

definition handleEcho :: "('s, 'k) chandler" where
  "handleEcho args = replies (BulkString (args ! 1))"

definition handleAuth :: "config \<Rightarrow> ('s, 'k) chandler" where
  "handleAuth cfg args s =
     (if RequirePass cfg = [] then replies (Error ErrNoPasswordSet) s
      else if args ! 1 \<noteq> RequirePass cfg
      then replies (Error ErrInvalidPassword) (set_conn (\<lambda>c. c\<lparr>cn_authed := False\<rparr>) s)
      else replies (SimpleString ''OK'') (set_conn (\<lambda>c. c\<lparr>cn_authed := True\<rparr>) s))"

definition databases :: "config \<Rightarrow> int" where
  "databases cfg = (if cfgDB cfg > 0 then cfgDB cfg else 16)"

definition handleSelect :: "config \<Rightarrow> ('s, 'k) chandler" where
  "handleSelect cfg args s =
     (case ParseInt (args ! 1) of
        Inl _ \<Rightarrow> replies (Error ErrInvalidDBIndex) s
      | Inr idx \<Rightarrow>
          if idx < 0 then replies (Error ErrInvalidDBIndex) s
          else if \<not> MultiDB cfg then replies (SimpleString ''OK'') (set_conn (\<lambda>c. c\<lparr>cn_db := 0\<rparr>) s)
          else if idx \<ge> databases cfg then replies (Error ErrInvalidDBIndex) s
          else replies (SimpleString ''OK'') (set_conn (\<lambda>c. c\<lparr>cn_db := idx\<rparr>) s))"

definition handleQuit :: "('s, 'k) chandler" where
  "handleQuit args s = replies (SimpleString ''OK'') (set_conn (\<lambda>c. c\<lparr>cn_closed := True\<rparr>) s)"

section \<open>Probe stubs\<close>

definition handleSave :: "('s, 'k) chandler" where
  "handleSave args = replies (SimpleString ''OK'')"

definition handleBgSave :: "('s, 'k) chandler" where
  "handleBgSave args = replies (SimpleString ''Background saving started'')"

definition handleBgRewriteAOF :: "('s, 'k) chandler" where
  "handleBgRewriteAOF args = replies (SimpleString ''Background append only file rewriting started'')"

definition handleLastSave :: "('s, 'k) senv \<Rightarrow> ('s, 'k) chandler" where
  "handleLastSave X args s = replies (IntReply (epoch X s)) s"

definition handleRole :: "('s, 'k) chandler" where
  "handleRole args = replies RoleReply"

definition handleWait :: "('s, 'k) chandler" where
  "handleWait args =
     (case ParseInt (args ! 1) of
        Inl _ \<Rightarrow> replies (Error ''ERR value is not an integer or out of range'')
      | Inr _ \<Rightarrow>
          (case ParseInt (args ! 2) of
             Inl _ \<Rightarrow> replies (Error ''ERR timeout is not an integer or out of range'')
           | Inr timeout \<Rightarrow>
               if timeout < 0 then replies (Error ''ERR timeout is negative'') else replies (IntReply 0)))"

definition handlePFSelfTest :: "('s, 'k) chandler" where
  "handlePFSelfTest args = replies (SimpleString ''OK'')"

definition handleCommand :: "('s, 'k) chandler" where
  "handleCommand args =
     (if length args = 1 then replies EmptyArray
      else
        let sub = toLower (args ! 1) in
        if sub = ''count'' \<and> length args = 2 then replies (IntReply 0)
        else if sub = ''info'' then replies EmptyArray
        else if sub = ''getkeys'' \<and> length args \<ge> 3 then replies EmptyArray
        else replies (Error ''ERR Unknown subcommand or wrong number of arguments.''))"

definition handleClient :: "('s, 'k) chandler" where
  "handleClient args =
     (let sub = toLower (args ! 1); n = length args in
      if sub = ''getname'' \<and> n = 2 then replies NullBulk
      else if sub = ''setname'' \<and> n = 3 then
        (if \<exists>b\<in>set (args ! 2). code b < 33 \<or> 126 < code b
         then replies (Error ''ERR Client names cannot contain spaces, newlines or special characters.'')
         else replies (SimpleString ''OK''))
      else if sub = ''list'' \<and> n = 2 then replies (SimpleString ''OK'')
      else if sub = ''kill'' \<and> n = 2 then replies (Error ErrSyntax)
      else if sub = ''kill'' \<and> n \<ge> 3 then replies (SimpleString ''OK'')
      else if sub = ''pause'' \<and> n = 3 then
        (case ParseInt (args ! 2) of
           Inl _ \<Rightarrow> replies (Error ''ERR timeout is not an integer or out of range'')
         | Inr v \<Rightarrow>
             if v < 0 then replies (Error ''ERR timeout is negative'') else replies (SimpleString ''OK''))
      else if sub = ''reply'' \<and> n = 3 then
        (if toLower (args ! 2) \<in> {''on'', ''off'', ''skip''} then replies (SimpleString ''OK'')
         else replies (Error ErrSyntax))
      else replies (Error ''ERR Syntax error, try CLIENT (LIST | KILL | GETNAME | SETNAME | PAUSE | REPLY)''))"

definition configDefaults :: "(bytes \<times> bytes) list" where
  "configDefaults =
     [(''maxmemory'', ''0''), (''maxmemory-policy'', ''noeviction''), (''save'', ''''), (''appendonly'', ''no''),
      (''timeout'', ''0'')]"

definition handleConfig :: "('s, 'k) chandler" where
  "handleConfig args =
     (let sub = toLower (args ! 1); n = length args;
          badArity = replies (Error (''ERR Wrong number of arguments for CONFIG '' @ args ! 1)) in
      if sub = ''get'' then
        (if n \<noteq> 3 then badArity
         else
           let param = toLower (args ! 2) in
           case map_of configDefaults param of
             None \<Rightarrow> replies EmptyArray
           | Some v \<Rightarrow> replies (BulkArray (Some [param, v])))
      else if sub = ''set'' then (if n \<noteq> 4 then badArity else replies (SimpleString ''OK''))
      else if sub = ''resetstat'' \<or> sub = ''rewrite'' then
        (if n \<noteq> 2 then badArity else replies (SimpleString ''OK''))
      else replies (Error ''ERR CONFIG subcommand must be one of GET, SET, RESETSTAT, REWRITE''))"

definition handleDBSize :: "('s, 'k) chandler" where
  "handleDBSize args = replies (IntReply 0)"

definition handleTime :: "('s, 'k) senv \<Rightarrow> ('s, 'k) chandler" where
  "handleTime X args s =
     (let micros = (nanos X s mod 1000000000) div 1000 in
      replies (BulkArray (Some [fmt_int (epoch X s), fmt_int micros])) s)"

section \<open>SLOWLOG\<close>

definition defaultSlowlogCount :: int where "defaultSlowlogCount = 10"

definition errSlowlogSubcommand :: bytes where
  "errSlowlogSubcommand = ''ERR Unknown SLOWLOG subcommand or wrong # of args. Try GET, RESET, LEN.''"

text \<open>Seconds and microseconds of the nanoseconds kept; a duration is not negative.\<close>

definition slowlogGet :: "('s, 'k) chandler" where
  "slowlogGet args s =
     (case (if length args \<ge> 3 then ParseInt (args ! 2) else Inr defaultSlowlogCount) of
        Inl _ \<Rightarrow> replies (Error ErrNotInteger) s
      | Inr cnt \<Rightarrow>
          replies (SlowlogReply (map (\<lambda>e.
            (se_ID e, (case se_Time e of None \<Rightarrow> - 62135596800 | Some t \<Rightarrow> t div 1000000000), se_Duration e div 1000,
             se_Command e # se_Args e)) (SlowLog_Get cnt (sv_slow s)))) s)"

definition handleSlowlog :: "('s, 'k) chandler" where
  "handleSlowlog args s =
     (let sub = toLower (args ! 1); n = length args in
      if sub = ''get'' \<and> (n = 2 \<or> n = 3) then slowlogGet args s
      else if sub = ''len'' \<and> n = 2 then replies (IntReply (int (SlowLog_Len (sv_slow s)))) s
      else if sub = ''reset'' \<and> n = 2 then replies (SimpleString ''OK'') (s\<lparr>sv_slow := SlowLog_Reset (sv_slow s)\<rparr>)
      else replies (Error errSlowlogSubcommand) s)"

section \<open>INFO\<close>

definition redisVersion :: bytes where
  "redisVersion = ''3.2.2''"

definition writeInfoField :: "bytes \<Rightarrow> bytes \<Rightarrow> bytes" where
  "writeInfoField key val = key @ '':'' @ val @ crlf"

text \<open>The calls of all commands together; without collectors nothing was counted.\<close>

definition totalCommands :: "('s, 'k) srv \<Rightarrow> nat" where
  "totalCommands s = sum_list (map snd (mt_qps (sv_metrics s)))"

definition info_sections :: "('s, 'k) srv \<Rightarrow> (bytes \<times> bytes) list" where
  "info_sections s =
     [(''Server'', writeInfoField ''redis_version'' redisVersion @ writeInfoField ''redis_mode'' ''standalone''),
      (''Replication'', writeInfoField ''role'' ''master'' @ writeInfoField ''connected_slaves'' ''0''),
      (''Stats'', writeInfoField ''total_commands_processed'' (fmt_nat (totalCommands s))),
      (''Slowlog'', writeInfoField ''slowlog_len'' (fmt_int (int (SlowLog_Len (sv_slow s)))))]"

definition buildInfo :: "bytes \<Rightarrow> ('s, 'k) srv \<Rightarrow> bytes" where
  "buildInfo sec s =
     (let every = (sec \<in> {[], ''default'', ''all'', ''everything''}) in
      foldl (\<lambda>b (name, fields).
        if \<not> every \<and> sec \<noteq> toLower name then b
        else b @ (if b \<noteq> [] then crlf else []) @ ''# '' @ name @ crlf @ fields) [] (info_sections s))"

definition handleInfo :: "('s, 'k) chandler" where
  "handleInfo args s =
     replies (BulkString (buildInfo (if length args \<ge> 2 then toLower (args ! 1) else []) s)) s"

end
