(* ===== verification/Commands.thy ===== *)
theory Commands
  imports Connection Scans Keys Strings BitCmds Lists Hashes Sets ZSets Hll Geo
begin

text \<open>
  The command table: every command the router registers, with its arity and handler, family by
  family as the \<^verbatim>\<open>register*\<close> methods of \<^verbatim>\<open>internal/command\<close> have them, and the texts of the families the
  proxy declines (\<^verbatim>\<open>rejected.go\<close>).
\<close>

type_synonym ('s, 'k) registration = "bytes \<times> int \<times> bool \<times> ('s, 'k) chandler option"

section \<open>Declined commands\<close>

definition errPubSubUnsupported :: bytes where
  "errPubSubUnsupported =
     ''ERR Pub/Sub is not supported on this proxy (requires stateful, connection-level subscriptions)''"

definition errScriptUnsupported :: bytes where
  "errScriptUnsupported =
     ''ERR Lua scripting is not supported on this proxy (no embedded interpreter)''"

definition errTxnUnsupported :: bytes where
  "errTxnUnsupported =
     ''ERR transactions (MULTI/EXEC/WATCH) are not supported on this proxy''"

definition errBlockingUnsupported :: bytes where
  "errBlockingUnsupported =
     ''ERR blocking commands are not supported on this proxy (use the non-blocking LPOP/RPOP/RPOPLPUSH)''"

definition errShutdownUnsupported :: bytes where
  "errShutdownUnsupported =
     ''ERR SHUTDOWN is not supported on this proxy (it would terminate a process shared by all tenants)''"

definition errAskingUnsupported :: bytes where
  "errAskingUnsupported =
     ''ERR ASKING is not supported on this proxy (Redis Cluster slot migration does not apply)''"

definition errReadOnlyUnsupported :: bytes where
  "errReadOnlyUnsupported =
     ''ERR READONLY is not supported on this proxy (Redis Cluster replica reads do not apply)''"

definition errReadWriteUnsupported :: bytes where
  "errReadWriteUnsupported =
     ''ERR READWRITE is not supported on this proxy (Redis Cluster replica reads do not apply)''"

definition errReplconfUnsupported :: bytes where
  "errReplconfUnsupported =
     ''ERR REPLCONF is not supported on this proxy (replication sub-protocol; no master/replica link exists)''"

definition errRandomKeyUnsupported :: bytes where
  "errRandomKeyUnsupported =
     ''ERR RANDOMKEY is not supported on this proxy (it requires an unbounded full-table scan; use SCAN)''"

definition errMoveUnsupported :: bytes where
  "errMoveUnsupported =
     ''ERR MOVE is not supported on this proxy (a cross-DB move is a non-atomic whole-collection rewrite)''"

definition errSortUnsupported :: bytes where
  "errSortUnsupported =
     ''ERR SORT is not supported on this proxy (BY/GET fan-out is unbounded and STORE is not atomic)''"

definition errObjectUnsupported :: bytes where
  "errObjectUnsupported =
     ''ERR OBJECT is not supported on this proxy (DynamoDB items have no Redis-internal encoding/refcount/idletime)''"

definition errMonitorUnsupported :: bytes where
  "errMonitorUnsupported =
     ''ERR MONITOR is not supported on this proxy (it requires a global, cross-connection command stream)''"

definition errClusterUnsupported :: bytes where
  "errClusterUnsupported =
     ''ERR CLUSTER is not supported on this proxy (a single logical keyspace over one DynamoDB table has no cluster/slots)''"

definition errLatencyUnsupported :: bytes where
  "errLatencyUnsupported =
     ''ERR LATENCY is not supported on this proxy (no in-process latency-spike monitor is kept)''"

definition errDebugUnsupported :: bytes where
  "errDebugUnsupported =
     ''ERR DEBUG is not supported on this proxy (server-internal debugging knobs are not available)''"

definition errDumpUnsupported :: bytes where
  "errDumpUnsupported =
     ''ERR DUMP is not supported on this proxy (it requires Redis'' @ [CHR 0x27] @ '' internal RDB serialization)''"

definition errRestoreUnsupported :: bytes where
  "errRestoreUnsupported =
     ''ERR RESTORE is not supported on this proxy (it requires deserializing a Redis RDB payload)''"

definition errRestoreAskingUnsupported :: bytes where
  "errRestoreAskingUnsupported =
     ''ERR RESTORE-ASKING is not supported on this proxy (Redis Cluster slot migration plus RDB deserialization)''"

definition errMigrateUnsupported :: bytes where
  "errMigrateUnsupported =
     ''ERR MIGRATE is not supported on this proxy (it requires DUMP/RESTORE against another Redis instance)''"

definition errSyncUnsupported :: bytes where
  "errSyncUnsupported =
     ''ERR SYNC is not supported on this proxy (there is no in-memory dataset to stream as RDB)''"

definition errPsyncUnsupported :: bytes where
  "errPsyncUnsupported =
     ''ERR PSYNC is not supported on this proxy (there is no replication backlog or offset)''"

definition errSlaveofUnsupported :: bytes where
  "errSlaveofUnsupported =
     ''ERR SLAVEOF is not supported on this proxy (it owns no local dataset and cannot replicate)''"

definition registerReject :: "bytes \<Rightarrow> int \<Rightarrow> bytes \<Rightarrow> ('s, 'k) registration" where
  "registerReject name arity msg = (name, arity, False, Some (\<lambda>_. replies (Error msg)))"

definition registerRejected :: "('s, 'k) registration list" where
  "registerRejected =
     [registerReject ''SUBSCRIBE'' (-2) errPubSubUnsupported,
      registerReject ''UNSUBSCRIBE'' (-1) errPubSubUnsupported,
      registerReject ''PSUBSCRIBE'' (-2) errPubSubUnsupported,
      registerReject ''PUNSUBSCRIBE'' (-1) errPubSubUnsupported,
      registerReject ''PUBLISH'' (3) errPubSubUnsupported,
      registerReject ''PUBSUB'' (-2) errPubSubUnsupported,
      registerReject ''EVAL'' (-3) errScriptUnsupported,
      registerReject ''EVALSHA'' (-3) errScriptUnsupported,
      registerReject ''SCRIPT'' (-2) errScriptUnsupported,
      registerReject ''MULTI'' (1) errTxnUnsupported,
      registerReject ''EXEC'' (1) errTxnUnsupported,
      registerReject ''DISCARD'' (1) errTxnUnsupported,
      registerReject ''WATCH'' (-2) errTxnUnsupported,
      registerReject ''UNWATCH'' (1) errTxnUnsupported,
      registerReject ''BLPOP'' (-3) errBlockingUnsupported,
      registerReject ''BRPOP'' (-3) errBlockingUnsupported,
      registerReject ''BRPOPLPUSH'' (4) errBlockingUnsupported,
      registerReject ''SHUTDOWN'' (-1) errShutdownUnsupported,
      registerReject ''ASKING'' (1) errAskingUnsupported,
      registerReject ''READONLY'' (1) errReadOnlyUnsupported,
      registerReject ''READWRITE'' (1) errReadWriteUnsupported,
      registerReject ''REPLCONF'' (-1) errReplconfUnsupported,
      registerReject ''RANDOMKEY'' (1) errRandomKeyUnsupported,
      registerReject ''MOVE'' (3) errMoveUnsupported,
      registerReject ''SORT'' (-2) errSortUnsupported,
      registerReject ''OBJECT'' (3) errObjectUnsupported,
      registerReject ''MONITOR'' (1) errMonitorUnsupported,
      registerReject ''CLUSTER'' (-2) errClusterUnsupported,
      registerReject ''LATENCY'' (-2) errLatencyUnsupported,
      registerReject ''DEBUG'' (-1) errDebugUnsupported,
      registerReject ''DUMP'' (2) errDumpUnsupported,
      registerReject ''RESTORE'' (-4) errRestoreUnsupported,
      registerReject ''RESTORE-ASKING'' (-4) errRestoreAskingUnsupported,
      registerReject ''MIGRATE'' (-6) errMigrateUnsupported,
      registerReject ''SYNC'' (1) errSyncUnsupported,
      registerReject ''PSYNC'' (3) errPsyncUnsupported,
      registerReject ''SLAVEOF'' (3) errSlaveofUnsupported]"

section \<open>Connection commands\<close>

definition registerStubs :: "('s, 'k) senv \<Rightarrow> ('s, 'k) registration list" where
  "registerStubs X =
     [(''COMMAND'', -1, False, Some handleCommand),
      (''CLIENT'', -2, False, Some handleClient),
      (''CONFIG'', -2, False, Some handleConfig),
      (''DBSIZE'', 1, False, Some handleDBSize),
      (''TIME'', 1, False, Some (handleTime X)),
      (''INFO'', -1, False, Some handleInfo),
      (''SLOWLOG'', -2, False, Some handleSlowlog),
      (''SAVE'', 1, False, Some handleSave),
      (''BGSAVE'', -1, False, Some handleBgSave),
      (''BGREWRITEAOF'', 1, False, Some handleBgRewriteAOF),
      (''LASTSAVE'', 1, False, Some (handleLastSave X)),
      (''ROLE'', 1, False, Some handleRole),
      (''WAIT'', 3, False, Some handleWait),
      (''PFSELFTEST'', 1, False, Some handlePFSelfTest)]"

definition registerConnection :: "('s, 'k) senv \<Rightarrow> ('s, 'k) registration list" where
  "registerConnection X =
     (let cfg = e_cfg (sx_env X) in
       [(''HELLO'', -1, False, Some handleHello),
        (''PING'', -1, False, Some handlePing),
        (''ECHO'', 2, False, Some handleEcho),
        (''AUTH'', 2, False, Some (handleAuth cfg)),
        (''SELECT'', 2, False, Some (handleSelect cfg)),
        (''QUIT'', 1, False, Some handleQuit)]) @ registerStubs X"

section \<open>Data commands\<close>

definition registerStrings :: "('s, 'k) senv \<Rightarrow> ('s, 'k) registration list" where
  "registerStrings X =
     (let E = sx_env X in
       [(''GET'', 2, False, Some (data (handleGet E))),
         (''SET'', -3, True, Some (data (handleSet E))),
         (''SETNX'', 3, True, Some (data (handleSetNX E))),
         (''SETEX'', 4, True, Some (data (handleSetEX E))),
         (''PSETEX'', 4, True, Some (data (handlePSetEX E))),
         (''GETSET'', 3, True, Some (data (handleGetSet E))),
         (''MGET'', -2, False, Some (data (handleMGet E))),
         (''MSET'', -3, True, Some (data (handleMSet E))),
         (''MSETNX'', -3, True, Some (data (handleMSetNX E))),
         (''INCR'', 2, True, Some (data (handleIncr E))),
         (''DECR'', 2, True, Some (data (handleDecr E))),
         (''INCRBY'', 3, True, Some (data (handleIncrBy E))),
         (''DECRBY'', 3, True, Some (data (handleDecrBy E))),
         (''INCRBYFLOAT'', 3, True, Some (data (handleIncrByFloat E))),
         (''APPEND'', 3, True, Some (data (handleAppend E))),
         (''STRLEN'', 2, False, Some (data (handleStrlen E))),
         (''SETRANGE'', 4, True, Some (data (handleSetRange E))),
         (''GETRANGE'', 4, False, Some (data (handleGetRange E))),
         (''SUBSTR'', 4, False, Some (data (handleGetRange E)))])"

definition registerKeys :: "('s, 'k) senv \<Rightarrow> ('s, 'k) registration list" where
  "registerKeys X =
     (let E = sx_env X in
       [(''DEL'', -2, True, Some (data (handleDel E))),
         (''EXISTS'', -2, False, Some (data (handleExists E))),
         (''TOUCH'', -2, False, Some (data (handleExists E))),
         (''TYPE'', 2, False, Some (data (handleType E))),
         (''EXPIRE'', 3, True, Some (data (handleExpire E))),
         (''EXPIREAT'', 3, True, Some (data (handleExpireAt E))),
         (''PEXPIRE'', 3, True, Some (data (handlePExpire E))),
         (''PEXPIREAT'', 3, True, Some (data (handlePExpireAt E))),
         (''TTL'', 2, False, Some (data (handleTTL E))),
         (''PTTL'', 2, False, Some (data (handlePTTL E))),
         (''PERSIST'', 2, True, Some (data (handlePersist E))),
         (''SCAN'', -2, False, Some (handleScan X)),
         (''KEYS'', 2, False, Some (data (\<lambda>_ _. handleKeys))),
         (''RENAME'', 3, True, Some (data (\<lambda>_ _. handleRename))),
         (''RENAMENX'', 3, True, Some (data (\<lambda>_ _. handleRename))),
         (''FLUSHALL'', 1, True, Some (data (\<lambda>_ _. handleFlush))),
         (''FLUSHDB'', 1, True, Some (data (\<lambda>_ _. handleFlush)))])"

definition registerHashes :: "('s, 'k) senv \<Rightarrow> ('s, 'k) registration list" where
  "registerHashes X =
     (let E = sx_env X in
       [(''HSET'', 4, True, Some (data (handleHSet E))),
         (''HSETNX'', 4, True, Some (data (handleHSetNX E))),
         (''HGET'', 3, False, Some (data (handleHGet E))),
         (''HMSET'', -4, True, Some (data (handleHMSet E))),
         (''HMGET'', -3, False, Some (data (handleHMGet E))),
         (''HGETALL'', 2, False, Some (data (handleHGetAll E))),
         (''HDEL'', -3, True, Some (data (handleHDel E))),
         (''HEXISTS'', 3, False, Some (data (handleHExists E))),
         (''HKEYS'', 2, False, Some (data (handleHKeys E))),
         (''HVALS'', 2, False, Some (data (handleHVals E))),
         (''HLEN'', 2, False, Some (data (handleHLen E))),
         (''HINCRBY'', 4, True, Some (data (handleHIncrBy E))),
         (''HINCRBYFLOAT'', 4, True, Some (data (handleHIncrByFloat E))),
         (''HSTRLEN'', 3, False, Some (data (handleHStrlen E))),
         (''HSCAN'', -3, False, Some (handleHScan X))])"

definition registerSets :: "('s, 'k) senv \<Rightarrow> ('s, 'k) registration list" where
  "registerSets X =
     (let E = sx_env X in
       [(''SADD'', -3, True, Some (data (handleSAdd E))),
         (''SREM'', -3, True, Some (data (handleSRem E))),
         (''SISMEMBER'', 3, False, Some (data (handleSIsMember E))),
         (''SMEMBERS'', 2, False, Some (data (handleSMembers E))),
         (''SCARD'', 2, False, Some (data (handleSCard E))),
         (''SPOP'', -2, True, Some (data (handleSPop E (sx_pick X)))),
         (''SRANDMEMBER'', -2, False, Some (data (handleSRandMember E (sx_pick X)))),
         (''SSCAN'', -3, False, Some (handleSScan X)),
         (''SUNION'', -2, False, Some (data (handleSUnion E (sx_iter X)))),
         (''SINTER'', -2, False, Some (data (handleSInter E (sx_iter X)))),
         (''SDIFF'', -2, False, Some (data (handleSDiff E (sx_iter X)))),
         (''SUNIONSTORE'', -3, True, Some (data (handleSUnionStore E (sx_iter X)))),
         (''SINTERSTORE'', -3, True, Some (data (handleSInterStore E (sx_iter X)))),
         (''SDIFFSTORE'', -3, True, Some (data (handleSDiffStore E (sx_iter X)))),
         (''SMOVE'', 4, True, Some (data (handleSMove E)))])"

definition registerZSets :: "('s, 'k) senv \<Rightarrow> ('s, 'k) registration list" where
  "registerZSets X =
     (let E = sx_env X in
       [(''ZADD'', -4, True, Some (data (handleZAdd E))),
         (''ZREM'', -3, True, Some (data (handleZRem E))),
         (''ZSCORE'', 3, False, Some (data (handleZScore E))),
         (''ZINCRBY'', 4, True, Some (data (handleZIncrBy E))),
         (''ZCARD'', 2, False, Some (data (handleZCard E))),
         (''ZCOUNT'', 4, False, Some (data (handleZCount E))),
         (''ZRANGE'', -4, False, Some (data (handleZRange E))),
         (''ZREVRANGE'', -4, False, Some (data (handleZRevRange E))),
         (''ZRANGEBYSCORE'', -4, False, Some (data (handleZRangeByScore E))),
         (''ZREVRANGEBYSCORE'', -4, False, Some (data (handleZRevRangeByScore E))),
         (''ZRANK'', 3, False, Some (data (handleZRank E))),
         (''ZREVRANK'', 3, False, Some (data (handleZRevRank E))),
         (''ZREMRANGEBYRANK'', 4, True, Some (data (handleZRemRangeByRank E))),
         (''ZREMRANGEBYSCORE'', 4, True, Some (data (handleZRemRangeByScore E))),
         (''ZSCAN'', -3, False, Some (handleZScan X)),
         (''ZRANGEBYLEX'', -4, False, Some (data (handleZRangeByLex E))),
         (''ZREVRANGEBYLEX'', -4, False, Some (data (handleZRevRangeByLex E))),
         (''ZLEXCOUNT'', 4, False, Some (data (handleZLexCount E))),
         (''ZREMRANGEBYLEX'', 4, True, Some (data (handleZRemRangeByLex E))),
         (''ZUNIONSTORE'', -4, True, Some (data (handleZUnionStore E (sx_iter X)))),
         (''ZINTERSTORE'', -4, True, Some (data (handleZInterStore E (sx_iter X))))])"

definition registerLists :: "('s, 'k) senv \<Rightarrow> ('s, 'k) registration list" where
  "registerLists X =
     (let E = sx_env X in
       [(''LPUSH'', -3, True, Some (data (handleLPush E))),
         (''RPUSH'', -3, True, Some (data (handleRPush E))),
         (''LPUSHX'', 3, True, Some (data (handleLPushX E))),
         (''RPUSHX'', 3, True, Some (data (handleRPushX E))),
         (''LPOP'', 2, True, Some (data (handleLPop E))),
         (''RPOP'', 2, True, Some (data (handleRPop E))),
         (''LRANGE'', 4, False, Some (data (handleLRange E))),
         (''LINDEX'', 3, False, Some (data (handleLIndex E))),
         (''LLEN'', 2, False, Some (data (handleLLen E))),
         (''LSET'', 4, True, Some (data (handleLSet E))),
         (''LTRIM'', 4, True, Some (data (handleLTrim E))),
         (''LREM'', 4, True, Some (data (handleLRem E))),
         (''LINSERT'', 5, True, Some (data (handleLInsert E))),
         (''RPOPLPUSH'', 3, True, Some (data (handleRPopLPush E)))])"

definition registerBit :: "('s, 'k) senv \<Rightarrow> ('s, 'k) registration list" where
  "registerBit X =
     (let E = sx_env X in
       [(''SETBIT'', 4, True, Some (data (handleSetBit E))),
         (''GETBIT'', 3, False, Some (data (handleGetBit E))),
         (''BITCOUNT'', -2, False, Some (data (handleBitCount E))),
         (''BITPOS'', -3, False, Some (data (handleBitPos E))),
         (''BITOP'', -4, True, Some (data (handleBitOp E))),
         (''BITFIELD'', -2, True, Some (data (handleBitField E)))])"

definition registerHLL :: "('s, 'k) senv \<Rightarrow> ('s, 'k) registration list" where
  "registerHLL X =
     (let E = sx_env X; M = sx_math X in
       [(''PFADD'', -2, True, Some (data (handlePFAdd E))),
         (''PFCOUNT'', -2, False, Some (data (handlePFCount M E))),
         (''PFMERGE'', -2, True, Some (data (handlePFMerge E))),
         (''PFDEBUG'', -3, False, Some (data (handlePFDebug E)))])"

definition registerGeo :: "('s, 'k) senv \<Rightarrow> ('s, 'k) registration list" where
  "registerGeo X =
     (let E = sx_env X; M = sx_math X in
       [(''GEOADD'', -5, True, Some (data (handleGeoAdd M E))),
         (''GEODIST'', -4, False, Some (data (handleGeoDist M E))),
         (''GEOPOS'', -2, False, Some (data (handleGeoPos M E))),
         (''GEOHASH'', -2, False, Some (data (handleGeoHash M E))),
         (''GEORADIUS'', -6, True, Some (data (handleGeoRadius M E))),
         (''GEORADIUSBYMEMBER'', -5, True, Some (data (handleGeoRadiusByMember M E))),
         (''GEORADIUS_RO'', -6, False, Some (data (handleGeoRadius M E))),
         (''GEORADIUSBYMEMBER_RO'', -5, False, Some (data (handleGeoRadiusByMember M E)))])"

definition registerDataCommands :: "('s, 'k) senv \<Rightarrow> ('s, 'k) registration list" where
  "registerDataCommands X =
     registerStrings X @ registerKeys X @ registerHashes X @ registerSets X @ registerZSets X @
     registerLists X @ registerBit X @ registerHLL X @ registerGeo X @ registerRejected"

end
