(* ===== verification/Dispatch.thy ===== *)
theory Dispatch
  imports Commands
begin

text \<open>
  From a parsed command to its reply: the command table (\<^verbatim>\<open>internal/command/table.go\<close>, \<^verbatim>\<open>router.go\<close>),
  the router with its authentication gate (\<^verbatim>\<open>connection.go\<close>, \<^verbatim>\<open>router_storage.go\<close>), the breaker and
  observing decorators (\<^verbatim>\<open>breaker.go\<close>, \<^verbatim>\<open>observe.go\<close>), the counters they feed
  (\<^verbatim>\<open>internal/metrics\<close>) and the server callback (\<^verbatim>\<open>internal/server/server.go\<close>). A dispatcher writes one
  reply or none. Deadlines are not modelled.
\<close>

section \<open>The command table\<close>

record ('s, 'k) cmdSpec =
  cs_Name :: bytes
  cs_Arity :: int
  cs_Handler :: "('s, 'k) chandler"
  cs_Write :: bool

type_synonym ('s, 'k) cmdTable = "bytes \<rightharpoonup> ('s, 'k) cmdSpec"

datatype regErr = RegEmptyName | RegNilHandler bytes | RegDuplicate bytes

definition NewTable :: "('s, 'k) cmdTable" where
  "NewTable = Map.empty"

definition Register :: "('s, 'k) registration \<Rightarrow> ('s, 'k) cmdTable \<Rightarrow> regErr + ('s, 'k) cmdTable" where
  "Register reg t =
     (case reg of (name, arity, write, h) \<Rightarrow>
        if name = [] then Inl RegEmptyName
        else
          (case h of
             None \<Rightarrow> Inl (RegNilHandler name)
           | Some hdl \<Rightarrow>
               let lower = toLower name in
               if t lower \<noteq> None then Inl (RegDuplicate lower)
               else Inr (t(lower \<mapsto> \<lparr>cs_Name = lower, cs_Arity = arity, cs_Handler = hdl, cs_Write = write\<rparr>))))"

definition Lookup :: "('s, 'k) cmdTable \<Rightarrow> bytes \<Rightarrow> ('s, 'k) cmdSpec option" where
  "Lookup t name = t (toLower name)"

definition arityOK :: "('s, 'k) cmdSpec \<Rightarrow> int \<Rightarrow> bool" where
  "arityOK spec argc = (if cs_Arity spec \<ge> 0 then argc = cs_Arity spec else argc \<ge> - cs_Arity spec)"

section \<open>The router\<close>

record ('s, 'k) router =
  rt_Table :: "('s, 'k) cmdTable"
  rt_Config :: config
  rt_regErrs :: "regErr list"

definition reg :: "('s, 'k) registration \<Rightarrow> ('s, 'k) router \<Rightarrow> ('s, 'k) router" where
  "reg g r =
     (case Register g (rt_Table r) of
        Inl e \<Rightarrow> r\<lparr>rt_regErrs := rt_regErrs r @ [e]\<rparr>
      | Inr t \<Rightarrow> r\<lparr>rt_Table := t\<rparr>)"

text \<open>A router with registration errors is not built: the process panics (\<open>None\<close>).\<close>

definition finishRegistration :: "('s, 'k) router \<Rightarrow> ('s, 'k) router option" where
  "finishRegistration r = (if rt_regErrs r = [] then Some r else None)"

definition NewRouter :: "('s, 'k) senv \<Rightarrow> ('s, 'k) router option" where
  "NewRouter X =
     finishRegistration (fold reg (registerConnection X)
       \<lparr>rt_Table = NewTable, rt_Config = e_cfg (sx_env X), rt_regErrs = []\<rparr>)"

text \<open>The router over a store; without one (\<open>store = False\<close>) only the connection commands are there.\<close>

definition NewRouterWithStorage :: "('s, 'k) senv \<Rightarrow> bool \<Rightarrow> ('s, 'k) router option" where
  "NewRouterWithStorage X store =
     finishRegistration
       (fold reg (registerConnection X @ (if store then registerDataCommands X else []))
         \<lparr>rt_Table = NewTable, rt_Config = e_cfg (sx_env X), rt_regErrs = []\<rparr>)"

type_synonym ('s, 'k) dispatcher = "bytes list \<Rightarrow> ('s, 'k, reply option) sact"

text \<open>Writing a reply through the observing connection.\<close>

definition emit :: "reply \<Rightarrow> ('s, 'k, reply option) sact" where
  "emit r s = Some (Some r, set_conn (\<lambda>c. c\<lparr>cn_obs := WriteRaw (write_reply r) (cn_obs c)\<rparr>) s)"

definition Table_Dispatch :: "('s, 'k) cmdTable \<Rightarrow> ('s, 'k) dispatcher" where
  "Table_Dispatch t args s =
     (if args = [] then Some (None, s)
      else
        case Lookup t (args ! 0) of
          None \<Rightarrow> emit (Error (ErrUnknownCommand (args ! 0))) s
        | Some spec \<Rightarrow>
            if \<not> arityOK spec (int (length args)) then emit (Error (ErrWrongNumberOfArgs (cs_Name spec))) s
            else sbind (cs_Handler spec args) emit s)"

definition Router_Dispatch :: "('s, 'k) router \<Rightarrow> ('s, 'k) dispatcher" where
  "Router_Dispatch r args s =
     (if args = [] then Some (None, s)
      else if toLower (args ! 0) = ''quit'' then sbind (handleQuit args) emit s
      else
        case Lookup (rt_Table r) (args ! 0) of
          None \<Rightarrow> emit (Error (ErrUnknownCommand (args ! 0))) s
        | Some spec \<Rightarrow>
            if \<not> arityOK spec (int (length args)) then emit (Error (ErrWrongNumberOfArgs (cs_Name spec))) s
            else if RequirePass (rt_Config r) \<noteq> [] \<and> \<not> cn_authed (sv_conn s) \<and> cs_Name spec \<noteq> ''auth'' \<and> cs_Name spec \<noteq> ''hello''
            then emit (Error ErrNoAuth) s
            else sbind (cs_Handler spec args) emit s)"

section \<open>Decorators\<close>

definition breakerExemptCommands :: "bytes list" where
  "breakerExemptCommands =
     [''ping'', ''echo'', ''auth'', ''select'', ''hello'', ''quit'', ''command'', ''info'', ''slowlog'', ''config'', ''client'']"

text \<open>\<open>get\<close> reads the shared breaker; no breaker means no decorator.\<close>

definition BreakerDispatch :: "('s, 'k) senv \<Rightarrow> ('s \<Rightarrow> breaker option) \<Rightarrow> ('s, 'k) dispatcher \<Rightarrow> ('s, 'k) dispatcher" where
  "BreakerDispatch X get inner args s =
     (if args \<noteq> [] \<and> Open (nanos X s) (get (backend (sv_world s))) \<and> ToLower (args ! 0) \<notin> set breakerExemptCommands
      then emit (Error ErrBackendThrottled) s
      else inner args s)"

definition NewBreakerDispatcher ::
    "('s, 'k) senv \<Rightarrow> ('s \<Rightarrow> breaker option) option \<Rightarrow> ('s, 'k) dispatcher \<Rightarrow> ('s, 'k) dispatcher" where
  "NewBreakerDispatcher X brk inner = (case brk of None \<Rightarrow> inner | Some get \<Rightarrow> BreakerDispatch X get inner)"

definition commandFamilies :: "(bytes \<times> bytes list) list" where
  "commandFamilies =
     [(''string'', [''get'', ''set'', ''setnx'', ''setex'', ''psetex'', ''getset'', ''mget'', ''mset'', ''msetnx'', ''append'',
         ''strlen'', ''setrange'', ''getrange'', ''substr'', ''incr'', ''decr'', ''incrby'', ''decrby'', ''incrbyfloat'']),
      (''hash'', [''hget'', ''hset'', ''hsetnx'', ''hmget'', ''hmset'', ''hdel'', ''hexists'', ''hgetall'', ''hkeys'', ''hvals'',
         ''hlen'', ''hstrlen'', ''hincrby'', ''hincrbyfloat'', ''hscan'']),
      (''list'', [''lpush'', ''rpush'', ''lpushx'', ''rpushx'', ''lpop'', ''rpop'', ''llen'', ''lrange'', ''lindex'', ''lset'',
         ''lrem'', ''ltrim'', ''linsert'', ''rpoplpush'']),
      (''set'', [''sadd'', ''srem'', ''sismember'', ''smembers'', ''scard'', ''spop'', ''srandmember'', ''sscan'', ''sunion'',
         ''sinter'', ''sdiff'', ''sunionstore'', ''sinterstore'', ''sdiffstore'', ''smove'']),
      (''zset'', [''zadd'', ''zrem'', ''zscore'', ''zincrby'', ''zcard'', ''zcount'', ''zrange'', ''zrevrange'',
         ''zrangebyscore'', ''zrevrangebyscore'', ''zrangebylex'', ''zrevrangebylex'', ''zrank'', ''zrevrank'',
         ''zremrangebyrank'', ''zremrangebyscore'', ''zremrangebylex'', ''zlexcount'', ''zpopmin'', ''zpopmax'', ''zscan'',
         ''zunionstore'', ''zinterstore'']),
      (''key'', [''del'', ''exists'', ''expire'', ''expireat'', ''pexpire'', ''pexpireat'', ''ttl'', ''pttl'', ''persist'', ''type'',
         ''rename'', ''renamenx'', ''keys'', ''scan'', ''randomkey'', ''dbsize'', ''touch'', ''object'']),
      (''bit'', [''setbit'', ''getbit'', ''bitcount'', ''bitpos'', ''bitop'', ''bitfield'']),
      (''hll'', [''pfadd'', ''pfcount'', ''pfmerge'', ''pfselftest'']),
      (''geo'', [''geoadd'', ''geodist'', ''geopos'', ''geohash'', ''georadius'', ''georadiusbymember'']),
      (''connection'', [''ping'', ''echo'', ''auth'', ''select'', ''hello'', ''quit'']),
      (''server'', [''info'', ''slowlog'', ''command'', ''config'', ''client'', ''flushdb'', ''flushall''])]"

definition commandFamilyIndex :: "bytes \<rightharpoonup> bytes" where
  "commandFamilyIndex = map_of (concat (map (\<lambda>(fam, cmds). map (\<lambda>c. (c, fam)) cmds) commandFamilies))"

definition commandFamily :: "bytes \<Rightarrow> bytes" where
  "commandFamily name = (case commandFamilyIndex name of Some fam \<Rightarrow> fam | None \<Rightarrow> ''other'')"

definition ObserveCommand :: "bytes \<Rightarrow> int \<Rightarrow> bool \<Rightarrow> bytes \<Rightarrow> metrics \<Rightarrow> metrics" where
  "ObserveCommand name dur isErr cls m =
     (let k = (name, commandFamily name);
          m1 = m\<lparr>mt_qps := AList.update k ((case map_of (mt_qps m) k of None \<Rightarrow> 0 | Some n \<Rightarrow> n) + 1) (mt_qps m), mt_latency := (mt_latency m)(k := dur # mt_latency m k)\<rparr> in
      if isErr then
        let e = (name, commandFamily name, if cls = [] then ''ERR'' else cls) in
        m1\<lparr>mt_errors := (mt_errors m1)(e := mt_errors m1 e + 1)\<rparr>
      else m1)"

definition argsToStrings :: "bytes list \<Rightarrow> bytes list" where
  "argsToStrings args = take 32 args"

text \<open>\<open>m\<close> and \<open>sl\<close>: there is a collector set, there is a slow log.\<close>

definition ObservedDispatch :: "('s, 'k) senv \<Rightarrow> bool \<Rightarrow> bool \<Rightarrow> int \<Rightarrow> ('s, 'k) dispatcher \<Rightarrow> ('s, 'k) dispatcher" where
  "ObservedDispatch X m sl threshold inner args s =
     (if args = [] then inner args s
      else
        let start = nanos X s in
        case inner args (set_conn (\<lambda>c. c\<lparr>cn_obs := ResetErrored (cn_obs c)\<rparr>) s) of
          None \<Rightarrow> None
        | Some (r, s1) \<Rightarrow>
            let dur = nanos X s1 - start; name = ToLower (args ! 0);
                s2 = (if m then s1\<lparr>sv_metrics := ObserveCommand name dur (errored (cn_obs (sv_conn s1)))
                        (errClass (cn_obs (sv_conn s1))) (sv_metrics s1)\<rparr> else s1);
                s3 = (if sl \<and> dur \<ge> threshold
                      then s2\<lparr>sv_slow := snd (SlowLog_Record (nanos X s2)
                        \<lparr>se_ID = 0, se_Time = Some start, se_Duration = dur, se_Command = name, se_Args = argsToStrings args\<rparr>
                        (sv_slow s2))\<rparr>
                      else s2)
            in Some (r, s3))"

section \<open>The request log\<close>

datatype requestLogLevel = LogNone | LogErrors | LogSlow | LogAll

text \<open>One structured line; \<open>ll_remote\<close> is the address redcon reports for the connection.\<close>

record logLine =
  ll_cmd :: bytes
  ll_argc :: nat
  ll_bytes :: nat
  ll_latency_us :: int
  ll_result :: bytes
  ll_error_class :: bytes
  ll_db :: int
  ll_remote :: bytes

definition approxCommandBytes :: "bytes list \<Rightarrow> nat" where
  "approxCommandBytes args = foldl (\<lambda>total a. total + length a) 0 args"

text \<open>\<open>logger\<close>: there is a logger. The line a served command adds to the log, if any.\<close>

definition logRequest ::
    "bool \<Rightarrow> requestLogLevel \<Rightarrow> int \<Rightarrow> bytes \<Rightarrow> bytes list \<Rightarrow> int \<Rightarrow> conn \<Rightarrow> bytes \<Rightarrow> logLine option" where
  "logRequest logger level threshold name args dur c remote =
     (if \<not> logger \<or> level = LogNone then None
      else
        let isErr = errored (cn_obs c); slow = dur \<ge> threshold in
        if level = LogErrors \<and> \<not> isErr then None
        else if level = LogSlow \<and> \<not> isErr \<and> \<not> slow then None
        else Some
          \<lparr>ll_cmd = name, ll_argc = length args, ll_bytes = approxCommandBytes args, ll_latency_us = tdiv dur 1000,
           ll_result = (if isErr then ''error'' else ''ok''), ll_error_class = errClass (cn_obs c),
           ll_db = cn_db c, ll_remote = remote\<rparr>)"

text \<open>The log shows no argument: commands of the same name whose arguments have the same sizes log alike.\<close>

lemma approxCommandBytes_sum: "approxCommandBytes args = sum_list (map length args)"
proof -
  have "foldl (\<lambda>total a. total + length a) n args = n + sum_list (map length args)" for n
    by (induction args arbitrary: n) simp_all
  then show ?thesis by (simp add: approxCommandBytes_def)
qed

lemma logRequest_shows_no_argument:
  assumes "map length args = map length args'"
  shows "logRequest logger level threshold name args dur c remote = logRequest logger level threshold name args' dur c remote"
proof -
  have len: "length args = length args'" using assms by (rule map_eq_imp_length_eq)
  have bytes: "approxCommandBytes args = approxCommandBytes args'" by (simp add: approxCommandBytes_sum assms)
  show ?thesis unfolding logRequest_def len bytes ..
qed

section \<open>The server callback\<close>

text \<open>\<open>raw\<close> is the size of the command on the wire; a closing server answers nothing.\<close>

definition onCommand :: "int \<Rightarrow> bool \<Rightarrow> ('s, 'k) dispatcher \<Rightarrow> int \<Rightarrow> ('s, 'k) dispatcher" where
  "onCommand MaxCommandBytes closing disp raw args s =
     (if args = [] then Some (None, s)
      else if MaxCommandBytes > 0 \<and> raw > MaxCommandBytes
      then Some (Some (Error ''ERR command exceeds the configured maximum size''), s)
      else if closing then Some (None, s)
      else disp args s)"

text \<open>The commands of a connection are served one after the other.\<close>

fun serve :: "('s, 'k) dispatcher \<Rightarrow> bytes list list \<Rightarrow> ('s, 'k, reply option list) sact" where
  "serve disp [] s = Some ([], s)"
| "serve disp (args # cmds) s =
     sbind (disp args) (\<lambda>r. sbind (serve disp cmds) (\<lambda>rs s. Some (r # rs, s))) s"

end
