(* ===== verification/DispatchSpec.thy ===== *)
theory DispatchSpec
  imports Dispatch "HOL-Library.Multiset"
begin

text \<open>
  Properties of dispatch: the command table is built without an error and finds every registered
  command in every spelling; a client that has not authenticated cannot touch data; the order of the
  checks; what the decorators record.
\<close>

section \<open>Registration\<close>

definition reg_name :: "('s, 'k) registration \<Rightarrow> bytes" where
  "reg_name g = fst g"

definition reg_spec :: "('s, 'k) registration \<Rightarrow> ('s, 'k) cmdSpec" where
  "reg_spec g = (case g of (name, arity, write, h) \<Rightarrow>
     \<lparr>cs_Name = toLower name, cs_Arity = arity, cs_Handler = the h, cs_Write = write\<rparr>)"

definition reg_ok :: "('s, 'k) registration \<Rightarrow> bool" where
  "reg_ok g \<longleftrightarrow> fst g \<noteq> [] \<and> snd (snd (snd g)) \<noteq> None"

lemma fold_reg:
  assumes "list_all reg_ok gs" and "distinct (map (\<lambda>g. toLower (reg_name g)) gs)"
    and "\<forall>g\<in>set gs. rt_Table r (toLower (reg_name g)) = None"
  shows "fold reg gs r = r\<lparr>rt_Table := rt_Table r ++ map_of (map (\<lambda>g. (toLower (reg_name g), reg_spec g)) gs)\<rparr>"
  using assms
proof (induction gs arbitrary: r)
  case (Cons g gs)
  obtain name arity wr h where g: "g = (name, arity, wr, Some h)"
    using Cons.prems(1) by (cases g) (auto simp: reg_ok_def)
  have step: "reg g r = r\<lparr>rt_Table := (rt_Table r)(toLower (reg_name g) \<mapsto> reg_spec g)\<rparr>"
    using Cons.prems by (simp add: reg_def Register_def g reg_name_def reg_spec_def reg_ok_def Let_def)
  have new: "toLower (reg_name g) \<notin> dom (map_of (map (\<lambda>g. (toLower (reg_name g), reg_spec g)) gs))"
    using Cons.prems(2) by (auto simp: dom_map_of_conv_image_fst image_image)
  have "fold reg gs (reg g r) =
      (reg g r)\<lparr>rt_Table := rt_Table (reg g r) ++ map_of (map (\<lambda>g. (toLower (reg_name g), reg_spec g)) gs)\<rparr>"
    using Cons.prems unfolding step by (intro Cons.IH) (auto simp: image_iff Ball_def simp del: split_paired_All)
  moreover have "rt_Table (reg g r) ++ map_of (map (\<lambda>g. (toLower (reg_name g), reg_spec g)) gs) =
      rt_Table r ++ map_of (map (\<lambda>g. (toLower (reg_name g), reg_spec g)) (g # gs))"
    using map_add_upd_left [OF new, of "rt_Table r" "reg_spec g"] by (simp add: step del: fun_upd_apply)
  moreover have "(reg g r)\<lparr>rt_Table := T\<rparr> = r\<lparr>rt_Table := T\<rparr>" for T by (simp add: step)
  ultimately show ?case by (simp only: fold_simps)
qed simp

definition all_regs :: "('s, 'k) senv \<Rightarrow> bool \<Rightarrow> ('s, 'k) registration list" where
  "all_regs X store = registerConnection X @ (if store then registerDataCommands X else [])"

lemmas register_defs =
  registerConnection_def registerStubs_def registerDataCommands_def registerStrings_def registerKeys_def
  registerHashes_def registerSets_def registerZSets_def registerLists_def registerBit_def registerHLL_def
  registerGeo_def registerRejected_def registerReject_def

text \<open>The commands the proxy knows, in the order of their registration.\<close>

definition command_names :: "bytes list" where
  "command_names =
   [''hello'', ''ping'', ''echo'', ''auth'', ''select'', ''quit'', ''command'', ''client'', ''config'',
    ''dbsize'', ''time'', ''info'', ''slowlog'', ''save'', ''bgsave'', ''bgrewriteaof'', ''lastsave'', ''role'',
    ''wait'', ''pfselftest'', ''get'', ''set'', ''setnx'', ''setex'', ''psetex'', ''getset'', ''mget'', ''mset'',
    ''msetnx'', ''incr'', ''decr'', ''incrby'', ''decrby'', ''incrbyfloat'', ''append'', ''strlen'', ''setrange'',
    ''getrange'', ''substr'', ''del'', ''exists'', ''touch'', ''type'', ''expire'', ''expireat'', ''pexpire'',
    ''pexpireat'', ''ttl'', ''pttl'', ''persist'', ''scan'', ''keys'', ''rename'', ''renamenx'', ''flushall'',
    ''flushdb'', ''hset'', ''hsetnx'', ''hget'', ''hmset'', ''hmget'', ''hgetall'', ''hdel'', ''hexists'',
    ''hkeys'', ''hvals'', ''hlen'', ''hincrby'', ''hincrbyfloat'', ''hstrlen'', ''hscan'', ''sadd'', ''srem'',
    ''sismember'', ''smembers'', ''scard'', ''spop'', ''srandmember'', ''sscan'', ''sunion'', ''sinter'',
    ''sdiff'', ''sunionstore'', ''sinterstore'', ''sdiffstore'', ''smove'', ''zadd'', ''zrem'', ''zscore'',
    ''zincrby'', ''zcard'', ''zcount'', ''zrange'', ''zrevrange'', ''zrangebyscore'', ''zrevrangebyscore'',
    ''zrank'', ''zrevrank'', ''zremrangebyrank'', ''zremrangebyscore'', ''zscan'', ''zrangebylex'',
    ''zrevrangebylex'', ''zlexcount'', ''zremrangebylex'', ''zunionstore'', ''zinterstore'', ''lpush'', ''rpush'',
    ''lpushx'', ''rpushx'', ''lpop'', ''rpop'', ''lrange'', ''lindex'', ''llen'', ''lset'', ''ltrim'', ''lrem'',
    ''linsert'', ''rpoplpush'', ''setbit'', ''getbit'', ''bitcount'', ''bitpos'', ''bitop'', ''bitfield'',
    ''pfadd'', ''pfcount'', ''pfmerge'', ''pfdebug'', ''geoadd'', ''geodist'', ''geopos'', ''geohash'',
    ''georadius'', ''georadiusbymember'', ''georadius_ro'', ''georadiusbymember_ro'', ''subscribe'',
    ''unsubscribe'', ''psubscribe'', ''punsubscribe'', ''publish'', ''pubsub'', ''eval'', ''evalsha'', ''script'',
    ''multi'', ''exec'', ''discard'', ''watch'', ''unwatch'', ''blpop'', ''brpop'', ''brpoplpush'', ''shutdown'',
    ''asking'', ''readonly'', ''readwrite'', ''replconf'', ''randomkey'', ''move'', ''sort'', ''object'',
    ''monitor'', ''cluster'', ''latency'', ''debug'', ''dump'', ''restore'', ''restore-asking'', ''migrate'',
    ''sync'', ''psync'', ''slaveof'']"

lemma toLower_map: "toLower s = map lower_byte s"
proof -
  have "map lower_byte s = s" if "\<not> (\<exists>c\<in>set s. 65 \<le> code c \<and> code c \<le> 90)"
    using that by (intro map_idI) (auto simp: lower_byte_def)
  then show ?thesis by (auto simp: toLower_def)
qed

lemma lower_upper:
  "lower_byte CHR ''A'' = CHR ''a''"
  "lower_byte CHR ''B'' = CHR ''b''"
  "lower_byte CHR ''C'' = CHR ''c''"
  "lower_byte CHR ''D'' = CHR ''d''"
  "lower_byte CHR ''E'' = CHR ''e''"
  "lower_byte CHR ''F'' = CHR ''f''"
  "lower_byte CHR ''G'' = CHR ''g''"
  "lower_byte CHR ''H'' = CHR ''h''"
  "lower_byte CHR ''I'' = CHR ''i''"
  "lower_byte CHR ''J'' = CHR ''j''"
  "lower_byte CHR ''K'' = CHR ''k''"
  "lower_byte CHR ''L'' = CHR ''l''"
  "lower_byte CHR ''M'' = CHR ''m''"
  "lower_byte CHR ''N'' = CHR ''n''"
  "lower_byte CHR ''O'' = CHR ''o''"
  "lower_byte CHR ''P'' = CHR ''p''"
  "lower_byte CHR ''Q'' = CHR ''q''"
  "lower_byte CHR ''R'' = CHR ''r''"
  "lower_byte CHR ''S'' = CHR ''s''"
  "lower_byte CHR ''T'' = CHR ''t''"
  "lower_byte CHR ''U'' = CHR ''u''"
  "lower_byte CHR ''V'' = CHR ''v''"
  "lower_byte CHR ''W'' = CHR ''w''"
  "lower_byte CHR ''X'' = CHR ''x''"
  "lower_byte CHR ''Y'' = CHR ''y''"
  "lower_byte CHR ''Z'' = CHR ''z''"
  "lower_byte CHR ''-'' = CHR ''-''"
  "lower_byte CHR ''_'' = CHR ''_''"
  by code_simp+

lemma registered_names: "map (\<lambda>g. toLower (reg_name g)) (all_regs X True) = command_names"
proof -
  let ?up = "[''HELLO'', ''PING'', ''ECHO'', ''AUTH'', ''SELECT'', ''QUIT'', ''COMMAND'', ''CLIENT'', ''CONFIG'',
    ''DBSIZE'', ''TIME'', ''INFO'', ''SLOWLOG'', ''SAVE'', ''BGSAVE'', ''BGREWRITEAOF'', ''LASTSAVE'', ''ROLE'',
    ''WAIT'', ''PFSELFTEST'', ''GET'', ''SET'', ''SETNX'', ''SETEX'', ''PSETEX'', ''GETSET'', ''MGET'', ''MSET'',
    ''MSETNX'', ''INCR'', ''DECR'', ''INCRBY'', ''DECRBY'', ''INCRBYFLOAT'', ''APPEND'', ''STRLEN'', ''SETRANGE'',
    ''GETRANGE'', ''SUBSTR'', ''DEL'', ''EXISTS'', ''TOUCH'', ''TYPE'', ''EXPIRE'', ''EXPIREAT'', ''PEXPIRE'',
    ''PEXPIREAT'', ''TTL'', ''PTTL'', ''PERSIST'', ''SCAN'', ''KEYS'', ''RENAME'', ''RENAMENX'', ''FLUSHALL'',
    ''FLUSHDB'', ''HSET'', ''HSETNX'', ''HGET'', ''HMSET'', ''HMGET'', ''HGETALL'', ''HDEL'', ''HEXISTS'',
    ''HKEYS'', ''HVALS'', ''HLEN'', ''HINCRBY'', ''HINCRBYFLOAT'', ''HSTRLEN'', ''HSCAN'', ''SADD'', ''SREM'',
    ''SISMEMBER'', ''SMEMBERS'', ''SCARD'', ''SPOP'', ''SRANDMEMBER'', ''SSCAN'', ''SUNION'', ''SINTER'',
    ''SDIFF'', ''SUNIONSTORE'', ''SINTERSTORE'', ''SDIFFSTORE'', ''SMOVE'', ''ZADD'', ''ZREM'', ''ZSCORE'',
    ''ZINCRBY'', ''ZCARD'', ''ZCOUNT'', ''ZRANGE'', ''ZREVRANGE'', ''ZRANGEBYSCORE'', ''ZREVRANGEBYSCORE'',
    ''ZRANK'', ''ZREVRANK'', ''ZREMRANGEBYRANK'', ''ZREMRANGEBYSCORE'', ''ZSCAN'', ''ZRANGEBYLEX'',
    ''ZREVRANGEBYLEX'', ''ZLEXCOUNT'', ''ZREMRANGEBYLEX'', ''ZUNIONSTORE'', ''ZINTERSTORE'', ''LPUSH'', ''RPUSH'',
    ''LPUSHX'', ''RPUSHX'', ''LPOP'', ''RPOP'', ''LRANGE'', ''LINDEX'', ''LLEN'', ''LSET'', ''LTRIM'', ''LREM'',
    ''LINSERT'', ''RPOPLPUSH'', ''SETBIT'', ''GETBIT'', ''BITCOUNT'', ''BITPOS'', ''BITOP'', ''BITFIELD'',
    ''PFADD'', ''PFCOUNT'', ''PFMERGE'', ''PFDEBUG'', ''GEOADD'', ''GEODIST'', ''GEOPOS'', ''GEOHASH'',
    ''GEORADIUS'', ''GEORADIUSBYMEMBER'', ''GEORADIUS_RO'', ''GEORADIUSBYMEMBER_RO'', ''SUBSCRIBE'',
    ''UNSUBSCRIBE'', ''PSUBSCRIBE'', ''PUNSUBSCRIBE'', ''PUBLISH'', ''PUBSUB'', ''EVAL'', ''EVALSHA'', ''SCRIPT'',
    ''MULTI'', ''EXEC'', ''DISCARD'', ''WATCH'', ''UNWATCH'', ''BLPOP'', ''BRPOP'', ''BRPOPLPUSH'', ''SHUTDOWN'',
    ''ASKING'', ''READONLY'', ''READWRITE'', ''REPLCONF'', ''RANDOMKEY'', ''MOVE'', ''SORT'', ''OBJECT'',
    ''MONITOR'', ''CLUSTER'', ''LATENCY'', ''DEBUG'', ''DUMP'', ''RESTORE'', ''RESTORE-ASKING'', ''MIGRATE'',
    ''SYNC'', ''PSYNC'', ''SLAVEOF'']"
  have "map reg_name (all_regs X True) = ?up"
    by (simp add: all_regs_def register_defs reg_name_def Let_def)
  then have "map toLower (map reg_name (all_regs X True)) = map toLower ?up" by (rule arg_cong)
  also have "\<dots> = command_names" by (simp add: toLower_map lower_upper command_names_def)
  finally show ?thesis by (simp add: comp_def)
qed

lemma distinct_command_names: "distinct command_names"
  by (simp add: command_names_def)

lemma regs_ok: "list_all reg_ok (all_regs X store)"
  by (simp add: all_regs_def register_defs reg_ok_def Let_def)

definition known_names :: "bool \<Rightarrow> bytes list" where
  "known_names store = (if store then command_names else take 20 command_names)"

lemma registered_known: "map (\<lambda>g. toLower (reg_name g)) (all_regs X store) = known_names store"
proof -
  have "all_regs X False = take 20 (all_regs X True)"
    by (simp add: all_regs_def registerConnection_def registerStubs_def Let_def)
  then show ?thesis
    using registered_names [of X] by (cases store) (simp_all add: known_names_def flip: take_map)
qed

lemma distinct_known: "distinct (known_names store)"
  by (simp add: known_names_def distinct_command_names distinct_take)

lemma router_built:
  "NewRouterWithStorage X store = Some
    \<lparr>rt_Table = map_of (map (\<lambda>g. (toLower (reg_name g), reg_spec g)) (all_regs X store)),
     rt_Config = e_cfg (sx_env X), rt_regErrs = []\<rparr>"
  using fold_reg [OF regs_ok, of X store "\<lparr>rt_Table = NewTable, rt_Config = e_cfg (sx_env X), rt_regErrs = []\<rparr>"]
    distinct_known [of store]
  by (simp add: NewRouterWithStorage_def finishRegistration_def registered_known NewTable_def flip: all_regs_def)

lemma router_lookup:
  assumes "NewRouterWithStorage X store = Some r" and "g \<in> set (all_regs X store)"
    and "toLower name = toLower (reg_name g)"
  shows "Lookup (rt_Table r) name = Some (reg_spec g)"
proof -
  have "distinct (map fst (map (\<lambda>g. (toLower (reg_name g), reg_spec g)) (all_regs X store)))"
    using distinct_known [of store] by (simp add: comp_def registered_known)
  from map_of_is_SomeI [OF this] assms show ?thesis
    by (auto simp: router_built Lookup_def)
qed

lemma router_lookup_Some:
  assumes "NewRouterWithStorage X store = Some r" and "Lookup (rt_Table r) name = Some spec"
  obtains g where "g \<in> set (all_regs X store)" "spec = reg_spec g" "toLower name = toLower (reg_name g)"
proof -
  from assms have "map_of (map (\<lambda>g. (toLower (reg_name g), reg_spec g)) (all_regs X store)) (toLower name) = Some spec"
    by (auto simp: router_built Lookup_def)
  from map_of_SomeD [OF this] show thesis by (auto intro: that)
qed

text \<open>
  C35: The command table is built without a registration error, so that the process never panics at start:
  no two commands share a name. Every registered command is found under each of its spellings, with its
  own lower-case name and arity, and nothing else is.
\<close>
theorem command_table_complete:
  "\<exists>r. NewRouterWithStorage X store = Some r \<and> rt_Config r = e_cfg (sx_env X)
    \<and> (\<forall>g\<in>set (all_regs X store). \<forall>name. toLower name = toLower (reg_name g) \<longrightarrow>
          Lookup (rt_Table r) name = Some (reg_spec g))
    \<and> {toLower name |name. Lookup (rt_Table r) name \<noteq> None} = set (known_names store)"
proof -
  obtain r where r: "NewRouterWithStorage X store = Some r" "rt_Config r = e_cfg (sx_env X)"
      "rt_Table r = map_of (map (\<lambda>g. (toLower (reg_name g), reg_spec g)) (all_regs X store))"
    unfolding router_built by auto
  note found = router_lookup [OF r(1)]
  have "{toLower name |name. Lookup (rt_Table r) name \<noteq> None} = (\<lambda>g. toLower (reg_name g)) ` set (all_regs X store)"
  proof
    show "{toLower name |name. Lookup (rt_Table r) name \<noteq> None} \<subseteq> (\<lambda>g. toLower (reg_name g)) ` set (all_regs X store)"
      by (auto simp: Lookup_def r(3) dest!: map_of_SomeD)
    show "(\<lambda>g. toLower (reg_name g)) ` set (all_regs X store) \<subseteq> {toLower name |name. Lookup (rt_Table r) name \<noteq> None}"
      using found by fastforce
  qed
  also have "\<dots> = set (known_names store)"
    using registered_known [of X store] by (metis list.set_map)
  finally show ?thesis using r(1,2) found by blast
qed

theorem command_table_complete_witness:
  "\<forall>X :: (nat, nat) senv. \<exists>r. NewRouterWithStorage X True = Some r \<and>
     map_option cs_Arity (Lookup (rt_Table r) ''gEt'') = Some 2"
proof
  fix X :: "(nat, nat) senv"
  let ?g = "(''GET'', 2, False, Some (data (handleGet (sx_env X))))"
  have "?g \<in> set (all_regs X True)"
    by (simp add: all_regs_def registerDataCommands_def registerStrings_def Let_def)
  moreover have "toLower ''gEt'' = toLower (reg_name ?g)"
    unfolding reg_name_def fst_conv by code_simp
  ultimately show "\<exists>r. NewRouterWithStorage X True = Some r \<and>
     map_option cs_Arity (Lookup (rt_Table r) ''gEt'') = Some 2"
    using command_table_complete [of X True] by (fastforce simp: reg_spec_def)
qed

end
