(* ===== verification/Gate.thy ===== *)
theory Gate
  imports DispatchSpec
begin

text \<open>
  The authentication gate: what a client can do that has not authenticated, and what the router answers
  before a handler runs.
\<close>

section \<open>Commands without authentication\<close>

text \<open>What a command may change besides the connection, and the database it works on.\<close>

definition data_of :: "('s, 'k) srv \<Rightarrow> 's world \<times> slowLog \<times> 'k registry \<times> nat \<times> metrics \<times> int" where
  "data_of s = (sv_world s, sv_slow s, sv_scan s, sv_draws s, sv_metrics s, cn_db (sv_conn s))"

definition good_auth :: "config \<Rightarrow> bytes list \<Rightarrow> bool" where
  "good_auth cfg args \<longleftrightarrow> length args = 2 \<and> toLower (args ! 0) = ''auth'' \<and> args ! 1 = RequirePass cfg"

text \<open>The replies to a client that has not authenticated.\<close>

definition refusal :: "bytes list \<Rightarrow> reply option \<Rightarrow> bool" where
  "refusal args rep \<longleftrightarrow>
     (if args = [] then rep = None
      else if toLower (args ! 0) = ''quit'' then rep = Some (SimpleString ''OK'')
      else \<exists>e. rep = Some (Error e))"

lemma emit_simps [simp]:
  "emit rep s = Some (Some rep, set_conn (\<lambda>c. c\<lparr>cn_obs := WriteRaw (write_reply rep) (cn_obs c)\<rparr>) s)"
  by (simp add: emit_def)

lemma data_of_set_conn [simp]: "(\<And>c. cn_db (f c) = cn_db c) \<Longrightarrow> data_of (set_conn f s) = data_of s"
  by (simp add: data_of_def set_conn_def)

lemma sv_conn_set_conn [simp]: "sv_conn (set_conn f s) = f (sv_conn s)"
  by (simp add: set_conn_def)

lemma toLower_names: "toLower ''AUTH'' = ''auth''" "toLower ''HELLO'' = ''hello''" "toLower ''auth'' = ''auth''" "toLower ''hello'' = ''hello''"
  by code_simp+

lemma lookup_auth:
  assumes "NewRouterWithStorage X store = Some r"
  shows "toLower name = ''auth'' \<Longrightarrow> Lookup (rt_Table r) name =
      Some \<lparr>cs_Name = ''auth'', cs_Arity = 2, cs_Handler = handleAuth (e_cfg (sx_env X)), cs_Write = False\<rparr>"
    and "toLower name = ''hello'' \<Longrightarrow> Lookup (rt_Table r) name =
      Some \<lparr>cs_Name = ''hello'', cs_Arity = -1, cs_Handler = handleHello, cs_Write = False\<rparr>"
proof -
  let ?auth = "(''AUTH'', 2, False, Some (handleAuth (e_cfg (sx_env X))))"
  let ?hello = "(''HELLO'', -1, False, Some handleHello)"
  have "?auth \<in> set (all_regs X store)" "?hello \<in> set (all_regs X store)"
    by (simp_all add: all_regs_def registerConnection_def Let_def)
  note found = this [THEN router_lookup [OF assms]]
  show "toLower name = ''auth'' \<Longrightarrow> Lookup (rt_Table r) name =
      Some \<lparr>cs_Name = ''auth'', cs_Arity = 2, cs_Handler = handleAuth (e_cfg (sx_env X)), cs_Write = False\<rparr>"
    using found(1) [of name] by (simp add: reg_name_def reg_spec_def toLower_names)
  show "toLower name = ''hello'' \<Longrightarrow> Lookup (rt_Table r) name =
      Some \<lparr>cs_Name = ''hello'', cs_Arity = -1, cs_Handler = handleHello, cs_Write = False\<rparr>"
    using found(2) [of name] by (simp add: reg_name_def reg_spec_def toLower_names)
qed

lemma lookup_name:
  assumes "NewRouterWithStorage X store = Some r" and "Lookup (rt_Table r) name = Some spec"
  shows "cs_Name spec = toLower name"
proof -
  from router_lookup_Some [OF assms] obtain g where "spec = reg_spec g" "toLower name = toLower (reg_name g)" .
  then show ?thesis by (cases g) (simp add: reg_spec_def reg_name_def)
qed

lemma gate_step:
  assumes built: "NewRouterWithStorage X store = Some r" and pw: "RequirePass (e_cfg (sx_env X)) \<noteq> []"
    and unauth: "\<not> cn_authed (sv_conn s)" and bad: "\<not> good_auth (e_cfg (sx_env X)) args"
  shows "\<exists>rep s'. Router_Dispatch r args s = Some (rep, s') \<and> refusal args rep \<and>
    \<not> cn_authed (sv_conn s') \<and> data_of s' = data_of s"
proof -
  have cfg: "rt_Config r = e_cfg (sx_env X)" using built by (auto simp: router_built)
  consider "args = [] \<or> toLower (args ! 0) = ''quit''"
    | "args \<noteq> []" "toLower (args ! 0) = ''auth''"
    | "args \<noteq> []" "toLower (args ! 0) = ''hello''"
    | "args \<noteq> []" "toLower (args ! 0) \<notin> {''quit'', ''auth'', ''hello''}"
    by fastforce
  then show ?thesis
  proof cases
    case 1
    with unauth show ?thesis
      by (auto simp: Router_Dispatch_def refusal_def handleQuit_def replies_def sbind_def)
  next
    case 2
    with unauth pw bad show ?thesis
      by (auto simp: Router_Dispatch_def refusal_def lookup_auth [OF built] arityOK_def handleAuth_def replies_def
          sbind_def good_auth_def)
  next
    case 3
    with unauth pw show ?thesis
      by (auto simp: Router_Dispatch_def refusal_def lookup_auth [OF built] arityOK_def handleHello_def replies_def
          sbind_def)
  next
    case 4
    show ?thesis
    proof (cases "Lookup (rt_Table r) (args ! 0)")
      case None
      with 4 unauth show ?thesis by (auto simp: Router_Dispatch_def refusal_def)
    next
      case (Some spec)
      with lookup_name [OF built Some] 4 unauth pw cfg show ?thesis
        by (auto simp: Router_Dispatch_def refusal_def)
    qed
  qed
qed

text \<open>
  C33: With a password configured, a client that never sends it reaches nothing: whatever commands it
  sends in whatever order, the data, the slow log, the cursors and its database stay as they are, it
  stays unauthenticated, and each command but QUIT is answered by an error. No handler that is not
  modelled runs either.
\<close>
theorem unauthenticated_is_inert:
  assumes "NewRouterWithStorage X store = Some r" and "RequirePass (e_cfg (sx_env X)) \<noteq> []"
    and "\<not> cn_authed (sv_conn s)" and "\<forall>args\<in>set cmds. \<not> good_auth (e_cfg (sx_env X)) args"
  shows "\<exists>reps s'. serve (Router_Dispatch r) cmds s = Some (reps, s') \<and> list_all2 refusal cmds reps \<and>
    \<not> cn_authed (sv_conn s') \<and> data_of s' = data_of s"
  using assms(3,4)
proof (induction cmds arbitrary: s)
  case Nil
  then show ?case by simp
next
  case (Cons args cmds)
  from gate_step [OF assms(1,2) Cons.prems(1), of args] Cons.prems(2) obtain rep s1 where
      1: "Router_Dispatch r args s = Some (rep, s1)" "refusal args rep" "\<not> cn_authed (sv_conn s1)" "data_of s1 = data_of s"
    by auto
  from Cons.IH [OF 1(3)] Cons.prems(2) obtain reps s2 where
      2: "serve (Router_Dispatch r) cmds s1 = Some (reps, s2)" "list_all2 refusal cmds reps" "\<not> cn_authed (sv_conn s2)"
        "data_of s2 = data_of s1"
    by auto
  from 1 2 show ?case by (simp add: sbind_def)
qed

text \<open>
  C34: AUTH: the password, and only the password, authenticates; a wrong one revokes an authentication
  that was there. Nothing else of the process changes.
\<close>
theorem auth_decides:
  assumes "NewRouterWithStorage X store = Some r" and "RequirePass (e_cfg (sx_env X)) \<noteq> []"
    and "length args = 2" and "toLower (args ! 0) = ''auth''"
  shows "\<exists>rep s'. Router_Dispatch r args s = Some (Some rep, s') \<and> data_of s' = data_of s \<and>
    cn_authed (sv_conn s') = (args ! 1 = RequirePass (e_cfg (sx_env X))) \<and>
    rep = (if args ! 1 = RequirePass (e_cfg (sx_env X)) then SimpleString ''OK'' else Error ErrInvalidPassword)"
proof -
  have "args \<noteq> []" using assms(3) by auto
  then show ?thesis
    using assms(2-4) by (auto simp: Router_Dispatch_def lookup_auth [OF assms(1)] arityOK_def handleAuth_def replies_def sbind_def)
qed

section \<open>A process to run on\<close>

definition demo_senv :: "config \<Rightarrow> (tbl, nat) senv" where
  "demo_senv cfg =
     \<lparr>sx_env = mem_env SyncDeleter cfg,
      sx_scans = \<lparr>st_ScanKeys = (\<lambda>_ _ _ t. (Inr ([], None), t)), st_HScan = (\<lambda>_ _ _ t. (Inr ([], None), t)),
        st_SScan = (\<lambda>_ _ _ t. (Inr ([], None), t)),
        st_ZScan = (\<lambda>_ _ _ t. (Inr ([], None), t))\<rparr>,
      sx_rnd = of_nat, sx_nanos = (\<lambda>_. 0), sx_pick = first_pick, sx_iter = (\<lambda>xs. xs),
      sx_math = \<lparr>math_Log = fabs, math_Sin = fabs, math_Cos = fabs, math_Asin = fabs, conv_u32 = (\<lambda>_. 0),
        conv_u64 = (\<lambda>_. 0)\<rparr>\<rparr>"

definition demo_srv :: "(tbl, nat) srv" where
  "demo_srv =
     \<lparr>sv_conn = newConn ''i'', sv_world = mem_world (empty_tbl 100), sv_slow = NewSlowLog 0 0,
      sv_scan = newRegistry ''i'' 0 0, sv_draws = 1,
      sv_metrics = \<lparr>mt_qps = [], mt_latency = \<lambda>_. [], mt_errors = \<lambda>_. 0\<rparr>\<rparr>"

definition pw_cfg :: config where
  "pw_cfg = \<lparr>RequirePass = ''pw'', MultiDB = False, cfgDB = 16, MaxCollectionResult = 0\<rparr>"

theorem unauthenticated_is_inert_witness:
  "\<exists>r reps s'. NewRouterWithStorage (demo_senv pw_cfg) True = Some r \<and>
     serve (Router_Dispatch r) [[''SET'', ''k'', ''v''], [''AUTH'', ''no'']] demo_srv = Some (reps, s') \<and>
     data_of s' = data_of demo_srv"
proof -
  obtain r where r: "NewRouterWithStorage (demo_senv pw_cfg) True = Some r"
    by (simp add: router_built)
  have set: "toLower ''SET'' \<noteq> ''auth''" by code_simp
  have "\<exists>reps s'. serve (Router_Dispatch r) [[''SET'', ''k'', ''v''], [''AUTH'', ''no'']] demo_srv = Some (reps, s') \<and>
      list_all2 refusal [[''SET'', ''k'', ''v''], [''AUTH'', ''no'']] reps \<and>
      \<not> cn_authed (sv_conn s') \<and> data_of s' = data_of demo_srv"
    by (rule unauthenticated_is_inert [OF r])
      (simp_all add: demo_senv_def pw_cfg_def demo_srv_def newConn_def good_auth_def set)
  with r show ?thesis by blast
qed

theorem auth_decides_witness:
  "\<exists>r s'. NewRouterWithStorage (demo_senv pw_cfg) True = Some r \<and>
     Router_Dispatch r [''AUTH'', ''pw''] demo_srv = Some (Some (SimpleString ''OK''), s') \<and> cn_authed (sv_conn s')"
proof -
  obtain r where r: "NewRouterWithStorage (demo_senv pw_cfg) True = Some r"
    by (simp add: router_built)
  from auth_decides [OF r, of "[''AUTH'', ''pw'']" demo_srv] r show ?thesis
    by (auto simp: demo_senv_def pw_cfg_def toLower_names)
qed

end
