(* ===== verification/Workers.thy ===== *)
theory Workers
  imports StringSpec SetSpec
begin

text \<open>
  The background workers and their life: the lazy deleter's goroutine (\<^verbatim>\<open>internal/meta/deleter.go\<close>,
  \<^verbatim>\<open>run\<close>, \<^verbatim>\<open>drain\<close>, \<^verbatim>\<open>Start\<close>, \<^verbatim>\<open>Stop\<close>), the orphan sweeper (\<^verbatim>\<open>internal/meta/sweeper.go\<close>) and the
  backend probe (\<^verbatim>\<open>cmd/redimos/health.go\<close>). Each is a step relation: one rule per branch of each
  \<^verbatim>\<open>select\<close>, so every choice Go may make is a step, interleaved with the steps of everything else
  (commands, timers, shutdown). A ticker's channel holds one tick. The locale \<open>background_worker\<close> is
  the contract of \<^verbatim>\<open>Stop\<close>: asked to stop, a worker left alone exits within a bounded number of turns.
\<close>

section \<open>What Stop waits for\<close>

locale background_worker =
  fixes turn :: "'w \<Rightarrow> 'w \<Rightarrow> bool" and asked :: "'w \<Rightarrow> bool" and exited :: "'w \<Rightarrow> bool" and rank :: "'w \<Rightarrow> nat"
  assumes turn_asked: "asked s \<Longrightarrow> turn s s' \<Longrightarrow> asked s' \<and> rank s' < rank s"
    and turn_enabled: "asked s \<Longrightarrow> \<not> exited s \<Longrightarrow> \<exists>s'. turn s s'"
begin

lemma turns_bounded: "(turn ^^ n) s s' \<Longrightarrow> asked s \<Longrightarrow> asked s' \<and> n + rank s' \<le> rank s"
proof (induction n arbitrary: s')
  case (Suc n)
  then obtain t where "(turn ^^ n) s t" "turn t s'" by auto
  then show ?case using Suc.IH [of t] Suc.prems turn_asked [of t s'] by fastforce
qed simp

lemma exit_reached: "asked s \<Longrightarrow> \<exists>s'. turn\<^sup>*\<^sup>* s s' \<and> exited s'"
proof (induction "rank s" arbitrary: s rule: less_induct)
  case less
  show ?case
  proof (cases "exited s")
    case False
    then obtain t where t: "turn s t" using turn_enabled less.prems by blast
    then show ?thesis
      using less.hyps [of t] turn_asked [OF less.prems t] by (meson converse_rtranclp_into_rtranclp)
  qed blast
qed

lemma stuck_exited: "turn\<^sup>*\<^sup>* s s' \<Longrightarrow> asked s \<Longrightarrow> \<nexists>t. turn s' t \<Longrightarrow> exited s'"
  by (metis rtranclp_imp_relpowp turn_enabled turns_bounded)

end

section \<open>The lazy deleter\<close>

text \<open>The two halves of \<open>process\<close>: the recreate guard, which tells whether to go on, and the reclaim.\<close>

definition isLiveGuard :: "'s env \<Rightarrow> bytes \<Rightarrow> ('s, bool) act" where
  "isLiveGuard E pk =
     andThen (call (st_LoadMeta (e_store E) pk)) (\<lambda>r.
       case r of
         Inl _ \<Rightarrow> andThen (upd_del (\<lambda>d. d\<lparr>isLiveErrors := isLiveErrors d + 1\<rparr>)) (\<lambda>_. ret True)
       | Inr (Some _) \<Rightarrow> ret False
       | Inr None \<Rightarrow> ret True)"

definition reclaimMembers :: "'s env \<Rightarrow> bytes \<Rightarrow> ('s, unit) act" where
  "reclaimMembers E pk =
     andThen (call (st_DeleteMembers (e_store E) pk)) (\<lambda>q.
       case q of
         Inl _ \<Rightarrow> upd_del (\<lambda>d. d\<lparr>failures := failures d + 1\<rparr>)
       | Inr n \<Rightarrow> upd_del (\<lambda>d. d\<lparr>deleted := deleted d + n\<rparr>))"

lemma process_split:
  "process E pk = andThen (isLiveGuard E pk) (\<lambda>go. if go then reclaimMembers E pk else ret ())"
  by (rule ext) (simp add: process_def isLiveGuard_def reclaimMembers_def andThen_def ret_def Let_def
      split: sum.split option.split)

text \<open>
  Where the goroutine is: not started, at the head of the loop, holding a key at the rate-limit
  gate, about to check or to reclaim it (\<open>True\<close>: on behalf of \<^verbatim>\<open>drain\<close>), draining, gone.
\<close>

datatype dphase = DIdle | DLoop | DGate bytes | DCheck bytes bool | DReclaim bytes bool | DDrain | DExited

record 's dworker =
  dw_world :: "'s world"
  dw_phase :: dphase
  dw_quit :: bool
  dw_ctx :: bool
  dw_tick :: bool

text \<open>What a step does with keys, for the history of a run.\<close>

datatype devent = Accepted bytes | Refused bytes | Finished bytes | Lost bytes | Quiet

abbreviation queue :: "'s dworker \<Rightarrow> bytes list" where
  "queue s \<equiv> dq (del (dw_world s))"

definition unqueue :: "bytes list \<Rightarrow> 's dworker \<Rightarrow> 's dworker" where
  "unqueue pks s = s\<lparr>dw_world := (dw_world s)\<lparr>del := (del (dw_world s))\<lparr>dq := pks\<rparr>\<rparr>\<rparr>"

definition resume :: "bool \<Rightarrow> dphase" where
  "resume draining = (if draining then DDrain else DLoop)"

text \<open>\<open>rated\<close>: the rate is positive, so a key waits for a tick (or for \<^verbatim>\<open>Stop\<close>) before it is reclaimed.\<close>

inductive worker_turn :: "'s env \<Rightarrow> bool \<Rightarrow> 's dworker \<Rightarrow> devent \<Rightarrow> 's dworker \<Rightarrow> bool" for E rated where
  loop_ctx: "dw_phase s = DLoop \<Longrightarrow> dw_ctx s \<Longrightarrow> worker_turn E rated s Quiet (s\<lparr>dw_phase := DExited\<rparr>)"
| loop_quit: "dw_phase s = DLoop \<Longrightarrow> dw_quit s \<Longrightarrow> worker_turn E rated s Quiet (s\<lparr>dw_phase := DDrain\<rparr>)"
| loop_take: "dw_phase s = DLoop \<Longrightarrow> queue s = pk # pks \<Longrightarrow>
    worker_turn E rated s Quiet ((unqueue pks s)\<lparr>dw_phase := if rated then DGate pk else DCheck pk False\<rparr>)"
| gate_ctx: "dw_phase s = DGate pk \<Longrightarrow> dw_ctx s \<Longrightarrow> worker_turn E rated s (Lost pk) (s\<lparr>dw_phase := DExited\<rparr>)"
| gate_quit: "dw_phase s = DGate pk \<Longrightarrow> dw_quit s \<Longrightarrow> worker_turn E rated s Quiet (s\<lparr>dw_phase := DCheck pk True\<rparr>)"
| gate_tick: "dw_phase s = DGate pk \<Longrightarrow> dw_tick s \<Longrightarrow>
    worker_turn E rated s Quiet (s\<lparr>dw_phase := DCheck pk False, dw_tick := False\<rparr>)"
| check_live: "dw_phase s = DCheck pk d \<Longrightarrow> isLiveGuard E pk (dw_world s) = (False, w) \<Longrightarrow>
    worker_turn E rated s (Finished pk) (s\<lparr>dw_world := w, dw_phase := resume d\<rparr>)"
| check_go: "dw_phase s = DCheck pk d \<Longrightarrow> isLiveGuard E pk (dw_world s) = (True, w) \<Longrightarrow>
    worker_turn E rated s Quiet (s\<lparr>dw_world := w, dw_phase := DReclaim pk d\<rparr>)"
| reclaim: "dw_phase s = DReclaim pk d \<Longrightarrow>
    worker_turn E rated s (Finished pk) (s\<lparr>dw_world := snd (reclaimMembers E pk (dw_world s)), dw_phase := resume d\<rparr>)"
| drain_ctx: "dw_phase s = DDrain \<Longrightarrow> dw_ctx s \<Longrightarrow> worker_turn E rated s Quiet (s\<lparr>dw_phase := DExited\<rparr>)"
| drain_take: "dw_phase s = DDrain \<Longrightarrow> \<not> dw_ctx s \<Longrightarrow> queue s = pk # pks \<Longrightarrow>
    worker_turn E rated s Quiet ((unqueue pks s)\<lparr>dw_phase := DCheck pk True\<rparr>)"
| drain_done: "dw_phase s = DDrain \<Longrightarrow> \<not> dw_ctx s \<Longrightarrow> queue s = [] \<Longrightarrow>
    worker_turn E rated s Quiet (s\<lparr>dw_phase := DExited\<rparr>)"

text \<open>Everything else: \<^verbatim>\<open>Start\<close>, the request of \<^verbatim>\<open>Stop\<close>, cancellation, the ticker, commands.\<close>

inductive other_turn :: "'s env \<Rightarrow> bool \<Rightarrow> 's dworker \<Rightarrow> devent \<Rightarrow> 's dworker \<Rightarrow> bool" for E rated where
  start: "dw_phase s = DIdle \<Longrightarrow> other_turn E rated s Quiet (s\<lparr>dw_phase := DLoop\<rparr>)"
| stop: "dw_phase s \<noteq> DIdle \<Longrightarrow> other_turn E rated s Quiet (s\<lparr>dw_quit := True\<rparr>)"
| cancel: "other_turn E rated s Quiet (s\<lparr>dw_ctx := True\<rparr>)"
| tick: "rated \<Longrightarrow> other_turn E rated s Quiet (s\<lparr>dw_tick := True\<rparr>)"
| enqueue: "e_enq E = AsyncDeleter cap \<Longrightarrow>
    other_turn E rated s (if length (queue s) < cap then Accepted pk else Refused pk)
      (s\<lparr>dw_world := snd (Enqueue E pk (dw_world s))\<rparr>)"
| command: "dq (del w) = queue s \<Longrightarrow> other_turn E rated s Quiet (s\<lparr>dw_world := w\<rparr>)"

inductive deleter_run :: "'s env \<Rightarrow> bool \<Rightarrow> 's dworker \<Rightarrow> devent list \<Rightarrow> 's dworker \<Rightarrow> bool" for E rated s where
  run_nil: "deleter_run E rated s [] s"
| run_worker: "deleter_run E rated s evs t \<Longrightarrow> worker_turn E rated t ev u \<Longrightarrow> deleter_run E rated s (evs @ [ev]) u"
| run_other: "deleter_run E rated s evs t \<Longrightarrow> other_turn E rated t ev u \<Longrightarrow> deleter_run E rated s (evs @ [ev]) u"

text \<open>The history: the keys accepted, finished and lost, in order; the key in hand.\<close>

definition accepted :: "devent list \<Rightarrow> bytes list" where
  "accepted evs = concat (map (\<lambda>e. case e of Accepted pk \<Rightarrow> [pk] | _ \<Rightarrow> []) evs)"

definition finished :: "devent list \<Rightarrow> bytes list" where
  "finished evs = concat (map (\<lambda>e. case e of Finished pk \<Rightarrow> [pk] | _ \<Rightarrow> []) evs)"

definition lost :: "devent list \<Rightarrow> bytes list" where
  "lost evs = concat (map (\<lambda>e. case e of Lost pk \<Rightarrow> [pk] | _ \<Rightarrow> []) evs)"

definition held :: "'s dworker \<Rightarrow> bytes list" where
  "held s = (case dw_phase s of DGate pk \<Rightarrow> [pk] | DCheck pk _ \<Rightarrow> [pk] | DReclaim pk _ \<Rightarrow> [pk] | _ \<Rightarrow> [])"

lemmas history_defs = accepted_def finished_def lost_def held_def

lemma guard_queue: "isLiveGuard E pk w = (b, w') \<Longrightarrow> dq (del w') = dq (del w)"
  by (auto simp: isLiveGuard_def andThen_def call_def upd_del_def ret_def split: sum.splits option.splits)

lemma reclaim_queue [simp]: "dq (del (snd (reclaimMembers E pk w))) = dq (del w)"
  by (auto simp: reclaimMembers_def andThen_def call_def upd_del_def split: sum.split)

lemma queue_unqueue [simp]:
  "queue (unqueue pks s) = pks" "dw_phase (unqueue pks s) = dw_phase s" "dw_quit (unqueue pks s) = dw_quit s"
  "dw_ctx (unqueue pks s) = dw_ctx s" "dw_tick (unqueue pks s) = dw_tick s"
  by (simp_all add: unqueue_def)

lemma resume_simps [simp]: "resume d \<noteq> DExited" "resume d \<noteq> DIdle"
  by (simp_all add: resume_def)

text \<open>A turn of the worker moves keys from the queue through its hands to the finished ones.\<close>

lemma worker_turn_moves:
  assumes "worker_turn E rated s ev s'"
  shows "held s @ queue s = finished [ev] @ lost [ev] @ held s' @ queue s' \<and>
    (lost [ev] \<noteq> [] \<longrightarrow> dw_ctx s \<and> dw_phase s' = DExited) \<and>
    accepted [ev] = [] \<and> length (queue s') \<le> length (queue s) \<and>
    dw_ctx s' = dw_ctx s \<and> dw_quit s' = dw_quit s \<and> dw_phase s \<noteq> DExited \<and> dw_phase s \<noteq> DIdle \<and> dw_phase s' \<noteq> DIdle"
  using assms
  by cases (auto simp: history_defs resume_def dest: guard_queue)

lemma other_turn_moves:
  assumes "other_turn E rated s ev s'" and "e_enq E = AsyncDeleter cap"
  shows "queue s' = queue s @ accepted [ev] \<and> held s' = held s \<and> finished [ev] = [] \<and> lost [ev] = [] \<and>
    (length (queue s) \<le> cap \<longrightarrow> length (queue s') \<le> cap) \<and> (dw_ctx s \<longrightarrow> dw_ctx s') \<and>
    (dw_phase s = DExited \<longrightarrow> dw_phase s' = DExited)"
  using assms
  by cases (auto simp: history_defs Enqueue_def upd_del_def)

lemma history_append [simp]:
  "accepted (evs @ evs') = accepted evs @ accepted evs'" "finished (evs @ evs') = finished evs @ finished evs'"
  "lost (evs @ evs') = lost evs @ lost evs'" "accepted [] = []" "finished [] = []" "lost [] = []"
  by (simp_all add: history_defs)

text \<open>
  C28: the deleter is a queue that loses no key it accepted. In every run, under every interleaving
  with commands and shutdown, the keys accepted are, in order, those finished, then the one in hand
  and those still queued; the queue never outgrows its capacity; only a cancelled context drops a
  key, the one that waited at the rate-limit gate.
\<close>

theorem deleter_keeps_order:
  assumes "deleter_run E rated s evs t" and "e_enq E = AsyncDeleter cap"
    and "dw_phase s = DIdle" and "queue s = []"
  shows "accepted evs = finished evs @ lost evs @ held t @ queue t \<and> length (queue t) \<le> cap \<and>
    length (lost evs) \<le> 1 \<and> (lost evs \<noteq> [] \<longrightarrow> dw_ctx t \<and> dw_phase t = DExited)"
  using assms(1)
proof induction
  case run_nil
  then show ?case using assms(3,4) by (simp add: history_defs)
next
  case (run_worker evs t ev u)
  have "lost evs = []" using run_worker worker_turn_moves [OF run_worker.hyps(2)] by blast
  moreover have "length (lost [ev]) \<le> 1" by (cases ev) (simp_all add: lost_def)
  ultimately show ?case
    using run_worker.IH worker_turn_moves [OF run_worker.hyps(2)] by auto
next
  case (run_other evs t ev u)
  then show ?case using other_turn_moves [OF run_other.hyps(2) assms(2)] by (auto simp: held_def)
qed

definition idle_worker :: "tbl dworker" where
  "idle_worker =
     \<lparr>dw_world = mem_world (empty_tbl 100), dw_phase = DIdle, dw_quit = False, dw_ctx = False, dw_tick = False\<rparr>"

theorem deleter_keeps_order_witness:
  "\<exists>evs t. deleter_run (mem_env (AsyncDeleter 1) cfg0) False idle_worker evs t \<and>
     evs = [Quiet, Accepted ''a'', Refused ''b'', Quiet, Accepted ''c'', Quiet, Finished ''a''] \<and>
     queue t = [''c''] \<and> accepted evs = finished evs @ [''c'']"
proof -
  let ?E = "mem_env (AsyncDeleter 1) cfg0" and ?run = "deleter_run (mem_env (AsyncDeleter 1) cfg0) False idle_worker"
  define put where "put pk s = s\<lparr>dw_world := snd (Enqueue ?E pk (dw_world s))\<rparr>" for pk and s :: "tbl dworker"
  define s1 where "s1 = put ''b'' (put ''a'' (idle_worker\<lparr>dw_phase := DLoop\<rparr>))"
  define s2 where "s2 = put ''c'' ((unqueue [] s1)\<lparr>dw_phase := DCheck ''a'' False\<rparr>)"
  define s3 where "s3 = s2\<lparr>dw_world := snd (isLiveGuard ?E ''a'' (dw_world s2)), dw_phase := DReclaim ''a'' False\<rparr>"
  define s4 where "s4 = s3\<lparr>dw_world := snd (reclaimMembers ?E ''a'' (dw_world s3)), dw_phase := resume False\<rparr>"
  note simps = put_def idle_worker_def Enqueue_def upd_del_def initDeleter_def unqueue_def
  have enq: "e_enq ?E = AsyncDeleter 1" by simp
  have q1: "queue s1 = [''a'']" "dw_phase s1 = DLoop" by (simp_all add: s1_def simps)
  have p2: "dw_phase s2 = DCheck ''a'' False" by (simp add: s2_def put_def)
  have go: "isLiveGuard ?E ''a'' (dw_world s2) = (True, dw_world s2)"
    by (simp add: isLiveGuard_def andThen_def call_mem sp_LoadMeta_def ret_def s2_def s1_def simps empty_tbl_def)
  have q4: "queue s4 = [''c'']" "held s4 = []"
    by (simp_all add: s4_def s3_def go held_def resume_def del: One_nat_def) (simp add: s2_def s1_def simps)
  have "?run [Quiet] (idle_worker\<lparr>dw_phase := DLoop\<rparr>)"
    using run_other [OF run_nil start, of idle_worker ?E False] by (simp add: idle_worker_def)
  from run_other [OF this enqueue [OF enq, where pk = "''a''"]]
  have "?run [Quiet, Accepted ''a''] (put ''a'' (idle_worker\<lparr>dw_phase := DLoop\<rparr>))" by (simp add: simps)
  from run_other [OF this enqueue [OF enq, where pk = "''b''"]]
  have "?run [Quiet, Accepted ''a'', Refused ''b''] s1" by (simp add: s1_def simps)
  from run_worker [OF this loop_take [OF q1(2,1)]]
  have "?run [Quiet, Accepted ''a'', Refused ''b'', Quiet] ((unqueue [] s1)\<lparr>dw_phase := DCheck ''a'' False\<rparr>)" by simp
  from run_other [OF this enqueue [OF enq, where pk = "''c''"]]
  have "?run [Quiet, Accepted ''a'', Refused ''b'', Quiet, Accepted ''c''] s2" by (simp add: s2_def put_def)
  from run_worker [OF this check_go [OF p2 go]]
  have "?run [Quiet, Accepted ''a'', Refused ''b'', Quiet, Accepted ''c'', Quiet] s3" by (simp add: s3_def go del: One_nat_def)
  from run_worker [OF this reclaim [where pk = "''a''" and d = False]]
  have run: "?run [Quiet, Accepted ''a'', Refused ''b'', Quiet, Accepted ''c'', Quiet, Finished ''a''] s4"
    by (simp add: s4_def s3_def)
  have idle: "dw_phase idle_worker = DIdle" "queue idle_worker = []"
    by (simp_all add: idle_worker_def initDeleter_def)
  show ?thesis
    using run deleter_keeps_order [OF run enq idle] q4 by (auto simp: lost_def)
qed

text \<open>
  The rank of a worker asked to stop: how many turns it has left. The interpretation discharges the
  contract of \<^verbatim>\<open>Stop\<close> for the deleter.
\<close>

definition deleter_rank :: "'s dworker \<Rightarrow> nat" where
  "deleter_rank s = 4 * length (queue s) +
     (case dw_phase s of
        DIdle \<Rightarrow> 0 | DLoop \<Rightarrow> 2 | DGate _ \<Rightarrow> 5 | DCheck _ d \<Rightarrow> if d then 3 else 4
      | DReclaim _ d \<Rightarrow> if d then 2 else 3 | DDrain \<Rightarrow> 1 | DExited \<Rightarrow> 0)"

definition deleter_asked :: "'s dworker \<Rightarrow> bool" where
  "deleter_asked s \<longleftrightarrow> dw_quit s \<and> dw_phase s \<noteq> DIdle"

definition deleter_next :: "'s env \<Rightarrow> bool \<Rightarrow> 's dworker \<Rightarrow> 's dworker \<Rightarrow> bool" where
  "deleter_next E rated s s' \<longleftrightarrow> (\<exists>ev. worker_turn E rated s ev s')"

lemma deleter_turn_rank:
  assumes "worker_turn E rated s ev s'" and "deleter_asked s"
  shows "deleter_asked s' \<and> deleter_rank s' < deleter_rank s"
  using assms
  by cases (auto simp: deleter_asked_def deleter_rank_def resume_def dest: guard_queue)

lemma deleter_turn_enabled:
  assumes "deleter_asked s" and "dw_phase s \<noteq> DExited"
  shows "\<exists>ev s'. worker_turn E rated s ev s'"
proof (cases "dw_phase s")
  case (DCheck pk d)
  obtain b w where "isLiveGuard E pk (dw_world s) = (b, w)" by fastforce
  then show ?thesis using DCheck by (cases b) (auto intro: worker_turn.intros)
next
  case DDrain
  then show ?thesis by (cases "queue s"; cases "dw_ctx s") (blast intro: worker_turn.intros)+
qed (use assms in \<open>auto simp: deleter_asked_def intro: worker_turn.intros\<close>)

interpretation deleter_stop: background_worker "deleter_next E rated" deleter_asked
    "\<lambda>s. dw_phase s = DExited" deleter_rank for E rated
  by unfold_locales (use deleter_turn_rank deleter_turn_enabled in \<open>(fastforce simp: deleter_next_def)+\<close>)

text \<open>Turns of the worker alone, with their history.\<close>

inductive worker_run :: "'s env \<Rightarrow> bool \<Rightarrow> 's dworker \<Rightarrow> devent list \<Rightarrow> 's dworker \<Rightarrow> bool" for E rated s where
  alone_nil: "worker_run E rated s [] s"
| alone_turn: "worker_run E rated s evs t \<Longrightarrow> worker_turn E rated t ev u \<Longrightarrow> worker_run E rated s (evs @ [ev]) u"

lemma worker_run_next: "worker_run E rated s evs t \<Longrightarrow> (deleter_next E rated ^^ length evs) s t"
  by (induction rule: worker_run.induct) (auto simp: deleter_next_def)

lemma next_worker_run: "(deleter_next E rated)\<^sup>*\<^sup>* s t \<Longrightarrow> \<exists>evs. worker_run E rated s evs t"
  by (induction rule: rtranclp_induct) (auto simp: deleter_next_def intro: worker_run.intros)

lemma worker_run_moves:
  assumes "worker_run E rated s evs t" and "\<not> dw_ctx s"
  shows "held s @ queue s = finished evs @ held t @ queue t \<and> \<not> dw_ctx t"
  using assms(1)
proof induction
  case (alone_turn evs t ev u)
  then have "lost [ev] = []" using worker_turn_moves [of E rated t ev u] by blast
  then show ?case using alone_turn.IH worker_turn_moves [OF alone_turn.hyps(2)] by auto
qed (use assms(2) in simp)

text \<open>A turn into \<open>DExited\<close> without cancellation is the end of \<^verbatim>\<open>drain\<close>: the queue is empty.\<close>

lemma exit_empties:
  assumes "worker_run E rated s evs t" and "\<not> dw_ctx s" and "dw_phase s \<noteq> DExited" and "dw_phase t = DExited"
  shows "queue t = [] \<and> held t = []"
  using assms(1)
proof cases
  case (alone_turn evs' t' ev)
  then show ?thesis
    using assms(4) worker_run_moves [OF alone_turn(2) assms(2)]
    by (auto simp: held_def elim!: worker_turn.cases split: if_splits)
qed (use assms(3,4) in simp)

text \<open>
  C29: a graceful stop strands nothing. Once \<^verbatim>\<open>Stop\<close> has been asked for and commands enqueue no
  more (the server is drained first), the worker takes at most \<open>4 * n + 5\<close> more turns for \<open>n\<close> queued keys,
  whatever choices Go makes, never gets stuck before it has exited, and when it has exited it has dealt
  with every key it held or had queued, in order: \<^verbatim>\<open>Stop\<close> returns.
\<close>

theorem deleter_stop_returns:
  assumes "dw_quit s" and "dw_phase s \<noteq> DIdle" and "dw_phase s \<noteq> DExited" and "\<not> dw_ctx s"
    and "worker_run E rated s evs t"
  shows "length evs \<le> 4 * length (queue s) + 5 \<and>
    (dw_phase t \<noteq> DExited \<longrightarrow> (\<exists>ev u. worker_turn E rated t ev u)) \<and>
    (dw_phase t = DExited \<longrightarrow> finished evs = held s @ queue s \<and> queue t = []) \<and>
    (\<exists>evs' u. worker_run E rated t evs' u \<and> dw_phase u = DExited)"
proof -
  have asked: "deleter_asked s" using assms(1,2) by (simp add: deleter_asked_def)
  note t = deleter_stop.turns_bounded [OF worker_run_next [OF assms(5)] asked]
  have "deleter_rank s \<le> 4 * length (queue s) + 5"
    by (simp add: deleter_rank_def split: dphase.split)
  then have "length evs \<le> 4 * length (queue s) + 5" using t by linarith
  moreover have "dw_phase t \<noteq> DExited \<longrightarrow> (\<exists>ev u. worker_turn E rated t ev u)"
    using t deleter_turn_enabled by blast
  moreover have "dw_phase t = DExited \<longrightarrow> finished evs = held s @ queue s \<and> queue t = []"
    using worker_run_moves [OF assms(5,4)] exit_empties [OF assms(5,4,3)] by auto
  moreover have "\<exists>evs' u. worker_run E rated t evs' u \<and> dw_phase u = DExited"
    using deleter_stop.exit_reached t next_worker_run by blast
  ultimately show ?thesis by blast
qed

text \<open>A deleter over the in-memory table that holds one key at the gate and has one queued.\<close>

definition demo_worker :: "tbl dworker" where
  "demo_worker =
     \<lparr>dw_world = (mem_world (empty_tbl 100))\<lparr>del := initDeleter\<lparr>dq := [''b'']\<rparr>\<rparr>, dw_phase = DGate ''a'',
      dw_quit = True, dw_ctx = False, dw_tick = False\<rparr>"

theorem deleter_stop_returns_witness:
  "\<exists>evs u. worker_run (mem_env (AsyncDeleter 4) cfg0) True demo_worker evs u \<and> dw_phase u = DExited \<and>
     finished evs = [''a'', ''b''] \<and> length evs \<le> 9"
proof -
  let ?E = "mem_env (AsyncDeleter 4) cfg0"
  have s: "dw_quit demo_worker" "dw_phase demo_worker \<noteq> DIdle" "dw_phase demo_worker \<noteq> DExited" "\<not> dw_ctx demo_worker"
    "queue demo_worker = [''b'']" "held demo_worker = [''a'']"
    by (simp_all add: demo_worker_def held_def initDeleter_def)
  obtain evs u where run: "worker_run ?E True demo_worker evs u" "dw_phase u = DExited"
    using deleter_stop_returns [OF s(1-4) alone_nil, of ?E True] by blast
  then show ?thesis using deleter_stop_returns [OF s(1-4) run(1)] s(5,6) by auto
qed

text \<open>
  The counterpart: after the worker has exited, a key is still accepted and nothing will ever take it
  (\<^verbatim>\<open>Enqueue\<close> looks at the capacity only); the sweeper is the backstop.
\<close>

lemma exited_is_final: "worker_turn E rated s ev s' \<Longrightarrow> dw_phase s \<noteq> DExited"
  by (auto elim: worker_turn.cases)

text \<open>
  The recreate guard is a check before an act: a key recreated between the two loses its new value.
  The worker finds \<open>k\<close> gone, a client's SET of \<open>k\<close> replies OK, the worker reclaims, and GET finds a
  key without value.
\<close>

lemma recreate_race:
  fixes q cfg db k v w
  assumes "t_meta (backend w) (encodePK cfg db k) = None" and "write_fits k [] [v]"
  defines "E \<equiv> mem_env q cfg" and "pk \<equiv> encodePK cfg db k"
  defines "w1 \<equiv> snd (isLiveGuard E pk w)"
  defines "w2 \<equiv> snd (handleSet E db [''SET'', k, v] w1)"
  defines "w3 \<equiv> snd (reclaimMembers E pk w2)"
  shows "fst (isLiveGuard E pk w)"
    and "fst (handleSet E db [''SET'', k, v] w1) = SimpleString ''OK'' \<and> fst (handleGet E db [''GET'', k] w2) = BulkString v"
    and "key_live (backend w3) pk \<and> fst (handleGet E db [''GET'', k] w3) = NullBulk"
proof -
  have guard: "isLiveGuard E pk w = (True, w)"
    using assms(1) by (simp add: isLiveGuard_def andThen_def E_def pk_def call_mem sp_LoadMeta_def ret_def)
  then show "fst (isLiveGuard E pk w)" by simp
  have w1: "w1 = w" by (simp add: w1_def guard)
  have opt: "parseSetOptions [] n = Inr \<lparr>nx = False, xx = False, expSet = False, expEpoch = 0\<rparr>" for n
    by (simp add: parseSetOptions_def setOptLoop.simps)
  note set = handleSet_mem [where q = q and cfg = cfg and db = db and cmd = "''SET''" and key = k and val = v and opts = "[]" and w = w,
      folded E_def pk_def, OF opt assms(2)]
  have live: "live_meta (backend w2) pk = Some (fresh_meta TypeString)" and str: "t_str (backend w2) pk = Some v"
    using set(3) assms(1)
    by (auto simp: w2_def w1 set_proceeds_def string_meta_def live_meta_def set_exp_def IsExpired_def pk_def
        same_except_def)
  show "fst (handleSet E db [''SET'', k, v] w1) = SimpleString ''OK'' \<and> fst (handleGet E db [''GET'', k] w2) = BulkString v"
    using set(1) live str by (simp add: w1 set_proceeds_def E_def handleGet_mem Let_def pk_def)
  have "backend w3 = clear_members pk (backend w2)"
    by (simp add: w3_def reclaimMembers_def andThen_def E_def call_mem sp_DeleteMembers_def upd_del_def)
  moreover have "live_meta (clear_members pk (backend w2)) pk = live_meta (backend w2) pk"
    by (simp add: live_meta_def split: option.split)
  ultimately show "key_live (backend w3) pk \<and> fst (handleGet E db [''GET'', k] w3) = NullBulk"
    using live live_meta_key_live [of "backend w3" pk] by (simp add: E_def handleGet_mem Let_def pk_def)
qed

text \<open>
  And a key recreated as a collection before the worker has come to it keeps the members of the deleted
  one: DEL replies 1, SADD of one new member replies 1, SCARD replies 1, but SMEMBERS lists the old members
  too. The worker, finding the key live, leaves them for good. The refinement theorems of the
  collections start from a key without such leftovers (an absent key has no members).
\<close>

lemma recreate_resurrects:
  fixes q cfg db k x w
  defines "E \<equiv> mem_env q cfg" and "pk \<equiv> encodePK cfg db k" and "t \<equiv> backend w"
  assumes "q = AsyncDeleter cap" and "live_meta t pk \<noteq> None" and "x \<notin> set (t_set t pk)" and "write_fits k [x] []"
    and "MaxCollectionResult cfg \<le> 0"
  defines "w1 \<equiv> snd (handleDel E db [''DEL'', k] w)"
  defines "w2 \<equiv> snd (handleSAdd E db [''SADD'', k, x] w1)"
  shows "fst (handleDel E db [''DEL'', k] w) = IntReply 1 \<and> fst (handleExists E db [''EXISTS'', k] w1) = IntReply 0"
    and "fst (handleSAdd E db [''SADD'', k, x] w1) = IntReply 1 \<and> fst (handleSCard E db [''SCARD'', k] w2) = IntReply 1"
    and "fst (handleSMembers E db [''SMEMBERS'', k] w2) = BulkArray (Some (t_set t pk @ [x]))"
    and "backend (snd (process E pk w2)) = backend w2"
proof -
  obtain m where m: "t_meta t pk = Some m" "\<not> IsExpired m (t_time t)"
    using assms(5) by (auto simp: live_meta_def split: option.splits if_splits)
  note simps = E_def pk_def t_def
  have del: "handleDel E db [''DEL'', k] w = (IntReply 1, w1)"
    using m by (auto simp: w1_def handleDel_def withNow_def attempt_def Meta_Load_mem DeleteMeta_mem ret_def Let_def simps
        split: sum.split)
  have w1: "backend w1 = set_meta pk None t"
    using m assms(4) by (auto simp: w1_def handleDel_def withNow_def attempt_def Meta_Load_mem DeleteMeta_mem ret_def Let_def simps)
  show "fst (handleDel E db [''DEL'', k] w) = IntReply 1 \<and> fst (handleExists E db [''EXISTS'', k] w1) = IntReply 0"
    using del w1 by (simp add: handleExists_def attempt_def keyLive_mem ret_def live_meta_def simps)
  have sadd: "fst (handleSAdd E db [''SADD'', k, x] w1) = IntReply 1 \<and> t_set (backend w2) pk = t_set t pk @ [x] \<and>
      t_meta (backend w2) pk = Some \<lparr>m_type = TypeSet, m_exp = 0, m_count = 1\<rparr>"
    using w1 assms(6,7)
    by (simp add: w2_def handleSAdd_def ensureSetWritable_def attempt_def Let_def CheckWrite_run
        ensureTypeExpiring_mem call_mem sp_SAdd_def sadd_all_def adjustCount_mem ret_def on_tbl_def simps)
  show "fst (handleSAdd E db [''SADD'', k, x] w1) = IntReply 1 \<and> fst (handleSCard E db [''SCARD'', k] w2) = IntReply 1"
    using sadd by (simp add: handleSCard_def withKey_mem live_meta_def IsExpired_def ret_def simps)
  show "fst (handleSMembers E db [''SMEMBERS'', k] w2) = BulkArray (Some (t_set t pk @ [x]))"
    using sadd assms(8) by (simp add: handleSMembers_def withAll_def withKey_mem live_meta_def IsExpired_def ret_def attempt_def
        resultCapExceeded_def call_mem sp_SMembers_def on_tbl_def Let_def simps)
  show "backend (snd (process E pk w2)) = backend w2"
    using sadd by (simp add: process_mem_backend reclaim_def simps)
qed

section \<open>The orphan sweeper\<close>

definition DefaultSweepInterval :: int where
  "DefaultSweepInterval = 7 * 24 * (3600 * 1000000000)"

record sweeperConfig =
  sc_Interval :: int
  sc_SweepOnStart :: bool
  sc_InitialDelay :: int

text \<open>The state of the sweeper: backend and counters.\<close>

record 's sweeper =
  sw_backend :: 's
  sw_runs :: nat
  sw_reclaimed :: int
  sw_failures :: nat

definition NewSweeper :: "'s \<Rightarrow> sweeperConfig \<Rightarrow> sweeperConfig \<times> 's sweeper" where
  "NewSweeper b cfg =
     (cfg\<lparr>sc_Interval := if sc_Interval cfg \<le> 0 then DefaultSweepInterval else sc_Interval cfg\<rparr>,
      \<lparr>sw_backend = b, sw_runs = 0, sw_reclaimed = 0, sw_failures = 0\<rparr>)"

text \<open>\<open>op\<close> is the store's \<^verbatim>\<open>SweepOrphans\<close>.\<close>

definition sweep :: "('s \<Rightarrow> (serr + int) \<times> 's) \<Rightarrow> 's sweeper \<Rightarrow> 's sweeper" where
  "sweep op s =
     (let s1 = s\<lparr>sw_runs := sw_runs s + 1, sw_backend := snd (op (sw_backend s))\<rparr> in
      case fst (op (sw_backend s)) of
        Inl _ \<Rightarrow> s1\<lparr>sw_failures := sw_failures s1 + 1\<rparr>
      | Inr n \<Rightarrow> s1\<lparr>sw_reclaimed := sw_reclaimed s1 + n\<rparr>)"

text \<open>A goroutine that works on ticks: not started, started, waiting for its first timer, looping, gone.\<close>

datatype tphase = TIdle | TStart | TFirst | TLoop | TExited

record 'a ticking =
  tk_job :: 'a
  tk_phase :: tphase
  tk_quit :: bool
  tk_ctx :: bool
  tk_tick :: bool
  tk_timer :: bool

definition stopped :: "'a ticking \<Rightarrow> bool" where
  "stopped s \<longleftrightarrow> tk_ctx s \<or> tk_quit s"

text \<open>The flag of a step: whether it swept.\<close>

inductive sweeper_turn :: "('s \<Rightarrow> (serr + int) \<times> 's) \<Rightarrow> sweeperConfig \<Rightarrow> 's sweeper ticking \<Rightarrow> bool \<Rightarrow> 's sweeper ticking \<Rightarrow> bool"
  for op cfg where
  sweep_first: "tk_phase s = TStart \<Longrightarrow> sc_SweepOnStart cfg \<Longrightarrow>
    sweeper_turn op cfg s True (s\<lparr>tk_job := sweep op (tk_job s), tk_phase := TLoop\<rparr>)"
| sweep_delay: "tk_phase s = TStart \<Longrightarrow> \<not> sc_SweepOnStart cfg \<Longrightarrow> sc_InitialDelay cfg > 0 \<Longrightarrow>
    sweeper_turn op cfg s False (s\<lparr>tk_phase := TFirst\<rparr>)"
| sweep_later: "tk_phase s = TStart \<Longrightarrow> \<not> sc_SweepOnStart cfg \<Longrightarrow> sc_InitialDelay cfg \<le> 0 \<Longrightarrow>
    sweeper_turn op cfg s False (s\<lparr>tk_phase := TLoop\<rparr>)"
| sweep_timer: "tk_phase s = TFirst \<Longrightarrow> tk_timer s \<Longrightarrow>
    sweeper_turn op cfg s True (s\<lparr>tk_job := sweep op (tk_job s), tk_phase := TLoop, tk_timer := False\<rparr>)"
| sweep_tick: "tk_phase s = TLoop \<Longrightarrow> tk_tick s \<Longrightarrow>
    sweeper_turn op cfg s True (s\<lparr>tk_job := sweep op (tk_job s), tk_tick := False\<rparr>)"
| sweep_exit: "tk_phase s = TFirst \<or> tk_phase s = TLoop \<Longrightarrow> stopped s \<Longrightarrow>
    sweeper_turn op cfg s False (s\<lparr>tk_phase := TExited\<rparr>)"

text \<open>\<^verbatim>\<open>Start\<close>, \<^verbatim>\<open>Stop\<close>, cancellation and the clock, for every goroutine of this kind.\<close>

inductive ticking_other :: "'a ticking \<Rightarrow> 'a ticking \<Rightarrow> bool" where
  t_start: "tk_phase s = TIdle \<Longrightarrow> ticking_other s (s\<lparr>tk_phase := TStart\<rparr>)"
| t_stop: "tk_phase s \<noteq> TIdle \<Longrightarrow> ticking_other s (s\<lparr>tk_quit := True\<rparr>)"
| t_cancel: "ticking_other s (s\<lparr>tk_ctx := True\<rparr>)"
| t_tick: "ticking_other s (s\<lparr>tk_tick := True\<rparr>)"
| t_timer: "tk_phase s = TFirst \<Longrightarrow> ticking_other s (s\<lparr>tk_timer := True\<rparr>)"

definition ticking_rank :: "'a ticking \<Rightarrow> nat" where
  "ticking_rank s =
     (case tk_phase s of TIdle \<Rightarrow> 0 | TStart \<Rightarrow> 4 | TFirst \<Rightarrow> 3 | TLoop \<Rightarrow> 1 + (if tk_tick s then 1 else 0) | TExited \<Rightarrow> 0)"

definition ticking_asked :: "'a ticking \<Rightarrow> bool" where
  "ticking_asked s \<longleftrightarrow> stopped s \<and> tk_phase s \<noteq> TIdle"

definition sweeper_next where
  "sweeper_next op cfg s s' \<longleftrightarrow> (\<exists>b. sweeper_turn op cfg s b s')"

lemma sweeper_turn_rank:
  assumes "sweeper_turn op cfg s b s'" and "ticking_asked s"
  shows "ticking_asked s' \<and> ticking_rank s' < ticking_rank s"
  using assms by cases (auto simp: ticking_asked_def ticking_rank_def stopped_def)

lemma sweeper_turn_enabled:
  assumes "ticking_asked s" and "tk_phase s \<noteq> TExited"
  shows "\<exists>b s'. sweeper_turn op cfg s b s'"
proof (cases "tk_phase s")
  case TStart
  then show ?thesis
    by (cases "sc_SweepOnStart cfg"; cases "sc_InitialDelay cfg > 0") (blast intro: sweeper_turn.intros leI)+
qed (use assms in \<open>auto simp: ticking_asked_def intro: sweeper_turn.intros\<close>)

interpretation sweeper_stop: background_worker "sweeper_next op cfg" ticking_asked
    "\<lambda>s. tk_phase s = TExited" ticking_rank for op cfg
  by unfold_locales (use sweeper_turn_rank sweeper_turn_enabled in \<open>(fastforce simp: sweeper_next_def)+\<close>)

text \<open>Asked to stop, the sweeper exits within four turns of its own, having swept at most once more per tick.\<close>

lemma sweeper_stops:
  assumes "ticking_asked s" and "(sweeper_next op cfg ^^ n) s t"
  shows "n \<le> 4" and "\<exists>u. (sweeper_next op cfg)\<^sup>*\<^sup>* t u \<and> tk_phase u = TExited"
proof -
  note t = sweeper_stop.turns_bounded [OF assms(2,1)]
  have "ticking_rank s \<le> 4" by (simp add: ticking_rank_def split: tphase.split)
  then show "n \<le> 4" using t by linarith
  show "\<exists>u. (sweeper_next op cfg)\<^sup>*\<^sup>* t u \<and> tk_phase u = TExited" using sweeper_stop.exit_reached t by blast
qed

inductive sweeper_run :: "('s \<Rightarrow> (serr + int) \<times> 's) \<Rightarrow> sweeperConfig \<Rightarrow> 's sweeper ticking \<Rightarrow> bool list \<Rightarrow> 's sweeper ticking \<Rightarrow> bool"
  for op cfg s where
  sweeps_nil: "sweeper_run op cfg s [] s"
| sweeps_turn: "sweeper_run op cfg s bs t \<Longrightarrow> sweeper_turn op cfg t b u \<Longrightarrow> sweeper_run op cfg s (bs @ [b]) u"
| sweeps_other: "sweeper_run op cfg s bs t \<Longrightarrow> ticking_other t u \<Longrightarrow> sweeper_run op cfg s bs u"

text \<open>The counters: every sweep is counted once, whether it failed or not, and failures are among them.\<close>

lemma sweep_counts:
  "sw_runs (sweep op s) = sw_runs s + 1"
  "sw_failures (sweep op s) = sw_failures s + (if isl (fst (op (sw_backend s))) then 1 else 0)"
  "sw_backend (sweep op s) = snd (op (sw_backend s))"
  by (simp_all add: sweep_def Let_def split: sum.split)

lemma sweeper_counters:
  assumes "sweeper_run op cfg s bs t"
  shows "sw_runs (tk_job t) = sw_runs (tk_job s) + length (filter (\<lambda>b. b) bs) \<and>
    sw_failures (tk_job t) + sw_runs (tk_job s) \<le> sw_runs (tk_job t) + sw_failures (tk_job s)"
  using assms
proof induction
  case (sweeps_turn bs t b u)
  from sweeps_turn.hyps(2) show ?case
    using sweeps_turn.IH by cases (auto simp: sweep_counts)
next
  case (sweeps_other bs t u)
  from sweeps_other.hyps(2) show ?case using sweeps_other.IH by cases auto
qed simp

section \<open>The backend probe\<close>

text \<open>\<open>get\<close> is the bounded GetItem of \<^verbatim>\<open>checkBackend\<close>: the text of its error, if any.\<close>

record 's backendProbe =
  bp_backend :: 's
  bp_healthy :: bool
  bp_lastErr :: bytes

definition newBackendProbe :: "'s \<Rightarrow> bool \<Rightarrow> 's backendProbe" where
  "newBackendProbe b seed = \<lparr>bp_backend = b, bp_healthy = seed, bp_lastErr = []\<rparr>"

definition probe :: "('s \<Rightarrow> bytes option \<times> 's) \<Rightarrow> 's backendProbe \<Rightarrow> 's backendProbe" where
  "probe get p =
     (case get (bp_backend p) of
        (None, b) \<Rightarrow> \<lparr>bp_backend = b, bp_healthy = True, bp_lastErr = []\<rparr>
      | (Some err, b) \<Rightarrow> \<lparr>bp_backend = b, bp_healthy = False, bp_lastErr = err\<rparr>)"

inductive probe_turn :: "('s \<Rightarrow> bytes option \<times> 's) \<Rightarrow> 's backendProbe ticking \<Rightarrow> 's backendProbe ticking \<Rightarrow> bool" for get where
  probe_begin: "tk_phase s = TStart \<Longrightarrow> probe_turn get s (s\<lparr>tk_phase := TLoop\<rparr>)"
| probe_tick: "tk_phase s = TLoop \<Longrightarrow> tk_tick s \<Longrightarrow>
    probe_turn get s (s\<lparr>tk_job := probe get (tk_job s), tk_tick := False\<rparr>)"
| probe_exit: "tk_phase s = TLoop \<Longrightarrow> stopped s \<Longrightarrow> probe_turn get s (s\<lparr>tk_phase := TExited\<rparr>)"

lemma probe_turn_rank:
  assumes "probe_turn get s s'" and "ticking_asked s \<and> tk_phase s \<noteq> TFirst"
  shows "(ticking_asked s' \<and> tk_phase s' \<noteq> TFirst) \<and> ticking_rank s' < ticking_rank s"
  using assms by cases (auto simp: ticking_asked_def ticking_rank_def stopped_def)

interpretation probe_stop: background_worker "probe_turn get" "\<lambda>s. ticking_asked s \<and> tk_phase s \<noteq> TFirst"
    "\<lambda>s. tk_phase s = TExited" ticking_rank for get
proof unfold_locales
  show "\<exists>s'. probe_turn get s s'" if "ticking_asked s \<and> tk_phase s \<noteq> TFirst" "tk_phase s \<noteq> TExited" for s
    using that by (cases "tk_phase s") (auto simp: ticking_asked_def intro: probe_turn.intros)
qed (use probe_turn_rank in blast)

text \<open>
  Readiness is the outcome of the last probe (\<^verbatim>\<open>/readyz\<close> answers 503 when it failed), and the error
  text is empty exactly while the backend is healthy, provided errors have a text.
\<close>

definition readyzStatus :: "'s backendProbe \<Rightarrow> nat" where
  "readyzStatus p = (if bp_healthy p then 200 else 503)"

lemma probe_consistent:
  assumes "\<And>b err b'. get b = (Some err, b') \<Longrightarrow> err \<noteq> []"
    and "probe_turn get s s'" and "bp_healthy (tk_job s) \<longleftrightarrow> bp_lastErr (tk_job s) = []"
  shows "bp_healthy (tk_job s') \<longleftrightarrow> bp_lastErr (tk_job s') = []"
  using assms(2,3)
  by cases (auto simp: probe_def dest: assms(1) split: prod.split option.split)

end
