(* ===== verification/Pipe.thy ===== *)
theory Pipe
  imports Prelude "HOL-Library.Multiset"
begin

text \<open>
  The in-memory connection of the embedded client (\<^verbatim>\<open>bufconn.go\<close>), its closer (\<^verbatim>\<open>closer.go\<close>) and the
  listener that hands one connection to the RESP server (\<^verbatim>\<open>internal/server/inproc.go\<close>). Every operation
  runs under the buffer's mutex, so a run is a sequence of operations of the two ends; a \<^verbatim>\<open>Read\<close> that
  has to wait is an attempt without result, and each wakeup is another attempt. Times are nanoseconds,
  no deadline is \<open>None\<close>.
\<close>

section \<open>One direction\<close>

record pipeBuffer =
  pb_buf :: bytes
  pb_closed :: bool

datatype ioerr = ErrClosed | EOF | IOTimeout

definition newPipeBuffer :: pipeBuffer where
  "newPipeBuffer = \<lparr>pb_buf = [], pb_closed = False\<rparr>"

definition pipe_write :: "bytes \<Rightarrow> pipeBuffer \<Rightarrow> (ioerr + nat) \<times> pipeBuffer" where
  "pipe_write p b = (if pb_closed b then (Inl ErrClosed, b) else (Inr (length p), b\<lparr>pb_buf := pb_buf b @ p\<rparr>))"

text \<open>The loop of \<^verbatim>\<open>read\<close> at one wakeup; \<open>None\<close>: wait for the next one.\<close>

definition read_try :: "int option \<Rightarrow> int \<Rightarrow> nat \<Rightarrow> pipeBuffer \<Rightarrow> ((ioerr + bytes) \<times> pipeBuffer) option" where
  "read_try dl now n b =
     (if pb_buf b \<noteq> [] then Some (Inr (take n (pb_buf b)), b\<lparr>pb_buf := drop n (pb_buf b)\<rparr>)
      else if pb_closed b then Some (Inl EOF, b)
      else if (case dl of None \<Rightarrow> False | Some d \<Rightarrow> d \<le> now) then Some (Inl IOTimeout, b)
      else None)"

text \<open>On entry a deadline already over fails before the buffer is looked at.\<close>

definition pipe_read :: "int option \<Rightarrow> int \<Rightarrow> nat \<Rightarrow> pipeBuffer \<Rightarrow> ((ioerr + bytes) \<times> pipeBuffer) option" where
  "pipe_read dl now n b =
     (if (case dl of None \<Rightarrow> False | Some d \<Rightarrow> d - now \<le> 0) then Some (Inl IOTimeout, b)
      else read_try dl now n b)"

definition pipe_close :: "pipeBuffer \<Rightarrow> pipeBuffer" where
  "pipe_close b = b\<lparr>pb_closed := True\<rparr>"

section \<open>The two ends\<close>

datatype side = ClientEnd | ServerEnd

text \<open>\<open>bp_buf e\<close> is the buffer end \<open>e\<close> writes to; the other end reads it.\<close>

record bufPair =
  bp_buf :: "side \<Rightarrow> pipeBuffer"
  bp_readDead :: "side \<Rightarrow> int option"
  bp_writeDead :: "side \<Rightarrow> int option"

fun peer :: "side \<Rightarrow> side" where
  "peer ClientEnd = ServerEnd"
| "peer ServerEnd = ClientEnd"

definition newBufConnPair :: bufPair where
  "newBufConnPair = \<lparr>bp_buf = (\<lambda>_. newPipeBuffer), bp_readDead = (\<lambda>_. None), bp_writeDead = (\<lambda>_. None)\<rparr>"

definition put_buf :: "side \<Rightarrow> pipeBuffer \<Rightarrow> bufPair \<Rightarrow> bufPair" where
  "put_buf e b P = P\<lparr>bp_buf := (bp_buf P)(e := b)\<rparr>"

definition bc_Write :: "side \<Rightarrow> int \<Rightarrow> bytes \<Rightarrow> bufPair \<Rightarrow> (ioerr + nat) \<times> bufPair" where
  "bc_Write e now p P =
     (if (case bp_writeDead P e of None \<Rightarrow> False | Some d \<Rightarrow> d \<le> now) then (Inl IOTimeout, P)
      else (fst (pipe_write p (bp_buf P e)), put_buf e (snd (pipe_write p (bp_buf P e))) P))"

definition bc_Read :: "side \<Rightarrow> int \<Rightarrow> nat \<Rightarrow> bufPair \<Rightarrow> ((ioerr + bytes) \<times> bufPair) option" where
  "bc_Read e now n P =
     map_option (\<lambda>(r, b). (r, put_buf (peer e) b P)) (pipe_read (bp_readDead P e) now n (bp_buf P (peer e)))"

text \<open>A waiting \<^verbatim>\<open>Read\<close> goes on with the deadline \<open>dl\<close> it started with.\<close>

definition bc_Wake :: "side \<Rightarrow> int option \<Rightarrow> int \<Rightarrow> nat \<Rightarrow> bufPair \<Rightarrow> ((ioerr + bytes) \<times> bufPair) option" where
  "bc_Wake e dl now n P =
     map_option (\<lambda>(r, b). (r, put_buf (peer e) b P)) (read_try dl now n (bp_buf P (peer e)))"

definition bc_Close :: "side \<Rightarrow> bufPair \<Rightarrow> bufPair" where
  "bc_Close e P =
     put_buf e (pipe_close (bp_buf P e)) (put_buf (peer e) (pipe_close (bp_buf P (peer e))) P)"

definition bc_SetReadDeadline :: "side \<Rightarrow> int option \<Rightarrow> bufPair \<Rightarrow> bufPair" where
  "bc_SetReadDeadline e t P = P\<lparr>bp_readDead := (bp_readDead P)(e := t)\<rparr>"

definition bc_SetWriteDeadline :: "side \<Rightarrow> int option \<Rightarrow> bufPair \<Rightarrow> bufPair" where
  "bc_SetWriteDeadline e t P = P\<lparr>bp_writeDead := (bp_writeDead P)(e := t)\<rparr>"

definition bc_SetDeadline :: "side \<Rightarrow> int option \<Rightarrow> bufPair \<Rightarrow> bufPair" where
  "bc_SetDeadline e t P =
     P\<lparr>bp_readDead := (bp_readDead P)(e := t), bp_writeDead := (bp_writeDead P)(e := t)\<rparr>"

section \<open>Runs of a connection\<close>

datatype connOp =
    OpWrite side int bytes
  | OpRead side int nat
  | OpWake side "int option" int nat
  | OpClose side
  | OpReadDeadline side "int option"
  | OpWriteDeadline side "int option"
  | OpDeadline side "int option"

text \<open>What an operation does to the stream: bytes taken in, bytes given out, an end of stream seen.\<close>

datatype outcome = Sent side bytes | Received side bytes | SawEOF side | Failed ioerr | NoOutcome

definition read_outcome :: "side \<Rightarrow> bufPair \<Rightarrow> ((ioerr + bytes) \<times> bufPair) option \<Rightarrow> outcome \<times> bufPair" where
  "read_outcome e P r =
     (case r of
        None \<Rightarrow> (NoOutcome, P)
      | Some (Inr p, P') \<Rightarrow> (Received e p, P')
      | Some (Inl EOF, P') \<Rightarrow> (SawEOF e, P')
      | Some (Inl err, P') \<Rightarrow> (Failed err, P'))"

fun exec_op :: "connOp \<Rightarrow> bufPair \<Rightarrow> outcome \<times> bufPair" where
  "exec_op (OpWrite e now p) P =
     (case bc_Write e now p P of (Inl err, P') \<Rightarrow> (Failed err, P') | (Inr n, P') \<Rightarrow> (Sent e (take n p), P'))"
| "exec_op (OpRead e now n) P = read_outcome e P (bc_Read e now n P)"
| "exec_op (OpWake e dl now n) P = read_outcome e P (bc_Wake e dl now n P)"
| "exec_op (OpClose e) P = (NoOutcome, bc_Close e P)"
| "exec_op (OpReadDeadline e t) P = (NoOutcome, bc_SetReadDeadline e t P)"
| "exec_op (OpWriteDeadline e t) P = (NoOutcome, bc_SetWriteDeadline e t P)"
| "exec_op (OpDeadline e t) P = (NoOutcome, bc_SetDeadline e t P)"

fun exec_ops :: "connOp list \<Rightarrow> bufPair \<Rightarrow> outcome list \<times> bufPair" where
  "exec_ops [] P = ([], P)"
| "exec_ops (x # xs) P =
     (let r = exec_op x P; rs = exec_ops xs (snd r) in (fst r # fst rs, snd rs))"

definition sent :: "side \<Rightarrow> outcome list \<Rightarrow> bytes" where
  "sent e rs = concat (map (\<lambda>r. case r of Sent e' p \<Rightarrow> if e' = e then p else [] | _ \<Rightarrow> []) rs)"

definition received :: "side \<Rightarrow> outcome list \<Rightarrow> bytes" where
  "received e rs = concat (map (\<lambda>r. case r of Received e' p \<Rightarrow> if e' = e then p else [] | _ \<Rightarrow> []) rs)"

lemma stream_Cons:
  "sent e (r # rs) = sent e [r] @ sent e rs" "received e (r # rs) = received e [r] @ received e rs"
  by (simp_all add: sent_def received_def)

lemma stream_simps [simp]:
  "sent e [] = []" "sent e (Sent e' p # rs) = (if e' = e then p else []) @ sent e rs"
  "sent e (Received e' p # rs) = sent e rs" "sent e (SawEOF e' # rs) = sent e rs"
  "sent e (Failed err # rs) = sent e rs" "sent e (NoOutcome # rs) = sent e rs"
  "received e [] = []" "received e (Received e' p # rs) = (if e' = e then p else []) @ received e rs"
  "received e (Sent e' p # rs) = received e rs" "received e (SawEOF e' # rs) = received e rs"
  "received e (Failed err # rs) = received e rs" "received e (NoOutcome # rs) = received e rs"
  by (simp_all add: sent_def received_def)

lemma peer_peer [simp]: "peer (peer e) = e" "peer e \<noteq> e" "e \<noteq> peer e"
  by (cases e; simp)+

lemma other_side: "e' \<noteq> e \<longleftrightarrow> e' = peer e"
  by (cases e; cases e'; simp)

text \<open>What an attempt to read does to its buffer.\<close>

lemma read_try_stream:
  "read_try dl now n b = Some (Inr p, b') \<Longrightarrow> pb_buf b = p @ pb_buf b' \<and> pb_closed b' = pb_closed b"
  "read_try dl now n b = Some (Inl err, b') \<Longrightarrow> b' = b \<and> (err = EOF \<longrightarrow> pb_closed b \<and> pb_buf b = [])"
  by (auto simp: read_try_def split: if_splits)

lemma pipe_read_stream:
  "pipe_read dl now n b = Some (Inr p, b') \<Longrightarrow> pb_buf b = p @ pb_buf b' \<and> pb_closed b' = pb_closed b"
  "pipe_read dl now n b = Some (Inl err, b') \<Longrightarrow> b' = b \<and> (err = EOF \<longrightarrow> pb_closed b \<and> pb_buf b = [])"
  by (auto simp: pipe_read_def dest: read_try_stream split: if_splits)

text \<open>
  One operation: the bytes of a direction are conserved, a closed direction stays closed and takes
  no byte, and the end of the stream is seen only when the direction is closed and empty.
\<close>

definition keeps_stream :: "side \<Rightarrow> bufPair \<Rightarrow> outcome \<times> bufPair \<Rightarrow> bool" where
  "keeps_stream e P q \<longleftrightarrow>
     pb_buf (bp_buf P e) @ sent e [fst q] = received (peer e) [fst q] @ pb_buf (bp_buf (snd q) e) \<and>
     (pb_closed (bp_buf P e) \<longrightarrow> pb_closed (bp_buf (snd q) e) \<and> sent e [fst q] = []) \<and>
     (fst q = SawEOF (peer e) \<longrightarrow> pb_closed (bp_buf (snd q) e) \<and> pb_buf (bp_buf (snd q) e) = [])"

lemma keeps_stream_read:
  assumes "\<And>p b'. r = Some (Inr p, b') \<Longrightarrow> pb_buf (bp_buf P (peer e')) = p @ pb_buf b' \<and>
      pb_closed b' = pb_closed (bp_buf P (peer e'))"
    and "\<And>err b'. r = Some (Inl err, b') \<Longrightarrow> b' = bp_buf P (peer e') \<and>
      (err = EOF \<longrightarrow> pb_closed b' \<and> pb_buf b' = [])"
  shows "keeps_stream e P (read_outcome e' P (map_option (\<lambda>(r, b). (r, put_buf (peer e') b P)) r))"
proof (cases r)
  case None
  then show ?thesis by (simp add: keeps_stream_def read_outcome_def sent_def received_def)
next
  case (Some q)
  then obtain v b' where q: "q = (v, b')" by (cases q)
  show ?thesis
  proof (cases v)
    case (Inl err)
    then show ?thesis
      using assms(2) [of err b'] Some q
      by (cases err) (auto simp: keeps_stream_def read_outcome_def put_buf_def sent_def received_def)
  next
    case (Inr p)
    then show ?thesis
      using assms(1) [of p b'] Some q other_side [of e' "peer e"]
      by (auto simp: keeps_stream_def read_outcome_def put_buf_def sent_def received_def)
  qed
qed

lemma exec_op_stream: "keeps_stream e P (exec_op x P)"
proof (cases x)
  case (OpWrite e' now p)
  then show ?thesis
    by (auto simp: keeps_stream_def bc_Write_def pipe_write_def put_buf_def sent_def received_def split: option.split)
next
  case (OpRead e' now n)
  then show ?thesis
    unfolding OpRead exec_op.simps bc_Read_def
    by (intro keeps_stream_read) (auto dest: pipe_read_stream)
next
  case (OpWake e' dl now n)
  then show ?thesis
    unfolding OpWake exec_op.simps bc_Wake_def
    by (intro keeps_stream_read) (auto dest: read_try_stream)
qed (auto simp: keeps_stream_def bc_Close_def bc_SetReadDeadline_def bc_SetWriteDeadline_def bc_SetDeadline_def
      put_buf_def pipe_close_def sent_def received_def)

lemma exec_ops_stream:
  assumes "exec_ops xs P = (rs, P')"
  shows "pb_buf (bp_buf P e) @ sent e rs = received (peer e) rs @ pb_buf (bp_buf P' e) \<and>
    (pb_closed (bp_buf P e) \<longrightarrow> pb_closed (bp_buf P' e) \<and> sent e rs = []) \<and>
    (SawEOF (peer e) \<in> set rs \<longrightarrow> pb_closed (bp_buf P' e) \<and> pb_buf (bp_buf P' e) = [])"
  using assms
proof (induction xs arbitrary: P rs)
  case (Cons x xs)
  obtain r Q where r: "exec_op x P = (r, Q)" by fastforce
  obtain rs' where rs': "exec_ops xs Q = (rs', P')" using Cons.prems r by (cases "exec_ops xs Q") (simp add: Let_def)
  have rs: "rs = r # rs'" using Cons.prems r rs' by (simp add: Let_def)
  note step = exec_op_stream [of e P x, unfolded r keeps_stream_def fst_conv snd_conv]
  note rest = Cons.IH [OF rs']
  have "pb_buf (bp_buf P e) @ sent e rs = received (peer e) rs @ pb_buf (bp_buf P' e)"
    using step rest by (metis rs append.assoc stream_Cons(1,2))
  moreover have "pb_closed (bp_buf P e) \<longrightarrow> pb_closed (bp_buf P' e) \<and> sent e rs = []"
    using step rest by (metis rs append_Nil stream_Cons(1))
  moreover have "SawEOF (peer e) \<in> set rs \<longrightarrow> pb_closed (bp_buf P' e) \<and> pb_buf (bp_buf P' e) = []"
    using step rest by (auto simp: rs)
  ultimately show ?case by blast
qed simp

text \<open>
  C30: the embedded connection is two byte streams. Whatever the two ends do, in whatever order and
  with whatever deadlines, the bytes the peer has received are exactly the first bytes sent, the rest
  is buffered, nothing is lost, repeated or reordered; and an end of stream is reported only when every
  byte sent has been received.
\<close>

theorem buffered_conn_is_stream:
  assumes "exec_ops xs newBufConnPair = (rs, P)"
  shows "sent e rs = received (peer e) rs @ pb_buf (bp_buf P e) \<and>
    (SawEOF (peer e) \<in> set rs \<longrightarrow> received (peer e) rs = sent e rs)"
  using exec_ops_stream [OF assms, of e]
  by (auto simp: newBufConnPair_def newPipeBuffer_def)

theorem buffered_conn_is_stream_witness:
  "\<exists>rs P. exec_ops [OpWrite ClientEnd 0 ''PI'', OpRead ServerEnd 0 1, OpWrite ClientEnd 1 ''NG'', OpClose ClientEnd,
      OpRead ServerEnd 2 9, OpRead ServerEnd 3 9] newBufConnPair = (rs, P) \<and>
    rs = [Sent ClientEnd ''PI'', Received ServerEnd ''P'', Sent ClientEnd ''NG'', NoOutcome,
      Received ServerEnd ''ING'', SawEOF ServerEnd] \<and>
    received ServerEnd rs = sent ClientEnd rs"
proof -
  obtain rs P where run: "exec_ops [OpWrite ClientEnd 0 ''PI'', OpRead ServerEnd 0 1, OpWrite ClientEnd 1 ''NG'', OpClose ClientEnd,
      OpRead ServerEnd 2 9, OpRead ServerEnd 3 9] newBufConnPair = (rs, P)" by fastforce
  then have "rs = [Sent ClientEnd ''PI'', Received ServerEnd ''P'', Sent ClientEnd ''NG'', NoOutcome,
      Received ServerEnd ''ING'', SawEOF ServerEnd]"
    by (simp add: newBufConnPair_def newPipeBuffer_def bc_Write_def bc_Read_def bc_Close_def put_buf_def pipe_write_def
        pipe_read_def read_try_def pipe_close_def read_outcome_def Let_def)
  moreover from this have "received ServerEnd rs = sent ClientEnd rs"
    using buffered_conn_is_stream [OF run, of ClientEnd] by simp
  ultimately show ?thesis using run by blast
qed

section \<open>The closer\<close>

text \<open>\<open>cl_severed\<close>: the connections closed so far.\<close>

record inProcessCloser =
  cl_conns :: "nat list"
  cl_closed :: bool
  cl_severed :: "nat list"

definition newCloser :: inProcessCloser where
  "newCloser = \<lparr>cl_conns = [], cl_closed = False, cl_severed = []\<rparr>"

definition track :: "nat \<Rightarrow> inProcessCloser \<Rightarrow> inProcessCloser" where
  "track c k =
     (if cl_closed k then k\<lparr>cl_severed := cl_severed k @ [c]\<rparr> else k\<lparr>cl_conns := cl_conns k @ [c]\<rparr>)"

definition closer_Close :: "inProcessCloser \<Rightarrow> inProcessCloser" where
  "closer_Close k =
     (if cl_closed k then k
      else k\<lparr>cl_closed := True, cl_conns := [], cl_severed := cl_severed k @ cl_conns k\<rparr>)"

text \<open>Once closed, every connection ever dialed is severed, each once, the late ones too.\<close>

lemma closer_track: "mset (cl_conns (track c k)) + mset (cl_severed (track c k)) =
    add_mset c (mset (cl_conns k) + mset (cl_severed k))"
  by (simp add: track_def)

lemma closer_severs_all:
  "cl_conns (fold track late (closer_Close (fold track early newCloser))) = [] \<and>
   cl_severed (fold track late (closer_Close (fold track early newCloser))) = early @ late"
proof -
  have early: "\<not> cl_closed k \<Longrightarrow> fold track early k = k\<lparr>cl_conns := cl_conns k @ early\<rparr>" for k
    by (induction early arbitrary: k) (simp_all add: track_def)
  have late: "cl_closed k \<Longrightarrow> fold track late k = k\<lparr>cl_severed := cl_severed k @ late\<rparr>" for k
    by (induction late arbitrary: k) (simp_all add: track_def)
  show ?thesis by (simp add: newCloser_def early late closer_Close_def)
qed

section \<open>The one-shot listener\<close>

record oneShotListener =
  ol_handed :: bool
  ol_closed :: bool

datatype acceptResult = AcceptConn | AcceptClosed | AcceptParks

definition newOneShotListener :: oneShotListener where
  "newOneShotListener = \<lparr>ol_handed = False, ol_closed = False\<rparr>"

definition ol_Accept :: "oneShotListener \<Rightarrow> acceptResult \<times> oneShotListener" where
  "ol_Accept l =
     (if ol_closed l then (AcceptClosed, l)
      else if \<not> ol_handed l then (AcceptConn, l\<lparr>ol_handed := True\<rparr>)
      else (AcceptParks, l))"

definition ol_Close :: "oneShotListener \<Rightarrow> oneShotListener" where
  "ol_Close l = l\<lparr>ol_closed := True\<rparr>"

text \<open>
  The connection is handed out once; after that \<^verbatim>\<open>Accept\<close> parks until the listener itself is closed:
  no operation on the connection is among the operations that wake it.
\<close>

lemma one_shot:
  "fst (ol_Accept newOneShotListener) = AcceptConn"
  "fst (ol_Accept (snd (ol_Accept newOneShotListener))) = AcceptParks"
  "fst (ol_Accept (ol_Close l)) = AcceptClosed"
  by (simp_all add: ol_Accept_def ol_Close_def newOneShotListener_def)

end
