(* ===== verification/ReadPath.thy ===== *)
theory ReadPath
  imports Collections
begin

text \<open>
  The concurrent read path (\<^verbatim>\<open>internal/meta/read.go\<close>): meta item and data are read at the same time, and
  the data is used only if the meta item shows a live key. \<open>dataFirst\<close> is the order in which the two
  reads reach the backend; cancelling the data read is best effort, so the model always runs it.
\<close>

definition ReadPath :: "'s env \<Rightarrow> bool \<Rightarrow> bytes \<Rightarrow> ('s, serr + 'a) act \<Rightarrow> ('s, serr + 'a option) act" where
  "ReadPath E dataFirst pk readData w =
     (let now = e_now E (backend w);
          early = readData w;
          meta = Meta_Load E pk (if dataFirst then snd early else w);
          late = readData (snd meta);
          data = (if dataFirst then fst early else fst late);
          w' = (if dataFirst then snd meta else snd late)
      in case fst meta of
           Inl e \<Rightarrow> (Inl e, w')
         | Inr None \<Rightarrow> (Inr None, w')
         | Inr (Some m) \<Rightarrow>
             if IsExpired m now then (Inr None, snd (Enqueue E pk w'))
             else (case data of Inl e \<Rightarrow> (Inl e, w') | Inr v \<Rightarrow> (Inr (Some v), w')))"

text \<open>
  A read that changes nothing gives the same answer in either order: the data of a live key, nothing
  for any other key, and only an expired key is handed to the deleter, once.
\<close>

lemma ReadPath_reads:
  assumes "\<And>w. snd (readData w) = w"
  shows "ReadPath (mem_env q cfg) dataFirst pk readData w =
    (case t_meta (backend w) pk of
       None \<Rightarrow> (Inr None, w)
     | Some m \<Rightarrow>
         if IsExpired m (t_time (backend w)) then (Inr None, snd (Enqueue (mem_env q cfg) pk w))
         else (map_sum (\<lambda>e. e) Some (fst (readData w)), w))"
  by (simp add: ReadPath_def Let_def assms Meta_Load_mem split: option.split sum.split)

lemma ReadPath_found:
  assumes "\<And>w. snd (readData w) = w" and "fst (readData w) = Inr v"
  shows "fst (ReadPath (mem_env q cfg) dataFirst pk readData w) =
    Inr (if live_meta (backend w) pk = None then None else Some v)"
  using assms(2) by (simp add: ReadPath_reads [OF assms(1)] live_meta_def split: option.split)

end
