(* ===== verification/Deploy.thy ===== *)
theory Deploy
  imports Dispatch Stack Workers Pipe
begin

text \<open>
  Assembly of the process: the flags and their validation (\<^verbatim>\<open>cmd/redimos/main.go\<close>), what \<^verbatim>\<open>run\<close> builds
  from them (\<^verbatim>\<open>assembly.go\<close>), the schema check of an existing table (\<^verbatim>\<open>internal/storage/ensuretable.go\<close>)
  and the assembly of the embedded client (\<^verbatim>\<open>client.go\<close>). Durations are nanoseconds; an error is its
  constructor and the values its text shows. DynamoDB and the AWS configuration are arguments.
\<close>

definition second :: int where "second = 1000000000"
definition minute :: int where "minute = 60 * second"

section \<open>Flags\<close>

record appConfig =
  ac_addr :: bytes
  ac_requirepass :: bytes
  ac_multiDB :: bool
  ac_autoCreateTable :: bool
  ac_databases :: int
  ac_maxCollectionResult :: int
  ac_maxCommandBytes :: int
  ac_commandTimeout :: int
  ac_table :: bytes
  ac_consistency :: bytes
  ac_region :: bytes
  ac_endpointURL :: bytes
  ac_endpointPartitionID :: bytes
  ac_credAccessKeyID :: bytes
  ac_credSecretAccessKey :: bytes
  ac_credSessionToken :: bytes
  ac_retryMax :: int
  ac_deleteBatch :: int
  ac_deleteRate :: f64
  ac_cbThreshold :: int
  ac_cbCooldown :: int
  ac_instID :: bytes
  ac_scanCapacity :: int
  ac_scanTTL :: int
  ac_scanTimeout :: int
  ac_sweepInterval :: int
  ac_metricsAddr :: bytes
  ac_slowlogThreshold :: int
  ac_slowlogCapacity :: int
  ac_requestLog :: bytes

text \<open>The configuration of a launch without flags.\<close>

definition defaultConfig :: appConfig where
  "defaultConfig =
     \<lparr>ac_addr = '':6379'', ac_requirepass = [], ac_multiDB = False, ac_autoCreateTable = False, ac_databases = 16,
      ac_maxCollectionResult = 0, ac_maxCommandBytes = 0, ac_commandTimeout = 0, ac_table = ''redis-data'',
      ac_consistency = ''strong'', ac_region = [], ac_endpointURL = [], ac_endpointPartitionID = [],
      ac_credAccessKeyID = [], ac_credSecretAccessKey = [], ac_credSessionToken = [], ac_retryMax = 5,
      ac_deleteBatch = 25, ac_deleteRate = f64_of_int 50, ac_cbThreshold = 0, ac_cbCooldown = 5 * second,
      ac_instID = [], ac_scanCapacity = 10000, ac_scanTTL = 10 * minute, ac_scanTimeout = 5 * second,
      ac_sweepInterval = DefaultSweepInterval, ac_metricsAddr = '':9121'', ac_slowlogThreshold = 10 * 1000000,
      ac_slowlogCapacity = 128, ac_requestLog = ''none''\<rparr>"

text \<open>An error of the configuration: a plain text, or a text around a string, a number or a duration.\<close>

datatype configError =
  ConfigText bytes | ConfigString bytes bytes | ConfigNumber bytes int | ConfigDuration bytes int

definition parseRequestLogLevel :: "bytes \<Rightarrow> configError + requestLogLevel" where
  "parseRequestLogLevel s =
     (if s = ''none'' \<or> s = [] then Inr LogNone
      else if s = ''error'' then Inr LogErrors
      else if s = ''slow'' then Inr LogSlow
      else if s = ''all'' then Inr LogAll
      else Inl (ConfigString ''-request-log must be none|error|slow|all, got '' s))"

definition validateConfig :: "appConfig \<Rightarrow> configError option" where
  "validateConfig cfg =
     (if ac_addr cfg = [] then Some (ConfigText ''-addr must not be empty'')
      else if ac_metricsAddr cfg = [] then Some (ConfigText ''-metrics-addr must not be empty'')
      else if ac_table cfg = [] then Some (ConfigText ''-table must not be empty'')
      else if ac_consistency cfg \<noteq> ''strong'' \<and> ac_consistency cfg \<noteq> ''eventual''
        then Some (ConfigString ''-consistency must be strong|eventual, got '' (ac_consistency cfg))
      else if ac_deleteBatch cfg < 1 \<or> ac_deleteBatch cfg > 25
        then Some (ConfigNumber ''-delete-batch-size must be in [1,25], got '' (ac_deleteBatch cfg))
      else if ac_retryMax cfg < 1 then Some (ConfigNumber ''-retry-max-attempts must be >= 1, got '' (ac_retryMax cfg))
      else if ac_scanCapacity cfg < 1 then Some (ConfigNumber ''-scan-capacity must be >= 1, got '' (ac_scanCapacity cfg))
      else if ac_slowlogCapacity cfg < 1
        then Some (ConfigNumber ''-slowlog-capacity must be >= 1, got '' (ac_slowlogCapacity cfg))
      else
        case parseRequestLogLevel (ac_requestLog cfg) of
          Inl err \<Rightarrow> Some err
        | Inr _ \<Rightarrow>
            if ac_maxCollectionResult cfg < 0
              then Some (ConfigNumber ''-max-collection-result must be >= 0, got '' (ac_maxCollectionResult cfg))
            else if ac_maxCommandBytes cfg < 0
              then Some (ConfigNumber ''-max-command-bytes must be >= 0, got '' (ac_maxCommandBytes cfg))
            else if ac_commandTimeout cfg < 0
              then Some (ConfigDuration ''-command-timeout must be >= 0, got '' (ac_commandTimeout cfg))
            else if ac_databases cfg < 1 then Some (ConfigNumber ''-databases must be >= 1, got '' (ac_databases cfg))
            else if ac_cbThreshold cfg < 0
              then Some (ConfigNumber ''-circuit-breaker-threshold must be >= 0, got '' (ac_cbThreshold cfg))
            else if ac_cbThreshold cfg > 0 \<and> ac_cbCooldown cfg \<le> 0
              then Some (ConfigDuration ''-circuit-breaker-cooldown must be > 0 when the breaker is enabled, got '' (ac_cbCooldown cfg))
            else if ac_scanTimeout cfg < 0
              then Some (ConfigDuration ''-scan-timeout must be >= 0, got '' (ac_scanTimeout cfg))
            else None)"

lemma default_valid: "validateConfig defaultConfig = None"
  by (simp add: validateConfig_def defaultConfig_def parseRequestLogLevel_def second_def)

text \<open>
  The ranges a validated configuration is in. The deletion rate is not among them: the ticker's period is
  \<open>1 s / rate\<close> truncated, zero for a rate above \<open>10^9\<close>, for which \<^verbatim>\<open>time.NewTicker\<close> panics.
\<close>

lemma validated_ranges:
  assumes "validateConfig cfg = None"
  shows "1 \<le> ac_deleteBatch cfg \<and> ac_deleteBatch cfg \<le> 25 \<and> 1 \<le> ac_retryMax cfg \<and> 1 \<le> ac_scanCapacity cfg \<and>
    1 \<le> ac_slowlogCapacity cfg \<and> 1 \<le> ac_databases cfg \<and> 0 \<le> ac_maxCollectionResult cfg \<and> 0 \<le> ac_cbThreshold cfg \<and>
    (ac_cbThreshold cfg > 0 \<longrightarrow> ac_cbCooldown cfg > 0) \<and> ac_table cfg \<noteq> [] \<and>
    (\<exists>l. parseRequestLogLevel (ac_requestLog cfg) = Inr l)"
  using assms by (auto simp: validateConfig_def split: if_splits sum.splits)

section \<open>Connecting to DynamoDB\<close>

text \<open>What \<^verbatim>\<open>run\<close> hands to the AWS configuration: an endpoint (url, partition, signing region), credentials.\<close>

record awsOptions =
  aws_retryMax :: int
  aws_region :: "bytes option"
  aws_endpoint :: "(bytes \<times> bytes \<times> bytes) option"
  aws_credentials :: "(bytes \<times> bytes \<times> bytes) option"

definition connectOptions :: "appConfig \<Rightarrow> awsOptions" where
  "connectOptions cfg =
     (let endpointSet = ac_endpointURL cfg \<noteq> [];
          credSet = ac_credAccessKeyID cfg \<noteq> [] \<or> ac_credSecretAccessKey cfg \<noteq> [] \<or> ac_credSessionToken cfg \<noteq> [];
          cfg' = (if endpointSet \<and> \<not> credSet
                  then cfg\<lparr>ac_credAccessKeyID := ''dummy'', ac_credSecretAccessKey := ''dummy''\<rparr> else cfg);
          credSet' = (credSet \<or> endpointSet)
      in \<lparr>aws_retryMax = ac_retryMax cfg,
          aws_region = (if ac_region cfg \<noteq> [] then Some (ac_region cfg) else None),
          aws_endpoint = (if endpointSet then Some (ac_endpointURL cfg, ac_endpointPartitionID cfg, ac_region cfg) else None),
          aws_credentials = (if credSet' then Some (ac_credAccessKeyID cfg', ac_credSecretAccessKey cfg', ac_credSessionToken cfg')
            else None)\<rparr>)"

text \<open>An installed endpoint has a URL and comes with credentials that are not all empty.\<close>

lemma endpoint_usable:
  assumes "aws_endpoint (connectOptions cfg) = Some (url, part, region)"
  shows "url \<noteq> [] \<and> (\<exists>key secret token. aws_credentials (connectOptions cfg) = Some (key, secret, token) \<and>
    (key, secret, token) \<noteq> ([], [], []))"
  using assms by (auto simp: connectOptions_def Let_def split: if_splits)

section \<open>The first sweep\<close>

text \<open>\<open>rnd\<close>: eight random bytes read as a number, or the failure of the random source.\<close>

definition sweepInitialDelay :: "int \<Rightarrow> nat option \<Rightarrow> int" where
  "sweepInitialDelay interval rnd =
     (let maxDelay = min (tdiv interval 8) (30 * minute) in
      if maxDelay \<le> minute then
        (let d = tdiv interval 4 in if d > 0 then d else interval)
      else
        case rnd of
          None \<Rightarrow> tdiv maxDelay 2
        | Some n \<Rightarrow> minute + int n mod (maxDelay - minute))"

lemma sweepInitialDelay_bounds:
  assumes "interval > 0"
  shows "0 < sweepInitialDelay interval rnd \<and> sweepInitialDelay interval rnd \<le> interval \<and>
    sweepInitialDelay interval rnd \<le> 30 * minute"
proof -
  have m: "0 < minute" by (simp add: minute_def second_def)
  let ?d = "min (tdiv interval 8) (30 * minute)"
  have le: "?d \<le> interval div 8" using assms by (simp add: tdiv_def)
  show ?thesis
  proof (cases "?d \<le> minute")
    case True
    then have "tdiv interval 8 \<le> minute" using m by linarith
    then have "interval div 8 \<le> minute" using assms by (simp add: tdiv_def)
    then show ?thesis
      using True assms m by (auto simp: sweepInitialDelay_def Let_def tdiv_def)
  next
    case False
    have le': "?d \<le> 30 * minute" "interval div 8 \<le> interval" using assms by simp_all
    show ?thesis
    proof (cases rnd)
      case None
      then have "sweepInitialDelay interval rnd = ?d div 2"
        using False m by (simp add: sweepInitialDelay_def Let_def tdiv_def)
      then show ?thesis using False m le le' by linarith
    next
      case (Some n)
      define j where "j = int n mod (?d - minute)"
      have "0 \<le> j" "j < ?d - minute" unfolding j_def using False by simp_all
      moreover have "sweepInitialDelay interval rnd = minute + j"
        using False Some by (simp add: sweepInitialDelay_def j_def)
      ultimately show ?thesis using m le le' by linarith
    qed
  qed
qed

text \<open>
  With a non-positive interval the sweeper takes its default of a week and gets no initial delay: it does not
  sweep soon after the start.
\<close>

lemma sweepInitialDelay_default:
  assumes "interval \<le> 0"
  shows "sweepInitialDelay interval rnd = interval"
    and "sc_Interval (fst (NewSweeper b \<lparr>sc_Interval = interval, sc_SweepOnStart = False,
      sc_InitialDelay = sweepInitialDelay interval rnd\<rparr>)) = DefaultSweepInterval"
proof -
  have "tdiv interval 8 \<le> 0" "tdiv interval 4 \<le> 0"
    using assms by (auto simp: tdiv_def)
  moreover have "0 < minute" by (simp add: minute_def second_def)
  ultimately show "sweepInitialDelay interval rnd = interval"
    by (simp add: sweepInitialDelay_def Let_def min_def)
  show "sc_Interval (fst (NewSweeper b \<lparr>sc_Interval = interval, sc_SweepOnStart = False,
      sc_InitialDelay = sweepInitialDelay interval rnd\<rparr>)) = DefaultSweepInterval"
    using assms by (simp add: NewSweeper_def)
qed

section \<open>The schema of an existing table\<close>

text \<open>A table as DescribeTable tells it; names may be missing.\<close>

record tableDescription =
  td_attrs :: "(bytes option \<times> bytes) list"
  td_keys :: "(bytes option \<times> bytes) list"
  td_indexes :: "(bytes option \<times> (bytes option \<times> bytes) list) list"

definition expectedKeyType :: bytes where
  "expectedKeyType = ''B''"

datatype tableError =
    EmptyDescription
  | MissingAttribute bytes bytes
  | WrongAttributeType bytes bytes bytes bytes
  | MissingIndex
  | WrongKeySchema bytes bytes bytes bytes bytes

definition keyTypeHint :: "bytes \<Rightarrow> bytes \<Rightarrow> bytes \<Rightarrow> bytes" where
  "keyTypeHint attr got want =
     (if attr = ''skN'' then []
      else if got = ''B'' \<and> want = ''S'' then ''this looks like a v2 (Binary-key) table; use the v2 proxy for it''
      else if got = ''S'' \<and> want = ''B'' then ''this looks like a v1 (String-key) table; use the v1 proxy for it''
      else [])"

text \<open>The last named HASH and the last named RANGE element count.\<close>

fun schemaKeys :: "(bytes option \<times> bytes) list \<Rightarrow> bytes \<times> bytes \<Rightarrow> bytes \<times> bytes" where
  "schemaKeys [] hr = hr"
| "schemaKeys ((None, _) # ks) hr = schemaKeys ks hr"
| "schemaKeys ((Some a, ty) # ks) (h, r) =
     schemaKeys ks (if ty = ''HASH'' then (a, r) else if ty = ''RANGE'' then (h, a) else (h, r))"

definition checkKeySchema :: "bytes \<Rightarrow> (bytes option \<times> bytes) list \<Rightarrow> bytes \<Rightarrow> bytes \<Rightarrow> tableError option" where
  "checkKeySchema which schema wantHash wantRange =
     (case schemaKeys schema ([], []) of (h, r) \<Rightarrow>
        if h \<noteq> wantHash \<or> r \<noteq> wantRange then Some (WrongKeySchema which h r wantHash wantRange) else None)"

definition attrTypes :: "(bytes option \<times> bytes) list \<Rightarrow> bytes \<rightharpoonup> bytes" where
  "attrTypes ads = fold (\<lambda>(n, ty) m. case n of None \<Rightarrow> m | Some a \<Rightarrow> m(a \<mapsto> ty)) ads Map.empty"

fun checkAttrs :: "(bytes \<rightharpoonup> bytes) \<Rightarrow> (bytes \<times> bytes) list \<Rightarrow> tableError option" where
  "checkAttrs types [] = None"
| "checkAttrs types ((attr, want) # wants) =
     (case types attr of
        None \<Rightarrow> Some (MissingAttribute attr want)
      | Some got \<Rightarrow>
          if got \<noteq> want then Some (WrongAttributeType attr got want (keyTypeHint attr got want)) else checkAttrs types wants)"

definition checkTableCompatible :: "tableDescription option \<Rightarrow> tableError option" where
  "checkTableCompatible t =
     (case t of
        None \<Rightarrow> Some EmptyDescription
      | Some d \<Rightarrow>
          case checkAttrs (attrTypes (td_attrs d)) [(''pk'', expectedKeyType), (''sk'', expectedKeyType), (''skN'', ''N'')] of
            Some err \<Rightarrow> Some err
          | None \<Rightarrow>
              case checkKeySchema ''primary key'' (td_keys d) ''pk'' ''sk'' of
                Some err \<Rightarrow> Some err
              | None \<Rightarrow>
                  case find (\<lambda>(n, _). n = Some ''idx'') (td_indexes d) of
                    None \<Rightarrow> Some MissingIndex
                  | Some (_, ks) \<Rightarrow> checkKeySchema ''index idx'' ks ''pk'' ''skN'')"

text \<open>The tables that pass: exactly those with redimo's key types, primary key and index.\<close>

lemma checkAttrs_None: "checkAttrs types wants = None \<longleftrightarrow> (\<forall>(a, ty) \<in> set wants. types a = Some ty)"
  by (induction types wants rule: checkAttrs.induct) (auto split: option.splits)

lemma checkKeySchema_None: "checkKeySchema which ks h r = None \<longleftrightarrow> schemaKeys ks ([], []) = (h, r)"
  by (auto simp: checkKeySchema_def split: prod.splits)

lemma checkTableCompatible_iff:
  "checkTableCompatible t = None \<longleftrightarrow>
    (\<exists>d n ks. t = Some d \<and> attrTypes (td_attrs d) ''pk'' = Some ''B'' \<and> attrTypes (td_attrs d) ''sk'' = Some ''B'' \<and>
       attrTypes (td_attrs d) ''skN'' = Some ''N'' \<and> schemaKeys (td_keys d) ([], []) = (''pk'', ''sk'') \<and>
       find (\<lambda>(n, _). n = Some ''idx'') (td_indexes d) = Some (n, ks) \<and> schemaKeys ks ([], []) = (''pk'', ''skN''))"
  by (auto simp: checkTableCompatible_def checkAttrs_None checkKeySchema_def expectedKeyType_def
      split: option.splits prod.splits if_splits)

text \<open>Redimo's own table passes; the same table with String keys is refused, and told apart.\<close>

definition redimo_table :: "bytes \<Rightarrow> tableDescription" where
  "redimo_table ty =
     \<lparr>td_attrs = [(Some ''pk'', ty), (Some ''sk'', ty), (Some ''skN'', ''N'')],
      td_keys = [(Some ''pk'', ''HASH''), (Some ''sk'', ''RANGE'')],
      td_indexes = [(Some ''idx'', [(Some ''pk'', ''HASH''), (Some ''skN'', ''RANGE'')])]\<rparr>"

lemma redimo_table_checked:
  "checkTableCompatible (Some (redimo_table ''B'')) = None"
  "checkTableCompatible (Some (redimo_table ''S'')) =
    Some (WrongAttributeType ''pk'' ''S'' ''B'' ''this looks like a v1 (String-key) table; use the v1 proxy for it'')"
  by (simp_all add: checkTableCompatible_def redimo_table_def attrTypes_def checkKeySchema_def expectedKeyType_def
      keyTypeHint_def)

text \<open>
  Waiting for a created table: each poll tells whether the table is ACTIVE, the time after it and whether
  the context is done by the next one. \<open>None\<close>: the polls are over and it is still waiting.
\<close>

datatype waitError = WaitTimeout | WaitCancelled

fun waitTableActive :: "int \<Rightarrow> (bool \<times> int \<times> bool) list \<Rightarrow> (waitError option) option" where
  "waitTableActive deadline [] = None"
| "waitTableActive deadline ((active, now, cancelled) # polls) =
     (if active then Some None
      else if now > deadline then Some (Some WaitTimeout)
      else if cancelled then Some (Some WaitCancelled)
      else waitTableActive deadline polls)"

text \<open>It returns by the first poll after its deadline.\<close>

lemma waitTableActive_returns:
  "\<exists>p \<in> set polls. fst (snd p) > deadline \<Longrightarrow> \<exists>r. waitTableActive deadline polls = Some r"
  by (induction deadline polls rule: waitTableActive.induct) auto

datatype describeResult = DescribeNotFound | DescribeFailed | Described "tableDescription option"

datatype ensureError = EnsureDescribe | EnsureCreate | EnsureWait waitError | EnsureIncompatible tableError

text \<open>\<open>create\<close>: whether the creation failed; \<open>wait\<close>: what waiting for the table came to.\<close>

definition EnsureTable :: "describeResult \<Rightarrow> bool \<Rightarrow> waitError option \<Rightarrow> ensureError option" where
  "EnsureTable descr createFails wait =
     (case descr of
        DescribeFailed \<Rightarrow> Some EnsureDescribe
      | DescribeNotFound \<Rightarrow> if createFails then Some EnsureCreate else map_option EnsureWait wait
      | Described t \<Rightarrow> map_option EnsureIncompatible (checkTableCompatible t))"

section \<open>Assembly\<close>

definition storageOptions :: "appConfig \<Rightarrow> options" where
  "storageOptions cfg =
     \<lparr>TableName = ac_table cfg, EventuallyConsistent = equalFold (ac_consistency cfg) ''eventual'',
      DeleteBatchSize = ac_deleteBatch cfg, OnThrottle = True,
      Breaker = (if ac_cbThreshold cfg > 0 then Some (NewCircuitBreaker (ac_cbThreshold cfg) (ac_cbCooldown cfg)) else None)\<rparr>"

definition routerConfig :: "appConfig \<Rightarrow> config" where
  "routerConfig cfg =
     \<lparr>RequirePass = ac_requirepass cfg, MultiDB = ac_multiDB cfg, cfgDB = ac_databases cfg,
      MaxCollectionResult = ac_maxCollectionResult cfg\<rparr>"

definition DefaultQueueCapacity :: nat where
  "DefaultQueueCapacity = 1024"

text \<open>What the handlers of the process run on: \<open>mk\<close>, \<open>clock\<close> and \<open>now\<close> are the client and the clocks.\<close>

definition process_env where
  "process_env mk clock now cfg =
     stack_env mk clock now (storageOptions cfg) (AsyncDeleter DefaultQueueCapacity) (routerConfig cfg)"

text \<open>The dispatch chain, outermost first; the per-command deadline is not modelled.\<close>

definition process_dispatch ::
    "('s, 'k) senv \<Rightarrow> ('s \<Rightarrow> breaker option) \<Rightarrow> ('s, 'k) router \<Rightarrow> appConfig \<Rightarrow> bool \<Rightarrow> int \<Rightarrow> ('s, 'k) dispatcher" where
  "process_dispatch X get r cfg closing raw =
     onCommand (ac_maxCommandBytes cfg) closing
       (ObservedDispatch X True True (ac_slowlogThreshold cfg)
         (NewBreakerDispatcher X (if ac_cbThreshold cfg > 0 then Some get else None) (Router_Dispatch r))) raw"

definition sweeperOptions :: "appConfig \<Rightarrow> nat option \<Rightarrow> sweeperConfig" where
  "sweeperOptions cfg rnd =
     \<lparr>sc_Interval = ac_sweepInterval cfg, sc_SweepOnStart = False,
      sc_InitialDelay = sweepInitialDelay (ac_sweepInterval cfg) rnd\<rparr>"

text \<open>The embedded client: no password, no workers, synchronous deletion, no metrics, slow log or breaker.\<close>

record embeddedOptions =
  eo_Table :: bytes
  eo_Consistency :: bytes
  eo_MultiDB :: bool
  eo_DB :: int
  eo_MaxCollectionResult :: int
  eo_MaxCommandBytes :: int

definition embedded_env where
  "embedded_env mk clock now opts =
     stack_env mk clock now
       \<lparr>TableName = eo_Table opts, EventuallyConsistent = equalFold (eo_Consistency opts) ''eventual'', DeleteBatchSize = 0,
        OnThrottle = False, Breaker = None\<rparr>
       SyncDeleter
       \<lparr>RequirePass = [], MultiDB = eo_MultiDB opts, cfgDB = eo_DB opts, MaxCollectionResult = eo_MaxCollectionResult opts\<rparr>"

definition embedded_dispatch ::
    "('s, 'k) senv \<Rightarrow> ('s, 'k) router \<Rightarrow> embeddedOptions \<Rightarrow> bool \<Rightarrow> int \<Rightarrow> ('s, 'k) dispatcher" where
  "embedded_dispatch X r opts closing raw =
     onCommand (eo_MaxCommandBytes opts) closing (ObservedDispatch X False False 0 (Router_Dispatch r)) raw"

text \<open>
  Both run the handlers on a store that keeps the contract, over a client that does, so the theorems on the
  command families hold of both.
\<close>

lemma assemblies_conform:
  assumes "\<And>name ev. redimo_client (mk name ev) view now ord zord"
    and "\<And>name ev pk i j. implements view (rc_LRANGE (mk name ev) pk i j) (rc_LRANGE (ref_client ord zord) pk i j)"
  shows "conforming_env (process_env mk clock now cfg) (\<lambda>s. view (table (ts_inner s)))"
    and "conforming_env (embedded_env mk clock now opts) (\<lambda>s. view (table (ts_inner s)))"
  unfolding process_env_def embedded_env_def
  by (rule stack_env_conforms [where ord = ord and zord = zord], rule assms, rule assms)+

text \<open>
  The dispatchers differ in what they record, not in what they reply: with the breaker off, a command that
  both accept gets the same reply and leaves the same connection and world.
\<close>

lemma observed_reply:
  assumes "ObservedDispatch X m sl th inner args s = Some (r, s')" and "args \<noteq> []"
  obtains s1 where "inner args (set_conn (\<lambda>c. c\<lparr>cn_obs := ResetErrored (cn_obs c)\<rparr>) s) = Some (r, s1)"
    and "sv_conn s' = sv_conn s1" and "sv_world s' = sv_world s1"
  using assms by (auto simp: ObservedDispatch_def Let_def split: option.splits prod.splits if_splits)

lemma assemblies_reply_alike:
  assumes "ac_cbThreshold cfg \<le> 0" and "ac_maxCommandBytes cfg = eo_MaxCommandBytes opts"
    and "process_dispatch X get r cfg closing raw args s = Some (rp, s1)"
    and "embedded_dispatch X r opts closing raw args s = Some (re, s2)"
  shows "rp = re \<and> sv_conn s1 = sv_conn s2 \<and> sv_world s1 = sv_world s2"
proof (cases "args = [] \<or> (eo_MaxCommandBytes opts > 0 \<and> raw > eo_MaxCommandBytes opts) \<or> closing")
  case True
  then show ?thesis using assms by (auto simp: process_dispatch_def embedded_dispatch_def onCommand_def split: if_splits)
next
  case False
  then have p: "ObservedDispatch X True True (ac_slowlogThreshold cfg) (Router_Dispatch r) args s = Some (rp, s1)"
    and e: "ObservedDispatch X False False 0 (Router_Dispatch r) args s = Some (re, s2)" and ne: "args \<noteq> []"
    using assms by (auto simp: process_dispatch_def embedded_dispatch_def onCommand_def NewBreakerDispatcher_def split: if_splits)
  show ?thesis
    by (rule observed_reply [OF p ne], rule observed_reply [OF e ne]) simp
qed

section \<open>Startup\<close>

datatype bindResult = Bound bytes | AddrInUse | BindFails

definition bindMetrics :: "(bytes \<Rightarrow> bindResult) \<Rightarrow> bytes \<Rightarrow> bindResult" where
  "bindMetrics listen addr = (case listen addr of AddrInUse \<Rightarrow> listen '':0'' | r \<Rightarrow> r)"

text \<open>What the surroundings answer: AWS configuration, DescribeTable and what follows it, the probe, the listeners.\<close>

record surroundings =
  su_awsFails :: bool
  su_describe :: describeResult
  su_createFails :: bool
  su_wait :: "waitError option"
  su_probe :: "bytes option"
  su_metricsListen :: "bytes \<Rightarrow> bindResult"
  su_respListen :: "bytes \<Rightarrow> bindResult"

datatype startError =
    StartConfig configError | StartAWS | StartTable ensureError | StartBackend bytes | StartMetrics | StartListen

text \<open>The checks of \<^verbatim>\<open>run\<close> in their order; serving with the metrics address otherwise.\<close>

definition startup :: "appConfig \<Rightarrow> surroundings \<Rightarrow> startError + bytes" where
  "startup cfg su =
     (case validateConfig cfg of Some e \<Rightarrow> Inl (StartConfig e) | None \<Rightarrow>
      if su_awsFails su then Inl StartAWS else
      case (if ac_autoCreateTable cfg then EnsureTable (su_describe su) (su_createFails su) (su_wait su) else None) of
        Some e \<Rightarrow> Inl (StartTable e)
      | None \<Rightarrow>
          case su_probe su of Some e \<Rightarrow> Inl (StartBackend e)
          | None \<Rightarrow>
              case bindMetrics (su_metricsListen su) (ac_metricsAddr cfg) of
                Bound addr \<Rightarrow> (case su_respListen su (ac_addr cfg) of Bound _ \<Rightarrow> Inr addr | _ \<Rightarrow> Inl StartListen)
              | _ \<Rightarrow> Inl StartMetrics)"

text \<open>
  A process that serves has a valid configuration, a reachable backend and, if it looked, a table of
  redimo's schema; and a launch that does not ask for it never looks at the table.
\<close>

lemma startup_serves:
  assumes "startup cfg su = Inr addr"
  shows "validateConfig cfg = None \<and> su_probe su = None \<and>
    (ac_autoCreateTable cfg \<longrightarrow> (\<forall>t. su_describe su = Described t \<longrightarrow> checkTableCompatible t = None))"
  using assms
  by (auto simp: startup_def EnsureTable_def split: option.splits if_splits bindResult.splits)

lemma startup_without_auto_create:
  "\<not> ac_autoCreateTable cfg \<Longrightarrow> startup cfg (su\<lparr>su_describe := d, su_createFails := b, su_wait := w\<rparr>) = startup cfg su"
  by (cases "validateConfig cfg"; cases "su_probe su";
      cases "bindMetrics (su_metricsListen su) (ac_metricsAddr cfg)") (simp_all add: startup_def)

section \<open>Instance identifiers\<close>

definition hexDigits :: bytes where
  "hexDigits = ''0123456789abcdef''"

definition hexEncode :: "nat list \<Rightarrow> bytes" where
  "hexEncode bs = concat (map (\<lambda>b. [hexDigits ! (b div 16), hexDigits ! (b mod 16)]) bs)"

text \<open>\<open>rnd\<close>: eight random bytes, or the failure of the random source.\<close>

definition newInstID :: "nat list option \<Rightarrow> bytes" where
  "newInstID rnd = (case rnd of None \<Rightarrow> ''inst-0'' | Some bs \<Rightarrow> ''inst-'' @ hexEncode bs)"

lemma hexDigits_inj: "m < 16 \<Longrightarrow> n < 16 \<Longrightarrow> hexDigits ! m = hexDigits ! n \<longleftrightarrow> m = n"
  by (rule nth_eq_iff_index_eq) (simp_all add: hexDigits_def)

lemma hexEncode_inj:
  "list_all (\<lambda>b. b < 256) as \<Longrightarrow> list_all (\<lambda>b. b < 256) bs \<Longrightarrow> hexEncode as = hexEncode bs \<longleftrightarrow> as = bs"
proof (induction as arbitrary: bs)
  case Nil
  then show ?case by (cases bs) (simp_all add: hexEncode_def)
next
  case (Cons a as)
  show ?case
  proof (cases bs)
    case Nil
    then show ?thesis by (simp add: hexEncode_def)
  next
    case bs: (Cons b bs')
    have "hexDigits ! (a div 16) = hexDigits ! (b div 16) \<and> hexDigits ! (a mod 16) = hexDigits ! (b mod 16) \<longleftrightarrow>
        a div 16 = b div 16 \<and> a mod 16 = b mod 16"
      using Cons.prems bs hexDigits_inj [of "a div 16" "b div 16"] hexDigits_inj [of "a mod 16" "b mod 16"]
      by (simp add: div_less_iff_less_mult)
    also have "\<dots> \<longleftrightarrow> a = b" by (metis div_mult_mod_eq)
    finally show ?thesis using Cons.IH [of bs'] Cons.prems bs by (auto simp: hexEncode_def)
  qed
qed

text \<open>Instances that drew different bytes have different names, so a cursor of one is not taken for another's.\<close>

lemma newInstID_distinct:
  assumes "list_all (\<lambda>b. b < 256) as" and "list_all (\<lambda>b. b < 256) bs"
  shows "newInstID (Some as) = newInstID (Some bs) \<longleftrightarrow> as = bs"
  using hexEncode_inj [OF assms] by (simp add: newInstID_def)

section \<open>Shutdown\<close>

text \<open>
  The gate between commands and \<^verbatim>\<open>Drain\<close>: a command is admitted only while the shell is not closing, and
  \<^verbatim>\<open>Drain\<close> closes it and waits until none is in flight. \<open>None\<close>: the event cannot happen now.
\<close>

record shell =
  sh_closing :: bool
  sh_inflight :: nat

datatype shellEvent = Admit | Refuse | Return | CloseShell

fun shell_step :: "shellEvent \<Rightarrow> shell \<Rightarrow> shell option" where
  "shell_step Admit s = (if sh_closing s then None else Some (s\<lparr>sh_inflight := sh_inflight s + 1\<rparr>))"
| "shell_step Refuse s = (if sh_closing s then Some s else None)"
| "shell_step Return s = (if sh_inflight s = 0 then None else Some (s\<lparr>sh_inflight := sh_inflight s - 1\<rparr>))"
| "shell_step CloseShell s = Some (s\<lparr>sh_closing := True\<rparr>)"

fun shell_run :: "shellEvent list \<Rightarrow> shell \<Rightarrow> shell option" where
  "shell_run [] s = Some s"
| "shell_run (e # es) s = (case shell_step e s of None \<Rightarrow> None | Some s' \<Rightarrow> shell_run es s')"

definition drained :: "shell \<Rightarrow> bool" where
  "drained s \<longleftrightarrow> sh_closing s \<and> sh_inflight s = 0"

text \<open>
  Once drained the shell admits no command any more: what the deleter is asked to finish by the
  \<^verbatim>\<open>Stop\<close> that follows is all there will be. While closing, each command that returns brings it nearer.
\<close>

lemma closing_only_returns:
  assumes "sh_closing s" and "shell_run es s = Some s'"
  shows "sh_closing s' \<and> Admit \<notin> set es \<and> sh_inflight s' + length (filter (\<lambda>e. e = Return) es) = sh_inflight s"
  using assms
proof (induction es arbitrary: s)
  case (Cons e es)
  then obtain t where t: "shell_step e s = Some t" "shell_run es t = Some s'" by (auto split: option.splits)
  have "sh_closing t" "e \<noteq> Admit" "sh_inflight t + (if e = Return then 1 else 0) = sh_inflight s"
    using t(1) Cons.prems(1) by (cases e; auto split: if_splits)+
  then show ?case using Cons.IH [OF _ t(2)] by auto
qed simp

lemma drained_forever: "drained s \<Longrightarrow> shell_run es s = Some s' \<Longrightarrow> drained s' \<and> Admit \<notin> set es"
  using closing_only_returns by (fastforce simp: drained_def)

text \<open>The stages of the shutdown, in order, with the budget a stage is warned about.\<close>

definition shutdownStages :: "(bytes \<times> int) list" where
  "shutdownStages =
     [(''server-drain'', 3 * second), (''probe-stop'', 2 * second), (''sweeper-stop'', 2 * second),
      (''deleter-drain'', 3 * second), (''metrics-close'', 2 * second)]"

end
