(* ===== verification/Spec2Isabelle.thy ===== *)
theory Spec2Isabelle
  imports Resp Args Ranges FloatArgs Scores Glob Bits Bitfield Geohash ScanRegistry Store Runtime Keys Strings BitCmds
    StringSpec Lists ListSpec Collections Hashes HashSpec Sets SetSpec ZSets ZSetSpec WrongType Redimo RedimoSpec Racing Throttle Stack
    Slowlog ScanStore Hll HllSpec Geo Server Scans Connection Commands Dispatch DispatchSpec Gate
    Workers Pipe ReadPath Deploy
begin

text \<open>
  Verification library of redimos, a proxy that serves the Redis 3.2 protocol over one DynamoDB table.

  \<^bold>\<open>The program.\<close> A RESP server (\<^verbatim>\<open>internal/server\<close>, \<^verbatim>\<open>internal/resp\<close>) hands each parsed command of a
  connection to a chain of dispatchers (\<^verbatim>\<open>internal/command\<close>: observing, circuit breaker, deadline, router).
  The router looks the command up in its table, checks arity and authentication, and runs a handler. A
  handler checks sizes (\<^verbatim>\<open>internal/guard\<close>), keeps the key's meta item (\<^verbatim>\<open>internal/meta\<close>: type, expiry,
  member count) and its members through the storage seam (\<^verbatim>\<open>internal/storage\<close>), which is implemented by
  the redimo client under a decorator that classifies throttling and feeds the breaker. Deleted keys lose
  their meta item at once; their members are reclaimed by a background worker (the lazy deleter) with a
  sweeper as its backstop. SCAN keeps cursors in \<^verbatim>\<open>internal/scan\<close>, telemetry is in \<^verbatim>\<open>internal/metrics\<close>.
  The root package embeds the same stack behind an in-memory connection.

  \<^bold>\<open>Theories and code.\<close>
  \<^item> \<open>Prelude\<close>: bytes, decimal texts, lists; \<open>Float64\<close>, \<open>FloatSpec\<close>, \<open>FloatArgs\<close>, \<open>Scores\<close>: doubles as
    sign, mantissa and exponent, \<^verbatim>\<open>strconv.ParseFloat\<close> and \<^verbatim>\<open>FormatFloat\<close>, scores and their texts.
  \<^item> \<open>Resp\<close> (\<^verbatim>\<open>resp/writer.go\<close>, \<^verbatim>\<open>conn.go\<close>), \<open>Args\<close> (\<^verbatim>\<open>args.go\<close>), \<open>Ranges\<close>, \<open>Glob\<close> (\<^verbatim>\<open>glob.go\<close>),
    \<open>Bits\<close>, \<open>Bitfield\<close>, \<open>Geohash\<close>: the pure routines, at their integer widths.
  \<^item> \<open>Store\<close>: the Store interface of \<^verbatim>\<open>storage/store.go\<close> as a record of operations, the abstract table
    \<open>tbl\<close> and the operation \<open>sp_X\<close> each \<open>st_X\<close> promises; the locale \<open>store_contract\<close> is that promise, for
    operations that run one after another and do not fail in the backend. Where comments of the code
    contradict each other the contract asks for no more than they agree on: a HINCRBYFLOAT with a result
    that is not finite may be refused or stored, and LRANGE with a negative index is a law of
    \<open>store_contract\<close> that its part \<open>store_core\<close> leaves out.
    \<open>Redimo\<close>, \<open>RedimoSpec\<close>: the implementation over the redimo client (\<^verbatim>\<open>store_*.go\<close>) and the proof that
    it meets \<open>store_core\<close> whenever the client's calls succeed and do what is documented of them, and the
    whole contract if its LRANGE counts a negative index from the end of the list; \<open>Racing\<close>: its compare-and-set loops
    under concurrent writers; \<open>Throttle\<close>: breaker and decorator; \<open>Stack\<close>: \<^verbatim>\<open>storage.New\<close>.
  \<^item> \<open>Runtime\<close>: world, environment and combinators of handlers, size guard, MetaStore, lazy deleter, the
    helpers of \<^verbatim>\<open>datacmd.go\<close> and \<^verbatim>\<open>state.go\<close>; the relation \<open>sim\<close> transports runs over any conforming
    store to runs over the abstract table. \<open>Collections\<close>: what the collection families share.
  \<^item> \<open>Keys\<close>, \<open>Strings\<close>, \<open>BitCmds\<close>, \<open>Lists\<close>, \<open>Hashes\<close>, \<open>Sets\<close>, \<open>ZSets\<close>, \<open>Hll\<close>, \<open>Geo\<close>, \<open>Scans\<close>,
    \<open>Connection\<close>, \<open>Slowlog\<close>: the handlers of the files of the same names, one definition per handler.
  \<^item> \<open>StringSpec\<close>, \<open>ListSpec\<close>, \<open>HashSpec\<close>, \<open>SetSpec\<close>, \<open>ZSetSpec\<close>, \<open>HllSpec\<close>: what the families promise, each
    as operations of an abstract value (string, list, finite map, finite set, scored map, registers), and
    the proof that the handlers do that over every conforming store; \<open>WrongType\<close>: the refusal they share.
  \<^item> \<open>ScanRegistry\<close>, \<open>ScanStore\<close>: cursors and paging; \<open>Server\<close>: the state of a served connection;
    \<open>Commands\<close>: the registrations; \<open>Dispatch\<close>, \<open>DispatchSpec\<close>, \<open>Gate\<close>: table, router, decorators, server
    callback, and the authentication gate over whole conversations.
  \<^item> \<open>Workers\<close>: deleter, sweeper and probe as step relations; \<open>ReadPath\<close>: \<^verbatim>\<open>meta/read.go\<close>; \<open>Pipe\<close>:
    \<^verbatim>\<open>bufconn.go\<close>, \<^verbatim>\<open>closer.go\<close>, \<^verbatim>\<open>inproc.go\<close>; \<open>Deploy\<close>: flags, startup checks, table schema, assembly,
    shutdown.

  \<^bold>\<open>How code is modelled.\<close> A handler is a function from the world to one reply and the new world; errors of
  the store are a sum, \<open>attempt\<close> and \<open>bindE\<close> are Go's error returns. Go's \<^verbatim>\<open>int64\<close> arithmetic is written with
  \<open>wrap64\<close> on integers where it can wrap, words are used where the code works on bits. Strings and byte
  slices are character lists. Retried loops carry the code's own bound (\<open>MaxRMWRetries\<close>, 50) or a fuel
  that a lemma shows sufficient: \<open>drain\<close> takes the length of the queue, the integer square root its 82
  result bits, \<open>Hll\<close>'s pattern length the 64 bits of the hash. \<open>Save\<close> draws cursors from a random source
  and is \<open>partial_function (option)\<close>; that it returns is a theorem. A blocking read and the goroutines are
  step relations or sequences of attempts, over which the theorems quantify.

  \<^bold>\<open>Parameters.\<close> The redimo client (record \<open>redimo\<close>, with its documented behaviour as the locale
  \<open>redimo_client\<close> and a reference client that has it), the clocks, the random choice of members, the source of
  cursors, the iteration order of Go maps, the logarithm and trigonometry of \<^verbatim>\<open>math\<close>, the addition DynamoDB
  does natively on a Number, the answers of DescribeTable and of the listeners.

  \<^bold>\<open>What the theorems show.\<close> Replies are self-delimiting and decode to what was written, if their status
  and error texts are single lines (\<open>pfdebug_breaks_framing\<close> shows the command that breaks this); parsers
  accept exactly their languages; each command on one key of a family, but the paging HSCAN, SSCAN and
  ZSCAN, refines an operation of the family's abstract data type over every conforming store, with the
  member counter equal to the number of members; wrong types are refused without a write; increments
  are atomic under every schedule; logical databases are isolated; a client that has not authenticated
  changes nothing; the cursor registry keeps its invariant, and a cursor lives until its time is over
  or the least-recently-used rule drops it; the deleter, uninterrupted, spares live keys, and in every
  interleaving keeps its order and finishes when stopped; the breaker opens when it should, half-open
  probes apart; the stack the process builds keeps the contract all this rests on. The refinement
  theorems start from a key whose counter and members agree and an absent key without leftover members;
  \<open>recreate_resurrects\<close> and \<open>recreate_race\<close> show what happens when a deleted key is recreated before the
  asynchronous worker is done with it, \<open>zadd_ch_miscounts_expired_key\<close> what ZADD CH does to an expired
  key, and \<open>pfadd_overwrites_empty_string\<close> what PFADD does to an empty String.

  \<^bold>\<open>Not modelled.\<close> Contexts and deadlines (\<^verbatim>\<open>timeout.go\<close>): a cancelled operation is an error of the store.
  Handlers run one at a time, except where \<open>Racing\<close> and \<open>Workers\<close> interleave them. Prometheus, HTTP, AWS
  SDK middleware (\<^verbatim>\<open>ddbobs\<close>, \<^verbatim>\<open>metrics/dynamo.go\<close>), redcon, go-redis and log texts are library calls;
  \<^verbatim>\<open>unsupported.go\<close> and \<^verbatim>\<open>command.go\<close> hold comments; \<^verbatim>\<open>test/difftest\<close> is a test harness. A negative zero
  is stored without its sign, as DynamoDB does; a compiler that fuses multiply and add (arm64) may round
  GEO distances differently from the model, which rounds each operation.
\<close>

end
